(* ===== verification/NemuPrelude.thy ===== *)
theory NemuPrelude
  imports Main "HOL-Library.Word"
begin

text \<open>
  The vocabulary every other theory of the library shares.

  \<^item> Names for the fixed-width C types (\<open>uint8_t\<close> to \<open>uint64_t\<close>, \<open>word_t\<close>, \<open>vaddr_t\<close>, \<open>paddr_t\<close>).
  \<^item> The ways the host process can die while it runs the emulator, as the datatype \<open>fault\<close>;
    a C function that may die returns \<open>fault + 'a\<close>, and \<open>bnd\<close> sequences two of them the
    way consecutive C statements do; \<open>obnd\<close> does so where the first may also run forever.
  \<^item> Byte-addressed storage (\<open>nat \<Rightarrow> u8\<close>) with little-endian accessors of one, two and four
    bytes, as the host casts \<open>*(uint16_t *)p\<close> and \<open>*(uint32_t *)p\<close> do.
  \<^item> The collections \<open>nemu_simps\<close> (operations to unfold) and \<open>bnd_simps\<close> (sequencing).
\<close>

unbundle bit_operations_syntax

named_theorems nemu_simps "definitions the component proofs unfold"
named_theorems bnd_simps "rules that run a sequence of fallible statements"

section \<open>C integer types\<close>

type_synonym u8 = "8 word"
type_synonym u16 = "16 word"
type_synonym u32 = "32 word"
type_synonym u64 = "64 word"

section \<open>Dying, and sequencing what may die\<close>

datatype fault =
    Assert_Fail    \<comment> \<open>\<open>assert(cond)\<close> or \<open>Assert(cond, ...)\<close> with a false condition\<close>
  | Panic          \<comment> \<open>\<open>panic(...)\<close>\<close>
  | Todo           \<comment> \<open>\<open>TODO()\<close>, which is a panic with a fixed message\<close>
  | Div_Trap       \<comment> \<open>the host's division trap: divisor 0, or \<open>INT_MIN / -1\<close>\<close>
  | Out_Of_Bounds  \<comment> \<open>a host access outside the array it indexes: undefined behaviour in C\<close>
  | Bad_Free       \<comment> \<open>\<open>free\<close> of a pointer that \<open>malloc\<close> did not return: undefined behaviour in C\<close>
  | Bad_Shift      \<comment> \<open>a shift by the width of its operand or more: undefined behaviour in C\<close>
  | Int_Overflow   \<comment> \<open>a signed result outside \<open>int\<close>: undefined behaviour in C\<close>
  | Conn_Closed    \<comment> \<open>\<open>errx\<close> after the peer of a connection has closed it\<close>

fun bnd :: "fault + 'a \<Rightarrow> ('a \<Rightarrow> fault + 'b) \<Rightarrow> fault + 'b" where
  "bnd (Inl e) f = Inl e"
| "bnd (Inr x) f = f x"

text \<open>A function with a loop that may not end: \<open>None\<close> when it does not.\<close>

definition obnd :: "(fault + 'a) option \<Rightarrow> ('a \<Rightarrow> (fault + 'b) option) \<Rightarrow> (fault + 'b) option" where
  "obnd r f = (case r of None \<Rightarrow> None | Some (Inl e) \<Rightarrow> Some (Inl e) | Some (Inr x) \<Rightarrow> f x)"

lemma obnd_simps [simp]:
  "obnd None f = None" "obnd (Some (Inl e)) f = Some (Inl e)" "obnd (Some (Inr x)) f = f x"
  by (simp_all add: obnd_def)

definition c_assert :: "bool \<Rightarrow> fault + unit" where
  "c_assert c = (if c then Inr () else Inl Assert_Fail)"

definition c_panic_unless :: "bool \<Rightarrow> fault + unit" where
  "c_panic_unless c = (if c then Inr () else Inl Panic)"

lemma bnd_eq_Inr [bnd_simps]: "bnd m f = Inr y \<longleftrightarrow> (\<exists>x. m = Inr x \<and> f x = Inr y)"
  by (cases m) auto

lemma bnd_assoc: "bnd (bnd m f) g = bnd m (\<lambda>x. bnd (f x) g)"
  by (cases m) auto

lemma bnd_cong [fundef_cong]:
  "m = m' \<Longrightarrow> (\<And>x. m' = Inr x \<Longrightarrow> f x = f' x) \<Longrightarrow> bnd m f = bnd m' f'"
  by (cases m') auto

lemma bnd_if: "bnd (if b then m else n) f = (if b then bnd m f else bnd n f)"
  by simp

lemma c_assert_eq_Inr [simp]: "c_assert c = Inr u \<longleftrightarrow> c"
  by (simp add: c_assert_def)

lemma c_assert_True [simp]: "c_assert True = Inr ()"
  by (simp add: c_assert_def)

lemma c_assert_False [simp]: "c_assert False = Inl Assert_Fail"
  by (simp add: c_assert_def)

lemma c_panic_unless_eq_Inr [simp]: "c_panic_unless c = Inr u \<longleftrightarrow> c"
  by (simp add: c_panic_unless_def)

lemma c_panic_unless_True [simp]: "c_panic_unless True = Inr ()"
  by (simp add: c_panic_unless_def)

lemma c_panic_unless_False [simp]: "c_panic_unless False = Inl Panic"
  by (simp add: c_panic_unless_def)

section \<open>Little-endian access to byte storage\<close>

type_synonym bytes = "nat \<Rightarrow> u8"

definition byte_at :: "nat \<Rightarrow> u32 \<Rightarrow> u8" where
  "byte_at i w = ucast (drop_bit (8 * i) w)"

definition get16 :: "bytes \<Rightarrow> nat \<Rightarrow> u32" where
  "get16 m a = ucast (m a) OR push_bit 8 (ucast (m (a + 1)))"

definition get32 :: "bytes \<Rightarrow> nat \<Rightarrow> u32" where
  "get32 m a = ucast (m a) OR push_bit 8 (ucast (m (a + 1)))
     OR push_bit 16 (ucast (m (a + 2))) OR push_bit 24 (ucast (m (a + 3)))"

definition put16 :: "bytes \<Rightarrow> nat \<Rightarrow> u32 \<Rightarrow> bytes" where
  "put16 m a w = m(a := byte_at 0 w, a + 1 := byte_at 1 w)"

definition put32 :: "bytes \<Rightarrow> nat \<Rightarrow> u32 \<Rightarrow> bytes" where
  "put32 m a w = m(a := byte_at 0 w, a + 1 := byte_at 1 w, a + 2 := byte_at 2 w, a + 3 := byte_at 3 w)"

text \<open>\<open>len\<close> bytes of a little-endian word, the shape the length-indexed accessors take.\<close>

definition get_n :: "nat \<Rightarrow> bytes \<Rightarrow> nat \<Rightarrow> u32" where
  "get_n n m a = (if n = 1 then ucast (m a) else if n = 2 then get16 m a else get32 m a)"

definition put_n :: "nat \<Rightarrow> bytes \<Rightarrow> nat \<Rightarrow> u32 \<Rightarrow> bytes" where
  "put_n n m a w = (if n = 1 then m(a := byte_at 0 w) else if n = 2 then put16 m a w else put32 m a w)"

lemma bit_byte_at: "bit (byte_at i w) k \<longleftrightarrow> k < 8 \<and> bit w (8 * i + k)"
  by (auto simp: byte_at_def bit_simps)

lemma get32_put32 [simp]: "get32 (put32 m a w) a = w"
proof (rule bit_word_eqI)
  fix n assume "n < LENGTH(32)"
  then have n: "n < 32" by simp
  consider "n < 8" | "8 \<le> n \<and> n < 16" | "16 \<le> n \<and> n < 24" | "24 \<le> n" by linarith
  then show "bit (get32 (put32 m a w) a) n = bit w n"
    using n by cases (auto simp: get32_def put32_def bit_simps bit_byte_at)
qed

lemma get16_put16 [simp]: "get16 (put16 m a w) a = take_bit 16 w"
proof (rule bit_word_eqI)
  fix n assume "n < LENGTH(32)"
  then show "bit (get16 (put16 m a w) a) n = bit (take_bit 16 w) n"
    by (auto simp: get16_def put16_def bit_simps bit_byte_at)
qed

lemma put32_other: "b \<notin> {a ..< a + 4} \<Longrightarrow> put32 m a w b = m b"
  by (auto simp: put32_def)

lemma put16_other: "b \<notin> {a ..< a + 2} \<Longrightarrow> put16 m a w b = m b"
  by (auto simp: put16_def)

lemma get_put_n:
  assumes "n \<in> {1, 2, 4}"
  shows "get_n n (put_n n m a w) a = take_bit (8 * n) w"
proof -
  have "(ucast (byte_at 0 w) :: u32) = take_bit 8 w"
    by (rule bit_word_eqI) (auto simp: bit_simps bit_byte_at)
  moreover have "take_bit 32 w = w"
    by (rule bit_word_eqI) (simp add: bit_simps)
  ultimately show ?thesis
    using assms by (auto simp: get_n_def put_n_def)
qed

lemma put_n_other:
  "n \<in> {1, 2, 4} \<Longrightarrow> b \<notin> {a ..< a + n} \<Longrightarrow> put_n n m a w b = m b"
  by (auto simp: put_n_def put32_other put16_other)

lemma get_n_cong:
  "n \<in> {1, 2, 4} \<Longrightarrow> (\<And>b. b \<in> {a ..< a + n} \<Longrightarrow> m b = m' b) \<Longrightarrow> get_n n m a = get_n n m' a"
  by (auto simp: get_n_def get16_def get32_def)

text \<open>Accesses to disjoint ranges do not disturb each other.\<close>

lemma get_n_put_n_disjoint:
  assumes "n \<in> {1, 2, 4}" and "k \<in> {1, 2, 4}" and "{a ..< a + n} \<inter> {b ..< b + k} = {}"
  shows "get_n n (put_n k m b w) a = get_n n m a"
  using assms by (intro get_n_cong) (auto simp: put_n_other)

section \<open>Bit fields\<close>

text \<open>
  A C bit field of width \<open>n\<close> whose lowest bit is bit \<open>lo\<close>, read as \<open>uint32_t\<close> or, sign-extended,
  as \<open>int32_t\<close>.
\<close>

definition bf :: "nat \<Rightarrow> nat \<Rightarrow> u32 \<Rightarrow> u32" where
  "bf lo n w = take_bit n (drop_bit lo w)"

definition sbf :: "nat \<Rightarrow> nat \<Rightarrow> u32 \<Rightarrow> u32" where
  "sbf lo n w = signed_take_bit (n - 1) (drop_bit lo w)"

lemma unat_bf_less: "unat (bf lo n w) < 2 ^ n"
  by (simp add: bf_def unsigned_take_bit_eq)

lemma bf5_less [simp]: "unat (bf lo 5 w) < 32"
  using unat_bf_less [of lo 5 w] by simp

section \<open>Word facts shared by the components\<close>

lemma shift_mask_31: "x AND 31 = take_bit 5 (x :: u32)"
  by (simp add: take_bit_eq_mask mask_eq_exp_minus_1)

lemma unat_take_bit_le: "unat (take_bit n (x :: 'a::len word)) < 2 ^ n"
  by (simp add: unsigned_take_bit_eq)

lemma u32_less_4G [simp]: "unat (x :: u32) < 4294967296"
  using unsigned_less [of x] by simp

text \<open>A sum of two 32-bit numbers that has not become smaller has not wrapped.\<close>

lemma no_wrap:
  "a \<le> (a + c) mod 4294967296 \<Longrightarrow> a < 4294967296 \<Longrightarrow> c < 4294967296 \<Longrightarrow> (a + c) mod 4294967296 = a + (c :: nat)"
proof (cases "a + c < 4294967296")
  case False
  assume less: "a \<le> (a + c) mod 4294967296" "a < 4294967296" "c < 4294967296"
  have "(a + c) mod 4294967296 = (a + c - 4294967296) mod 4294967296" using False by (simp add: le_mod_geq)
  also have "\<dots> = a + c - 4294967296" using less(2,3) by (intro mod_less) linarith
  finally show ?thesis using less False by linarith
qed simp

end
