(* ===== verification/Machine.thy ===== *)
theory Machine
  imports NemuPrelude
begin

text \<open>
  The state of one NEMU process: every file-scope variable of \<open>nemu/src\<close> that the modelled
  code reads or writes, grouped the way the C files group them, and the part of the host
  (clock, terminal, SDL) those files talk to.

  Pointers into \<open>io_space\<close> are offsets (\<open>nat\<close>). Handlers stored as function pointers are the
  constructors of \<open>io_callback\<close> and \<open>alarm_handler\<close>, one per C function that is ever stored.
\<close>

section \<open>The build\<close>

text \<open>
  \<open>__ISA__\<close> selects one of three headers \<open>include/isa/*.h\<close> when NEMU is compiled. It is a
  field of the process state that no operation changes.
\<close>

datatype ISA = X86 | Mips32 | Riscv32

definition IMAGE_START :: "ISA \<Rightarrow> u32" where
  "IMAGE_START isa = 0x100000"

definition PMEM_BASE :: "ISA \<Rightarrow> u32" where
  "PMEM_BASE isa = (case isa of X86 \<Rightarrow> 0 | Mips32 \<Rightarrow> 0x80000000 | Riscv32 \<Rightarrow> 0x80000000)"

definition NR_GPR :: "ISA \<Rightarrow> nat" where
  "NR_GPR isa = (case isa of X86 \<Rightarrow> 8 | Mips32 \<Rightarrow> 32 | Riscv32 \<Rightarrow> 32)"

section \<open>CPU and monitor\<close>

text \<open>
  \<open>CPU_state\<close> is \<open>riscv32_CPU_state\<close>, \<open>mips32_CPU_state\<close> or \<open>x86_CPU_state\<close> according to the
  build: a register file (32, 32 or 8 entries) and the program counter.
\<close>

record CPU_state =
  gpr :: "u32 list"
  pc :: u32

datatype nemu_status = NEMU_STOP | NEMU_RUNNING | NEMU_END | NEMU_ABORT | NEMU_QUIT

record NEMUState =
  status :: nemu_status
  halt_pc :: u32
  halt_ret :: u32

section \<open>The I/O bus\<close>

datatype io_callback =
    NULL_callback
  | Serial_io_handler
  | Rtc_io_handler
  | I8042_data_io_handler
  | Audio_io_handler
  | Audio_sbuf_handler

record IOMap =
  name :: string
  low :: u32
  high :: u32
  space :: nat
  callback :: io_callback

record io_bus =
  io_space :: bytes
  p_space :: nat
  mmio_maps :: "IOMap list"
  pio_maps :: "IOMap list"

section \<open>Devices\<close>

text \<open>The base pointers the \<open>init_*\<close> functions obtain from \<open>new_space\<close>.\<close>

record dev_bases =
  serial_base :: nat
  rtc_port_base :: nat
  vgactl_port_base :: nat
  vmem :: nat
  i8042_data_port_base :: nat
  audio_base :: nat
  sbuf :: nat

record keyboard =
  key_queue :: "u32 list"
  key_f :: nat
  key_r :: nat

text \<open>
  \<open>count\<close> is a C \<open>int\<close> whose overflow is undefined; it is an \<open>int\<close> here. \<open>spec\<close> holds the fields
  of the \<open>SDL_AudioSpec\<close> the driver fills in, at SDL's widths.
\<close>

record audio_spec =
  freq :: u32
  channels :: u8
  samples :: u16

record audio =
  count :: int
  qhead :: nat
  spec :: audio_spec

datatype alarm_handler = Timer_intr | Set_device_update_flag

record alarm =
  handlers :: "alarm_handler list"
  jiffy :: u32
  device_update_flag :: bool

section \<open>The host\<close>

text \<open>
  SDL events carry the scancode as SDL's \<open>int\<close>-sized enumeration. \<open>keymap\<close> is the table of
  \<open>keyboard.c\<close>; its indices are SDL's scancode constants, so it is a parameter of the state.
  \<open>host_now\<close> is what the next \<open>gettimeofday\<close> returns (microseconds, seconds).
\<close>

datatype SDL_Event = SDL_QUIT | SDL_KEYDOWN u32 | SDL_KEYUP u32 | SDL_OTHER

record host =
  host_now :: "u32 \<times> u32"
  serial_out :: "u8 list"
  sdl_events :: "SDL_Event list"
  texture :: bytes
  keymap :: "u8 \<Rightarrow> u32"
  sdl_open_audio_ok :: bool
  sdl_init_audio_ok :: bool

section \<open>The process\<close>

record machine =
  isa :: ISA
  cpu :: CPU_state
  nemu_state :: NEMUState
  pmem :: bytes
  bus :: io_bus
  bases :: dev_bases
  kbd :: keyboard
  aud :: audio
  alrm :: alarm
  hst :: host
  g_nr_guest_instr :: u64

text \<open>
  Word access to a device's register block: \<open>base[i]\<close> for a \<open>uint32_t *base\<close> that points
  into \<open>io_space\<close>.
\<close>

definition reg_get :: "nat \<Rightarrow> nat \<Rightarrow> machine \<Rightarrow> u32" where
  "reg_get base i m = get32 (io_space (bus m)) (base + 4 * i)"

definition reg_put :: "nat \<Rightarrow> nat \<Rightarrow> u32 \<Rightarrow> machine \<Rightarrow> machine" where
  "reg_put base i v m =
     m\<lparr>bus := (bus m)\<lparr>io_space := put32 (io_space (bus m)) (base + 4 * i) v\<rparr>\<rparr>"

lemma reg_get_put [simp]: "reg_get base i (reg_put base i v m) = v"
  by (simp add: reg_get_def reg_put_def)

lemma reg_get_put_other:
  assumes "i \<noteq> j"
  shows "reg_get base i (reg_put base j v m) = reg_get base i m"
proof -
  have "i < j \<or> j < i" using assms by auto
  then have "{base + 4 * i ..< base + 4 * i + 4} \<inter> {base + 4 * j ..< base + 4 * j + 4} = {}"
    by auto
  then have "get_n 4 (put_n 4 s (base + 4 * j) v) (base + 4 * i) = get_n 4 s (base + 4 * i)" for s
    by (intro get_n_put_n_disjoint) auto
  then show ?thesis
    by (simp add: reg_get_def reg_put_def get_n_def put_n_def)
qed

lemma reg_put_frame [simp]:
  "isa (reg_put base i v m) = isa m"
  "cpu (reg_put base i v m) = cpu m"
  "nemu_state (reg_put base i v m) = nemu_state m"
  "pmem (reg_put base i v m) = pmem m"
  "bases (reg_put base i v m) = bases m"
  "kbd (reg_put base i v m) = kbd m"
  "aud (reg_put base i v m) = aud m"
  "alrm (reg_put base i v m) = alrm m"
  "hst (reg_put base i v m) = hst m"
  "g_nr_guest_instr (reg_put base i v m) = g_nr_guest_instr m"
  "mmio_maps (bus (reg_put base i v m)) = mmio_maps (bus m)"
  "pio_maps (bus (reg_put base i v m)) = pio_maps (bus m)"
  "p_space (bus (reg_put base i v m)) = p_space (bus m)"
  by (simp_all add: reg_put_def)

section \<open>A process that has just started\<close>

text \<open>
  Static storage is zero before \<open>main\<close> runs, except \<open>nemu_state\<close>, which starts in \<open>NEMU_STOP\<close>.
  \<open>booted\<close> is such a process with one instruction word at the reset address and given registers.
\<close>

definition static_start :: "ISA \<Rightarrow> host \<Rightarrow> machine" where
  "static_start arch h =
     \<lparr>isa = arch,
      cpu = \<lparr>gpr = replicate (NR_GPR arch) 0, pc = 0\<rparr>,
      nemu_state = \<lparr>status = NEMU_STOP, halt_pc = 0, halt_ret = 0\<rparr>,
      pmem = (\<lambda>_. 0),
      bus = \<lparr>io_space = (\<lambda>_. 0), p_space = 0, mmio_maps = [], pio_maps = []\<rparr>,
      bases = \<lparr>serial_base = 0, rtc_port_base = 0, vgactl_port_base = 0, vmem = 0,
        i8042_data_port_base = 0, audio_base = 0, sbuf = 0\<rparr>,
      kbd = \<lparr>key_queue = replicate 1024 0, key_f = 0, key_r = 0\<rparr>,
      aud = \<lparr>count = 0, qhead = 0, spec = \<lparr>freq = 0, channels = 0, samples = 0\<rparr>\<rparr>,
      alrm = \<lparr>handlers = [], jiffy = 0, device_update_flag = False\<rparr>,
      hst = h,
      g_nr_guest_instr = 0\<rparr>"

definition quiet_host :: host where
  "quiet_host = \<lparr>host_now = (0, 0), serial_out = [], sdl_events = [], texture = (\<lambda>_. 0),
     keymap = (\<lambda>_. 0), sdl_open_audio_ok = True, sdl_init_audio_ok = True\<rparr>"

definition booted :: "ISA \<Rightarrow> u32 \<Rightarrow> u32 list \<Rightarrow> machine" where
  "booted arch w regs =
     (static_start arch quiet_host)
       \<lparr>pmem := put32 (\<lambda>_. 0) (unat (IMAGE_START arch)) w,
        cpu := \<lparr>gpr = regs, pc = PMEM_BASE arch + IMAGE_START arch\<rparr>\<rparr>"

end
