(* ===== verification/Devices.thy ===== *)
theory Devices
  imports Machine
begin

text \<open>
  The device back ends of \<open>nemu/src/device\<close>: serial port, real-time clock, keyboard, VGA,
  audio, alarm and the per-instruction \<open>device_update\<close>. Each I/O handler is a function of the
  offset, the access length, the direction and the machine; \<open>Inl\<close> is the assertion or panic
  the C code dies with.
\<close>

section \<open>Serial port (serial.c)\<close>

definition CH_OFFSET :: u32 where "CH_OFFSET = 0"

definition serial_io_handler :: "u32 \<Rightarrow> int \<Rightarrow> bool \<Rightarrow> machine \<Rightarrow> fault + machine" where
  "serial_io_handler offset len is_write m =
     bnd (c_assert (len = 1)) (\<lambda>_.
     if offset = CH_OFFSET then
       (if is_write
        then Inr (m\<lparr>hst := (hst m)\<lparr>serial_out :=
               serial_out (hst m) @ [io_space (bus m) (serial_base (bases m))]\<rparr>\<rparr>)
        else Inl Panic)
     else Inl Panic)"

section \<open>Real-time clock (timer.c)\<close>

definition rtc_io_handler :: "u32 \<Rightarrow> int \<Rightarrow> bool \<Rightarrow> machine \<Rightarrow> fault + machine" where
  "rtc_io_handler offset len is_write m =
     bnd (c_assert (offset = 0 \<or> offset = 4)) (\<lambda>_.
     if \<not> is_write then
       (let (usec, sec) = host_now (hst m); base = rtc_port_base (bases m)
        in Inr (reg_put base 1 sec (reg_put base 0 usec m)))
     else Inr m)"

section \<open>Keyboard (keyboard.c)\<close>

definition KEY_QUEUE_LEN :: nat where "KEY_QUEUE_LEN = 1024"
definition KEYDOWN_MASK :: u32 where "KEYDOWN_MASK = 0x8000"
definition KEY_NONE :: u32 where "KEY_NONE = 0"

text \<open>The two ends of the key queue, as the inner blocks of \<open>send_key\<close> and of the handler have them.\<close>

definition key_enqueue :: "u32 \<Rightarrow> keyboard \<Rightarrow> fault + keyboard" where
  "key_enqueue am_scancode k =
     (let k1 = k\<lparr>key_queue := (key_queue k)[key_r k := am_scancode],
                 key_r := (key_r k + 1) mod KEY_QUEUE_LEN\<rparr>
      in bnd (c_assert (key_r k1 \<noteq> key_f k1)) (\<lambda>_. Inr k1))"

definition key_dequeue :: "keyboard \<Rightarrow> (u32 \<times> keyboard) option" where
  "key_dequeue k =
     (if key_f k \<noteq> key_r k
      then Some (key_queue k ! key_f k, k\<lparr>key_f := (key_f k + 1) mod KEY_QUEUE_LEN\<rparr>)
      else None)"

definition send_key :: "u8 \<Rightarrow> bool \<Rightarrow> machine \<Rightarrow> fault + machine" where
  "send_key scancode is_keydown m =
     (if status (nemu_state m) = NEMU_RUNNING \<and> keymap (hst m) scancode \<noteq> KEY_NONE then
        (let am_scancode = keymap (hst m) scancode OR (if is_keydown then KEYDOWN_MASK else 0)
         in bnd (key_enqueue am_scancode (kbd m)) (\<lambda>k. Inr (m\<lparr>kbd := k\<rparr>)))
      else Inr m)"

definition i8042_data_io_handler :: "u32 \<Rightarrow> int \<Rightarrow> bool \<Rightarrow> machine \<Rightarrow> fault + machine" where
  "i8042_data_io_handler offset len is_write m =
     bnd (c_assert (\<not> is_write)) (\<lambda>_.
     bnd (c_assert (offset = 0)) (\<lambda>_.
     let base = i8042_data_port_base (bases m) in
     case key_dequeue (kbd m) of
       Some (code, k) \<Rightarrow> Inr ((reg_put base 0 code m)\<lparr>kbd := k\<rparr>)
     | None \<Rightarrow> Inr (reg_put base 0 KEY_NONE m)))"

section \<open>VGA (vga.c)\<close>

definition SCREEN_W :: nat where "SCREEN_W = 400"
definition SCREEN_H :: nat where "SCREEN_H = 300"
definition SCREEN_SIZE :: nat where "SCREEN_SIZE = (SCREEN_H * SCREEN_W) * 4"

definition update_screen :: "machine \<Rightarrow> machine" where
  "update_screen m =
     m\<lparr>hst := (hst m)\<lparr>texture :=
       (\<lambda>i. if i < SCREEN_SIZE then io_space (bus m) (vmem (bases m) + i) else texture (hst m) i)\<rparr>\<rparr>"

definition vga_update_screen :: "machine \<Rightarrow> machine" where
  "vga_update_screen m =
     (let base = vgactl_port_base (bases m) in
      if reg_get base 1 m \<noteq> 0 then reg_put base 1 0 (update_screen m) else m)"

section \<open>Audio (audio.c)\<close>

definition STREAM_BUF_MAX_SIZE :: nat where "STREAM_BUF_MAX_SIZE = 65536"

definition reg_freq :: nat where "reg_freq = 0"
definition reg_channels :: nat where "reg_channels = 1"
definition reg_samples :: nat where "reg_samples = 2"
definition reg_sbuf_size :: nat where "reg_sbuf_size = 3"
definition reg_init :: nat where "reg_init = 4"
definition reg_count :: nat where "reg_count = 5"
definition nr_reg :: nat where "nr_reg = 6"

definition reg_off :: "nat \<Rightarrow> u32" where
  "reg_off r = of_nat (r * 4)"

text \<open>
  \<open>audio_play\<close> is SDL's callback: it takes the length SDL asks for and returns the bytes it put
  into \<open>stream\<close>. The loop over \<open>i < nread\<close> reads \<open>sbuf[qhead]\<close> and advances \<open>qhead\<close>.
\<close>

fun audio_play_loop :: "nat \<Rightarrow> machine \<Rightarrow> u8 list \<times> machine" where
  "audio_play_loop 0 m = ([], m)"
| "audio_play_loop (Suc n) m =
     (let b = io_space (bus m) (sbuf (bases m) + qhead (aud m));
          m1 = m\<lparr>aud := (aud m)\<lparr>qhead := (qhead (aud m) + 1) mod STREAM_BUF_MAX_SIZE\<rparr>\<rparr>;
          (bs, m2) = audio_play_loop n m1
      in (b # bs, m2))"

definition audio_play :: "int \<Rightarrow> machine \<Rightarrow> u8 list \<times> machine" where
  "audio_play len m =
     (let nread = (if count (aud m) < len then count (aud m) else len);
          (bs, m1) = audio_play_loop (nat nread) m;
          m2 = m1\<lparr>aud := (aud m1)\<lparr>count := count (aud m1) - nread\<rparr>\<rparr>
      in (bs @ (if len > nread then replicate (nat (len - nread)) 0 else []), m2))"

definition audio_io_handler :: "u32 \<Rightarrow> int \<Rightarrow> bool \<Rightarrow> machine \<Rightarrow> fault + machine" where
  "audio_io_handler offset len is_write m =
     bnd (c_assert (len = 4)) (\<lambda>_.
     let base = audio_base (bases m) in
     if offset = reg_off reg_freq \<or> offset = reg_off reg_channels \<or> offset = reg_off reg_samples then
       (if \<not> is_write then Inl Panic else Inr m)
     else if offset = reg_off reg_init then
       (if \<not> is_write then Inl Panic
        else bnd
          (if reg_get base reg_init m \<noteq> 0 then
             (let m1 = m\<lparr>aud := (aud m)\<lparr>spec :=
                    \<lparr>freq = reg_get base reg_freq m,
                     channels = ucast (reg_get base reg_channels m),
                     samples = ucast (reg_get base reg_samples m)\<rparr>\<rparr>\<rparr>
              in bnd (c_assert (sdl_open_audio_ok (hst m))) (\<lambda>_. Inr m1))
           else Inr m)
          (\<lambda>m1. Inr (reg_put base reg_init 0 m1)))
     else if offset = reg_off reg_sbuf_size \<or> offset = reg_off reg_count then
       (if is_write then Inl Panic
        else if offset = reg_off reg_count
        then Inr (reg_put base reg_count (word_of_int (count (aud m))) m)
        else Inr m)
     else Inl Panic)"

definition audio_sbuf_handler :: "u32 \<Rightarrow> int \<Rightarrow> bool \<Rightarrow> machine \<Rightarrow> fault + machine" where
  "audio_sbuf_handler offset len is_write m =
     bnd (c_assert (is_write \<and> offset + word_of_int len \<le> of_nat STREAM_BUF_MAX_SIZE)) (\<lambda>_.
     Inr (m\<lparr>aud := (aud m)\<lparr>count := count (aud m) + len\<rparr>\<rparr>))"

section \<open>Alarm (alarm.c), timer interrupt and device update (device.c)\<close>

definition TIMER_HZ :: u32 where "TIMER_HZ = 60"
definition MAX_HANDLER :: nat where "MAX_HANDLER = 8"

definition add_alarm_handle :: "alarm_handler \<Rightarrow> machine \<Rightarrow> fault + machine" where
  "add_alarm_handle h m =
     bnd (c_assert (length (handlers (alrm m)) < MAX_HANDLER)) (\<lambda>_.
     Inr (m\<lparr>alrm := (alrm m)\<lparr>handlers := handlers (alrm m) @ [h]\<rparr>\<rparr>))"

definition uptime :: "machine \<Rightarrow> u32" where
  "uptime m = jiffy (alrm m) div TIMER_HZ"

definition dev_raise_intr :: "machine \<Rightarrow> machine" where
  "dev_raise_intr m = m"

definition timer_intr :: "machine \<Rightarrow> machine" where
  "timer_intr m = (if status (nemu_state m) = NEMU_RUNNING then dev_raise_intr m else m)"

definition set_device_update_flag :: "machine \<Rightarrow> machine" where
  "set_device_update_flag m = m\<lparr>alrm := (alrm m)\<lparr>device_update_flag := True\<rparr>\<rparr>"

fun run_alarm_handler :: "alarm_handler \<Rightarrow> machine \<Rightarrow> machine" where
  "run_alarm_handler Timer_intr m = timer_intr m"
| "run_alarm_handler Set_device_update_flag m = set_device_update_flag m"

definition alarm_sig_handler :: "machine \<Rightarrow> machine" where
  "alarm_sig_handler m =
     (let m1 = fold run_alarm_handler (handlers (alrm m)) m
      in m1\<lparr>alrm := (alrm m1)\<lparr>jiffy := jiffy (alrm m1) + 1\<rparr>\<rparr>)"

text \<open>
  The \<open>while (SDL_PollEvent(&event))\<close> loop takes the queued events in order; the scancode is
  truncated to \<open>uint8_t\<close> before it indexes \<open>keymap\<close>.
\<close>

fun handle_events :: "SDL_Event list \<Rightarrow> machine \<Rightarrow> fault + machine" where
  "handle_events [] m = Inr m"
| "handle_events (e # es) m =
     bnd (case e of
            SDL_QUIT \<Rightarrow> Inr (m\<lparr>nemu_state := (nemu_state m)\<lparr>status := NEMU_QUIT\<rparr>\<rparr>)
          | SDL_KEYDOWN k \<Rightarrow> send_key (ucast k) True m
          | SDL_KEYUP k \<Rightarrow> send_key (ucast k) False m
          | SDL_OTHER \<Rightarrow> Inr m)
         (handle_events es)"

definition device_update :: "machine \<Rightarrow> fault + machine" where
  "device_update m =
     (if \<not> device_update_flag (alrm m) then Inr m
      else
        (let m1 = m\<lparr>alrm := (alrm m)\<lparr>device_update_flag := False\<rparr>\<rparr>;
             m2 = vga_update_screen m1;
             es = sdl_events (hst m2)
         in handle_events es (m2\<lparr>hst := (hst m2)\<lparr>sdl_events := []\<rparr>\<rparr>)))"

definition sdl_clear_event_queue :: "machine \<Rightarrow> machine" where
  "sdl_clear_event_queue m = m\<lparr>hst := (hst m)\<lparr>sdl_events := []\<rparr>\<rparr>"

end
