(* ===== verification/IoMap.thy ===== *)
theory IoMap
  imports Devices
begin

text \<open>
  The I/O bus: \<open>nemu/src/device/io/map.c\<close>, \<open>mmio.c\<close>, \<open>port-io.c\<close> and
  \<open>nemu/include/device/map.h\<close>, and the \<open>init_*\<close> functions of the devices that register
  themselves on it. A map is found by a linear search of the registered maps; an access checks
  its first address against the map, runs the device's callback and touches the map's bytes of
  \<open>io_space\<close>.
\<close>

section \<open>Space allocation (map.c)\<close>

definition IO_SPACE_MAX :: nat where "IO_SPACE_MAX = 2 * 1024 * 1024"
definition PAGE_SIZE :: int where "PAGE_SIZE = 4096"
definition PAGE_MASK :: int where "PAGE_MASK = PAGE_SIZE - 1"

definition new_space :: "int \<Rightarrow> machine \<Rightarrow> fault + (nat \<times> machine)" where
  "new_space sz m =
     (let p = p_space (bus m);
          sz' = (sz + (PAGE_SIZE - 1)) AND NOT PAGE_MASK;
          m1 = m\<lparr>bus := (bus m)\<lparr>p_space := nat (int p + sz')\<rparr>\<rparr>
      in bnd (c_assert (p_space (bus m1) < IO_SPACE_MAX)) (\<lambda>_. Inr (p, m1)))"

section \<open>Lookup (map.h)\<close>

definition map_inside :: "IOMap \<Rightarrow> u32 \<Rightarrow> bool" where
  "map_inside mp addr \<longleftrightarrow> addr \<ge> low mp \<and> addr \<le> high mp"

fun find_mapid_from :: "nat \<Rightarrow> IOMap list \<Rightarrow> u32 \<Rightarrow> int" where
  "find_mapid_from i [] addr = -1"
| "find_mapid_from i (mp # mps) addr =
     (if map_inside mp addr then int i else find_mapid_from (Suc i) mps addr)"

definition find_mapid_by_addr :: "IOMap list \<Rightarrow> u32 \<Rightarrow> int" where
  "find_mapid_by_addr maps addr = find_mapid_from 0 maps addr"

section \<open>Access (map.c)\<close>

text \<open>\<open>check_bound\<close> dies when there is no map (\<open>NULL\<close>) or the address is outside it.\<close>

definition check_bound :: "IOMap option \<Rightarrow> u32 \<Rightarrow> fault + IOMap" where
  "check_bound mp addr =
     (case mp of
        None \<Rightarrow> Inl Assert_Fail
      | Some p \<Rightarrow> (if addr \<le> high p \<and> addr \<ge> low p then Inr p else Inl Assert_Fail))"

definition invoke_callback :: "io_callback \<Rightarrow> u32 \<Rightarrow> int \<Rightarrow> bool \<Rightarrow> machine \<Rightarrow> fault + machine" where
  "invoke_callback c offset len is_write m =
     (case c of
        NULL_callback \<Rightarrow> Inr m
      | Serial_io_handler \<Rightarrow> serial_io_handler offset len is_write m
      | Rtc_io_handler \<Rightarrow> rtc_io_handler offset len is_write m
      | I8042_data_io_handler \<Rightarrow> i8042_data_io_handler offset len is_write m
      | Audio_io_handler \<Rightarrow> audio_io_handler offset len is_write m
      | Audio_sbuf_handler \<Rightarrow> audio_sbuf_handler offset len is_write m)"

text \<open>
  \<open>map_read\<close> always loads four bytes and masks them with \<open>~0Lu >> ((8 - len) << 3)\<close>, a 64-bit
  mask. \<open>map_write\<close> copies \<open>len\<close> bytes of the 32-bit \<open>data\<close>: with \<open>len > 4\<close> it would read past it.
\<close>

definition read_mask :: "int \<Rightarrow> u64" where
  "read_mask len = drop_bit (nat ((8 - len) * 8)) (NOT 0)"

definition map_read :: "u32 \<Rightarrow> int \<Rightarrow> IOMap option \<Rightarrow> machine \<Rightarrow> fault + (u32 \<times> machine)" where
  "map_read addr len mp m =
     bnd (c_assert (len \<ge> 1 \<and> len \<le> 8)) (\<lambda>_.
     bnd (check_bound mp addr) (\<lambda>p.
     let offset = addr - low p in
     bnd (invoke_callback (callback p) offset len False m) (\<lambda>m1.
     let q = space p + unat offset in
     if q + 4 \<le> IO_SPACE_MAX
     then Inr (ucast ((ucast (get32 (io_space (bus m1)) q) :: u64) AND read_mask len), m1)
     else Inl Out_Of_Bounds)))"

fun copy_bytes :: "nat \<Rightarrow> nat \<Rightarrow> u32 \<Rightarrow> bytes \<Rightarrow> bytes" where
  "copy_bytes 0 q data s = s"
| "copy_bytes (Suc n) q data s = (copy_bytes n q data s)(q + n := byte_at n data)"

definition map_write :: "u32 \<Rightarrow> u32 \<Rightarrow> int \<Rightarrow> IOMap option \<Rightarrow> machine \<Rightarrow> fault + machine" where
  "map_write addr data len mp m =
     bnd (c_assert (len \<ge> 1 \<and> len \<le> 8)) (\<lambda>_.
     bnd (check_bound mp addr) (\<lambda>p.
     let offset = addr - low p;
         q = space p + unat offset in
     if len \<le> 4 \<and> q + nat len \<le> IO_SPACE_MAX
     then invoke_callback (callback p) offset len True
            (m\<lparr>bus := (bus m)\<lparr>io_space := copy_bytes (nat len) q data (io_space (bus m))\<rparr>\<rparr>)
     else Inl Out_Of_Bounds))"

section \<open>Memory-mapped I/O (mmio.c)\<close>

definition NR_MMIO_MAP :: nat where "NR_MMIO_MAP = 16"

definition add_mmio_map ::
    "string \<Rightarrow> u32 \<Rightarrow> nat \<Rightarrow> int \<Rightarrow> io_callback \<Rightarrow> machine \<Rightarrow> fault + machine" where
  "add_mmio_map nm addr sp len cb m =
     bnd (c_assert (length (mmio_maps (bus m)) < NR_MMIO_MAP)) (\<lambda>_.
     Inr (m\<lparr>bus := (bus m)\<lparr>mmio_maps := mmio_maps (bus m) @
       [\<lparr>name = nm, low = addr, high = addr + word_of_int len - 1, space = sp, callback = cb\<rparr>]\<rparr>\<rparr>))"

definition fetch_mmio_map :: "machine \<Rightarrow> u32 \<Rightarrow> IOMap option" where
  "fetch_mmio_map m addr =
     (let mapid = find_mapid_by_addr (mmio_maps (bus m)) addr
      in if mapid = -1 then None else Some (mmio_maps (bus m) ! nat mapid))"

section \<open>Port I/O (port-io.c)\<close>

definition NR_PIO_MAP :: nat where "NR_PIO_MAP = 8"
definition PORT_IO_SPACE_MAX :: int where "PORT_IO_SPACE_MAX = 65535"

definition add_pio_map ::
    "string \<Rightarrow> u16 \<Rightarrow> nat \<Rightarrow> int \<Rightarrow> io_callback \<Rightarrow> machine \<Rightarrow> fault + machine" where
  "add_pio_map nm addr sp len cb m =
     bnd (c_assert (length (pio_maps (bus m)) < NR_PIO_MAP)) (\<lambda>_.
     bnd (c_assert (uint addr + len \<le> PORT_IO_SPACE_MAX)) (\<lambda>_.
     Inr (m\<lparr>bus := (bus m)\<lparr>pio_maps := pio_maps (bus m) @
       [\<lparr>name = nm, low = ucast addr, high = ucast addr + word_of_int len - 1,
         space = sp, callback = cb\<rparr>]\<rparr>\<rparr>)))"

definition pio_read_common :: "u16 \<Rightarrow> int \<Rightarrow> machine \<Rightarrow> fault + (u32 \<times> machine)" where
  "pio_read_common addr len m =
     bnd (c_assert (uint addr + len - 1 < PORT_IO_SPACE_MAX)) (\<lambda>_.
     let mapid = find_mapid_by_addr (pio_maps (bus m)) (ucast addr) in
     bnd (c_assert (mapid \<noteq> -1)) (\<lambda>_.
     map_read (ucast addr) len (Some (pio_maps (bus m) ! nat mapid)) m))"

definition pio_write_common :: "u16 \<Rightarrow> u32 \<Rightarrow> int \<Rightarrow> machine \<Rightarrow> fault + machine" where
  "pio_write_common addr data len m =
     bnd (c_assert (uint addr + len - 1 < PORT_IO_SPACE_MAX)) (\<lambda>_.
     let mapid = find_mapid_by_addr (pio_maps (bus m)) (ucast addr) in
     bnd (c_assert (mapid \<noteq> -1)) (\<lambda>_.
     map_write (ucast addr) data len (Some (pio_maps (bus m) ! nat mapid)) m))"

definition pio_read_l :: "u16 \<Rightarrow> machine \<Rightarrow> fault + (u32 \<times> machine)" where
  "pio_read_l addr m = pio_read_common addr 4 m"
definition pio_read_w :: "u16 \<Rightarrow> machine \<Rightarrow> fault + (u32 \<times> machine)" where
  "pio_read_w addr m = pio_read_common addr 2 m"
definition pio_read_b :: "u16 \<Rightarrow> machine \<Rightarrow> fault + (u32 \<times> machine)" where
  "pio_read_b addr m = pio_read_common addr 1 m"
definition pio_write_l :: "u16 \<Rightarrow> u32 \<Rightarrow> machine \<Rightarrow> fault + machine" where
  "pio_write_l addr data m = pio_write_common addr data 4 m"
definition pio_write_w :: "u16 \<Rightarrow> u32 \<Rightarrow> machine \<Rightarrow> fault + machine" where
  "pio_write_w addr data m = pio_write_common addr data 2 m"
definition pio_write_b :: "u16 \<Rightarrow> u32 \<Rightarrow> machine \<Rightarrow> fault + machine" where
  "pio_write_b addr data m = pio_write_common addr data 1 m"

section \<open>Device initialisation\<close>

definition init_serial :: "machine \<Rightarrow> fault + machine" where
  "init_serial m =
     bnd (new_space 8 m) (\<lambda>(p, m1).
     let m2 = m1\<lparr>bases := (bases m1)\<lparr>serial_base := p\<rparr>\<rparr> in
     bnd (add_pio_map ''serial'' 0x3F8 p 8 Serial_io_handler m2) (\<lambda>m3.
     add_mmio_map ''serial'' 0xa10003F8 p 8 Serial_io_handler m3))"

definition init_timer :: "machine \<Rightarrow> fault + machine" where
  "init_timer m =
     bnd (new_space 8 m) (\<lambda>(p, m1).
     let m2 = m1\<lparr>bases := (bases m1)\<lparr>rtc_port_base := p\<rparr>\<rparr> in
     bnd (add_pio_map ''rtc'' 0x48 p 8 Rtc_io_handler m2) (\<lambda>m3.
     bnd (add_mmio_map ''rtc'' 0xa1000048 p 8 Rtc_io_handler m3) (\<lambda>m4.
     add_alarm_handle Timer_intr m4)))"

definition init_vga :: "machine \<Rightarrow> fault + machine" where
  "init_vga m =
     bnd (new_space 8 m) (\<lambda>(p, m1).
     let m2 = reg_put p 0 (push_bit 16 (of_nat SCREEN_W) OR of_nat SCREEN_H)
                (m1\<lparr>bases := (bases m1)\<lparr>vgactl_port_base := p\<rparr>\<rparr>) in
     bnd (add_pio_map ''screen'' 0x100 p 8 NULL_callback m2) (\<lambda>m3.
     bnd (add_mmio_map ''screen'' 0xa1000100 p 8 NULL_callback m3) (\<lambda>m4.
     bnd (new_space (int SCREEN_SIZE) m4) (\<lambda>(q, m5).
     let m6 = m5\<lparr>bases := (bases m5)\<lparr>vmem := q\<rparr>\<rparr> in
     add_mmio_map ''vmem'' 0xa0000000 q (int SCREEN_SIZE) NULL_callback m6))))"

definition init_i8042 :: "machine \<Rightarrow> fault + machine" where
  "init_i8042 m =
     bnd (new_space 4 m) (\<lambda>(p, m1).
     let m2 = reg_put p 0 KEY_NONE (m1\<lparr>bases := (bases m1)\<lparr>i8042_data_port_base := p\<rparr>\<rparr>) in
     bnd (add_pio_map ''keyboard'' 0x60 p 4 I8042_data_io_handler m2) (\<lambda>m3.
     add_mmio_map ''keyboard'' 0xa1000060 p 4 I8042_data_io_handler m3))"

definition init_audio :: "machine \<Rightarrow> fault + machine" where
  "init_audio m =
     (let space_size = 4 * int nr_reg in
      bnd (new_space space_size m) (\<lambda>(p, m1).
      let m2 = reg_put p reg_sbuf_size (of_nat STREAM_BUF_MAX_SIZE)
                 (m1\<lparr>bases := (bases m1)\<lparr>audio_base := p\<rparr>\<rparr>) in
      bnd (add_pio_map ''audio'' 0x200 p space_size Audio_io_handler m2) (\<lambda>m3.
      bnd (add_mmio_map ''audio'' 0xa1000200 p space_size Audio_io_handler m3) (\<lambda>m4.
      bnd (new_space (int STREAM_BUF_MAX_SIZE) m4) (\<lambda>(q, m5).
      let m6 = m5\<lparr>bases := (bases m5)\<lparr>sbuf := q\<rparr>\<rparr> in
      bnd (add_mmio_map ''audio-sbuf'' 0xa0800000 q (int STREAM_BUF_MAX_SIZE) Audio_sbuf_handler m6)
        (\<lambda>m7. bnd (c_assert (sdl_init_audio_ok (hst m7))) (\<lambda>_. Inr m7)))))))"

text \<open>
  \<open>init_device\<close> of device.c. Installing the signal handler and the interval timer is the
  host's part and changes no variable of the process.
\<close>

definition init_device :: "machine \<Rightarrow> fault + machine" where
  "init_device m =
     bnd (init_serial m) (\<lambda>m1.
     bnd (init_timer m1) (\<lambda>m2.
     bnd (init_vga m2) (\<lambda>m3.
     bnd (init_i8042 m3) (\<lambda>m4.
     bnd (init_audio m4) (\<lambda>m5.
     add_alarm_handle Set_device_update_flag m5)))))"

section \<open>What an access leaves alone\<close>

text \<open>
  The part of the process no device handler and no bus access writes: the guest CPU, the run
  state, guest memory, the build, the registered maps, the base pointers, the instruction count
  and the queued SDL events.
\<close>

definition core ::
    "machine \<Rightarrow> ISA \<times> CPU_state \<times> NEMUState \<times> bytes \<times> dev_bases \<times> IOMap list \<times> IOMap list
       \<times> u64 \<times> SDL_Event list" where
  "core m = (isa m, cpu m, nemu_state m, pmem m, bases m, mmio_maps (bus m), pio_maps (bus m),
     g_nr_guest_instr m, sdl_events (hst m))"

lemma core_reg_put [simp]: "core (reg_put b i v m) = core m"
  by (simp add: core_def)

lemma core_updates [simp]:
  "core (m\<lparr>hst := (hst m)\<lparr>serial_out := o'\<rparr>\<rparr>) = core m"
  "core (m\<lparr>kbd := k\<rparr>) = core m"
  "core (m\<lparr>aud := a\<rparr>) = core m"
  "core (m\<lparr>alrm := al\<rparr>) = core m"
  "core (m\<lparr>bus := (bus m)\<lparr>io_space := s\<rparr>\<rparr>) = core m"
  by (simp_all add: core_def)

lemma invoke_callback_core:
  "invoke_callback c offset len w m = Inr m' \<Longrightarrow> core m' = core m"
  by (auto simp: invoke_callback_def serial_io_handler_def rtc_io_handler_def
      i8042_data_io_handler_def audio_io_handler_def audio_sbuf_handler_def Let_def bnd_simps
      split: io_callback.splits if_splits prod.splits option.splits)

lemma map_read_core:
  "map_read addr len mp m = Inr (v, m') \<Longrightarrow> core m' = core m"
  by (auto simp: map_read_def Let_def bnd_simps dest: invoke_callback_core split: if_splits)

lemma map_write_core:
  "map_write addr data len mp m = Inr m' \<Longrightarrow> core m' = core m"
  by (auto simp: map_write_def Let_def bnd_simps dest: invoke_callback_core split: if_splits)

end
