(* ===== verification/Paddr.thy ===== *)
theory Paddr
  imports IoMap
begin

text \<open>
  Guest physical memory: \<open>nemu/src/memory/paddr.c\<close> with \<open>include/memory/paddr.h\<close> and
  \<open>vaddr.h\<close>. \<open>pmem\<close> is a byte array of \<open>PMEM_SIZE\<close> bytes; an address outside it goes to the
  memory-mapped devices. Virtual addresses are physical ones: every ISA's \<open>isa_vaddr_check\<close>
  is the constant \<open>MEM_RET_OK\<close>.
\<close>

definition PMEM_SIZE :: nat where "PMEM_SIZE = 128 * 1024 * 1024"

definition in_pmem :: "machine \<Rightarrow> u32 \<Rightarrow> bool" where
  "in_pmem m addr \<longleftrightarrow>
     PMEM_BASE (isa m) \<le> addr \<and> addr \<le> PMEM_BASE (isa m) + of_nat PMEM_SIZE - 1"

definition pmem_index :: "machine \<Rightarrow> u32 \<Rightarrow> nat" where
  "pmem_index m addr = unat (addr - PMEM_BASE (isa m))"

text \<open>
  The C functions switch on \<open>len\<close> and cast the host pointer: \<open>len\<close> bytes from \<open>p\<close>. The bound
  \<open>in_pmem\<close> looks at the first byte only, so an access can run off the end of \<open>pmem\<close>.
\<close>

definition pmem_read :: "u32 \<Rightarrow> int \<Rightarrow> machine \<Rightarrow> fault + u32" where
  "pmem_read addr len m =
     (let p = pmem_index m addr in
      if len = 1 \<or> len = 2 \<or> len = 4
      then (if p + nat len \<le> PMEM_SIZE then Inr (get_n (nat len) (pmem m) p) else Inl Out_Of_Bounds)
      else Inl Assert_Fail)"

definition pmem_write :: "u32 \<Rightarrow> u32 \<Rightarrow> int \<Rightarrow> machine \<Rightarrow> fault + machine" where
  "pmem_write addr data len m =
     (let p = pmem_index m addr in
      if len = 1 \<or> len = 2 \<or> len = 4
      then (if p + nat len \<le> PMEM_SIZE
            then Inr (m\<lparr>pmem := put_n (nat len) (pmem m) p data\<rparr>) else Inl Out_Of_Bounds)
      else Inl Assert_Fail)"

definition paddr_read :: "u32 \<Rightarrow> int \<Rightarrow> machine \<Rightarrow> fault + (u32 \<times> machine)" where
  "paddr_read addr len m =
     (if in_pmem m addr then bnd (pmem_read addr len m) (\<lambda>v. Inr (v, m))
      else map_read addr len (fetch_mmio_map m addr) m)"

definition paddr_write :: "u32 \<Rightarrow> u32 \<Rightarrow> int \<Rightarrow> machine \<Rightarrow> fault + machine" where
  "paddr_write addr data len m =
     (if in_pmem m addr then pmem_write addr data len m
      else map_write addr data len (fetch_mmio_map m addr) m)"

section \<open>Virtual addresses (vaddr.h and the template of paddr.c)\<close>

datatype mem_type = MEM_TYPE_IFETCH | MEM_TYPE_READ | MEM_TYPE_WRITE
datatype mem_ret = MEM_RET_OK | MEM_RET_NEED_TRANSLATE | MEM_RET_FAIL | MEM_RET_CROSS_PAGE

definition isa_vaddr_check :: "u32 \<Rightarrow> mem_type \<Rightarrow> int \<Rightarrow> mem_ret" where
  "isa_vaddr_check vaddr type len = MEM_RET_OK"

text \<open>\<open>isa_mmu_translate\<close> returns the enumerator \<open>MEM_RET_FAIL\<close> (2) as an address, in all three ISAs.\<close>

definition isa_mmu_translate :: "u32 \<Rightarrow> mem_type \<Rightarrow> int \<Rightarrow> u32" where
  "isa_mmu_translate vaddr type len = 2"

definition vaddr_access_read :: "mem_type \<Rightarrow> u32 \<Rightarrow> int \<Rightarrow> machine \<Rightarrow> fault + (u32 \<times> machine)" where
  "vaddr_access_read type addr bytes m =
     (if isa_vaddr_check addr type bytes = MEM_RET_OK then paddr_read addr bytes m else Inr (0, m))"

definition vaddr_read :: "u32 \<Rightarrow> int \<Rightarrow> machine \<Rightarrow> fault + (u32 \<times> machine)" where
  "vaddr_read addr len m =
     (if len = 1 then vaddr_access_read MEM_TYPE_READ addr 1 m
      else if len = 2 then vaddr_access_read MEM_TYPE_READ addr 2 m
      else if len = 4 then vaddr_access_read MEM_TYPE_READ addr 4 m
      else Inl Assert_Fail)"

definition vaddr_ifetch :: "u32 \<Rightarrow> int \<Rightarrow> machine \<Rightarrow> fault + (u32 \<times> machine)" where
  "vaddr_ifetch addr len m =
     (if len = 1 then vaddr_access_read MEM_TYPE_IFETCH addr 1 m
      else if len = 2 then vaddr_access_read MEM_TYPE_IFETCH addr 2 m
      else if len = 4 then vaddr_access_read MEM_TYPE_IFETCH addr 4 m
      else Inl Assert_Fail)"

definition vaddr_write_n :: "u32 \<Rightarrow> u32 \<Rightarrow> int \<Rightarrow> machine \<Rightarrow> fault + machine" where
  "vaddr_write_n addr data bytes m =
     (if isa_vaddr_check addr MEM_TYPE_WRITE bytes = MEM_RET_OK
      then paddr_write addr data bytes m else Inr m)"

definition vaddr_write :: "u32 \<Rightarrow> u32 \<Rightarrow> int \<Rightarrow> machine \<Rightarrow> fault + machine" where
  "vaddr_write addr data len m =
     (if len = 1 then vaddr_write_n addr data 1 m
      else if len = 2 then vaddr_write_n addr data 2 m
      else if len = 4 then vaddr_write_n addr data 4 m
      else Inl Assert_Fail)"

section \<open>Initialisation\<close>

text \<open>
  \<open>init_mem\<close> fills \<open>pmem\<close> with \<open>rand()\<close>, one 32-bit word at a time; the random words are an
  argument. \<open>load_bytes\<close> is \<open>memcpy(guest_to_host(addr), src, n)\<close>.
\<close>

definition init_mem :: "(nat \<Rightarrow> u32) \<Rightarrow> machine \<Rightarrow> machine" where
  "init_mem rnd m =
     m\<lparr>pmem := (\<lambda>i. if i < PMEM_SIZE then byte_at (i mod 4) (rnd (i div 4)) else pmem m i)\<rparr>"

definition guest_to_host :: "u32 \<Rightarrow> nat" where
  "guest_to_host addr = unat addr"

text \<open>\<open>host_to_guest\<close> subtracts the wrong way round: \<open>pmem - addr\<close> for a host pointer \<open>addr = pmem + p\<close>.\<close>

definition host_to_guest :: "nat \<Rightarrow> u32" where
  "host_to_guest p = - of_nat p"

definition load_bytes :: "u32 \<Rightarrow> u8 list \<Rightarrow> machine \<Rightarrow> machine" where
  "load_bytes addr src m =
     (let p = guest_to_host addr in
      m\<lparr>pmem := (\<lambda>i. if p \<le> i \<and> i < p + length src then src ! (i - p) else pmem m i)\<rparr>)"

section \<open>Reads and writes of the array\<close>

lemma vaddr_read_pmem:
  assumes "in_pmem m addr" and "len = 1 \<or> len = 2 \<or> len = 4"
  shows "vaddr_read addr len m = bnd (pmem_read addr len m) (\<lambda>v. Inr (v, m))"
  using assms by (auto simp: vaddr_read_def vaddr_access_read_def isa_vaddr_check_def paddr_read_def)

lemma vaddr_ifetch_pmem:
  assumes "in_pmem m addr" and "len = 1 \<or> len = 2 \<or> len = 4"
  shows "vaddr_ifetch addr len m = bnd (pmem_read addr len m) (\<lambda>v. Inr (v, m))"
  using assms by (auto simp: vaddr_ifetch_def vaddr_access_read_def isa_vaddr_check_def paddr_read_def)

lemma vaddr_write_pmem:
  assumes "in_pmem m addr" and "len = 1 \<or> len = 2 \<or> len = 4"
  shows "vaddr_write addr data len m = pmem_write addr data len m"
  using assms by (auto simp: vaddr_write_def vaddr_write_n_def isa_vaddr_check_def paddr_write_def)

section \<open>Reads and writes leave the CPU alone\<close>

text \<open>A read keeps the whole core, memory-mapped device or not; a write keeps all of it but \<open>pmem\<close>.\<close>

lemma paddr_read_core: "paddr_read addr len m = Inr (v, m') \<Longrightarrow> core m' = core m"
  by (auto simp: paddr_read_def bnd_simps dest: map_read_core split: if_splits)

lemma vaddr_read_core: "vaddr_read addr len m = Inr (v, m') \<Longrightarrow> core m' = core m"
  by (auto simp: vaddr_read_def vaddr_access_read_def dest: paddr_read_core split: if_splits)

lemma vaddr_ifetch_core: "vaddr_ifetch addr len m = Inr (v, m') \<Longrightarrow> core m' = core m"
  by (auto simp: vaddr_ifetch_def vaddr_access_read_def dest: paddr_read_core split: if_splits)

lemma core_cpu: "core m' = core m \<Longrightarrow> cpu m' = cpu m"
  by (simp add: core_def)

lemma core_state: "core m' = core m \<Longrightarrow> nemu_state m' = nemu_state m \<and> isa m' = isa m"
  by (simp add: core_def)

text \<open>\<open>frame\<close> is what a guest instruction cannot change: everything of \<open>core\<close> but CPU, memory, run state.\<close>

definition frame :: "machine \<Rightarrow> ISA \<times> dev_bases \<times> IOMap list \<times> IOMap list \<times> u64 \<times> SDL_Event list" where
  "frame m = (isa m, bases m, mmio_maps (bus m), pio_maps (bus m), g_nr_guest_instr m, sdl_events (hst m))"

lemma core_frame: "core m' = core m \<Longrightarrow> frame m' = frame m"
  by (simp add: core_def frame_def)

lemma frame_updates [simp]:
  "frame (m\<lparr>cpu := c\<rparr>) = frame m" "frame (m\<lparr>nemu_state := n\<rparr>) = frame m" "frame (m\<lparr>pmem := p\<rparr>) = frame m"
  by (simp_all add: frame_def)

lemma paddr_write_cpu:
  "paddr_write addr data len m = Inr m' \<Longrightarrow>
    cpu m' = cpu m \<and> nemu_state m' = nemu_state m \<and> frame m' = frame m"
  by (auto simp: paddr_write_def pmem_write_def Let_def dest!: map_write_core
      simp: core_def frame_def split: if_splits)

lemma vaddr_write_cpu:
  "vaddr_write addr data len m = Inr m' \<Longrightarrow>
    cpu m' = cpu m \<and> nemu_state m' = nemu_state m \<and> frame m' = frame m"
  by (auto simp: vaddr_write_def vaddr_write_n_def dest!: paddr_write_cpu split: if_splits)

end
