(* ===== verification/Rtl.thy ===== *)
theory Rtl
  imports Paddr "HOL-Library.Signed_Division"
begin

text \<open>
  The register transfer layer every instruction helper is written in:
  \<open>nemu/src/engine/interpreter/c_op.h\<close> and \<open>rtl-basic.h\<close>, \<open>nemu/include/rtl/rtl.h\<close> and
  \<open>pseudo.h\<close>, and the decode/execute state of \<open>include/cpu/decode.h\<close> and \<open>exec.h\<close>.

  An RTL instruction works on pointers to \<open>rtlreg_t\<close>. The targets such a pointer can have are
  the constructors of \<open>preg\<close>; \<open>rd\<close> dereferences one and \<open>wr\<close> stores through one, so that two
  operands naming the same register alias exactly as the C pointers do.
\<close>

section \<open>Decode and execute state (decode.h)\<close>

datatype preg =
    GprP nat   \<comment> \<open>\<open>&reg_l(i)\<close>\<close>
  | TmpP nat   \<comment> \<open>\<open>s0\<close>, \<open>s1\<close>, \<open>s2\<close>, \<open>t0\<close>\<close>
  | RzP        \<comment> \<open>\<open>rz\<close>\<close>
  | Src1ValP   \<comment> \<open>\<open>&s->src1.val\<close>\<close>
  | Src2ValP
  | DestValP
  | MbrP       \<comment> \<open>\<open>&s->isa.mbr\<close> (x86)\<close>

datatype op_kind = OP_TYPE_REG | OP_TYPE_MEM | OP_TYPE_IMM

text \<open>
  The union of \<open>reg\<close>, \<open>imm\<close> and \<open>simm\<close> is the one field \<open>reg_imm\<close>. The disassembly string
  \<open>str\<close> is only written in builds with \<open>DEBUG\<close> and is left out.
\<close>

record Operand =
  op_type :: op_kind
  op_width :: int
  reg_imm :: u32
  preg :: preg
  op_val :: u32

text \<open>
  The last six fields are the ISA part \<open>s->isa\<close>: \<open>instr_val\<close> for riscv32 and mips32, the
  others for x86.
\<close>

record DecodeExecState =
  opcode :: u32
  seq_pc :: u32
  is_jmp :: u32
  jmp_pc :: u32
  src1 :: Operand
  dest :: Operand
  src2 :: Operand
  width :: int
  tmp_reg :: "u32 list"
  instr_val :: u32
  is_operand_size_16 :: bool
  ext_opcode :: u8
  mbase :: preg
  mbr :: u32
  moff :: u32

text \<open>What an instruction helper works on: its \<open>DecodeExecState *s\<close> and the process.\<close>

record ectx =
  ds :: DecodeExecState
  mach :: machine

definition dsrc1 :: "ectx \<Rightarrow> preg" where "dsrc1 x = preg (src1 (ds x))"
definition dsrc2 :: "ectx \<Rightarrow> preg" where "dsrc2 x = preg (src2 (ds x))"
definition ddest :: "ectx \<Rightarrow> preg" where "ddest x = preg (dest (ds x))"
definition s0 :: preg where "s0 = TmpP 0"
definition s1 :: preg where "s1 = TmpP 1"
definition s2 :: preg where "s2 = TmpP 2"
definition t0 :: preg where "t0 = TmpP 3"

definition rd :: "preg \<Rightarrow> ectx \<Rightarrow> u32" where
  "rd p x =
     (case p of
        GprP i \<Rightarrow> gpr (cpu (mach x)) ! i
      | TmpP i \<Rightarrow> tmp_reg (ds x) ! i
      | RzP \<Rightarrow> 0
      | Src1ValP \<Rightarrow> op_val (src1 (ds x))
      | Src2ValP \<Rightarrow> op_val (src2 (ds x))
      | DestValP \<Rightarrow> op_val (dest (ds x))
      | MbrP \<Rightarrow> mbr (ds x))"

definition set_gpr :: "nat \<Rightarrow> u32 \<Rightarrow> machine \<Rightarrow> machine" where
  "set_gpr i v m = m\<lparr>cpu := (cpu m)\<lparr>gpr := (gpr (cpu m))[i := v]\<rparr>\<rparr>"

text \<open>\<open>rz\<close> points to a \<open>const\<close>; no instruction stores through it.\<close>

definition wr :: "preg \<Rightarrow> u32 \<Rightarrow> ectx \<Rightarrow> ectx" where
  "wr p v x =
     (case p of
        GprP i \<Rightarrow> x\<lparr>mach := set_gpr i v (mach x)\<rparr>
      | TmpP i \<Rightarrow> x\<lparr>ds := (ds x)\<lparr>tmp_reg := (tmp_reg (ds x))[i := v]\<rparr>\<rparr>
      | RzP \<Rightarrow> x
      | Src1ValP \<Rightarrow> x\<lparr>ds := (ds x)\<lparr>src1 := (src1 (ds x))\<lparr>op_val := v\<rparr>\<rparr>\<rparr>
      | Src2ValP \<Rightarrow> x\<lparr>ds := (ds x)\<lparr>src2 := (src2 (ds x))\<lparr>op_val := v\<rparr>\<rparr>\<rparr>
      | DestValP \<Rightarrow> x\<lparr>ds := (ds x)\<lparr>dest := (dest (ds x))\<lparr>op_val := v\<rparr>\<rparr>\<rparr>
      | MbrP \<Rightarrow> x\<lparr>ds := (ds x)\<lparr>mbr := v\<rparr>\<rparr>)"

section \<open>C operators (c\_op.h)\<close>

definition c_shift_mask :: u32 where "c_shift_mask = 0x1f"

definition c_add :: "u32 \<Rightarrow> u32 \<Rightarrow> u32" where "c_add a b = a + b"
definition c_sub :: "u32 \<Rightarrow> u32 \<Rightarrow> u32" where "c_sub a b = a - b"
definition c_and :: "u32 \<Rightarrow> u32 \<Rightarrow> u32" where "c_and a b = a AND b"
definition c_or :: "u32 \<Rightarrow> u32 \<Rightarrow> u32" where "c_or a b = a OR b"
definition c_xor :: "u32 \<Rightarrow> u32 \<Rightarrow> u32" where "c_xor a b = a XOR b"
definition c_shl :: "u32 \<Rightarrow> u32 \<Rightarrow> u32" where
  "c_shl a b = push_bit (unat (b AND c_shift_mask)) a"
definition c_shr :: "u32 \<Rightarrow> u32 \<Rightarrow> u32" where
  "c_shr a b = drop_bit (unat (b AND c_shift_mask)) a"
definition c_sar :: "u32 \<Rightarrow> u32 \<Rightarrow> u32" where
  "c_sar a b = signed_drop_bit (unat (b AND c_shift_mask)) a"

definition c_mul_lo :: "u32 \<Rightarrow> u32 \<Rightarrow> u32" where "c_mul_lo a b = a * b"
definition c_imul_lo :: "u32 \<Rightarrow> u32 \<Rightarrow> u32" where
  "c_imul_lo a b = word_of_int (sint a * sint b)"
definition c_mul_hi :: "u32 \<Rightarrow> u32 \<Rightarrow> u32" where
  "c_mul_hi a b = ucast (drop_bit 32 ((ucast a :: u64) * ucast b))"
definition c_imul_hi :: "u32 \<Rightarrow> u32 \<Rightarrow> u32" where
  "c_imul_hi a b = ucast (signed_drop_bit 32 ((scast a :: u64) * scast b))"

text \<open>The divisions trap in the host on a zero divisor and on \<open>INT_MIN / -1\<close>.\<close>

definition INT_MIN :: u32 where "INT_MIN = 0x80000000"

definition c_div_q :: "u32 \<Rightarrow> u32 \<Rightarrow> fault + u32" where
  "c_div_q a b = (if b = 0 then Inl Div_Trap else Inr (a div b))"
definition c_div_r :: "u32 \<Rightarrow> u32 \<Rightarrow> fault + u32" where
  "c_div_r a b = (if b = 0 then Inl Div_Trap else Inr (a mod b))"
definition c_idiv_q :: "u32 \<Rightarrow> u32 \<Rightarrow> fault + u32" where
  "c_idiv_q a b =
     (if b = 0 \<or> (a = INT_MIN \<and> b = -1) then Inl Div_Trap
      else Inr (word_of_int (sint a sdiv sint b)))"
definition c_idiv_r :: "u32 \<Rightarrow> u32 \<Rightarrow> fault + u32" where
  "c_idiv_r a b =
     (if b = 0 \<or> (a = INT_MIN \<and> b = -1) then Inl Div_Trap
      else Inr (word_of_int (sint a smod sint b)))"

section \<open>Relations (rtl.h, c\_op.h)\<close>

definition RELOP_FALSE :: u32 where "RELOP_FALSE = 0"
definition RELOP_TRUE :: u32 where "RELOP_TRUE = 1"
definition RELOP_EQ :: u32 where "RELOP_EQ = 2"
definition RELOP_NE :: u32 where "RELOP_NE = 3"
definition RELOP_LT :: u32 where "RELOP_LT = 4"
definition RELOP_LE :: u32 where "RELOP_LE = 6"
definition RELOP_GT :: u32 where "RELOP_GT = 7"
definition RELOP_GE :: u32 where "RELOP_GE = 5"
definition RELOP_LTU :: u32 where "RELOP_LTU = 8"
definition RELOP_LEU :: u32 where "RELOP_LEU = 10"
definition RELOP_GTU :: u32 where "RELOP_GTU = 11"
definition RELOP_GEU :: u32 where "RELOP_GEU = 9"

lemmas RELOP_defs = RELOP_FALSE_def RELOP_TRUE_def RELOP_EQ_def RELOP_NE_def RELOP_LT_def
  RELOP_LE_def RELOP_GT_def RELOP_GE_def RELOP_LTU_def RELOP_LEU_def RELOP_GTU_def RELOP_GEU_def

definition interpret_relop :: "u32 \<Rightarrow> u32 \<Rightarrow> u32 \<Rightarrow> fault + bool" where
  "interpret_relop relop a b =
     (if relop = RELOP_FALSE then Inr False
      else if relop = RELOP_TRUE then Inr True
      else if relop = RELOP_EQ then Inr (a = b)
      else if relop = RELOP_NE then Inr (a \<noteq> b)
      else if relop = RELOP_LT then Inr (sint a < sint b)
      else if relop = RELOP_LE then Inr (sint a \<le> sint b)
      else if relop = RELOP_GT then Inr (sint a > sint b)
      else if relop = RELOP_GE then Inr (sint a \<ge> sint b)
      else if relop = RELOP_LTU then Inr (a < b)
      else if relop = RELOP_LEU then Inr (a \<le> b)
      else if relop = RELOP_GTU then Inr (a > b)
      else if relop = RELOP_GEU then Inr (a \<ge> b)
      else Inl Panic)"

section \<open>Computing instructions (rtl-basic.h)\<close>

text \<open>The two macros \<open>def_rtl_compute_reg\<close> and \<open>def_rtl_compute_imm\<close>, over the C operator.\<close>

definition rtl_compute_reg ::
    "(u32 \<Rightarrow> u32 \<Rightarrow> u32) \<Rightarrow> preg \<Rightarrow> preg \<Rightarrow> preg \<Rightarrow> ectx \<Rightarrow> ectx" where
  "rtl_compute_reg c_op d a b x = wr d (c_op (rd a x) (rd b x)) x"

definition rtl_compute_imm ::
    "(u32 \<Rightarrow> u32 \<Rightarrow> u32) \<Rightarrow> preg \<Rightarrow> preg \<Rightarrow> u32 \<Rightarrow> ectx \<Rightarrow> ectx" where
  "rtl_compute_imm c_op d a imm x = wr d (c_op (rd a x) imm) x"

definition rtl_add where "rtl_add = rtl_compute_reg c_add"
definition rtl_sub where "rtl_sub = rtl_compute_reg c_sub"
definition rtl_and where "rtl_and = rtl_compute_reg c_and"
definition rtl_or where "rtl_or = rtl_compute_reg c_or"
definition rtl_xor where "rtl_xor = rtl_compute_reg c_xor"
definition rtl_shl where "rtl_shl = rtl_compute_reg c_shl"
definition rtl_shr where "rtl_shr = rtl_compute_reg c_shr"
definition rtl_sar where "rtl_sar = rtl_compute_reg c_sar"
definition rtl_addi where "rtl_addi = rtl_compute_imm c_add"
definition rtl_subi where "rtl_subi = rtl_compute_imm c_sub"
definition rtl_andi where "rtl_andi = rtl_compute_imm c_and"
definition rtl_ori where "rtl_ori = rtl_compute_imm c_or"
definition rtl_xori where "rtl_xori = rtl_compute_imm c_xor"
definition rtl_shli where "rtl_shli = rtl_compute_imm c_shl"
definition rtl_shri where "rtl_shri = rtl_compute_imm c_shr"
definition rtl_sari where "rtl_sari = rtl_compute_imm c_sar"
definition rtl_mul_lo where "rtl_mul_lo = rtl_compute_reg c_mul_lo"
definition rtl_mul_hi where "rtl_mul_hi = rtl_compute_reg c_mul_hi"
definition rtl_imul_lo where "rtl_imul_lo = rtl_compute_reg c_imul_lo"
definition rtl_imul_hi where "rtl_imul_hi = rtl_compute_reg c_imul_hi"

definition rtl_compute_div ::
    "(u32 \<Rightarrow> u32 \<Rightarrow> fault + u32) \<Rightarrow> preg \<Rightarrow> preg \<Rightarrow> preg \<Rightarrow> ectx \<Rightarrow> fault + ectx" where
  "rtl_compute_div c_op d a b x = bnd (c_op (rd a x) (rd b x)) (\<lambda>v. Inr (wr d v x))"

definition rtl_div_q where "rtl_div_q = rtl_compute_div c_div_q"
definition rtl_div_r where "rtl_div_r = rtl_compute_div c_div_r"
definition rtl_idiv_q where "rtl_idiv_q = rtl_compute_div c_idiv_q"
definition rtl_idiv_r where "rtl_idiv_r = rtl_compute_div c_idiv_r"

definition rtl_setrelop :: "u32 \<Rightarrow> preg \<Rightarrow> preg \<Rightarrow> preg \<Rightarrow> ectx \<Rightarrow> fault + ectx" where
  "rtl_setrelop relop d a b x =
     bnd (interpret_relop relop (rd a x) (rd b x)) (\<lambda>t. Inr (wr d (of_bool t) x))"

definition rtl_setrelopi :: "u32 \<Rightarrow> preg \<Rightarrow> preg \<Rightarrow> u32 \<Rightarrow> ectx \<Rightarrow> fault + ectx" where
  "rtl_setrelopi relop d a imm x =
     bnd (interpret_relop relop (rd a x) imm) (\<lambda>t. Inr (wr d (of_bool t) x))"

definition dividend64 :: "u32 \<Rightarrow> u32 \<Rightarrow> u64" where
  "dividend64 hi lo = push_bit 32 (ucast hi) OR ucast lo"

definition rtl_div64_q :: "preg \<Rightarrow> preg \<Rightarrow> preg \<Rightarrow> preg \<Rightarrow> ectx \<Rightarrow> fault + ectx" where
  "rtl_div64_q d hi lo b x =
     (if rd b x = 0 then Inl Div_Trap
      else Inr (wr d (ucast (dividend64 (rd hi x) (rd lo x) div ucast (rd b x))) x))"

definition rtl_div64_r :: "preg \<Rightarrow> preg \<Rightarrow> preg \<Rightarrow> preg \<Rightarrow> ectx \<Rightarrow> fault + ectx" where
  "rtl_div64_r d hi lo b x =
     (if rd b x = 0 then Inl Div_Trap
      else Inr (wr d (ucast (dividend64 (rd hi x) (rd lo x) mod ucast (rd b x))) x))"

definition idiv64_traps :: "u64 \<Rightarrow> u32 \<Rightarrow> bool" where
  "idiv64_traps a b \<longleftrightarrow> b = 0 \<or> (a = 0x8000000000000000 \<and> b = -1)"

definition rtl_idiv64_q :: "preg \<Rightarrow> preg \<Rightarrow> preg \<Rightarrow> preg \<Rightarrow> ectx \<Rightarrow> fault + ectx" where
  "rtl_idiv64_q d hi lo b x =
     (let a = dividend64 (rd hi x) (rd lo x) in
      if idiv64_traps a (rd b x) then Inl Div_Trap
      else Inr (wr d (word_of_int (sint a sdiv sint (rd b x))) x))"

definition rtl_idiv64_r :: "preg \<Rightarrow> preg \<Rightarrow> preg \<Rightarrow> preg \<Rightarrow> ectx \<Rightarrow> fault + ectx" where
  "rtl_idiv64_r d hi lo b x =
     (let a = dividend64 (rd hi x) (rd lo x) in
      if idiv64_traps a (rd b x) then Inl Div_Trap
      else Inr (wr d (word_of_int (sint a smod sint (rd b x))) x))"

section \<open>Memory and control instructions (rtl-basic.h)\<close>

definition rtl_lm :: "preg \<Rightarrow> preg \<Rightarrow> u32 \<Rightarrow> int \<Rightarrow> ectx \<Rightarrow> fault + ectx" where
  "rtl_lm d addr offset len x =
     bnd (vaddr_read (rd addr x + offset) len (mach x)) (\<lambda>(v, m).
     Inr (wr d v (x\<lparr>mach := m\<rparr>)))"

definition rtl_sm :: "preg \<Rightarrow> u32 \<Rightarrow> preg \<Rightarrow> int \<Rightarrow> ectx \<Rightarrow> fault + ectx" where
  "rtl_sm addr offset a len x =
     bnd (vaddr_write (rd addr x + offset) (rd a x) len (mach x)) (\<lambda>m. Inr (x\<lparr>mach := m\<rparr>))"

definition rtl_lms :: "preg \<Rightarrow> preg \<Rightarrow> u32 \<Rightarrow> int \<Rightarrow> ectx \<Rightarrow> fault + ectx" where
  "rtl_lms d addr offset len x =
     bnd (vaddr_read (rd addr x + offset) len (mach x)) (\<lambda>(v, m).
     let x1 = x\<lparr>mach := m\<rparr> in
     if len = 4 then Inr (wr d v x1)
     else if len = 1 then Inr (wr d (scast (ucast v :: u8)) x1)
     else if len = 2 then Inr (wr d (scast (ucast v :: u16)) x1)
     else Inl Assert_Fail)"

definition rtl_j :: "u32 \<Rightarrow> ectx \<Rightarrow> ectx" where
  "rtl_j target x = x\<lparr>ds := (ds x)\<lparr>jmp_pc := target, is_jmp := 1\<rparr>\<rparr>"

definition rtl_jr :: "preg \<Rightarrow> ectx \<Rightarrow> ectx" where
  "rtl_jr target x = x\<lparr>ds := (ds x)\<lparr>jmp_pc := rd target x, is_jmp := 1\<rparr>\<rparr>"

definition rtl_jrelop :: "u32 \<Rightarrow> preg \<Rightarrow> preg \<Rightarrow> u32 \<Rightarrow> ectx \<Rightarrow> fault + ectx" where
  "rtl_jrelop relop a b target x =
     bnd (interpret_relop relop (rd a x) (rd b x)) (\<lambda>t.
     Inr (if t then rtl_j target x else x))"

section \<open>Pseudo instructions (pseudo.h)\<close>

definition rtl_li :: "preg \<Rightarrow> u32 \<Rightarrow> ectx \<Rightarrow> ectx" where
  "rtl_li d imm x = rtl_addi d RzP imm x"

definition rtl_mv :: "preg \<Rightarrow> preg \<Rightarrow> ectx \<Rightarrow> ectx" where
  "rtl_mv d a x = (if d \<noteq> a then rtl_add d a RzP x else x)"

definition rtl_not :: "preg \<Rightarrow> preg \<Rightarrow> ectx \<Rightarrow> fault + ectx" where
  "rtl_not d a x = Inl Todo"
definition rtl_neg :: "preg \<Rightarrow> preg \<Rightarrow> ectx \<Rightarrow> fault + ectx" where
  "rtl_neg d a x = Inl Todo"
definition rtl_sext :: "preg \<Rightarrow> preg \<Rightarrow> int \<Rightarrow> ectx \<Rightarrow> fault + ectx" where
  "rtl_sext d a w x = Inl Todo"
definition rtl_zext :: "preg \<Rightarrow> preg \<Rightarrow> int \<Rightarrow> ectx \<Rightarrow> fault + ectx" where
  "rtl_zext d a w x = Inl Todo"
definition rtl_msb :: "preg \<Rightarrow> preg \<Rightarrow> int \<Rightarrow> ectx \<Rightarrow> fault + ectx" where
  "rtl_msb d a w x = Inl Todo"

section \<open>Fetch, program counter, exit (exec.h, cpu-exec.c)\<close>

definition instr_fetch :: "int \<Rightarrow> ectx \<Rightarrow> fault + (u32 \<times> ectx)" where
  "instr_fetch len x =
     bnd (vaddr_ifetch (seq_pc (ds x)) len (mach x)) (\<lambda>(instr, m).
     Inr (instr, x\<lparr>mach := m, ds := (ds x)\<lparr>seq_pc := seq_pc (ds x) + word_of_int len\<rparr>\<rparr>))"

definition update_pc :: "ectx \<Rightarrow> ectx" where
  "update_pc x =
     x\<lparr>mach := (mach x)\<lparr>cpu := (cpu (mach x))
       \<lparr>pc := (if is_jmp (ds x) \<noteq> 0 then jmp_pc (ds x) else seq_pc (ds x))\<rparr>\<rparr>\<rparr>"

definition rtl_exit :: "nemu_status \<Rightarrow> u32 \<Rightarrow> u32 \<Rightarrow> ectx \<Rightarrow> ectx" where
  "rtl_exit st hpc hret x =
     x\<lparr>mach := (mach x)\<lparr>nemu_state := \<lparr>status = st, halt_pc = hpc, halt_ret = hret\<rparr>\<rparr>\<rparr>"

definition cpu_pc :: "ectx \<Rightarrow> u32" where "cpu_pc x = pc (cpu (mach x))"

section \<open>Laws of the registers\<close>

lemmas rtl_regs = dsrc1_def dsrc2_def ddest_def s0_def s1_def s2_def t0_def

lemmas rtl_computes = rtl_add_def rtl_sub_def rtl_and_def rtl_or_def rtl_xor_def rtl_shl_def
  rtl_shr_def rtl_sar_def rtl_addi_def rtl_subi_def rtl_andi_def rtl_ori_def rtl_xori_def
  rtl_shli_def rtl_shri_def rtl_sari_def rtl_mul_lo_def rtl_mul_hi_def rtl_imul_lo_def
  rtl_imul_hi_def rtl_compute_reg_def rtl_compute_imm_def
  rtl_div_q_def rtl_div_r_def rtl_idiv_q_def rtl_idiv_r_def rtl_compute_div_def
  rtl_setrelop_def rtl_setrelopi_def rtl_li_def

lemmas c_ops = c_add_def c_sub_def c_and_def c_or_def c_xor_def c_mul_lo_def

definition preg_ok :: "preg \<Rightarrow> ectx \<Rightarrow> bool" where
  "preg_ok p x =
     (case p of GprP i \<Rightarrow> i < length (gpr (cpu (mach x))) | TmpP i \<Rightarrow> i < length (tmp_reg (ds x))
      | RzP \<Rightarrow> False | _ \<Rightarrow> True)"

lemma rd_wr_same: "preg_ok p x \<Longrightarrow> rd p (wr p v x) = v"
  by (auto simp: rd_def wr_def preg_ok_def set_gpr_def split: preg.splits)

lemma rd_wr_other: "p \<noteq> q \<Longrightarrow> rd p (wr q v x) = rd p x"
  by (cases p; cases q) (auto simp: rd_def wr_def set_gpr_def nth_list_update_neq not_sym)

text \<open>A move through any pointers that are registers delivers the source's value.\<close>

lemma rd_rtl_mv: "preg_ok d x \<Longrightarrow> rd d (rtl_mv d a x) = rd a x"
proof (cases "d = a")
  case True
  then show ?thesis by (simp add: rtl_mv_def)
next
  case False
  assume "preg_ok d x"
  then have "rd d (wr d (rd a x + rd RzP x) x) = rd a x + rd RzP x"
    by (rule rd_wr_same)
  moreover have "rd RzP x = 0" by (simp add: rd_def)
  ultimately show ?thesis
    using False by (simp add: rtl_mv_def rtl_computes c_ops)
qed

end
