(* ===== verification/Riscv32.thy ===== *)
theory Riscv32
  imports Rtl
begin

text \<open>
  The riscv32 build: \<open>nemu/include/isa/riscv32.h\<close> and \<open>nemu/src/isa/riscv32\<close>. Instruction
  fields (the bit-field union), operand decoding, every execution helper of \<open>compute.h\<close>,
  \<open>control.h\<close>, \<open>ldst.h\<close> and \<open>special.c\<close>, the opcode switch of \<open>exec.c\<close>, and \<open>isa_exec_once\<close>.

  \<open>isa_exec_once\<close> allocates its \<open>DecodeExecState\<close> on the stack and initialises two fields of it;
  the rest is whatever the stack holds. That content is the argument \<open>junk\<close> of the model.
  In builds without \<open>DIFF_TEST\<close> (the default) \<open>difftest_skip_ref\<close> and \<open>difftest_skip_dut\<close> are empty.
\<close>

section \<open>Instruction fields (riscv32.h)\<close>

definition opcode1_0 :: "u32 \<Rightarrow> u32" where "opcode1_0 v = bf 0 2 v"
definition opcode6_2 :: "u32 \<Rightarrow> u32" where "opcode6_2 v = bf 2 5 v"
definition f_rd :: "u32 \<Rightarrow> u32" where "f_rd v = bf 7 5 v"
definition funct3 :: "u32 \<Rightarrow> u32" where "funct3 v = bf 12 3 v"
definition f_rs1 :: "u32 \<Rightarrow> u32" where "f_rs1 v = bf 15 5 v"
definition f_rs2 :: "u32 \<Rightarrow> u32" where "f_rs2 v = bf 20 5 v"
definition funct7 :: "u32 \<Rightarrow> u32" where "funct7 v = bf 25 7 v"
definition i_simm11_0 :: "u32 \<Rightarrow> u32" where "i_simm11_0 v = sbf 20 12 v"
definition s_imm4_0 :: "u32 \<Rightarrow> u32" where "s_imm4_0 v = bf 7 5 v"
definition s_simm11_5 :: "u32 \<Rightarrow> u32" where "s_simm11_5 v = sbf 25 7 v"
definition u_imm31_12 :: "u32 \<Rightarrow> u32" where "u_imm31_12 v = bf 12 20 v"
definition j_imm19_12 :: "u32 \<Rightarrow> u32" where "j_imm19_12 v = bf 12 8 v"
definition j_imm11 :: "u32 \<Rightarrow> u32" where "j_imm11 v = bf 20 1 v"
definition j_imm10_1 :: "u32 \<Rightarrow> u32" where "j_imm10_1 v = bf 21 10 v"
definition j_simm20 :: "u32 \<Rightarrow> u32" where "j_simm20 v = sbf 31 1 v"
definition b_imm11 :: "u32 \<Rightarrow> u32" where "b_imm11 v = bf 7 1 v"
definition b_imm4_1 :: "u32 \<Rightarrow> u32" where "b_imm4_1 v = bf 8 4 v"
definition b_imm10_5 :: "u32 \<Rightarrow> u32" where "b_imm10_5 v = bf 25 6 v"
definition b_simm12 :: "u32 \<Rightarrow> u32" where "b_simm12 v = sbf 31 1 v"

lemmas rv_fields = opcode1_0_def opcode6_2_def f_rd_def funct3_def f_rs1_def f_rs2_def
  funct7_def i_simm11_0_def s_imm4_0_def s_simm11_5_def u_imm31_12_def j_imm19_12_def
  j_imm11_def j_imm10_1_def j_simm20_def b_imm11_def b_imm4_1_def b_imm10_5_def b_simm12_def

section \<open>Registers (reg.h, reg.c)\<close>

definition check_reg_index :: "u32 \<Rightarrow> fault + nat" where
  "check_reg_index index = bnd (c_assert (unat index < 32)) (\<lambda>_. Inr (unat index))"

definition regsl :: "string list" where
  "regsl =
    [''$0'', ''ra'', ''sp'', ''gp'', ''tp'', ''t0'', ''t1'', ''t2'',
     ''s0'', ''s1'', ''a0'', ''a1'', ''a2'', ''a3'', ''a4'', ''a5'',
     ''a6'', ''a7'', ''s2'', ''s3'', ''s4'', ''s5'', ''s6'', ''s7'',
     ''s8'', ''s9'', ''s10'', ''s11'', ''t3'', ''t4'', ''t5'', ''t6'']"

text \<open>The linear search of \<open>isa_reg_str2val\<close>: the value and \<open>*success\<close>.\<close>

fun reg_search :: "string list \<Rightarrow> nat \<Rightarrow> string \<Rightarrow> nat option" where
  "reg_search [] i s = None"
| "reg_search (r # rs) i s = (if r = s then Some i else reg_search rs (i + 1) s)"

definition isa_reg_str2val :: "string \<Rightarrow> machine \<Rightarrow> u32 \<times> bool" where
  "isa_reg_str2val s m =
     (if s = ''pc'' then (pc (cpu m), True)
      else case reg_search regsl 0 s of
             Some i \<Rightarrow> (gpr (cpu m) ! i, True)
           | None \<Rightarrow> (0, False))"

section \<open>Operand decoding (decode.h)\<close>

text \<open>
  The pointer \<open>Operand *op\<close> of a decode helper is the update function of the field it points to
  (\<open>src1_update\<close>, \<open>src2_update\<close>, \<open>dest_update\<close>).
\<close>

type_synonym opptr = "(Operand \<Rightarrow> Operand) \<Rightarrow> DecodeExecState \<Rightarrow> DecodeExecState"

definition decode_op_i :: "opptr \<Rightarrow> u32 \<Rightarrow> ectx \<Rightarrow> fault + ectx" where
  "decode_op_i upd val x =
     Inr (x\<lparr>ds := upd (\<lambda>op. op\<lparr>op_type := OP_TYPE_IMM, reg_imm := val\<rparr>) (ds x)\<rparr>)"

definition decode_op_r :: "opptr \<Rightarrow> u32 \<Rightarrow> ectx \<Rightarrow> fault + ectx" where
  "decode_op_r upd val x =
     bnd (check_reg_index val) (\<lambda>i.
     Inr (x\<lparr>ds := upd (\<lambda>op. op\<lparr>op_type := OP_TYPE_REG, reg_imm := val, preg := GprP i\<rparr>) (ds x)\<rparr>))"

definition ival :: "ectx \<Rightarrow> u32" where "ival x = instr_val (ds x)"

definition decode_I :: "ectx \<Rightarrow> fault + ectx" where
  "decode_I x =
     bnd (decode_op_r src1_update (f_rs1 (ival x)) x) (\<lambda>x.
     bnd (decode_op_i src2_update (i_simm11_0 (ival x)) x) (\<lambda>x.
     decode_op_r dest_update (f_rd (ival x)) x))"

definition decode_U :: "ectx \<Rightarrow> fault + ectx" where
  "decode_U x =
     bnd (decode_op_i src1_update (push_bit 12 (u_imm31_12 (ival x))) x) (\<lambda>x.
     decode_op_r dest_update (f_rd (ival x)) x)"

definition S_simm :: "u32 \<Rightarrow> u32" where
  "S_simm v = push_bit 5 (s_simm11_5 v) OR s_imm4_0 v"

definition decode_S :: "ectx \<Rightarrow> fault + ectx" where
  "decode_S x =
     bnd (decode_op_r src1_update (f_rs1 (ival x)) x) (\<lambda>x.
     bnd (decode_op_i src2_update (S_simm (ival x)) x) (\<lambda>x.
     decode_op_r dest_update (f_rs2 (ival x)) x))"

definition decode_R :: "ectx \<Rightarrow> fault + ectx" where
  "decode_R x =
     bnd (decode_op_r src1_update (f_rs1 (ival x)) x) (\<lambda>x.
     bnd (decode_op_r src2_update (f_rs2 (ival x)) x) (\<lambda>x.
     decode_op_r dest_update (f_rd (ival x)) x))"

definition J_simm :: "u32 \<Rightarrow> u32" where
  "J_simm v = push_bit 20 (j_simm20 v) OR push_bit 12 (j_imm19_12 v)
     OR push_bit 11 (j_imm11 v) OR push_bit 1 (j_imm10_1 v)"

definition decode_J :: "ectx \<Rightarrow> fault + ectx" where
  "decode_J x =
     bnd (decode_op_i src1_update (J_simm (ival x)) x) (\<lambda>x.
     decode_op_r dest_update (f_rd (ival x)) x)"

definition B_simm :: "u32 \<Rightarrow> u32" where
  "B_simm v = push_bit 12 (b_simm12 v) OR push_bit 11 (b_imm11 v)
     OR push_bit 5 (b_imm10_5 v) OR push_bit 1 (b_imm4_1 v)"

definition decode_B :: "ectx \<Rightarrow> fault + ectx" where
  "decode_B x =
     bnd (decode_op_r src1_update (f_rs1 (ival x)) x) (\<lambda>x.
     bnd (decode_op_r src2_update (f_rs2 (ival x)) x) (\<lambda>x.
     decode_op_i dest_update (B_simm (ival x)) x))"

lemmas rv_decoders = decode_I_def decode_U_def decode_S_def decode_R_def decode_J_def decode_B_def

section \<open>Special instructions (special.c)\<close>

definition exec_inv :: "ectx \<Rightarrow> fault + ectx" where
  "exec_inv x =
     (let x = x\<lparr>ds := (ds x)\<lparr>seq_pc := cpu_pc x\<rparr>\<rparr> in
      bnd (instr_fetch 4 x) (\<lambda>(_, x).
      bnd (instr_fetch 4 x) (\<lambda>(_, x).
      Inr (rtl_exit NEMU_ABORT (cpu_pc x) (-1) x))))"

definition exec_nemu_trap :: "ectx \<Rightarrow> fault + ectx" where
  "exec_nemu_trap x = Inr (rtl_exit NEMU_END (cpu_pc x) (gpr (cpu (mach x)) ! 10) x)"

section \<open>Computing instructions (compute.h)\<close>

definition imm1 :: "ectx \<Rightarrow> u32" where "imm1 x = reg_imm (src1 (ds x))"
definition imm2 :: "ectx \<Rightarrow> u32" where "imm2 x = reg_imm (src2 (ds x))"
definition immd :: "ectx \<Rightarrow> u32" where "immd x = reg_imm (dest (ds x))"

definition exec_lui :: "ectx \<Rightarrow> fault + ectx" where
  "exec_lui x = Inr (rtl_li (ddest x) (imm1 x) x)"
definition exec_auipc :: "ectx \<Rightarrow> fault + ectx" where
  "exec_auipc x = Inr (rtl_li (ddest x) (imm1 x + cpu_pc x) x)"
definition exec_addi :: "ectx \<Rightarrow> fault + ectx" where
  "exec_addi x = Inr (rtl_addi (ddest x) (dsrc1 x) (imm2 x) x)"
definition exec_slti :: "ectx \<Rightarrow> fault + ectx" where
  "exec_slti x = rtl_setrelopi RELOP_LT (ddest x) (dsrc1 x) (imm2 x) x"
definition exec_sltiu :: "ectx \<Rightarrow> fault + ectx" where
  "exec_sltiu x = rtl_setrelopi RELOP_LTU (ddest x) (dsrc1 x) (imm2 x) x"
definition exec_xori :: "ectx \<Rightarrow> fault + ectx" where
  "exec_xori x = Inr (rtl_xori (ddest x) (dsrc1 x) (imm2 x) x)"
definition exec_ori :: "ectx \<Rightarrow> fault + ectx" where
  "exec_ori x = Inr (rtl_ori (ddest x) (dsrc1 x) (imm2 x) x)"
definition exec_andi :: "ectx \<Rightarrow> fault + ectx" where
  "exec_andi x = Inr (rtl_andi (ddest x) (dsrc1 x) (imm2 x) x)"

definition exec_slli :: "ectx \<Rightarrow> fault + ectx" where
  "exec_slli x =
     (if drop_bit 5 (imm2 x) AND 0x7f = 0 then Inr (rtl_shli (ddest x) (dsrc1 x) (imm2 x) x)
      else Inl Assert_Fail)"

definition exec_srlai :: "ectx \<Rightarrow> fault + ectx" where
  "exec_srlai x =
     (let k = drop_bit 5 (imm2 x) AND 0x7f in
      if k = 0 then Inr (rtl_shri (ddest x) (dsrc1 x) (imm2 x) x)
      else if k = 0b0100000 then Inr (rtl_sari (ddest x) (dsrc1 x) (imm2 x) x)
      else Inl Assert_Fail)"

definition exec_add_sub_mul :: "ectx \<Rightarrow> fault + ectx" where
  "exec_add_sub_mul x =
     (let f = funct7 (ival x) in
      if f = 0 then Inr (rtl_add (ddest x) (dsrc1 x) (dsrc2 x) x)
      else if f = 0b0100000 then Inr (rtl_sub (ddest x) (dsrc1 x) (dsrc2 x) x)
      else if f = 1 then Inr (rtl_mul_lo (ddest x) (dsrc1 x) (dsrc2 x) x)
      else Inl Assert_Fail)"

definition exec_slt_mulhsu :: "ectx \<Rightarrow> fault + ectx" where
  "exec_slt_mulhsu x =
     (let f = funct7 (ival x) in
      if f = 0 then rtl_setrelop RELOP_LT (ddest x) (dsrc1 x) (dsrc2 x) x
      else if f = 1 then
        (let x = rtl_mul_hi s0 (dsrc1 x) (dsrc2 x) x;
             x = rtl_li s1 (-1) x;
             x = rtl_mul_hi s1 s1 (dsrc2 x) x
         in Inr (rtl_add (ddest x) s0 s1 x))
      else Inl Assert_Fail)"

definition exec_sltu_mulhu :: "ectx \<Rightarrow> fault + ectx" where
  "exec_sltu_mulhu x =
     (let f = funct7 (ival x) in
      if f = 0 then rtl_setrelop RELOP_LTU (ddest x) (dsrc1 x) (dsrc2 x) x
      else if f = 1 then Inr (rtl_mul_hi (ddest x) (dsrc1 x) (dsrc2 x) x)
      else Inl Assert_Fail)"

definition exec_xor_div :: "ectx \<Rightarrow> fault + ectx" where
  "exec_xor_div x =
     (let f = funct7 (ival x) in
      if f = 0 then Inr (rtl_xor (ddest x) (dsrc1 x) (dsrc2 x) x)
      else if f = 1 then
        (if rd (dsrc2 x) x = 0 then Inr (rtl_li (ddest x) (-1) x)
         else if rd (dsrc1 x) x = 0x80000000 \<and> rd (dsrc2 x) x = -1
         then Inr (rtl_mv (ddest x) (dsrc1 x) x)
         else rtl_idiv_q (ddest x) (dsrc1 x) (dsrc2 x) x)
      else Inl Assert_Fail)"

definition exec_or_rem :: "ectx \<Rightarrow> fault + ectx" where
  "exec_or_rem x =
     (let f = funct7 (ival x) in
      if f = 0 then Inr (rtl_or (ddest x) (dsrc1 x) (dsrc2 x) x)
      else if f = 1 then
        (if rd (dsrc2 x) x = 0 then Inr (rtl_mv (ddest x) (dsrc1 x) x)
         else if rd (dsrc1 x) x = 0x80000000 \<and> rd (dsrc2 x) x = -1
         then Inr (rtl_li (ddest x) 0 x)
         else rtl_idiv_r (ddest x) (dsrc1 x) (dsrc2 x) x)
      else Inl Assert_Fail)"

definition exec_and_remu :: "ectx \<Rightarrow> fault + ectx" where
  "exec_and_remu x =
     (let f = funct7 (ival x) in
      if f = 0 then Inr (rtl_and (ddest x) (dsrc1 x) (dsrc2 x) x)
      else if f = 1 then
        (if rd (dsrc2 x) x = 0 then Inr (rtl_mv (ddest x) (dsrc1 x) x)
         else rtl_div_r (ddest x) (dsrc1 x) (dsrc2 x) x)
      else Inl Assert_Fail)"

definition exec_sll_mulh :: "ectx \<Rightarrow> fault + ectx" where
  "exec_sll_mulh x =
     (let f = funct7 (ival x) in
      if f = 0 then Inr (rtl_shl (ddest x) (dsrc1 x) (dsrc2 x) x)
      else if f = 1 then Inr (rtl_imul_hi (ddest x) (dsrc1 x) (dsrc2 x) x)
      else Inl Assert_Fail)"

definition exec_srla_divu :: "ectx \<Rightarrow> fault + ectx" where
  "exec_srla_divu x =
     (let f = funct7 (ival x) in
      if f = 0 then Inr (rtl_shr (ddest x) (dsrc1 x) (dsrc2 x) x)
      else if f = 0b0100000 then Inr (rtl_sar (ddest x) (dsrc1 x) (dsrc2 x) x)
      else if f = 1 then
        (if rd (dsrc2 x) x = 0 then Inr (rtl_li (ddest x) (-1) x)
         else rtl_div_q (ddest x) (dsrc1 x) (dsrc2 x) x)
      else Inl Assert_Fail)"

section \<open>Control instructions (control.h)\<close>

definition exec_jal :: "ectx \<Rightarrow> fault + ectx" where
  "exec_jal x =
     (let x = rtl_j (cpu_pc x + imm1 x) x
      in Inr (rtl_li (ddest x) (seq_pc (ds x)) x))"

definition exec_jalr :: "ectx \<Rightarrow> fault + ectx" where
  "exec_jalr x =
     (if funct3 (ival x) = 0 then
        (let x = rtl_addi s0 (dsrc1 x) (imm2 x) x;
             x = rtl_andi s0 s0 (NOT 1) x;
             x = rtl_jr s0 x
         in Inr (rtl_li (ddest x) (seq_pc (ds x)) x))
      else Inl Assert_Fail)"

text \<open>The six branches differ in the relation only.\<close>

definition exec_b :: "u32 \<Rightarrow> ectx \<Rightarrow> fault + ectx" where
  "exec_b relop x =
     bnd (rtl_setrelop relop s0 (dsrc1 x) (dsrc2 x) x) (\<lambda>x.
     Inr (if rd s0 x = 1 then rtl_j (cpu_pc x + immd x) x else x))"

definition exec_beq where "exec_beq = exec_b RELOP_EQ"
definition exec_bne where "exec_bne = exec_b RELOP_NE"
definition exec_blt where "exec_blt = exec_b RELOP_LT"
definition exec_bge where "exec_bge = exec_b RELOP_GE"
definition exec_bltu where "exec_bltu = exec_b RELOP_LTU"
definition exec_bgeu where "exec_bgeu = exec_b RELOP_GEU"

section \<open>Loads and stores (ldst.h)\<close>

definition width_ok :: "int list \<Rightarrow> ectx \<Rightarrow> fault + ectx" where
  "width_ok ws x = bnd (c_assert (width (ds x) \<in> set ws)) (\<lambda>_. Inr x)"

definition exec_ld :: "ectx \<Rightarrow> fault + ectx" where
  "exec_ld x =
     bnd (rtl_lm (ddest x) (dsrc1 x) (imm2 x) (width (ds x)) x) (width_ok [4, 2, 1])"

definition exec_lds :: "ectx \<Rightarrow> fault + ectx" where
  "exec_lds x =
     bnd (rtl_lms (ddest x) (dsrc1 x) (imm2 x) (width (ds x)) x) (width_ok [2, 1])"

definition exec_st :: "ectx \<Rightarrow> fault + ectx" where
  "exec_st x =
     bnd (rtl_sm (dsrc1 x) (imm2 x) (ddest x) (width (ds x)) x) (width_ok [4, 2, 1])"

section \<open>The opcode switch (exec.c)\<close>

definition set_width :: "int \<Rightarrow> ectx \<Rightarrow> ectx" where
  "set_width w x = (if w \<noteq> 0 then x\<lparr>ds := (ds x)\<lparr>width := w\<rparr>\<rparr> else x)"

definition IDEX :: "(ectx \<Rightarrow> fault + ectx) \<Rightarrow> (ectx \<Rightarrow> fault + ectx) \<Rightarrow> ectx \<Rightarrow> fault + ectx" where
  "IDEX dec ex x = bnd (dec (set_width 0 x)) ex"

definition EXW :: "(ectx \<Rightarrow> fault + ectx) \<Rightarrow> int \<Rightarrow> ectx \<Rightarrow> fault + ectx" where
  "EXW ex w x = ex (set_width w x)"

definition EX0 :: "(ectx \<Rightarrow> fault + ectx) \<Rightarrow> ectx \<Rightarrow> fault + ectx" where
  "EX0 ex x = EXW ex 0 x"

definition exec_load :: "ectx \<Rightarrow> fault + ectx" where
  "exec_load x =
     (let f = funct3 (ival x) in
      if f = 0b000 then EXW exec_lds 1 x
      else if f = 0b001 then EXW exec_lds 2 x
      else if f = 0b010 then EXW exec_ld 4 x
      else if f = 0b100 then EXW exec_ld 1 x
      else if f = 0b101 then EXW exec_ld 2 x
      else exec_inv x)"

definition exec_store :: "ectx \<Rightarrow> fault + ectx" where
  "exec_store x =
     (let f = funct3 (ival x) in
      if f = 0b000 then EXW exec_st 1 x
      else if f = 0b001 then EXW exec_st 2 x
      else if f = 0b010 then EXW exec_st 4 x
      else exec_inv x)"

definition exec_op_imm :: "ectx \<Rightarrow> fault + ectx" where
  "exec_op_imm x =
     (let f = funct3 (ival x) in
      if f = 0b000 then EX0 exec_addi x
      else if f = 0b010 then EX0 exec_slti x
      else if f = 0b011 then EX0 exec_sltiu x
      else if f = 0b100 then EX0 exec_xori x
      else if f = 0b110 then EX0 exec_ori x
      else if f = 0b111 then EX0 exec_andi x
      else if f = 0b001 then EX0 exec_slli x
      else if f = 0b101 then EX0 exec_srlai x
      else exec_inv x)"

definition exec_op :: "ectx \<Rightarrow> fault + ectx" where
  "exec_op x =
     (let f = funct3 (ival x) in
      if f = 0b000 then EX0 exec_add_sub_mul x
      else if f = 0b010 then EX0 exec_slt_mulhsu x
      else if f = 0b011 then EX0 exec_sltu_mulhu x
      else if f = 0b100 then EX0 exec_xor_div x
      else if f = 0b110 then EX0 exec_or_rem x
      else if f = 0b111 then EX0 exec_and_remu x
      else if f = 0b001 then EX0 exec_sll_mulh x
      else if f = 0b101 then EX0 exec_srla_divu x
      else exec_inv x)"

text \<open>No default case: the two unassigned values of \<open>funct3\<close> fall through and do nothing.\<close>

definition exec_branch :: "ectx \<Rightarrow> fault + ectx" where
  "exec_branch x =
     (let f = funct3 (ival x) in
      if f = 0b000 then EX0 exec_beq x
      else if f = 0b001 then EX0 exec_bne x
      else if f = 0b100 then EX0 exec_blt x
      else if f = 0b101 then EX0 exec_bge x
      else if f = 0b110 then EX0 exec_bltu x
      else if f = 0b111 then EX0 exec_bgeu x
      else Inr x)"

definition decode_exec :: "ectx \<Rightarrow> fault + ectx" where
  "decode_exec x =
     (let f = opcode6_2 (ival x) in
      if f = 0b00000 then IDEX decode_I exec_load x
      else if f = 0b00100 then IDEX decode_I exec_op_imm x
      else if f = 0b11001 then IDEX decode_I exec_jalr x
      else if f = 0b01000 then IDEX decode_S exec_store x
      else if f = 0b00101 then IDEX decode_U exec_auipc x
      else if f = 0b01101 then IDEX decode_U exec_lui x
      else if f = 0b01100 then IDEX decode_R exec_op x
      else if f = 0b11011 then IDEX decode_J exec_jal x
      else if f = 0b11000 then IDEX decode_B exec_branch x
      else if f = 0b11010 then EX0 exec_nemu_trap x
      else exec_inv x)"

definition fetch_decode_exec :: "ectx \<Rightarrow> fault + ectx" where
  "fetch_decode_exec x =
     bnd (instr_fetch 4 x) (\<lambda>(v, x).
     let x = x\<lparr>ds := (ds x)\<lparr>instr_val := v\<rparr>\<rparr> in
     bnd (c_assert (opcode1_0 v = 3)) (\<lambda>_. decode_exec x))"

definition reset_zero :: "machine \<Rightarrow> machine" where
  "reset_zero m = set_gpr 0 0 m"

definition exec_start :: "DecodeExecState \<Rightarrow> machine \<Rightarrow> ectx" where
  "exec_start junk m = \<lparr>ds = junk\<lparr>is_jmp := 0, seq_pc := pc (cpu m)\<rparr>, mach = m\<rparr>"

definition isa_exec_once :: "DecodeExecState \<Rightarrow> machine \<Rightarrow> fault + (u32 \<times> machine)" where
  "isa_exec_once junk m =
     bnd (fetch_decode_exec (exec_start junk m)) (\<lambda>x.
     let x = update_pc x in
     Inr (seq_pc (ds x), reset_zero (mach x)))"

section \<open>Initialisation (init.c), interrupts (intr.c), register comparison (dut.c)\<close>

definition img :: "u32 list" where
  "img = [0x800002b7, 0x0002a023, 0x00828313, 0x0002a503, 0x0000006b]"

definition restart :: "machine \<Rightarrow> machine" where
  "restart m =
     (let m = m\<lparr>cpu := (cpu m)\<lparr>pc := PMEM_BASE (isa m) + IMAGE_START (isa m)\<rparr>\<rparr>
      in set_gpr 0 0 m)"

definition img_bytes :: "u32 list \<Rightarrow> u8 list" where
  "img_bytes ws = concat (map (\<lambda>w. map (\<lambda>i. byte_at i w) [0 ..< 4]) ws)"

definition init_isa :: "machine \<Rightarrow> machine" where
  "init_isa m = restart (load_bytes (IMAGE_START (isa m)) (img_bytes img) m)"

definition raise_intr :: "ectx \<Rightarrow> u32 \<Rightarrow> u32 \<Rightarrow> fault + ectx" where
  "raise_intr x NO epc = Inl Todo"

definition query_intr :: "ectx \<Rightarrow> ectx" where
  "query_intr x = x"

definition isa_difftest_checkregs :: "CPU_state \<Rightarrow> machine \<Rightarrow> bool" where
  "isa_difftest_checkregs ref_r m \<longleftrightarrow> ref_r = cpu m"

end
