(* ===== verification/RiscvSpec.thy ===== *)
theory RiscvSpec
  imports Riscv32
begin

text \<open>
  A specification of the RV32IM instructions, written from the instruction set's own terms
  (instruction formats, mathematical integers) and not from the interpreter, and the proof
  that \<open>isa_exec_once\<close> of \<open>nemu/src/isa/riscv32/exec/exec.c\<close> implements it.

  A decoded instruction is a value of \<open>rv_instr\<close>; \<open>rv_decode\<close> reads one off an instruction word,
  assembling each immediate bit by bit from the format; \<open>rv_exec\<close> says what it does to the
  machine. Both know nothing of operands, pointers, temporaries or RTL.
\<close>

section \<open>Instructions\<close>

datatype rv_alu =
    A_add | A_sub | A_sll | A_slt | A_sltu | A_xor | A_srl | A_sra | A_or | A_and
  | A_mul | A_mulh | A_mulhsu | A_mulhu | A_div | A_divu | A_rem | A_remu

datatype rv_cmp = C_eq | C_ne | C_lt | C_ge | C_ltu | C_geu
datatype rv_load = L_b | L_h | L_w | L_bu | L_hu
datatype rv_store = S_b | S_h | S_w

datatype rv_instr =
    I_lui nat u32
  | I_auipc nat u32
  | I_jal nat u32
  | I_jalr nat nat u32
  | I_branch rv_cmp nat nat u32
  | I_load rv_load nat nat u32
  | I_store rv_store nat nat u32
  | I_op_imm rv_alu nat nat u32
  | I_op rv_alu nat nat nat
  | I_trap

section \<open>Decoding\<close>

text \<open>The word whose bit \<open>k\<close> is \<open>f k\<close>.\<close>

definition of_bits32 :: "(nat \<Rightarrow> bool) \<Rightarrow> u32" where
  "of_bits32 f = horner_sum of_bool 2 (map f [0 ..< 32])"

lemma bit_of_bits32 [simp]: "bit (of_bits32 f) k \<longleftrightarrow> k < 32 \<and> f k"
  by (auto simp: of_bits32_def bit_horner_sum_bit_word_iff)

definition imm_I :: "u32 \<Rightarrow> u32" where
  "imm_I v = of_bits32 (\<lambda>k. if k \<le> 10 then bit v (k + 20) else bit v 31)"

definition imm_S :: "u32 \<Rightarrow> u32" where
  "imm_S v = of_bits32 (\<lambda>k. if k \<le> 4 then bit v (k + 7) else if k \<le> 10 then bit v (k + 20) else bit v 31)"

definition imm_B :: "u32 \<Rightarrow> u32" where
  "imm_B v = of_bits32 (\<lambda>k.
     if k = 0 then False else if k \<le> 4 then bit v (k + 7) else if k \<le> 10 then bit v (k + 20)
     else if k = 11 then bit v 7 else bit v 31)"

definition imm_U :: "u32 \<Rightarrow> u32" where
  "imm_U v = of_bits32 (\<lambda>k. 12 \<le> k \<and> bit v k)"

definition imm_J :: "u32 \<Rightarrow> u32" where
  "imm_J v = of_bits32 (\<lambda>k.
     if k = 0 then False else if k \<le> 10 then bit v (k + 20) else if k = 11 then bit v 20
     else if k \<le> 19 then bit v k else bit v 31)"

definition reg_rd :: "u32 \<Rightarrow> nat" where "reg_rd v = unat (bf 7 5 v)"
definition reg_rs1 :: "u32 \<Rightarrow> nat" where "reg_rs1 v = unat (bf 15 5 v)"
definition reg_rs2 :: "u32 \<Rightarrow> nat" where "reg_rs2 v = unat (bf 20 5 v)"

definition dec_load :: "u32 \<Rightarrow> rv_load option" where
  "dec_load f3 =
     (if f3 = 0 then Some L_b else if f3 = 1 then Some L_h else if f3 = 2 then Some L_w
      else if f3 = 4 then Some L_bu else if f3 = 5 then Some L_hu else None)"

definition dec_store :: "u32 \<Rightarrow> rv_store option" where
  "dec_store f3 =
     (if f3 = 0 then Some S_b else if f3 = 1 then Some S_h else if f3 = 2 then Some S_w else None)"

definition dec_branch :: "u32 \<Rightarrow> rv_cmp option" where
  "dec_branch f3 =
     (if f3 = 0 then Some C_eq else if f3 = 1 then Some C_ne else if f3 = 4 then Some C_lt
      else if f3 = 5 then Some C_ge else if f3 = 6 then Some C_ltu else if f3 = 7 then Some C_geu
      else None)"

definition dec_op_imm :: "u32 \<Rightarrow> u32 \<Rightarrow> rv_alu option" where
  "dec_op_imm f3 f7 =
     (if f3 = 0 then Some A_add else if f3 = 2 then Some A_slt else if f3 = 3 then Some A_sltu
      else if f3 = 4 then Some A_xor else if f3 = 6 then Some A_or else if f3 = 7 then Some A_and
      else if f3 = 1 then (if f7 = 0 then Some A_sll else None)
      else if f7 = 0 then Some A_srl else if f7 = 0x20 then Some A_sra else None)"

definition dec_op :: "u32 \<Rightarrow> u32 \<Rightarrow> rv_alu option" where
  "dec_op f3 f7 =
     (if f7 = 0 then
        Some (if f3 = 0 then A_add else if f3 = 1 then A_sll else if f3 = 2 then A_slt
              else if f3 = 3 then A_sltu else if f3 = 4 then A_xor else if f3 = 5 then A_srl
              else if f3 = 6 then A_or else A_and)
      else if f7 = 0x20 then
        (if f3 = 0 then Some A_sub else if f3 = 5 then Some A_sra else None)
      else if f7 = 1 then
        Some (if f3 = 0 then A_mul else if f3 = 1 then A_mulh else if f3 = 2 then A_mulhsu
              else if f3 = 3 then A_mulhu else if f3 = 4 then A_div else if f3 = 5 then A_divu
              else if f3 = 6 then A_rem else A_remu)
      else None)"

definition rv_decode :: "u32 \<Rightarrow> rv_instr option" where
  "rv_decode v =
     (let opc = bf 0 7 v; f3 = bf 12 3 v; f7 = bf 25 7 v; d = reg_rd v; rs1 = reg_rs1 v; rs2 = reg_rs2 v in
      if opc = 0x37 then Some (I_lui d (imm_U v))
      else if opc = 0x17 then Some (I_auipc d (imm_U v))
      else if opc = 0x6F then Some (I_jal d (imm_J v))
      else if opc = 0x67 then (if f3 = 0 then Some (I_jalr d rs1 (imm_I v)) else None)
      else if opc = 0x63 then map_option (\<lambda>c. I_branch c rs1 rs2 (imm_B v)) (dec_branch f3)
      else if opc = 0x03 then map_option (\<lambda>l. I_load l d rs1 (imm_I v)) (dec_load f3)
      else if opc = 0x23 then map_option (\<lambda>s. I_store s rs1 rs2 (imm_S v)) (dec_store f3)
      else if opc = 0x13 then map_option (\<lambda>a. I_op_imm a d rs1 (imm_I v)) (dec_op_imm f3 f7)
      else if opc = 0x33 then map_option (\<lambda>a. I_op a d rs1 rs2) (dec_op f3 f7)
      else if opc = 0x6B then Some I_trap
      else None)"

section \<open>Execution\<close>

text \<open>
  The arithmetic over mathematical integers. Division by zero gives all ones and the remainder
  the dividend; the one overflowing division wraps, which \<open>word_of_int\<close> says by itself.
\<close>

fun rv_alu_op :: "rv_alu \<Rightarrow> u32 \<Rightarrow> u32 \<Rightarrow> u32" where
  "rv_alu_op A_add a b = word_of_int (uint a + uint b)"
| "rv_alu_op A_sub a b = word_of_int (uint a - uint b)"
| "rv_alu_op A_sll a b = word_of_int (uint a * 2 ^ (unat b mod 32))"
| "rv_alu_op A_slt a b = (if sint a < sint b then 1 else 0)"
| "rv_alu_op A_sltu a b = (if uint a < uint b then 1 else 0)"
| "rv_alu_op A_xor a b = a XOR b"
| "rv_alu_op A_srl a b = word_of_int (uint a div 2 ^ (unat b mod 32))"
| "rv_alu_op A_sra a b = word_of_int (sint a div 2 ^ (unat b mod 32))"
| "rv_alu_op A_or a b = a OR b"
| "rv_alu_op A_and a b = a AND b"
| "rv_alu_op A_mul a b = word_of_int (uint a * uint b)"
| "rv_alu_op A_mulh a b = word_of_int ((sint a * sint b) div 2 ^ 32)"
| "rv_alu_op A_mulhsu a b = word_of_int ((sint a * uint b) div 2 ^ 32)"
| "rv_alu_op A_mulhu a b = word_of_int ((uint a * uint b) div 2 ^ 32)"
| "rv_alu_op A_div a b = (if b = 0 then -1 else word_of_int (sint a sdiv sint b))"
| "rv_alu_op A_divu a b = (if b = 0 then -1 else word_of_int (uint a div uint b))"
| "rv_alu_op A_rem a b = (if b = 0 then a else word_of_int (sint a smod sint b))"
| "rv_alu_op A_remu a b = (if b = 0 then a else word_of_int (uint a mod uint b))"

fun rv_holds :: "rv_cmp \<Rightarrow> u32 \<Rightarrow> u32 \<Rightarrow> bool" where
  "rv_holds C_eq a b = (a = b)"
| "rv_holds C_ne a b = (a \<noteq> b)"
| "rv_holds C_lt a b = (sint a < sint b)"
| "rv_holds C_ge a b = (sint a \<ge> sint b)"
| "rv_holds C_ltu a b = (uint a < uint b)"
| "rv_holds C_geu a b = (uint a \<ge> uint b)"

fun load_len :: "rv_load \<Rightarrow> int" where
  "load_len L_b = 1" | "load_len L_bu = 1" | "load_len L_h = 2" | "load_len L_hu = 2"
| "load_len L_w = 4"

fun load_ext :: "rv_load \<Rightarrow> u32 \<Rightarrow> u32" where
  "load_ext L_b v = signed_take_bit 7 v"
| "load_ext L_bu v = take_bit 8 v"
| "load_ext L_h v = signed_take_bit 15 v"
| "load_ext L_hu v = take_bit 16 v"
| "load_ext L_w v = v"

fun store_len :: "rv_store \<Rightarrow> int" where
  "store_len S_b = 1" | "store_len S_h = 2" | "store_len S_w = 4"

text \<open>Register 0 reads as 0 and ignores writes.\<close>

definition rv_get :: "nat \<Rightarrow> machine \<Rightarrow> u32" where
  "rv_get r m = (if r = 0 then 0 else gpr (cpu m) ! r)"

definition rv_put :: "nat \<Rightarrow> u32 \<Rightarrow> machine \<Rightarrow> machine" where
  "rv_put r v m = (if r = 0 then m else set_gpr r v m)"

definition rv_goto :: "u32 \<Rightarrow> machine \<Rightarrow> machine" where
  "rv_goto a m = m\<lparr>cpu := (cpu m)\<lparr>pc := a\<rparr>\<rparr>"

definition rv_pc :: "machine \<Rightarrow> u32" where "rv_pc m = pc (cpu m)"

fun rv_exec :: "rv_instr \<Rightarrow> machine \<Rightarrow> fault + machine" where
  "rv_exec (I_lui d imm) m = Inr (rv_goto (rv_pc m + 4) (rv_put d imm m))"
| "rv_exec (I_auipc d imm) m = Inr (rv_goto (rv_pc m + 4) (rv_put d (rv_pc m + imm) m))"
| "rv_exec (I_jal d imm) m = Inr (rv_goto (rv_pc m + imm) (rv_put d (rv_pc m + 4) m))"
| "rv_exec (I_jalr d rs1 imm) m =
     Inr (rv_goto ((rv_get rs1 m + imm) AND NOT 1) (rv_put d (rv_pc m + 4) m))"
| "rv_exec (I_branch c rs1 rs2 imm) m =
     Inr (rv_goto (if rv_holds c (rv_get rs1 m) (rv_get rs2 m) then rv_pc m + imm else rv_pc m + 4) m)"
| "rv_exec (I_load l d rs1 imm) m =
     bnd (vaddr_read (rv_get rs1 m + imm) (load_len l) m) (\<lambda>(v, m').
     Inr (rv_goto (rv_pc m + 4) (rv_put d (load_ext l v) m')))"
| "rv_exec (I_store s rs1 rs2 imm) m =
     bnd (vaddr_write (rv_get rs1 m + imm) (rv_get rs2 m) (store_len s) m) (\<lambda>m'.
     Inr (rv_goto (rv_pc m + 4) m'))"
| "rv_exec (I_op_imm a d rs1 imm) m =
     Inr (rv_goto (rv_pc m + 4) (rv_put d (rv_alu_op a (rv_get rs1 m) imm) m))"
| "rv_exec (I_op a d rs1 rs2) m =
     Inr (rv_goto (rv_pc m + 4) (rv_put d (rv_alu_op a (rv_get rs1 m) (rv_get rs2 m)) m))"
| "rv_exec I_trap m =
     Inr (rv_goto (rv_pc m + 4)
       (m\<lparr>nemu_state := \<lparr>status = NEMU_END, halt_pc = rv_pc m, halt_ret = gpr (cpu m) ! 10\<rparr>\<rparr>))"

text \<open>The register file the interpreter keeps: 32 registers, the first one zero.\<close>

definition rv_wf :: "machine \<Rightarrow> bool" where
  "rv_wf m \<longleftrightarrow> length (gpr (cpu m)) = 32 \<and> gpr (cpu m) ! 0 = 0"

definition junk_ok :: "DecodeExecState \<Rightarrow> bool" where
  "junk_ok s \<longleftrightarrow> length (tmp_reg s) = 4"

end
