(* ===== verification/RiscvRefine.thy ===== *)
theory RiscvRefine
  imports RiscvSpec
begin

text \<open>
  The proof that the riscv32 interpreter implements \<open>RiscvSpec\<close>. First the C operators against
  integer arithmetic and the bit-field immediates against the instruction formats; then the
  decode helpers; then one lemma per instruction group; last the step itself.
\<close>

section \<open>C operators are the specified arithmetic\<close>

lemma c_shift_amount: "unat (b AND c_shift_mask) = unat b mod 32"
  unfolding c_shift_mask_def shift_mask_31
  by (simp add: unsigned_take_bit_eq take_bit_eq_mod unat_mod)

lemma uint_drop_bit: "uint (drop_bit n (a :: 'a::len word)) = uint a div 2 ^ n"
proof -
  have "uint (drop_bit n a) = drop_bit n (uint a)"
    by (rule bit_eqI) (auto simp: bit_simps bit_uint_iff dest: bit_imp_le_length)
  then show ?thesis by (simp add: drop_bit_eq_div)
qed

lemma sint_signed_drop: "sint (signed_drop_bit n (a :: 'a::len word)) = sint a div 2 ^ n"
  by (simp add: sint_signed_drop_bit_eq drop_bit_eq_div)

lemma of_uint_same: "word_of_int (uint (w :: u32)) = w" by simp
lemma of_sint_same: "word_of_int (sint (w :: u32)) = w" by simp

lemma low_word_sint: "(ucast (x :: u64) :: u32) = word_of_int (sint x)"
  by (rule bit_word_eqI) (auto simp: bit_simps bit_sint_iff)

lemma sint32_bounds: "- (2 ^ 31) \<le> sint (a :: u32)" "sint (a :: u32) < 2 ^ 31"
  using sint_ge [of a] sint_lt [of a] by simp_all

lemma c_add_alu: "c_add a b = rv_alu_op A_add a b"
  by (simp add: c_add_def)

lemma c_sub_alu: "c_sub a b = rv_alu_op A_sub a b"
  by (simp add: c_sub_def)

lemma c_and_alu: "c_and a b = rv_alu_op A_and a b"
  by (simp add: c_and_def)

lemma c_or_alu: "c_or a b = rv_alu_op A_or a b"
  by (simp add: c_or_def)

lemma c_xor_alu: "c_xor a b = rv_alu_op A_xor a b"
  by (simp add: c_xor_def)

lemma c_shl_alu: "c_shl a b = rv_alu_op A_sll a b"
  by (simp add: c_shl_def c_shift_amount push_bit_eq_mult)

lemma c_shr_alu: "c_shr a b = rv_alu_op A_srl a b"
  unfolding c_shr_def c_shift_amount rv_alu_op.simps uint_drop_bit [symmetric] of_uint_same ..

lemma c_sar_alu: "c_sar a b = rv_alu_op A_sra a b"
  unfolding c_sar_def c_shift_amount rv_alu_op.simps sint_signed_drop [symmetric] of_sint_same ..

lemma c_mul_lo_alu: "c_mul_lo a b = rv_alu_op A_mul a b"
  by (simp add: c_mul_lo_def)

lemma c_imul_hi_alu: "c_imul_hi a b = rv_alu_op A_mulh a b"
proof -
  have up: "sint (scast w :: u64) = sint w" for w :: u32
    by (simp add: sint_up_scast is_up)
  have "\<bar>sint a * sint b\<bar> \<le> 2 ^ 31 * 2 ^ 31"
    unfolding abs_mult using sint32_bounds [of a] sint32_bounds [of b] by (intro mult_mono) auto
  then have "sint ((scast a :: u64) * scast b) = sint a * sint b"
    by (simp add: sint_word_ariths up signed_take_bit_int_eq_self)
  then show ?thesis
    unfolding c_imul_hi_def rv_alu_op.simps low_word_sint
    by (simp add: drop_bit_eq_div sint_signed_drop_bit_eq)
qed

lemma c_mul_hi_alu: "c_mul_hi a b = rv_alu_op A_mulhu a b"
proof -
  have up: "uint (ucast w :: u64) = uint w" for w :: u32
    by (simp add: uint_up_ucast is_up)
  have "uint a * uint b \<le> (2 ^ 32 - 1) * (2 ^ 32 - 1)"
    using uint_lt2p [of a] uint_lt2p [of b] by (intro mult_mono) auto
  then have "uint ((ucast a :: u64) * ucast b) = uint a * uint b"
    by (simp add: uint_word_ariths up)
  then show ?thesis
    unfolding c_mul_hi_def rv_alu_op.simps ucast_eq [of "drop_bit _ _"] uint_drop_bit by simp
qed

lemma divu_alu: "b \<noteq> 0 \<Longrightarrow> a div b = rv_alu_op A_divu a b"
  by (simp add: word_div_def)

lemma remu_alu: "b \<noteq> 0 \<Longrightarrow> a mod b = rv_alu_op A_remu a b"
  by (simp add: word_mod_def)

lemma div_overflow_alu: "rv_alu_op A_div 0x80000000 (-1) = 0x80000000"
  "rv_alu_op A_rem 0x80000000 (-1) = 0"
  by (simp_all add: signed_divide_int_def signed_modulo_int_def)

lemma slt_alu: "of_bool (sint a < sint b) = rv_alu_op A_slt a b"
  "of_bool (a < b) = rv_alu_op A_sltu a b"
  by (simp_all add: word_less_def)

lemmas alu_ops = c_add_alu c_sub_alu c_and_alu c_or_alu c_xor_alu c_shl_alu c_shr_alu c_sar_alu
  c_mul_lo_alu c_imul_hi_alu c_mul_hi_alu slt_alu

section \<open>Bit-field immediates are the specified immediates\<close>

lemma word32_eqI: "(\<forall>k \<in> set [0 ..< 32]. bit (a :: u32) k = bit b k) \<Longrightarrow> a = b"
  by (rule bit_word_eqI) simp

lemma upt_32: "[0 ..< 32] =
    [0,1,2,3,4,5,6,7,8,9,10,11,12,13,14,15,16,17,18,19,20,21,22,23,24,25,26,27,28,29,30,31]"
  by (simp add: upt_conv_Cons)

lemmas field_bits = bf_def sbf_def bit_or_iff bit_push_bit_iff bit_take_bit_iff
  bit_signed_take_bit_iff bit_drop_bit_eq bit_of_bits32

lemma I_imm_spec: "i_simm11_0 v = imm_I v"
  by (rule word32_eqI, unfold upt_32, simp only: rv_fields imm_I_def field_bits)
     (simp add: min_def)

lemma S_imm_spec: "S_simm v = imm_S v"
  by (rule word32_eqI, unfold upt_32, simp only: rv_fields S_simm_def imm_S_def field_bits)
     (simp add: min_def)

lemma B_imm_spec: "B_simm v = imm_B v"
  by (rule word32_eqI, unfold upt_32, simp only: rv_fields B_simm_def imm_B_def field_bits)
     (simp add: min_def)

lemma U_imm_spec: "push_bit 12 (u_imm31_12 v) = imm_U v"
  by (rule word32_eqI, unfold upt_32, simp only: rv_fields imm_U_def field_bits)
     (simp add: min_def)

lemma J_imm_spec: "J_simm v = imm_J v"
  by (rule word32_eqI, unfold upt_32, simp only: rv_fields J_simm_def imm_J_def field_bits)
     (simp add: min_def)

lemmas imm_specs = I_imm_spec S_imm_spec B_imm_spec U_imm_spec J_imm_spec

lemma opcode_split:
  "opcode1_0 v = bf 0 2 (bf 0 7 v)" "opcode6_2 v = bf 2 5 (bf 0 7 v)"
  by (simp_all add: rv_fields bf_def drop_bit_take_bit)

lemma shamt_funct7: "drop_bit 5 (imm_I v) AND 0x7f = funct7 v"
  by (rule word32_eqI, unfold upt_32, simp only: rv_fields imm_I_def field_bits bit_and_iff)
     (simp add: min_def bit_simps)

section \<open>Decoding never fails\<close>

lemma check_reg_index_ok: "unat i < 32 \<Longrightarrow> check_reg_index i = Inr (unat i)"
  by (simp add: check_reg_index_def)

lemma decode_op_r_ok:
  "unat i < 32 \<Longrightarrow> decode_op_r upd i x =
     Inr (x\<lparr>ds := upd (\<lambda>op. op\<lparr>op_type := OP_TYPE_REG, reg_imm := i, preg := GprP (unat i)\<rparr>) (ds x)\<rparr>)"
  by (simp add: decode_op_r_def check_reg_index_ok)

lemmas decode_simps = rv_decoders decode_op_i_def decode_op_r_ok f_rs1_def f_rs2_def f_rd_def

lemma bf3_cases:
  "bf lo 3 v = 0 \<or> bf lo 3 v = 1 \<or> bf lo 3 v = 2 \<or> bf lo 3 v = 3
   \<or> bf lo 3 v = 4 \<or> bf lo 3 v = 5 \<or> bf lo 3 v = 6 \<or> bf lo 3 v = 7"
proof -
  have "unat (bf lo 3 v) < 8" using unat_bf_less [of lo 3 v] by simp
  then show ?thesis by (simp add: word_unat_eq_iff) arith
qed

section \<open>The frame of a step\<close>

definition loaded :: "DecodeExecState \<Rightarrow> u32 \<Rightarrow> machine \<Rightarrow> ectx" where
  "loaded junk v m =
     \<lparr>ds = junk\<lparr>is_jmp := 0, seq_pc := pc (cpu m) + 4, instr_val := v\<rparr>, mach = m\<rparr>"

definition rv_finish :: "ectx \<Rightarrow> fault + (u32 \<times> machine)" where
  "rv_finish x = Inr (seq_pc (ds x), reset_zero (mach (update_pc x)))"

definition next_pc :: "ectx \<Rightarrow> u32" where
  "next_pc x = (if is_jmp (ds x) \<noteq> 0 then jmp_pc (ds x) else seq_pc (ds x))"

lemma exec_once_fetch:
  assumes "vaddr_ifetch (pc (cpu m)) 4 m = Inr (v, m1)"
  shows "isa_exec_once junk m =
    (if opcode1_0 v = 3 then bnd (decode_exec (loaded junk v m1)) rv_finish else Inl Assert_Fail)"
proof -
  have "cpu m1 = cpu m" using assms by (blast dest: vaddr_ifetch_core core_cpu)
  then show ?thesis
    using assms
    by (simp add: isa_exec_once_def fetch_decode_exec_def exec_start_def instr_fetch_def
        loaded_def rv_finish_def [abs_def] update_pc_def Let_def bnd_assoc)
qed

lemma finish_no_wr:
  assumes "rv_wf (mach x)"
  shows "rv_finish x = Inr (seq_pc (ds x), rv_goto (next_pc x) (mach x))"
proof -
  have "(gpr (cpu (mach x)))[0 := 0] = gpr (cpu (mach x))"
    using assms list_update_id [of _ 0] by (metis rv_wf_def)
  then show ?thesis
    by (simp add: rv_finish_def reset_zero_def update_pc_def set_gpr_def rv_goto_def next_pc_def)
qed

lemma finish_wr_gpr:
  assumes "rv_wf (mach x)"
  shows "rv_finish (wr (GprP r) v x) =
    Inr (seq_pc (ds x), rv_goto (next_pc x) (rv_put r v (mach x)))"
proof -
  have "(gpr (cpu (mach x)))[0 := 0] = gpr (cpu (mach x))"
    using assms list_update_id [of _ 0] by (metis rv_wf_def)
  moreover have "(gpr (cpu (mach x)))[r := v, 0 := 0] = (gpr (cpu (mach x)))[0 := 0, r := v]" if "r \<noteq> 0"
    using that by (simp add: list_update_swap)
  ultimately show ?thesis
    by (auto simp: rv_finish_def reset_zero_def update_pc_def set_gpr_def rv_goto_def next_pc_def
        wr_def rv_put_def)
qed

lemma rd_gpr: "rv_wf (mach x) \<Longrightarrow> rd (GprP r) x = rv_get r (mach x)"
  by (simp add: rd_def rv_get_def rv_wf_def)

lemma tmp_access:
  "wr (TmpP i) v x = x\<lparr>ds := (ds x)\<lparr>tmp_reg := (tmp_reg (ds x))[i := v]\<rparr>\<rparr>"
  "rd (TmpP i) x = tmp_reg (ds x) ! i"
  "rd RzP x = 0"
  by (simp_all add: wr_def rd_def)

text \<open>What the decode helpers establish: the operands as registers and immediates.\<close>

lemma decode_exec_IDEX:
  "opcode6_2 v = 0b00100 \<Longrightarrow> decode_exec (loaded j v m) = IDEX decode_I exec_op_imm (loaded j v m)"
  "opcode6_2 v = 0b00000 \<Longrightarrow> decode_exec (loaded j v m) = IDEX decode_I exec_load (loaded j v m)"
  "opcode6_2 v = 0b11001 \<Longrightarrow> decode_exec (loaded j v m) = IDEX decode_I exec_jalr (loaded j v m)"
  "opcode6_2 v = 0b01000 \<Longrightarrow> decode_exec (loaded j v m) = IDEX decode_S exec_store (loaded j v m)"
  "opcode6_2 v = 0b00101 \<Longrightarrow> decode_exec (loaded j v m) = IDEX decode_U exec_auipc (loaded j v m)"
  "opcode6_2 v = 0b01101 \<Longrightarrow> decode_exec (loaded j v m) = IDEX decode_U exec_lui (loaded j v m)"
  "opcode6_2 v = 0b01100 \<Longrightarrow> decode_exec (loaded j v m) = IDEX decode_R exec_op (loaded j v m)"
  "opcode6_2 v = 0b11011 \<Longrightarrow> decode_exec (loaded j v m) = IDEX decode_J exec_jal (loaded j v m)"
  "opcode6_2 v = 0b11000 \<Longrightarrow> decode_exec (loaded j v m) = IDEX decode_B exec_branch (loaded j v m)"
  "opcode6_2 v = 0b11010 \<Longrightarrow> decode_exec (loaded j v m) = EX0 exec_nemu_trap (loaded j v m)"
  by (simp_all add: decode_exec_def loaded_def ival_def)

definition step_result :: "rv_instr \<Rightarrow> machine \<Rightarrow> fault + (u32 \<times> machine)" where
  "step_result i m = bnd (rv_exec i m) (\<lambda>m'. Inr (pc (cpu m) + 4, m'))"

lemmas operand_simps = set_width_def dsrc1_def dsrc2_def ddest_def imm1_def imm2_def immd_def
  ival_def cpu_pc_def loaded_def EX0_def EXW_def IDEX_def
  rtl_computes c_ops rtl_regs tmp_access rd_gpr finish_wr_gpr finish_no_wr step_result_def rv_pc_def
  next_pc_def imm_specs reg_rd_def reg_rs1_def reg_rs2_def Let_def

section \<open>Instruction groups\<close>

lemma step_lui:
  assumes "rv_wf m" "opcode6_2 v = 0b01101"
  shows "bnd (decode_exec (loaded j v m)) rv_finish = step_result (I_lui (reg_rd v) (imm_U v)) m"
  using assms by (simp add: decode_exec_IDEX)
    (simp add: operand_simps decode_simps exec_lui_def)

lemma step_auipc:
  assumes "rv_wf m" "opcode6_2 v = 0b00101"
  shows "bnd (decode_exec (loaded j v m)) rv_finish = step_result (I_auipc (reg_rd v) (imm_U v)) m"
  using assms by (simp add: decode_exec_IDEX)
    (simp add: operand_simps decode_simps exec_auipc_def add.commute)

lemma step_jal:
  assumes "rv_wf m" "opcode6_2 v = 0b11011"
  shows "bnd (decode_exec (loaded j v m)) rv_finish = step_result (I_jal (reg_rd v) (imm_J v)) m"
  using assms by (simp add: decode_exec_IDEX)
    (simp add: operand_simps decode_simps exec_jal_def rtl_j_def)

lemma step_jalr:
  assumes "rv_wf m" "junk_ok j" "opcode6_2 v = 0b11001" "bf 12 3 v = 0"
  shows "bnd (decode_exec (loaded j v m)) rv_finish =
    step_result (I_jalr (reg_rd v) (reg_rs1 v) (imm_I v)) m"
  using assms by (simp add: decode_exec_IDEX)
    (simp add: operand_simps decode_simps exec_jalr_def rtl_jr_def funct3_def junk_ok_def)

lemma step_branch:
  assumes "rv_wf m" "junk_ok j" "opcode6_2 v = 0b11000" "dec_branch (bf 12 3 v) = Some c"
  shows "bnd (decode_exec (loaded j v m)) rv_finish =
    step_result (I_branch c (reg_rs1 v) (reg_rs2 v) (imm_B v)) m"
  using assms by (simp add: decode_exec_IDEX)
    (auto simp: operand_simps decode_simps exec_branch_def exec_beq_def exec_bne_def exec_blt_def
      exec_bge_def exec_bltu_def exec_bgeu_def exec_b_def rtl_j_def funct3_def junk_ok_def
      dec_branch_def interpret_relop_def RELOP_defs word_less_def word_le_def split: if_splits)

lemma step_op_imm:
  assumes "rv_wf m" "opcode6_2 v = 0b00100" "dec_op_imm (bf 12 3 v) (bf 25 7 v) = Some a"
  shows "bnd (decode_exec (loaded j v m)) rv_finish =
    step_result (I_op_imm a (reg_rd v) (reg_rs1 v) (imm_I v)) m"
  using assms bf3_cases [of 12 v] by (simp add: decode_exec_IDEX)
    (auto simp: operand_simps decode_simps exec_op_imm_def exec_addi_def exec_slti_def exec_sltiu_def
      exec_xori_def exec_ori_def exec_andi_def exec_slli_def exec_srlai_def funct3_def funct7_def
      shamt_funct7 alu_ops dec_op_imm_def interpret_relop_def RELOP_defs split: if_splits)

lemma step_trap:
  assumes "rv_wf m" "opcode6_2 v = 0b11010"
  shows "bnd (decode_exec (loaded j v m)) rv_finish = step_result I_trap m"
  using assms by (simp add: decode_exec_IDEX)
    (simp add: operand_simps exec_nemu_trap_def rtl_exit_def rv_wf_def)

text \<open>The divisions: the special cases of the helper are the ones the specification has.\<close>

lemma exec_div_alu:
  "c_idiv_q a b = (if b = 0 \<or> (a = INT_MIN \<and> b = -1) then Inl Div_Trap else Inr (rv_alu_op A_div a b))"
  "c_idiv_r a b = (if b = 0 \<or> (a = INT_MIN \<and> b = -1) then Inl Div_Trap else Inr (rv_alu_op A_rem a b))"
  "c_div_q a b = (if b = 0 then Inl Div_Trap else Inr (rv_alu_op A_divu a b))"
  "c_div_r a b = (if b = 0 then Inl Div_Trap else Inr (rv_alu_op A_remu a b))"
  by (auto simp: c_idiv_q_def c_idiv_r_def c_div_q_def c_div_r_def word_div_def word_mod_def)

lemma alu_div_zero:
  "rv_alu_op A_div a 0 = -1" "rv_alu_op A_divu a 0 = -1" "rv_alu_op A_rem a 0 = a" "rv_alu_op A_remu a 0 = a"
  by simp_all

lemma rtl_mv_gpr: "rd RzP x = 0 \<Longrightarrow> d \<noteq> a \<Longrightarrow> rtl_mv d a x = wr d (rd a x) x"
  by (simp add: rtl_mv_def rtl_computes c_ops)

lemma wr_self: "rv_wf (mach x) \<Longrightarrow> r < 32 \<Longrightarrow> wr (GprP r) (rd (GprP r) x) x = x"
  by (simp add: wr_def rd_def set_gpr_def rv_wf_def)

lemma rtl_mv_alt:
  "rv_wf (mach x) \<Longrightarrow> r < 32 \<Longrightarrow> rtl_mv (GprP r) (GprP r') x = wr (GprP r) (rv_get r' (mach x)) x"
  by (cases "r = r'") (auto simp: rtl_mv_def wr_self rd_gpr rtl_computes c_ops tmp_access simp flip: rd_gpr)

text \<open>The R-type helpers, on operands that are registers \<open>d\<close>, \<open>a\<close> and \<open>b\<close>.\<close>

definition R_operands :: "nat \<Rightarrow> nat \<Rightarrow> nat \<Rightarrow> ectx \<Rightarrow> bool" where
  "R_operands d a b x \<longleftrightarrow> rv_wf (mach x) \<and> d < 32 \<and>
     ddest x = GprP d \<and> dsrc1 x = GprP a \<and> dsrc2 x = GprP b"

definition alu_result :: "rv_alu \<Rightarrow> nat \<Rightarrow> nat \<Rightarrow> nat \<Rightarrow> ectx \<Rightarrow> fault + ectx" where
  "alu_result op d a b x =
     Inr (wr (GprP d) (rv_alu_op op (rv_get a (mach x)) (rv_get b (mach x))) x)"

lemmas R_simps = R_operands_def alu_result_def rtl_compute_reg_def rtl_setrelop_def rtl_compute_imm_def
  rd_gpr alu_ops [symmetric] interpret_relop_def RELOP_defs tmp_access

lemma row_add_sub_mul:
  assumes "R_operands d a b x"
  shows "funct7 (ival x) = 0 \<Longrightarrow> exec_add_sub_mul x = alu_result A_add d a b x"
    "funct7 (ival x) = 0x20 \<Longrightarrow> exec_add_sub_mul x = alu_result A_sub d a b x"
    "funct7 (ival x) = 1 \<Longrightarrow> exec_add_sub_mul x = alu_result A_mul d a b x"
  using assms by (simp_all add: exec_add_sub_mul_def rtl_add_def rtl_sub_def rtl_mul_lo_def R_simps
    del: rv_alu_op.simps)

lemma row_slt:
  assumes "R_operands d a b x"
  shows "funct7 (ival x) = 0 \<Longrightarrow> exec_slt_mulhsu x = alu_result A_slt d a b x"
    "funct7 (ival x) = 0 \<Longrightarrow> exec_sltu_mulhu x = alu_result A_sltu d a b x"
    "funct7 (ival x) = 1 \<Longrightarrow> exec_sltu_mulhu x = alu_result A_mulhu d a b x"
  using assms by (simp_all add: exec_slt_mulhsu_def exec_sltu_mulhu_def rtl_mul_hi_def R_simps
    del: rv_alu_op.simps)

lemma row_sll:
  assumes "R_operands d a b x"
  shows "funct7 (ival x) = 0 \<Longrightarrow> exec_sll_mulh x = alu_result A_sll d a b x"
    "funct7 (ival x) = 1 \<Longrightarrow> exec_sll_mulh x = alu_result A_mulh d a b x"
    "funct7 (ival x) = 0 \<Longrightarrow> exec_srla_divu x = alu_result A_srl d a b x"
    "funct7 (ival x) = 0x20 \<Longrightarrow> exec_srla_divu x = alu_result A_sra d a b x"
  using assms by (simp_all add: exec_sll_mulh_def exec_srla_divu_def rtl_shl_def rtl_imul_hi_def
    rtl_shr_def rtl_sar_def R_simps del: rv_alu_op.simps)

lemma row_logic:
  assumes "R_operands d a b x" "funct7 (ival x) = 0"
  shows "exec_xor_div x = alu_result A_xor d a b x"
    "exec_or_rem x = alu_result A_or d a b x"
    "exec_and_remu x = alu_result A_and d a b x"
  using assms by (simp_all add: exec_xor_div_def exec_or_rem_def exec_and_remu_def rtl_xor_def
    rtl_or_def rtl_and_def R_simps del: rv_alu_op.simps)

lemmas div_simps = R_operands_def alu_result_def rd_gpr rtl_li_def rtl_addi_def
  rtl_compute_imm_def rtl_compute_div_def rtl_idiv_q_def rtl_idiv_r_def rtl_div_q_def rtl_div_r_def
  tmp_access rtl_mv_alt exec_div_alu INT_MIN_def alu_div_zero div_overflow_alu c_add_def

lemma row_div:
  assumes "R_operands d a b x" "funct7 (ival x) = 1"
  shows "exec_xor_div x = alu_result A_div d a b x"
    "exec_or_rem x = alu_result A_rem d a b x"
    "exec_and_remu x = alu_result A_remu d a b x"
    "exec_srla_divu x = alu_result A_divu d a b x"
  using assms
  by (auto simp: exec_xor_div_def exec_or_rem_def exec_and_remu_def exec_srla_divu_def div_simps
      simp del: rv_alu_op.simps)

lemmas R_rows = row_add_sub_mul row_slt row_sll row_logic row_div

lemma exec_op_alu:
  assumes "R_operands d a b x" "dec_op (funct3 (ival x)) (funct7 (ival x)) = Some op" "op \<noteq> A_mulhsu"
  shows "exec_op x = alu_result op d a b x"
  using assms bf3_cases [of 12 "ival x"]
  by (auto simp: exec_op_def EX0_def EXW_def set_width_def Let_def R_rows dec_op_def funct3_def
      split: if_splits)

lemma step_op:
  assumes "rv_wf m" "opcode6_2 v = 0b01100" "dec_op (bf 12 3 v) (bf 25 7 v) = Some a" "a \<noteq> A_mulhsu"
  shows "bnd (decode_exec (loaded j v m)) rv_finish =
    step_result (I_op a (reg_rd v) (reg_rs1 v) (reg_rs2 v)) m"
proof -
  let ?x = "loaded j v m"
  obtain x where x: "decode_R (set_width 0 ?x) = Inr x"
    and mach: "mach x = m" and iv: "ival x = v" and sp: "seq_pc (ds x) = pc (cpu m) + 4" "is_jmp (ds x) = 0"
    and R: "R_operands (reg_rd v) (reg_rs1 v) (reg_rs2 v) x"
    using assms(1) by (simp add: decode_simps set_width_def loaded_def ival_def reg_rd_def reg_rs1_def
      reg_rs2_def R_operands_def ddest_def dsrc1_def dsrc2_def)
  have "exec_op x = alu_result a (reg_rd v) (reg_rs1 v) (reg_rs2 v) x"
    using R assms(3,4) by (intro exec_op_alu) (simp_all add: iv funct3_def funct7_def)
  then show ?thesis
    using x sp mach assms(1)
    by (simp add: decode_exec_IDEX(7) [OF assms(2)] IDEX_def alu_result_def finish_wr_gpr next_pc_def
        step_result_def rv_pc_def del: rv_alu_op.simps)
qed

section \<open>Loads and stores\<close>

lemma map_read_bound:
  assumes "map_read addr len mp m = Inr (v, m')" "len = 1 \<or> len = 2"
  shows "take_bit (nat (8 * len)) v = v"
proof -
  obtain w :: u32 where "v = ucast ((ucast w :: u64) AND read_mask len)"
    using assms(1) by (auto simp: map_read_def Let_def bnd_simps split: if_splits)
  then show ?thesis
    using assms(2) by (intro bit_word_eqI) (auto simp: read_mask_def bit_simps)
qed

lemma vaddr_read_bound:
  assumes "vaddr_read addr len m = Inr (v, m')" "len = 1 \<or> len = 2"
  shows "take_bit (nat (8 * len)) v = v"
proof -
  have "take_bit (nat (8 * len)) (get_n (nat len) s p) = get_n (nat len) s p" for s p
    using assms(2) by (intro bit_word_eqI) (auto simp: get_n_def get16_def bit_simps dest: bit_imp_le_length)
  then show ?thesis
    using assms by (auto simp: vaddr_read_def vaddr_access_read_def paddr_read_def pmem_read_def Let_def bnd_simps
      dest: map_read_bound split: if_splits)
qed

lemma sign_ext_load:
  "(scast (ucast (v :: u32) :: u8) :: u32) = signed_take_bit 7 v"
  "(scast (ucast v :: u16) :: u32) = signed_take_bit 15 v"
  by (rule word32_eqI, unfold upt_32, simp add: bit_simps min_def)+

lemma cpu_eq_wf: "cpu m' = cpu m \<Longrightarrow> rv_wf m' = rv_wf m"
  by (simp add: rv_wf_def)

lemma ds_wr_gpr [simp]: "ds (wr (GprP r) v x) = ds x"
  by (simp add: wr_def)

lemma step_load:
  assumes "rv_wf m" "opcode6_2 v = 0" "dec_load (bf 12 3 v) = Some l"
  shows "bnd (decode_exec (loaded j v m)) rv_finish =
    step_result (I_load l (reg_rd v) (reg_rs1 v) (imm_I v)) m"
proof (cases "vaddr_read (rv_get (reg_rs1 v) m + imm_I v) (load_len l) m")
  case (Inl e)
  then show ?thesis
    using assms by (simp add: decode_exec_IDEX)
      (auto simp: operand_simps decode_simps exec_load_def funct3_def dec_load_def exec_ld_def
        exec_lds_def rtl_lm_def rtl_lms_def split: if_splits)
next
  case (Inr p)
  obtain d m' where p: "p = (d, m')" by (cases p)
  then have "cpu m' = cpu m" using Inr by (blast dest: vaddr_read_core core_cpu)
  then show ?thesis
    using assms Inr p cpu_eq_wf [of m' m] by (simp add: decode_exec_IDEX)
      (auto simp: operand_simps decode_simps exec_load_def funct3_def dec_load_def exec_ld_def
        exec_lds_def rtl_lm_def rtl_lms_def width_ok_def sign_ext_load dest: vaddr_read_bound split: if_splits)
qed

lemma step_store:
  assumes "rv_wf m" "opcode6_2 v = 0b01000" "dec_store (bf 12 3 v) = Some s"
  shows "bnd (decode_exec (loaded j v m)) rv_finish =
    step_result (I_store s (reg_rs1 v) (reg_rs2 v) (imm_S v)) m"
proof (cases "vaddr_write (rv_get (reg_rs1 v) m + imm_S v) (rv_get (reg_rs2 v) m) (store_len s) m")
  case (Inl e)
  then show ?thesis
    using assms by (simp add: decode_exec_IDEX)
      (auto simp: operand_simps decode_simps exec_store_def funct3_def dec_store_def exec_st_def
        rtl_sm_def split: if_splits)
next
  case (Inr m')
  then have "cpu m' = cpu m" by (blast dest: vaddr_write_cpu)
  then show ?thesis
    using assms Inr cpu_eq_wf [of m' m] by (simp add: decode_exec_IDEX)
      (auto simp: operand_simps decode_simps exec_store_def funct3_def dec_store_def exec_st_def
        rtl_sm_def width_ok_def split: if_splits)
qed

section \<open>The step\<close>

definition is_mulhsu :: "rv_instr \<Rightarrow> bool" where
  "is_mulhsu i = (case i of I_op a d r1 r2 \<Rightarrow> a = A_mulhsu | _ \<Rightarrow> False)"

lemma is_mulhsu_simps [simp]:
  "is_mulhsu (I_op a d r1 r2) \<longleftrightarrow> a = A_mulhsu"
  "\<not> is_mulhsu (I_lui d u)" "\<not> is_mulhsu (I_auipc d u)" "\<not> is_mulhsu (I_jal d u)"
  "\<not> is_mulhsu (I_jalr d r1 u)" "\<not> is_mulhsu (I_branch c r1 r2 u)" "\<not> is_mulhsu (I_load l d r1 u)"
  "\<not> is_mulhsu (I_store s r1 r2 u)" "\<not> is_mulhsu (I_op_imm a d r1 u)" "\<not> is_mulhsu I_trap"
  by (simp_all add: is_mulhsu_def)

lemma opcode_of:
  "bf 0 7 v = 0x37 \<Longrightarrow> opcode1_0 v = 3 \<and> opcode6_2 v = 0b01101"
  "bf 0 7 v = 0x17 \<Longrightarrow> opcode1_0 v = 3 \<and> opcode6_2 v = 0b00101"
  "bf 0 7 v = 0x6F \<Longrightarrow> opcode1_0 v = 3 \<and> opcode6_2 v = 0b11011"
  "bf 0 7 v = 0x67 \<Longrightarrow> opcode1_0 v = 3 \<and> opcode6_2 v = 0b11001"
  "bf 0 7 v = 0x63 \<Longrightarrow> opcode1_0 v = 3 \<and> opcode6_2 v = 0b11000"
  "bf 0 7 v = 0x03 \<Longrightarrow> opcode1_0 v = 3 \<and> opcode6_2 v = 0"
  "bf 0 7 v = 0x23 \<Longrightarrow> opcode1_0 v = 3 \<and> opcode6_2 v = 0b01000"
  "bf 0 7 v = 0x13 \<Longrightarrow> opcode1_0 v = 3 \<and> opcode6_2 v = 0b00100"
  "bf 0 7 v = 0x33 \<Longrightarrow> opcode1_0 v = 3 \<and> opcode6_2 v = 0b01100"
  "bf 0 7 v = 0x6B \<Longrightarrow> opcode1_0 v = 3 \<and> opcode6_2 v = 0b11010"
  by (simp_all add: opcode_split bf_def)

lemma decode_exec_spec:
  assumes "rv_wf m" "junk_ok j" "rv_decode v = Some i" "\<not> is_mulhsu i"
  shows "opcode1_0 v = 3 \<and> bnd (decode_exec (loaded j v m)) rv_finish = step_result i m"
  using assms(3,4) step_jalr [OF assms(1,2)] step_branch [OF assms(1,2)] unfolding rv_decode_def Let_def
  by (auto split: if_splits dest!: opcode_of simp: assms(1) step_lui step_auipc step_jal step_load step_store
      step_op_imm step_op step_trap)

section \<open>Words that are no instruction\<close>

text \<open>
  What the interpreter does with a word the specification does not decode. An unknown opcode,
  and an unknown width of a load or store, go to \<open>exec_inv\<close>: it reads the word and its successor
  again for the message and stops the run in state \<open>NEMU_ABORT\<close>. An unknown \<open>funct3\<close> of a branch
  falls out of a \<open>switch\<close> without default. Everything else fails an assertion.
\<close>

definition rv_abort :: "machine \<Rightarrow> fault + (u32 \<times> machine)" where
  "rv_abort m =
     bnd (vaddr_ifetch (rv_pc m) 4 m) (\<lambda>(_, m1).
     bnd (vaddr_ifetch (rv_pc m + 4) 4 m1) (\<lambda>(_, m2).
     Inr (rv_pc m + 8, rv_goto (rv_pc m + 8)
       (m2\<lparr>nemu_state := \<lparr>status = NEMU_ABORT, halt_pc = rv_pc m, halt_ret = -1\<rparr>\<rparr>))))"

definition rv_known_opcodes :: "u32 list" where
  "rv_known_opcodes = [0x37, 0x17, 0x6F, 0x67, 0x63, 0x13, 0x33, 0x6B]"

definition rv_illegal :: "u32 \<Rightarrow> machine \<Rightarrow> fault + (u32 \<times> machine)" where
  "rv_illegal v m =
     (if bf 0 2 v \<noteq> 3 then Inl Assert_Fail
      else if bf 0 7 v \<notin> set rv_known_opcodes then rv_abort m
      else if bf 0 7 v = 0x63 then Inr (rv_pc m + 4, rv_goto (rv_pc m + 4) m)
      else Inl Assert_Fail)"

lemma finish_exec_inv:
  assumes "rv_wf (mach x)" "is_jmp (ds x) = 0"
  shows "bnd (exec_inv x) rv_finish = rv_abort (mach x)"
proof (cases "vaddr_ifetch (rv_pc (mach x)) 4 (mach x)")
  case (Inl e)
  then show ?thesis
    by (simp add: exec_inv_def instr_fetch_def rv_abort_def rv_pc_def cpu_pc_def)
next
  case (Inr p)
  obtain w m1 where p: "p = (w, m1)" by (cases p)
  then have c1: "cpu m1 = cpu (mach x)" using Inr by (blast dest: vaddr_ifetch_core core_cpu)
  show ?thesis
  proof (cases "vaddr_ifetch (rv_pc (mach x) + 4) 4 m1")
    case (Inl e)
    then show ?thesis using Inr p
      by (simp add: exec_inv_def instr_fetch_def rv_abort_def rv_pc_def cpu_pc_def)
  next
    case (Inr q)
    obtain w' m2 where q: "q = (w', m2)" by (cases q)
    then have c2: "cpu m2 = cpu (mach x)" using Inr c1 by (metis vaddr_ifetch_core core_cpu)
    then have "rv_wf (m2\<lparr>nemu_state := n\<rparr>)" for n
      using assms(1) by (simp add: rv_wf_def)
    then show ?thesis using \<open>vaddr_ifetch (rv_pc (mach x)) 4 (mach x) = Inr p\<close> Inr p q c1 c2 assms
      by (simp add: exec_inv_def instr_fetch_def rv_abort_def rv_pc_def cpu_pc_def rtl_exit_def
          finish_no_wr next_pc_def add.commute)
  qed
qed

lemma opcode_cases:
  assumes "opcode1_0 v = 3"
  shows "bf 0 7 v = push_bit 2 (opcode6_2 v) OR 3"
proof -
  have "bf 0 7 v = push_bit 2 (bf 2 5 v) OR bf 0 2 v"
    by (rule word32_eqI, unfold upt_32, simp only: field_bits)
       (simp add: min_def eval_nat_numeral)
  then show ?thesis using assms by (simp add: rv_fields)
qed

lemma loaded_simps [simp]:
  "mach (loaded j v m) = m" "is_jmp (ds (loaded j v m)) = 0" "ival (loaded j v m) = v"
  by (simp_all add: loaded_def ival_def)

lemma exec_inv_decoded:
  assumes "rv_wf m"
  shows "opcode6_2 v = 0 \<Longrightarrow> dec_load (bf 12 3 v) = None \<Longrightarrow>
      bnd (decode_exec (loaded j v m)) rv_finish = rv_abort m"
    "opcode6_2 v = 0b01000 \<Longrightarrow> dec_store (bf 12 3 v) = None \<Longrightarrow>
      bnd (decode_exec (loaded j v m)) rv_finish = rv_abort m"
proof -
  assume a: "opcode6_2 v = 0" "dec_load (bf 12 3 v) = None"
  obtain x where "decode_I (set_width 0 (loaded j v m)) = Inr x" "mach x = m" "is_jmp (ds x) = 0" "ival x = v"
    by (simp add: decode_simps set_width_def loaded_def ival_def)
  then show "bnd (decode_exec (loaded j v m)) rv_finish = rv_abort m"
    using finish_exec_inv [of x] assms a
    by (simp add: decode_exec_IDEX(2) [OF a(1)] IDEX_def exec_load_def dec_load_def funct3_def split: if_splits)
next
  assume a: "opcode6_2 v = 0b01000" "dec_store (bf 12 3 v) = None"
  obtain x where "decode_S (set_width 0 (loaded j v m)) = Inr x" "mach x = m" "is_jmp (ds x) = 0" "ival x = v"
    by (simp add: decode_simps set_width_def loaded_def ival_def)
  then show "bnd (decode_exec (loaded j v m)) rv_finish = rv_abort m"
    using finish_exec_inv [of x] assms a
    by (simp add: decode_exec_IDEX(4) [OF a(1)] IDEX_def exec_store_def dec_store_def funct3_def split: if_splits)
qed

lemma decoded_I:
  obtains x where "decode_I (set_width 0 (loaded j v m)) = Inr x" "mach x = m" "is_jmp (ds x) = 0"
    "ival x = v" "imm2 x = imm_I v"
  by (simp add: decode_simps set_width_def loaded_def ival_def imm2_def imm_specs)

lemma decoded_R:
  obtains x where "decode_R (set_width 0 (loaded j v m)) = Inr x" "mach x = m" "ival x = v"
  by (simp add: decode_simps set_width_def loaded_def ival_def)

lemma assert_decoded:
  shows "opcode6_2 v = 0b11001 \<Longrightarrow> bf 12 3 v \<noteq> 0 \<Longrightarrow>
      decode_exec (loaded j v m) = Inl Assert_Fail"
    "opcode6_2 v = 0b00100 \<Longrightarrow> dec_op_imm (bf 12 3 v) (bf 25 7 v) = None \<Longrightarrow>
      decode_exec (loaded j v m) = Inl Assert_Fail"
    "opcode6_2 v = 0b01100 \<Longrightarrow> dec_op (bf 12 3 v) (bf 25 7 v) = None \<Longrightarrow>
      decode_exec (loaded j v m) = Inl Assert_Fail"
proof -
  assume a: "opcode6_2 v = 0b11001" "bf 12 3 v \<noteq> 0"
  obtain x where "decode_I (set_width 0 (loaded j v m)) = Inr x" "ival x = v"
    by (rule decoded_I)
  then show "decode_exec (loaded j v m) = Inl Assert_Fail"
    using a by (simp add: decode_exec_IDEX(3) [OF a(1)] IDEX_def exec_jalr_def funct3_def)
next
  assume a: "opcode6_2 v = 0b00100" "dec_op_imm (bf 12 3 v) (bf 25 7 v) = None"
  obtain x where "decode_I (set_width 0 (loaded j v m)) = Inr x" "ival x = v" "imm2 x = imm_I v"
    by (rule decoded_I)
  then show "decode_exec (loaded j v m) = Inl Assert_Fail"
    using a bf3_cases [of 12 v]
    by (auto simp: decode_exec_IDEX(1) [OF a(1)] IDEX_def exec_op_imm_def exec_slli_def exec_srlai_def
        EX0_def EXW_def set_width_def shamt_funct7 funct3_def funct7_def dec_op_imm_def split: if_splits)
next
  assume a: "opcode6_2 v = 0b01100" "dec_op (bf 12 3 v) (bf 25 7 v) = None"
  obtain x where "decode_R (set_width 0 (loaded j v m)) = Inr x" "ival x = v"
    by (rule decoded_R)
  then show "decode_exec (loaded j v m) = Inl Assert_Fail"
    using a bf3_cases [of 12 v]
    by (auto simp: decode_exec_IDEX(7) [OF a(1)] IDEX_def exec_op_def EX0_def EXW_def set_width_def
        exec_add_sub_mul_def exec_slt_mulhsu_def exec_sltu_mulhu_def exec_xor_div_def exec_or_rem_def
        exec_and_remu_def exec_sll_mulh_def exec_srla_divu_def funct3_def funct7_def dec_op_def Let_def
        split: if_splits)
qed

lemma branch_gap_decoded:
  assumes "rv_wf m" "opcode6_2 v = 0b11000" "dec_branch (bf 12 3 v) = None"
  shows "bnd (decode_exec (loaded j v m)) rv_finish = Inr (rv_pc m + 4, rv_goto (rv_pc m + 4) m)"
  using assms by (simp add: decode_exec_IDEX)
    (auto simp: operand_simps decode_simps exec_branch_def funct3_def dec_branch_def split: if_splits)

lemma unknown_opcode_decoded:
  assumes "rv_wf m" "opcode1_0 v = 3"
    and "bf 0 7 v \<notin> {0x37, 0x17, 0x6F, 0x67, 0x63, 0x03, 0x23, 0x13, 0x33, 0x6B}"
  shows "bnd (decode_exec (loaded j v m)) rv_finish = rv_abort m"
proof -
  have "decode_exec (loaded j v m) = exec_inv (loaded j v m)"
    using assms(3) unfolding opcode_cases [OF assms(2)] by (auto simp: decode_exec_def Let_def)
  then show ?thesis using finish_exec_inv [of "loaded j v m"] assms(1) by simp
qed

lemma decode_exec_illegal:
  assumes wf: "rv_wf m" and op: "opcode1_0 v = 3" and none: "rv_decode v = None"
  shows "bnd (decode_exec (loaded j v m)) rv_finish = rv_illegal v m"
proof -
  have lo: "bf 0 2 v = 3" using op by (simp add: opcode1_0_def)
  show ?thesis
    using none unfolding rv_decode_def Let_def rv_illegal_def
    by (auto split: if_splits dest!: opcode_of simp: lo rv_known_opcodes_def assert_decoded
        exec_inv_decoded [OF wf] branch_gap_decoded [OF wf] unknown_opcode_decoded [OF wf op])
qed

section \<open>Any instruction\<close>

lemma exec_once_legal:
  assumes "rv_wf m" "junk_ok junk" "vaddr_ifetch (pc (cpu m)) 4 m = Inr (v, m1)"
    "rv_decode v = Some i" "\<not> is_mulhsu i"
  shows "isa_exec_once junk m = step_result i m1"
proof -
  have "rv_wf m1" using assms(1,3) by (metis vaddr_ifetch_core core_cpu cpu_eq_wf)
  then show ?thesis
    using decode_exec_spec [OF _ assms(2,4,5)] exec_once_fetch [OF assms(3)] by simp
qed

lemma exec_once_illegal:
  assumes "rv_wf m" "vaddr_ifetch (pc (cpu m)) 4 m = Inr (v, m1)" "rv_decode v = None"
  shows "isa_exec_once junk m = rv_illegal v m1"
proof -
  have "rv_wf m1" using assms(1,2) by (metis vaddr_ifetch_core core_cpu cpu_eq_wf)
  then show ?thesis
    using decode_exec_illegal [OF _ _ assms(3)] exec_once_fetch [OF assms(2)]
    by (simp add: rv_illegal_def opcode1_0_def)
qed

lemma exec_once_fetch_fault:
  assumes "vaddr_ifetch (pc (cpu m)) 4 m = Inl e"
  shows "isa_exec_once junk m = Inl e"
  using assms by (simp add: isa_exec_once_def fetch_decode_exec_def exec_start_def instr_fetch_def)

text \<open>What the helper computes for \<open>mulhsu\<close>.\<close>

definition mulhsu_computed :: "u32 \<Rightarrow> u32 \<Rightarrow> u32" where
  "mulhsu_computed a b = rv_alu_op A_mulhu a b + rv_alu_op A_mulhu (-1) b"

lemma step_mulhsu:
  assumes "rv_wf m" "junk_ok j" "opcode6_2 v = 0b01100" "dec_op (bf 12 3 v) (bf 25 7 v) = Some A_mulhsu"
  shows "bnd (decode_exec (loaded j v m)) rv_finish =
    Inr (pc (cpu m) + 4, rv_goto (rv_pc m + 4)
      (rv_put (reg_rd v) (mulhsu_computed (rv_get (reg_rs1 v) m) (rv_get (reg_rs2 v) m)) m))"
  using assms by (simp add: decode_exec_IDEX)
    (auto simp: operand_simps decode_simps exec_op_def exec_slt_mulhsu_def funct3_def funct7_def dec_op_def
      mulhsu_computed_def c_mul_hi_alu junk_ok_def simp del: rv_alu_op.simps split: if_splits)

lemma sint_nonneg: "0 \<le> sint (a :: u32) \<Longrightarrow> sint a = uint a"
  and sint_neg: "sint (a :: u32) < 0 \<Longrightarrow> sint a = uint a - 2 ^ 32"
proof -
  have *: "sint a = (if bit a 31 then uint a - 2 ^ 32 else uint a)"
    using take_bit_int_eq_self_iff [of 32 "uint a"] uint_lt2p [of a]
    by (simp add: sint_uint signed_take_bit_eq_take_bit_minus bit_uint_iff)
  show "0 \<le> sint a \<Longrightarrow> sint a = uint a" "sint a < 0 \<Longrightarrow> sint a = uint a - 2 ^ 32"
    unfolding * using uint_lt2p [of a] by (auto split: if_splits)
qed

lemma mulhu_max: "rv_alu_op A_mulhu (-1) b = (if b = 0 then 0 else b - 1)"
proof (cases "b = 0")
  case False
  then have pos: "uint b > 0" by (simp add: order_less_le uint_0_iff)
  have "uint (-1 :: u32) = 2 ^ 32 - 1" by (simp add: unsigned_minus_1_eq_mask mask_eq_exp_minus_1)
  then have "uint (-1 :: u32) * uint b = (uint b - 1) * 2 ^ 32 + (2 ^ 32 - uint b)"
    by (simp add: algebra_simps)
  moreover have "0 \<le> 2 ^ 32 - uint b" "2 ^ 32 - uint b < 2 ^ 32"
    using pos uint_lt2p [of b] by simp_all
  ultimately have "uint (-1 :: u32) * uint b div 2 ^ 32 = uint b - 1"
    by simp
  then show ?thesis using False by simp
qed simp

lemma mulhsu_cases:
  "rv_alu_op A_mulhsu a b =
    (if 0 \<le> sint a then rv_alu_op A_mulhu a b else rv_alu_op A_mulhu a b - b)"
proof (cases "0 \<le> sint a")
  case True
  then have "sint a = uint a" by (rule sint_nonneg)
  then show ?thesis unfolding rv_alu_op.simps using True by simp
next
  case False
  then have "sint a = uint a - 2 ^ 32" 
    by (intro sint_neg) simp
  then have "sint a * uint b = uint a * uint b + (- uint b) * 2 ^ 32"
    by (simp add: left_diff_distrib)
  then have "sint a * uint b div 2 ^ 32 = uint a * uint b div 2 ^ 32 - uint b"
    by simp
  then show ?thesis unfolding rv_alu_op.simps using False by simp
qed

lemma mulhsu_computed_iff:
  "mulhsu_computed a b = rv_alu_op A_mulhsu a b \<longleftrightarrow> b = 0 \<or> (b = 1 \<and> 0 \<le> sint a)"
proof -
  have odd: "b - 1 \<noteq> - b" for b :: u32
  proof
    assume "b - 1 = - b"
    then have "2 * b = 1" by (simp add: algebra_simps eq_neg_iff_add_eq_0)
    then have "even (1 :: u32)" by (metis dvd_triv_left)
    then show False by simp
  qed
  show ?thesis
    unfolding mulhsu_computed_def mulhu_max mulhsu_cases using odd [of b]
    by (auto simp: algebra_simps)
qed

section \<open>A concrete machine\<close>

text \<open>A fetch of the word \<open>booted\<close> puts at the reset address.\<close>
lemma ifetch_booted:
  "vaddr_ifetch (pc (cpu (booted Riscv32 w regs))) 4 (booted Riscv32 w regs) = Inr (w, booted Riscv32 w regs)"
proof -
  have "in_pmem (booted Riscv32 w regs) (pc (cpu (booted Riscv32 w regs)))"
    by (simp add: in_pmem_def booted_def static_start_def PMEM_BASE_def IMAGE_START_def PMEM_SIZE_def)
  moreover have "pmem_read (pc (cpu (booted Riscv32 w regs))) 4 (booted Riscv32 w regs) = Inr w"
    by (simp add: pmem_read_def pmem_index_def booted_def static_start_def PMEM_BASE_def IMAGE_START_def
        PMEM_SIZE_def get_n_def)
  ultimately show ?thesis by (simp add: vaddr_ifetch_pmem)
qed

definition blank_operand :: Operand where
  "blank_operand = \<lparr>op_type = OP_TYPE_REG, op_width = 0, reg_imm = 0, preg = RzP, op_val = 0\<rparr>"

definition blank_ds :: DecodeExecState where
  "blank_ds = \<lparr>opcode = 0, seq_pc = 0, is_jmp = 0, jmp_pc = 0, src1 = blank_operand, dest = blank_operand,
     src2 = blank_operand, width = 0, tmp_reg = [0, 0, 0, 0], instr_val = 0, is_operand_size_16 = False,
     ext_opcode = 0, mbase = RzP, mbr = 0, moff = 0\<rparr>"

lemma junk_ok_blank [simp]: "junk_ok blank_ds"
  by (simp add: junk_ok_def blank_ds_def)

lemma booted_wf: "length regs = 32 \<Longrightarrow> regs ! 0 = 0 \<Longrightarrow> rv_wf (booted Riscv32 w regs)"
  by (simp add: rv_wf_def booted_def)

end
