(* ===== verification/Mips32.thy ===== *)
theory Mips32
  imports RiscvRefine
begin

text \<open>
  The mips32 build: \<open>nemu/include/isa/mips32.h\<close> and \<open>nemu/src/isa/mips32\<close>. The switch knows
  \<open>lui\<close>, \<open>lw\<close>, \<open>sw\<close> and \<open>nemu_trap\<close>; \<open>special\<close> is an empty table. The names carry the prefix
  \<open>mips_\<close> where the riscv32 files define the same C name. Last, the meaning of one step.
\<close>

section \<open>Instruction fields (mips32.h)\<close>

definition mips_simm :: "u32 \<Rightarrow> u32" where "mips_simm v = sbf 0 16 v"
definition mips_imm :: "u32 \<Rightarrow> u32" where "mips_imm v = bf 0 16 v"
definition mips_rt :: "u32 \<Rightarrow> u32" where "mips_rt v = bf 16 5 v"
definition mips_rs :: "u32 \<Rightarrow> u32" where "mips_rs v = bf 21 5 v"
definition mips_opcode :: "u32 \<Rightarrow> u32" where "mips_opcode v = bf 26 6 v"

lemmas mips_fields = mips_simm_def mips_imm_def mips_rt_def mips_rs_def mips_opcode_def

section \<open>Decoding (decode.h)\<close>

definition mips_check_reg_index :: "u32 \<Rightarrow> fault + nat" where
  "mips_check_reg_index index = bnd (c_assert (unat index < 32)) (\<lambda>_. Inr (unat index))"

definition mips_decode_op_i :: "opptr \<Rightarrow> u32 \<Rightarrow> ectx \<Rightarrow> fault + ectx" where
  "mips_decode_op_i upd val x =
     Inr (x\<lparr>ds := upd (\<lambda>op. op\<lparr>op_type := OP_TYPE_IMM, reg_imm := val\<rparr>) (ds x)\<rparr>)"

definition mips_decode_op_r :: "opptr \<Rightarrow> u32 \<Rightarrow> ectx \<Rightarrow> fault + ectx" where
  "mips_decode_op_r upd val x =
     bnd (mips_check_reg_index val) (\<lambda>i.
     Inr (x\<lparr>ds := upd (\<lambda>op. op\<lparr>op_type := OP_TYPE_REG, reg_imm := val, preg := GprP i\<rparr>) (ds x)\<rparr>))"

definition decode_IU :: "ectx \<Rightarrow> fault + ectx" where
  "decode_IU x =
     bnd (mips_decode_op_r src1_update (mips_rs (ival x)) x) (\<lambda>x.
     bnd (mips_decode_op_i src2_update (mips_imm (ival x)) x) (\<lambda>x.
     mips_decode_op_r dest_update (mips_rt (ival x)) x))"

definition decode_ld :: "ectx \<Rightarrow> fault + ectx" where
  "decode_ld x =
     bnd (mips_decode_op_r src1_update (mips_rs (ival x)) x) (\<lambda>x.
     bnd (mips_decode_op_i src2_update (mips_simm (ival x)) x) (\<lambda>x.
     mips_decode_op_r dest_update (mips_rt (ival x)) x))"

definition decode_st :: "ectx \<Rightarrow> fault + ectx" where
  "decode_st x =
     bnd (mips_decode_op_r src1_update (mips_rs (ival x)) x) (\<lambda>x.
     bnd (mips_decode_op_i src2_update (mips_simm (ival x)) x) (\<lambda>x.
     mips_decode_op_r dest_update (mips_rt (ival x)) x))"

section \<open>Execution helpers (compute.h, ldst.h, special.c)\<close>

definition mips_exec_lui :: "ectx \<Rightarrow> fault + ectx" where
  "mips_exec_lui x = Inr (rtl_li (ddest x) (push_bit 16 (imm2 x)) x)"

definition mips_exec_ld :: "ectx \<Rightarrow> fault + ectx" where
  "mips_exec_ld x =
     bnd (rtl_lm (ddest x) (dsrc1 x) (imm2 x) (width (ds x)) x) (width_ok [4, 2, 1])"

definition mips_exec_st :: "ectx \<Rightarrow> fault + ectx" where
  "mips_exec_st x =
     bnd (rtl_sm (dsrc1 x) (imm2 x) (ddest x) (width (ds x)) x) (width_ok [4, 2, 1])"

definition mips_exec_inv :: "ectx \<Rightarrow> fault + ectx" where
  "mips_exec_inv x =
     (let x = x\<lparr>ds := (ds x)\<lparr>seq_pc := cpu_pc x\<rparr>\<rparr> in
      bnd (instr_fetch 4 x) (\<lambda>(_, x).
      bnd (instr_fetch 4 x) (\<lambda>(_, x).
      Inr (rtl_exit NEMU_ABORT (cpu_pc x) (-1) x))))"

definition mips_exec_nemu_trap :: "ectx \<Rightarrow> fault + ectx" where
  "mips_exec_nemu_trap x = Inr (rtl_exit NEMU_END (cpu_pc x) (gpr (cpu (mach x)) ! 2) x)"

section \<open>The switch and the step (exec.c)\<close>

definition mips_set_width :: "int \<Rightarrow> ectx \<Rightarrow> ectx" where
  "mips_set_width w x = (if w \<noteq> 0 then x\<lparr>ds := (ds x)\<lparr>width := w\<rparr>\<rparr> else x)"

definition mips_IDEXW ::
    "(ectx \<Rightarrow> fault + ectx) \<Rightarrow> (ectx \<Rightarrow> fault + ectx) \<Rightarrow> int \<Rightarrow> ectx \<Rightarrow> fault + ectx" where
  "mips_IDEXW dec ex w x = bnd (dec (mips_set_width w x)) ex"

definition mips_exec_special :: "ectx \<Rightarrow> fault + ectx" where
  "mips_exec_special x = mips_exec_inv x"

definition mips_decode_exec :: "ectx \<Rightarrow> fault + ectx" where
  "mips_decode_exec x =
     (let opc = mips_opcode (ival x) in
      if opc = 0 then mips_IDEXW Inr mips_exec_special 0 x
      else if opc = 15 then mips_IDEXW decode_IU mips_exec_lui 0 x
      else if opc = 35 then mips_IDEXW decode_ld mips_exec_ld 4 x
      else if opc = 43 then mips_IDEXW decode_st mips_exec_st 4 x
      else if opc = 60 then mips_IDEXW Inr mips_exec_nemu_trap 0 x
      else mips_exec_inv x)"

definition mips_fetch_decode_exec :: "ectx \<Rightarrow> fault + ectx" where
  "mips_fetch_decode_exec x =
     bnd (instr_fetch 4 x) (\<lambda>(v, x). mips_decode_exec (x\<lparr>ds := (ds x)\<lparr>instr_val := v\<rparr>\<rparr>))"

definition mips_reset_zero :: "machine \<Rightarrow> machine" where
  "mips_reset_zero m = set_gpr 0 0 m"

definition mips_isa_exec_once :: "DecodeExecState \<Rightarrow> machine \<Rightarrow> fault + (u32 \<times> machine)" where
  "mips_isa_exec_once junk m =
     bnd (mips_fetch_decode_exec \<lparr>ds = junk\<lparr>is_jmp := 0, seq_pc := pc (cpu m)\<rparr>, mach = m\<rparr>) (\<lambda>x.
     let x = update_pc x in
     Inr (seq_pc (ds x), mips_reset_zero (mach x)))"

section \<open>Initialisation (init.c), registers by name (reg.c), interrupts (intr.c), dut.c\<close>

definition mips_img :: "u32 list" where
  "mips_img = [0x3c048000, 0xac800000, 0x8c820000, 0xf0000000]"

definition mips_restart :: "machine \<Rightarrow> machine" where
  "mips_restart m =
     (let m = m\<lparr>cpu := (cpu m)\<lparr>pc := PMEM_BASE (isa m) + IMAGE_START (isa m)\<rparr>\<rparr>
      in set_gpr 0 0 m)"

definition mips_init_isa :: "machine \<Rightarrow> machine" where
  "mips_init_isa m = mips_restart (load_bytes (IMAGE_START (isa m)) (img_bytes mips_img) m)"

text \<open>\<open>isa_reg_str2val\<close> is a stub: it returns 0 and leaves \<open>*success\<close> as the caller set it.\<close>

definition mips_isa_reg_str2val :: "string \<Rightarrow> machine \<Rightarrow> bool \<Rightarrow> u32 \<times> bool" where
  "mips_isa_reg_str2val s m success = (0, success)"

definition mips_raise_intr :: "ectx \<Rightarrow> u32 \<Rightarrow> u32 \<Rightarrow> fault + ectx" where
  "mips_raise_intr x NO epc = Inl Todo"

definition mips_query_intr :: "ectx \<Rightarrow> ectx" where
  "mips_query_intr x = x"

definition mips_isa_difftest_checkregs :: "CPU_state \<Rightarrow> machine \<Rightarrow> bool" where
  "mips_isa_difftest_checkregs ref_r m \<longleftrightarrow> ref_r = cpu m"

section \<open>What one step does\<close>

text \<open>
  The specification of a step over the fetched word, in terms of the register file, memory and
  \<open>pc\<close> alone; \<open>rv_abort\<close>, which is common to the two ISAs, stops the run.
\<close>

definition mips_step :: "u32 \<Rightarrow> machine \<Rightarrow> fault + (u32 \<times> machine)" where
  "mips_step v m =
     (let rs = unat (bf 21 5 v); rt = unat (bf 16 5 v); opc = bf 26 6 v; next = rv_pc m + 4;
          addr = rv_get rs m + signed_take_bit 15 v in
      if opc = 15 then Inr (next, rv_goto next (rv_put rt (push_bit 16 v) m))
      else if opc = 35 then bnd (vaddr_read addr 4 m) (\<lambda>(d, m'). Inr (next, rv_goto next (rv_put rt d m')))
      else if opc = 43 then bnd (vaddr_write addr (rv_get rt m) 4 m) (\<lambda>m'. Inr (next, rv_goto next m'))
      else if opc = 60 then
        Inr (next, rv_goto next
          (m\<lparr>nemu_state := \<lparr>status = NEMU_END, halt_pc = rv_pc m, halt_ret = gpr (cpu m) ! 2\<rparr>\<rparr>))
      else rv_abort m)"

lemma mips_decode_op_r_ok:
  "unat i < 32 \<Longrightarrow> mips_decode_op_r upd i x =
     Inr (x\<lparr>ds := upd (\<lambda>op. op\<lparr>op_type := OP_TYPE_REG, reg_imm := i, preg := GprP (unat i)\<rparr>) (ds x)\<rparr>)"
  by (simp add: mips_decode_op_r_def mips_check_reg_index_def)

lemmas mips_decode_simps = decode_IU_def decode_ld_def decode_st_def mips_decode_op_i_def
  mips_decode_op_r_ok mips_rs_def mips_rt_def mips_IDEXW_def mips_set_width_def

lemma mips_exec_inv_same: "mips_exec_inv = exec_inv"
  by (simp add: fun_eq_iff mips_exec_inv_def exec_inv_def)

lemma mips_once_fetch:
  assumes "vaddr_ifetch (pc (cpu m)) 4 m = Inr (v, m1)"
  shows "mips_isa_exec_once junk m = bnd (mips_decode_exec (loaded junk v m1)) rv_finish"
proof -
  have "cpu m1 = cpu m" using assms by (blast dest: vaddr_ifetch_core core_cpu)
  then show ?thesis
    using assms
    by (simp add: mips_isa_exec_once_def mips_fetch_decode_exec_def instr_fetch_def loaded_def
        rv_finish_def [abs_def] update_pc_def Let_def mips_reset_zero_def reset_zero_def)
qed

lemma mips_imm_lui: "push_bit 16 (mips_imm v) = push_bit 16 v"
  by (rule bit_word_eqI) (auto simp: mips_fields bf_def bit_simps)

lemma mips_simm_sext: "mips_simm v = signed_take_bit 15 v"
  by (simp add: mips_fields sbf_def)

lemma mips_decode_exec_IDEXW:
  "bf 26 6 v = 15 \<Longrightarrow> mips_decode_exec (loaded j v m) = mips_IDEXW decode_IU mips_exec_lui 0 (loaded j v m)"
  "bf 26 6 v = 35 \<Longrightarrow> mips_decode_exec (loaded j v m) = mips_IDEXW decode_ld mips_exec_ld 4 (loaded j v m)"
  "bf 26 6 v = 43 \<Longrightarrow> mips_decode_exec (loaded j v m) = mips_IDEXW decode_st mips_exec_st 4 (loaded j v m)"
  "bf 26 6 v = 60 \<Longrightarrow> mips_decode_exec (loaded j v m) = mips_IDEXW Inr mips_exec_nemu_trap 0 (loaded j v m)"
  "bf 26 6 v \<notin> {15, 35, 43, 60} \<Longrightarrow> mips_decode_exec (loaded j v m) = exec_inv (loaded j v m)"
  by (auto simp: mips_decode_exec_def mips_opcode_def Let_def mips_IDEXW_def mips_set_width_def
      mips_exec_special_def mips_exec_inv_same)

lemma mips_step_cases:
  "bf 26 6 v = 15 \<Longrightarrow> mips_step v m = Inr (rv_pc m + 4, rv_goto (rv_pc m + 4)
      (rv_put (unat (bf 16 5 v)) (push_bit 16 v) m))"
  "bf 26 6 v = 35 \<Longrightarrow> mips_step v m =
     bnd (vaddr_read (rv_get (unat (bf 21 5 v)) m + signed_take_bit 15 v) 4 m) (\<lambda>(d, m').
     Inr (rv_pc m + 4, rv_goto (rv_pc m + 4) (rv_put (unat (bf 16 5 v)) d m')))"
  "bf 26 6 v = 43 \<Longrightarrow> mips_step v m =
     bnd (vaddr_write (rv_get (unat (bf 21 5 v)) m + signed_take_bit 15 v) (rv_get (unat (bf 16 5 v)) m) 4 m)
       (\<lambda>m'. Inr (rv_pc m + 4, rv_goto (rv_pc m + 4) m'))"
  "bf 26 6 v \<notin> {15, 35, 43, 60} \<Longrightarrow> mips_step v m = rv_abort m"
  by (auto simp: mips_step_def Let_def)

lemma mips_step_lui:
  assumes "rv_wf m" "bf 26 6 v = 15"
  shows "bnd (mips_decode_exec (loaded j v m)) rv_finish = mips_step v m"
  using assms(1) unfolding mips_step_cases(1) [OF assms(2)] mips_decode_exec_IDEXW(1) [OF assms(2)]
  by (simp add: mips_decode_simps mips_exec_lui_def operand_simps mips_imm_lui)

lemma mips_step_trap:
  assumes "rv_wf m" "bf 26 6 v = 60"
  shows "bnd (mips_decode_exec (loaded j v m)) rv_finish = mips_step v m"
  using assms unfolding mips_decode_exec_IDEXW(4) [OF assms(2)]
  by (simp add: mips_step_def mips_decode_simps mips_exec_nemu_trap_def rtl_exit_def operand_simps rv_wf_def)

lemma mips_step_lw:
  assumes "rv_wf m" "bf 26 6 v = 35"
  shows "bnd (mips_decode_exec (loaded j v m)) rv_finish = mips_step v m"
proof (cases "vaddr_read (rv_get (unat (bf 21 5 v)) m + signed_take_bit 15 v) 4 m")
  case (Inl e)
  then show ?thesis
    using assms(1) unfolding mips_step_cases(2) [OF assms(2)] mips_decode_exec_IDEXW(2) [OF assms(2)]
    by (simp add: mips_decode_simps mips_exec_ld_def rtl_lm_def operand_simps mips_simm_sext)
next
  case (Inr p)
  obtain d m' where p: "p = (d, m')" by (cases p)
  then have "cpu m' = cpu m" using Inr by (blast dest: vaddr_read_core core_cpu)
  then show ?thesis
    using assms(1) Inr p cpu_eq_wf [of m' m]
    unfolding mips_step_cases(2) [OF assms(2)] mips_decode_exec_IDEXW(2) [OF assms(2)]
    by (simp add: mips_decode_simps mips_exec_ld_def rtl_lm_def width_ok_def operand_simps mips_simm_sext)
qed

lemma mips_step_sw:
  assumes "rv_wf m" "bf 26 6 v = 43"
  shows "bnd (mips_decode_exec (loaded j v m)) rv_finish = mips_step v m"
proof (cases "vaddr_write (rv_get (unat (bf 21 5 v)) m + signed_take_bit 15 v)
    (rv_get (unat (bf 16 5 v)) m) 4 m")
  case (Inl e)
  then show ?thesis
    using assms(1) unfolding mips_step_cases(3) [OF assms(2)] mips_decode_exec_IDEXW(3) [OF assms(2)]
    by (simp add: mips_decode_simps mips_exec_st_def rtl_sm_def operand_simps mips_simm_sext)
next
  case (Inr m')
  then have "cpu m' = cpu m" by (blast dest: vaddr_write_cpu)
  then show ?thesis
    using assms(1) Inr cpu_eq_wf [of m' m]
    unfolding mips_step_cases(3) [OF assms(2)] mips_decode_exec_IDEXW(3) [OF assms(2)]
    by (simp add: mips_decode_simps mips_exec_st_def rtl_sm_def width_ok_def operand_simps mips_simm_sext)
qed

lemma mips_step_correct:
  assumes "rv_wf m"
  shows "bnd (mips_decode_exec (loaded j v m)) rv_finish = mips_step v m"
proof (cases "bf 26 6 v \<in> {15, 35, 43, 60}")
  case True
  then show ?thesis
    using mips_step_lui [OF assms] mips_step_lw [OF assms] mips_step_sw [OF assms] mips_step_trap [OF assms]
    by blast
next
  case False
  then show ?thesis using finish_exec_inv [of "loaded j v m"] assms
    unfolding mips_step_cases(4) [OF False] mips_decode_exec_IDEXW(5) [OF False] by simp
qed

section \<open>Properties\<close>

text \<open>
  C35. One step of the mips32 interpreter, for every instruction word: \<open>lui\<close>, \<open>lw\<close>, \<open>sw\<close> and
  \<open>nemu_trap\<close> do what the instruction set says, with register 0 hard-wired to zero, and every
  other word stops the run in state \<open>NEMU_ABORT\<close>.
\<close>

theorem mips32_step_refines:
  assumes "rv_wf m" and "vaddr_ifetch (pc (cpu m)) 4 m = Inr (v, m1)"
  shows "mips_isa_exec_once junk m = mips_step v m1"
proof -
  have "rv_wf m1" using assms by (metis vaddr_ifetch_core core_cpu cpu_eq_wf)
  then show ?thesis by (simp add: mips_once_fetch [OF assms(2)] mips_step_correct)
qed

text \<open>The witness is \<open>lui a0,0x8000\<close>, the first word of the built-in image.\<close>

lemma ifetch_booted_mips:
  "vaddr_ifetch (pc (cpu (booted Mips32 w regs))) 4 (booted Mips32 w regs) = Inr (w, booted Mips32 w regs)"
proof -
  have "in_pmem (booted Mips32 w regs) (pc (cpu (booted Mips32 w regs)))"
    by (simp add: in_pmem_def booted_def static_start_def PMEM_BASE_def IMAGE_START_def PMEM_SIZE_def)
  moreover have "pmem_read (pc (cpu (booted Mips32 w regs))) 4 (booted Mips32 w regs) = Inr w"
    by (simp add: pmem_read_def pmem_index_def booted_def static_start_def PMEM_BASE_def IMAGE_START_def
        PMEM_SIZE_def get_n_def)
  ultimately show ?thesis by (simp add: vaddr_ifetch_pmem)
qed

theorem mips32_step_refines_witness:
  "\<exists>m'. mips_isa_exec_once blank_ds (booted Mips32 0x3c048000 (replicate 32 0)) = Inr (0x80100004, m')
     \<and> gpr (cpu m') ! 4 = 0x80000000"
proof -
  have "rv_wf (booted Mips32 0x3c048000 (replicate 32 0))" by (simp add: rv_wf_def booted_def)
  from mips32_step_refines [OF this ifetch_booted_mips, of blank_ds] show ?thesis
    by (simp add: mips_step_def bf_def booted_def static_start_def PMEM_BASE_def IMAGE_START_def
        rv_goto_def rv_put_def set_gpr_def rv_pc_def)
qed

end
