(* ===== verification/X86.thy ===== *)
theory X86
  imports RiscvRefine
begin

text \<open>
  The x86 build: \<open>nemu/include/isa/x86.h\<close> and \<open>nemu/src/isa/x86\<close>. The register file and its
  16- and 8-bit parts, the ModR/M and SIB decoder, the operand helpers, the execution helpers
  that are written (\<open>mov\<close>, \<open>movzx\<close>, \<open>lea\<close>, the multiplications and divisions, jumps), the opcode
  table with its operand-size prefix loop, and \<open>isa_exec_once\<close>. The helpers whose whole body is
  \<open>TODO()\<close> are not repeated here; no opcode reaches them.

  Names that riscv32 also defines carry the prefix \<open>x86_\<close>. \<open>opsel\<close> is the pointer \<open>Operand *op\<close>.
\<close>

section \<open>Registers (reg.h, rtl.h)\<close>

definition R_EAX :: nat where "R_EAX = 0"
definition R_ECX :: nat where "R_ECX = 1"
definition R_EDX :: nat where "R_EDX = 2"
definition R_ESP :: nat where "R_ESP = 4"
definition R_EBP :: nat where "R_EBP = 5"
definition R_AL :: nat where "R_AL = 0"
definition R_AH :: nat where "R_AH = 4"

lemmas reg_enum = R_EAX_def R_ECX_def R_EDX_def R_ESP_def R_EBP_def R_AL_def R_AH_def

definition x86_check_reg_index :: "nat \<Rightarrow> fault + nat" where
  "x86_check_reg_index index = bnd (c_assert (index < 8)) (\<lambda>_. Inr index)"

text \<open>
  \<open>reg_w(i)\<close> is the low half of register \<open>i\<close>; \<open>reg_b(i)\<close> is byte \<open>i >> 2\<close> of register \<open>i & 3\<close>.
\<close>

definition reg_w :: "nat \<Rightarrow> machine \<Rightarrow> u32" where
  "reg_w i m = take_bit 16 (gpr (cpu m) ! i)"

definition reg_b :: "nat \<Rightarrow> machine \<Rightarrow> u32" where
  "reg_b i m = take_bit 8 (drop_bit (8 * (i div 4)) (gpr (cpu m) ! (i mod 4)))"

definition put_w :: "nat \<Rightarrow> u32 \<Rightarrow> machine \<Rightarrow> machine" where
  "put_w i v m = set_gpr i ((gpr (cpu m) ! i AND NOT (mask 16)) OR take_bit 16 v) m"

definition put_b :: "nat \<Rightarrow> u32 \<Rightarrow> machine \<Rightarrow> machine" where
  "put_b i v m =
     (let k = 8 * (i div 4) in
      set_gpr (i mod 4)
        ((gpr (cpu m) ! (i mod 4) AND NOT (push_bit k (mask 8))) OR push_bit k (take_bit 8 v)) m)"

definition rtl_lr :: "preg \<Rightarrow> nat \<Rightarrow> int \<Rightarrow> ectx \<Rightarrow> fault + ectx" where
  "rtl_lr d r w x =
     (if w = 4 then bnd (x86_check_reg_index r) (\<lambda>i. Inr (rtl_mv d (GprP i) x))
      else if w = 1 then bnd (x86_check_reg_index r) (\<lambda>i. Inr (wr d (reg_b i (mach x)) x))
      else if w = 2 then bnd (x86_check_reg_index r) (\<lambda>i. Inr (wr d (reg_w i (mach x)) x))
      else Inl Assert_Fail)"

definition rtl_sr :: "nat \<Rightarrow> preg \<Rightarrow> int \<Rightarrow> ectx \<Rightarrow> fault + ectx" where
  "rtl_sr r a w x =
     (if w = 4 then bnd (x86_check_reg_index r) (\<lambda>i. Inr (rtl_mv (GprP i) a x))
      else if w = 1 then
        bnd (x86_check_reg_index r) (\<lambda>i. Inr (x\<lparr>mach := put_b i (rd a x) (mach x)\<rparr>))
      else if w = 2 then
        bnd (x86_check_reg_index r) (\<lambda>i. Inr (x\<lparr>mach := put_w i (rd a x) (mach x)\<rparr>))
      else Inl Assert_Fail)"

section \<open>The register self-test (reg.c)\<close>

text \<open>
  \<open>reg_test\<close> stores eight random samples, one in each register, and asserts after each store and
  at the end that the parts read back. The samples and the sample for \<open>pc\<close> are arguments.
\<close>

fun reg_test_loop :: "nat \<Rightarrow> u32 list \<Rightarrow> machine \<Rightarrow> fault + machine" where
  "reg_test_loop i [] m = Inr m"
| "reg_test_loop i (v # vs) m =
     (let m = set_gpr i v m in
      bnd (c_assert (reg_w i m = v AND 0xffff)) (\<lambda>_. reg_test_loop (Suc i) vs m))"

definition reg_test_bytes :: "u32 list \<Rightarrow> machine \<Rightarrow> bool" where
  "reg_test_bytes sample m \<longleftrightarrow>
     reg_b 0 m = sample ! 0 AND 0xff \<and> reg_b 4 m = drop_bit 8 (sample ! 0) AND 0xff \<and>
     reg_b 3 m = sample ! 3 AND 0xff \<and> reg_b 7 m = drop_bit 8 (sample ! 3) AND 0xff \<and>
     reg_b 1 m = sample ! 1 AND 0xff \<and> reg_b 5 m = drop_bit 8 (sample ! 1) AND 0xff \<and>
     reg_b 2 m = sample ! 2 AND 0xff \<and> reg_b 6 m = drop_bit 8 (sample ! 2) AND 0xff"

definition reg_test :: "u32 list \<Rightarrow> u32 \<Rightarrow> machine \<Rightarrow> fault + machine" where
  "reg_test sample pc_sample m =
     (let m = m\<lparr>cpu := (cpu m)\<lparr>pc := pc_sample\<rparr>\<rparr> in
      bnd (reg_test_loop 0 sample m) (\<lambda>m.
      bnd (c_assert (reg_test_bytes sample m)) (\<lambda>_.
      bnd (c_assert (\<forall>i < 8. sample ! i = gpr (cpu m) ! i)) (\<lambda>_.
      bnd (c_assert (pc_sample = pc (cpu m))) (\<lambda>_. Inr m)))))"

section \<open>Operands (decode.h)\<close>

datatype opsel = O_src1 | O_src2 | O_dest

definition get_op :: "opsel \<Rightarrow> ectx \<Rightarrow> Operand" where
  "get_op s x = (case s of O_src1 \<Rightarrow> src1 (ds x) | O_src2 \<Rightarrow> src2 (ds x) | O_dest \<Rightarrow> dest (ds x))"

definition upd_op :: "opsel \<Rightarrow> (Operand \<Rightarrow> Operand) \<Rightarrow> ectx \<Rightarrow> ectx" where
  "upd_op s f x =
     (case s of
        O_src1 \<Rightarrow> x\<lparr>ds := (ds x)\<lparr>src1 := f (src1 (ds x))\<rparr>\<rparr>
      | O_src2 \<Rightarrow> x\<lparr>ds := (ds x)\<lparr>src2 := f (src2 (ds x))\<rparr>\<rparr>
      | O_dest \<Rightarrow> x\<lparr>ds := (ds x)\<lparr>dest := f (dest (ds x))\<rparr>\<rparr>)"

definition val_ptr :: "opsel \<Rightarrow> preg" where
  "val_ptr s = (case s of O_src1 \<Rightarrow> Src1ValP | O_src2 \<Rightarrow> Src2ValP | O_dest \<Rightarrow> DestValP)"

definition operand_reg :: "opsel \<Rightarrow> bool \<Rightarrow> nat \<Rightarrow> int \<Rightarrow> ectx \<Rightarrow> fault + ectx" where
  "operand_reg op load_val r w x =
     (let x = upd_op op (\<lambda>p. p\<lparr>op_type := OP_TYPE_REG, reg_imm := of_nat r\<rparr>) x in
      if w = 4 then
        bnd (x86_check_reg_index r) (\<lambda>i. Inr (upd_op op (\<lambda>p. p\<lparr>preg := GprP i\<rparr>) x))
      else
        bnd (c_assert (w = 1 \<or> w = 2)) (\<lambda>_.
        let x = upd_op op (\<lambda>p. p\<lparr>preg := val_ptr op\<rparr>) x in
        if load_val then rtl_lr (val_ptr op) r w x else Inr x))"

definition operand_imm :: "opsel \<Rightarrow> bool \<Rightarrow> u32 \<Rightarrow> ectx \<Rightarrow> ectx" where
  "operand_imm op load_val imm x =
     (let x = upd_op op (\<lambda>p. p\<lparr>op_type := OP_TYPE_IMM, reg_imm := imm\<rparr>) x in
      if load_val then upd_op op (\<lambda>p. p\<lparr>preg := val_ptr op\<rparr>) (rtl_li (val_ptr op) imm x) else x)"

definition x86_decode_op_I :: "opsel \<Rightarrow> bool \<Rightarrow> ectx \<Rightarrow> fault + ectx" where
  "x86_decode_op_I op load_val x =
     bnd (instr_fetch (op_width (get_op op x)) x) (\<lambda>(imm, x). Inr (operand_imm op load_val imm x))"

definition x86_decode_op_SI :: "opsel \<Rightarrow> bool \<Rightarrow> ectx \<Rightarrow> fault + ectx" where
  "x86_decode_op_SI op load_val x =
     bnd (c_assert (op_width (get_op op x) = 1 \<or> op_width (get_op op x) = 4)) (\<lambda>_. Inl Todo)"

definition x86_decode_op_a :: "opsel \<Rightarrow> bool \<Rightarrow> ectx \<Rightarrow> fault + ectx" where
  "x86_decode_op_a op load_val x = operand_reg op load_val R_EAX (op_width (get_op op x)) x"

definition x86_decode_op_r :: "opsel \<Rightarrow> bool \<Rightarrow> ectx \<Rightarrow> fault + ectx" where
  "x86_decode_op_r op load_val x =
     operand_reg op load_val (unat (opcode (ds x) AND 7)) (op_width (get_op op x)) x"

definition x86_decode_op_O :: "opsel \<Rightarrow> bool \<Rightarrow> ectx \<Rightarrow> fault + ectx" where
  "x86_decode_op_O op load_val x =
     (let x = upd_op op (\<lambda>p. p\<lparr>op_type := OP_TYPE_MEM\<rparr>) x in
      bnd (instr_fetch 4 x) (\<lambda>(a, x).
      let x = x\<lparr>ds := (ds x)\<lparr>moff := a, mbase := RzP\<rparr>\<rparr> in
      if load_val then
        bnd (rtl_lm (val_ptr op) (mbase (ds x)) (moff (ds x)) (op_width (get_op op x)) x) (\<lambda>x.
        Inr (upd_op op (\<lambda>p. p\<lparr>preg := val_ptr op\<rparr>) x))
      else Inr x))"

section \<open>ModR/M and SIB (decode.c)\<close>

definition modrm_RM :: "u8 \<Rightarrow> nat" where "modrm_RM v = unat (v AND 7)"
definition modrm_reg :: "u8 \<Rightarrow> nat" where "modrm_reg v = unat (drop_bit 3 v AND 7)"
definition modrm_mod :: "u8 \<Rightarrow> nat" where "modrm_mod v = unat (drop_bit 6 v)"
definition sib_base :: "u8 \<Rightarrow> nat" where "sib_base v = unat (v AND 7)"
definition sib_index :: "u8 \<Rightarrow> nat" where "sib_index v = unat (drop_bit 3 v AND 7)"
definition sib_ss :: "u8 \<Rightarrow> nat" where "sib_ss v = unat (drop_bit 6 v)"

text \<open>The part of \<open>load_addr\<close> that reads the SIB byte: base register, index register, scale.\<close>

definition load_sib :: "u8 \<Rightarrow> ectx \<Rightarrow> fault + ((int \<times> int \<times> nat) \<times> ectx)" where
  "load_sib m x =
     (if modrm_RM m = R_ESP then
        bnd (instr_fetch 1 x) (\<lambda>(b, x).
        let sib = (ucast b :: u8) in
        Inr ((int (sib_base sib),
              (if sib_index sib \<noteq> R_ESP then int (sib_index sib) else -1),
              sib_ss sib), x))
      else Inr ((int (modrm_RM m), -1, 0), x))"

text \<open>The part that reads the displacement: the possibly dropped base and the displacement.\<close>

definition load_disp :: "u8 \<Rightarrow> int \<Rightarrow> ectx \<Rightarrow> fault + ((int \<times> u32) \<times> ectx)" where
  "load_disp m base_reg x =
     (let (base_reg, disp_size) =
            (if modrm_mod m = 0 then (if base_reg = int R_EBP then (-1, 4) else (base_reg, 0))
             else if modrm_mod m = 1 then (base_reg, 1)
             else (base_reg, 4 :: int))
      in if disp_size \<noteq> 0 then
           bnd (instr_fetch disp_size x) (\<lambda>(disp, x).
           Inr ((base_reg, (if disp_size = 1 then scast (ucast disp :: u8) else disp)), x))
         else Inr ((base_reg, 0), x))"

definition load_addr :: "u8 \<Rightarrow> opsel \<Rightarrow> ectx \<Rightarrow> fault + ectx" where
  "load_addr m rm x =
     bnd (c_assert (modrm_mod m \<noteq> 3)) (\<lambda>_.
     bnd (load_sib m x) (\<lambda>((base_reg, index_reg, scale), x).
     bnd (load_disp m base_reg x) (\<lambda>((base_reg, disp), x).
     let x = x\<lparr>ds := (ds x)\<lparr>mbase := (if base_reg \<noteq> -1 then GprP (nat base_reg) else RzP)\<rparr>\<rparr>;
         x = (if index_reg \<noteq> -1 then
                (let x = rtl_shli s1 (GprP (nat index_reg)) (of_nat scale) x;
                     x = rtl_add MbrP (mbase (ds x)) s1 x
                 in x\<lparr>ds := (ds x)\<lparr>mbase := MbrP\<rparr>\<rparr>)
              else x);
         x = x\<lparr>ds := (ds x)\<lparr>moff := disp\<rparr>\<rparr>
     in Inr (upd_op rm (\<lambda>p. p\<lparr>op_type := OP_TYPE_MEM\<rparr>) x))))"

definition read_ModR_M :: "opsel \<Rightarrow> bool \<Rightarrow> opsel option \<Rightarrow> bool \<Rightarrow> ectx \<Rightarrow> fault + ectx" where
  "read_ModR_M rm load_rm_val reg load_reg_val x =
     bnd (instr_fetch 1 x) (\<lambda>(b, x).
     let m = (ucast b :: u8);
         x = x\<lparr>ds := (ds x)\<lparr>ext_opcode := of_nat (modrm_reg m)\<rparr>\<rparr> in
     bnd (case reg of
            None \<Rightarrow> Inr x
          | Some r \<Rightarrow> operand_reg r load_reg_val (modrm_reg m) (op_width (get_op r x)) x) (\<lambda>x.
     if modrm_mod m = 3 then operand_reg rm load_rm_val (modrm_RM m) (op_width (get_op rm x)) x
     else
       bnd (load_addr m rm x) (\<lambda>x.
       bnd (if load_rm_val
            then rtl_lm (val_ptr rm) (mbase (ds x)) (moff (ds x)) (op_width (get_op rm x)) x
            else Inr x) (\<lambda>x.
       Inr (upd_op rm (\<lambda>p. p\<lparr>preg := val_ptr rm\<rparr>) x)))))"

section \<open>Decode helpers (decode.h)\<close>

definition x86_decode_mov_G2E where "x86_decode_mov_G2E = read_ModR_M O_dest False (Some O_src1) True"
definition x86_decode_G2E where "x86_decode_G2E = read_ModR_M O_dest True (Some O_src1) True"
definition x86_decode_E2G where "x86_decode_E2G = read_ModR_M O_src1 True (Some O_dest) True"
definition x86_decode_mov_E2G where "x86_decode_mov_E2G = read_ModR_M O_src1 True (Some O_dest) False"
definition x86_decode_lea_M2G where "x86_decode_lea_M2G = read_ModR_M O_src1 False (Some O_dest) False"
definition x86_decode_E where "x86_decode_E = read_ModR_M O_dest True None False"
definition x86_decode_setcc_E where "x86_decode_setcc_E = read_ModR_M O_dest False None False"
definition x86_decode_gp7_E where "x86_decode_gp7_E = read_ModR_M O_dest False None False"

definition x86_decode_I2a :: "ectx \<Rightarrow> fault + ectx" where
  "x86_decode_I2a x = bnd (x86_decode_op_a O_dest True x) (x86_decode_op_I O_src1 True)"

definition x86_decode_I_E2G :: "ectx \<Rightarrow> fault + ectx" where
  "x86_decode_I_E2G x = bnd (read_ModR_M O_src2 True (Some O_dest) False x) (x86_decode_op_I O_src1 True)"

definition x86_decode_I2E :: "ectx \<Rightarrow> fault + ectx" where
  "x86_decode_I2E x = bnd (read_ModR_M O_dest True None False x) (x86_decode_op_I O_src1 True)"

definition x86_decode_mov_I2E :: "ectx \<Rightarrow> fault + ectx" where
  "x86_decode_mov_I2E x = bnd (read_ModR_M O_dest False None False x) (x86_decode_op_I O_src1 True)"

definition x86_decode_I2r :: "ectx \<Rightarrow> fault + ectx" where
  "x86_decode_I2r x = bnd (x86_decode_op_r O_dest True x) (x86_decode_op_I O_src1 True)"

definition x86_decode_mov_I2r :: "ectx \<Rightarrow> fault + ectx" where
  "x86_decode_mov_I2r x = bnd (x86_decode_op_r O_dest False x) (x86_decode_op_I O_src1 True)"

definition x86_decode_I :: "ectx \<Rightarrow> fault + ectx" where
  "x86_decode_I x = x86_decode_op_I O_dest True x"

definition x86_decode_r :: "ectx \<Rightarrow> fault + ectx" where
  "x86_decode_r x = x86_decode_op_r O_dest True x"

definition x86_decode_test_I :: "ectx \<Rightarrow> fault + ectx" where
  "x86_decode_test_I x = x86_decode_op_I O_src1 True x"

text \<open>\<open>decode_op_SI\<close> never returns, so neither do \<open>SI2E\<close>, \<open>SI_E2G\<close>, \<open>J\<close> and \<open>push_SI\<close>.\<close>

definition set_op_width :: "opsel \<Rightarrow> int \<Rightarrow> ectx \<Rightarrow> ectx" where
  "set_op_width s w x = upd_op s (\<lambda>p. p\<lparr>op_width := w\<rparr>) x"

definition x86_decode_SI2E :: "ectx \<Rightarrow> fault + ectx" where
  "x86_decode_SI2E x =
     bnd (c_assert (op_width (dest (ds x)) = 2 \<or> op_width (dest (ds x)) = 4)) (\<lambda>_.
     bnd (read_ModR_M O_dest True None False x) (\<lambda>x.
     bnd (x86_decode_op_SI O_src1 True (set_op_width O_src1 1 x)) (\<lambda>x.
     Inr (if op_width (dest (ds x)) = 2 then wr (dsrc1 x) (rd (dsrc1 x) x AND 0xffff) x else x))))"

definition x86_decode_gp2_1_E :: "ectx \<Rightarrow> fault + ectx" where
  "x86_decode_gp2_1_E x =
     bnd (read_ModR_M O_dest True None False x) (\<lambda>x. Inr (operand_imm O_src1 True 1 x))"

definition x86_decode_gp2_cl2E :: "ectx \<Rightarrow> fault + ectx" where
  "x86_decode_gp2_cl2E x =
     bnd (read_ModR_M O_dest True None False x) (operand_reg O_src1 True R_ECX 4)"

definition x86_decode_gp2_Ib2E :: "ectx \<Rightarrow> fault + ectx" where
  "x86_decode_gp2_Ib2E x =
     bnd (read_ModR_M O_dest True None False x) (\<lambda>x. x86_decode_op_I O_src1 True (set_op_width O_src1 1 x))"

definition x86_decode_Ib_G2E :: "ectx \<Rightarrow> fault + ectx" where
  "x86_decode_Ib_G2E x =
     bnd (read_ModR_M O_dest True (Some O_src2) True x) (\<lambda>x.
     x86_decode_op_I O_src1 True (set_op_width O_src1 1 x))"

definition x86_decode_cl_G2E :: "ectx \<Rightarrow> fault + ectx" where
  "x86_decode_cl_G2E x =
     bnd (read_ModR_M O_dest True (Some O_src2) True x) (operand_reg O_src1 True R_ECX 4)"

definition x86_decode_O2a :: "ectx \<Rightarrow> fault + ectx" where
  "x86_decode_O2a x = bnd (x86_decode_op_O O_src1 True x) (x86_decode_op_a O_dest False)"

definition x86_decode_a2O :: "ectx \<Rightarrow> fault + ectx" where
  "x86_decode_a2O x = bnd (x86_decode_op_a O_src1 True x) (x86_decode_op_O O_dest False)"

definition x86_decode_in_I2a :: "ectx \<Rightarrow> fault + ectx" where
  "x86_decode_in_I2a x =
     bnd (x86_decode_op_I O_src1 True (set_op_width O_src1 1 x)) (x86_decode_op_a O_dest False)"

definition x86_decode_in_dx2a :: "ectx \<Rightarrow> fault + ectx" where
  "x86_decode_in_dx2a x = bnd (operand_reg O_src1 True R_EDX 2 x) (x86_decode_op_a O_dest False)"

definition x86_decode_out_a2I :: "ectx \<Rightarrow> fault + ectx" where
  "x86_decode_out_a2I x =
     bnd (x86_decode_op_a O_src1 True x) (\<lambda>x. x86_decode_op_I O_dest True (set_op_width O_dest 1 x))"

definition x86_decode_out_a2dx :: "ectx \<Rightarrow> fault + ectx" where
  "x86_decode_out_a2dx x = bnd (x86_decode_op_a O_src1 True x) (operand_reg O_dest True R_EDX 2)"

definition operand_write :: "opsel \<Rightarrow> preg \<Rightarrow> ectx \<Rightarrow> fault + ectx" where
  "operand_write op src x =
     (let p = get_op op x in
      case op_type p of
        OP_TYPE_REG \<Rightarrow> rtl_sr (unat (reg_imm p)) src (op_width p) x
      | OP_TYPE_MEM \<Rightarrow> rtl_sm (mbase (ds x)) (moff (ds x)) src (op_width p) x
      | OP_TYPE_IMM \<Rightarrow> Inl Assert_Fail)"

section \<open>Execution helpers (data-mov.h, control.h, arith.h, special.c)\<close>

definition x86_exec_mov :: "ectx \<Rightarrow> fault + ectx" where
  "x86_exec_mov x = operand_write O_dest (dsrc1 x) x"

definition x86_exec_movzx :: "ectx \<Rightarrow> fault + ectx" where
  "x86_exec_movzx x =
     (let x = set_op_width O_dest (if is_operand_size_16 (ds x) then 2 else 4) x
      in operand_write O_dest (dsrc1 x) x)"

definition x86_exec_lea :: "ectx \<Rightarrow> fault + ectx" where
  "x86_exec_lea x =
     (let x = rtl_addi (ddest x) (mbase (ds x)) (moff (ds x)) x
      in operand_write O_dest (ddest x) x)"

definition x86_exec_jmp :: "ectx \<Rightarrow> fault + ectx" where
  "x86_exec_jmp x = Inr (rtl_j (jmp_pc (ds x)) x)"

definition x86_exec_jmp_rm :: "ectx \<Rightarrow> fault + ectx" where
  "x86_exec_jmp_rm x = Inr (rtl_jr (ddest x) x)"

definition x86_exec_mul :: "ectx \<Rightarrow> fault + ectx" where
  "x86_exec_mul x =
     (let w = op_width (dest (ds x)) in
      bnd (rtl_lr s0 R_EAX w x) (\<lambda>x.
      let x = rtl_mul_lo s1 (ddest x) s0 x in
      if w = 1 then rtl_sr R_EAX s1 2 x
      else if w = 2 then
        bnd (rtl_sr R_EAX s1 2 x) (\<lambda>x. rtl_sr R_EDX s1 2 (rtl_shri s1 s1 16 x))
      else if w = 4 then
        (let x = rtl_mul_hi s0 (ddest x) s0 x in
         bnd (rtl_sr R_EDX s0 4 x) (rtl_sr R_EAX s1 4))
      else Inl Assert_Fail))"

definition x86_exec_imul1 :: "ectx \<Rightarrow> fault + ectx" where
  "x86_exec_imul1 x =
     (let w = op_width (dest (ds x)) in
      if w = 1 then
        bnd (rtl_lr s0 R_EAX 1 x) (\<lambda>x. rtl_sr R_EAX s1 2 (rtl_imul_lo s1 (ddest x) s0 x))
      else if w = 2 then
        bnd (rtl_lr s0 R_EAX 2 x) (\<lambda>x.
        bnd (rtl_sr R_EAX s1 2 (rtl_imul_lo s1 (ddest x) s0 x)) (\<lambda>x.
        rtl_sr R_EDX s1 2 (rtl_shri s1 s1 16 x)))
      else if w = 4 then
        (let (pdest, x) = (if ddest x = GprP R_EDX then (s0, rtl_mv s0 (ddest x) x) else (ddest x, x));
             x = rtl_imul_hi (GprP R_EDX) pdest (GprP R_EAX) x
         in Inr (rtl_imul_lo (GprP R_EAX) pdest (GprP R_EAX) x))
      else Inl Assert_Fail)"

text \<open>\<open>div\<close> and \<open>idiv\<close> differ in the four operators only.\<close>

type_synonym div_op = "preg \<Rightarrow> preg \<Rightarrow> preg \<Rightarrow> ectx \<Rightarrow> fault + ectx"
type_synonym div64_op = "preg \<Rightarrow> preg \<Rightarrow> preg \<Rightarrow> preg \<Rightarrow> ectx \<Rightarrow> fault + ectx"

definition x86_division :: "div_op \<Rightarrow> div_op \<Rightarrow> div64_op \<Rightarrow> div64_op \<Rightarrow> ectx \<Rightarrow> fault + ectx" where
  "x86_division dq dr dq64 dr64 x =
     (let w = op_width (dest (ds x)) in
      if w = 1 then
        bnd (rtl_lr s0 R_EAX 2 x) (\<lambda>x.
        bnd (dq s1 s0 (ddest x) x) (\<lambda>x.
        bnd (rtl_sr R_AL s1 1 x) (\<lambda>x.
        bnd (dr s1 s0 (ddest x) x) (rtl_sr R_AH s1 1))))
      else if w = 2 then
        bnd (rtl_lr s0 R_EAX 2 x) (\<lambda>x.
        bnd (rtl_lr s1 R_EDX 2 x) (\<lambda>x.
        let x = rtl_or s0 s0 s1 (rtl_shli s1 s1 16 x) in
        bnd (dq s1 s0 (ddest x) x) (\<lambda>x.
        bnd (rtl_sr R_EAX s1 2 x) (\<lambda>x.
        bnd (dr s1 s0 (ddest x) x) (rtl_sr R_EDX s1 2)))))
      else if w = 4 then
        (let pdest = (if ddest x = GprP R_EAX then s0 else ddest x);
             x = rtl_mv s0 (GprP R_EAX) x in
         bnd (dq64 (GprP R_EAX) (GprP R_EDX) s0 pdest x) (dr64 (GprP R_EDX) (GprP R_EDX) s0 pdest))
      else Inl Assert_Fail)"

definition x86_exec_div where
  "x86_exec_div = x86_division rtl_div_q rtl_div_r rtl_div64_q rtl_div64_r"
definition x86_exec_idiv where
  "x86_exec_idiv = x86_division rtl_idiv_q rtl_idiv_r rtl_idiv64_q rtl_idiv64_r"

definition x86_exec_nop :: "ectx \<Rightarrow> fault + ectx" where
  "x86_exec_nop x = Inr x"

definition x86_exec_inv :: "ectx \<Rightarrow> fault + ectx" where
  "x86_exec_inv x =
     (let x = x\<lparr>ds := (ds x)\<lparr>seq_pc := cpu_pc x\<rparr>\<rparr> in
      bnd (instr_fetch 4 x) (\<lambda>(_, x).
      bnd (instr_fetch 4 x) (\<lambda>(_, x).
      Inr (rtl_exit NEMU_ABORT (cpu_pc x) (-1) x))))"

definition x86_exec_nemu_trap :: "ectx \<Rightarrow> fault + ectx" where
  "x86_exec_nemu_trap x = Inr (rtl_exit NEMU_END (cpu_pc x) (gpr (cpu (mach x)) ! R_EAX) x)"

section \<open>The opcode table (exec.c)\<close>

definition x86_set_width :: "int \<Rightarrow> ectx \<Rightarrow> ectx" where
  "x86_set_width w x =
     (if w = -1 then x
      else
        (let w = (if w = 0 then (if is_operand_size_16 (ds x) then 2 else 4) else w)
         in set_op_width O_src2 w (set_op_width O_dest w (set_op_width O_src1 w x))))"

definition x86_IDEXW ::
    "(ectx \<Rightarrow> fault + ectx) \<Rightarrow> (ectx \<Rightarrow> fault + ectx) \<Rightarrow> int \<Rightarrow> ectx \<Rightarrow> fault + ectx" where
  "x86_IDEXW dec ex w x = bnd (dec (x86_set_width w x)) ex"

text \<open>Every row of the group tables is \<open>EMPTY\<close>, and \<open>ext_opcode\<close> has three bits.\<close>

definition x86_exec_gp :: "ectx \<Rightarrow> fault + ectx" where
  "x86_exec_gp x = (if ext_opcode (ds x) < 8 then x86_IDEXW Inr x86_exec_inv 0 x else Inr x)"

definition x86_exec_2byte_esc :: "ectx \<Rightarrow> fault + ectx" where
  "x86_exec_2byte_esc x =
     bnd (instr_fetch 1 x) (\<lambda>(b, x).
     let opc = (ucast b :: u8); x = x\<lparr>ds := (ds x)\<lparr>opcode := ucast opc\<rparr>\<rparr> in
     if opc = 0x01 then x86_IDEXW x86_decode_gp7_E x86_exec_gp 0 x else x86_exec_inv x)"

definition x86_table :: "u8 \<Rightarrow> ectx \<Rightarrow> fault + ectx" where
  "x86_table opc =
     (if opc = 0x0f then x86_IDEXW Inr x86_exec_2byte_esc 0
      else if opc = 0x80 then x86_IDEXW x86_decode_I2E x86_exec_gp 1
      else if opc = 0x81 then x86_IDEXW x86_decode_I2E x86_exec_gp 0
      else if opc = 0x83 then x86_IDEXW x86_decode_SI2E x86_exec_gp 0
      else if opc = 0x88 then x86_IDEXW x86_decode_mov_G2E x86_exec_mov 1
      else if opc = 0x89 then x86_IDEXW x86_decode_mov_G2E x86_exec_mov 0
      else if opc = 0x8a then x86_IDEXW x86_decode_mov_E2G x86_exec_mov 1
      else if opc = 0x8b then x86_IDEXW x86_decode_mov_E2G x86_exec_mov 0
      else if opc = 0xa0 then x86_IDEXW x86_decode_O2a x86_exec_mov 1
      else if opc = 0xa1 then x86_IDEXW x86_decode_O2a x86_exec_mov 0
      else if opc = 0xa2 then x86_IDEXW x86_decode_a2O x86_exec_mov 1
      else if opc = 0xa3 then x86_IDEXW x86_decode_a2O x86_exec_mov 0
      else if 0xb0 \<le> opc \<and> opc \<le> 0xb7 then x86_IDEXW x86_decode_mov_I2r x86_exec_mov 1
      else if 0xb8 \<le> opc \<and> opc \<le> 0xbf then x86_IDEXW x86_decode_mov_I2r x86_exec_mov 0
      else if opc = 0xc0 then x86_IDEXW x86_decode_gp2_Ib2E x86_exec_gp 1
      else if opc = 0xc1 then x86_IDEXW x86_decode_gp2_Ib2E x86_exec_gp 0
      else if opc = 0xc6 then x86_IDEXW x86_decode_mov_I2E x86_exec_mov 1
      else if opc = 0xc7 then x86_IDEXW x86_decode_mov_I2E x86_exec_mov 0
      else if opc = 0xd0 then x86_IDEXW x86_decode_gp2_1_E x86_exec_gp 1
      else if opc = 0xd1 then x86_IDEXW x86_decode_gp2_1_E x86_exec_gp 0
      else if opc = 0xd2 then x86_IDEXW x86_decode_gp2_cl2E x86_exec_gp 1
      else if opc = 0xd3 then x86_IDEXW x86_decode_gp2_cl2E x86_exec_gp 0
      else if opc = 0xd6 then x86_IDEXW Inr x86_exec_nemu_trap 0
      else if opc = 0xf6 then x86_IDEXW x86_decode_E x86_exec_gp 1
      else if opc = 0xf7 then x86_IDEXW x86_decode_E x86_exec_gp 0
      else if opc = 0xfe then x86_IDEXW x86_decode_E x86_exec_gp 1
      else if opc = 0xff then x86_IDEXW x86_decode_E x86_exec_gp 0
      else x86_exec_inv)"

text \<open>
  The \<open>goto again\<close> of the prefix \<open>0x66\<close> is a loop that memory full of prefixes keeps running;
  \<open>None\<close> is the loop that never ends.
\<close>

partial_function (option) x86_fetch_decode_exec :: "ectx \<Rightarrow> (fault + ectx) option" where
  "x86_fetch_decode_exec x =
     (case instr_fetch 1 x of
        Inl e \<Rightarrow> Some (Inl e)
      | Inr (b, x) \<Rightarrow>
          (let opc = (ucast b :: u8); x = x\<lparr>ds := (ds x)\<lparr>opcode := ucast opc\<rparr>\<rparr> in
           if opc = 0x66
           then x86_fetch_decode_exec (x\<lparr>ds := (ds x)\<lparr>is_operand_size_16 := True\<rparr>\<rparr>)
           else Some (x86_table opc x)))"

definition x86_start :: "DecodeExecState \<Rightarrow> machine \<Rightarrow> ectx" where
  "x86_start junk m =
     \<lparr>ds = junk\<lparr>is_jmp := 0, is_operand_size_16 := False, ext_opcode := 0, mbase := RzP, mbr := 0,
        moff := 0, seq_pc := pc (cpu m)\<rparr>, mach = m\<rparr>"

definition x86_isa_exec_once ::
    "DecodeExecState \<Rightarrow> machine \<Rightarrow> (fault + (u32 \<times> machine)) option" where
  "x86_isa_exec_once junk m =
     map_option (\<lambda>r. bnd r (\<lambda>x. let x = update_pc x in Inr (seq_pc (ds x), mach x)))
       (x86_fetch_decode_exec (x86_start junk m))"

section \<open>Initialisation (init.c), interrupts (intr.c), difftest (dut.c)\<close>

definition x86_img :: "u8 list" where
  "x86_img =
    [0xb8, 0x34, 0x12, 0x00, 0x00,
     0xb9, 0x27, 0x00, 0x10, 0x00,
     0x89, 0x01,
     0x66, 0xc7, 0x41, 0x04, 0x01, 0x00,
     0xbb, 0x02, 0x00, 0x00, 0x00,
     0x66, 0xc7, 0x84, 0x99, 0x00, 0xe0,
     0xff, 0xff, 0x01, 0x00,
     0xb8, 0x00, 0x00, 0x00, 0x00,
     0xd6]"

definition x86_restart :: "machine \<Rightarrow> machine" where
  "x86_restart m = m\<lparr>cpu := (cpu m)\<lparr>pc := PMEM_BASE (isa m) + IMAGE_START (isa m)\<rparr>\<rparr>"

definition x86_init_isa :: "u32 list \<Rightarrow> u32 \<Rightarrow> machine \<Rightarrow> fault + machine" where
  "x86_init_isa sample pc_sample m =
     bnd (reg_test sample pc_sample m) (\<lambda>m.
     Inr (x86_restart (load_bytes (IMAGE_START (isa m)) x86_img m)))"

definition x86_raise_intr :: "ectx \<Rightarrow> u32 \<Rightarrow> u32 \<Rightarrow> fault + ectx" where
  "x86_raise_intr x NO ret_addr = Inl Todo"

definition x86_query_intr :: "ectx \<Rightarrow> fault + ectx" where
  "x86_query_intr x = Inl Todo"

definition x86_isa_difftest_checkregs :: "CPU_state \<Rightarrow> machine \<Rightarrow> bool" where
  "x86_isa_difftest_checkregs ref_r m \<longleftrightarrow> False"

definition x86_isa_reg_str2val :: "string \<Rightarrow> machine \<Rightarrow> bool \<Rightarrow> u32 \<times> bool" where
  "x86_isa_reg_str2val s m success = (0, success)"

section \<open>The parts of a register\<close>

lemma and_FF: "v AND 0xff = take_bit 8 (v :: u32)" and and_FFFF: "v AND 0xffff = take_bit 16 (v :: u32)"
  by (simp_all add: take_bit_eq_mask mask_eq_exp_minus_1)

lemma reg_b_put_b_same:
  assumes "r < 8" "length (gpr (cpu m)) = 8"
  shows "reg_b r (put_b r v m) = take_bit 8 v"
proof -
  have "r div 4 = 0 \<or> r div 4 = 1" "r mod 4 < length (gpr (cpu m))" using assms by auto
  then show ?thesis
    by (auto simp: reg_b_def put_b_def set_gpr_def Let_def intro!: bit_word_eqI) (auto simp: bit_simps)
qed

lemma reg_b_put_b_other:
  assumes "r < 8" "q < 8" "q \<noteq> r" "length (gpr (cpu m)) = 8"
  shows "reg_b q (put_b r v m) = reg_b q m"
proof (cases "q mod 4 = r mod 4")
  case True
  then have "(r div 4 = 0 \<and> q div 4 = 1) \<or> (r div 4 = 1 \<and> q div 4 = 0)"
    using assms by (metis div_mult_mod_eq less_2_cases less_mult_imp_div_less numeral_Bit0_eq_double mult_2 numeral_code(2) One_nat_def)
  then show ?thesis using True assms
    by (auto simp: reg_b_def put_b_def set_gpr_def Let_def intro!: bit_word_eqI) (auto simp: bit_simps)
next
  case False
  then show ?thesis
    by (simp add: reg_b_def put_b_def set_gpr_def Let_def nth_list_update_neq not_sym)
qed

lemma put_b_keeps_high:
  assumes "r < 8" "i < 8" "length (gpr (cpu m)) = 8"
  shows "drop_bit 16 (gpr (cpu (put_b r v m)) ! i) = drop_bit 16 (gpr (cpu m) ! i)"
proof (cases "i = r mod 4")
  case True
  have "r div 4 = 0 \<or> r div 4 = 1" "r mod 4 < 8" using assms by auto
  then show ?thesis using True assms
    by (auto simp: put_b_def set_gpr_def Let_def intro!: bit_word_eqI) (auto simp: bit_simps dest!: bit_imp_le_length)
qed (simp add: put_b_def set_gpr_def Let_def nth_list_update_neq)

lemma reg_w_put_w:
  assumes "r < 8" "length (gpr (cpu m)) = 8"
  shows "reg_w r (put_w r v m) = take_bit 16 v"
    "drop_bit 16 (gpr (cpu (put_w r v m)) ! r) = drop_bit 16 (gpr (cpu m) ! r)"
  using assms by (auto simp: reg_w_def put_w_def set_gpr_def intro!: bit_word_eqI) (auto simp: bit_simps dest!: bit_imp_le_length)

lemma reg_test_loop_ok:
  "i + length vs \<le> length (gpr (cpu m)) \<Longrightarrow>
   \<exists>m'. reg_test_loop i vs m = Inr m' \<and> pc (cpu m') = pc (cpu m) \<and> 
     gpr (cpu m') = take i (gpr (cpu m)) @ vs @ drop (i + length vs) (gpr (cpu m))"
proof (induction vs arbitrary: i m)
  case Nil
  then show ?case by simp
next
  case (Cons v vs)
  let ?m = "set_gpr i v m"
  have "reg_w i ?m = v AND 0xffff"
    using Cons.prems by (simp add: reg_w_def set_gpr_def and_FFFF)
  moreover obtain m' where "reg_test_loop (Suc i) vs ?m = Inr m'" "pc (cpu m') = pc (cpu m)"
    "gpr (cpu m') = take (Suc i) (gpr (cpu ?m)) @ vs @ drop (Suc i + length vs) (gpr (cpu ?m))"
    using Cons.IH [of "Suc i" ?m] Cons.prems by (auto simp: set_gpr_def)
  moreover have "take (Suc i) (gpr (cpu ?m)) = take i (gpr (cpu m)) @ [v]"
    using Cons.prems by (simp add: set_gpr_def take_Suc_conv_app_nth)
  ultimately show ?case using Cons.prems by (simp add: set_gpr_def)
qed

lemma reg_test_ok:
  assumes "length sample = 8" "length (gpr (cpu m)) = 8"
  shows "\<exists>m'. reg_test sample p m = Inr m' \<and> gpr (cpu m') = sample \<and> pc (cpu m') = p"
proof -
  obtain m' where m': "reg_test_loop 0 sample (m\<lparr>cpu := (cpu m)\<lparr>pc := p\<rparr>\<rparr>) = Inr m'"
    "pc (cpu m') = p" "gpr (cpu m') = sample"
    using reg_test_loop_ok [of 0 sample "m\<lparr>cpu := (cpu m)\<lparr>pc := p\<rparr>\<rparr>"] assms by auto
  then have "reg_test_bytes sample m'"
    by (simp add: reg_test_bytes_def reg_b_def and_FF)
  then show ?thesis using m' by (simp add: reg_test_def)
qed

section \<open>The prefix loop ends\<close>

text \<open>
  Each turn of the loop fetches one byte at \<open>seq_pc\<close> and advances it by one; the maps never
  change. An address that is neither memory nor mapped stops it.
\<close>

definition unmapped :: "machine \<Rightarrow> u32 \<Rightarrow> bool" where
  "unmapped m a \<longleftrightarrow> \<not> in_pmem m a \<and> fetch_mmio_map m a = None"

lemma unmapped_core: "core m' = core m \<Longrightarrow> unmapped m' a = unmapped m a"
  by (simp add: unmapped_def in_pmem_def fetch_mmio_map_def core_def Let_def)

lemma ifetch_unmapped: "unmapped m a \<Longrightarrow> vaddr_ifetch a 1 m = Inl Assert_Fail"
  by (simp add: unmapped_def vaddr_ifetch_def vaddr_access_read_def isa_vaddr_check_def paddr_read_def
      map_read_def check_bound_def)

lemma instr_fetch_step:
  assumes "instr_fetch n x = Inr (b, x')"
  shows "seq_pc (ds x') = seq_pc (ds x) + word_of_int n \<and> core (mach x') = core (mach x)"
  using assms by (auto simp: instr_fetch_def bnd_simps dest: vaddr_ifetch_core)

lemma x86_loop_ends:
  assumes "unmapped (mach x) a"
  shows "\<exists>r. x86_fetch_decode_exec x = Some r"
  using assms
proof (induction "unat (a - seq_pc (ds x))" arbitrary: x rule: less_induct)
  case less
  show ?case
  proof (cases "instr_fetch 1 x")
    case (Inl e)
    then show ?thesis by (simp add: x86_fetch_decode_exec.simps)
  next
    case (Inr p)
    obtain b x' where p: "p = (b, x')" by (cases p)
    have step: "seq_pc (ds x') = seq_pc (ds x) + 1" "core (mach x') = core (mach x)"
      using instr_fetch_step Inr p by fastforce+
    have ne: "seq_pc (ds x) \<noteq> a"
      using Inr less.prems ifetch_unmapped by (auto simp: instr_fetch_def)
    define y where "y = x'\<lparr>ds := (ds x')\<lparr>opcode := ucast (ucast b :: u8), is_operand_size_16 := True\<rparr>\<rparr>"
    have "unat (a - seq_pc (ds y)) < unat (a - seq_pc (ds x))"
    proof -
      have "a - seq_pc (ds x) \<noteq> 0" using ne by simp
      then have "unat (a - seq_pc (ds x) - 1) < unat (a - seq_pc (ds x))"
        by (metis unat_minus_one diff_less neq0_conv unat_eq_0 zero_less_one)
      then show ?thesis by (simp add: y_def step(1) algebra_simps)
    qed
    moreover have "unmapped (mach y) a"
      using less.prems step(2) by (simp add: y_def unmapped_core [of "mach x'" "mach x"])
    ultimately obtain r where "x86_fetch_decode_exec y = Some r" using less.hyps by blast
    then show ?thesis
      using Inr p by (cases "(ucast b :: u8) = 0x66")
        (simp_all add: y_def Let_def x86_fetch_decode_exec.simps [of x])
  qed
qed

section \<open>Effective addresses\<close>

text \<open>
  The address form of the i386 manual: base register plus scaled index plus displacement, with
  the ModR/M byte, the SIB byte where \<open>R/M\<close> asks for one, and the displacement given as words.
\<close>

definition ea_base :: "u8 \<Rightarrow> u8 \<Rightarrow> nat option" where
  "ea_base m sib =
     (let b = (if modrm_RM m = 4 then sib_base sib else modrm_RM m)
      in if modrm_mod m = 0 \<and> b = 5 then None else Some b)"

definition ea_index :: "u8 \<Rightarrow> u8 \<Rightarrow> (nat \<times> nat) option" where
  "ea_index m sib =
     (if modrm_RM m = 4 \<and> sib_index sib \<noteq> 4 then Some (sib_index sib, sib_ss sib) else None)"

definition ea_disp_len :: "u8 \<Rightarrow> u8 \<Rightarrow> int" where
  "ea_disp_len m sib =
     (if modrm_mod m = 1 then 1 else if modrm_mod m = 2 then 4
      else if ea_base m sib = None then 4 else 0)"

definition effective_address :: "u8 \<Rightarrow> u8 \<Rightarrow> u32 \<Rightarrow> u32 list \<Rightarrow> u32" where
  "effective_address m sib disp regs =
     (case ea_base m sib of None \<Rightarrow> 0 | Some b \<Rightarrow> regs ! b)
     + (case ea_index m sib of None \<Rightarrow> 0 | Some (i, s) \<Rightarrow> regs ! i * 2 ^ s)
     + (if ea_disp_len m sib = 0 then 0
        else if ea_disp_len m sib = 1 then signed_take_bit 7 disp else disp)"

lemma modrm_bounds: "modrm_RM m < 8" "sib_base m < 8" "sib_index m < 8" "modrm_reg m < 8"
    "sib_ss m < 4" "modrm_mod m < 4"
proof -
  have a: "unat (v AND 7) < 8" for v :: u8
  proof -
    have "v AND 7 = take_bit 3 v" by (simp add: take_bit_eq_mask mask_eq_exp_minus_1)
    then show ?thesis using unat_take_bit_le [of 3 v] by simp
  qed
  have d: "unat (drop_bit 6 v) < 4" for v :: u8
  proof -
    have "unat v < 256" using unsigned_less [of v] by simp
    then show ?thesis by (simp add: drop_bit_eq_div unat_div)
  qed
  show "modrm_RM m < 8" "sib_base m < 8" "sib_index m < 8" "modrm_reg m < 8"
    "sib_ss m < 4" "modrm_mod m < 4"
    using a d by (simp_all add: modrm_RM_def sib_base_def sib_index_def modrm_reg_def sib_ss_def modrm_mod_def)
qed

text \<open>The bytes of the address form, read from the instruction stream at address \<open>a\<close>.\<close>

definition ea_sib_fetch :: "u8 \<Rightarrow> u32 \<Rightarrow> machine \<Rightarrow> fault + (u8 \<times> u32 \<times> machine)" where
  "ea_sib_fetch m a mm =
     (if modrm_RM m = 4 then bnd (vaddr_ifetch a 1 mm) (\<lambda>(b, mm). Inr (ucast b, a + 1, mm))
      else Inr (0, a, mm))"

definition ea_disp_fetch :: "u8 \<Rightarrow> u8 \<Rightarrow> u32 \<Rightarrow> machine \<Rightarrow> fault + (u32 \<times> u32 \<times> machine)" where
  "ea_disp_fetch m sib a mm =
     (if ea_disp_len m sib = 0 then Inr (0, a, mm)
      else bnd (vaddr_ifetch a (ea_disp_len m sib) mm) (\<lambda>(d, mm).
           Inr (d, a + word_of_int (ea_disp_len m sib), mm)))"

definition at_stream :: "ectx \<Rightarrow> u32 \<Rightarrow> machine \<Rightarrow> ectx" where
  "at_stream x a mm = x\<lparr>mach := mm, ds := (ds x)\<lparr>seq_pc := a\<rparr>\<rparr>"

lemma sext8: "(scast (ucast (d :: u32) :: u8) :: u32) = signed_take_bit 7 d"
  by (rule sign_ext_load)

lemma instr_fetch_stream:
  "instr_fetch n x =
    bnd (vaddr_ifetch (seq_pc (ds x)) n (mach x)) (\<lambda>(b, mm).
      Inr (b, at_stream x (seq_pc (ds x) + word_of_int n) mm))"
  by (cases "vaddr_ifetch (seq_pc (ds x)) n (mach x)") (auto simp: instr_fetch_def at_stream_def)

lemma at_stream_simps [simp]:
  "seq_pc (ds (at_stream x a mm)) = a" "mach (at_stream x a mm) = mm"
  "at_stream (at_stream x a mm) b mm' = at_stream x b mm'"
  "tmp_reg (ds (at_stream x a mm)) = tmp_reg (ds x)"
  "src1 (ds (at_stream x a mm)) = src1 (ds x)" "src2 (ds (at_stream x a mm)) = src2 (ds x)"
  "dest (ds (at_stream x a mm)) = dest (ds x)"
  by (simp_all add: at_stream_def)

lemma load_disp_spec:
  assumes "modrm_mod m \<noteq> 3" "ea_disp_fetch m sib (seq_pc (ds x)) (mach x) = Inr (d, a', mm')"
    and "b = (if modrm_RM m = 4 then sib_base sib else modrm_RM m)"
  shows "load_disp m (int b) x =
    Inr ((case ea_base m sib of None \<Rightarrow> -1 | Some b \<Rightarrow> int b,
          if ea_disp_len m sib = 0 then 0 else if ea_disp_len m sib = 1 then signed_take_bit 7 d else d),
         at_stream x a' mm')"
proof -
  have "modrm_mod m = 0 \<or> modrm_mod m = 1 \<or> modrm_mod m = 2"
    using assms(1) modrm_bounds(6) [of m] by linarith
  then show ?thesis
    using assms(2,3)
    by (auto simp: load_disp_def ea_disp_fetch_def ea_base_def ea_disp_len_def Let_def R_EBP_def sext8
        instr_fetch_stream bnd_simps at_stream_def split: if_splits)
qed

lemma ea_fetch_gpr:
  "ea_sib_fetch m a mm = Inr (s, a', mm') \<Longrightarrow> gpr (cpu mm') = gpr (cpu mm)"
  "ea_disp_fetch m s a mm = Inr (d, a', mm') \<Longrightarrow> gpr (cpu mm') = gpr (cpu mm)"
  by (auto simp: ea_sib_fetch_def ea_disp_fetch_def bnd_simps dest!: vaddr_ifetch_core core_cpu split: if_splits)

lemma load_addr_effective:
  assumes "modrm_mod m \<noteq> 3" "length (tmp_reg (ds x)) = 4"
    and "ea_sib_fetch m (seq_pc (ds x)) (mach x) = Inr (sib, a1, m1)" "ea_disp_fetch m sib a1 m1 = Inr (d, a2, m2)"
  shows "\<exists>y. load_addr m rm x = Inr y \<and> op_type (get_op rm y) = OP_TYPE_MEM \<and>
    rd (mbase (ds y)) y + moff (ds y) = effective_address m sib d (gpr (cpu (mach x))) \<and> mach y = m2 \<and>
    seq_pc (ds y) = a2 \<and> mbase (ds y) \<noteq> val_ptr rm \<and>
    (rm = O_dest \<longrightarrow> src1 (ds y) = src1 (ds x)) \<and> op_width (get_op rm y) = op_width (get_op rm x)"
proof -
  let ?b = "if modrm_RM m = 4 then sib_base sib else modrm_RM m"
  let ?i = "if modrm_RM m = 4 then (if sib_index sib \<noteq> R_ESP then int (sib_index sib) else -1) else -1"
  let ?s = "if modrm_RM m = 4 then sib_ss sib else 0"
  have sib: "load_sib m x = Inr ((int ?b, ?i, ?s), at_stream x a1 m1)"
    using assms(3) by (auto simp: load_sib_def ea_sib_fetch_def R_ESP_def Let_def instr_fetch_stream bnd_simps
        at_stream_def split: if_splits)
  have disp: "load_disp m (int ?b) (at_stream x a1 m1) =
    Inr ((case ea_base m sib of None \<Rightarrow> -1 | Some b \<Rightarrow> int b,
          if ea_disp_len m sib = 0 then 0 else if ea_disp_len m sib = 1 then signed_take_bit 7 d else d),
         at_stream x a2 m2)"
    using load_disp_spec [OF assms(1) _ refl, of sib "at_stream x a1 m1" d a2 m2] assms(4) by simp
  have regs: "gpr (cpu m2) = gpr (cpu (mach x))"
    using ea_fetch_gpr(1) [OF assms(3)] ea_fetch_gpr(2) [OF assms(4)] by simp
  have sh: "push_bit (unat (of_nat (sib_ss sib) AND c_shift_mask :: u32)) w = w * 2 ^ sib_ss sib" for w :: u32
    using modrm_bounds(5) [of sib] by (simp add: c_shift_amount unat_of_nat push_bit_eq_mult)
  show ?thesis
    unfolding load_addr_def sib disp bnd.simps prod.case
    using regs assms(1,2)
    by (cases rm) (auto simp: effective_address_def ea_index_def Let_def rtl_shli_def rtl_compute_imm_def rtl_add_def
        rtl_compute_reg_def c_add_def c_shl_def sh tmp_access rtl_regs rd_def wr_def R_ESP_def get_op_def upd_op_def
        val_ptr_def at_stream_def split: option.splits)
qed

section \<open>Multiplication and division\<close>

lemma gpr_mv: "rtl_mv d (GprP i) x = (if d = GprP i then x else wr d (rd (GprP i) x) x)"
  "rtl_mv (GprP i) (TmpP k) x = wr (GprP i) (rd (TmpP k) x) x"
  by (auto simp: rtl_mv_def rtl_computes c_ops tmp_access)

definition x86_ctx :: "nat \<Rightarrow> ectx \<Rightarrow> bool" where
  "x86_ctx r x \<longleftrightarrow> op_width (dest (ds x)) = 4 \<and> ddest x = GprP r \<and> r < 8 \<and>
     length (tmp_reg (ds x)) = 4 \<and> length (gpr (cpu (mach x))) = 8"

lemma mul_effect:
  assumes "x86_ctx r x"
  shows "\<exists>y. x86_exec_mul x = Inr y \<and>
    gpr (cpu (mach y)) = (gpr (cpu (mach x)))
      [R_EDX := c_mul_hi (gpr (cpu (mach x)) ! r) (gpr (cpu (mach x)) ! R_EAX),
       R_EAX := gpr (cpu (mach x)) ! r * gpr (cpu (mach x)) ! R_EAX]"
  using assms
  by (auto simp: x86_exec_mul_def x86_ctx_def rtl_lr_def rtl_sr_def x86_check_reg_index_def reg_enum Let_def
      rtl_mul_lo_def rtl_mul_hi_def rtl_compute_reg_def c_mul_lo_def rtl_regs gpr_mv rd_def wr_def set_gpr_def
      ddest_def)

lemma div_effect:
  assumes "x86_ctx r x" "r \<noteq> R_EDX"
    and "b = gpr (cpu (mach x)) ! r" "b \<noteq> 0"
    and "a = dividend64 (gpr (cpu (mach x)) ! R_EDX) (gpr (cpu (mach x)) ! R_EAX)"
  shows "\<exists>y. x86_exec_div x = Inr y \<and>
    gpr (cpu (mach y)) ! R_EAX = ucast (a div ucast b)
    \<and> gpr (cpu (mach y)) ! R_EDX = ucast (a mod ucast b)"
  using assms
  by (auto simp: x86_exec_div_def x86_division_def x86_ctx_def reg_enum Let_def
      rtl_div64_q_def rtl_div64_r_def rtl_regs gpr_mv rd_def wr_def set_gpr_def ddest_def nth_list_update)

section \<open>Stores of a register\<close>

lemma mov_G2E_decoded:
  assumes "vaddr_ifetch (seq_pc (ds x)) 1 (mach x) = Inr (b, m0)" and m: "m = (ucast b :: u8)" "modrm_mod m \<noteq> 3"
    and "op_width (src1 (ds x)) = 4" "length (tmp_reg (ds x)) = 4"
    and "ea_sib_fetch m (seq_pc (ds x) + 1) m0 = Inr (sib, a1, m1)" "ea_disp_fetch m sib a1 m1 = Inr (d, a2, m2)"
  shows "\<exists>y. x86_decode_mov_G2E x = Inr y \<and> mach y = m2 \<and> seq_pc (ds y) = a2 \<and> dsrc1 y = GprP (modrm_reg m)
    \<and> op_type (dest (ds y)) = OP_TYPE_MEM \<and> op_width (dest (ds y)) = op_width (dest (ds x))
    \<and> rd (mbase (ds y)) y + moff (ds y) = effective_address m sib d (gpr (cpu (mach x)))"
proof -
  define x1 where "x1 = (at_stream x (seq_pc (ds x) + 1) m0)\<lparr>ds := (ds (at_stream x (seq_pc (ds x) + 1) m0))
    \<lparr>ext_opcode := of_nat (modrm_reg m), src1 := (src1 (ds x))\<lparr>op_type := OP_TYPE_REG,
      reg_imm := of_nat (modrm_reg m), preg := GprP (modrm_reg m)\<rparr>\<rparr>\<rparr>"
  have x1: "seq_pc (ds x1) = seq_pc (ds x) + 1" "mach x1 = m0" "length (tmp_reg (ds x1)) = 4"
    "op_width (dest (ds x1)) = op_width (dest (ds x))" "preg (src1 (ds x1)) = GprP (modrm_reg m)"
    by (simp_all add: x1_def at_stream_def assms(5))
  have g: "gpr (cpu m0) = gpr (cpu (mach x))" using assms(1) by (auto dest!: vaddr_ifetch_core core_cpu)
  obtain y where y: "load_addr m O_dest x1 = Inr y" "op_type (dest (ds y)) = OP_TYPE_MEM"
    "rd (mbase (ds y)) y + moff (ds y) = effective_address m sib d (gpr (cpu m0))" "mach y = m2"
    "seq_pc (ds y) = a2" "mbase (ds y) \<noteq> DestValP"
    "preg (src1 (ds y)) = GprP (modrm_reg m)" "op_width (dest (ds y)) = op_width (dest (ds x))"
    using load_addr_effective [OF m(2), of x1 sib a1 m1 d a2 m2 O_dest] assms(6,7) x1
    by (auto simp: get_op_def val_ptr_def)
  have "x86_decode_mov_G2E x = Inr (upd_op O_dest (\<lambda>p. p\<lparr>preg := DestValP\<rparr>) y)"
    using y(1) assms(1,3,4) modrm_bounds(4) [of m]
    by (simp add: x86_decode_mov_G2E_def read_ModR_M_def instr_fetch_stream m(1) [symmetric] Let_def
        operand_reg_def get_op_def upd_op_def x86_check_reg_index_def val_ptr_def x1_def at_stream_def)
  then show ?thesis
    using y g by (auto simp: upd_op_def dsrc1_def rd_def split: preg.splits)
qed

lemma mov_store_effect:
  assumes "vaddr_ifetch (seq_pc (ds x)) 1 (mach x) = Inr (b, m0)" "m = (ucast b :: u8)" "modrm_mod m \<noteq> 3"
    and "\<not> is_operand_size_16 (ds x)" "length (tmp_reg (ds x)) = 4"
    and "ea_sib_fetch m (seq_pc (ds x) + 1) m0 = Inr (sib, a1, m1)" "ea_disp_fetch m sib a1 m1 = Inr (d, a2, m2)"
    and "vaddr_write (effective_address m sib d (gpr (cpu (mach x)))) (gpr (cpu (mach x)) ! modrm_reg m) 4 m2 = Inr m3"
  shows "\<exists>y. x86_table 0x89 x = Inr y \<and> mach y = m3 \<and> seq_pc (ds y) = a2"
proof -
  define x' where "x' = x86_set_width 0 x"
  have x': "seq_pc (ds x') = seq_pc (ds x)" "mach x' = mach x" "op_width (src1 (ds x')) = 4"
    "op_width (dest (ds x')) = 4" "length (tmp_reg (ds x')) = 4"
    using assms(4,5) by (simp_all add: x'_def x86_set_width_def set_op_width_def upd_op_def)
  obtain y where y: "x86_decode_mov_G2E x' = Inr y" "mach y = m2" "seq_pc (ds y) = a2"
    "dsrc1 y = GprP (modrm_reg m)" "op_type (dest (ds y)) = OP_TYPE_MEM" "op_width (dest (ds y)) = 4"
    "rd (mbase (ds y)) y + moff (ds y) = effective_address m sib d (gpr (cpu (mach x)))"
    using mov_G2E_decoded [of x' b m0 m sib a1 m1 d a2 m2] assms x' by auto
  have g: "gpr (cpu m2) = gpr (cpu (mach x))"
    using assms(1) ea_fetch_gpr(1) [OF assms(6)] ea_fetch_gpr(2) [OF assms(7)]
    by (auto dest!: vaddr_ifetch_core core_cpu)
  show ?thesis
    using y g assms(8)
    by (simp add: x86_table_def x86_IDEXW_def x'_def [symmetric] x86_exec_mov_def operand_write_def get_op_def
        rtl_sm_def rd_def [of "GprP _"] Let_def)
qed

section \<open>Double-word arithmetic\<close>

lemma uint_dividend64: "uint (dividend64 hi lo) = uint hi * 2 ^ 32 + uint lo"
proof -
  have "uint (dividend64 hi lo) = concat_bit 32 (uint lo) (uint hi)"
    by (rule bit_eqI)
      (auto simp: dividend64_def bit_concat_bit_iff bit_uint_iff bit_simps dest: bit_imp_le_length)
  then show ?thesis using uint_lt2p [of lo]
    by (simp add: concat_bit_eq push_bit_eq_mult take_bit_int_eq_self)
qed

lemma small_quotient: "p \<le> (2 ^ 32 - 1) * (2 ^ 32 - 1) \<Longrightarrow> p div 2 ^ 32 < (2 ^ 32 :: int)"
  by simp

lemma quotient_less:
  assumes "(D :: int) < b * q" "0 < b"
  shows "D div b < q"
proof -
  have "b * (D div b) \<le> D" using assms(2) by (simp add: minus_mod_eq_mult_div [symmetric])
  then have "b * (D div b) < b * q" using assms(1) by linarith
  then show ?thesis using assms(2) by (simp add: mult_less_cancel_left)
qed

lemma mul_hi_lo: "uint (c_mul_hi a b) * 2 ^ 32 + uint (a * b) = uint a * uint b"
proof -
  have "uint a * uint b \<le> (2 ^ 32 - 1) * (2 ^ 32 - 1)"
    using uint_lt2p [of a] uint_lt2p [of b] by (intro mult_mono) auto
  then have "(uint a * uint b) div 2 ^ 32 < 2 ^ 32" by (rule small_quotient)
  then have "uint (c_mul_hi a b) = uint a * uint b div 2 ^ 32"
    unfolding c_mul_hi_alu rv_alu_op.simps uint_word_of_int
    by (intro mod_pos_pos_trivial) (simp_all add: div_int_pos_iff)
  moreover have "uint (a * b) = uint a * uint b mod 2 ^ 32" by (simp add: uint_word_ariths)
  ultimately show ?thesis by simp
qed

lemma uint_low: "0 \<le> uint w \<Longrightarrow> uint w < 2 ^ 32 \<Longrightarrow> uint (ucast (w :: u64) :: u32) = uint w"
  unfolding ucast_eq uint_word_of_int by (intro mod_pos_pos_trivial) simp_all

lemma div_mod_64:
  assumes "uint hi < uint (b :: u32)"
  shows "uint (ucast (dividend64 hi lo div ucast b) :: u32) * uint b
      + uint (ucast (dividend64 hi lo mod ucast b) :: u32) = uint hi * 2 ^ 32 + uint lo
    \<and> uint (ucast (dividend64 hi lo mod ucast b) :: u32) < uint b"
proof -
  define D where "D = dividend64 hi lo"
  have b: "uint b > 0" using assms uint_ge_0 [of hi] by linarith
  have "uint D < uint b * 2 ^ 32"
    using assms uint_lt2p [of lo] by (simp add: D_def uint_dividend64)
  then have q: "uint D div uint b < 2 ^ 32" using b by (rule quotient_less)
  have r: "uint D mod uint b < uint b" using b by simp
  have ub: "uint (ucast b :: u64) = uint b" by (simp add: uint_up_ucast is_up)
  have "uint (ucast (D div ucast b) :: u32) = uint D div uint b"
    using q by (subst uint_low) (simp_all add: uint_div ub div_int_pos_iff)
  moreover have "uint (ucast (D mod ucast b) :: u32) = uint D mod uint b"
    using r order.strict_trans [OF r uint_lt2p [of b]] b by (subst uint_low) (simp_all add: uint_mod ub)
  ultimately show ?thesis using r
    unfolding D_def [symmetric] by (simp add: D_def uint_dividend64)
qed

section \<open>One-operand signed multiplication\<close>

text \<open>
  On 8-bit operands the helper multiplies the zero-extended values: the product is the unsigned
  one, so \<open>AL = -1\<close> times 1 leaves \<open>0x00ff\<close> in \<open>AX\<close>.
\<close>

lemma imul1_byte_unsigned:
  assumes "op_width (dest (ds x)) = 1" "ddest x = DestValP" "length (tmp_reg (ds x)) = 4"
    "length (gpr (cpu (mach x))) = 8"
  shows "\<exists>y. x86_exec_imul1 x = Inr y \<and>
    reg_w R_EAX (mach y) = take_bit 16 (op_val (dest (ds x)) * reg_b R_AL (mach x))"
proof -
  have "c_imul_lo a b = a * b" for a b
    by (simp add: c_imul_lo_def)
  then show ?thesis
    using assms reg_w_put_w(1) [of 0 "mach x"]
    by (auto simp: x86_exec_imul1_def rtl_lr_def rtl_sr_def x86_check_reg_index_def reg_enum rtl_imul_lo_def
        rtl_compute_reg_def rtl_regs tmp_access rd_def wr_def reg_w_put_w)
qed

section \<open>Concrete states\<close>

definition x86_at :: "u8 list \<Rightarrow> u32 list \<Rightarrow> ectx" where
  "x86_at code regs =
     \<lparr>ds = blank_ds\<lparr>seq_pc := 0x100000\<rparr>,
      mach = (static_start X86 quiet_host)
        \<lparr>cpu := \<lparr>gpr = regs, pc = 0x100000\<rparr>,
         pmem := (\<lambda>i. if 0x100000 \<le> i \<and> i < 0x100000 + length code then code ! (i - 0x100000) else 0)\<rparr>\<rparr>"

lemmas x86_eval = x86_at_def static_start_def in_pmem_def pmem_index_def pmem_read_def PMEM_BASE_def
  PMEM_SIZE_def get_n_def get32_def get16_def

section \<open>Properties\<close>

text \<open>
  C8. The ModR/M and SIB decoder computes the i386 effective address: for any bytes the
  instruction stream delivers, the operand \<open>load_addr\<close> leaves behind has base plus offset equal
  to base register + index register * scale + sign-extended displacement, with the manual's
  exceptions (no base for mod 0 with base 5, no index for index 4).
\<close>

theorem x86_load_addr_correct:
  assumes "modrm_mod m \<noteq> 3" "length (tmp_reg (ds x)) = 4"
    and "ea_sib_fetch m (seq_pc (ds x)) (mach x) = Inr (sib, a1, m1)"
    and "ea_disp_fetch m sib a1 m1 = Inr (d, a2, m2)"
  shows "\<exists>y. load_addr m rm x = Inr y \<and> op_type (get_op rm y) = OP_TYPE_MEM \<and>
    rd (mbase (ds y)) y + moff (ds y) = effective_address m sib d (gpr (cpu (mach x))) \<and>
    mach y = m2 \<and> seq_pc (ds y) = a2"
  using load_addr_effective [OF assms] by blast

text \<open>The witness is \<open>-0x2000(%ecx,%ebx,4)\<close> of the built-in image.\<close>

lemma image_operand_fetch:
  "ea_sib_fetch 0x84 0x100000 (mach (x86_at [0x99, 0x00, 0xe0, 0xff, 0xff] regs)) =
     Inr (0x99, 0x100001, mach (x86_at [0x99, 0x00, 0xe0, 0xff, 0xff] regs))"
  "ea_disp_fetch 0x84 0x99 0x100001 (mach (x86_at [0x99, 0x00, 0xe0, 0xff, 0xff] regs)) =
     Inr (0xffffe000, 0x100005, mach (x86_at [0x99, 0x00, 0xe0, 0xff, 0xff] regs))"
  by (simp_all add: ea_sib_fetch_def ea_disp_fetch_def modrm_RM_def ea_disp_len_def modrm_mod_def
      vaddr_ifetch_pmem x86_eval)

theorem x86_load_addr_correct_witness:
  "\<exists>y. load_addr 0x84 O_dest (x86_at [0x99, 0x00, 0xe0, 0xff, 0xff] [0, 0x100027, 0, 2, 0, 0, 0, 0]) = Inr y \<and>
     rd (mbase (ds y)) y + moff (ds y) = 0xfe02f"
proof -
  let ?x = "x86_at [0x99, 0x00, 0xe0, 0xff, 0xff] [0, 0x100027, 0, 2, 0, 0, 0, 0]"
  have pc: "seq_pc (ds ?x) = 0x100000" "length (tmp_reg (ds ?x)) = 4" "modrm_mod 0x84 \<noteq> 3"
    by (simp_all add: x86_at_def blank_ds_def modrm_mod_def)
  from x86_load_addr_correct [OF pc(3,2) image_operand_fetch(1) [folded pc(1)] image_operand_fetch(2)]
  obtain y where "load_addr 0x84 O_dest ?x = Inr y"
    "rd (mbase (ds y)) y + moff (ds y) = effective_address 0x84 0x99 0xffffe000 (gpr (cpu (mach ?x)))"
    by blast
  then show ?thesis
    by (simp add: x86_at_def effective_address_def ea_base_def ea_index_def ea_disp_len_def modrm_RM_def
        modrm_mod_def sib_base_def sib_index_def sib_ss_def)
qed

text \<open>
  \<open>mov r32 \<rightarrow> r/m32\<close> with a memory operand (opcode \<open>0x89\<close>) stores the register the ModR/M byte
  names, four bytes, at the effective address, and \<open>seq_pc\<close> ends behind the last byte of the
  instruction.
\<close>

theorem x86_mov_store:
  assumes "vaddr_ifetch (seq_pc (ds x)) 1 (mach x) = Inr (b, m0)" "m = (ucast b :: u8)" "modrm_mod m \<noteq> 3"
    and "\<not> is_operand_size_16 (ds x)" "length (tmp_reg (ds x)) = 4"
    and "ea_sib_fetch m (seq_pc (ds x) + 1) m0 = Inr (sib, a1, m1)"
    and "ea_disp_fetch m sib a1 m1 = Inr (d, a2, m2)"
    and "vaddr_write (effective_address m sib d (gpr (cpu (mach x)))) (gpr (cpu (mach x)) ! modrm_reg m) 4 m2
      = Inr m3"
  shows "\<exists>y. x86_table 0x89 x = Inr y \<and> mach y = m3 \<and> seq_pc (ds y) = a2"
  using assms by (rule mov_store_effect)

text \<open>The witness is \<open>movl %eax,(%ecx)\<close> of the built-in image: ModR/M byte 1.\<close>

theorem x86_mov_store_witness:
  "\<exists>y. x86_table 0x89 (x86_at [0x01] [0x1234, 0x100027, 0, 0, 0, 0, 0, 0]) = Inr y \<and>
     get32 (pmem (mach y)) 0x100027 = 0x1234"
proof -
  let ?x = "x86_at [0x01] [0x1234, 0x100027, 0, 0, 0, 0, 0, 0]"
  let ?m3 = "(mach ?x)\<lparr>pmem := put32 (pmem (mach ?x)) 0x100027 0x1234\<rparr>"
  have f: "vaddr_ifetch (seq_pc (ds ?x)) 1 (mach ?x) = Inr (1, mach ?x)"
    by (simp add: vaddr_ifetch_pmem x86_eval)
  have e: "effective_address 1 0 0 (gpr (cpu (mach ?x))) = 0x100027" "gpr (cpu (mach ?x)) ! modrm_reg 1 = 0x1234"
    "modrm_mod 1 \<noteq> 3"
    by (simp_all add: x86_at_def effective_address_def ea_base_def ea_index_def ea_disp_len_def modrm_RM_def
        modrm_mod_def modrm_reg_def)
  have d: "ea_sib_fetch 1 a (mach ?x) = Inr (0, a, mach ?x)" "ea_disp_fetch 1 0 a (mach ?x) = Inr (0, a, mach ?x)"
    for a
    by (simp_all add: ea_sib_fetch_def ea_disp_fetch_def ea_disp_len_def ea_base_def modrm_RM_def modrm_mod_def)
  have "vaddr_write 0x100027 0x1234 4 (mach ?x) = Inr ?m3"
    by (simp add: vaddr_write_pmem pmem_write_def put_n_def x86_eval)
  then obtain y where "x86_table 0x89 ?x = Inr y" "mach y = ?m3"
    using x86_mov_store [OF f _ e(3) _ _ d(1) d(2), of ?m3] e
    by (auto simp: x86_at_def blank_ds_def)
  then show ?thesis by simp
qed

text \<open>
  The operand-size prefix loop always ends when some address is neither guest memory nor a
  mapped device: whatever bytes memory holds, \<open>fetch_decode_exec\<close> returns.
\<close>

theorem x86_prefix_loop_terminates:
  assumes "unmapped (mach x) a"
  shows "\<exists>r. x86_fetch_decode_exec x = Some r"
  using assms by (rule x86_loop_ends)

theorem x86_prefix_loop_terminates_witness:
  "\<exists>r. x86_fetch_decode_exec (x86_at [0x66, 0x66] (replicate 8 0)) = Some r"
proof -
  have "unmapped (mach (x86_at [0x66, 0x66] (replicate 8 0))) 0x20000000"
    by (simp add: unmapped_def x86_eval fetch_mmio_map_def find_mapid_by_addr_def)
  then show ?thesis by (rule x86_prefix_loop_terminates)
qed

text \<open>
  The start-up self-test of the register file never fails: the 32-, 16- and 8-bit views of
  the eight registers alias the way the i386 encoding says.
\<close>

theorem x86_reg_test_passes:
  assumes "length sample = 8" "length (gpr (cpu m)) = 8"
  shows "\<exists>m'. reg_test sample pc_sample m = Inr m' \<and> gpr (cpu m') = sample \<and> pc (cpu m') = pc_sample"
  using reg_test_ok [OF assms] by blast

theorem x86_reg_test_passes_witness:
  "\<exists>m'. reg_test [1, 2, 3, 0xdeadbeef, 5, 6, 7, 8] 9 (static_start X86 quiet_host) = Inr m' \<and>
     gpr (cpu m') ! 3 = 0xdeadbeef"
  using x86_reg_test_passes [of "[1, 2, 3, 0xdeadbeef, 5, 6, 7, 8]" "static_start X86 quiet_host" 9]
  by (auto simp: static_start_def NR_GPR_def)



end
