(* ===== verification/RiscvProps.thy ===== *)
theory RiscvProps
  imports RiscvRefine
begin

text \<open>
  The properties of the riscv32 interpreter, over \<open>isa_exec_once\<close>: what one step does for an
  instruction of the specification, for the one instruction that is wrong, and for a word that
  is no instruction; the invariant of the register file; independence of the uninitialised
  stack frame.
\<close>

definition div_regs :: "u32 list" where
  "div_regs = (replicate 32 0)[10 := -7, 11 := 2]"

text \<open>The words \<open>div a0,a0,a1\<close>, \<open>mulhsu a0,a0,a1\<close> and a branch with \<open>funct3 = 2\<close>.\<close>

lemma decode_samples:
  "rv_decode 0x02b54533 = Some (I_op A_div 10 10 11)"
  "rv_decode 0x02b52533 = Some (I_op A_mulhsu 10 10 11)"
  "rv_decode 0x00002063 = None"
  by (simp_all add: rv_decode_def bf_def dec_op_def dec_branch_def reg_rd_def reg_rs1_def reg_rs2_def)

lemmas booted_eval = booted_def static_start_def div_regs_def PMEM_BASE_def IMAGE_START_def
  rv_goto_def rv_put_def rv_get_def set_gpr_def rv_pc_def

lemma div_regs_wf: "rv_wf (booted Riscv32 w div_regs)"
  by (rule booted_wf) (simp_all add: div_regs_def)

lemma fetched_wf:
  assumes "rv_wf m" "vaddr_ifetch (pc (cpu m)) 4 m = Inr (v, m1)"
  shows "rv_wf m1"
  using assms by (metis vaddr_ifetch_core core_cpu cpu_eq_wf)

lemma decode_mulhsu:
  assumes "rv_decode v = Some (I_op A_mulhsu d a b)"
  shows "opcode1_0 v = 3 \<and> opcode6_2 v = 0b01100 \<and> dec_op (bf 12 3 v) (bf 25 7 v) = Some A_mulhsu
    \<and> d = reg_rd v \<and> a = reg_rs1 v \<and> b = reg_rs2 v"
  using assms unfolding rv_decode_def Let_def
  by (auto split: if_splits dest!: opcode_of)

lemma exec_once_mulhsu:
  assumes "rv_wf m" "junk_ok junk" "vaddr_ifetch (pc (cpu m)) 4 m = Inr (v, m1)"
    and "rv_decode v = Some (I_op A_mulhsu d a b)"
  shows "isa_exec_once junk m =
    Inr (pc (cpu m1) + 4, rv_goto (rv_pc m1 + 4)
      (rv_put d (mulhsu_computed (rv_get a m1) (rv_get b m1)) m1))"
  using decode_mulhsu [OF assms(4)] step_mulhsu [OF fetched_wf [OF assms(1,3)] assms(2)]
    exec_once_fetch [OF assms(3)] by simp

section \<open>Preservation of the register file\<close>

lemma rv_put_wf [intro]: "rv_wf m \<Longrightarrow> rv_wf (rv_put r v m)"
  by (simp add: rv_wf_def rv_put_def set_gpr_def)

lemma rv_goto_wf [intro]: "rv_wf m \<Longrightarrow> rv_wf (rv_goto a m)"
  by (simp add: rv_wf_def rv_goto_def)

lemma state_wf [intro]: "rv_wf m \<Longrightarrow> rv_wf (m\<lparr>nemu_state := n\<rparr>)"
  by (simp add: rv_wf_def)

lemma vaddr_read_wf: "vaddr_read a n m = Inr (v, m') \<Longrightarrow> rv_wf m \<Longrightarrow> rv_wf m'"
  by (metis vaddr_read_core core_cpu cpu_eq_wf)

lemma vaddr_write_wf: "vaddr_write a d n m = Inr m' \<Longrightarrow> rv_wf m \<Longrightarrow> rv_wf m'"
  by (metis vaddr_write_cpu cpu_eq_wf)

lemma rv_exec_wf: "rv_wf m \<Longrightarrow> rv_exec i m = Inr m' \<Longrightarrow> rv_wf m'"
  by (cases i) (auto simp: bnd_simps simp del: rv_alu_op.simps load_ext.simps
      dest: vaddr_read_wf vaddr_write_wf)

lemma rv_abort_wf:
  assumes "rv_wf m" "rv_abort m = Inr (s, m')"
  shows "rv_wf m'"
proof -
  obtain w1 m1 w2 m2 where "vaddr_ifetch (rv_pc m) 4 m = Inr (w1, m1)"
    "vaddr_ifetch (rv_pc m + 4) 4 m1 = Inr (w2, m2)"
    "\<exists>n. m' = rv_goto (rv_pc m + 8) (m2\<lparr>nemu_state := n\<rparr>)"
    using assms(2) by (auto simp: rv_abort_def bnd_simps) blast
  then show ?thesis using assms(1)
    by (metis vaddr_ifetch_core core_cpu cpu_eq_wf rv_goto_wf state_wf)
qed

lemma rv_illegal_wf: "rv_wf m \<Longrightarrow> rv_illegal v m = Inr (s, m') \<Longrightarrow> rv_wf m'"
  by (auto simp: rv_illegal_def dest: rv_abort_wf split: if_splits)

text \<open>Every step is one of the four cases the properties below rest on.\<close>

lemma exec_once_cases:
  assumes "rv_wf m" "junk_ok junk"
  obtains (fault) e where "vaddr_ifetch (pc (cpu m)) 4 m = Inl e" "isa_exec_once junk m = Inl e"
  | (legal) v m1 i where "vaddr_ifetch (pc (cpu m)) 4 m = Inr (v, m1)"
      "rv_decode v = Some i" "\<not> is_mulhsu i" "isa_exec_once junk m = step_result i m1"
  | (mulhsu) v m1 d a b where "vaddr_ifetch (pc (cpu m)) 4 m = Inr (v, m1)"
      "rv_decode v = Some (I_op A_mulhsu d a b)"
      "isa_exec_once junk m = Inr (pc (cpu m1) + 4, rv_goto (rv_pc m1 + 4)
        (rv_put d (mulhsu_computed (rv_get a m1) (rv_get b m1)) m1))"
  | (illegal) v m1 where "vaddr_ifetch (pc (cpu m)) 4 m = Inr (v, m1)"
      "rv_decode v = None" "isa_exec_once junk m = rv_illegal v m1"
proof (cases "vaddr_ifetch (pc (cpu m)) 4 m")
  case (Inl e)
  then show thesis using that(1) exec_once_fetch_fault by blast
next
  case (Inr p)
  obtain v m1 where f: "vaddr_ifetch (pc (cpu m)) 4 m = Inr (v, m1)" using Inr by (cases p) auto
  show thesis
  proof (cases "rv_decode v")
    case None
    then show thesis using that(4) f exec_once_illegal [OF assms(1) f] by blast
  next
    case (Some i)
    show thesis
    proof (cases "is_mulhsu i")
      case True
      then obtain d a b where "i = I_op A_mulhsu d a b" by (auto simp: is_mulhsu_def split: rv_instr.splits)
      then show thesis using that(3) f Some exec_once_mulhsu [OF assms f] by blast
    next
      case False
      then show thesis using that(2) f Some exec_once_legal [OF assms f Some] by blast
    qed
  qed
qed

section \<open>Properties\<close>

text \<open>
  C1. One step of the interpreter implements the RV32IM specification: whatever word the fetch
  delivers, if it decodes to an instruction other than \<open>mulhsu\<close>, \<open>isa_exec_once\<close> does to the
  machine exactly what the specification says, and dies exactly when the access it makes dies.
\<close>

theorem riscv32_step_refines:
  assumes "rv_wf m" "junk_ok junk"
    and "vaddr_ifetch (pc (cpu m)) 4 m = Inr (v, m1)"
    and "rv_decode v = Some i" "\<not> is_mulhsu i"
  shows "isa_exec_once junk m = bnd (rv_exec i m1) (\<lambda>m'. Inr (pc (cpu m1) + 4, m'))"
  using exec_once_legal [OF assms] by (simp add: step_result_def)

theorem riscv32_step_refines_witness:
  "\<exists>m'. isa_exec_once blank_ds (booted Riscv32 0x02b54533 div_regs) = Inr (0x80100004, m')
     \<and> gpr (cpu m') ! 10 = -3 \<and> pc (cpu m') = 0x80100004"
  using riscv32_step_refines [OF div_regs_wf junk_ok_blank ifetch_booted decode_samples(1)]
  by (simp add: booted_eval signed_divide_int_def)

text \<open>
  The interpreter's \<open>mulhsu\<close> is right exactly when the second operand is 0, or is 1 with a
  non-negative first operand: the helper adds the correction for a negative first operand
  unconditionally, and adds one too little of it.
\<close>

theorem riscv32_mulhsu_right_iff:
  assumes "rv_wf m" "junk_ok junk" "vaddr_ifetch (pc (cpu m)) 4 m = Inr (v, m1)"
    and "rv_decode v = Some (I_op A_mulhsu d a b)" "d \<noteq> 0"
  shows "isa_exec_once junk m = bnd (rv_exec (I_op A_mulhsu d a b) m1) (\<lambda>m'. Inr (pc (cpu m1) + 4, m'))
    \<longleftrightarrow> rv_get b m1 = 0 \<or> (rv_get b m1 = 1 \<and> 0 \<le> sint (rv_get a m1))"
proof -
  have "d < 32" using decode_mulhsu [OF assms(4)] by (simp add: reg_rd_def)
  moreover have "length (gpr (cpu m1)) = 32" using fetched_wf [OF assms(1,3)] by (simp add: rv_wf_def)
  ultimately have "gpr (cpu (rv_goto p (rv_put d x m1))) ! d = x" for p x
    using assms(5) by (simp add: rv_goto_def rv_put_def set_gpr_def)
  then have "rv_goto p (rv_put d x m1) = rv_goto p (rv_put d y m1) \<longleftrightarrow> x = y" for p x y
    by metis
  then show ?thesis
    using exec_once_mulhsu [OF assms(1-4)] by (simp add: mulhsu_computed_iff del: rv_alu_op.simps)
qed

text \<open>The witness multiplies \<open>-7\<close> and \<open>2\<close>: the step is not the specified one.\<close>

theorem riscv32_mulhsu_right_iff_witness:
  "isa_exec_once blank_ds (booted Riscv32 0x02b52533 div_regs) \<noteq>
     bnd (rv_exec (I_op A_mulhsu 10 10 11) (booted Riscv32 0x02b52533 div_regs))
       (\<lambda>m'. Inr (0x80100004, m'))"
  using riscv32_mulhsu_right_iff [OF div_regs_wf junk_ok_blank ifetch_booted decode_samples(2)]
  by (simp add: booted_eval del: rv_alu_op.simps rv_exec.simps)

text \<open>
  C34. A word that decodes to no instruction never executes as one: the run stops in state
  \<open>NEMU_ABORT\<close> at the current \<open>pc\<close>, or an assertion fails, except that a branch whose \<open>funct3\<close>
  is unassigned silently does nothing.
\<close>

theorem riscv32_step_illegal:
  assumes "rv_wf m" "vaddr_ifetch (pc (cpu m)) 4 m = Inr (v, m1)" "rv_decode v = None"
  shows "isa_exec_once junk m = rv_illegal v m1"
  by (rule exec_once_illegal [OF assms])

theorem riscv32_step_illegal_witness:
  "\<exists>m'. isa_exec_once blank_ds (booted Riscv32 0x00002063 div_regs) = Inr (0x80100004, m')
     \<and> gpr (cpu m') = div_regs \<and> status (nemu_state m') = NEMU_STOP"
  using riscv32_step_illegal [OF div_regs_wf ifetch_booted decode_samples(3), of blank_ds]
  by (simp add: rv_illegal_def bf_def rv_known_opcodes_def booted_eval)

text \<open>
  C37. The register file stays well-formed: after any step that returns, of any instruction word,
  legal or not, there are 32 registers and register 0 reads 0.
\<close>

theorem riscv32_step_keeps_x0:
  assumes "rv_wf m" "junk_ok junk" "isa_exec_once junk m = Inr (s, m')"
  shows "length (gpr (cpu m')) = 32 \<and> gpr (cpu m') ! 0 = 0"
proof -
  have "rv_wf m'"
    using assms(1,2)
  proof (cases rule: exec_once_cases)
    case (fault e)
    then show ?thesis using assms(3) by simp
  next
    case (legal v m1 i)
    then have "step_result i m1 = Inr (s, m')" using assms(3) by simp
    then show ?thesis using fetched_wf [OF assms(1) legal(1)]
      by (auto simp: step_result_def bnd_simps intro: rv_exec_wf)
  next
    case (mulhsu v m1 d a b)
    then show ?thesis using assms(3) fetched_wf [OF assms(1) mulhsu(1)] by auto
  next
    case (illegal v m1)
    then have "rv_illegal v m1 = Inr (s, m')" using assms(3) by simp
    then show ?thesis using fetched_wf [OF assms(1) illegal(1)] by (blast intro: rv_illegal_wf)
  qed
  then show ?thesis by (simp add: rv_wf_def)
qed

text \<open>The witness is \<open>addi x0,x0,5\<close>.\<close>

theorem riscv32_step_keeps_x0_witness:
  "\<exists>s m'. isa_exec_once blank_ds (booted Riscv32 0x00500013 div_regs) = Inr (s, m')
     \<and> length (gpr (cpu m')) = 32 \<and> gpr (cpu m') ! 0 = 0"
proof -
  have d: "rv_decode 0x00500013 = Some (I_op_imm A_add 0 0 (imm_I 0x00500013))"
    by (simp add: rv_decode_def bf_def dec_op_imm_def reg_rd_def reg_rs1_def)
  obtain s m' where "isa_exec_once blank_ds (booted Riscv32 0x00500013 div_regs) = Inr (s, m')"
    using exec_once_legal [OF div_regs_wf junk_ok_blank ifetch_booted d] by (simp add: step_result_def)
  then show ?thesis
    using riscv32_step_keeps_x0 [OF div_regs_wf junk_ok_blank] by blast
qed

text \<open>
  The step does not depend on the uninitialised fields of the stack-allocated
  \<open>DecodeExecState\<close>: any two stack contents give the same result, for every instruction word.
\<close>

theorem riscv32_step_no_uninitialised_read:
  assumes "rv_wf m" "junk_ok junk" "junk_ok junk'"
  shows "isa_exec_once junk m = isa_exec_once junk' m"
  using assms(1,2)
proof (cases rule: exec_once_cases)
  case (fault e)
  then show ?thesis by (simp add: exec_once_fetch_fault)
next
  case (legal v m1 i)
  then show ?thesis using exec_once_legal [OF assms(1,3) legal(1-3)] by simp
next
  case (mulhsu v m1 d a b)
  then show ?thesis using exec_once_mulhsu [OF assms(1,3) mulhsu(1,2)] by simp
next
  case (illegal v m1)
  then show ?thesis using exec_once_illegal [OF assms(1) illegal(1,2)] by simp
qed

theorem riscv32_step_no_uninitialised_read_witness:
  "isa_exec_once blank_ds (booted Riscv32 0x02b54533 div_regs) =
   isa_exec_once (blank_ds\<lparr>tmp_reg := [1, 2, 3, 4], width := 9\<rparr>) (booted Riscv32 0x02b54533 div_regs)"
  by (rule riscv32_step_no_uninitialised_read [OF div_regs_wf]) (simp_all add: junk_ok_def blank_ds_def)

end
