(* ===== verification/CpuExec.thy ===== *)
theory CpuExec
  imports Mips32 X86 RiscvProps
begin

text \<open>
  The execution engine: \<open>cpu_exec\<close> and the exit status of \<open>nemu/src/monitor/cpu-exec.c\<close>, as the
  default build compiles it (\<open>HAS_IOE\<close> on, \<open>DEBUG\<close> and \<open>DIFF_TEST\<close> off).

  The engine calls \<open>isa_exec_once\<close> through the interface \<open>isa_step\<close>, a locale whose laws say what
  a step must keep; the three ISAs are its interpretations. \<open>None\<close> stands for a step that never
  returns, as the x86 prefix loop can.

  The host acts between two instructions: \<open>host_tick\<close> delivers alarm signals, queues SDL events
  and lets time pass. One \<open>tick\<close> per instruction is the schedule \<open>ticks\<close>.
\<close>

section \<open>The host between two instructions\<close>

record tick =
  tk_alarms :: nat
  tk_events :: "SDL_Event list"
  tk_now :: "u32 \<times> u32"

definition host_tick :: "tick \<Rightarrow> machine \<Rightarrow> machine" where
  "host_tick t m =
     (let m = (alarm_sig_handler ^^ tk_alarms t) m
      in m\<lparr>hst := (hst m)\<lparr>sdl_events := sdl_events (hst m) @ tk_events t, host_now := tk_now t\<rparr>\<rparr>)"

section \<open>The loop of cpu\_exec\<close>

type_synonym exec_once = "machine \<Rightarrow> (fault + (u32 \<times> machine)) option"

definition after_step :: "machine \<Rightarrow> fault + machine" where
  "after_step m =
     (let m = m\<lparr>g_nr_guest_instr := g_nr_guest_instr m + 1\<rparr>
      in device_update m)"

fun cpu_loop :: "exec_once \<Rightarrow> (nat \<Rightarrow> tick) \<Rightarrow> nat \<Rightarrow> machine \<Rightarrow> (fault + machine) option" where
  "cpu_loop ex ticks 0 m = Some (Inr m)"
| "cpu_loop ex ticks (Suc n) m =
     (case ex (host_tick (ticks 0) m) of
        None \<Rightarrow> None
      | Some (Inl e) \<Rightarrow> Some (Inl e)
      | Some (Inr (_, m1)) \<Rightarrow>
          (case after_step m1 of
             Inl e \<Rightarrow> Some (Inl e)
           | Inr m2 \<Rightarrow>
               (if status (nemu_state m2) \<noteq> NEMU_RUNNING then Some (Inr m2)
                else cpu_loop ex (\<lambda>i. ticks (Suc i)) n m2)))"

definition set_status :: "nemu_status \<Rightarrow> machine \<Rightarrow> machine" where
  "set_status s m = m\<lparr>nemu_state := (nemu_state m)\<lparr>status := s\<rparr>\<rparr>"

definition cpu_exec :: "exec_once \<Rightarrow> (nat \<Rightarrow> tick) \<Rightarrow> u64 \<Rightarrow> machine \<Rightarrow> (fault + machine) option" where
  "cpu_exec ex ticks n m =
     (case status (nemu_state m) of
        NEMU_END \<Rightarrow> Some (Inr m)
      | NEMU_ABORT \<Rightarrow> Some (Inr m)
      | _ \<Rightarrow>
          map_option (\<lambda>r. bnd r (\<lambda>m.
            Inr (if status (nemu_state m) = NEMU_RUNNING then set_status NEMU_STOP m else m)))
            (cpu_loop ex ticks (unat n) (set_status NEMU_RUNNING m)))"

definition is_exit_status_bad :: "machine \<Rightarrow> bool" where
  "is_exit_status_bad m =
     (let st = nemu_state m
      in \<not> ((status st = NEMU_END \<and> halt_ret st = 0) \<or> status st = NEMU_QUIT))"

text \<open>\<open>get_time\<close>: milliseconds from seconds and microseconds, in 32-bit arithmetic.\<close>

definition get_time :: "u32 \<Rightarrow> u32 \<Rightarrow> u64" where
  "get_time useconds seconds = ucast (seconds * 1000 + (useconds + 500) div 1000)"

definition LOG_START :: u64 where "LOG_START = 0"
definition LOG_END :: u64 where "LOG_END = 1024 * 1024 * 50"

definition log_enable :: "machine \<Rightarrow> bool" where
  "log_enable m \<longleftrightarrow> g_nr_guest_instr m \<ge> LOG_START \<and> g_nr_guest_instr m \<le> LOG_END"

section \<open>What the devices leave alone\<close>

text \<open>
  The fields the engine's own code never writes: the guest CPU, guest memory, the build, the maps.
  \<open>guest\<close> is \<open>core\<close> without the run state.
\<close>

definition guest ::
    "machine \<Rightarrow> ISA \<times> CPU_state \<times> bytes \<times> dev_bases \<times> IOMap list \<times> IOMap list" where
  "guest m = (isa m, cpu m, pmem m, bases m, mmio_maps (bus m), pio_maps (bus m))"

lemma guest_updates [simp]:
  "guest (m\<lparr>hst := h\<rparr>) = guest m"
  "guest (m\<lparr>kbd := k\<rparr>) = guest m"
  "guest (m\<lparr>alrm := al\<rparr>) = guest m"
  "guest (m\<lparr>nemu_state := n\<rparr>) = guest m"
  "guest (m\<lparr>g_nr_guest_instr := g\<rparr>) = guest m"
  "guest (reg_put b i v m) = guest m"
  by (simp_all add: guest_def)

lemma guest_core: "core m' = core m \<Longrightarrow> guest m' = guest m"
  by (simp add: core_def guest_def)

lemma guest_set_status [simp]: "guest (set_status s m) = guest m"
  by (simp add: set_status_def)

lemma run_alarm_frame [simp]:
  "guest (run_alarm_handler h m) = guest m" "nemu_state (run_alarm_handler h m) = nemu_state m"
  "sdl_events (hst (run_alarm_handler h m)) = sdl_events (hst m)"
  "g_nr_guest_instr (run_alarm_handler h m) = g_nr_guest_instr m"
  by (cases h; simp add: timer_intr_def dev_raise_intr_def set_device_update_flag_def)+

lemma fold_alarm_frame [simp]:
  "guest (fold run_alarm_handler hs m) = guest m"
  "nemu_state (fold run_alarm_handler hs m) = nemu_state m"
  "sdl_events (hst (fold run_alarm_handler hs m)) = sdl_events (hst m)"
  "g_nr_guest_instr (fold run_alarm_handler hs m) = g_nr_guest_instr m"
  by (induction hs arbitrary: m) simp_all

lemma alarm_frame [simp]:
  "guest (alarm_sig_handler m) = guest m" "nemu_state (alarm_sig_handler m) = nemu_state m"
  "sdl_events (hst (alarm_sig_handler m)) = sdl_events (hst m)"
  "g_nr_guest_instr (alarm_sig_handler m) = g_nr_guest_instr m"
  by (simp_all add: alarm_sig_handler_def Let_def)

lemma alarms_frame [simp]:
  "guest ((alarm_sig_handler ^^ k) m) = guest m"
  "nemu_state ((alarm_sig_handler ^^ k) m) = nemu_state m"
  "sdl_events (hst ((alarm_sig_handler ^^ k) m)) = sdl_events (hst m)"
  "g_nr_guest_instr ((alarm_sig_handler ^^ k) m) = g_nr_guest_instr m"
  by (induction k) simp_all

lemma host_tick_frame [simp]:
  "guest (host_tick t m) = guest m" "nemu_state (host_tick t m) = nemu_state m"
  "g_nr_guest_instr (host_tick t m) = g_nr_guest_instr m"
  "sdl_events (hst (host_tick t m)) = sdl_events (hst m) @ tk_events t"
  by (simp_all add: host_tick_def Let_def)

lemma send_key_frame:
  "send_key c d m = Inr m' \<Longrightarrow>
    guest m' = guest m \<and> nemu_state m' = nemu_state m \<and> g_nr_guest_instr m' = g_nr_guest_instr m"
  by (auto simp: send_key_def Let_def bnd_simps split: if_splits)

lemma handle_events_frame:
  "handle_events es m = Inr m' \<Longrightarrow>
    guest m' = guest m \<and> g_nr_guest_instr m' = g_nr_guest_instr m \<and>
    nemu_state m' = (if SDL_QUIT \<in> set es then (nemu_state m)\<lparr>status := NEMU_QUIT\<rparr> else nemu_state m)"
proof (induction es arbitrary: m)
  case (Cons e es)
  then show ?case
    by (cases e) (auto simp: bnd_simps dest!: send_key_frame Cons.IH)
qed simp

lemma vga_frame [simp]:
  "guest (vga_update_screen m) = guest m" "nemu_state (vga_update_screen m) = nemu_state m"
  "g_nr_guest_instr (vga_update_screen m) = g_nr_guest_instr m"
  "sdl_events (hst (vga_update_screen m)) = sdl_events (hst m)"
  by (simp_all add: vga_update_screen_def update_screen_def Let_def)

lemma device_update_frame:
  assumes "device_update m = Inr m'"
  shows "guest m' = guest m \<and> g_nr_guest_instr m' = g_nr_guest_instr m \<and>
    (nemu_state m' = nemu_state m \<or>
     (SDL_QUIT \<in> set (sdl_events (hst m)) \<and> nemu_state m' = (nemu_state m)\<lparr>status := NEMU_QUIT\<rparr>))"
proof (cases "device_update_flag (alrm m)")
  case True
  then show ?thesis using assms
    by (auto simp: device_update_def Let_def dest!: handle_events_frame split: if_splits)
qed (use assms in \<open>simp add: device_update_def\<close>)

lemma after_step_frame:
  assumes "after_step m = Inr m'"
  shows "guest m' = guest m \<and> g_nr_guest_instr m' = g_nr_guest_instr m + 1 \<and>
    (nemu_state m' = nemu_state m \<or>
     (SDL_QUIT \<in> set (sdl_events (hst m)) \<and> nemu_state m' = (nemu_state m)\<lparr>status := NEMU_QUIT\<rparr>))"
  using assms device_update_frame by (fastforce simp: after_step_def Let_def)

section \<open>The interface between engine and ISA\<close>

text \<open>
  What the engine relies on: a well-formed machine steps, the step returns and stays well-formed,
  the run state changes only to ended or aborted, and the fields of \<open>frame\<close> stay.
\<close>

locale isa_step =
  fixes exec_once :: exec_once and wf :: "machine \<Rightarrow> bool"
  assumes returns: "wf m \<Longrightarrow> \<exists>r. exec_once m = Some r"
    and step_wf: "wf m \<Longrightarrow> exec_once m = Some (Inr (s, m')) \<Longrightarrow> wf m'"
    and step_state: "wf m \<Longrightarrow> exec_once m = Some (Inr (s, m')) \<Longrightarrow>
      nemu_state m' = nemu_state m \<or> status (nemu_state m') = NEMU_END \<or> status (nemu_state m') = NEMU_ABORT"
    and step_frame: "wf m \<Longrightarrow> exec_once m = Some (Inr (s, m')) \<Longrightarrow> frame m' = frame m"
    and wf_guest: "guest m' = guest m \<Longrightarrow> wf m' = wf m"
begin

lemma tick_wf: "wf m \<Longrightarrow> wf (host_tick t m)"
  by (rule wf_guest [THEN iffD2, rotated]) simp_all

lemma loop_returns: "wf m \<Longrightarrow> \<exists>r. cpu_loop exec_once ticks n m = Some r"
proof (induction n arbitrary: ticks m)
  case (Suc n)
  obtain r where r: "exec_once (host_tick (ticks 0) m) = Some r"
    using returns tick_wf Suc.prems by blast
  show ?case
  proof (cases r)
    case (Inr p)
    obtain s m1 where p: "p = (s, m1)" by (cases p)
    have w1: "wf m1" using step_wf [OF tick_wf [OF Suc.prems]] r Inr p by blast
    show ?thesis
    proof (cases "after_step m1")
      case (Inr m2)
      then have "wf m2" using w1 after_step_frame wf_guest by blast
      then show ?thesis using r \<open>r = Inr p\<close> p Inr Suc.IH by simp
    qed (use r Inr p in simp)
  qed (use r in simp)
qed simp

text \<open>One turn of the loop that does not die.\<close>

lemma turn:
  assumes "wf m" "status (nemu_state m) = NEMU_RUNNING"
    and "exec_once (host_tick t m) = Some (Inr (s, m1))" "after_step m1 = Inr m2"
  shows "wf m2 \<and> g_nr_guest_instr m2 = g_nr_guest_instr m + 1 \<and> status (nemu_state m2) \<noteq> NEMU_STOP"
proof -
  have w: "wf m1" "frame m1 = frame (host_tick t m)"
    using step_wf [OF tick_wf [OF assms(1)] assms(3)] step_frame [OF tick_wf [OF assms(1)] assms(3)] by auto
  have "status (nemu_state m1) \<noteq> NEMU_STOP"
    using step_state [OF tick_wf [OF assms(1)] assms(3)] assms(2) by auto
  then show ?thesis
    using after_step_frame [OF assms(4)] w wf_guest [of m2 m1] by (auto simp: frame_def)
qed

lemma loop_result:
  assumes "wf m" "status (nemu_state m) = NEMU_RUNNING" "cpu_loop exec_once ticks n m = Some (Inr m')"
  shows "wf m' \<and> status (nemu_state m') \<noteq> NEMU_STOP \<and>
    (\<exists>k \<le> n. g_nr_guest_instr m' = g_nr_guest_instr m + of_nat k \<and>
      (status (nemu_state m') = NEMU_RUNNING \<longrightarrow> k = n))"
  using assms
proof (induction n arbitrary: ticks m)
  case 0
  then show ?case by auto
next
  case (Suc n)
  from Suc.prems(3) obtain s m1 m2 where s: "exec_once (host_tick (ticks 0) m) = Some (Inr (s, m1))"
    "after_step m1 = Inr m2"
    "status (nemu_state m2) \<noteq> NEMU_RUNNING \<and> m' = m2 \<or>
     status (nemu_state m2) = NEMU_RUNNING \<and> cpu_loop exec_once (\<lambda>i. ticks (Suc i)) n m2 = Some (Inr m')"
    by (auto split: option.splits sum.splits if_splits)
  note t = turn [OF Suc.prems(1,2) s(1,2)]
  from s(3) show ?case
  proof
    assume "status (nemu_state m2) \<noteq> NEMU_RUNNING \<and> m' = m2"
    then show ?thesis using t by (auto intro!: exI [of _ 1])
  next
    assume a: "status (nemu_state m2) = NEMU_RUNNING \<and> cpu_loop exec_once (\<lambda>i. ticks (Suc i)) n m2 = Some (Inr m')"
    then obtain k where k: "wf m'" "status (nemu_state m') \<noteq> NEMU_STOP" "k \<le> n"
      "g_nr_guest_instr m' = g_nr_guest_instr m2 + of_nat k"
      "status (nemu_state m') = NEMU_RUNNING \<longrightarrow> k = n"
      using Suc.IH [of m2] t by blast
    then have "g_nr_guest_instr m' = g_nr_guest_instr m + of_nat (Suc k)"
      using t by (simp add: algebra_simps)
    then show ?thesis using k by (intro conjI exI [of _ "Suc k"]) auto
  qed
qed

lemma wf_set_status: "wf (set_status s m) = wf m"
  by (rule wf_guest) simp

lemma exec_returns: "wf m \<Longrightarrow> \<exists>r. cpu_exec exec_once ticks n m = Some r"
  using loop_returns [of "set_status NEMU_RUNNING m"] wf_set_status
  by (fastforce simp: cpu_exec_def split: nemu_status.splits)

text \<open>
  The protocol of the engine: it never returns with the machine running; it returns with the
  machine stopped exactly when all \<open>n\<close> instructions ran, and counts every instruction.
\<close>

lemma exec_result:
  assumes "wf m" "status (nemu_state m) \<noteq> NEMU_END" "status (nemu_state m) \<noteq> NEMU_ABORT"
    and "cpu_exec exec_once ticks n m = Some (Inr m')"
  shows "wf m' \<and> status (nemu_state m') \<noteq> NEMU_RUNNING \<and>
    (\<exists>k \<le> unat n. g_nr_guest_instr m' = g_nr_guest_instr m + of_nat k \<and>
      (status (nemu_state m') = NEMU_STOP \<longrightarrow> k = unat n))"
proof -
  let ?m = "set_status NEMU_RUNNING m"
  obtain m1 where m1: "cpu_loop exec_once ticks (unat n) ?m = Some (Inr m1)"
    "m' = (if status (nemu_state m1) = NEMU_RUNNING then set_status NEMU_STOP m1 else m1)"
    using assms(2-4) by (auto simp: cpu_exec_def bnd_simps split: nemu_status.splits)
  have "wf ?m" "status (nemu_state ?m) = NEMU_RUNNING" "g_nr_guest_instr ?m = g_nr_guest_instr m"
    using assms(1) by (simp_all add: wf_set_status) (simp_all add: set_status_def)
  from loop_result [OF this(1,2) m1(1)] this(3) show ?thesis
    using m1(2) by (auto simp: wf_set_status) (auto simp: set_status_def)
qed

text \<open>Once ended or aborted, the engine refuses to run.\<close>

lemma exec_ended:
  "status (nemu_state m) = NEMU_END \<or> status (nemu_state m) = NEMU_ABORT \<Longrightarrow>
    cpu_exec exec_once ticks n m = Some (Inr m)"
  by (auto simp: cpu_exec_def)

end

section \<open>riscv32 and mips32 as instances\<close>

text \<open>The stack content is irrelevant (\<open>RiscvProps\<close>), so the engine's step fixes one.\<close>

definition riscv32_once :: exec_once where
  "riscv32_once m = Some (isa_exec_once blank_ds m)"

definition mips32_once :: exec_once where
  "mips32_once m = Some (mips_isa_exec_once blank_ds m)"

definition ended_or_same :: "machine \<Rightarrow> machine \<Rightarrow> bool" where
  "ended_or_same m m' \<longleftrightarrow>
     nemu_state m' = nemu_state m \<or> status (nemu_state m') = NEMU_END \<or> status (nemu_state m') = NEMU_ABORT"

lemma put_goto_frame [simp]:
  "frame (rv_put r v m) = frame m" "nemu_state (rv_put r v m) = nemu_state m"
  "frame (rv_goto a m) = frame m" "nemu_state (rv_goto a m) = nemu_state m"
  by (simp_all add: rv_put_def rv_goto_def set_gpr_def)

lemma core_same: "core m' = core m \<Longrightarrow> frame m' = frame m \<and> nemu_state m' = nemu_state m"
  using core_frame core_state by blast

lemma rv_exec_frame: "rv_exec i m = Inr m' \<Longrightarrow> frame m' = frame m \<and> ended_or_same m m'"
  by (cases i) (auto simp: bnd_simps ended_or_same_def simp del: rv_alu_op.simps load_ext.simps
      dest!: vaddr_read_core core_same vaddr_write_cpu)

lemma rv_abort_frame:
  assumes "rv_abort m = Inr (s, m')"
  shows "frame m' = frame m \<and> status (nemu_state m') = NEMU_ABORT"
  using assms by (auto simp: rv_abort_def bnd_simps dest!: vaddr_ifetch_core core_same)

lemma rv_illegal_frame: "rv_illegal v m = Inr (s, m') \<Longrightarrow> frame m' = frame m \<and> ended_or_same m m'"
  by (auto simp: rv_illegal_def ended_or_same_def dest: rv_abort_frame split: if_splits)

lemma riscv32_step_law:
  assumes "rv_wf m" "isa_exec_once blank_ds m = Inr (s, m')"
  shows "rv_wf m' \<and> frame m' = frame m \<and> ended_or_same m m'"
  using assms(1) junk_ok_blank
proof (cases rule: exec_once_cases)
  case (fault e)
  then show ?thesis using assms(2) by simp
next
  case (legal v m1 i)
  then have "step_result i m1 = Inr (s, m')" using assms(2) by simp
  then have "rv_exec i m1 = Inr m'" by (auto simp: step_result_def bnd_simps)
  then show ?thesis
    using fetched_wf [OF assms(1) legal(1)] rv_exec_wf rv_exec_frame vaddr_ifetch_core [OF legal(1)] core_same
    by (metis ended_or_same_def)
next
  case (mulhsu v m1 d a b)
  then show ?thesis
    using assms(2) fetched_wf [OF assms(1) mulhsu(1)] core_same [OF vaddr_ifetch_core [OF mulhsu(1)]]
    by (auto simp: ended_or_same_def)
next
  case (illegal v m1)
  then have "rv_illegal v m1 = Inr (s, m')" using assms(2) by simp
  then show ?thesis
    using fetched_wf [OF assms(1) illegal(1)] rv_illegal_wf rv_illegal_frame vaddr_ifetch_core [OF illegal(1)] core_same
    by (metis ended_or_same_def)
qed

lemma guest_cpu: "guest m' = guest m \<Longrightarrow> cpu m' = cpu m"
  by (simp add: guest_def)

interpretation riscv32: isa_step riscv32_once rv_wf
proof
  fix m m' s
  show "\<exists>r. riscv32_once m = Some r" by (simp add: riscv32_once_def)
  show "guest m' = guest m \<Longrightarrow> rv_wf m' = rv_wf m" by (rule cpu_eq_wf) (rule guest_cpu)
  assume "rv_wf m" "riscv32_once m = Some (Inr (s, m'))"
  then show "rv_wf m'" "frame m' = frame m"
    "nemu_state m' = nemu_state m \<or> status (nemu_state m') = NEMU_END \<or> status (nemu_state m') = NEMU_ABORT"
    using riscv32_step_law by (auto simp: riscv32_once_def ended_or_same_def)
qed

lemma mips_step_law:
  assumes "rv_wf m" "mips_step v m = Inr (s, m')"
  shows "rv_wf m' \<and> frame m' = frame m \<and> ended_or_same m m'"
proof -
  consider "bf 26 6 v = 15" | "bf 26 6 v = 35" | "bf 26 6 v = 43" | "bf 26 6 v = 60"
    | "bf 26 6 v \<notin> {15, 35, 43, 60}" by blast
  then show ?thesis
  proof cases
    case 1
    then show ?thesis using assms(1,2) unfolding mips_step_cases(1) [OF 1]
      by (auto simp: ended_or_same_def)
  next
    case 2
    obtain a d m1 where r: "vaddr_read a 4 m = Inr (d, m1)"
      and m': "m' = rv_goto (rv_pc m + 4) (rv_put (unat (bf 16 5 v)) d m1)"
      using assms(2) unfolding mips_step_cases(2) [OF 2] by (auto simp: bnd_simps)
    then show ?thesis
      using vaddr_read_wf [OF r assms(1)] core_same [OF vaddr_read_core [OF r]]
      by (auto simp: ended_or_same_def)
  next
    case 3
    obtain a d m1 where w: "vaddr_write a d 4 m = Inr m1" and m': "m' = rv_goto (rv_pc m + 4) m1"
      using assms(2) unfolding mips_step_cases(3) [OF 3] by (auto simp: bnd_simps)
    then show ?thesis
      using vaddr_write_wf [OF w assms(1)] vaddr_write_cpu [OF w] by (auto simp: ended_or_same_def)
  next
    case 4
    have "mips_step v m = Inr (rv_pc m + 4, rv_goto (rv_pc m + 4)
          (m\<lparr>nemu_state := \<lparr>status = NEMU_END, halt_pc = rv_pc m, halt_ret = gpr (cpu m) ! 2\<rparr>\<rparr>))"
      by (simp add: mips_step_def 4 Let_def)
    then show ?thesis using assms by (auto simp: ended_or_same_def)
  next
    case 5
    then show ?thesis using assms rv_abort_wf rv_abort_frame unfolding mips_step_cases(4) [OF 5]
      by (auto simp: ended_or_same_def)
  qed
qed

lemma mips_once_law:
  assumes "rv_wf m" "mips_isa_exec_once blank_ds m = Inr (s, m')"
  shows "rv_wf m' \<and> frame m' = frame m \<and> ended_or_same m m'"
proof (cases "vaddr_ifetch (pc (cpu m)) 4 m")
  case (Inl e)
  then show ?thesis using assms(2)
    by (simp add: mips_isa_exec_once_def mips_fetch_decode_exec_def instr_fetch_def)
next
  case (Inr p)
  obtain v m1 where f: "vaddr_ifetch (pc (cpu m)) 4 m = Inr (v, m1)" using Inr by (cases p) auto
  have "mips_step v m1 = Inr (s, m')"
    using assms(2) mips_once_fetch [OF f] mips_step_correct [OF fetched_wf [OF assms(1) f]] by simp
  then show ?thesis
    using mips_step_law [OF fetched_wf [OF assms(1) f]] core_same [OF vaddr_ifetch_core [OF f]]
    by (metis ended_or_same_def)
qed

interpretation mips32: isa_step mips32_once rv_wf
proof
  fix m m' s
  show "\<exists>r. mips32_once m = Some r" by (simp add: mips32_once_def)
  show "guest m' = guest m \<Longrightarrow> rv_wf m' = rv_wf m" by (rule cpu_eq_wf) (rule guest_cpu)
  assume "rv_wf m" "mips32_once m = Some (Inr (s, m'))"
  then show "rv_wf m'" "frame m' = frame m"
    "nemu_state m' = nemu_state m \<or> status (nemu_state m') = NEMU_END \<or> status (nemu_state m') = NEMU_ABORT"
    using mips_once_law by (auto simp: mips32_once_def ended_or_same_def)
qed

section \<open>x86 as an instance\<close>

definition xfr where
  "xfr x = (frame (mach x), nemu_state (mach x), length (gpr (cpu (mach x))))"

lemma xfr_ds [simp]: "xfr (x\<lparr>ds := d\<rparr>) = xfr x"
  by (simp add: xfr_def)

lemma xfr_wr [simp]: "xfr (wr p v x) = xfr x"
  by (cases p) (simp_all add: xfr_def wr_def set_gpr_def)

lemma xfr_upd_op [simp]: "xfr (upd_op s f x) = xfr x"
  by (cases s) (simp_all add: upd_op_def)

lemma xfr_put [simp]: "xfr (x\<lparr>mach := put_b i v (mach x)\<rparr>) = xfr x" "xfr (x\<lparr>mach := put_w i v (mach x)\<rparr>) = xfr x"
  by (simp_all add: xfr_def put_b_def put_w_def set_gpr_def Let_def)

lemma xfr_rtl [simp]: "xfr (rtl_mv d a x) = xfr x" "xfr (rtl_shli d a i x) = xfr x" "xfr (rtl_add d a b x) = xfr x"
    "xfr (rtl_li d i x) = xfr x"
  by (simp_all add: rtl_mv_def rtl_computes)

lemma xfr_mach: "xfr (x\<lparr>mach := m\<rparr>) = (frame m, nemu_state m, length (gpr (cpu m)))"
  by (simp add: xfr_def)

lemma core_xfr: "core m = core (mach x) \<Longrightarrow> xfr (x\<lparr>mach := m\<rparr>) = xfr x"
  using core_same [of m "mach x"] core_cpu [of m "mach x"] by (simp add: xfr_def)

lemma xfr_fetch: "instr_fetch n x = Inr (b, x') \<Longrightarrow> xfr x' = xfr x"
proof -
  assume "instr_fetch n x = Inr (b, x')"
  then obtain m d where "vaddr_ifetch (seq_pc (ds x)) n (mach x) = Inr (b, m)" "x' = x\<lparr>mach := m, ds := d\<rparr>"
    by (auto simp: instr_fetch_def bnd_simps)
  then show ?thesis by (simp add: core_xfr [OF vaddr_ifetch_core])
qed

lemma xfr_lm: "rtl_lm d a o' n x = Inr x' \<Longrightarrow> xfr x' = xfr x"
proof -
  assume "rtl_lm d a o' n x = Inr x'"
  then obtain v m where "vaddr_read (rd a x + o') n (mach x) = Inr (v, m)" "x' = wr d v (x\<lparr>mach := m\<rparr>)"
    by (auto simp: rtl_lm_def bnd_simps)
  then show ?thesis by (simp add: core_xfr [OF vaddr_read_core])
qed

lemma xfr_sm: "rtl_sm a o' d n x = Inr x' \<Longrightarrow> xfr x' = xfr x"
  by (auto simp: rtl_sm_def bnd_simps xfr_def dest!: vaddr_write_cpu)

lemma xfr_lr: "rtl_lr d r w x = Inr x' \<Longrightarrow> xfr x' = xfr x"
  by (auto simp: rtl_lr_def bnd_simps split: if_splits)

lemma xfr_sr: "rtl_sr r a w x = Inr x' \<Longrightarrow> xfr x' = xfr x"
  by (auto simp: rtl_sr_def bnd_simps split: if_splits)

lemma xfr_operand_reg: "operand_reg op l r w x = Inr x' \<Longrightarrow> xfr x' = xfr x"
  by (auto simp: operand_reg_def bnd_simps Let_def dest!: xfr_lr split: if_splits)

lemma xfr_operand_imm [simp]: "xfr (operand_imm op l i x) = xfr x"
  by (simp add: operand_imm_def Let_def)

lemma xfr_op_I: "x86_decode_op_I op l x = Inr x' \<Longrightarrow> xfr x' = xfr x"
  by (auto simp: x86_decode_op_I_def bnd_simps dest: xfr_fetch)

lemma xfr_op_SI: "x86_decode_op_SI op l x = Inr x' \<Longrightarrow> xfr x' = xfr x"
  by (simp add: x86_decode_op_SI_def bnd_simps)

lemma xfr_op_a: "x86_decode_op_a op l x = Inr x' \<Longrightarrow> xfr x' = xfr x"
  by (simp add: x86_decode_op_a_def xfr_operand_reg)

lemma xfr_op_r: "x86_decode_op_r op l x = Inr x' \<Longrightarrow> xfr x' = xfr x"
  by (simp add: x86_decode_op_r_def xfr_operand_reg)

lemma xfr_op_O: "x86_decode_op_O op l x = Inr x' \<Longrightarrow> xfr x' = xfr x"
  by (auto simp: x86_decode_op_O_def bnd_simps Let_def dest!: xfr_fetch xfr_lm split: if_splits)

lemma xfr_load_sib: "load_sib m x = Inr (r, x') \<Longrightarrow> xfr x' = xfr x"
  by (auto simp: load_sib_def bnd_simps Let_def dest!: xfr_fetch split: if_splits)

lemma xfr_load_disp: "load_disp m b x = Inr (r, x') \<Longrightarrow> xfr x' = xfr x"
  by (auto simp: load_disp_def bnd_simps Let_def dest!: xfr_fetch split: if_splits prod.splits)

lemma xfr_load_addr: "load_addr m rm x = Inr x' \<Longrightarrow> xfr x' = xfr x"
  by (auto simp: load_addr_def bnd_simps Let_def dest!: xfr_load_sib xfr_load_disp)

lemma xfr_ModR_M: "read_ModR_M rm l reg lr x = Inr x' \<Longrightarrow> xfr x' = xfr x"
  by (auto simp: read_ModR_M_def bnd_simps Let_def dest!: xfr_fetch xfr_operand_reg xfr_load_addr xfr_lm
      split: if_splits option.splits)

lemma xfr_set_op_width [simp]: "xfr (set_op_width s w x) = xfr x"
  by (simp add: set_op_width_def)

lemma xfr_set_width [simp]: "xfr (x86_set_width w x) = xfr x"
  by (simp add: x86_set_width_def Let_def)

lemmas xfr_dests = xfr_ModR_M xfr_op_I xfr_op_SI xfr_op_a xfr_op_r xfr_op_O xfr_operand_reg

lemma xfr_decoders:
  "x86_decode_I2E x = Inr x' \<Longrightarrow> xfr x' = xfr x"
  "x86_decode_SI2E x = Inr x' \<Longrightarrow> xfr x' = xfr x"
  "x86_decode_mov_G2E x = Inr x' \<Longrightarrow> xfr x' = xfr x"
  "x86_decode_mov_E2G x = Inr x' \<Longrightarrow> xfr x' = xfr x"
  "x86_decode_O2a x = Inr x' \<Longrightarrow> xfr x' = xfr x"
  "x86_decode_a2O x = Inr x' \<Longrightarrow> xfr x' = xfr x"
  "x86_decode_mov_I2r x = Inr x' \<Longrightarrow> xfr x' = xfr x"
  "x86_decode_mov_I2E x = Inr x' \<Longrightarrow> xfr x' = xfr x"
  "x86_decode_gp2_Ib2E x = Inr x' \<Longrightarrow> xfr x' = xfr x"
  "x86_decode_gp2_1_E x = Inr x' \<Longrightarrow> xfr x' = xfr x"
  "x86_decode_gp2_cl2E x = Inr x' \<Longrightarrow> xfr x' = xfr x"
  "x86_decode_E x = Inr x' \<Longrightarrow> xfr x' = xfr x"
  "x86_decode_gp7_E x = Inr x' \<Longrightarrow> xfr x' = xfr x"
  by (auto simp: x86_decode_I2E_def x86_decode_SI2E_def x86_decode_mov_G2E_def x86_decode_mov_E2G_def
      x86_decode_O2a_def x86_decode_a2O_def x86_decode_mov_I2r_def x86_decode_mov_I2E_def
      x86_decode_gp2_Ib2E_def x86_decode_gp2_1_E_def x86_decode_gp2_cl2E_def x86_decode_E_def
      x86_decode_gp7_E_def bnd_simps dest!: xfr_dests)

lemma xfr_mov: "x86_exec_mov x = Inr x' \<Longrightarrow> xfr x' = xfr x"
  by (auto simp: x86_exec_mov_def operand_write_def Let_def dest!: xfr_sr xfr_sm split: op_kind.splits)

text \<open>After an instruction: the frame is kept, and the run state is kept or final.\<close>

definition xok :: "ectx \<Rightarrow> ectx \<Rightarrow> bool" where
  "xok x x' \<longleftrightarrow> frame (mach x') = frame (mach x) \<and> ended_or_same (mach x) (mach x')
     \<and> length (gpr (cpu (mach x'))) = length (gpr (cpu (mach x)))"

lemma xfr_xok: "xfr x' = xfr x \<Longrightarrow> xok x x'"
  by (simp add: xfr_def xok_def ended_or_same_def)

lemma xok_trans: "xfr x1 = xfr x \<Longrightarrow> xok x1 x2 \<Longrightarrow> xok x x2"
  by (auto simp: xfr_def xok_def ended_or_same_def)

lemma xok_inv: "x86_exec_inv x = Inr x' \<Longrightarrow> xok x x'"
  by (auto simp: x86_exec_inv_def bnd_simps dest!: xfr_fetch) (auto simp: xfr_def xok_def ended_or_same_def rtl_exit_def)

lemma xok_trap: "x86_exec_nemu_trap x = Inr x' \<Longrightarrow> xok x x'"
  by (auto simp: x86_exec_nemu_trap_def xok_def ended_or_same_def rtl_exit_def)

lemma xok_IDEXW:
  assumes "x86_IDEXW dec ex w x = Inr x'" and "\<And>x y. dec x = Inr y \<Longrightarrow> xfr y = xfr x"
    and "\<And>x y. ex x = Inr y \<Longrightarrow> xok x y"
  shows "xok x x'"
proof -
  obtain y where "dec (x86_set_width w x) = Inr y" "ex y = Inr x'"
    using assms(1) by (auto simp: x86_IDEXW_def bnd_simps)
  then show ?thesis using assms(2,3) xok_trans xfr_set_width by metis
qed

lemma xok_gp: "x86_exec_gp x = Inr x' \<Longrightarrow> xok x x'"
  by (auto simp: x86_exec_gp_def intro: xfr_xok dest!: xok_IDEXW xok_inv split: if_splits)

lemma xok_mov: "x86_exec_mov x = Inr x' \<Longrightarrow> xok x x'"
  by (simp add: xfr_mov xfr_xok)

lemma xok_2byte: "x86_exec_2byte_esc x = Inr x' \<Longrightarrow> xok x x'"
proof -
  assume "x86_exec_2byte_esc x = Inr x'"
  then obtain b x1 where f: "instr_fetch 1 x = Inr (b, x1)"
    "(if (ucast b :: u8) = 0x01
      then x86_IDEXW x86_decode_gp7_E x86_exec_gp 0 (x1\<lparr>ds := (ds x1)\<lparr>opcode := ucast (ucast b :: u8)\<rparr>\<rparr>)
      else x86_exec_inv (x1\<lparr>ds := (ds x1)\<lparr>opcode := ucast (ucast b :: u8)\<rparr>\<rparr>)) = Inr x'"
    by (auto simp: x86_exec_2byte_esc_def bnd_simps Let_def)
  have "xok (x1\<lparr>ds := (ds x1)\<lparr>opcode := ucast (ucast b :: u8)\<rparr>\<rparr>) x'"
    using f(2) by (auto dest: xok_inv xok_IDEXW [OF _ xfr_decoders(13) xok_gp] split: if_splits)
  then show ?thesis using xfr_fetch [OF f(1)] by (metis xfr_ds xok_trans)
qed

lemma xok_table: "x86_table opc x = Inr x' \<Longrightarrow> xok x x'"
  unfolding x86_table_def
  by (auto split: if_splits intro: xok_IDEXW [OF _ _ xok_mov] xok_IDEXW [OF _ _ xok_gp]
      xok_IDEXW [OF _ _ xok_2byte] xok_IDEXW [OF _ _ xok_trap] xok_inv dest: xfr_decoders)

lemma xok_loop:
  assumes "x86_fetch_decode_exec x = Some r"
  shows "\<forall>x'. r = Inr x' \<longrightarrow> xok x x'"
  using assms
proof (rule x86_fetch_decode_exec.raw_induct [rotated])
  fix rec x r
  assume IH: "\<And>x y. rec x = Some y \<Longrightarrow> \<forall>x'. y = Inr x' \<longrightarrow> xok x x'"
    and body: "(case instr_fetch 1 x of Inl e \<Rightarrow> Some (Inl e)
      | Inr (b, x) \<Rightarrow>
          (let opc = (ucast b :: u8); x = x\<lparr>ds := (ds x)\<lparr>opcode := ucast opc\<rparr>\<rparr> in
           if opc = 0x66 then rec (x\<lparr>ds := (ds x)\<lparr>is_operand_size_16 := True\<rparr>\<rparr>)
           else Some (x86_table opc x))) = Some r"
  show "\<forall>x'. r = Inr x' \<longrightarrow> xok x x'"
  proof (cases "instr_fetch 1 x")
    case (Inr p)
    obtain b y where p: "p = (b, y)" by (cases p)
    have f: "xfr y = xfr x" using Inr p xfr_fetch by blast
    show ?thesis
    proof (cases "(ucast b :: u8) = 0x66")
      case True
      then have "rec (y\<lparr>ds := (ds y)\<lparr>opcode := 0x66, is_operand_size_16 := True\<rparr>\<rparr>) = Some r"
        using body Inr p by (simp add: Let_def)
      then show ?thesis using IH f xok_trans xfr_ds by metis
    next
      case False
      then have "x86_table (ucast b) (y\<lparr>ds := (ds y)\<lparr>opcode := ucast (ucast b :: u8)\<rparr>\<rparr>) = r"
        using body Inr p by (simp add: Let_def)
      then show ?thesis using f xok_trans xfr_ds xok_table by metis
    qed
  qed (use body in auto)
qed

definition x86_wf :: "machine \<Rightarrow> bool" where
  "x86_wf m \<longleftrightarrow> length (gpr (cpu m)) = 8 \<and> (\<exists>a. unmapped m a)"

lemma x86_once_law:
  assumes "x86_wf m" "x86_isa_exec_once blank_ds m = Some (Inr (s, m'))"
  shows "x86_wf m' \<and> frame m' = frame m \<and> ended_or_same m m'"
proof -
  obtain x where x: "x86_fetch_decode_exec (x86_start blank_ds m) = Some (Inr x)"
    and m': "m' = mach (update_pc x)"
    using assms(2) by (auto simp: x86_isa_exec_once_def bnd_simps Let_def)
  have "xok (x86_start blank_ds m) x" using xok_loop [OF x] by simp
  then have k: "frame m' = frame m" "ended_or_same m m'" "length (gpr (cpu m')) = length (gpr (cpu m))"
    by (simp_all add: xok_def x86_start_def m' update_pc_def ended_or_same_def)
  then have "unmapped m' a = unmapped m a" for a
    by (simp add: unmapped_def in_pmem_def fetch_mmio_map_def frame_def Let_def)
  then show ?thesis using assms(1) k by (simp add: x86_wf_def)
qed

definition x86_once :: exec_once where
  "x86_once m = x86_isa_exec_once blank_ds m"

interpretation x86: isa_step x86_once x86_wf
proof
  fix m m' s
  show "x86_wf m \<Longrightarrow> \<exists>r. x86_once m = Some r"
    using x86_loop_ends [of "x86_start blank_ds m"]
    by (fastforce simp: x86_once_def x86_isa_exec_once_def x86_wf_def x86_start_def)
  show "guest m' = guest m \<Longrightarrow> x86_wf m' = x86_wf m"
    by (simp add: guest_def x86_wf_def unmapped_def in_pmem_def fetch_mmio_map_def Let_def)
  assume "x86_wf m" "x86_once m = Some (Inr (s, m'))"
  then show "x86_wf m'" "frame m' = frame m"
    "nemu_state m' = nemu_state m \<or> status (nemu_state m') = NEMU_END \<or> status (nemu_state m') = NEMU_ABORT"
    using x86_once_law by (auto simp: x86_once_def ended_or_same_def)
qed

section \<open>The built-in riscv32 image\<close>

text \<open>Without events the devices cannot fail, and change nothing the guest sees.\<close>

lemma after_step_quiet:
  assumes "sdl_events (hst m) = []"
  shows "\<exists>m'. after_step m = Inr m' \<and> guest m' = guest m \<and> nemu_state m' = nemu_state m \<and> sdl_events (hst m') = []"
  using assms by (cases "device_update_flag (alrm m)") (auto simp: after_step_def device_update_def Let_def)

definition img_pmem :: "bytes \<Rightarrow> bool" where
  "img_pmem p \<longleftrightarrow> (\<forall>k < 5. get32 p (0x100000 + 4 * k) = img ! k)"

lemma img_loaded: "img_pmem (pmem (load_bytes 0x100000 (img_bytes img) m))"
proof -
  have "\<forall>k \<in> {0, 1, 2, 3, 4}. get32 (pmem (load_bytes 0x100000 (img_bytes img) m)) (0x100000 + 4 * k) = img ! k"
    by (simp add: load_bytes_def guest_to_host_def img_bytes_def img_def upt_conv_Cons get32_def byte_at_def)
  moreover have "k \<in> {0, 1, 2, 3, 4}" if "k < 5" for k :: nat using that by auto
  ultimately show ?thesis unfolding img_pmem_def by blast
qed

lemma img_pmem_put:
  assumes "img_pmem p" shows "img_pmem (put32 p 0 w)"
proof -
  have "get32 (put32 p 0 w) (0x100000 + 4 * k) = get32 p (0x100000 + 4 * k)" for k
    by (simp add: get32_def put32_other)
  then show ?thesis using assms by (simp add: img_pmem_def)
qed

lemma img_decode:
  "rv_decode 0x800002b7 = Some (I_lui 5 0x80000000)"
  "rv_decode 0x0002a023 = Some (I_store S_w 5 0 0)"
  "rv_decode 0x00828313 = Some (I_op_imm A_add 6 5 8)"
  "rv_decode 0x0002a503 = Some (I_load L_w 10 5 0)"
  "rv_decode 0x0000006b = Some I_trap"
proof -
  have "imm_U 0x800002b7 = 0x80000000" "imm_S 0x0002a023 = 0" "imm_I 0x00828313 = 8" "imm_I 0x0002a503 = 0"
    unfolding U_imm_spec [symmetric] S_imm_spec [symmetric] I_imm_spec [symmetric]
    by (simp_all add: rv_fields bf_def sbf_def S_simm_def)
  then show "rv_decode 0x800002b7 = Some (I_lui 5 0x80000000)"
    "rv_decode 0x0002a023 = Some (I_store S_w 5 0 0)"
    "rv_decode 0x00828313 = Some (I_op_imm A_add 6 5 8)"
    "rv_decode 0x0002a503 = Some (I_load L_w 10 5 0)"
    "rv_decode 0x0000006b = Some I_trap"
    by (simp_all add: rv_decode_def bf_def dec_store_def dec_op_imm_def dec_load_def reg_rd_def reg_rs1_def reg_rs2_def)
qed

text \<open>A machine at word \<open>k\<close> of the image, between two instructions; \<open>P\<close> tells of registers and memory.\<close>

type_synonym image_pred = "u32 list \<Rightarrow> bytes \<Rightarrow> bool"

definition at_word :: "nat \<Rightarrow> image_pred \<Rightarrow> machine \<Rightarrow> bool" where
  "at_word k P m \<longleftrightarrow> isa m = Riscv32 \<and> rv_wf m \<and> img_pmem (pmem m) \<and> pc (cpu m) = 0x80100000 + 4 * of_nat k
     \<and> sdl_events (hst m) = [] \<and> status (nemu_state m) = NEMU_RUNNING \<and> P (gpr (cpu m)) (pmem m)"

lemma at_word_fetch:
  assumes "at_word k P m" "k < 5"
  shows "vaddr_ifetch (pc (cpu m)) 4 m = Inr (img ! k, m)"
proof -
  have u: "unat (0x100000 + 4 * (of_nat k :: u32)) = 0x100000 + 4 * k"
    using assms(2) by (simp add: unat_word_ariths unat_of_nat)
  have i: "pmem_index m (pc (cpu m)) = 0x100000 + 4 * k"
    using assms(1) u by (simp add: at_word_def pmem_index_def PMEM_BASE_def)
  have "k = 0 \<or> k = 1 \<or> k = 2 \<or> k = 3 \<or> k = 4" using assms(2) by auto
  then have "in_pmem m (pc (cpu m))"
    using assms(1) by (auto simp: at_word_def in_pmem_def PMEM_BASE_def PMEM_SIZE_def)
  moreover have "pmem_read (pc (cpu m)) 4 m = Inr (img ! k)"
    using assms i by (simp add: pmem_read_def at_word_def img_pmem_def get_n_def PMEM_SIZE_def)
  ultimately show ?thesis by (simp add: vaddr_ifetch_pmem)
qed

lemma at_word_step:
  assumes "at_word k P m" "k < 5" "rv_decode (img ! k) = Some i" "\<not> is_mulhsu i"
  shows "riscv32_once m = Some (bnd (rv_exec i m) (\<lambda>m'. Inr (pc (cpu m) + 4, m')))"
  using exec_once_legal [OF _ junk_ok_blank at_word_fetch [OF assms(1,2)] assms(3,4)] assms(1)
  by (simp add: riscv32_once_def at_word_def step_result_def)

text \<open>What the engine does between two instructions keeps such facts.\<close>

definition quiet_closed :: "(machine \<Rightarrow> bool) \<Rightarrow> bool" where
  "quiet_closed Q \<longleftrightarrow> (\<forall>a b. Q a \<longrightarrow> sdl_events (hst a) = [] \<and>
     (guest b = guest a \<and> nemu_state b = nemu_state a \<and> sdl_events (hst b) = [] \<longrightarrow> Q b))"

lemma quiet_closedD:
  assumes "quiet_closed Q" "Q a"
  shows "sdl_events (hst a) = []"
    and "guest b = guest a \<Longrightarrow> nemu_state b = nemu_state a \<Longrightarrow> sdl_events (hst b) = [] \<Longrightarrow> Q b"
  using assms unfolding quiet_closed_def by blast+

lemma at_word_closed: "quiet_closed (at_word k P)"
  unfolding quiet_closed_def at_word_def guest_def rv_wf_def by force

lemma image_turn:
  assumes m: "at_word k P m" "k < 5" "rv_decode (img ! k) = Some i" "\<not> is_mulhsu i" "tk_events (ticks 0) = []"
    and step: "\<And>m. at_word k P m \<Longrightarrow> \<exists>m'. rv_exec i m = Inr m' \<and> Q m'" and Q: "quiet_closed Q"
  shows "\<exists>m2. Q m2 \<and> cpu_loop riscv32_once ticks (Suc n) m =
      (if status (nemu_state m2) \<noteq> NEMU_RUNNING then Some (Inr m2)
       else cpu_loop riscv32_once (\<lambda>j. ticks (Suc j)) n m2)"
proof -
  let ?m = "host_tick (ticks 0) m"
  have w: "at_word k P ?m"
    using quiet_closedD [OF at_word_closed m(1)] m(5) by simp
  then obtain m1 where m1: "rv_exec i ?m = Inr m1" "Q m1" using step by blast
  have "riscv32_once ?m = Some (Inr (pc (cpu ?m) + 4, m1))"
    using at_word_step [OF w m(2-4)] m1 by simp
  moreover have "sdl_events (hst m1) = []" by (rule quiet_closedD(1) [OF Q m1(2)])
  then obtain m2 where m2: "after_step m1 = Inr m2" "guest m2 = guest m1"
    "nemu_state m2 = nemu_state m1" "sdl_events (hst m2) = []"
    using after_step_quiet by blast
  moreover have "Q m2" using quiet_closedD(2) [OF Q m1(2)] m2 by blast
  ultimately show ?thesis by (intro exI [of _ m2]) simp
qed

text \<open>The five instructions.\<close>

definition good_end :: "machine \<Rightarrow> bool" where
  "good_end m \<longleftrightarrow> status (nemu_state m) = NEMU_END \<and> halt_ret (nemu_state m) = 0 \<and> sdl_events (hst m) = []"

lemma good_end_closed: "quiet_closed good_end"
  unfolding quiet_closed_def good_end_def by force

lemmas image_eval = at_word_def rv_goto_def rv_put_def rv_get_def set_gpr_def rv_pc_def rv_wf_def good_end_def

lemma img_step_0: "at_word 0 (\<lambda>g p. True) m \<Longrightarrow> \<exists>m'. rv_exec (I_lui 5 0x80000000) m = Inr m' \<and>
     at_word 1 (\<lambda>g p. g ! 5 = 0x80000000) m'"
  by (simp add: image_eval)

lemma img_step_1: "at_word 1 (\<lambda>g p. g ! 5 = 0x80000000) m \<Longrightarrow> \<exists>m'. rv_exec (I_store S_w 5 0 0) m = Inr m' \<and>
     at_word 2 (\<lambda>g p. g ! 5 = 0x80000000 \<and> get32 p 0 = 0) m'"
proof -
  assume a: "at_word 1 (\<lambda>g p. g ! 5 = 0x80000000) m"
  have "in_pmem m 0x80000000" using a by (simp add: at_word_def in_pmem_def PMEM_BASE_def PMEM_SIZE_def)
  then have "vaddr_write 0x80000000 0 4 m = Inr (m\<lparr>pmem := put32 (pmem m) 0 0\<rparr>)"
    using a by (simp add: vaddr_write_pmem pmem_write_def pmem_index_def at_word_def PMEM_BASE_def PMEM_SIZE_def
        put_n_def)
  then show ?thesis using a by (simp add: image_eval img_pmem_put)
qed

lemma img_step_2: "at_word 2 (\<lambda>g p. g ! 5 = 0x80000000 \<and> get32 p 0 = 0) m \<Longrightarrow>
   \<exists>m'. rv_exec (I_op_imm A_add 6 5 8) m = Inr m' \<and>
     at_word 3 (\<lambda>g p. g ! 5 = 0x80000000 \<and> get32 p 0 = 0) m'"
  by (simp add: image_eval)

lemma img_step_3: "at_word 3 (\<lambda>g p. g ! 5 = 0x80000000 \<and> get32 p 0 = 0) m \<Longrightarrow>
   \<exists>m'. rv_exec (I_load L_w 10 5 0) m = Inr m' \<and> at_word 4 (\<lambda>g p. g ! 10 = 0) m'"
proof -
  assume a: "at_word 3 (\<lambda>g p. g ! 5 = 0x80000000 \<and> get32 p 0 = 0) m"
  have "in_pmem m 0x80000000" using a by (simp add: at_word_def in_pmem_def PMEM_BASE_def PMEM_SIZE_def)
  then have "vaddr_read 0x80000000 4 m = Inr (0, m)"
    using a by (simp add: vaddr_read_pmem pmem_read_def pmem_index_def at_word_def PMEM_BASE_def PMEM_SIZE_def
        get_n_def)
  then show ?thesis using a by (simp add: image_eval)
qed

lemma img_step_4: "at_word 4 (\<lambda>g p. g ! 10 = 0) m \<Longrightarrow> \<exists>m'. rv_exec I_trap m = Inr m' \<and> good_end m'"
  by (simp add: image_eval)

lemma at_word_running: "at_word k P m \<Longrightarrow> status (nemu_state m) = NEMU_RUNNING"
  by (simp add: at_word_def)

lemma at_word_turn:
  assumes "at_word k P m" "k < 5" "rv_decode (img ! k) = Some i" "\<not> is_mulhsu i" "\<And>j. tk_events (ticks j) = []"
    and "\<And>m. at_word k P m \<Longrightarrow> \<exists>m'. rv_exec i m = Inr m' \<and> at_word k' P' m'"
  shows "\<exists>m2. at_word k' P' m2 \<and>
    cpu_loop riscv32_once ticks (Suc n) m = cpu_loop riscv32_once (\<lambda>j. ticks (Suc j)) n m2"
proof -
  obtain m2 where m2: "at_word k' P' m2" "cpu_loop riscv32_once ticks (Suc n) m =
      (if status (nemu_state m2) \<noteq> NEMU_RUNNING then Some (Inr m2)
       else cpu_loop riscv32_once (\<lambda>j. ticks (Suc j)) n m2)"
    using image_turn [where n = n and ticks = ticks, OF assms(1-6) at_word_closed] by blast
  show ?thesis
    unfolding m2(2) using at_word_running [OF m2(1)] m2(1) by auto
qed

lemma is_mulhsu_no:
  "\<not> is_mulhsu (I_lui d u)" "\<not> is_mulhsu (I_store s r1 r2 u)" "\<not> is_mulhsu (I_op_imm a d r1 u)"
  "\<not> is_mulhsu (I_load l d r1 u)" "\<not> is_mulhsu I_trap"
  by simp_all

lemma img_nth: "img ! 0 = 0x800002b7" "img ! 1 = 0x0002a023" "img ! 2 = 0x00828313" "img ! 3 = 0x0002a503"
    "img ! 4 = 0x0000006b"
  by (simp_all add: img_def)

lemma image_loop:
  assumes "at_word 0 (\<lambda>g p. True) m" "\<And>j. tk_events (ticks j) = []"
  shows "\<exists>m'. cpu_loop riscv32_once ticks (Suc (Suc (Suc (Suc (Suc n))))) m = Some (Inr m') \<and> good_end m'"
proof -
  note d = img_decode [folded img_nth]
  have lt: "(0 :: nat) < 5" "(1 :: nat) < 5" "(2 :: nat) < 5" "(3 :: nat) < 5" "(4 :: nat) < 5" by simp_all
  obtain a1 where a1: "at_word 1 (\<lambda>g p. g ! 5 = 0x80000000) a1"
    "cpu_loop riscv32_once (ticks) (Suc (Suc (Suc (Suc (Suc n))))) m =
     cpu_loop riscv32_once (\<lambda>j. ticks (Suc j)) (Suc (Suc (Suc (Suc n)))) a1"
    using at_word_turn [where ticks = "ticks" and n = "Suc (Suc (Suc (Suc n)))",
      OF assms(1) lt(1) d(1) is_mulhsu_no(1) assms(2) img_step_0] by blast
  obtain a2 where a2: "at_word 2 (\<lambda>g p. g ! 5 = 0x80000000 \<and> get32 p 0 = 0) a2"
    "cpu_loop riscv32_once (\<lambda>j. ticks (Suc j)) (Suc (Suc (Suc (Suc n)))) a1 =
     cpu_loop riscv32_once (\<lambda>j. ticks (Suc (Suc j))) (Suc (Suc (Suc n))) a2"
    using at_word_turn [where ticks = "\<lambda>j. ticks (Suc j)" and n = "Suc (Suc (Suc n))",
      OF a1(1) lt(2) d(2) is_mulhsu_no(2) assms(2) img_step_1] by blast
  obtain a3 where a3: "at_word 3 (\<lambda>g p. g ! 5 = 0x80000000 \<and> get32 p 0 = 0) a3"
    "cpu_loop riscv32_once (\<lambda>j. ticks (Suc (Suc j))) (Suc (Suc (Suc n))) a2 =
     cpu_loop riscv32_once (\<lambda>j. ticks (Suc (Suc (Suc j)))) (Suc (Suc n)) a3"
    using at_word_turn [where ticks = "\<lambda>j. ticks (Suc (Suc j))" and n = "Suc (Suc n)",
      OF a2(1) lt(3) d(3) is_mulhsu_no(3) assms(2) img_step_2] by blast
  obtain a4 where a4: "at_word 4 (\<lambda>g p. g ! 10 = 0) a4"
    "cpu_loop riscv32_once (\<lambda>j. ticks (Suc (Suc (Suc j)))) (Suc (Suc n)) a3 =
     cpu_loop riscv32_once (\<lambda>j. ticks (Suc (Suc (Suc (Suc j))))) (Suc n) a4"
    using at_word_turn [where ticks = "\<lambda>j. ticks (Suc (Suc (Suc j)))" and n = "Suc n",
      OF a3(1) lt(4) d(4) is_mulhsu_no(4) assms(2) img_step_3] by blast
  obtain a5 where a5: "good_end a5"
    "cpu_loop riscv32_once (\<lambda>j. ticks (Suc (Suc (Suc (Suc j))))) (Suc n) a4 =
      (if status (nemu_state a5) \<noteq> NEMU_RUNNING then Some (Inr a5)
       else cpu_loop riscv32_once (\<lambda>j. ticks (Suc (Suc (Suc (Suc (Suc j)))))) n a5)"
    using image_turn [where ticks = "\<lambda>j. ticks (Suc (Suc (Suc (Suc j))))" and n = n,
      OF a4(1) lt(5) d(5) is_mulhsu_no(5) assms(2) img_step_4 good_end_closed] by blast
  have "cpu_loop riscv32_once ticks (Suc (Suc (Suc (Suc (Suc n))))) m = Some (Inr a5)"
    unfolding a1(2) a2(2) a3(2) a4(2) a5(2) using a5(1) by (simp add: good_end_def del: cpu_loop.simps)
  then show ?thesis using a5(1) by blast
qed

lemma builtin_image_runs:
  assumes "isa m = Riscv32" "length (gpr (cpu m)) = 32" "sdl_events (hst m) = []"
    and "status (nemu_state m) = NEMU_STOP" "\<And>j. tk_events (ticks j) = []" "5 \<le> n"
  shows "\<exists>m'. cpu_exec riscv32_once ticks n (init_isa m) = Some (Inr m') \<and> status (nemu_state m') = NEMU_END \<and>
    halt_ret (nemu_state m') = 0 \<and> \<not> is_exit_status_bad m'"
proof -
  let ?m = "set_status NEMU_RUNNING (init_isa m)"
  have "img_pmem (pmem ?m)"
    using img_loaded [of m] by (simp add: init_isa_def restart_def set_status_def set_gpr_def Let_def IMAGE_START_def)
  then have "at_word 0 (\<lambda>g p. True) ?m"
    using assms(1-3)
    by (simp add: at_word_def rv_wf_def init_isa_def restart_def set_status_def set_gpr_def Let_def load_bytes_def
        PMEM_BASE_def IMAGE_START_def)
  moreover have "5 \<le> unat n" using assms(6) by (simp add: word_le_nat_alt)
  then have n: "unat n = Suc (Suc (Suc (Suc (Suc (unat n - 5)))))" by arith
  ultimately obtain m' where "cpu_loop riscv32_once ticks (unat n) ?m = Some (Inr m')" "good_end m'"
    using image_loop [OF _ assms(5), of ?m "\<lambda>j. j" "unat n - 5"] unfolding n [symmetric] by blast
  moreover have "status (nemu_state (init_isa m)) = NEMU_STOP"
    using assms(4) by (simp add: init_isa_def restart_def set_gpr_def load_bytes_def Let_def)
  ultimately show ?thesis
    by (simp add: cpu_exec_def good_end_def is_exit_status_bad_def Let_def del: cpu_loop.simps)
qed

definition still_ticks :: "nat \<Rightarrow> tick" where
  "still_ticks j = \<lparr>tk_alarms = 1, tk_events = [], tk_now = (0, 0)\<rparr>"

lemma started_wf: "rv_wf (init_isa (static_start Riscv32 quiet_host))"
  by (simp add: rv_wf_def init_isa_def restart_def set_gpr_def load_bytes_def static_start_def NR_GPR_def Let_def)

lemma started_stopped: "status (nemu_state (init_isa (static_start Riscv32 quiet_host))) = NEMU_STOP"
  by (simp add: init_isa_def restart_def set_gpr_def load_bytes_def static_start_def Let_def)

lemma started_runs:
  "\<exists>m'. cpu_exec riscv32_once still_ticks 5 (init_isa (static_start Riscv32 quiet_host)) = Some (Inr m')"
  using builtin_image_runs [of "static_start Riscv32 quiet_host" still_ticks 5]
  by (auto simp: static_start_def NR_GPR_def quiet_host_def still_ticks_def)

section \<open>Properties\<close>



text \<open>
  The built-in riscv32 image hits the good trap: started on the freshly initialised machine, with
  any contents of the rest of memory, any other initial registers and any timing of alarms, as long as
  no SDL event arrives and at least five instructions may run, \<open>cpu_exec\<close> ends in \<open>NEMU_END\<close> with return
  value 0 and the exit status is good.
\<close>

theorem builtin_image_good_trap:
  assumes "isa m = Riscv32" "length (gpr (cpu m)) = 32" "sdl_events (hst m) = []"
    and "status (nemu_state m) = NEMU_STOP" "\<And>j. tk_events (ticks j) = []" "5 \<le> n"
  shows "\<exists>m'. cpu_exec riscv32_once ticks n (init_isa m) = Some (Inr m') \<and> status (nemu_state m') = NEMU_END \<and>
    halt_ret (nemu_state m') = 0 \<and> \<not> is_exit_status_bad m'"
  using assms by (rule builtin_image_runs)

theorem builtin_image_good_trap_witness:
  "\<exists>m'. cpu_exec riscv32_once still_ticks 5 (init_isa (static_start Riscv32 quiet_host)) = Some (Inr m')
     \<and> \<not> is_exit_status_bad m'"
  using builtin_image_good_trap [of "static_start Riscv32 quiet_host" still_ticks 5]
  by (auto simp: static_start_def NR_GPR_def quiet_host_def still_ticks_def)

text \<open>
  The engine always returns, also for x86 with its unbounded prefix loop: on a machine with eight
  registers and some unmapped address, \<open>cpu_exec\<close> of any number of instructions under any host schedule
  delivers a result, and it refuses to run a machine that has ended.
\<close>

theorem cpu_exec_returns_x86:
  assumes "x86_wf m"
  shows "(\<exists>r. cpu_exec x86_once ticks n m = Some r) \<and>
    (status (nemu_state m) = NEMU_END \<or> status (nemu_state m) = NEMU_ABORT \<longrightarrow>
      cpu_exec x86_once ticks n m = Some (Inr m))"
  using x86.exec_returns [OF assms] x86.exec_ended by blast

theorem cpu_exec_returns_x86_witness:
  "\<exists>r. cpu_exec x86_once still_ticks (-1) (static_start X86 quiet_host) = Some r"
proof -
  have "unmapped (static_start X86 quiet_host) 0x20000000"
    by (simp add: unmapped_def static_start_def in_pmem_def PMEM_BASE_def PMEM_SIZE_def fetch_mmio_map_def
        find_mapid_by_addr_def)
  then have "x86_wf (static_start X86 quiet_host)"
    by (auto simp: x86_wf_def) (simp add: static_start_def NR_GPR_def)
  then show ?thesis using cpu_exec_returns_x86 by blast
qed

text \<open>
  The exit status: \<open>main\<close> returns success exactly for a program that ended with value 0 or for a
  quit. A quit event the engine polls in the same iteration as a bad trap wins: it overwrites the run
  state, and the failure of the guest is reported as success.
\<close>

theorem quit_event_hides_bad_trap:
  assumes "device_update_flag (alrm m)" "SDL_QUIT \<in> set (sdl_events (hst m))"
    and "after_step m = Inr m'"
  shows "\<not> is_exit_status_bad m' \<and> halt_ret (nemu_state m') = halt_ret (nemu_state m)"
proof -
  have "nemu_state m' = (nemu_state m)\<lparr>status := NEMU_QUIT\<rparr>"
    using assms by (auto simp: after_step_def device_update_def Let_def dest!: handle_events_frame)
  then show ?thesis by (simp add: is_exit_status_bad_def)
qed

theorem quit_event_hides_bad_trap_witness:
  "\<exists>m'. after_step ((static_start Riscv32 quiet_host)
       \<lparr>nemu_state := \<lparr>status = NEMU_END, halt_pc = 0, halt_ret = 1\<rparr>,
        alrm := \<lparr>handlers = [], jiffy = 0, device_update_flag = True\<rparr>,
        hst := quiet_host\<lparr>sdl_events := [SDL_QUIT]\<rparr>\<rparr>) = Inr m'
     \<and> \<not> is_exit_status_bad m' \<and> halt_ret (nemu_state m') = 1"
proof -
  let ?m = "(static_start Riscv32 quiet_host)
       \<lparr>nemu_state := \<lparr>status = NEMU_END, halt_pc = 0, halt_ret = 1\<rparr>,
        alrm := \<lparr>handlers = [], jiffy = 0, device_update_flag = True\<rparr>,
        hst := quiet_host\<lparr>sdl_events := [SDL_QUIT]\<rparr>\<rparr>"
  have "\<exists>m'. after_step ?m = Inr m'"
    by (simp add: after_step_def device_update_def Let_def)
  then obtain m' where "after_step ?m = Inr m'" by blast
  then show ?thesis using quit_event_hides_bad_trap [of ?m m'] by simp
qed

end
