(* ===== verification/Gdb.thy ===== *)
theory Gdb
  imports NemuPrelude
begin

text \<open>
  The client of the GDB remote protocol NEMU compares itself with QEMU through:
  \<open>nemu/tools/qemu-diff/src/protocol.c\<close>, \<open>gdb-host.c\<close> and the register part of \<open>diff-test.c\<close>.

  A connection is the list of bytes the peer is going to send, the list of bytes written so far and
  the flag \<open>ack\<close>. Reading past the end of the first list is reading \<open>EOF\<close>. Sockets, write errors
  and the processes involved are not modelled. A routine returns \<open>None\<close> when it does not return.
\<close>

section \<open>Hexadecimal\<close>

definition ascii :: "string \<Rightarrow> u8 list" where
  "ascii s = map of_char s"

definition c_isdigit8 :: "u8 \<Rightarrow> bool" where
  "c_isdigit8 c \<longleftrightarrow> 48 \<le> c \<and> c \<le> 57"

definition c_isxdigit8 :: "u8 \<Rightarrow> bool" where
  "c_isxdigit8 c \<longleftrightarrow> c_isdigit8 c \<or> 65 \<le> c \<and> c \<le> 70 \<or> 97 \<le> c \<and> c \<le> 102"

definition c_tolower8 :: "u8 \<Rightarrow> u8" where
  "c_tolower8 c = (if 65 \<le> c \<and> c \<le> 90 then c + 32 else c)"

definition hex_nibble :: "u8 \<Rightarrow> u8" where
  "hex_nibble h = (if c_isdigit8 h then h - 48 else c_tolower8 h - 97 + 10)"

definition hex_encode :: "u8 \<Rightarrow> u8" where
  "hex_encode digit = (if 9 < digit then 97 + digit - 10 else 48 + digit)"

definition gdb_decode_hex :: "u8 \<Rightarrow> u8 \<Rightarrow> u16" where
  "gdb_decode_hex msb lsb =
     (if \<not> c_isxdigit8 msb \<or> \<not> c_isxdigit8 lsb then 0xFFFF
      else 16 * ucast (hex_nibble msb) + ucast (hex_nibble lsb))"

text \<open>The bytes at the pointer; a loop that runs off the end of the list has left the object.\<close>

fun decode_loop :: "u64 \<Rightarrow> u64 \<Rightarrow> u8 list \<Rightarrow> fault + u64" where
  "decode_loop v weight [] = Inl Out_Of_Bounds"
| "decode_loop v weight [b] = (if c_isxdigit8 b then Inl Out_Of_Bounds else Inr v)"
| "decode_loop v weight (b # b' # bytes) =
     (if c_isxdigit8 b \<and> c_isxdigit8 b'
      then decode_loop (v + weight * ucast (gdb_decode_hex b b')) (weight * (16 * 16)) bytes
      else Inr v)"

definition gdb_decode_hex_str :: "u8 list \<Rightarrow> fault + u64" where
  "gdb_decode_hex_str bytes = decode_loop 0 1 bytes"

text \<open>The conversions \<open>%x\<close> and \<open>%02X\<close> of \<open>sprintf\<close> and \<open>fprintf\<close>.\<close>

fun fmt_x :: "nat \<Rightarrow> u8 list" where
  "fmt_x n = (if n < 16 then [hex_encode (of_nat n)] else fmt_x (n div 16) @ [hex_encode (of_nat (n mod 16))])"

declare fmt_x.simps [simp del]

definition upper_digit :: "u8 \<Rightarrow> u8" where
  "upper_digit digit = (if 9 < digit then 65 + digit - 10 else 48 + digit)"

definition fmt_02X :: "u8 \<Rightarrow> u8 list" where
  "fmt_02X b = [upper_digit (drop_bit 4 b), upper_digit (b AND 0xF)]"

section \<open>Packets\<close>

record gdb_conn =
  g_in :: "u8 list"
  g_out :: "u8 list"
  ack :: bool

definition gdb_put :: "u8 list \<Rightarrow> gdb_conn \<Rightarrow> gdb_conn" where
  "gdb_put bs c = c\<lparr>g_out := g_out c @ bs\<rparr>"

definition gdb_begin :: "u8 list \<Rightarrow> gdb_conn" where
  "gdb_begin peer = gdb_put (ascii ''+'') \<lparr>g_in = peer, g_out = [], ack = True\<rparr>"

definition send_packet :: "u8 list \<Rightarrow> gdb_conn \<Rightarrow> gdb_conn" where
  "send_packet command c =
     (let csum = foldl (+) 0 command
      in gdb_put (ascii ''#'' @ fmt_02X csum) (gdb_put command (gdb_put (ascii ''$'') c)))"

partial_function (option) gdb_send :: "u8 list \<Rightarrow> gdb_conn \<Rightarrow> gdb_conn option" where
  "gdb_send command c =
     (let c = send_packet command c
      in if \<not> ack c then Some c
         else case g_in c of
             [] \<Rightarrow> gdb_send command c
           | ch # rest \<Rightarrow>
               if ch = 0x2B then Some (c\<lparr>g_in := rest\<rparr>) else gdb_send command (c\<lparr>g_in := rest\<rparr>))"

text \<open>
  \<open>recv_packet\<close>. The reply buffer has \<open>cap\<close> bytes, of which the list holds the first \<open>i\<close>; a store
  at an index outside it is a fault. The result: the bytes received, whether the checksum was right,
  and what the peer sends next.
\<close>

definition put_reply :: "nat \<Rightarrow> u8 list \<Rightarrow> u8 list \<Rightarrow> fault + u8 list" where
  "put_reply cap reply bs = (if length reply + length bs \<le> cap then Inr (reply @ bs) else Inl Out_Of_Bounds)"

definition bad_count :: "u8 \<Rightarrow> bool" where
  "bad_count c2 \<longleftrightarrow> c2 < 29 \<or> 126 < c2 \<or> c2 = 0x24 \<or> c2 = 0x23"

text \<open>\<open>fgetc\<close> converted to \<open>uint8_t\<close>: the end of input reads as 255.\<close>

definition fgetc8 :: "u8 list \<Rightarrow> u8 \<times> u8 list" where
  "fgetc8 i = (case i of [] \<Rightarrow> (255, []) | c # rest \<Rightarrow> (c, rest))"

definition end_packet :: "u8 list \<Rightarrow> nat \<Rightarrow> u8 list \<Rightarrow> u8 \<Rightarrow> fault + (u8 list \<times> bool \<times> u8 list)" where
  "end_packet i cap reply csum =
     (let (msb, i) = fgetc8 i; (lsb, i) = fgetc8 i; sum_ok = (ucast csum = gdb_decode_hex msb lsb);
          cap = (if length reply = cap then cap + 1 else cap)
      in bnd (put_reply cap reply [0]) (\<lambda>_. Inr (reply, sum_ok, i)))"

definition add_char :: "nat \<Rightarrow> u8 list \<Rightarrow> bool \<Rightarrow> u8 \<Rightarrow> fault + (nat \<times> u8 list)" where
  "add_char cap reply escape c =
     (let c = (if escape then c XOR 0x20 else c); cap = (if length reply = cap then cap * 2 else cap)
      in bnd (put_reply cap reply [c]) (\<lambda>reply. Inr (cap, reply)))"

definition repeat_char :: "nat \<Rightarrow> u8 list \<Rightarrow> u8 \<Rightarrow> fault + (nat \<times> u8 list)" where
  "repeat_char cap reply c2 =
     (let count = unat c2 - 29; cap = (if cap < length reply + count then cap * 2 else cap)
      in bnd (put_reply cap reply (replicate count (last reply))) (\<lambda>reply. Inr (cap, reply)))"

function (sequential) recv_loop ::
  "u8 list \<Rightarrow> nat \<Rightarrow> u8 list \<Rightarrow> u8 \<Rightarrow> bool \<Rightarrow> fault + (u8 list \<times> bool \<times> u8 list)" where
  "recv_loop [] cap reply csum escape = Inl Conn_Closed"
| "recv_loop (c # i) cap reply csum escape =
     (let csum = csum + c
      in if c = 0x24 then recv_loop i cap [] 0 False
         else if c = 0x23 then end_packet i cap reply (csum - c)
         else if c = 0x7D then recv_loop i cap reply csum True
         else if c = 0x2A \<and> reply \<noteq> [] \<and> i \<noteq> [] \<and> \<not> bad_count (hd i) then
           bnd (repeat_char cap reply (hd i)) (\<lambda>(cap, reply). recv_loop (tl i) cap reply (csum + hd i) escape)
         else
           bnd (add_char cap reply escape c) (\<lambda>(cap, reply). recv_loop i cap reply csum False))"
  by pat_completeness auto
termination
  by (relation "measure (\<lambda>(i, _). length i)") auto

definition recv_packet :: "u8 list \<Rightarrow> fault + (u8 list \<times> bool \<times> u8 list)" where
  "recv_packet i = recv_loop (tl (dropWhile (\<lambda>c. c \<noteq> 0x24) i)) 4096 [] 0 False"

definition gdb_recv_once :: "gdb_conn \<Rightarrow> fault + (u8 list \<times> bool \<times> gdb_conn)" where
  "gdb_recv_once c = bnd (recv_packet (g_in c)) (\<lambda>(reply, sum_ok, i).
     let c = c\<lparr>g_in := i\<rparr>
     in Inr (reply, sum_ok, if ack c then gdb_put (ascii (if sum_ok then ''+'' else ''-'')) c else c))"

text \<open>A packet takes at least one byte, so the loop that asks for a packet again ends.\<close>

lemma end_packet_shorter: "end_packet i cap reply csum = Inr (r, b, i') \<Longrightarrow> length i' \<le> length i"
  by (auto simp: end_packet_def fgetc8_def Let_def bnd_simps split: list.splits prod.splits)

lemma recv_loop_shorter: "recv_loop i cap reply csum escape = Inr (r, b, i') \<Longrightarrow> length i' < length i"
proof (induction i cap reply csum escape rule: recv_loop.induct)
  case (2 c i cap reply csum escape)
  show ?case
  proof (cases "c = 0x23")
    case True
    then show ?thesis using 2(5) end_packet_shorter by (force simp: Let_def)
  next
    case False
    then show ?thesis using 2 by (auto simp: Let_def bnd_simps split: if_splits prod.splits) fastforce+
  qed
qed simp

lemma recv_packet_shorter: "recv_packet i = Inr (r, b, i') \<Longrightarrow> length i' < length i"
proof -
  assume "recv_packet i = Inr (r, b, i')"
  then have "length i' < length (tl (dropWhile (\<lambda>c. c \<noteq> 0x24) i))"
    unfolding recv_packet_def by (rule recv_loop_shorter)
  also have "\<dots> \<le> length i" using length_dropWhile_le [of "\<lambda>c. c \<noteq> 0x24" i] by simp
  finally show ?thesis .
qed

function gdb_recv :: "gdb_conn \<Rightarrow> fault + (u8 list \<times> gdb_conn)" where
  "gdb_recv c = (case gdb_recv_once c of
      Inl e \<Rightarrow> Inl e
    | Inr (reply, sum_ok, c') \<Rightarrow> if \<not> ack c \<or> sum_ok then Inr (reply, c') else gdb_recv c')"
  by pat_completeness auto
termination
proof (relation "measure (\<lambda>c. length (g_in c))")
  fix c x y reply z sum_ok c'
  assume "gdb_recv_once c = Inr y" "(reply, z) = y" "(sum_ok, c') = z"
  then show "(c', c) \<in> measure (\<lambda>c. length (g_in c))"
    using recv_packet_shorter by (auto simp: gdb_recv_once_def bnd_simps Let_def gdb_put_def split: if_splits)
qed simp

declare gdb_recv.simps [simp del]

text \<open>One exchange: a command, and the peer's reply to it.\<close>

definition gdb_call :: "u8 list \<Rightarrow> gdb_conn \<Rightarrow> (fault + (u8 list \<times> gdb_conn)) option" where
  "gdb_call command c = (case gdb_send command c of None \<Rightarrow> None | Some c \<Rightarrow> Some (gdb_recv c))"

text \<open>\<open>strcmp\<close> with a reply, which the terminator of \<open>recv_packet\<close> ends.\<close>

definition reply_is :: "string \<Rightarrow> u8 list \<Rightarrow> bool" where
  "reply_is s reply \<longleftrightarrow> takeWhile (\<lambda>b. b \<noteq> 0) reply = ascii s"

definition gdb_start_noack :: "gdb_conn \<Rightarrow> (fault + (bool \<times> gdb_conn)) option" where
  "gdb_start_noack c = obnd (gdb_call (ascii ''QStartNoAckMode'') c) (\<lambda>(reply, c).
     let okay = (length reply = 2 \<and> reply_is ''OK'' reply)
     in Some (Inr (okay, if okay then c\<lparr>ack := False\<rparr> else c)))"

section \<open>Memory and registers of the peer\<close>

definition hex_bytes :: "u8 list \<Rightarrow> u8 list" where
  "hex_bytes bs = concat (map (\<lambda>b. [hex_encode (drop_bit 4 b), hex_encode (b AND 0xF)]) bs)"

definition gdb_memcpy_to_qemu_small :: "u32 \<Rightarrow> u8 list \<Rightarrow> gdb_conn \<Rightarrow> (fault + (bool \<times> gdb_conn)) option" where
  "gdb_memcpy_to_qemu_small dest src c =
     obnd (gdb_call (ascii ''M0x'' @ fmt_x (unat dest) @ ascii '','' @ fmt_x (length src) @ ascii '':'' @ hex_bytes src) c)
       (\<lambda>(reply, c). Some (Inr (reply_is ''OK'' reply, c)))"

function gdb_memcpy_to_qemu :: "u32 \<Rightarrow> u8 list \<Rightarrow> bool \<Rightarrow> gdb_conn \<Rightarrow> (fault + (bool \<times> gdb_conn)) option" where
  "gdb_memcpy_to_qemu dest src okay c =
     (if 1500 < length src then
        obnd (gdb_memcpy_to_qemu_small dest (take 1500 src) c) (\<lambda>(b, c).
          gdb_memcpy_to_qemu (dest + 1500) (drop 1500 src) (okay \<and> b) c)
      else obnd (gdb_memcpy_to_qemu_small dest src c) (\<lambda>(b, c). Some (Inr (okay \<and> b, c))))"
  by pat_completeness auto
termination by (relation "measure (\<lambda>(_, src, _). length src)") auto

declare gdb_memcpy_to_qemu.simps [simp del]

text \<open>
  \<open>gdb_getregs\<close> reads 77 words of eight digits whatever the length of the reply. The buffer is
  the reply, its terminator and bytes of the heap that nobody wrote, which the argument \<open>junk\<close> gives.
\<close>

definition reply_buf :: "(nat \<Rightarrow> u8) \<Rightarrow> u8 list \<Rightarrow> nat \<Rightarrow> u8" where
  "reply_buf junk reply k = (if k < length reply then reply ! k else if k = length reply then 0 else junk k)"

definition get_reg :: "(nat \<Rightarrow> u8) \<Rightarrow> u8 list \<Rightarrow> nat \<Rightarrow> fault + u32" where
  "get_reg junk reply i =
     (if 8 * i + 8 < max 4096 (length reply + 1)
      then bnd (gdb_decode_hex_str (map (reply_buf junk reply) [8 * i..<8 * i + 8] @ [0])) (\<lambda>v. Inr (ucast v))
      else Inl Out_Of_Bounds)"

primrec get_regs :: "(nat \<Rightarrow> u8) \<Rightarrow> u8 list \<Rightarrow> nat \<Rightarrow> fault + u32 list" where
  "get_regs junk reply 0 = Inr []"
| "get_regs junk reply (Suc i) =
     bnd (get_regs junk reply i) (\<lambda>rs. bnd (get_reg junk reply i) (\<lambda>r. Inr (rs @ [r])))"

definition gdb_getregs :: "(nat \<Rightarrow> u8) \<Rightarrow> gdb_conn \<Rightarrow> (fault + (u32 list \<times> gdb_conn)) option" where
  "gdb_getregs junk c = obnd (gdb_call (ascii ''g'') c) (\<lambda>(reply, c).
     Some (bnd (get_regs junk reply 77) (\<lambda>rs. Inr (rs, c))))"

text \<open>The bytes of the register array, as a little-endian host holds them.\<close>

definition word_bytes :: "u32 \<Rightarrow> u8 list" where
  "word_bytes w = [byte_at 0 w, byte_at 1 w, byte_at 2 w, byte_at 3 w]"

definition regs_payload :: "u32 list \<Rightarrow> u8 list" where
  "regs_payload rs = hex_bytes (concat (map word_bytes rs))"

definition gdb_setregs :: "u32 list \<Rightarrow> gdb_conn \<Rightarrow> (fault + (bool \<times> gdb_conn)) option" where
  "gdb_setregs rs c = obnd (gdb_call (ascii ''G'' @ regs_payload rs) c) (\<lambda>(reply, c).
     Some (Inr (reply_is ''OK'' reply, c)))"

definition gdb_si :: "gdb_conn \<Rightarrow> (fault + (bool \<times> gdb_conn)) option" where
  "gdb_si c = obnd (gdb_call (ascii ''vCont;s:1'') c) (\<lambda>(reply, c). Some (Inr (True, c)))"

section \<open>What NEMU calls\<close>

definition difftest_memcpy_from_dut :: "u32 \<Rightarrow> u8 list \<Rightarrow> gdb_conn \<Rightarrow> (fault + gdb_conn) option" where
  "difftest_memcpy_from_dut dest src c = obnd (gdb_memcpy_to_qemu dest src True c) (\<lambda>(okay, c).
     if okay then Some (Inr c) else Some (Inl Assert_Fail))"

text \<open>\<open>n\<close> is \<open>DIFFTEST_REG_SIZE\<close> in words: 33 on riscv32, 38 on mips32, 9 on x86.\<close>

definition difftest_getregs :: "nat \<Rightarrow> (nat \<Rightarrow> u8) \<Rightarrow> gdb_conn \<Rightarrow> (fault + (u32 list \<times> gdb_conn)) option" where
  "difftest_getregs n junk c = obnd (gdb_getregs junk c) (\<lambda>(rs, c). Some (Inr (take n rs, c)))"

definition difftest_setregs :: "nat \<Rightarrow> (nat \<Rightarrow> u8) \<Rightarrow> u32 list \<Rightarrow> gdb_conn \<Rightarrow> (fault + gdb_conn) option" where
  "difftest_setregs n junk r c = obnd (gdb_getregs junk c) (\<lambda>(rs, c).
     obnd (gdb_setregs (take n r @ drop n rs) c) (\<lambda>(_, c). Some (Inr c)))"

primrec difftest_exec :: "nat \<Rightarrow> gdb_conn \<Rightarrow> (fault + gdb_conn) option" where
  "difftest_exec 0 c = Some (Inr c)"
| "difftest_exec (Suc n) c = obnd (gdb_si c) (\<lambda>(_, c). difftest_exec n c)"

text \<open>
  What \<open>difftest_init\<close> has QEMU execute before the comparison: on riscv32 a program that opens all of
  memory to supervisor mode, on x86 a boot sector that enters protected mode; mips32 needs none. The
  element of the register array the code names \<open>pc\<close> is 32, \<open>eip\<close> and \<open>cs\<close> are 8 and 10.
\<close>

definition initcode :: "u32 list" where
  "initcode = [0x800006b7, 0x03c68693, 0x30569073, 0xfff00513, 0x01f00593, 0x3b051073, 0x3a059073,
     0x000c1637, 0x80060613, 0x30061073, 0x00468693, 0x34169073, 0x30251073, 0x30200073,
     0x0000006f, 0x0000006f, 0x0000006f, 0x0000006f]"

definition mbr :: "u8 list" where
  "mbr = [0xfa, 0x31, 0xc0, 0x8e, 0xd8, 0x8e, 0xc0, 0x8e, 0xd0, 0x0f, 0x01, 0x16, 0x44, 0x7c,
     0x0f, 0x20, 0xc0, 0x66, 0x83, 0xc8, 0x01, 0x0f, 0x22, 0xc0, 0xea, 0x1d, 0x7c, 0x08, 0x00,
     0x66, 0xb8, 0x10, 0x00, 0x8e, 0xd8, 0x8e, 0xc0, 0x8e, 0xd0, 0xeb, 0xfe, 0x8d, 0x76, 0x00,
     0x00, 0x00, 0x00, 0x00, 0x00, 0x00, 0x00, 0x00, 0xff, 0xff, 0x00, 0x00, 0x00, 0x9a, 0xcf, 0x00,
     0xff, 0xff, 0x00, 0x00, 0x00, 0x92, 0xcf, 0x00, 0x17, 0x00, 0x2c, 0x7c, 0x00, 0x00]"

definition start_peer :: "u32 \<Rightarrow> u8 list \<Rightarrow> (u32 list \<Rightarrow> u32 list) \<Rightarrow> (nat \<Rightarrow> u8) \<Rightarrow> gdb_conn \<Rightarrow> (fault + gdb_conn) option" where
  "start_peer dest code edit junk c = obnd (gdb_memcpy_to_qemu dest code True c) (\<lambda>(okay, c).
     if \<not> okay then Some (Inl Assert_Fail)
     else obnd (gdb_getregs junk c) (\<lambda>(r, c).
       obnd (gdb_setregs (edit r) c) (\<lambda>(okay, c).
         if \<not> okay then Some (Inl Assert_Fail) else difftest_exec 20 c)))"

definition riscv32_init_peer :: "(nat \<Rightarrow> u8) \<Rightarrow> gdb_conn \<Rightarrow> (fault + gdb_conn) option" where
  "riscv32_init_peer = start_peer 0x80000000 (concat (map word_bytes initcode)) (\<lambda>r. r[32 := 0x80000000])"

definition x86_init_peer :: "(nat \<Rightarrow> u8) \<Rightarrow> gdb_conn \<Rightarrow> (fault + gdb_conn) option" where
  "x86_init_peer = start_peer 0x7c00 mbr (\<lambda>r. r[8 := 0x7c00, 10 := 0])"

end
