(* ===== verification/GdbProps.thy ===== *)
theory GdbProps
  imports Gdb
begin

text \<open>
  The GDB client: digits and checksums, packets and their reception, exchanges over a line that loses
  acknowledgements and damages packets, the bounds of the reply buffer, and the registers, whose
  encoding interprets the locale \<open>chunk_codec\<close> of encodings in chunks of a fixed length.
\<close>

section \<open>Digits\<close>

lemma nibble_cases:
  assumes "d < (16 :: u8)"
  obtains "d = 0" | "d = 1" | "d = 2" | "d = 3" | "d = 4" | "d = 5" | "d = 6" | "d = 7" | "d = 8" | "d = 9"
    | "d = 10" | "d = 11" | "d = 12" | "d = 13" | "d = 14" | "d = 15"
proof -
  have "unat d < 16" using assms by (simp add: word_less_nat_alt)
  then have "unat d = 0 \<or> unat d = 1 \<or> unat d = 2 \<or> unat d = 3 \<or> unat d = 4 \<or> unat d = 5 \<or> unat d = 6 \<or> unat d = 7
    \<or> unat d = 8 \<or> unat d = 9 \<or> unat d = 10 \<or> unat d = 11 \<or> unat d = 12 \<or> unat d = 13 \<or> unat d = 14 \<or> unat d = 15"
    by (simp only: eval_nat_numeral less_Suc_eq BitM.simps) simp
  then show ?thesis using that by (auto simp: word_unat_eq_iff)
qed

lemma digits:
  assumes "d < 16"
  shows "c_isxdigit8 (hex_encode d)" "hex_nibble (hex_encode d) = d"
    "c_isxdigit8 (upper_digit d)" "hex_nibble (upper_digit d) = d"
  by (rule nibble_cases [OF assms]; simp add: hex_encode_def upper_digit_def c_isxdigit8_def c_isdigit8_def
      hex_nibble_def c_tolower8_def)+

lemma nibbles:
  fixes b :: u8
  shows "drop_bit 4 b < 16" "b AND 0xF < 16"
    "16 * ucast (drop_bit 4 b) + ucast (b AND 0xF) = (ucast b :: u16)"
proof -
  have h: "unat (drop_bit 4 b) = unat b div 16"
    using unsigned_less [of b, where 'a = nat] by (subst unsigned_drop_bit_eq) (simp add: drop_bit_eq_div take_bit_nat_eq_self)
  have l: "unat (b AND 0xF) = unat b mod 16"
    using take_bit_eq_mask [of 4 "unat b"] by (simp add: unsigned_and_eq mask_eq_exp_minus_1 take_bit_eq_mod)
  have b: "unat b < 256" using unsigned_less [of b, where 'a = nat] by simp
  show "drop_bit 4 b < 16" "b AND 0xF < 16" using b by (simp_all only: word_less_nat_alt h l) auto
  have u: "unat (ucast x :: u16) = unat x" for x :: u8
    using unsigned_less [of x, where 'a = nat] by (simp add: unsigned_ucast_eq take_bit_nat_eq_self)
  have "unat (16 * ucast (drop_bit 4 b) + ucast (b AND 0xF) :: u16) = unat (ucast b :: u16)"
    using b by (simp only: unat_word_ariths u h l) simp
  then show "16 * ucast (drop_bit 4 b) + ucast (b AND 0xF) = (ucast b :: u16)" by (simp add: word_unat_eq_iff)
qed

lemma decode_encode: "gdb_decode_hex (hex_encode (drop_bit 4 b)) (hex_encode (b AND 0xF)) = ucast b"
  by (simp add: gdb_decode_hex_def digits nibbles)

lemma decode_checksum: "fmt_02X b = [x, y] \<Longrightarrow> gdb_decode_hex x y = ucast b"
  by (auto simp: fmt_02X_def gdb_decode_hex_def digits nibbles)

section \<open>Packets\<close>

text \<open>A packet as it goes over the line, and the bytes that may stand in one unescaped.\<close>

definition checksum :: "u8 list \<Rightarrow> u8" where
  "checksum p = foldl (+) 0 p"

definition packet :: "u8 list \<Rightarrow> u8 list" where
  "packet p = 0x24 # p @ 0x23 # fmt_02X (checksum p)"

definition plain :: "u8 \<Rightarrow> bool" where
  "plain b \<longleftrightarrow> b \<noteq> 0x24 \<and> b \<noteq> 0x23 \<and> b \<noteq> 0x7D \<and> b \<noteq> 0x2A"

lemma send_packet_eq: "send_packet p c = c\<lparr>g_out := g_out c @ packet p\<rparr>"
  by (simp add: send_packet_def gdb_put_def packet_def checksum_def ascii_def Let_def of_char_def)

lemma recv_plain:
  "\<forall>b \<in> set p. plain b \<Longrightarrow> length reply \<le> cap \<Longrightarrow> 0 < cap \<Longrightarrow>
   \<exists>cap'. length (reply @ p) \<le> cap' \<and> recv_loop (p @ 0x23 # i) cap reply csum False
     = end_packet i cap' (reply @ p) (foldl (+) csum p)"
proof (induction p arbitrary: cap reply csum)
  case Nil
  then show ?case by (auto simp: Let_def)
next
  case (Cons b p)
  let ?cap = "if length reply = cap then cap * 2 else cap"
  have add: "add_char cap reply False b = Inr (?cap, reply @ [b])"
    using Cons.prems by (simp add: add_char_def put_reply_def)
  have "length (reply @ [b]) \<le> ?cap" "0 < ?cap" using Cons.prems by auto
  then obtain cap' where "length ((reply @ [b]) @ p) \<le> cap'"
      "recv_loop (p @ 0x23 # i) ?cap (reply @ [b]) (csum + b) False = end_packet i cap' ((reply @ [b]) @ p) (foldl (+) (csum + b) p)"
    using Cons.IH [of "reply @ [b]" ?cap "csum + b"] Cons.prems(1) by auto
  then show ?case using Cons.prems(1) by (auto simp: plain_def Let_def add)
qed

lemma recv_packet_plain:
  assumes "\<forall>b \<in> set p. plain b"
  shows "recv_packet (0x24 # p @ 0x23 # x # y # rest) = Inr (p, ucast (checksum p) = gdb_decode_hex x y, rest)"
proof -
  obtain cap where "length p \<le> cap"
      "recv_loop (p @ 0x23 # x # y # rest) 4096 [] 0 False = end_packet (x # y # rest) cap p (checksum p)"
    using recv_plain [of p "[]" 4096 "x # y # rest" 0] assms by (auto simp: checksum_def)
  then show ?thesis by (simp add: recv_packet_def end_packet_def fgetc8_def put_reply_def)
qed

lemma recv_packet_packet:
  "\<forall>b \<in> set p. plain b \<Longrightarrow> recv_packet (packet p @ rest) = Inr (p, True, rest)"
  using recv_packet_plain [of p "upper_digit (drop_bit 4 (checksum p))" "upper_digit (checksum p AND 0xF)" rest]
    decode_checksum [of "checksum p"] by (simp add: packet_def fmt_02X_def)

section \<open>Exchanges\<close>

lemma conn_swap [simp]: "c\<lparr>g_in := i, g_out := out\<rparr> = c\<lparr>g_out := out, g_in := i\<rparr>" for c :: gdb_conn
  by simp

text \<open>A packet damaged on the line: its two checksum characters do not name its checksum.\<close>

definition damaged :: "u8 list \<Rightarrow> bool" where
  "damaged g \<longleftrightarrow> (\<exists>p x y. g = 0x24 # p @ [0x23, x, y] \<and> (\<forall>b \<in> set p. plain b) \<and> gdb_decode_hex x y \<noteq> ucast (checksum p))"

lemma gdb_recv_good:
  assumes "\<forall>b \<in> set p. plain b"
  shows "gdb_recv (c\<lparr>g_in := packet p @ rest\<rparr>)
    = Inr (p, c\<lparr>g_in := rest, g_out := g_out c @ (if ack c then [0x2B] else [])\<rparr>)"
  by (subst gdb_recv.simps)
    (simp add: gdb_recv_once_def recv_packet_packet [OF assms] gdb_put_def Let_def ascii_def of_char_def)

lemma gdb_recv_damaged:
  assumes "ack c" "damaged g"
  shows "gdb_recv (c\<lparr>g_in := g @ i\<rparr>) = gdb_recv (c\<lparr>g_in := i, g_out := g_out c @ [0x2D]\<rparr>)"
proof -
  obtain p x y where g: "g = 0x24 # p @ [0x23, x, y]" "\<forall>b \<in> set p. plain b" "gdb_decode_hex x y \<noteq> ucast (checksum p)"
    using assms(2) unfolding damaged_def by blast
  have "recv_packet (g @ i) = Inr (p, False, i)" using recv_packet_plain [OF g(2), of x y i] g(1,3) by simp
  then have "gdb_recv_once (c\<lparr>g_in := g @ i\<rparr>) = Inr (p, False, c\<lparr>g_in := i, g_out := g_out c @ [0x2D]\<rparr>)"
    using assms(1) by (simp add: gdb_recv_once_def gdb_put_def Let_def ascii_def of_char_def)
  then show ?thesis using assms(1) by (subst gdb_recv.simps) simp
qed

lemma gdb_recv_noise:
  assumes "\<forall>b \<in> set p. plain b" "ack c" "\<forall>g \<in> set gs. damaged g"
  shows "gdb_recv (c\<lparr>g_in := concat gs @ packet p @ rest\<rparr>)
    = Inr (p, c\<lparr>g_in := rest, g_out := g_out c @ replicate (length gs) 0x2D @ [0x2B]\<rparr>)"
  using assms(2,3)
proof (induction gs arbitrary: c)
  case Nil
  then show ?case using gdb_recv_good [OF assms(1), of rest c] by simp
next
  case (Cons g gs)
  have "gdb_recv (c\<lparr>g_in := concat (g # gs) @ packet p @ rest\<rparr>)
      = gdb_recv (c\<lparr>g_in := concat gs @ packet p @ rest, g_out := g_out c @ [0x2D]\<rparr>)"
    using gdb_recv_damaged [of c g "concat gs @ packet p @ rest"] Cons.prems by simp
  then show ?case using Cons.IH [of "c\<lparr>g_out := g_out c @ [0x2D]\<rparr>"] Cons.prems by simp
qed

lemma gdb_send_unacked: "\<not> ack c \<Longrightarrow> gdb_send p c = Some (c\<lparr>g_out := g_out c @ packet p\<rparr>)"
  by (subst gdb_send.simps) (simp add: send_packet_eq Let_def)

lemma gdb_send_acked:
  assumes "ack c" "0x2B \<notin> set noise"
  shows "gdb_send p (c\<lparr>g_in := noise @ 0x2B # i\<rparr>)
    = Some (c\<lparr>g_in := i, g_out := g_out c @ concat (replicate (Suc (length noise)) (packet p))\<rparr>)"
  using assms
proof (induction noise arbitrary: c)
  case Nil
  then show ?case by (subst gdb_send.simps) (simp add: send_packet_eq Let_def)
next
  case (Cons b noise)
  have "gdb_send p (c\<lparr>g_in := (b # noise) @ 0x2B # i\<rparr>)
      = gdb_send p (c\<lparr>g_in := noise @ 0x2B # i, g_out := g_out c @ packet p\<rparr>)"
    using Cons.prems by (subst gdb_send.simps) (simp add: send_packet_eq Let_def)
  also have "\<dots> = gdb_send p ((c\<lparr>g_out := g_out c @ packet p\<rparr>)\<lparr>g_in := noise @ 0x2B # i\<rparr>)" by simp
  finally show ?case using Cons.IH [of "c\<lparr>g_out := g_out c @ packet p\<rparr>"] Cons.prems by simp
qed

text \<open>Without an acknowledgement in what the peer sends, the loop of \<open>gdb_send\<close> does not end.\<close>

lemma gdb_send_returns:
  assumes "gdb_send p c = Some c'" "ack c"
  shows "0x2B \<in> set (g_in c)"
proof -
  have "ack c \<longrightarrow> 0x2B \<in> set (g_in c)"
  proof (rule gdb_send.raw_induct [of "\<lambda>p c c'. ack c \<longrightarrow> 0x2B \<in> set (g_in c)", OF _ assms(1)])
    fix send p c c'
    assume "\<And>p c c'. send p c = Some c' \<Longrightarrow> ack c \<longrightarrow> 0x2B \<in> set (g_in c)"
      "(let c = send_packet p c in if \<not> ack c then Some c
         else case g_in c of [] \<Rightarrow> send p c
           | ch # rest \<Rightarrow> if ch = 0x2B then Some (c\<lparr>g_in := rest\<rparr>) else send p (c\<lparr>g_in := rest\<rparr>)) = Some c'"
    then show "ack c \<longrightarrow> 0x2B \<in> set (g_in c)"
      by (fastforce simp: Let_def send_packet_eq split: list.splits if_splits)
  qed
  then show ?thesis using assms(2) by simp
qed

lemma gdb_call_ok:
  assumes "ack c" "0x2B \<notin> set noise" "\<forall>g \<in> set gs. damaged g" "\<forall>b \<in> set p. plain b"
  shows "gdb_call command (c\<lparr>g_in := noise @ 0x2B # concat gs @ packet p @ rest\<rparr>)
    = Some (Inr (p, c\<lparr>g_in := rest, g_out := g_out c @ concat (replicate (Suc (length noise)) (packet command))
        @ replicate (length gs) 0x2D @ [0x2B]\<rparr>))"
proof -
  let ?c = "c\<lparr>g_out := g_out c @ concat (replicate (Suc (length noise)) (packet command))\<rparr>"
  have "gdb_call command (c\<lparr>g_in := noise @ 0x2B # concat gs @ packet p @ rest\<rparr>)
      = Some (gdb_recv (?c\<lparr>g_in := concat gs @ packet p @ rest\<rparr>))"
    by (simp add: gdb_call_def gdb_send_acked [OF assms(1,2)])
  then show ?thesis using gdb_recv_noise [OF assms(4) _ assms(3), of ?c rest] assms(1) by simp
qed

section \<open>Bounds of the reply buffer\<close>

lemma recv_loop_in_bounds:
  "length reply \<le> cap \<Longrightarrow> 128 \<le> cap \<Longrightarrow> recv_loop i cap reply csum escape = Inl e \<Longrightarrow> e = Conn_Closed"
proof (induction i cap reply csum escape rule: recv_loop.induct)
  case (2 c i cap reply csum escape)
  let ?star = "c = 0x2A \<and> reply \<noteq> [] \<and> i \<noteq> [] \<and> \<not> bad_count (hd i)"
  consider (dollar) "c = 0x24" | (hash) "c = 0x23" | (brace) "c = 0x7D" | (star) ?star
    | (other) "c \<noteq> 0x24" "c \<noteq> 0x23" "c \<noteq> 0x7D" "\<not> ?star" by blast
  then show ?case
  proof cases
    case hash
    then show ?thesis using 2(5,7) by (auto simp: Let_def end_packet_def put_reply_def split: prod.splits if_splits)
  next
    case star
    let ?r = "reply @ replicate (unat (hd i) - 29) (last reply)"
    have "\<exists>cap'. repeat_char cap reply (hd i) = Inr (cap', ?r) \<and> length ?r \<le> cap' \<and> 128 \<le> cap'"
      using star 2(5,6) by (auto simp: repeat_char_def put_reply_def bad_count_def word_less_nat_alt Let_def)
    then obtain cap' where "repeat_char cap reply (hd i) = Inr (cap', ?r)" "length ?r \<le> cap'" "128 \<le> cap'" by blast
    then show ?thesis using star 2(3,7) by (auto simp: Let_def)
  next
    case other
    have "\<exists>cap' b. add_char cap reply escape c = Inr (cap', reply @ [b]) \<and> length (reply @ [b]) \<le> cap' \<and> 128 \<le> cap'"
      using 2(5,6) by (auto simp: add_char_def put_reply_def Let_def)
    then obtain cap' b where "add_char cap reply escape c = Inr (cap', reply @ [b])" "length (reply @ [b]) \<le> cap'" "128 \<le> cap'"
      by blast
    then show ?thesis using 2(4) [OF refl other] 2(7) other by (auto simp: Let_def)
  qed (use 2(1,2,5-7) in \<open>auto simp: Let_def\<close>)
qed simp

section \<open>Registers\<close>

text \<open>An encoding with chunks of a fixed length, and the encoding of an array with it.\<close>

locale chunk_codec =
  fixes enc :: "'a \<Rightarrow> 'b list" and dec :: "'b list \<Rightarrow> 'a" and w :: nat
  assumes enc_length: "length (enc x) = w" and dec_enc: "dec (enc x) = x"
begin

lemma concat_length: "length (concat (map enc xs)) = w * length xs"
  by (induction xs) (simp_all add: enc_length)

lemma concat_chunk: "i < length xs \<Longrightarrow> take w (drop (w * i) (concat (map enc xs))) = enc (xs ! i)"
proof (induction xs arbitrary: i)
  case (Cons x xs)
  show ?case
  proof (cases i)
    case (Suc j)
    then show ?thesis using Cons by (simp add: enc_length)
  qed (simp add: enc_length)
qed simp

lemma dec_chunk: "i < length xs \<Longrightarrow> dec (take w (drop (w * i) (concat (map enc xs)))) = xs ! i"
  by (simp add: concat_chunk dec_enc)

end

lemma decode_4_bytes:
  "decode_loop 0 1 (hex_bytes [b0, b1, b2, b3] @ [0])
    = Inr (ucast b0 + 256 * ucast b1 + 65536 * ucast b2 + 16777216 * ucast b3)"
proof -
  have x: "c_isxdigit8 (hex_encode (drop_bit 4 b))" "c_isxdigit8 (hex_encode (b AND 0xF))" for b
    by (simp_all add: digits nibbles)
  have z: "\<not> c_isxdigit8 0" by (simp add: c_isxdigit8_def c_isdigit8_def)
  have u: "ucast (ucast b :: u16) = (ucast b :: u64)" for b :: u8
    by (rule bit_word_eqI) (auto simp: bit_simps dest: bit_imp_le_length)
  show ?thesis by (simp add: hex_bytes_def x z decode_encode u)
qed

lemma word_of_bytes:
  "ucast (byte_at 0 r) + 256 * ucast (byte_at 1 r) + 65536 * ucast (byte_at 2 r) + 16777216 * ucast (byte_at 3 r)
     = (ucast r :: u64)"
proof -
  let ?a = "\<lambda>i. ucast (byte_at i r) :: u64"
  have sum2: "?a 0 + push_bit 8 (?a 1) = ?a 0 OR push_bit 8 (?a 1)"
    by (rule disjunctive_add_eq_or, rule bit_word_eqI) (auto simp: bit_simps bit_byte_at)
  have sum3: "(?a 0 OR push_bit 8 (?a 1)) + push_bit 16 (?a 2) = ?a 0 OR push_bit 8 (?a 1) OR push_bit 16 (?a 2)"
    unfolding or.assoc [symmetric]
    by (rule disjunctive_add_eq_or, rule bit_word_eqI) (auto simp: bit_simps bit_byte_at)
  have sum4: "(?a 0 OR push_bit 8 (?a 1) OR push_bit 16 (?a 2)) + push_bit 24 (?a 3)
      = ?a 0 OR push_bit 8 (?a 1) OR push_bit 16 (?a 2) OR push_bit 24 (?a 3)"
    unfolding or.assoc [symmetric]
    by (rule disjunctive_add_eq_or, rule bit_word_eqI) (auto simp: bit_simps bit_byte_at)
  have "?a 0 OR push_bit 8 (?a 1) OR push_bit 16 (?a 2) OR push_bit 24 (?a 3) = ucast r"
  proof (rule bit_word_eqI)
    fix n assume "n < LENGTH(64)"
    consider "n < 8" | "8 \<le> n \<and> n < 16" | "16 \<le> n \<and> n < 24" | "24 \<le> n \<and> n < 32" | "32 \<le> n" by linarith
    then show "bit (?a 0 OR push_bit 8 (?a 1) OR push_bit 16 (?a 2) OR push_bit 24 (?a 3)) n = bit (ucast r :: u64) n"
      using \<open>n < LENGTH(64)\<close> by cases (auto simp: bit_simps bit_byte_at dest: bit_imp_le_length)
  qed
  moreover have "256 * x = push_bit 8 x" "65536 * x = push_bit 16 x" "16777216 * x = push_bit 24 x" for x :: u64
    by (simp_all add: push_bit_eq_mult)
  ultimately show ?thesis by (simp only: sum2 sum3 sum4)
qed

definition reg_text :: "u32 \<Rightarrow> u8 list" where
  "reg_text r = hex_bytes (word_bytes r)"

definition reg_of_text :: "u8 list \<Rightarrow> u32" where
  "reg_of_text t = (case gdb_decode_hex_str (t @ [0]) of Inl e \<Rightarrow> 0 | Inr v \<Rightarrow> ucast v)"

lemma reg_decoded: "gdb_decode_hex_str (reg_text r @ [0]) = Inr (ucast r)"
  unfolding gdb_decode_hex_str_def reg_text_def word_bytes_def decode_4_bytes word_of_bytes ..

lemma down_up: "ucast (ucast r :: u64) = (r :: u32)"
  by (rule bit_word_eqI) (auto simp: bit_simps)

interpretation regs: chunk_codec reg_text reg_of_text 8
proof
  show "length (reg_text r) = 8" for r by (simp add: reg_text_def hex_bytes_def word_bytes_def)
  show "reg_of_text (reg_text r) = r" for r
    using down_up [of r] by (simp only: reg_of_text_def reg_decoded sum.case)
qed

lemma regs_payload_eq: "regs_payload rs = concat (map reg_text rs)"
  by (induction rs) (simp_all add: regs_payload_def reg_text_def hex_bytes_def)

lemma decode_loop_9:
  "length t = 8 \<Longrightarrow> \<exists>v. decode_loop 0 1 (t @ [0]) = Inr v"
proof -
  assume "length t = 8"
  then obtain a b c d e f g h where "t = [a, b, c, d, e, f, g, h]"
    by (auto simp: numeral_eq_Suc length_Suc_conv)
  then show ?thesis by (simp add: c_isxdigit8_def c_isdigit8_def)
qed

lemma get_regs_total:
  assumes "n \<le> 77"
  shows "\<exists>qs. get_regs junk reply n = Inr qs \<and> length qs = n
    \<and> (\<forall>i < n. get_reg junk reply i = Inr (qs ! i))"
  using assms
proof (induction n)
  case (Suc n)
  then obtain qs where qs: "get_regs junk reply n = Inr qs" "length qs = n" "\<forall>i < n. get_reg junk reply i = Inr (qs ! i)"
    by auto
  obtain v where "gdb_decode_hex_str (map (reply_buf junk reply) [8 * n..<8 * n + 8] @ [0]) = Inr v"
    using decode_loop_9 [of "map (reply_buf junk reply) [8 * n..<8 * n + 8]"] by (auto simp: gdb_decode_hex_str_def)
  then have "get_reg junk reply n = Inr (ucast v)" using Suc.prems by (simp add: get_reg_def)
  then show ?case using qs by (auto simp: nth_append less_Suc_eq)
qed simp

lemma get_reg_of_payload:
  assumes "i < length rs" "i < 77"
  shows "get_reg junk (regs_payload rs) i = Inr (rs ! i)"
proof -
  have len: "length (regs_payload rs) = 8 * length rs" by (simp add: regs_payload_eq regs.concat_length)
  have "map (reply_buf junk (regs_payload rs)) [8 * i..<8 * i + 8] = take 8 (drop (8 * i) (regs_payload rs))"
    using assms(1) len by (intro nth_equalityI) (auto simp: reply_buf_def)
  also have "\<dots> = reg_text (rs ! i)" using assms(1) by (simp add: regs_payload_eq regs.concat_chunk)
  finally show ?thesis using assms(2) down_up [of "rs ! i"]
    by (simp only: get_reg_def reg_decoded bnd.simps) (simp add: less_max_iff_disj)
qed

lemma plain_hex:
  assumes "b < 16"
  shows "plain (hex_encode b)"
  by (rule nibble_cases [OF assms]; simp add: plain_def hex_encode_def)

lemma plain_payload: "\<forall>b \<in> set (regs_payload rs). plain b"
  by (auto simp: regs_payload_def hex_bytes_def plain_hex nibbles)

text \<open>The line as a peer that has missed packets, damaged some and answered one leaves it.\<close>

definition answers :: "u8 list \<Rightarrow> u8 list list \<Rightarrow> u8 list \<Rightarrow> u8 list \<Rightarrow> u8 list" where
  "answers noise gs p rest = noise @ 0x2B # concat gs @ packet p @ rest"

text \<open>What the client has sent when it has its reply.\<close>

definition dialogue :: "u8 list \<Rightarrow> u8 list \<Rightarrow> u8 list list \<Rightarrow> u8 list" where
  "dialogue command noise gs =
     concat (replicate (Suc (length noise)) (packet command)) @ replicate (length gs) 0x2D @ [0x2B]"

lemma registers_arrive:
  assumes "ack c" "0x2B \<notin> set noise" "\<forall>g \<in> set gs. damaged g" "n \<le> length rs" "n \<le> 77"
  shows "difftest_getregs n junk (c\<lparr>g_in := answers noise gs (regs_payload rs) rest\<rparr>)
    = Some (Inr (take n rs, c\<lparr>g_in := rest, g_out := g_out c @ dialogue (ascii ''g'') noise gs\<rparr>))"
proof -
  obtain qs where qs: "get_regs junk (regs_payload rs) 77 = Inr qs" "length qs = 77"
      "\<forall>i < 77. get_reg junk (regs_payload rs) i = Inr (qs ! i)"
    using get_regs_total [of 77 junk "regs_payload rs"] by auto
  have "take n qs = take n rs"
    using assms(4,5) qs get_reg_of_payload [of _ rs junk] by (intro nth_equalityI) auto
  then show ?thesis
    using gdb_call_ok [OF assms(1-3) plain_payload, of "ascii ''g''" rs rest] qs(1)
    by (simp add: difftest_getregs_def gdb_getregs_def answers_def dialogue_def)
qed

text \<open>
  C39. Registers arrive. When the peer sends the registers the way \<open>gdb_setregs\<close> writes them, at least
  as many as NEMU's register file has, \<open>difftest_getregs\<close> delivers exactly these, whatever the heap
  holds behind the reply, after any number of bytes that are no acknowledgement (each answered by
  sending the command again) and any number of damaged packets (each answered by a minus sign).
\<close>

theorem gdb_registers_arrive:
  assumes "ack c" "0x2B \<notin> set noise" "\<forall>g \<in> set gs. damaged g" "n \<le> length rs" "n \<le> 77"
  shows "difftest_getregs n junk (c\<lparr>g_in := answers noise gs (regs_payload rs) rest\<rparr>)
    = Some (Inr (take n rs, c\<lparr>g_in := rest, g_out := g_out c @ dialogue (ascii ''g'') noise gs\<rparr>))"
  using assms by (rule registers_arrive)

theorem gdb_registers_arrive_witness:
  "difftest_getregs 1 (\<lambda>_. 0x77) (\<lparr>g_in = [], g_out = [], ack = True\<rparr>
       \<lparr>g_in := answers [0x2D] [[0x24, 0x23, 0x30, 0x31]] (regs_payload [5, 6]) []\<rparr>)
     = Some (Inr ([5], \<lparr>g_in = [], g_out = ascii ''$g#67$g#67-+'', ack = True\<rparr>))"
proof -
  have "damaged [0x24, 0x23, 0x30, 0x31]"
    unfolding damaged_def by (rule exI [of _ "[]"])
      (simp add: gdb_decode_hex_def c_isxdigit8_def c_isdigit8_def hex_nibble_def checksum_def)
  moreover have "dialogue (ascii ''g'') [0x2D] [[0x24, 0x23, 0x30, 0x31]] = ascii ''$g#67$g#67-+''"
    by (simp add: dialogue_def packet_def ascii_def of_char_def checksum_def fmt_02X_def upper_digit_def)
  ultimately show ?thesis
    using gdb_registers_arrive [of "\<lparr>g_in = [], g_out = [], ack = True\<rparr>" "[0x2D]" "[[0x24, 0x23, 0x30, 0x31]]" 1 "[5, 6]"
        "\<lambda>_. 0x77" "[]"] by simp
qed

text \<open>
  C40. Whatever bytes the peer sends, \<open>gdb_recv\<close> stores inside its reply buffer only: run-length counts,
  escapes, restarts in the middle of a packet and missing terminators included. It ends with a packet
  or, where the input ends first, by leaving the program.
\<close>

theorem gdb_recv_in_bounds: "gdb_recv c \<in> insert (Inl Conn_Closed) (range Inr)"
proof (induction c rule: gdb_recv.induct)
  case (1 c)
  show ?case
  proof (cases "gdb_recv_once c")
    case (Inl e)
    then have "recv_packet (g_in c) = Inl e"
      by (cases "recv_packet (g_in c)") (auto simp: gdb_recv_once_def Let_def)
    then have "e = Conn_Closed" unfolding recv_packet_def by (rule recv_loop_in_bounds [rotated 2]) simp_all
    then show ?thesis using Inl by (subst gdb_recv.simps) simp
  next
    case (Inr p)
    then obtain reply sum_ok c' where p: "gdb_recv_once c = Inr (reply, sum_ok, c')" by (cases p) auto
    show ?thesis
    proof (cases "\<not> ack c \<or> sum_ok")
      case True
      then show ?thesis using p by (subst gdb_recv.simps) simp
    next
      case False
      then have "gdb_recv c = gdb_recv c'" using p by (subst gdb_recv.simps) auto
      then show ?thesis using 1 [OF p refl refl] False by simp
    qed
  qed
qed

text \<open>With acknowledgements on, a command is sent until a plus sign comes: without one for ever.\<close>

lemma gdb_send_returns_iff: "ack c \<Longrightarrow> (\<exists>c'. gdb_send p c = Some c') \<longleftrightarrow> 0x2B \<in> set (g_in c)"
proof
  assume "ack c" "0x2B \<in> set (g_in c)"
  moreover obtain noise i where "g_in c = noise @ 0x2B # i" "0x2B \<notin> set noise"
    using split_list_first [of "0x2B :: u8" "g_in c"] calculation by blast
  ultimately show "\<exists>c'. gdb_send p c = Some c'" using gdb_send_acked [of c noise p i]
    by (metis gdb_conn.surjective gdb_conn.update_convs(1))
qed (auto dest: gdb_send_returns)

end
