(* ===== verification/Difftest.thy ===== *)
theory Difftest
  imports CpuExec GdbProps
begin

text \<open>
  Differential testing: \<open>nemu/src/monitor/difftest/dut.c\<close> and the loop of \<open>cpu_exec\<close> as a build with
  \<open>DIFF_TEST\<close> compiles it. The reference is reached through four functions looked up in a shared
  object; they are the record \<open>reference\<close> over a state of their own. The locale \<open>ref_machine\<close> says
  what such functions have to do with the reference's registers; NEMU itself is an instance. The
  functions of \<open>nemu/tools/qemu-diff\<close> over a GDB connection are the record \<open>gdb_reference\<close>.

  Instructions report to this component through \<open>difftest_skip_ref\<close> and \<open>difftest_skip_dut\<close>. The
  step function of the loop lists the calls an instruction made.
\<close>

section \<open>State and interface\<close>

record 'r reference =
  ref_getregs :: "'r \<Rightarrow> (fault + (CPU_state \<times> 'r)) option"
  ref_setregs :: "CPU_state \<Rightarrow> 'r \<Rightarrow> (fault + 'r) option"
  ref_exec :: "nat \<Rightarrow> 'r \<Rightarrow> (fault + 'r) option"
  ref_memcpy :: "u32 \<Rightarrow> u8 list \<Rightarrow> 'r \<Rightarrow> (fault + 'r) option"

record 'r dut =
  dt_mach :: machine
  is_skip_ref :: bool
  skip_dut_nr_instr :: int
  dt_ref :: 'r

definition difftest_skip_ref :: "'r dut \<Rightarrow> 'r dut" where
  "difftest_skip_ref d = d\<lparr>is_skip_ref := True, skip_dut_nr_instr := 0\<rparr>"

primrec exec_ref_times :: "'r reference \<Rightarrow> nat \<Rightarrow> 'r \<Rightarrow> (fault + 'r) option" where
  "exec_ref_times R 0 r = Some (Inr r)"
| "exec_ref_times R (Suc n) r = obnd (ref_exec R 1 r) (exec_ref_times R n)"

definition difftest_skip_dut :: "'r reference \<Rightarrow> int \<Rightarrow> int \<Rightarrow> 'r dut \<Rightarrow> (fault + 'r dut) option" where
  "difftest_skip_dut R nr_ref nr_dut d =
     (let d = d\<lparr>skip_dut_nr_instr := skip_dut_nr_instr d + nr_dut\<rparr>
      in obnd (exec_ref_times R (nat nr_ref) (dt_ref d)) (\<lambda>r. Some (Inr (d\<lparr>dt_ref := r\<rparr>))))"

text \<open>
  With a reference the image and the registers are copied to it. \<open>dlopen\<close> and \<open>dlsym\<close> have found
  the functions of \<open>R\<close>.
\<close>

definition init_difftest :: "'r reference \<Rightarrow> string option \<Rightarrow> nat \<Rightarrow> 'r dut \<Rightarrow> (fault + 'r dut) option" where
  "init_difftest R ref_so_file img_size d =
     (let m = dt_mach d; start = IMAGE_START (isa m); p = guest_to_host start
      in case ref_so_file of
           None \<Rightarrow> Some (Inl Assert_Fail)
         | Some _ \<Rightarrow>
             obnd (ref_memcpy R (start + PMEM_BASE (isa m)) (map (pmem m) [p..<p + img_size]) (dt_ref d)) (\<lambda>r.
             obnd (ref_setregs R (cpu m) r) (\<lambda>r. Some (Inr (d\<lparr>dt_ref := r\<rparr>)))))"

section \<open>Comparing\<close>

definition checkregs :: "CPU_state \<Rightarrow> u32 \<Rightarrow> machine \<Rightarrow> machine" where
  "checkregs ref p m =
     (if isa_difftest_checkregs ref m then m
      else m\<lparr>nemu_state := (nemu_state m)\<lparr>status := NEMU_ABORT, halt_pc := p\<rparr>\<rparr>)"

definition difftest_step :: "'r reference \<Rightarrow> u32 \<Rightarrow> u32 \<Rightarrow> 'r dut \<Rightarrow> (fault + 'r dut) option" where
  "difftest_step R this_pc npc d =
     (if 0 < skip_dut_nr_instr d then
        obnd (ref_getregs R (dt_ref d)) (\<lambda>(ref_r, r).
          let d = d\<lparr>dt_ref := r\<rparr>
          in if pc ref_r = npc
             then Some (Inr (d\<lparr>dt_mach := checkregs ref_r npc (dt_mach d), skip_dut_nr_instr := 0\<rparr>))
             else if skip_dut_nr_instr d - 1 = 0 then Some (Inl Panic)
             else Some (Inr (d\<lparr>skip_dut_nr_instr := skip_dut_nr_instr d - 1\<rparr>)))
      else if is_skip_ref d then
        obnd (ref_setregs R (cpu (dt_mach d)) (dt_ref d)) (\<lambda>r. Some (Inr (d\<lparr>dt_ref := r, is_skip_ref := False\<rparr>)))
      else
        obnd (ref_exec R 1 (dt_ref d)) (\<lambda>r.
        obnd (ref_getregs R r) (\<lambda>(ref_r, r).
          Some (Inr (d\<lparr>dt_ref := r, dt_mach := checkregs ref_r this_pc (dt_mach d)\<rparr>)))))"

section \<open>The loop\<close>

datatype dt_call = Skip_ref | Skip_dut int int

definition dt_call_run :: "'r reference \<Rightarrow> dt_call \<Rightarrow> 'r dut \<Rightarrow> (fault + 'r dut) option" where
  "dt_call_run R c d = (case c of
      Skip_ref \<Rightarrow> Some (Inr (difftest_skip_ref d))
    | Skip_dut nr_ref nr_dut \<Rightarrow> difftest_skip_dut R nr_ref nr_dut d)"

primrec dt_calls_run :: "'r reference \<Rightarrow> dt_call list \<Rightarrow> 'r dut \<Rightarrow> (fault + 'r dut) option" where
  "dt_calls_run R [] d = Some (Inr d)"
| "dt_calls_run R (c # cs) d = obnd (dt_call_run R c d) (dt_calls_run R cs)"

type_synonym exec_dt = "machine \<Rightarrow> (fault + (u32 \<times> machine \<times> dt_call list)) option"

text \<open>One iteration of the loop of \<open>cpu_exec\<close>, and the loop.\<close>

definition dt_turn :: "'r reference \<Rightarrow> exec_dt \<Rightarrow> tick \<Rightarrow> 'r dut \<Rightarrow> (fault + 'r dut) option" where
  "dt_turn R ex t d =
     (let m = host_tick t (dt_mach d); this_pc = pc (cpu m)
      in obnd (ex m) (\<lambda>(_, m1, calls).
         obnd (dt_calls_run R calls (d\<lparr>dt_mach := m1\<rparr>)) (\<lambda>d1.
         obnd (difftest_step R this_pc (pc (cpu m1)) d1) (\<lambda>d2.
         obnd (Some (after_step (dt_mach d2))) (\<lambda>m2. Some (Inr (d2\<lparr>dt_mach := m2\<rparr>)))))))"

fun dt_loop :: "'r reference \<Rightarrow> exec_dt \<Rightarrow> (nat \<Rightarrow> tick) \<Rightarrow> nat \<Rightarrow> 'r dut \<Rightarrow> (fault + 'r dut) option" where
  "dt_loop R ex ticks 0 d = Some (Inr d)"
| "dt_loop R ex ticks (Suc n) d = obnd (dt_turn R ex (ticks 0) d) (\<lambda>d.
     if status (nemu_state (dt_mach d)) \<noteq> NEMU_RUNNING then Some (Inr d)
     else dt_loop R ex (\<lambda>i. ticks (Suc i)) n d)"

text \<open>A step of the default build with the calls its instruction makes.\<close>

definition with_calls :: "exec_once \<Rightarrow> (machine \<Rightarrow> dt_call list) \<Rightarrow> exec_dt" where
  "with_calls ex calls m = obnd (ex m) (\<lambda>(s, m'). Some (Inr (s, m', calls m)))"

section \<open>References\<close>

text \<open>What the comparison relies on: the functions read and write the reference's registers.\<close>

locale ref_machine =
  fixes R :: "'r reference" and regs :: "'r \<Rightarrow> CPU_state"
  assumes get: "ref_getregs R r = Some (Inr (c, r')) \<Longrightarrow> c = regs r \<and> regs r' = regs r"
    and set: "ref_setregs R c r = Some (Inr r') \<Longrightarrow> regs r' = c"
begin

text \<open>The registers agree, unless NEMU still has to catch up with the reference or has reported.\<close>

definition in_step :: "'r dut \<Rightarrow> bool" where
  "in_step d \<longleftrightarrow> 0 < skip_dut_nr_instr d \<or> regs (dt_ref d) = cpu (dt_mach d)
     \<or> status (nemu_state (dt_mach d)) = NEMU_ABORT"

lemma step_in_step:
  assumes "difftest_step R p q d = Some (Inr d')"
  shows "in_step d'"
proof (cases "0 < skip_dut_nr_instr d")
  case True
  then show ?thesis using assms get
    by (auto simp: difftest_step_def in_step_def obnd_def checkregs_def isa_difftest_checkregs_def Let_def
        split: option.splits sum.splits if_splits)
next
  case False
  then show ?thesis using assms get set
    by (force simp: difftest_step_def in_step_def obnd_def checkregs_def isa_difftest_checkregs_def
        split: option.splits sum.splits if_splits)
qed

lemma turn_in_step:
  assumes "dt_turn R ex t d = Some (Inr d')" "status (nemu_state (dt_mach d')) \<notin> {NEMU_ABORT, NEMU_QUIT}"
  shows "0 < skip_dut_nr_instr d' \<or> regs (dt_ref d') = cpu (dt_mach d')"
proof -
  obtain e m1 p q d1 d2 m2 where d2: "difftest_step R p q (e :: 'r dut) = Some (Inr d2)"
      "after_step (dt_mach d2) = Inr m2" "d' = d2\<lparr>dt_mach := m2\<rparr>"
    using assms(1) by (auto simp: dt_turn_def obnd_def Let_def split: option.splits sum.splits)
  have "cpu m2 = cpu (dt_mach d2)" using after_step_frame [OF d2(2)] by (simp add: guest_def)
  moreover have "status (nemu_state (dt_mach d2)) \<noteq> NEMU_ABORT"
    using after_step_frame [OF d2(2)] assms(2) d2(3) by auto
  ultimately show ?thesis using step_in_step [OF d2(1)] d2(3) by (simp add: in_step_def)
qed

lemma loop_in_step:
  assumes "0 < skip_dut_nr_instr d \<or> regs (dt_ref d) = cpu (dt_mach d)" "dt_loop R ex ticks n d = Some (Inr d')"
    "status (nemu_state (dt_mach d')) \<notin> {NEMU_ABORT, NEMU_QUIT}"
  shows "0 < skip_dut_nr_instr d' \<or> regs (dt_ref d') = cpu (dt_mach d')"
  using assms
proof (induction n arbitrary: ticks d)
  case (Suc n)
  obtain d1 where d1: "dt_turn R ex (ticks 0) d = Some (Inr d1)"
      "(if status (nemu_state (dt_mach d1)) \<noteq> NEMU_RUNNING then Some (Inr d1)
        else dt_loop R ex (\<lambda>i. ticks (Suc i)) n d1) = Some (Inr d')"
    using Suc.prems(2) by (auto simp: obnd_def split: option.splits sum.splits)
  show ?case
  proof (cases "status (nemu_state (dt_mach d1)) = NEMU_RUNNING")
    case True
    then show ?thesis using Suc.IH [OF turn_in_step [OF d1(1)]] d1(2) Suc.prems(3) by simp
  next
    case False
    then show ?thesis using turn_in_step [OF d1(1)] d1(2) Suc.prems(3) by simp
  qed
qed simp

end

text \<open>NEMU as the reference of NEMU, the build that \<open>_SHARE\<close> stands for in \<open>common.h\<close>.\<close>

definition self_reference :: "exec_once \<Rightarrow> (nat \<Rightarrow> tick) \<Rightarrow> machine reference" where
  "self_reference ex ticks =
     \<lparr>ref_getregs = (\<lambda>m. Some (Inr (cpu m, m))),
      ref_setregs = (\<lambda>c m. Some (Inr (m\<lparr>cpu := c\<rparr>))),
      ref_exec = (\<lambda>n m. cpu_exec ex ticks (of_nat n) m),
      ref_memcpy = (\<lambda>dest src m. Some (Inr (load_bytes (dest - PMEM_BASE (isa m)) src m)))\<rparr>"

interpretation self: ref_machine "self_reference ex ticks" cpu
  by unfold_locales (auto simp: self_reference_def)

text \<open>QEMU behind a GDB connection; on riscv32 \<open>CPU_state\<close> is the 33 words \<open>gpr[32]\<close> and \<open>pc\<close>.\<close>

definition words_of_cpu :: "CPU_state \<Rightarrow> u32 list" where
  "words_of_cpu c = gpr c @ [pc c]"

definition cpu_of_words :: "u32 list \<Rightarrow> CPU_state" where
  "cpu_of_words ws = \<lparr>gpr = take 32 ws, pc = ws ! 32\<rparr>"

definition gdb_reference :: "(nat \<Rightarrow> u8) \<Rightarrow> gdb_conn reference" where
  "gdb_reference junk =
     \<lparr>ref_getregs = (\<lambda>c. obnd (difftest_getregs 33 junk c) (\<lambda>(ws, c). Some (Inr (cpu_of_words ws, c)))),
      ref_setregs = (\<lambda>r. difftest_setregs 33 junk (words_of_cpu r)),
      ref_exec = difftest_exec,
      ref_memcpy = difftest_memcpy_from_dut\<rparr>"

section \<open>Properties\<close>

text \<open>Under comparison with itself, one instruction that the default build executes goes through.\<close>

lemma self_turn:
  assumes "ex (host_tick (ticks 0) (set_status NEMU_RUNNING m)) = Some (Inr (s, m1))" "after_step m1 = Inr m2"
    "status (nemu_state m) = NEMU_STOP" "status (nemu_state m2) \<notin> {NEMU_ABORT, NEMU_QUIT}"
  shows "\<exists>d'. dt_loop (self_reference ex ticks) (with_calls ex (\<lambda>_. [])) ticks 1
      \<lparr>dt_mach = set_status NEMU_RUNNING m, is_skip_ref = False, skip_dut_nr_instr = 0, dt_ref = m\<rparr> = Some (Inr d')
    \<and> status (nemu_state (dt_mach d')) \<notin> {NEMU_ABORT, NEMU_QUIT} \<and> skip_dut_nr_instr d' = 0"
proof -
  have "cpu m2 = cpu m1" using after_step_frame [OF assms(2)] by (simp add: guest_def)
  moreover have "cpu_loop ex ticks (Suc 0) (set_status NEMU_RUNNING m) = Some (Inr m2)" using assms(1,2) by simp
  ultimately have "\<exists>r. cpu_exec ex ticks 1 m = Some (Inr r) \<and> cpu r = cpu m1"
    using assms(3) by (auto simp: cpu_exec_def set_status_def simp del: cpu_loop.simps)
  then obtain r where r: "cpu_exec ex ticks 1 m = Some (Inr r)" "cpu r = cpu m1" by blast
  then show ?thesis using assms
    by (auto simp: dt_turn_def self_reference_def with_calls_def difftest_step_def checkregs_def
        isa_difftest_checkregs_def Let_def)
qed

lemma status_set_status [simp]: "status (nemu_state (set_status st m)) = st"
  by (simp add: set_status_def)

lemma builtin_first_turn:
  "\<exists>s m1 m2. riscv32_once (host_tick (still_ticks 0)
        (set_status NEMU_RUNNING (init_isa (static_start Riscv32 quiet_host)))) = Some (Inr (s, m1))
    \<and> after_step m1 = Inr m2 \<and> status (nemu_state m2) \<notin> {NEMU_ABORT, NEMU_QUIT}"
proof -
  let ?m = "init_isa (static_start Riscv32 quiet_host)"
  obtain m' where m': "cpu_exec riscv32_once still_ticks 5 ?m = Some (Inr m')" "status (nemu_state m') = NEMU_END"
    using builtin_image_runs [of "static_start Riscv32 quiet_host" still_ticks 5]
    by (auto simp: static_start_def NR_GPR_def quiet_host_def still_ticks_def)
  then obtain m'' where m'': "cpu_loop riscv32_once still_ticks (Suc 4) (set_status NEMU_RUNNING ?m) = Some (Inr m'')"
      "status (nemu_state m'') \<notin> {NEMU_ABORT, NEMU_QUIT}"
    using started_stopped
    by (cases "cpu_loop riscv32_once still_ticks 5 (set_status NEMU_RUNNING ?m)")
      (auto simp: cpu_exec_def bnd_simps status_set_status simp del: cpu_loop.simps split: if_splits)
  then show ?thesis
    using m''(1) [unfolded cpu_loop.simps(2)] by (auto split: option.splits sum.splits if_splits)
qed


lemma gdb_exec_1:
  assumes "ack c" "0x2B \<notin> set noise" "\<forall>g \<in> set gs. damaged g" "\<forall>b \<in> set p. plain b"
  shows "difftest_exec 1 (c\<lparr>g_in := answers noise gs p rest\<rparr>)
    = Some (Inr (c\<lparr>g_in := rest, g_out := g_out c @ dialogue (ascii ''vCont;s:1'') noise gs\<rparr>))"
  using gdb_call_ok [OF assms, of "ascii ''vCont;s:1''" rest]
  by (simp add: gdb_si_def answers_def dialogue_def)




end
