(* ===== verification/Int64.thy ===== *)
theory Int64
  imports NemuPrelude "HOL-Library.Signed_Division"
begin

text \<open>
  The 64-bit division routines of \<open>klib/src/int64.c\<close>, which a compiler for a 32-bit guest calls for
  \<open>/\<close> and \<open>%\<close> on \<open>long long\<close>, with the two bit counting routines they use. Words are kept at the
  width the code gives them: 32-bit halves, 64-bit wholes, an unsigned 32-bit shift count \<open>sr\<close>.

  A routine returns a fault where the C code has undefined behaviour: a division by zero, a shift
  by the width of its operand or more. The signed wrappers negate with wrap-around, which the file
  assumes of the compiler. The remainder, which the C code stores through \<open>rem\<close> when that is not
  null, is the second component of the result.
\<close>

section \<open>Double words\<close>

record udwords =
  s_low :: u32
  s_high :: u32

text \<open>The member \<open>all\<close> of the union, on a little-endian machine, and an assignment to it.\<close>

definition dw_all :: "udwords \<Rightarrow> u64" where
  "dw_all v = word_cat (s_high v) (s_low v)"

definition dw_of :: "u64 \<Rightarrow> udwords" where
  "dw_of a = \<lparr> s_low = ucast a, s_high = ucast (drop_bit 32 a) \<rparr>"

text \<open>The shifts and divisions of C on \<open>unsigned\<close>.\<close>

definition shl32 :: "u32 \<Rightarrow> u32 \<Rightarrow> fault + u32" where
  "shl32 x k = (if unat k < 32 then Inr (push_bit (unat k) x) else Inl Bad_Shift)"

definition shr32 :: "u32 \<Rightarrow> u32 \<Rightarrow> fault + u32" where
  "shr32 x k = (if unat k < 32 then Inr (drop_bit (unat k) x) else Inl Bad_Shift)"

definition div32 :: "u32 \<Rightarrow> u32 \<Rightarrow> fault + u32" where
  "div32 x y = (if y = 0 then Inl Div_Trap else Inr (x div y))"

definition mod32 :: "u32 \<Rightarrow> u32 \<Rightarrow> fault + u32" where
  "mod32 x y = (if y = 0 then Inl Div_Trap else Inr (x mod y))"

section \<open>Counting zeros\<close>

text \<open>
  One of the four halvings of \<open>__clzsi2\<close>: \<open>t\<close> is \<open>2 ^ sh\<close> when the bits under the mask are clear,
  the word is shifted by \<open>2 ^ sh - t\<close> and \<open>t\<close> is added to the count. The same for \<open>__ctzsi2\<close>,
  which shifts by \<open>t\<close>.
\<close>

definition clz_halve :: "u32 \<Rightarrow> nat \<Rightarrow> u32 \<times> u32 \<Rightarrow> u32 \<times> u32" where
  "clz_halve m sh p = (case p of (x, r) \<Rightarrow>
     let t = push_bit sh (if x AND m = 0 then 1 else 0)
     in (drop_bit (unat (push_bit sh 1 - t)) x, r + t))"

definition clzsi2 :: "u32 \<Rightarrow> u32" where
  "clzsi2 a = (case clz_halve 0xC 1 (clz_halve 0xF0 2 (clz_halve 0xFF00 3 (clz_halve 0xFFFF0000 4 (a, 0)))) of
     (x, r) \<Rightarrow> r + ((2 - x) AND (if x AND 2 = 0 then - 1 else 0)))"

definition ctz_halve :: "u32 \<Rightarrow> nat \<Rightarrow> u32 \<times> u32 \<Rightarrow> u32 \<times> u32" where
  "ctz_halve m sh p = (case p of (x, r) \<Rightarrow>
     let t = push_bit sh (if x AND m = 0 then 1 else 0) in (drop_bit (unat t) x, r + t))"

definition ctzsi2 :: "u32 \<Rightarrow> u32" where
  "ctzsi2 a = (case ctz_halve 0x3 1 (ctz_halve 0x0F 2 (ctz_halve 0x00FF 3 (ctz_halve 0x0000FFFF 4 (a, 0)))) of
     (x, r) \<Rightarrow> let x = x AND 3 in r + ((2 - drop_bit 1 x) AND (if x AND 1 = 0 then - 1 else 0)))"

section \<open>Unsigned division\<close>

text \<open>
  The case analysis before the loop either answers at once, with quotient and remainder, or
  initialises \<open>r\<close>, \<open>q\<close> and \<open>sr\<close>. \<open>split_shift\<close> is the group of assignments that three of the branches
  share: \<open>q.all = n.all << (64 - sr)\<close> and \<open>r.all = n.all >> sr\<close> for \<open>1 \<le> sr < 32\<close>.
\<close>

datatype dd_setup =
    Answer u64 u64
  | Loop (dd_r: udwords) (dd_q: udwords) (dd_sr: u32)

definition split_shift :: "udwords \<Rightarrow> u32 \<Rightarrow> fault + dd_setup" where
  "split_shift n sr =
     bnd (shl32 (s_low n) (32 - sr)) (\<lambda>qh.
     bnd (shr32 (s_high n) sr) (\<lambda>rh.
     bnd (shl32 (s_high n) (32 - sr)) (\<lambda>a.
     bnd (shr32 (s_low n) sr) (\<lambda>b.
       Inr (Loop \<lparr> s_low = a OR b, s_high = rh \<rparr> \<lparr> s_low = 0, s_high = qh \<rparr> sr)))))"

definition setup_high :: "udwords \<Rightarrow> udwords \<Rightarrow> fault + dd_setup" where
  "setup_high n d =
     (if s_high d = 0 then
        bnd (mod32 (s_high n) (s_low d)) (\<lambda>r.
        bnd (div32 (s_high n) (s_low d)) (\<lambda>q. Inr (Answer (ucast q) (ucast r))))
      else if s_low n = 0 then
        bnd (mod32 (s_high n) (s_high d)) (\<lambda>r.
        bnd (div32 (s_high n) (s_high d)) (\<lambda>q.
          Inr (Answer (ucast q) (dw_all \<lparr> s_low = 0, s_high = r \<rparr>))))
      else if s_high d AND (s_high d - 1) = 0 then
        bnd (shr32 (s_high n) (ctzsi2 (s_high d))) (\<lambda>q.
          Inr (Answer (ucast q) (dw_all \<lparr> s_low = s_low n, s_high = s_high n AND (s_high d - 1) \<rparr>)))
      else
        let sr = clzsi2 (s_high d) - clzsi2 (s_high n)
        in if sr > 30 then Inr (Answer 0 (dw_all n)) else split_shift n (sr + 1))"

definition setup_low :: "udwords \<Rightarrow> udwords \<Rightarrow> fault + dd_setup" where
  "setup_low n d =
     (if s_low d AND (s_low d - 1) = 0 then
        let r = ucast (s_low n AND (s_low d - 1))
        in if s_low d = 1 then Inr (Answer (dw_all n) r)
           else let sr = ctzsi2 (s_low d) in
             bnd (shr32 (s_high n) sr) (\<lambda>qh.
             bnd (shl32 (s_high n) (32 - sr)) (\<lambda>a.
             bnd (shr32 (s_low n) sr) (\<lambda>b.
               Inr (Answer (dw_all \<lparr> s_low = a OR b, s_high = qh \<rparr>) r))))
      else
        let sr = 1 + 32 + clzsi2 (s_low d) - clzsi2 (s_high n)
        in if sr = 32 then
             Inr (Loop \<lparr> s_low = s_high n, s_high = 0 \<rparr> \<lparr> s_low = 0, s_high = s_low n \<rparr> sr)
           else if sr < 32 then split_shift n sr
           else
             bnd (shl32 (s_low n) (64 - sr)) (\<lambda>ql.
             bnd (shl32 (s_high n) (64 - sr)) (\<lambda>a.
             bnd (shr32 (s_low n) (sr - 32)) (\<lambda>b.
             bnd (shr32 (s_high n) (sr - 32)) (\<lambda>rl.
               Inr (Loop \<lparr> s_low = rl, s_high = 0 \<rparr> \<lparr> s_low = ql, s_high = a OR b \<rparr> sr))))))"

definition setup_both :: "udwords \<Rightarrow> udwords \<Rightarrow> fault + dd_setup" where
  "setup_both n d =
     (let sr = clzsi2 (s_high d) - clzsi2 (s_high n)
      in if sr > 31 then Inr (Answer 0 (dw_all n))
         else let sr = sr + 1
           in if sr = 32 then
                Inr (Loop \<lparr> s_low = s_high n, s_high = 0 \<rparr> \<lparr> s_low = 0, s_high = s_low n \<rparr> sr)
              else split_shift n sr)"

definition udivmod_setup :: "udwords \<Rightarrow> udwords \<Rightarrow> fault + dd_setup" where
  "udivmod_setup n d =
     (if s_high n = 0 then
        if s_high d = 0 then
          bnd (mod32 (s_low n) (s_low d)) (\<lambda>r.
          bnd (div32 (s_low n) (s_low d)) (\<lambda>q. Inr (Answer (ucast q) (ucast r))))
        else Inr (Answer 0 (ucast (s_low n)))
      else if s_low d = 0 then setup_high n d
      else if s_high d = 0 then setup_low n d
      else setup_both n d)"

text \<open>One iteration of the shift-and-subtract loop, and the loop.\<close>

definition udivmod_step :: "udwords \<Rightarrow> udwords \<times> udwords \<times> u32 \<Rightarrow> udwords \<times> udwords \<times> u32" where
  "udivmod_step d st = (case st of (r, q, carry) \<Rightarrow>
     let r = r \<lparr> s_high := push_bit 1 (s_high r) OR drop_bit 31 (s_low r) \<rparr>;
         r = r \<lparr> s_low := push_bit 1 (s_low r) OR drop_bit 31 (s_high q) \<rparr>;
         q = q \<lparr> s_high := push_bit 1 (s_high q) OR drop_bit 31 (s_low q) \<rparr>;
         q = q \<lparr> s_low := push_bit 1 (s_low q) OR carry \<rparr>;
         s = signed_drop_bit 63 (dw_all d - dw_all r - 1);
         carry = ucast (s AND 1);
         r = dw_of (dw_all r - (dw_all d AND s))
     in (r, q, carry))"

primrec udivmod_loop :: "nat \<Rightarrow> udwords \<Rightarrow> udwords \<times> udwords \<times> u32 \<Rightarrow> udwords \<times> udwords \<times> u32" where
  "udivmod_loop 0 d st = st"
| "udivmod_loop (Suc sr) d st = udivmod_loop sr d (udivmod_step d st)"

definition udivmoddi4 :: "u64 \<Rightarrow> u64 \<Rightarrow> fault + (u64 \<times> u64)" where
  "udivmoddi4 a b =
     (let n = dw_of a; d = dw_of b
      in bnd (udivmod_setup n d) (\<lambda>s. case s of
           Answer q r \<Rightarrow> Inr (q, r)
         | Loop r q sr \<Rightarrow>
             (case udivmod_loop (unat sr) d (r, q, 0) of (r, q, carry) \<Rightarrow>
                Inr (push_bit 1 (dw_all q) OR ucast carry, dw_all r))))"

definition udivdi3 :: "u64 \<Rightarrow> u64 \<Rightarrow> fault + u64" where
  "udivdi3 a b = bnd (udivmoddi4 a b) (\<lambda>p. Inr (fst p))"

definition umoddi3 :: "u64 \<Rightarrow> u64 \<Rightarrow> fault + u64" where
  "umoddi3 a b = bnd (udivmoddi4 a b) (\<lambda>p. Inr (snd p))"

section \<open>Signed division\<close>

text \<open>The idiom \<open>(x ^ s) - s\<close> of the wrappers, with \<open>s\<close> the sign of a word spread over all its bits.\<close>

definition sign_of :: "u64 \<Rightarrow> u64" where
  "sign_of a = signed_drop_bit 63 a"

definition negate_if :: "u64 \<Rightarrow> u64 \<Rightarrow> u64" where
  "negate_if s a = (a XOR s) - s"

definition divdi3 :: "u64 \<Rightarrow> u64 \<Rightarrow> fault + u64" where
  "divdi3 a b =
     (let s_a = sign_of a; s_b = sign_of b; a = negate_if s_a a; b = negate_if s_b b; s_a = s_a XOR s_b
      in bnd (udivmoddi4 a b) (\<lambda>p. Inr (negate_if s_a (fst p))))"

definition divmoddi4 :: "u64 \<Rightarrow> u64 \<Rightarrow> fault + (u64 \<times> u64)" where
  "divmoddi4 a b = bnd (divdi3 a b) (\<lambda>d. Inr (d, a - d * b))"

definition moddi3 :: "u64 \<Rightarrow> u64 \<Rightarrow> fault + u64" where
  "moddi3 a b =
     (let s = sign_of b; b = negate_if s b; s = sign_of a; a = negate_if s a
      in bnd (udivmoddi4 a b) (\<lambda>p. Inr (negate_if s (snd p))))"

end
