(* ===== verification/Int64Props.thy ===== *)
theory Int64Props
  imports Int64
begin

text \<open>
  The division routines of \<open>klib/src/int64.c\<close> divide. Counting zeros is specified by powers of two;
  the loop by an invariant over natural numbers (\<open>dd_inv\<close>), which one lemma carries through an
  iteration and which each branch of the case analysis before the loop establishes (\<open>setup_ok\<close>).
\<close>

section \<open>Double words and one iteration\<close>

lemma bit_twice: "bit (w * 2 :: 'a::len word) n \<longleftrightarrow> 0 < n \<and> n < LENGTH('a) \<and> bit w (n - 1)"
  using bit_double_iff [of w n] by (auto simp: mult.commute dest: bit_imp_le_length)

lemma bit_above: "LENGTH('a) \<le> n \<Longrightarrow> \<not> bit (w :: 'a::len word) n"
  using bit_imp_le_length [of w n] by linarith

lemma bit_dw_all: "bit (dw_all v) i \<longleftrightarrow> (if i < 32 then bit (s_low v) i else bit (s_high v) (i - 32))"
proof -
  have "bit (s_high v) (i - 32) \<Longrightarrow> i < 64"
    using bit_imp_le_length [of "s_high v" "i - 32"] by simp
  then show ?thesis by (auto simp: dw_all_def bit_word_cat_iff)
qed

lemma dw_all_of [simp]: "dw_all (dw_of a) = a"
  by (rule bit_word_eqI) (auto simp: bit_dw_all dw_of_def bit_simps)

lemma dw_of_all [simp]: "dw_of (dw_all v) = v"
proof -
  have "s_low (dw_of (dw_all v)) = s_low v" "s_high (dw_of (dw_all v)) = s_high v"
    by (rule bit_word_eqI, simp add: dw_of_def bit_simps bit_dw_all)+
  then show ?thesis by (cases v) (simp add: dw_of_def)
qed

lemma unat_dw_all: "unat (dw_all v) = unat (s_high v) * 4294967296 + unat (s_low v)"
proof -
  have "concat_bit 32 (uint (s_low v)) (uint (s_high v)) = uint (s_low v) + 2 ^ 32 * uint (s_high v)"
    using take_bit_int_eq_self [of "uint (s_low v)" 32] uint_bounded [of "s_low v"]
    by (simp add: concat_bit_eq push_bit_eq_mult)
  moreover have "uint (s_low v) < 2 ^ 32" "uint (s_high v) < 2 ^ 32"
    using uint_bounded [of "s_low v"] uint_bounded [of "s_high v"] by simp_all
  ultimately have "dw_all v = ucast (s_low v) + 4294967296 * ucast (s_high v)"
    by (simp add: dw_all_def word_cat_eq')
  moreover have "unat (ucast w :: u64) = unat w" for w :: u32
    using u32_less_4G [of w] by (simp add: unsigned_ucast_eq take_bit_nat_eq_self del: u32_less_4G)
  moreover have "unat (s_low v) + 4294967296 * unat (s_high v) < 18446744073709551616"
    using u32_less_4G [of "s_high v"] u32_less_4G [of "s_low v"] by linarith
  ultimately show ?thesis by (simp add: unat_word_ariths)
qed

lemma spread_sign: "signed_drop_bit 63 (x :: u64) = (if bit x 63 then - 1 else 0)"
proof (rule bit_word_eqI)
  fix n assume "n < LENGTH(64)"
  then show "bit (signed_drop_bit 63 x) n = bit (if bit x 63 then - 1 else (0 :: u64)) n"
    by (cases n) (auto simp: bit_signed_drop_bit_iff bit_above)
qed

lemma step_words:
  fixes d r q :: udwords
  defines "R \<equiv> push_bit 1 (dw_all r) OR drop_bit 63 (dw_all q)"
  shows "\<exists>r' q' c'. udivmod_step d (r, q, c) = (r', q', c')
    \<and> dw_all q' = push_bit 1 (dw_all q) OR ucast c
    \<and> (if bit (dw_all d - R - 1) 63 then dw_all r' = R - dw_all d \<and> c' = 1 else dw_all r' = R \<and> c' = 0)"
proof -
  have r: "dw_all \<lparr> s_low = push_bit 1 (s_low r) OR drop_bit 31 (s_high q),
      s_high = push_bit 1 (s_high r) OR drop_bit 31 (s_low r) \<rparr> = R"
    unfolding R_def by (rule bit_word_eqI) (auto simp: bit_dw_all bit_simps bit_twice bit_above)
  have q: "dw_all \<lparr> s_low = push_bit 1 (s_low q) OR c,
      s_high = push_bit 1 (s_high q) OR drop_bit 31 (s_low q) \<rparr> = push_bit 1 (dw_all q) OR ucast c"
    by (rule bit_word_eqI) (auto simp: bit_dw_all bit_simps bit_twice bit_above)
  show ?thesis
    apply (cases r; cases q)
    using r q by (simp add: udivmod_step_def Let_def spread_sign)
qed

lemma u64_bound: "unat (x :: u64) < 18446744073709551616"
  using unsigned_less [of x, where 'a = nat] by simp

lemma sign_bit: "bit (x :: u64) 63 \<longleftrightarrow> 9223372036854775808 \<le> unat x"
proof -
  have "bit x 63 \<longleftrightarrow> odd (unat x div 2 ^ 63)"
    using bit_unsigned_iff [of x 63, where 'a = nat] by (simp add: bit_iff_odd)
  moreover have "unat x div 2 ^ 63 = (if 9223372036854775808 \<le> unat x then 1 else 0)"
    using u64_bound [of x] by (auto intro: div_nat_eqI)
  ultimately show ?thesis by simp
qed

lemma unat_twice_or:
  assumes "unat b \<le> 1"
  shows "unat (push_bit 1 a OR b :: u64) = 2 * unat a mod 18446744073709551616 + unat b"
proof -
  have b: "b = 0 \<or> b = 1" using assms by (metis le_Suc_eq le_zero_eq One_nat_def unsigned_0 unsigned_1 word_unat_eq_iff)
  have "push_bit 1 a AND b = 0" using b by (auto intro!: bit_word_eqI simp: bit_simps bit_twice)
  then have or: "push_bit 1 a OR b = a * 2 + b"
    using disjunctive_add_eq_or [of "push_bit 1 a" b] by (simp add: mult.commute)
  have even: "2 * unat a mod 18446744073709551616 = 2 * (unat a mod 9223372036854775808)"
    using mod_mult_mult1 [of 2 "unat a" 9223372036854775808] by simp
  have "unat a mod 9223372036854775808 < 9223372036854775808" by simp
  then have "2 * unat a mod 18446744073709551616 + unat b < 18446744073709551616" unfolding even using assms by linarith
  moreover have "unat (a * 2 + b) = (2 * unat a mod 18446744073709551616 + unat b) mod 18446744073709551616"
    by (simp add: unat_word_ariths mult.commute)
  ultimately show ?thesis unfolding or by simp
qed

text \<open>One iteration on numbers: \<open>R\<close> is the partial remainder after the next bit of the dividend came in.\<close>

lemma step_nat:
  fixes d r q :: udwords and c :: u32
  defines "D \<equiv> unat (dw_all d)" and "R \<equiv> 2 * unat (dw_all r) + unat (dw_all q) div 9223372036854775808"
  assumes "unat c \<le> 1" "R < 18446744073709551616" "R < D + 9223372036854775808" "D \<le> R + 9223372036854775808"
  shows "\<exists>r' q' c'. udivmod_step d (r, q, c) = (r', q', c') \<and> unat c' = (if D \<le> R then 1 else 0)
    \<and> unat (dw_all r') = (if D \<le> R then R - D else R)
    \<and> unat (dw_all q') = 2 * unat (dw_all q) mod 18446744073709551616 + unat c"
proof -
  define w where "w = push_bit 1 (dw_all r) OR drop_bit 63 (dw_all q)"
  obtain r' q' c' where s: "udivmod_step d (r, q, c) = (r', q', c')" "dw_all q' = push_bit 1 (dw_all q) OR ucast c"
      "if bit (dw_all d - w - 1) 63 then dw_all r' = w - dw_all d \<and> c' = 1 else dw_all r' = w \<and> c' = 0"
    using step_words [of d r q c, folded w_def] by blast
  have top: "unat (drop_bit 63 (dw_all q)) = unat (dw_all q) div 9223372036854775808"
    by (simp add: drop_bit_eq_div unat_div)
  also have "\<dots> \<le> 1" using u64_bound [of "dw_all q"] by linarith
  finally have R: "unat w = R" using unat_twice_or [of "drop_bit 63 (dw_all q)" "dw_all r"] top assms(4)
    unfolding R_def w_def by simp
  have le: "dw_all d \<le> w \<longleftrightarrow> D \<le> R" by (simp only: word_le_nat_alt R D_def)
  have sign: "bit (dw_all d - w - 1) 63 \<longleftrightarrow> D \<le> R"
  proof -
    have dw: "unat (dw_all d - w) = (if R \<le> D then D - R else D + 18446744073709551616 - R)"
      by (simp add: unat_sub_if_size word_size R D_def)
    have "unat (dw_all d - w - 1) = (if 1 \<le> unat (dw_all d - w) then unat (dw_all d - w) - 1 else 18446744073709551615)"
      using unat_sub_if_size [of "dw_all d - w" 1] by (simp add: word_size)
    then show ?thesis unfolding sign_bit dw using assms(4-6) by (auto split: if_splits)
  qed
  have "unat (w - dw_all d) = R - D" if "D \<le> R" using le that by (simp add: unat_sub R D_def)
  then have "unat c' = (if D \<le> R then 1 else 0)" "unat (dw_all r') = (if D \<le> R then R - D else R)"
    using s(3) sign R by (auto split: if_splits)
  moreover have "unat (push_bit 1 (dw_all q) OR ucast c) = 2 * unat (dw_all q) mod 18446744073709551616 + unat c"
    using unat_twice_or [of "ucast c" "dw_all q"] assms(3) by (simp add: unsigned_ucast_eq take_bit_nat_eq_self)
  ultimately show ?thesis using s(1,2) by auto
qed

text \<open>
  The state of the loop with \<open>k\<close> bits of the dividend \<open>N\<close> still to come: \<open>q\<close> holds those bits on
  top of the quotient's bits \<open>L\<close> found so far, of which the last is in the carry.
\<close>

definition dd_inv :: "nat \<Rightarrow> nat \<Rightarrow> nat \<Rightarrow> udwords \<times> udwords \<times> u32 \<Rightarrow> bool" where
  "dd_inv N D k st \<longleftrightarrow> (case st of (r, q, c) \<Rightarrow> unat c \<le> 1 \<and> unat (dw_all r) < D \<and>
     (\<exists>L < 2 ^ (64 - k). unat (dw_all q) = (N mod 2 ^ k) * 2 ^ (64 - k) + L
        \<and> N div 2 ^ k = D * (2 * L + unat c) + unat (dw_all r)))"

lemma next_bit:
  fixes N L k :: nat
  assumes "Suc k \<le> 63" "L < (2 :: nat) ^ (63 - k)"
  defines "Q \<equiv> (N mod 2 ^ Suc k) * 2 ^ (63 - k) + L" and "b \<equiv> N mod 2 ^ Suc k div 2 ^ k"
  shows "Q div 9223372036854775808 = b" "N div 2 ^ k = 2 * (N div 2 ^ Suc k) + b"
    "2 * Q mod 18446744073709551616 = (N mod 2 ^ k) * 2 ^ (64 - k) + 2 * L"
proof -
  have split: "(9223372036854775808 :: nat) = 2 ^ (63 - k) * 2 ^ k" "(18446744073709551616 :: nat) = 2 ^ k * 2 ^ (64 - k)"
    "(2 :: nat) ^ (64 - k) = 2 * 2 ^ (63 - k)"
    using assms(1) by (simp_all flip: power_add power_Suc)
  show "Q div 9223372036854775808 = b"
    using assms(2) unfolding split(1) Q_def b_def by (simp add: div_mult2_eq)
  have N: "N mod 2 ^ Suc k = b * 2 ^ k + N mod 2 ^ k"
  proof -
    have "N mod 2 ^ Suc k mod 2 ^ k = N mod 2 ^ k" by (rule mod_mod_cancel) simp
    then show ?thesis using div_mult_mod_eq [of "N mod 2 ^ Suc k" "2 ^ k"] b_def by simp
  qed
  have "N div 2 ^ k = (N div 2 ^ Suc k * 2 ^ Suc k + N mod 2 ^ Suc k) div 2 ^ k" by (simp only: div_mult_mod_eq)
  also have "\<dots> = ((2 * (N div 2 ^ Suc k) + b) * 2 ^ k + N mod 2 ^ k) div 2 ^ k"
    by (subst N) (simp add: algebra_simps)
  also have "\<dots> = 2 * (N div 2 ^ Suc k) + b" by (subst div_mult_self3) simp_all
  finally show "N div 2 ^ k = 2 * (N div 2 ^ Suc k) + b" .
  have "2 * Q = (N mod 2 ^ k * 2 ^ (64 - k) + 2 * L) + b * (2 ^ k * 2 ^ (64 - k))"
    unfolding Q_def N split(3) by (simp add: algebra_simps)
  then have "2 * Q mod 18446744073709551616 = (N mod 2 ^ k * 2 ^ (64 - k) + 2 * L) mod (2 ^ k * 2 ^ (64 - k))"
    unfolding split(2) by simp
  also have "\<dots> = N mod 2 ^ k * 2 ^ (64 - k) + 2 * L"
  proof (rule mod_less)
    have "N mod 2 ^ k + 1 \<le> 2 ^ k" by (simp add: Suc_leI)
    then have "(N mod 2 ^ k + 1) * 2 ^ (64 - k) \<le> 2 ^ k * 2 ^ (64 - k)" by (rule mult_le_mono1)
    moreover have "2 * L < 2 ^ (64 - k)" using assms(2) split(3) by simp
    ultimately show "N mod 2 ^ k * 2 ^ (64 - k) + 2 * L < 2 ^ k * 2 ^ (64 - k)" by (simp add: algebra_simps)
  qed
  finally show "2 * Q mod 18446744073709551616 = (N mod 2 ^ k) * 2 ^ (64 - k) + 2 * L" .
qed

lemma dd_inv_step:
  assumes inv: "dd_inv N (unat (dw_all d)) (Suc k) st" and k: "Suc k \<le> 63" and N: "N < 18446744073709551616"
    and D: "unat (dw_all d) \<le> 9223372036854775808 \<or> k = 0 \<and> unat (dw_all d) \<le> N + 9223372036854775808"
  shows "dd_inv N (unat (dw_all d)) k (udivmod_step d st)"
proof -
  let ?D = "unat (dw_all d)" and ?b = "N mod 2 ^ Suc k div 2 ^ k"
  obtain r q c where st: "st = (r, q, c)" by (cases st)
  obtain L where L: "unat c \<le> 1" "unat (dw_all r) < ?D" "L < 2 ^ (63 - k)"
      "unat (dw_all q) = (N mod 2 ^ Suc k) * 2 ^ (63 - k) + L"
      "N div 2 ^ Suc k = ?D * (2 * L + unat c) + unat (dw_all r)"
    using inv k unfolding dd_inv_def st by auto
  note nb = next_bit [OF k L(3), of N, folded L(4)]
  let ?R = "2 * unat (dw_all r) + ?b"
  have Nk: "N div 2 ^ k = ?D * (2 * (2 * L + unat c)) + ?R" unfolding nb(2) L(5) by (simp add: algebra_simps)
  have b: "?b \<le> 1" using nb(1) u64_bound [of "dw_all q"] by linarith
  have side: "?R < 18446744073709551616 \<and> ?R < ?D + 9223372036854775808 \<and> ?D \<le> ?R + 9223372036854775808"
  proof (cases "?D \<le> 9223372036854775808")
    case True
    then show ?thesis using L(2) b by linarith
  next
    case False
    with D have k0: "k = 0" "?D \<le> N + 9223372036854775808" by auto
    have "2 * L + unat c = 0"
    proof (rule ccontr)
      assume "2 * L + unat c \<noteq> 0"
      then have "?D * 2 \<le> ?D * (2 * (2 * L + unat c))" by (intro mult_le_mono) auto
      moreover have "N = ?D * (2 * (2 * L + unat c)) + ?R" using Nk unfolding k0(1) by (simp only: power_0 div_by_1)
      ultimately show False using N False by linarith
    qed
    then have "?R = N" using Nk k0 by simp
    then show ?thesis using N k0(2) False by linarith
  qed
  then obtain r' q' c' where s: "udivmod_step d (r, q, c) = (r', q', c')" "unat c' = (if ?D \<le> ?R then 1 else 0)"
      "unat (dw_all r') = (if ?D \<le> ?R then ?R - ?D else ?R)"
      "unat (dw_all q') = 2 * unat (dw_all q) mod 18446744073709551616 + unat c"
    using step_nat [OF L(1), where d = d and r = r and q = q] unfolding nb(1) by blast
  have "2 * L + unat c < 2 ^ (64 - k)"
  proof -
    have "(2 :: nat) ^ (64 - k) = 2 * 2 ^ (63 - k)" using k by (simp flip: power_Suc)
    then show ?thesis using L(1,3) by linarith
  qed
  moreover have "unat (dw_all q') = (N mod 2 ^ k) * 2 ^ (64 - k) + (2 * L + unat c)"
    using s(4) nb(3) by simp
  moreover have "N div 2 ^ k = ?D * (2 * (2 * L + unat c) + unat c') + unat (dw_all r')"
    unfolding Nk s(2,3) by (simp add: algebra_simps)
  moreover have "unat (dw_all r') < ?D" using s(3) L(2) b by auto
  moreover have "unat c' \<le> 1" using s(2) by auto
  ultimately show ?thesis unfolding st dd_inv_def s(1) by auto
qed

lemma dd_inv_loop:
  assumes "dd_inv N (unat (dw_all d)) k st" "k \<le> 63" "N < 18446744073709551616"
    "unat (dw_all d) \<le> 9223372036854775808 \<or> k \<le> 1 \<and> unat (dw_all d) \<le> N + 9223372036854775808"
  shows "dd_inv N (unat (dw_all d)) 0 (udivmod_loop k d st)"
  using assms
proof (induction k arbitrary: st)
  case (Suc k)
  then have "dd_inv N (unat (dw_all d)) k (udivmod_step d st)" by (intro dd_inv_step) auto
  then show ?case using Suc.IH [of "udivmod_step d st"] Suc.prems by auto
qed simp

section \<open>Counting zeros\<close>

lemma unat_drop: "unat (drop_bit k (x :: u32)) = unat x div 2 ^ k"
  by (subst unsigned_drop_bit_eq) (simp add: drop_bit_eq_div take_bit_nat_eq_self)

lemma drop_bit_eq_0: "drop_bit k x = 0 \<longleftrightarrow> unat (x :: u32) < 2 ^ k"
proof -
  have "drop_bit k x = 0 \<longleftrightarrow> unat (drop_bit k x) = 0" by (simp add: unat_eq_0)
  also have "\<dots> \<longleftrightarrow> unat x < 2 ^ k" by (simp only: unat_drop) (simp add: div_eq_0_iff)
  finally show ?thesis .
qed

lemma and_upper_half:
  fixes x :: u32
  assumes "unat x < 2 ^ (2 * k)"
  shows "x AND push_bit k (mask k) = 0 \<longleftrightarrow> unat x < 2 ^ k"
proof -
  have "i < 2 * k" if "bit x i" for i
  proof (rule ccontr)
    assume "\<not> i < 2 * k"
    have "drop_bit (2 * k) x = 0" using assms by (simp add: drop_bit_eq_0)
    then have "\<not> bit (drop_bit (2 * k) x) (i - 2 * k)" by simp
    then show False using that \<open>\<not> i < 2 * k\<close> by (simp add: bit_drop_bit_eq)
  qed
  then have "x AND push_bit k (mask k) = push_bit k (drop_bit k x)"
    by (intro bit_word_eqI) (force simp: bit_simps)
  moreover have "drop_bit k (push_bit k (drop_bit k x)) = drop_bit k x"
    by (rule bit_word_eqI) (auto simp: bit_simps dest: bit_imp_le_length)
  ultimately have "x AND push_bit k (mask k) = 0 \<longleftrightarrow> drop_bit k x = 0" by auto
  then show ?thesis by (simp add: drop_bit_eq_0)
qed

definition clz_inv :: "u32 \<Rightarrow> nat \<Rightarrow> u32 \<times> u32 \<Rightarrow> bool" where
  "clz_inv a w p \<longleftrightarrow> (case p of (x, r) \<Rightarrow>
     \<exists>s. x = drop_bit s a \<and> x \<noteq> 0 \<and> unat x < 2 ^ w \<and> unat r + s + w = 32)"

lemma unat_exp: "k < 32 \<Longrightarrow> unat (push_bit k (1 :: u32)) = 2 ^ k"
  by (subst unsigned_push_bit_eq) (simp add: take_bit_nat_eq_self)

lemma clz_inv_halve:
  assumes "clz_inv a (2 * 2 ^ sh) p" "sh < 5" "m = push_bit (2 ^ sh) (mask (2 ^ sh))"
  shows "clz_inv a (2 ^ sh) (clz_halve m sh p)"
proof -
  obtain x r s where p: "p = (x, r)" "x = drop_bit s a" "x \<noteq> 0" "unat x < 2 ^ (2 * 2 ^ sh)" "unat r + s + 2 * 2 ^ sh = 32"
    using assms(1) unfolding clz_inv_def by auto
  have iff: "x AND m = 0 \<longleftrightarrow> unat x < 2 ^ (2 ^ sh)" using p(4) assms(3) and_upper_half by blast
  have e: "unat (push_bit sh (1 :: u32)) = 2 ^ sh" using assms(2) by (rule_tac unat_exp) simp
  show ?thesis
  proof (cases "unat x < 2 ^ (2 ^ sh)")
    case True
    have "unat (r + push_bit sh 1) = unat r + 2 ^ sh" using p(5) by (simp add: unat_word_ariths e [simplified])
    then have "clz_inv a (2 ^ sh) (x, r + push_bit sh 1)"
      using True p unfolding clz_inv_def by auto
    then show ?thesis using True iff by (simp add: clz_halve_def p(1))
  next
    case False
    have "drop_bit (2 ^ sh) x \<noteq> 0" using False drop_bit_eq_0 by blast
    moreover have "unat (drop_bit (2 ^ sh) x) < 2 ^ (2 ^ sh)"
    proof -
      have "unat x < 2 ^ (2 ^ sh) * 2 ^ (2 ^ sh)" using p(4) by (simp flip: power_add mult_2)
      then show ?thesis by (simp only: unat_drop) (simp add: less_mult_imp_div_less)
    qed
    ultimately have "clz_inv a (2 ^ sh) (drop_bit (2 ^ sh) x, r)"
      using p unfolding clz_inv_def by (auto intro!: exI [of _ "s + 2 ^ sh"] simp: add.commute)
    then show ?thesis using False iff by (simp add: clz_halve_def p(1) e [simplified])
  qed
qed

lemma clz_inv_start: "a \<noteq> 0 \<Longrightarrow> clz_inv a 32 (a, 0)"
  by (auto simp: clz_inv_def intro!: exI [of _ 0])

lemma small_cases: "unat (x :: u32) < 4 \<Longrightarrow> x = 0 \<or> x = 1 \<or> x = 2 \<or> x = 3"
proof -
  assume "unat x < 4"
  then have "unat x = 0 \<or> unat x = 1 \<or> unat x = 2 \<or> unat x = 3" by linarith
  then show ?thesis by (simp add: word_unat_eq_iff)
qed

lemma clzsi2_spec:
  assumes "a \<noteq> 0"
  shows "unat (clzsi2 a) \<le> 31 \<and> 2 ^ (31 - unat (clzsi2 a)) \<le> unat a \<and> unat a < 2 ^ (32 - unat (clzsi2 a))"
proof -
  have "clz_inv a 2 (clz_halve 0xC 1 (clz_halve 0xF0 2 (clz_halve 0xFF00 3 (clz_halve 0xFFFF0000 4 (a, 0)))))"
    using clz_inv_halve [where a = a and sh = 1] clz_inv_halve [where a = a and sh = 2]
      clz_inv_halve [where a = a and sh = 3] clz_inv_halve [where a = a and sh = 4] clz_inv_start [OF assms]
    by (simp add: mask_eq_exp_minus_1 push_bit_eq_mult)
  then obtain x r s where x: "clz_halve 0xC 1 (clz_halve 0xF0 2 (clz_halve 0xFF00 3 (clz_halve 0xFFFF0000 4 (a, 0)))) = (x, r)"
      "x = drop_bit s a" "x \<noteq> 0" "unat x < 4" "unat r + s = 30"
    unfolding clz_inv_def by auto
  have a: "unat x * 2 ^ s \<le> unat a" "unat a < (unat x + 1) * 2 ^ s"
    unfolding x(2) unat_drop using dividend_less_div_times [of "2 ^ s" "unat a"] by simp_all
  from x(4) x(3) have "x = 1 \<or> x = 2 \<or> x = 3" using small_cases by blast
  note x123 = this
  then have "clzsi2 a = r + (if x = 1 then 1 else 0)" unfolding clzsi2_def x(1) by auto
  then have c: "unat (clzsi2 a) = unat r + (if x = 1 then 1 else 0)"
    using x(5) by (auto simp: unat_word_ariths)
  have s: "s = 30 - unat r" "(2 :: nat) ^ (31 - unat r) = 2 * 2 ^ s" "(2 :: nat) ^ (32 - unat r) = 4 * 2 ^ s"
  proof -
    show "s = 30 - unat r" using x(5) by simp
    have "31 - unat r = Suc s" "32 - unat r = Suc (Suc s)" using x(5) by simp_all
    then show "(2 :: nat) ^ (31 - unat r) = 2 * 2 ^ s" "(2 :: nat) ^ (32 - unat r) = 4 * 2 ^ s" by simp_all
  qed
  show ?thesis using x123 a x(5) unfolding c by (auto simp: s)
qed

definition ctz_inv :: "u32 \<Rightarrow> nat \<Rightarrow> u32 \<times> u32 \<Rightarrow> bool" where
  "ctz_inv a w p \<longleftrightarrow> (case p of (x, r) \<Rightarrow>
     x = drop_bit (unat r) a \<and> (\<forall>i < unat r. \<not> bit a i) \<and> take_bit w x \<noteq> 0 \<and> unat r + w \<le> 32)"

lemma ctz_inv_halve:
  assumes "ctz_inv a (2 * 2 ^ sh) p" "sh < 5" "m = mask (2 ^ sh)"
  shows "ctz_inv a (2 ^ sh) (ctz_halve m sh p)"
proof -
  obtain x r where p: "p = (x, r)" "x = drop_bit (unat r) a" "\<forall>i < unat r. \<not> bit a i"
      "take_bit (2 * 2 ^ sh) x \<noteq> 0" "unat r + 2 * 2 ^ sh \<le> 32"
    using assms(1) unfolding ctz_inv_def by auto
  have iff: "x AND m = 0 \<longleftrightarrow> take_bit (2 ^ sh) x = 0" unfolding assms(3) by (simp add: take_bit_eq_mask)
  have e: "unat (push_bit sh (1 :: u32)) = 2 ^ sh" using assms(2) by (rule_tac unat_exp) simp
  show ?thesis
  proof (cases "take_bit (2 ^ sh) x = 0")
    case True
    have r: "unat (r + push_bit sh 1) = unat r + 2 ^ sh" using p(5) by (simp add: unat_word_ariths e [simplified])
    have low: "\<not> bit x i" if "i < 2 ^ sh" for i
      using arg_cong [OF True, of "\<lambda>w. bit w i"] that by (simp add: bit_simps)
    have "\<not> bit a i" if "i < unat r + 2 ^ sh" for i
    proof (cases "i < unat r")
      case False
      then show ?thesis using low [of "i - unat r"] that by (simp add: p(2) bit_drop_bit_eq)
    qed (use p(3) in simp)
    moreover have "take_bit (2 ^ sh) (drop_bit (2 ^ sh) x) \<noteq> 0"
    proof
      assume high: "take_bit (2 ^ sh) (drop_bit (2 ^ sh) x) = 0"
      have "\<not> bit x i" if "i < 2 * 2 ^ sh" for i
      proof (cases "i < 2 ^ sh")
        case False
        then show ?thesis using arg_cong [OF high, of "\<lambda>w. bit w (i - 2 ^ sh)"] that
          by (auto simp: bit_simps)
      qed (rule low)
      then have "take_bit (2 * 2 ^ sh) x = 0" by (intro bit_word_eqI) (simp add: bit_simps)
      then show False using p(4) by simp
    qed
    ultimately have "ctz_inv a (2 ^ sh) (drop_bit (2 ^ sh) x, r + push_bit sh 1)"
      using p(5) unfolding ctz_inv_def p(2) by (simp add: r [simplified] add.commute)
    then show ?thesis using True iff by (simp add: ctz_halve_def p(1) e [simplified])
  next
    case False
    then have "ctz_inv a (2 ^ sh) (x, r)" using p unfolding ctz_inv_def by simp
    then show ?thesis using False iff by (simp add: ctz_halve_def p(1))
  qed
qed

lemma ctzsi2_spec:
  assumes "a \<noteq> 0"
  shows "unat (ctzsi2 a) \<le> 31 \<and> bit a (unat (ctzsi2 a)) \<and> (\<forall>i < unat (ctzsi2 a). \<not> bit a i)"
proof -
  have "ctz_inv a 32 (a, 0)" using assms by (simp add: ctz_inv_def take_bit_word_eq_self)
  then have "ctz_inv a 2 (ctz_halve 0x3 1 (ctz_halve 0x0F 2 (ctz_halve 0x00FF 3 (ctz_halve 0x0000FFFF 4 (a, 0)))))"
    using ctz_inv_halve [where a = a and sh = 1] ctz_inv_halve [where a = a and sh = 2]
      ctz_inv_halve [where a = a and sh = 3] ctz_inv_halve [where a = a and sh = 4]
    by (simp add: mask_eq_exp_minus_1)
  then obtain x r where x: "ctz_halve 0x3 1 (ctz_halve 0x0F 2 (ctz_halve 0x00FF 3 (ctz_halve 0x0000FFFF 4 (a, 0)))) = (x, r)"
      "x = drop_bit (unat r) a" "\<forall>i < unat r. \<not> bit a i" "take_bit 2 x \<noteq> 0" "unat r \<le> 30"
    unfolding ctz_inv_def by auto
  define y where "y = x AND 3"
  have tb: "take_bit 2 x = y" by (simp add: y_def take_bit_eq_mask mask_eq_exp_minus_1)
  have "unat y < 4"
  proof -
    have "unat (take_bit 2 x) = take_bit 2 (unat x)" by (rule unsigned_take_bit_eq)
    then show ?thesis unfolding tb by (simp add: take_bit_eq_mod)
  qed
  then have x123: "y = 1 \<or> y = 2 \<or> y = 3" using small_cases [of y] x(4) tb by auto
  have b: "bit a (unat r) \<longleftrightarrow> bit y 0" "bit a (Suc (unat r)) \<longleftrightarrow> bit y 1"
    unfolding tb [symmetric] x(2) by (simp_all add: bit_simps)
  have "drop_bit (Suc 0) x AND 1 = 1" if "y = 2" using arg_cong [OF that, of "drop_bit 1"] unfolding y_def by simp
  then have "ctzsi2 a = r + (if y = 2 then 1 else 0)" using x123 unfolding ctzsi2_def x(1) by (auto simp: y_def [symmetric])
  then have c: "unat (ctzsi2 a) = unat r + (if y = 2 then 1 else 0)"
    using x(5) by (auto simp: unat_word_ariths)
  show ?thesis using x123 x(3,5) b unfolding c by (auto simp: less_Suc_eq bit_simps)
qed

lemma power_of_two:
  assumes "x \<noteq> 0" "x AND (x - 1) = 0"
  shows "unat x = 2 ^ unat (ctzsi2 x)"
proof -
  define c where "c = unat (ctzsi2 x)"
  have c: "c \<le> 31" "bit x c" "\<And>i. i < c \<Longrightarrow> \<not> bit x i" using ctzsi2_spec [OF assms(1)] unfolding c_def by auto
  define h where "h = unat x div 2 ^ Suc c"
  have low: "unat x mod 2 ^ Suc c = 2 ^ c"
  proof -
    have "take_bit (Suc c) x = push_bit c 1"
      using c by (intro bit_word_eqI) (auto simp: bit_simps bit_1_iff less_Suc_eq simp del: push_bit_of_1)
    then have "take_bit (Suc c) (unat x) = 2 ^ c"
      using unat_exp [of c] c(1) unsigned_take_bit_eq [of "Suc c" x, where 'a = nat] by simp
    then show ?thesis by (simp add: take_bit_eq_mod)
  qed
  have x: "unat x = h * 2 ^ Suc c + 2 ^ c" using div_mult_mod_eq [of "unat x" "2 ^ Suc c"] low h_def by simp
  have x1: "unat (x - 1) = h * 2 ^ Suc c + (2 ^ c - 1)" using assms(1) x by (simp add: unat_minus_one)
  have "drop_bit (Suc c) (x - 1) = drop_bit (Suc c) x"
  proof -
    have "unat (x - 1) div 2 ^ Suc c = h" 
    proof -
      have "(2 ^ c :: nat) - 1 < 2 ^ Suc c" by (simp add: less_imp_diff_less)
      then show ?thesis unfolding x1 by (subst div_mult_self3) simp_all
    qed
    then show ?thesis by (simp only: word_unat_eq_iff unat_drop h_def)
  qed
  then have "drop_bit (Suc c) x = drop_bit (Suc c) (x AND (x - 1))" by (simp only: drop_bit_and and.idem)
  then have "h = 0" unfolding assms(2) h_def by (metis drop_bit_of_0 unat_drop unsigned_0)
  then show ?thesis using x c_def by simp
qed

section \<open>The cases before the loop\<close>

definition setup_ok :: "udwords \<Rightarrow> udwords \<Rightarrow> fault + dd_setup \<Rightarrow> bool" where
  "setup_ok n d s \<longleftrightarrow> (\<exists>s'. s = Inr s' \<and> (case s' of
      Answer q r \<Rightarrow> unat q = unat (dw_all n) div unat (dw_all d) \<and> unat r = unat (dw_all n) mod unat (dw_all d)
    | Loop r q sr \<Rightarrow> unat sr \<le> 63 \<and> dd_inv (unat (dw_all n)) (unat (dw_all d)) (unat sr) (r, q, 0)
        \<and> (unat (dw_all d) \<le> 9223372036854775808
           \<or> unat sr \<le> 1 \<and> unat (dw_all d) \<le> unat (dw_all n) + 9223372036854775808)))"

lemma unat_shl: "unat (push_bit k (x :: u64)) = unat x * 2 ^ k mod 18446744073709551616"
  by (subst unsigned_push_bit_eq) (simp add: push_bit_eq_mult take_bit_eq_mod)

lemma unat_shr: "unat (drop_bit k (x :: u64)) = unat x div 2 ^ k"
  using u64_bound [of x] by (subst unsigned_drop_bit_eq) (simp add: drop_bit_eq_div take_bit_nat_eq_self)

lemma loop_start:
  assumes "dw_all q = push_bit (64 - k) (dw_all n)" "dw_all r = drop_bit k (dw_all n)" "1 \<le> k" "k \<le> 63"
    "unat (dw_all n) div 2 ^ k < unat (dw_all d)"
  shows "dd_inv (unat (dw_all n)) (unat (dw_all d)) k (r, q, 0)"
proof -
  have s: "(18446744073709551616 :: nat) = 2 ^ k * 2 ^ (64 - k)" using assms(4) by (simp flip: power_add)
  have "unat (dw_all q) = (unat (dw_all n) mod 2 ^ k) * 2 ^ (64 - k)"
    unfolding assms(1) unat_shl s by (rule mod_mult_mult2)
  then show ?thesis unfolding dd_inv_def using assms(5) by (auto simp: assms(2) unat_shr)
qed

lemma split_shift_ok:
  assumes "1 \<le> unat sr" "unat sr \<le> 31"
  shows "\<exists>r q. split_shift n sr = Inr (Loop r q sr) \<and> dw_all q = push_bit (64 - unat sr) (dw_all n)
    \<and> dw_all r = drop_bit (unat sr) (dw_all n)"
proof -
  have k: "unat (32 - sr) = 32 - unat sr"
    using assms by (simp add: unat_sub word_le_nat_alt)
  have "dw_all \<lparr> s_low = 0, s_high = push_bit (32 - unat sr) (s_low n) \<rparr> = push_bit (64 - unat sr) (dw_all n)"
    using assms by (intro bit_word_eqI) (auto simp: bit_dw_all bit_simps)
  moreover have "dw_all \<lparr> s_low = push_bit (32 - unat sr) (s_high n) OR drop_bit (unat sr) (s_low n),
      s_high = drop_bit (unat sr) (s_high n) \<rparr> = drop_bit (unat sr) (dw_all n)"
    using assms by (intro bit_word_eqI) (auto simp: bit_dw_all bit_simps bit_above add.commute)
  ultimately show ?thesis using assms by (simp add: split_shift_def shl32_def shr32_def k)
qed

text \<open>The bounds that the leading zeros give, and the shift count computed from them.\<close>

lemma join: "(h + 1) * 4294967296 \<le> X * 4294967296 \<Longrightarrow> l < 4294967296 \<Longrightarrow> h * 4294967296 + l < X * (4294967296 :: nat)"
  by (simp only: add_mult_distrib)

lemma high_bounds:
  assumes "s_high v \<noteq> 0"
  defines "c \<equiv> unat (clzsi2 (s_high v))"
  shows "c \<le> 31" "2 ^ (63 - c) \<le> unat (dw_all v)" "unat (dw_all v) < 2 ^ (64 - c)"
proof -
  have c: "c \<le> 31" "2 ^ (31 - c) \<le> unat (s_high v)" "unat (s_high v) < 2 ^ (32 - c)"
    using clzsi2_spec [OF assms(1)] unfolding c_def by auto
  show "c \<le> 31" by fact
  have p: "(2 :: nat) ^ (63 - c) = 2 ^ (31 - c) * 4294967296" "(2 :: nat) ^ (64 - c) = 2 ^ (32 - c) * 4294967296"
  proof -
    have "63 - c = (31 - c) + 32" "64 - c = (32 - c) + 32" using c(1) by simp_all
    then show "(2 :: nat) ^ (63 - c) = 2 ^ (31 - c) * 4294967296" "(2 :: nat) ^ (64 - c) = 2 ^ (32 - c) * 4294967296"
      by (simp_all only: power_add) simp_all
  qed
  have "2 ^ (31 - c) * 4294967296 \<le> unat (s_high v) * 4294967296" using c(2) by simp
  then show "2 ^ (63 - c) \<le> unat (dw_all v)" unfolding p unat_dw_all by linarith
  have "(unat (s_high v) + 1) * 4294967296 \<le> 2 ^ (32 - c) * 4294967296" using c(3) by (intro mult_le_mono1) simp
  then show "unat (dw_all v) < 2 ^ (64 - c)" unfolding p unat_dw_all using u32_less_4G [of "s_low v"] by (rule join)
qed

lemma shift_bound:
  assumes "N < 2 ^ (a + k)" "2 ^ a \<le> (D :: nat)"
  shows "N div 2 ^ k < D"
proof -
  have "N div 2 ^ k < 2 ^ a" using assms(1) by (intro less_mult_imp_div_less) (simp add: power_add)
  then show ?thesis using assms(2) by linarith
qed

lemma less_answers_0: "unat (dw_all n) < unat (dw_all d) \<Longrightarrow> setup_ok n d (Inr (Answer 0 (dw_all n)))"
  by (simp add: setup_ok_def)

text \<open>Both words have a high half: the count, the answer 0, and what the loop starts with.\<close>

lemma both_high:
  assumes "s_high n \<noteq> 0" "s_high d \<noteq> 0"
  defines "sr \<equiv> clzsi2 (s_high d) - clzsi2 (s_high n)"
  shows "31 < sr \<Longrightarrow> setup_ok n d (Inr (Answer 0 (dw_all n)))"
    and "sr \<le> 31 \<Longrightarrow> unat (sr + 1) \<le> 32 \<and> 1 \<le> unat (sr + 1)"
    and "sr \<le> 31 \<Longrightarrow> unat (dw_all n) div 2 ^ unat (sr + 1) < unat (dw_all d)"
    and "sr \<le> 31 \<Longrightarrow> unat (dw_all d) \<le> 9223372036854775808
           \<or> unat (sr + 1) \<le> 1 \<and> unat (dw_all d) \<le> unat (dw_all n) + 9223372036854775808"
proof -
  let ?cd = "unat (clzsi2 (s_high d))" and ?cn = "unat (clzsi2 (s_high n))"
  note n = high_bounds [OF assms(1)] and d = high_bounds [OF assms(2)]
  have u: "unat sr = (if ?cn \<le> ?cd then ?cd - ?cn else ?cd + 4294967296 - ?cn)"
    by (simp add: sr_def unat_sub_if_size word_size)
  have le: "sr \<le> 31 \<longleftrightarrow> ?cn \<le> ?cd" using u n(1) d(1) by (auto simp: word_le_nat_alt)
  have u1: "unat (sr + 1) = ?cd - ?cn + 1" if "?cn \<le> ?cd" using u that d(1) by (simp add: unat_word_ariths)
  show "setup_ok n d (Inr (Answer 0 (dw_all n)))" if "31 < sr"
  proof (rule less_answers_0)
    have "?cd < ?cn" using le that by (simp add: not_le [symmetric])
    then have "64 - ?cn \<le> 63 - ?cd" using n(1) by linarith
    then have "(2 :: nat) ^ (64 - ?cn) \<le> 2 ^ (63 - ?cd)" by (rule power_increasing) simp
    then show "unat (dw_all n) < unat (dw_all d)" using n(3) d(2) by linarith
  qed
  assume "sr \<le> 31"
  then have c: "?cn \<le> ?cd" using le by simp
  show "unat (sr + 1) \<le> 32 \<and> 1 \<le> unat (sr + 1)" using u1 [OF c] d(1) by simp
  have "64 - ?cn = (63 - ?cd) + unat (sr + 1)" using u1 [OF c] c d(1) by simp
  then show "unat (dw_all n) div 2 ^ unat (sr + 1) < unat (dw_all d)"
    using n(3) d(2) by (intro shift_bound [of _ "63 - ?cd"]) simp_all
  show "unat (dw_all d) \<le> 9223372036854775808
      \<or> unat (sr + 1) \<le> 1 \<and> unat (dw_all d) \<le> unat (dw_all n) + 9223372036854775808"
  proof (cases "?cd = 0")
    case True
    then show ?thesis using c n(2) u1 [OF c] u64_bound [of "dw_all d"] by simp
  next
    case False
    then have "(2 :: nat) ^ (64 - ?cd) \<le> 2 ^ 63" by (intro power_increasing) auto
    then show ?thesis using d(3) by simp
  qed
qed

lemma setup_split:
  assumes "1 \<le> unat sr" "unat sr \<le> 31" "unat (dw_all n) div 2 ^ unat sr < unat (dw_all d)"
    "unat (dw_all d) \<le> 9223372036854775808
      \<or> unat sr \<le> 1 \<and> unat (dw_all d) \<le> unat (dw_all n) + 9223372036854775808"
  shows "setup_ok n d (split_shift n sr)"
proof -
  obtain r q where "split_shift n sr = Inr (Loop r q sr)" "dw_all q = push_bit (64 - unat sr) (dw_all n)"
      "dw_all r = drop_bit (unat sr) (dw_all n)" using split_shift_ok [OF assms(1,2)] by blast
  then show ?thesis using loop_start [of q "unat sr" n r d] assms by (auto simp: setup_ok_def)
qed

lemma setup_half:
  assumes "unat (dw_all n) div 2 ^ 32 < unat (dw_all d)" "unat (dw_all d) \<le> 9223372036854775808"
  shows "setup_ok n d (Inr (Loop \<lparr> s_low = s_high n, s_high = 0 \<rparr> \<lparr> s_low = 0, s_high = s_low n \<rparr> 32))"
proof -
  have "dw_all \<lparr> s_low = 0, s_high = s_low n \<rparr> = push_bit 32 (dw_all n)"
    "dw_all \<lparr> s_low = s_high n, s_high = 0 \<rparr> = drop_bit 32 (dw_all n)"
    by (rule bit_word_eqI, force simp: bit_dw_all bit_simps bit_above)+
  then show ?thesis using loop_start [of "\<lparr> s_low = 0, s_high = s_low n \<rparr>" 32 n] assms by (auto simp: setup_ok_def)
qed

lemma setup_both_ok:
  assumes "s_high n \<noteq> 0" "s_high d \<noteq> 0"
  shows "setup_ok n d (setup_both n d)"
proof -
  define sr where "sr = clzsi2 (s_high d) - clzsi2 (s_high n)"
  note b = both_high [OF assms, folded sr_def]
  show ?thesis
  proof (cases "31 < sr")
    case True
    then show ?thesis using b(1) by (simp add: setup_both_def sr_def)
  next
    case False
    then have le: "sr \<le> 31" by simp
    show ?thesis
    proof (cases "sr + 1 = 32")
      case True
      then have "unat (sr + 1) = 32" by simp
      then have "setup_ok n d (Inr (Loop \<lparr> s_low = s_high n, s_high = 0 \<rparr> \<lparr> s_low = 0, s_high = s_low n \<rparr> 32))"
        using b(3,4) [OF le] by (intro setup_half) auto
      then show ?thesis using True False by (simp add: setup_both_def Let_def flip: sr_def)
    next
      case ne: False
      then have "unat (sr + 1) \<noteq> 32" by (auto simp: word_unat_eq_iff)
      then have "setup_ok n d (split_shift n (sr + 1))" using b(2-4) [OF le] by (intro setup_split) auto
      then show ?thesis using ne False by (simp add: setup_both_def Let_def flip: sr_def)
    qed
  qed
qed

text \<open>The branches on the divisor's halves, and their composition.\<close>

lemma unat_ucast32 [simp]: "unat (ucast (x :: u32) :: u64) = unat x"
  using u32_less_4G [of x] by (simp add: unsigned_ucast_eq take_bit_nat_eq_self del: u32_less_4G)

lemma and_pred: "unat x = 2 ^ c \<Longrightarrow> unat (y AND (x - 1)) = unat y mod 2 ^ c" for x y :: u32
proof -
  assume x: "unat x = 2 ^ c"
  then have "unat (x - 1) = mask c"
    by (subst unat_minus_one) (auto simp: mask_eq_exp_minus_1)
  then have "unat (y AND (x - 1)) = take_bit c (unat y)" by (simp add: unsigned_and_eq take_bit_eq_mask)
  then show ?thesis by (simp add: take_bit_eq_mod)
qed

lemma setup_high_ok:
  assumes "s_high n \<noteq> 0" "s_low d = 0" "s_high d \<noteq> 0"
  shows "setup_ok n d (setup_high n d)"
proof (cases "s_low n = 0")
  case True
  have "unat (s_high n) * 4294967296 mod (unat (s_high d) * 4294967296) = unat (s_high n) mod unat (s_high d) * 4294967296"
    by (rule mod_mult_mult2)
  then show ?thesis using True assms
    by (auto simp: setup_high_def setup_ok_def mod32_def div32_def unat_dw_all unat_div unat_mod)
next
  case ln: False
  show ?thesis
  proof (cases "s_high d AND (s_high d - 1) = 0")
    case True
    define c where "c = unat (ctzsi2 (s_high d))"
    have dh: "unat (s_high d) = 2 ^ c" using power_of_two [OF assms(3) True] unfolding c_def .
    have c: "c \<le> 31" using ctzsi2_spec [OF assms(3)] c_def by simp
    have D: "unat (dw_all d) = 4294967296 * 2 ^ c" using assms(2) dh by (simp add: unat_dw_all)
    have hd: "unat (dw_all n) div 4294967296 = unat (s_high n)" "unat (dw_all n) mod 4294967296 = unat (s_low n)"
      using u32_less_4G [of "s_low n"] by (simp_all add: unat_dw_all del: u32_less_4G)
    have q: "unat (dw_all n) div unat (dw_all d) = unat (s_high n) div 2 ^ c"
      and r: "unat (dw_all n) mod unat (dw_all d) = unat (s_high n) mod 2 ^ c * 4294967296 + unat (s_low n)"
      by (simp_all add: D div_mult2_eq mod_mult2_eq hd)
    have "unat (dw_all \<lparr> s_low = s_low n, s_high = s_high n AND (s_high d - 1) \<rparr>)
        = unat (s_high n) mod 2 ^ c * 4294967296 + unat (s_low n)"
      by (simp add: unat_dw_all and_pred [OF dh])
    moreover have "setup_high n d = Inr (Answer (ucast (drop_bit c (s_high n)))
        (dw_all \<lparr> s_low = s_low n, s_high = s_high n AND (s_high d - 1) \<rparr>))"
      using ln True assms(3) c by (simp add: setup_high_def shr32_def flip: c_def)
    ultimately show ?thesis by (simp only: setup_ok_def q r) (simp add: unat_drop [simplified] q r)
  next
    case False
    define sr where "sr = clzsi2 (s_high d) - clzsi2 (s_high n)"
    note b = both_high [OF assms(1,3), folded sr_def]
    have ne: "sr \<noteq> 31"
    proof
      assume "sr = 31"
      then have "unat (clzsi2 (s_high d) - clzsi2 (s_high n)) = 31" using sr_def by simp
      then have "unat (clzsi2 (s_high d)) = 31"
        using high_bounds(1) [OF assms(1)] high_bounds(1) [OF assms(3)]
        by (simp add: unat_sub_if_size word_size split: if_splits)
      then have "unat (s_high d) = 1" using clzsi2_spec [OF assms(3)] by simp
      then have "s_high d = 1" by (simp add: word_unat_eq_iff)
      then show False using False by simp
    qed
    show ?thesis
    proof (cases "30 < sr")
      case True
      then have "31 < sr" using ne by (auto simp: word_less_nat_alt word_unat_eq_iff)
      then show ?thesis using b(1) True ln False assms(3) by (simp add: setup_high_def sr_def)
    next
      case le: False
      then have "unat (sr + 1) \<le> 31" by (simp add: word_less_nat_alt unat_word_ariths)
      moreover have "sr \<le> 31" using le by (simp add: word_less_nat_alt word_le_nat_alt)
      ultimately have "setup_ok n d (split_shift n (sr + 1))" using b(2-4) by (intro setup_split) auto
      then show ?thesis using le ln False assms(3) by (simp add: setup_high_def Let_def flip: sr_def)
    qed
  qed
qed

lemma low_bounds:
  assumes "s_high d = 0" "s_low d \<noteq> 0" "s_low d AND (s_low d - 1) \<noteq> 0"
  defines "c \<equiv> unat (clzsi2 (s_low d))"
  shows "c \<le> 30" "2 ^ (31 - c) \<le> unat (dw_all d)" "unat (dw_all d) \<le> 9223372036854775808"
proof -
  have c: "c \<le> 31" "2 ^ (31 - c) \<le> unat (s_low d)" "unat (s_low d) < 2 ^ (32 - c)"
    using clzsi2_spec [OF assms(2)] unfolding c_def by auto
  have "c \<noteq> 31"
  proof
    assume "c = 31"
    then have "s_low d = 1" using c by (simp add: word_unat_eq_iff)
    then show False using assms(3) by simp
  qed
  then show "c \<le> 30" using c(1) by simp
  show "2 ^ (31 - c) \<le> unat (dw_all d)" using c(2) assms(1) by (simp add: unat_dw_all)
  show "unat (dw_all d) \<le> 9223372036854775808" using assms(1) u32_less_4G [of "s_low d"]
    by (simp add: unat_dw_all del: u32_less_4G)
qed

lemma setup_wide:
  assumes "33 \<le> unat sr" "unat sr \<le> 63" "unat (dw_all n) div 2 ^ unat sr < unat (dw_all d)"
    "unat (dw_all d) \<le> 9223372036854775808"
  shows "setup_ok n d (bnd (shl32 (s_low n) (64 - sr)) (\<lambda>ql. bnd (shl32 (s_high n) (64 - sr)) (\<lambda>a.
    bnd (shr32 (s_low n) (sr - 32)) (\<lambda>b. bnd (shr32 (s_high n) (sr - 32)) (\<lambda>rl.
      Inr (Loop \<lparr> s_low = rl, s_high = 0 \<rparr> \<lparr> s_low = ql, s_high = a OR b \<rparr> sr))))))"
proof -
  have k: "unat (64 - sr) = 64 - unat sr" "unat (sr - 32) = unat sr - 32"
    using assms(1,2) by (simp_all add: unat_sub word_le_nat_alt)
  have "dw_all \<lparr> s_low = push_bit (64 - unat sr) (s_low n), s_high = push_bit (64 - unat sr) (s_high n)
      OR drop_bit (unat sr - 32) (s_low n) \<rparr> = push_bit (64 - unat sr) (dw_all n)"
    "dw_all \<lparr> s_low = drop_bit (unat sr - 32) (s_high n), s_high = 0 \<rparr> = drop_bit (unat sr) (dw_all n)"
    using assms(1,2) by (intro bit_word_eqI, force simp: bit_dw_all bit_simps bit_above add.commute)+
  then show ?thesis
    using loop_start [of _ "unat sr" n _ d] assms by (auto simp: setup_ok_def shl32_def shr32_def k)
qed

lemma setup_low_ok:
  assumes "s_high n \<noteq> 0" "s_high d = 0" "s_low d \<noteq> 0"
  shows "setup_ok n d (setup_low n d)"
proof (cases "s_low d AND (s_low d - 1) = 0")
  case True
  define c where "c = unat (ctzsi2 (s_low d))"
  have dl: "unat (s_low d) = 2 ^ c" using power_of_two [OF assms(3) True] unfolding c_def .
  have c: "c \<le> 31" using ctzsi2_spec [OF assms(3)] c_def by simp
  have D: "unat (dw_all d) = 2 ^ c" using assms(2) dl by (simp add: unat_dw_all)
  have m: "unat (s_low n AND (s_low d - 1)) = unat (dw_all n) mod 2 ^ c"
  proof -
    have "(2 :: nat) ^ (32 - c) * 2 ^ c = 4294967296" using c by (simp flip: power_add)
    then have "unat (dw_all n) = unat (s_low n) + unat (s_high n) * 2 ^ (32 - c) * 2 ^ c"
      by (simp add: unat_dw_all mult.assoc)
    then have "unat (dw_all n) mod 2 ^ c = unat (s_low n) mod 2 ^ c" by (simp only: mod_mult_self1)
    then show ?thesis by (simp add: and_pred [OF dl])
  qed
  show ?thesis
  proof (cases "s_low d = 1")
    case one: True
    then have "c = 0" using dl by (cases c) auto
    then show ?thesis using one m D by (simp add: setup_low_def setup_ok_def)
  next
    case False
    have "c \<noteq> 0" using dl False by (auto simp: word_unat_eq_iff)
    then have k: "unat (32 - ctzsi2 (s_low d)) = 32 - c" "1 \<le> c" using c
      by (simp_all add: unat_sub word_le_nat_alt c_def)
    have "dw_all \<lparr> s_low = push_bit (32 - c) (s_high n) OR drop_bit c (s_low n), s_high = drop_bit c (s_high n) \<rparr>
        = drop_bit c (dw_all n)"
      using c k(2) by (intro bit_word_eqI) (auto simp: bit_dw_all bit_simps bit_above add.commute)
    then show ?thesis using True False c k m
      by (simp add: setup_low_def setup_ok_def Let_def shl32_def shr32_def D flip: c_def unat_shr)
  qed
next
  case False
  define sr where "sr = 1 + 32 + clzsi2 (s_low d) - clzsi2 (s_high n)"
  let ?cd = "unat (clzsi2 (s_low d))" and ?cn = "unat (clzsi2 (s_high n))"
  note l = low_bounds [OF assms(2,3) False] and n = high_bounds [OF assms(1)]
  have u: "unat sr = 33 + ?cd - ?cn"
    using l(1) n(1) by (simp add: sr_def unat_sub_if_size word_size unat_word_ariths)
  have "64 - ?cn = (31 - ?cd) + unat sr" using u l(1) n(1) by simp
  then have less: "unat (dw_all n) div 2 ^ unat sr < unat (dw_all d)"
    using n(3) l(2) by (intro shift_bound [of _ "31 - ?cd"]) simp_all
  have r: "2 \<le> unat sr" "unat sr \<le> 63" using u l(1) n(1) by linarith+
  have eq: "setup_low n d = (if sr = 32 then
             Inr (Loop \<lparr> s_low = s_high n, s_high = 0 \<rparr> \<lparr> s_low = 0, s_high = s_low n \<rparr> sr)
           else if sr < 32 then split_shift n sr
           else
             bnd (shl32 (s_low n) (64 - sr)) (\<lambda>ql. bnd (shl32 (s_high n) (64 - sr)) (\<lambda>a.
             bnd (shr32 (s_low n) (sr - 32)) (\<lambda>b. bnd (shr32 (s_high n) (sr - 32)) (\<lambda>rl.
               Inr (Loop \<lparr> s_low = rl, s_high = 0 \<rparr> \<lparr> s_low = ql, s_high = a OR b \<rparr> sr))))))"
    unfolding setup_low_def Let_def sr_def using False by (simp only: if_False)
  consider "sr = 32" | "unat sr < 32" | "33 \<le> unat sr" by (force simp: word_unat_eq_iff)
  then show ?thesis
  proof cases
    case 1
    then show ?thesis using setup_half [of n d] less l(3) by (simp add: eq)
  next
    case 2
    then show ?thesis using setup_split [of sr n d] less l(3) r(1) by (auto simp: eq word_less_nat_alt)
  next
    case 3
    then show ?thesis using setup_wide [OF 3 r(2) less l(3)] by (auto simp: eq word_less_nat_alt)
  qed
qed

lemma setup_correct:
  assumes "dw_all d \<noteq> 0"
  shows "setup_ok n d (udivmod_setup n d)"
proof -
  have d: "s_low d \<noteq> 0 \<or> s_high d \<noteq> 0" using assms by (auto simp: word_unat_eq_iff unat_dw_all)
  consider "s_high n = 0" "s_high d = 0" | "s_high n = 0" "s_high d \<noteq> 0" | "s_high n \<noteq> 0" by blast
  then show ?thesis
  proof cases
    case 1
    then show ?thesis using d
      by (simp add: udivmod_setup_def setup_ok_def div32_def mod32_def unat_dw_all unat_div unat_mod)
  next
    case 2
    then have "1 \<le> unat (s_high d)" by (simp add: Suc_le_eq unat_gt_0 word_neq_0_conv)
    then have "unat (s_low n) < unat (dw_all d)" using u32_less_4G [of "s_low n"] unfolding unat_dw_all by linarith
    then show ?thesis using 2 by (simp add: udivmod_setup_def setup_ok_def unat_dw_all)
  next
    case 3
    then show ?thesis using d setup_high_ok setup_low_ok setup_both_ok by (simp add: udivmod_setup_def)
  qed
qed

lemma setup_by_zero: "udivmod_setup n (dw_of 0) = Inl Div_Trap"
  by (simp add: udivmod_setup_def dw_of_def setup_high_def mod32_def)

section \<open>Division\<close>

lemma loop_answer:
  assumes "dd_inv (unat (dw_all n)) (unat (dw_all d)) 0 (r, q, c)"
  shows "push_bit 1 (dw_all q) OR ucast c = dw_all n div dw_all d \<and> dw_all r = dw_all n mod dw_all d"
proof -
  let ?N = "unat (dw_all n)" and ?D = "unat (dw_all d)"
  obtain L where L: "unat c \<le> 1" "unat (dw_all r) < ?D" "unat (dw_all q) = L" "?N = ?D * (2 * L + unat c) + unat (dw_all r)"
    using assms unfolding dd_inv_def by auto
  have q: "?N div ?D = 2 * L + unat c" and r: "?N mod ?D = unat (dw_all r)" unfolding L(4) using L(2) by simp_all
  have "?N div ?D \<le> ?N" by simp
  then have "2 * L < 18446744073709551616" using q u64_bound [of "dw_all n"] by linarith
  then have "unat (push_bit 1 (dw_all q) OR ucast c) = ?N div ?D"
    using unat_twice_or [of "ucast c" "dw_all q"] L(1,3) q by simp
  then show ?thesis using r by (auto simp: word_unat_eq_iff unat_div unat_mod)
qed

lemma udivmoddi4_eq:
  "udivmoddi4 a b = (if b = 0 then Inl Div_Trap else Inr (a div b, a mod b))"
proof (cases "b = 0")
  case True
  then show ?thesis using setup_by_zero by (simp add: udivmoddi4_def Let_def)
next
  case False
  let ?n = "dw_of a" and ?d = "dw_of b"
  obtain s where s: "udivmod_setup ?n ?d = Inr s" and ok: "setup_ok ?n ?d (Inr s)"
    using setup_correct [of ?d ?n] False by (auto simp: setup_ok_def)
  show ?thesis
  proof (cases s)
    case (Answer q r)
    then have "q = a div b" "r = a mod b" using ok by (auto simp: setup_ok_def word_unat_eq_iff unat_div unat_mod)
    then show ?thesis using s Answer False by (simp add: udivmoddi4_def Let_def)
  next
    case (Loop r q sr)
    then have "dd_inv (unat a) (unat b) 0 (udivmod_loop (unat sr) ?d (r, q, 0))"
      using ok dd_inv_loop [of "unat a" ?d "unat sr" "(r, q, 0)"] u64_bound [of a] by (auto simp: setup_ok_def)
    moreover obtain r' q' c where l: "udivmod_loop (unat sr) ?d (r, q, 0) = (r', q', c)" by (metis prod_cases3)
    ultimately show ?thesis using loop_answer [of ?n ?d r' q' c] s Loop False by (simp add: udivmoddi4_def Let_def)
  qed
qed

lemma udivdi3_eq: "udivdi3 a b = (if b = 0 then Inl Div_Trap else Inr (a div b))"
  by (simp add: udivdi3_def udivmoddi4_eq)

lemma umoddi3_eq: "umoddi3 a b = (if b = 0 then Inl Div_Trap else Inr (a mod b))"
  by (simp add: umoddi3_def udivmoddi4_eq)

section \<open>Signed division\<close>

lemma sign_of_eq: "sign_of a = (if sint a < 0 then - 1 else 0)"
  using bit_last_iff [of a] by (simp add: sign_of_def spread_sign)

lemma negate_if_simps [simp]: "negate_if 0 a = a" "negate_if (- 1) a = - a"
  by (simp_all add: negate_if_def not_eq_complement)

definition magnitude :: "u64 \<Rightarrow> u64" where
  "magnitude a = (if sint a < 0 then - a else a)"

lemma negate_sign: "negate_if (sign_of a) a = magnitude a"
  by (simp add: sign_of_eq magnitude_def)

lemma uint_magnitude: "uint (magnitude a) = \<bar>sint a\<bar>"
proof -
  have b: "uint a < 18446744073709551616" using uint_bounded [of a] by simp
  have s: "sint a = uint a - 18446744073709551616 * of_bool (bit a 63)"
    using b by (simp add: sint_uint signed_take_bit_eq_take_bit_minus bit_uint_iff take_bit_int_eq_self)
  show ?thesis
  proof (cases "sint a < 0")
    case True
    have "0 \<le> uint a" by simp
    then have "bit (uint a) 63" using True s by (cases "bit a 63") (auto simp: bit_uint_iff)
    then have "uint a \<noteq> 0" by auto
    then have "uint (- a) = 18446744073709551616 - uint a"
      using b by (simp add: uint_word_ariths zmod_zminus1_eq_if)
    moreover have "bit a 63" using True s \<open>0 \<le> uint a\<close> by (cases "bit a 63") auto
    ultimately show ?thesis using True s b by (simp add: magnitude_def)
  next
    case False
    then show ?thesis using s b by (cases "bit a 63") (auto simp: magnitude_def)
  qed
qed

lemma magnitude_0 [simp]: "magnitude a = 0 \<longleftrightarrow> a = 0"
  by (simp add: magnitude_def)

lemma word_quotient:
  "word_of_int (sint a sdiv sint b) = (if (sint a < 0) = (sint b < 0) then 1 else - 1) * (magnitude a div magnitude b)"
proof -
  have "magnitude a div magnitude b = word_of_int (\<bar>sint a\<bar> div \<bar>sint b\<bar>)"
    by (simp add: word_div_def uint_magnitude)
  then show ?thesis by (simp add: signed_divide_int_def sgn_if)
qed

lemma word_remainder:
  "word_of_int (sint a smod sint b) = (if sint a < 0 then - 1 else 1) * (magnitude a mod magnitude b)"
proof -
  have "magnitude a mod magnitude b = word_of_int (\<bar>sint a\<bar> mod \<bar>sint b\<bar>)"
    by (simp add: word_mod_def uint_magnitude)
  then show ?thesis by (simp add: signed_modulo_int_def sgn_if)
qed

lemma divdi3_eq: "divdi3 a b = (if b = 0 then Inl Div_Trap else Inr (word_of_int (sint a sdiv sint b)))"
  unfolding divdi3_def Let_def negate_sign udivmoddi4_eq magnitude_0 word_quotient by (auto simp: sign_of_eq)

lemma moddi3_eq: "moddi3 a b = (if b = 0 then Inl Div_Trap else Inr (word_of_int (sint a smod sint b)))"
  unfolding moddi3_def Let_def negate_sign udivmoddi4_eq magnitude_0 word_remainder by (auto simp: sign_of_eq)

text \<open>
  C38. \<open>__udivmoddi4\<close> of klib, which 64-bit division on a 32-bit guest compiles to, returns the
  quotient and the remainder for every dividend and every divisor but zero, without a shift by 32 or
  more on any path; with divisor zero it executes a division by zero.
\<close>

theorem klib_udivmoddi4_divides:
  "udivmoddi4 a b = (if b = 0 then Inl Div_Trap else Inr (a div b, a mod b))"
  by (rule udivmoddi4_eq)

text \<open>
  \<open>__divmoddi4\<close> returns the quotient rounded towards zero and the remainder with the dividend's
  sign, as C's \<open>/\<close> and \<open>%\<close> on \<open>long long\<close> do; the one quotient that does not fit, of the smallest
  number by -1, wraps around to the smallest number with remainder 0.
\<close>

theorem klib_divmoddi4_truncates:
  "divmoddi4 a b = (if b = 0 then Inl Div_Trap
     else Inr (word_of_int (sint a sdiv sint b), word_of_int (sint a smod sint b)))"
proof -
  have "a - word_of_int (sint a sdiv sint b) * b = word_of_int (sint a smod sint b)"
  proof -
    have "sint a smod sint b = sint a - sint a sdiv sint b * sint b" by (rule minus_sdiv_mult_eq_smod [symmetric])
    then show ?thesis by simp
  qed
  then show ?thesis by (simp add: divmoddi4_def divdi3_eq)
qed

end
