(* ===== verification/KlibString.thy ===== *)
theory KlibString imports NemuPrelude begin

text \<open>
  \<open>string.h\<close> and \<open>stdlib.h\<close> of the guests' C library, \<open>abstract-machine/klib/src/string.c\<close> and
  \<open>stdlib.c\<close>, on the 32-bit targets: a pointer is a \<open>u32\<close> whose arithmetic wraps, \<open>size_t\<close> is a \<open>u32\<close>,
  memory is a map from addresses to bytes that the functions take and return, so overlapping arguments
  behave as in the code. Whether \<open>char\<close> is signed depends on the target: the comparisons take the
  conversion \<open>ch\<close> of a \<open>char\<close> to \<open>int\<close> as an argument.

  A loop that looks for a terminator may not end; its result is then \<open>None\<close>.
\<close>

unbundle bit_operations_syntax

section \<open>string.c\<close>

partial_function (option) strlen_loop :: "u32 \<Rightarrow> u32 \<Rightarrow> (u32 \<Rightarrow> u8) \<Rightarrow> u32 option" where
  "strlen_loop s cnt m = (if m (s + cnt) \<noteq> 0 then strlen_loop s (cnt + 1) m else Some cnt)"

definition strlen :: "u32 \<Rightarrow> (u32 \<Rightarrow> u8) \<Rightarrow> u32 option" where
  "strlen s m = strlen_loop s 0 m"

partial_function (option) strcpy_loop :: "u32 \<Rightarrow> u32 \<Rightarrow> (u32 \<Rightarrow> u8) \<Rightarrow> (u32 \<Rightarrow> u8) option" where
  "strcpy_loop p src m =
     (let m1 = m(p := m src)
      in if m1 src = 0 then Some m1 else strcpy_loop (p + 1) (src + 1) m1)"

definition strcpy :: "u32 \<Rightarrow> u32 \<Rightarrow> (u32 \<Rightarrow> u8) \<Rightarrow> (u32 \<times> (u32 \<Rightarrow> u8)) option" where
  "strcpy dst src m = map_option (\<lambda>m1. (dst, m1)) (strcpy_loop dst src m)"

function strncpy_copy :: "u32 \<Rightarrow> u32 \<Rightarrow> u32 \<Rightarrow> u32 \<Rightarrow> (u32 \<Rightarrow> u8) \<Rightarrow> u32 \<times> (u32 \<Rightarrow> u8)" where
  "strncpy_copy dst src n i m =
     (if i < n \<and> m (src + i) \<noteq> 0
      then strncpy_copy dst src n (i + 1) (m(dst + i := m (src + i)))
      else (i, m))"
  by pat_completeness auto

text \<open>The second loop of \<open>strncpy\<close> counts \<open>n\<close> up, until it wraps to 0, and never moves \<open>i\<close>.\<close>

function strncpy_pad :: "u32 \<Rightarrow> u32 \<Rightarrow> u32 \<Rightarrow> (u32 \<Rightarrow> u8) \<Rightarrow> (u32 \<Rightarrow> u8)" where
  "strncpy_pad dst i n m = (if i < n then strncpy_pad dst i (n + 1) (m(dst + i := 0)) else m)"
  by pat_completeness auto

lemma word_less_Suc: "i < n \<Longrightarrow> unat (i + 1) = unat i + 1" for i n :: u32
proof -
  assume "i < n"
  then have "unat i < unat n" by (simp add: word_less_nat_alt)
  then have "unat i + 1 < 4294967296" using u32_less_4G [of n] by linarith
  then show ?thesis by (simp add: unat_word_ariths)
qed

lemma word_pred_unat: "i < n \<Longrightarrow> unat (- (n + 1)) < unat (- n)" for i n :: u32
proof -
  assume "i < n"
  then have n: "n \<noteq> 0" by auto
  have "- n \<noteq> 0" using n by simp
  then have "unat (- n - 1) < unat (- n)" by (metis unat_minus_one diff_less neq0_conv unat_eq_0 zero_less_one)
  then show ?thesis by simp
qed

termination strncpy_copy
proof (relation "measure (\<lambda>(_, _, n, i, _). unat n - unat i)", goal_cases)
  case (2 dst src n i m)
  then show ?case using word_less_Suc [of i n] by (auto simp: word_less_nat_alt)
qed simp

termination strncpy_pad
  by (relation "measure (\<lambda>(_, _, n, _). unat (- n))") (use word_pred_unat in auto)

declare strncpy_copy.simps [simp del] strncpy_pad.simps [simp del]

definition strncpy :: "u32 \<Rightarrow> u32 \<Rightarrow> u32 \<Rightarrow> (u32 \<Rightarrow> u8) \<Rightarrow> u32 \<times> (u32 \<Rightarrow> u8)" where
  "strncpy dst src n m = (let (i, m1) = strncpy_copy dst src n 0 m in (dst, strncpy_pad dst i n m1))"

partial_function (option) strcat_end :: "u32 \<Rightarrow> (u32 \<Rightarrow> u8) \<Rightarrow> u32 option" where
  "strcat_end p m = (if m p \<noteq> 0 then strcat_end (p + 1) m else Some p)"

definition strcat :: "u32 \<Rightarrow> u32 \<Rightarrow> (u32 \<Rightarrow> u8) \<Rightarrow> (u32 \<times> (u32 \<Rightarrow> u8)) option" where
  "strcat dst src m =
     Option.bind (strcat_end dst m) (\<lambda>p. map_option (\<lambda>m1. (dst, m1)) (strcpy_loop p src m))"

partial_function (option) strcmp_loop :: "(u8 \<Rightarrow> int) \<Rightarrow> u32 \<Rightarrow> u32 \<Rightarrow> (u32 \<Rightarrow> u8) \<Rightarrow> int option" where
  "strcmp_loop ch s1 s2 m =
     (if m s1 \<noteq> 0 \<and> ch (m s1) - ch (m s2) = 0 then strcmp_loop ch (s1 + 1) (s2 + 1) m
      else Some (ch (m s1) - ch (m s2)))"

definition strcmp :: "(u8 \<Rightarrow> int) \<Rightarrow> u32 \<Rightarrow> u32 \<Rightarrow> (u32 \<Rightarrow> u8) \<Rightarrow> int option" where
  "strcmp ch s1 s2 m = strcmp_loop ch s1 s2 m"

lemma unat_pred: "1 < n \<Longrightarrow> unat (n - 1) < unat n" for n :: u32
  by (metis diff_less neq0_conv unat_eq_0 unat_minus_one word_not_simps(1) zero_less_one)

function strncmp_loop :: "(u8 \<Rightarrow> int) \<Rightarrow> u32 \<Rightarrow> u32 \<Rightarrow> u32 \<Rightarrow> (u32 \<Rightarrow> u8) \<Rightarrow> int" where
  "strncmp_loop ch s1 s2 n m =
     (if n > 1 \<and> m s1 \<noteq> 0 \<and> ch (m s1) - ch (m s2) = 0 then strncmp_loop ch (s1 + 1) (s2 + 1) (n - 1) m
      else ch (m s1) - ch (m s2))"
  by pat_completeness auto
termination by (relation "measure (\<lambda>(_, _, _, n, _). unat n)") (use unat_pred in auto)

definition strncmp :: "(u8 \<Rightarrow> int) \<Rightarrow> u32 \<Rightarrow> u32 \<Rightarrow> u32 \<Rightarrow> (u32 \<Rightarrow> u8) \<Rightarrow> int" where
  "strncmp ch s1 s2 n m = (if n = 0 then 0 else strncmp_loop ch s1 s2 n m)"

function memset_loop :: "u32 \<Rightarrow> u32 \<Rightarrow> u32 \<Rightarrow> (u32 \<Rightarrow> u8) \<Rightarrow> (u32 \<Rightarrow> u8)" where
  "memset_loop v c n m =
     (if n = 0 then m else memset_loop v c (n - 1) (m(v + (n - 1) := ucast c)))"
  by pat_completeness auto
termination
  by (relation "measure (\<lambda>(_, _, n, _). unat n)") (auto simp: unat_minus_one unat_gt_0)

definition memset :: "u32 \<Rightarrow> u32 \<Rightarrow> u32 \<Rightarrow> (u32 \<Rightarrow> u8) \<Rightarrow> u32 \<times> (u32 \<Rightarrow> u8)" where
  "memset v c n m = (v, memset_loop v c n m)"

text \<open>\<open>memmove\<close> is a stub, and \<open>memcpy\<close> returns \<open>NULL\<close>.\<close>

definition memmove :: "u32 \<Rightarrow> u32 \<Rightarrow> u32 \<Rightarrow> (u32 \<Rightarrow> u8) \<Rightarrow> u32 \<times> (u32 \<Rightarrow> u8)" where
  "memmove dst src n m = (0, m)"

function memcpy_loop :: "u32 \<Rightarrow> u32 \<Rightarrow> u32 \<Rightarrow> u32 \<Rightarrow> (u32 \<Rightarrow> u8) \<Rightarrow> (u32 \<Rightarrow> u8)" where
  "memcpy_loop out inp n i m =
     (if i < n then memcpy_loop out inp n (i + 1) (m(out + i := m (inp + i))) else m)"
  by pat_completeness auto
termination memcpy_loop
proof (relation "measure (\<lambda>(_, _, n, i, _). unat n - unat i)", goal_cases)
  case (2 out inp n i m)
  then show ?case using word_less_Suc [of i n] by (auto simp: word_less_nat_alt)
qed simp

definition memcpy :: "u32 \<Rightarrow> u32 \<Rightarrow> u32 \<Rightarrow> (u32 \<Rightarrow> u8) \<Rightarrow> u32 \<times> (u32 \<Rightarrow> u8)" where
  "memcpy out inp n m = (0, memcpy_loop out inp n 0 m)"

function memcmp_loop :: "u32 \<Rightarrow> u32 \<Rightarrow> u32 \<Rightarrow> (u32 \<Rightarrow> u8) \<Rightarrow> int" where
  "memcmp_loop s1 s2 n m =
     (if n > 1 \<and> uint (m s1) - uint (m s2) = 0 then memcmp_loop (s1 + 1) (s2 + 1) (n - 1) m
      else uint (m s1) - uint (m s2))"
  by pat_completeness auto
termination by (relation "measure (\<lambda>(_, _, n, _). unat n)") (use unat_pred in auto)

definition memcmp :: "u32 \<Rightarrow> u32 \<Rightarrow> u32 \<Rightarrow> (u32 \<Rightarrow> u8) \<Rightarrow> int" where
  "memcmp s1 s2 n m = (if n = 0 then 0 else memcmp_loop s1 s2 n m)"

declare strncmp_loop.simps [simp del] memset_loop.simps [simp del] memcpy_loop.simps [simp del] memcmp_loop.simps [simp del]

section \<open>stdlib.c\<close>

text \<open>\<open>next\<close> is an \<open>unsigned long\<close>, 32 bits wide on these targets.\<close>

definition rand :: "u32 \<Rightarrow> u32 \<times> u32" where
  "rand nxt = (let n = nxt * 1103515245 + 12345 in ((n div 65536) mod 32768, n))"

definition srand :: "u32 \<Rightarrow> u32 \<Rightarrow> u32" where
  "srand seed nxt = seed"

text \<open>\<open>abs(INT_MIN)\<close> overflows in C; the machine's negation gives \<open>INT_MIN\<close> again.\<close>

definition c_abs :: "u32 \<Rightarrow> u32" where
  "c_abs x = (if sint x < 0 then - x else x)"

partial_function (option) atoi_skip :: "u32 \<Rightarrow> (u32 \<Rightarrow> u8) \<Rightarrow> u32 option" where
  "atoi_skip p m = (if m p = 32 then atoi_skip (p + 1) m else Some p)"

partial_function (option) atoi_loop :: "u32 \<Rightarrow> u32 \<Rightarrow> (u32 \<Rightarrow> u8) \<Rightarrow> u32 option" where
  "atoi_loop p x m =
     (if m p \<ge> 48 \<and> m p \<le> 57 then atoi_loop (p + 1) (x * 10 + ucast (m p) - 48) m else Some x)"

definition atoi :: "u32 \<Rightarrow> (u32 \<Rightarrow> u8) \<Rightarrow> u32 option" where
  "atoi nptr m = Option.bind (atoi_skip nptr m) (\<lambda>p. atoi_loop p 0 m)"

text \<open>The bump allocator: \<open>heap\<close> is the area \<open>[start, end)\<close> of \<open>am.h\<close>, \<open>offset\<close> the bytes handed out.\<close>

record heap_area =
  h_start :: u32
  h_end :: u32

definition align_8 :: "u32 \<Rightarrow> u32" where
  "align_8 sz = (sz + 7) AND NOT 7"

definition malloc :: "heap_area \<Rightarrow> u32 \<Rightarrow> u32 \<Rightarrow> fault + (u32 \<times> u32)" where
  "malloc heap sz offset =
     (let p = h_start heap + offset;
          offset1 = offset + align_8 sz;
          hbrk = h_start heap + offset1
      in bnd (c_assert (h_start heap \<le> hbrk \<and> hbrk \<le> h_end heap)) (\<lambda>_. Inr (p, offset1)))"

definition c_free :: "u32 \<Rightarrow> u32 \<Rightarrow> u32" where
  "c_free ptr offset = offset"

end
