(* ===== verification/KlibProps.thy ===== *)
theory KlibProps imports KlibString begin

text \<open>
  The string functions and the allocator of klib against their contracts: terminated strings in memory
  (\<open>cstr\<close>), blocks (\<open>cells\<close>), concatenation, comparison, filling and copying, and runs of \<open>malloc\<close>.
\<close>

unbundle bit_operations_syntax

section \<open>Strings in memory\<close>

fun cstr :: "(u32 \<Rightarrow> u8) \<Rightarrow> u32 \<Rightarrow> u8 list \<Rightarrow> bool" where
  "cstr m a [] \<longleftrightarrow> m a = 0"
| "cstr m a (b # bs) \<longleftrightarrow> b \<noteq> 0 \<and> m a = b \<and> cstr m (a + 1) bs"

fun put_bytes :: "u32 \<Rightarrow> u8 list \<Rightarrow> (u32 \<Rightarrow> u8) \<Rightarrow> (u32 \<Rightarrow> u8)" where
  "put_bytes a [] m = m"
| "put_bytes a (b # bs) m = put_bytes (a + 1) bs (m(a := b))"

definition cells :: "u32 \<Rightarrow> nat \<Rightarrow> u32 set" where
  "cells a n = {a + of_nat k | k. k < n}"

lemma cells_0 [simp]: "cells a 0 = {}"
  by (simp add: cells_def)

lemma cells_Suc: "cells a (Suc n) = insert a (cells (a + 1) n)"
proof
  show "cells a (Suc n) \<subseteq> insert a (cells (a + 1) n)"
  proof
    fix x
    assume "x \<in> cells a (Suc n)"
    then obtain k where k: "x = a + of_nat k" "k < Suc n" by (auto simp: cells_def)
    then show "x \<in> insert a (cells (a + 1) n)" by (cases k) (auto simp: cells_def algebra_simps)
  qed
  have "a + 1 + of_nat k = a + of_nat (Suc k)" for k by (simp add: algebra_simps)
  moreover have "a = a + of_nat 0" by simp
  ultimately show "insert a (cells (a + 1) n) \<subseteq> cells a (Suc n)"
    unfolding cells_def by (smt (verit, best) Suc_mono insert_iff mem_Collect_eq subsetI zero_less_Suc)
qed

lemma put_bytes_frame: "x \<notin> cells a (length bs) \<Longrightarrow> put_bytes a bs m x = m x"
  by (induction bs arbitrary: a m) (simp_all add: cells_Suc)

lemma cstr_frame: "(\<And>x. x \<in> cells a (Suc (length bs)) \<Longrightarrow> m' x = m x) \<Longrightarrow> cstr m' a bs = cstr m a bs"
proof (induction bs arbitrary: a)
  case (Cons b bs)
  have "cstr m' (a + 1) bs = cstr m (a + 1) bs"
    using Cons.prems by (intro Cons.IH) (simp add: cells_Suc [of a "Suc (length bs)"])
  then show ?case using Cons.prems [of a] by (simp add: cells_Suc)
qed (simp add: cells_Suc)

lemma plus_Suc: "a + 1 + of_nat k = a + (of_nat (Suc k) :: u32)"
  by (simp add: algebra_simps)

text \<open>A string is shorter than the address space: otherwise it would run over its own terminator.\<close>

lemma cstr_nth: "cstr m a bs \<Longrightarrow> k < length bs \<Longrightarrow> m (a + of_nat k) = bs ! k \<and> bs ! k \<noteq> 0"
proof (induction bs arbitrary: a k)
  case (Cons b bs)
  then show ?case
  proof (cases k)
    case (Suc j)
    then show ?thesis using Cons.IH [of "a + 1" j] Cons.prems unfolding plus_Suc by simp
  qed simp
qed simp

lemma cstr_end: "cstr m a bs \<Longrightarrow> m (a + of_nat (length bs)) = 0"
proof (induction bs arbitrary: a)
  case (Cons b bs)
  then show ?case using Cons.IH [of "a + 1"] unfolding plus_Suc by simp
qed simp

lemma cstr_length: "cstr m a bs \<Longrightarrow> length bs < 2 ^ 32"
proof (rule ccontr, goal_cases)
  case 1
  then have c: "cstr m a bs" and "\<not> length bs < 4294967296" by simp_all
  moreover define e where "e = unat (of_nat (length bs) :: u32)"
  ultimately have "e < length bs" using u32_less_4G [of "of_nat (length bs)"] by linarith
  moreover have "a + of_nat e = a + of_nat (length bs)" by (simp add: e_def)
  ultimately show False using cstr_nth [OF c, of e] cstr_end [OF c] by simp
qed

lemma cells_self: "k < n \<Longrightarrow> n \<le> 2 ^ 32 \<Longrightarrow> 0 < k \<Longrightarrow> a \<noteq> a + (of_nat k :: u32)"
proof
  assume "k < n" "n \<le> 2 ^ 32" "0 < k" "a = a + (of_nat k :: u32)"
  then have "(of_nat k :: u32) = 0" and "k < 2 ^ 32" by simp_all
  moreover have "unat (of_nat k :: u32) = k" using \<open>k < 2 ^ 32\<close> by (simp only: unat_of_nat) simp
  ultimately have "k = 0" by simp
  then show False using \<open>0 < k\<close> by simp
qed

lemma head_fresh: "Suc n \<le> 2 ^ 32 \<Longrightarrow> (a :: u32) \<notin> cells (a + 1) n"
proof
  assume n: "Suc n \<le> 2 ^ 32" and "a \<in> cells (a + 1) n"
  then obtain k where k: "a = a + 1 + of_nat k" "k < n" by (auto simp: cells_def)
  then have "a = a + of_nat (Suc k)" by (simp add: algebra_simps)
  then show False using cells_self [of "Suc k" "Suc n" a] n k(2) by simp
qed

lemma put_bytes_cstr:
  "0 \<notin> set bs \<Longrightarrow> length bs < 2 ^ 32 \<Longrightarrow> cstr (put_bytes a (bs @ [0]) m) a bs"
proof (induction bs arbitrary: a m)
  case (Cons b bs)
  have "a \<notin> cells (a + 1) (length (bs @ [0]))" using Cons.prems(2) by (intro head_fresh) simp
  then show ?case using Cons by (simp add: put_bytes_frame)
qed simp

section \<open>The string functions\<close>

lemma strlen_loop_cstr: "cstr m (s + c) bs \<Longrightarrow> strlen_loop s c m = Some (c + of_nat (length bs))"
proof (induction bs arbitrary: c)
  case (Cons b bs)
  then have "strlen_loop s (c + 1) m = Some (c + 1 + of_nat (length bs))"
    by (intro Cons.IH) (simp add: add.assoc)
  then show ?case using Cons.prems by (subst strlen_loop.simps) (simp add: algebra_simps)
qed (subst strlen_loop.simps, simp)

lemma strcpy_loop_cstr:
  "cstr m src bs \<Longrightarrow> cells p (Suc (length bs)) \<inter> cells src (Suc (length bs)) = {} \<Longrightarrow>
    strcpy_loop p src m = Some (put_bytes p (bs @ [0]) m)"
proof (induction bs arbitrary: p src m)
  case Nil
  then have "p \<noteq> src" by (simp add: cells_Suc)
  then show ?case using Nil.prems by (subst strcpy_loop.simps) (simp add: Let_def)
next
  case (Cons b bs)
  let ?m = "m(p := b)"
  have d: "p \<noteq> src" "p \<notin> cells (src + 1) (Suc (length bs))"
      "cells (p + 1) (Suc (length bs)) \<inter> cells (src + 1) (Suc (length bs)) = {}"
    using Cons.prems(2) cells_Suc [of p "Suc (length bs)"] cells_Suc [of src "Suc (length bs)"] by auto
  have "cstr ?m (src + 1) bs = cstr m (src + 1) bs" by (rule cstr_frame) (use d(2) in auto)
  then have "cstr ?m (src + 1) bs" using Cons.prems(1) by simp
  then have "strcpy_loop (p + 1) (src + 1) ?m = Some (put_bytes (p + 1) (bs @ [0]) ?m)"
    by (rule Cons.IH [OF _ d(3)])
  moreover have "?m src = b" "m src = b" "b \<noteq> 0" using Cons.prems(1) d(1) by auto
  ultimately show ?case by (subst strcpy_loop.simps) (simp add: Let_def del: fun_upd_apply)
qed

lemma strcat_end_cstr: "cstr m p bs \<Longrightarrow> strcat_end p m = Some (p + of_nat (length bs))"
proof (induction bs arbitrary: p)
  case (Cons b bs)
  then show ?case by (subst strcat_end.simps) (simp add: algebra_simps)
qed (subst strcat_end.simps, simp)

text \<open>The order of strings with their terminator, which \<open>strcmp\<close> decides.\<close>

fun first_diff :: "(u8 \<Rightarrow> int) \<Rightarrow> u8 list \<Rightarrow> u8 list \<Rightarrow> int" where
  "first_diff ch (x # xs) (y # ys) = (if x = y then first_diff ch xs ys else ch x - ch y)"
| "first_diff ch _ _ = 0"

lemma strcmp_loop_cstr:
  assumes "inj ch"
  shows "cstr m a xs \<Longrightarrow> cstr m b ys \<Longrightarrow> strcmp_loop ch a b m = Some (first_diff ch (xs @ [0]) (ys @ [0]))"
proof (induction xs arbitrary: a b ys)
  case Nil
  then show ?case by (cases ys; subst strcmp_loop.simps) (simp_all add: Let_def)
next
  case (Cons x xs)
  show ?case
  proof (cases ys)
    case Nil
    then show ?thesis using Cons.prems assms by (subst strcmp_loop.simps) (auto dest: injD)
  next
    case (Cons y ys')
    then show ?thesis using Cons.prems Cons.IH [of "a + 1" "b + 1" ys'] assms
      by (subst strcmp_loop.simps) (auto dest: injD)
  qed
qed
section \<open>Blocks, comparison with a bound, numbers\<close>

lemma strncmp_loop_cstr:
  assumes "inj ch"
  shows "cstr m a xs \<Longrightarrow> cstr m b ys \<Longrightarrow> unat n = Suc k \<Longrightarrow>
    strncmp_loop ch a b n m = first_diff ch (take (Suc k) (xs @ [0])) (take (Suc k) (ys @ [0]))"
proof (induction k arbitrary: a b n xs ys)
  case 0
  then have n: "\<not> 1 < n" by (simp add: word_less_nat_alt)
  show ?case using 0 n by (cases xs; cases ys) (subst strncmp_loop.simps, auto)+
next
  case (Suc k)
  then have n: "1 < n" "unat (n - 1) = Suc k" by (simp_all add: word_less_nat_alt unat_sub word_le_nat_alt)
  show ?case
  proof (cases xs)
    case Nil
    then show ?thesis using Suc.prems n by (cases ys; subst strncmp_loop.simps) auto
  next
    case xs: (Cons x xs')
    show ?thesis
    proof (cases ys)
      case Nil
      then show ?thesis using Suc.prems n xs assms by (subst strncmp_loop.simps) (auto dest: injD)
    next
      case (Cons y ys')
      then show ?thesis using Suc.prems n xs assms Suc.IH [of "a + 1" xs' "b + 1" ys' "n - 1"]
        by (subst strncmp_loop.simps) (auto dest: injD)
    qed
  qed
qed

lemma memset_loop_cells:
  "unat n = k \<Longrightarrow> memset_loop v c n m = (\<lambda>x. if x \<in> cells v k then ucast c else m x)"
proof (induction k arbitrary: n m)
  case 0
  then show ?case by (subst memset_loop.simps) (simp add: unat_eq_0)
next
  case (Suc k)
  then have n0: "n \<noteq> 0" by auto
  then have n: "n \<noteq> 0" "unat (n - 1) = k" using unat_minus_one [OF n0] Suc.prems by simp_all
  then have e: "n - 1 = of_nat k" by (simp add: n(2) [symmetric])
  have "cells v (Suc k) = insert (v + of_nat k) (cells v k)"
    by (auto simp: cells_def less_Suc_eq)
  moreover have "memset_loop v c n m = memset_loop v c (n - 1) (m(v + (n - 1) := ucast c))"
    by (subst memset_loop.simps) (simp add: n(1) del: fun_upd_apply)
  ultimately show ?case using Suc.IH [OF n(2)] e by (auto simp: fun_eq_iff)
qed

text \<open>\<open>memcpy\<close> between blocks that do not overlap.\<close>

primrec get_bytes :: "u32 \<Rightarrow> nat \<Rightarrow> (u32 \<Rightarrow> u8) \<Rightarrow> u8 list" where
  "get_bytes a 0 m = []"
| "get_bytes a (Suc k) m = m a # get_bytes (a + 1) k m"

lemma get_bytes_frame: "(\<And>x. x \<in> cells a k \<Longrightarrow> m' x = m x) \<Longrightarrow> get_bytes a k m' = get_bytes a k m"
  by (induction k arbitrary: a) (simp_all add: cells_Suc)

lemma memcpy_loop_cells:
  "unat n - unat i = k \<Longrightarrow> cells (d + i) k \<inter> cells (s + i) k = {} \<Longrightarrow>
    memcpy_loop d s n i m = put_bytes (d + i) (get_bytes (s + i) k m) m"
proof (induction k arbitrary: i m)
  case 0
  then have "\<not> i < n" by (simp add: word_less_nat_alt)
  then show ?case by (subst memcpy_loop.simps) simp
next
  case (Suc k)
  then have i: "i < n" by (simp add: word_less_nat_alt)
  let ?m = "m(d + i := m (s + i))"
  have a: "cells (d + (i + 1)) k \<inter> cells (s + (i + 1)) k = {}" "d + i \<notin> cells (s + i + 1) k"
    using Suc.prems(2) by (auto simp: cells_Suc add.assoc)
  have "unat n - unat (i + 1) = k" using Suc.prems(1) word_less_Suc [OF i] by simp
  from Suc.IH [OF this a(1)] have "memcpy_loop d s n (i + 1) ?m = put_bytes (d + (i + 1)) (get_bytes (s + (i + 1)) k ?m) ?m" .
  moreover have "get_bytes (s + i + 1) k ?m = get_bytes (s + i + 1) k m"
    by (rule get_bytes_frame) (use a(2) in auto)
  ultimately show ?case using i by (subst memcpy_loop.simps) (simp add: add.assoc)
qed

lemma memcmp_loop_bytes:
  "unat n = Suc k \<Longrightarrow> memcmp_loop a b n m = first_diff uint (get_bytes a (Suc k) m) (get_bytes b (Suc k) m)"
proof (induction k arbitrary: a b n)
  case 0
  then have "\<not> 1 < n" by (simp add: word_less_nat_alt)
  then show ?case by (subst memcmp_loop.simps) auto
next
  case (Suc k)
  then have n: "1 < n" "unat (n - 1) = Suc k" by (simp_all add: word_less_nat_alt unat_sub word_le_nat_alt)
  have "uint x - uint y = 0 \<longleftrightarrow> x = y" for x y :: u8 by (simp add: word_uint_eq_iff)
  then show ?case using n Suc.IH [OF n(2), of "a + 1" "b + 1"] by (subst memcmp_loop.simps) simp
qed

text \<open>
  \<open>strncpy\<close> does not pad: its second loop rewrites one byte, the one after the copied text, until its
  counter wraps around. With no room left it writes no terminator.
\<close>

lemma strncpy_pad_once: "strncpy_pad d i n m = (if i < n then m(d + i := 0) else m)"
proof (induction d i n m rule: strncpy_pad.induct)
  case (1 d i n m)
  show ?case
  proof (cases "i < n")
    case True
    then have "strncpy_pad d i (n + 1) (m(d + i := 0)) = m(d + i := 0)" using "1.IH" by (simp del: fun_upd_apply)
    then show ?thesis using True by (subst strncpy_pad.simps) (simp del: fun_upd_apply)
  qed (subst strncpy_pad.simps, simp)
qed

text \<open>A string of digits is read back by \<open>atoi\<close>; a minus sign is not.\<close>

definition digit_bytes :: "nat list \<Rightarrow> u8 list" where
  "digit_bytes ds = map (\<lambda>d. of_nat (48 + d)) ds"

lemma atoi_loop_digits:
  "cstr m p (digit_bytes ds) \<Longrightarrow> list_all (\<lambda>d. d < 10) ds \<Longrightarrow>
    atoi_loop p x m = Some (foldl (\<lambda>x d. x * 10 + of_nat d) x ds)"
proof (induction ds arbitrary: p x)
  case Nil
  then show ?case by (subst atoi_loop.simps) (simp add: digit_bytes_def)
next
  case (Cons d ds)
  let ?b = "of_nat (48 + d) :: u8"
  have d: "d < 10" "m p = ?b" "cstr m (p + 1) (digit_bytes ds)" "list_all (\<lambda>d. d < 10) ds"
    using Cons.prems by (auto simp: digit_bytes_def)
  have u: "unat ?b = 48 + d" using d(1) by (simp only: unat_of_nat) simp
  have r: "48 \<le> ?b" "?b \<le> 57" using u d(1) by (simp_all only: word_le_nat_alt) simp_all
  have "take_bit 8 (48 + d) = 48 + d" using d(1) by (intro take_bit_nat_eq_self) simp
  then have c: "(ucast ?b :: u32) = 48 + of_nat d" by (simp only: unsigned_of_nat) simp
  show ?case using Cons.IH [OF d(3,4)] r c unfolding atoi_loop.simps [of p] d(2) by simp
qed

lemma atoi_minus: "m p = 45 \<Longrightarrow> atoi p m = Some 0"
  by (simp add: atoi_def atoi_skip.simps atoi_loop.simps)
section \<open>The allocator\<close>

text \<open>
  A run of \<open>malloc\<close>s hands out the blocks in order; \<open>free\<close> never takes one back. \<open>block_ok\<close>: the block
  lies in the heap and starts 8 bytes aligned from its start.
\<close>

fun malloc_run :: "heap_area \<Rightarrow> u32 list \<Rightarrow> u32 \<Rightarrow> fault + (nat \<times> nat) list" where
  "malloc_run heap [] offset = Inr []"
| "malloc_run heap (n # ns) offset =
     bnd (malloc heap n offset) (\<lambda>(p, offset1).
     bnd (malloc_run heap ns offset1) (\<lambda>bs. Inr ((unat p, unat n) # bs)))"

definition heap_ok :: "heap_area \<Rightarrow> u32 \<Rightarrow> bool" where
  "heap_ok heap offset \<longleftrightarrow> unat (h_start heap) + unat offset \<le> unat (h_end heap) \<and>
     unat (h_end heap) - unat (h_start heap) < 2 ^ 31 \<and> unat offset mod 8 = 0"

lemma align_8_value:
  assumes "unat n \<le> 2 ^ 31"
  shows "unat (align_8 n) = (unat n + 7) div 8 * 8"
proof -
  have m: "x AND NOT 7 = push_bit 3 (drop_bit 3 x)" for x :: u32
  proof (rule bit_word_eqI)
    fix k
    assume k: "k < LENGTH(32)"
    have "bit (7 :: u32) k \<longleftrightarrow> k < 3" using bit_mask_iff [of 3 k, where 'a = u32] k by (simp add: mask_eq_exp_minus_1)
    then show "bit (x AND NOT 7) k = bit (push_bit 3 (drop_bit 3 x)) k"
      using k by (auto simp: bit_simps)
  qed
  have s: "unat (n + 7) = unat n + 7" using assms by (simp add: unat_word_ariths)
  have "unat (align_8 n) = (unat (n + 7) div 8 * 8) mod 2 ^ 32"
    unfolding align_8_def m by (simp add: unsigned_push_bit_eq unsigned_drop_bit_eq push_bit_eq_mult drop_bit_eq_div take_bit_eq_mod
      unat_word_ariths unat_div)
  also have "\<dots> = (unat n + 7) div 8 * 8"
  proof -
    have "(unat n + 7) div 8 * 8 < 2 ^ 32" using assms div_times_less_eq_dividend [of "unat n + 7" 8] by simp
    then show ?thesis unfolding s by simp
  qed
  finally show ?thesis .
qed

lemma malloc_block:
  assumes "heap_ok heap offset" "unat n \<le> 2 ^ 31"
  shows "malloc heap n offset = Inl Assert_Fail \<or>
    (\<exists>p offset1. malloc heap n offset = Inr (p, offset1) \<and> heap_ok heap offset1 \<and>
       unat p = unat (h_start heap) + unat offset \<and> unat offset1 \<ge> unat offset + unat n)"
proof -
  let ?s = "unat (h_start heap)"
  define k where "k = (unat n + 7) div 8 * 8"
  have k: "k \<le> unat n + 7" "unat n \<le> k" "k mod 8 = 0" unfolding k_def by presburger+
  have kb: "k \<le> 2147483648" unfolding k_def using div_le_mono [of "unat n + 7" "2147483648 + 7" 8] assms(2) by simp
  have off: "unat offset < 2 ^ 31" using assms(1) by (simp only: heap_ok_def) linarith
  have u: "unat (offset + align_8 n) = unat offset + k"
    using align_8_value [OF assms(2), folded k_def] off kb by (simp add: unat_word_ariths)
  have p: "unat (h_start heap + offset) = ?s + unat offset"
    using assms(1) u32_less_4G [of "h_end heap"] unfolding heap_ok_def by (simp add: unat_word_ariths del: u32_less_4G)
  show ?thesis
  proof (cases "h_start heap \<le> h_start heap + (offset + align_8 n) \<and> h_start heap + (offset + align_8 n) \<le> h_end heap")
    case True
    define t where "t = unat offset + k"
    have t: "t < 2 ^ 32" using off kb by (simp add: t_def)
    have m: "unat (h_start heap + (offset + align_8 n)) = (?s + t) mod 4294967296" using u by (simp add: unat_word_ariths t_def)
    then have "?s \<le> (?s + t) mod 4294967296" using True by (simp add: word_le_nat_alt)
    then have "(?s + t) mod 4294967296 = ?s + t" using t by (intro no_wrap) simp_all
    then have "?s + t \<le> unat (h_end heap)" using True m by (simp add: word_le_nat_alt)
    then have "heap_ok heap (offset + align_8 n)"
      using assms(1) u k(3) mod_add_eq [of "unat offset" 8 k] unfolding heap_ok_def t_def by simp
    then show ?thesis using True p u k by (simp add: malloc_def Let_def c_assert_def add.assoc)
  qed (auto simp: malloc_def Let_def c_assert_def add.assoc)
qed

definition block_in :: "heap_area \<Rightarrow> u32 \<Rightarrow> nat \<times> nat \<Rightarrow> bool" where
  "block_in heap offset b \<longleftrightarrow> unat (h_start heap) + unat offset \<le> fst b \<and> fst b + snd b \<le> unat (h_end heap) \<and>
     (fst b - unat (h_start heap)) mod 8 = 0"

lemma malloc_run_blocks:
  "heap_ok heap offset \<Longrightarrow> list_all (\<lambda>n. unat n \<le> 2 ^ 31) ns \<Longrightarrow>
    malloc_run heap ns offset = Inl Assert_Fail \<or>
    (\<exists>bs. malloc_run heap ns offset = Inr bs \<and> map snd bs = map unat ns \<and> list_all (block_in heap offset) bs \<and>
       sorted_wrt (\<lambda>a b. fst a + snd a \<le> fst b) bs)"
proof (induction ns arbitrary: offset)
  case (Cons n ns)
  show ?case
  proof (cases "malloc heap n offset = Inl Assert_Fail")
    case False
    then obtain p offset1 where a: "malloc heap n offset = Inr (p, offset1)" "heap_ok heap offset1"
        "unat p = unat (h_start heap) + unat offset" "unat offset1 \<ge> unat offset + unat n"
      using malloc_block [OF Cons.prems(1), of n] Cons.prems(2) by auto
    have b: "block_in heap offset (unat p, unat n)" using a(2-4) Cons.prems(1) by (simp add: block_in_def heap_ok_def)
    show ?thesis
    proof (cases "malloc_run heap ns offset1 = Inl Assert_Fail")
      case False
      then obtain bs where bs: "malloc_run heap ns offset1 = Inr bs" "map snd bs = map unat ns"
          "list_all (block_in heap offset1) bs" "sorted_wrt (\<lambda>a b. fst a + snd a \<le> fst b) bs"
        using Cons.IH [OF a(2)] Cons.prems(2) by auto
      have "list_all (block_in heap offset) bs" "\<forall>x \<in> set bs. unat p + unat n \<le> fst x"
        using bs(3) a(3,4) by (auto simp: list_all_iff block_in_def)
      then show ?thesis using a(1) b bs by simp
    qed (simp add: a(1))
  qed simp
qed simp
lemma cstr_nonzero: "cstr m a bs \<Longrightarrow> 0 \<notin> set bs"
  by (induction bs arbitrary: a) auto

lemma first_diff_zero:
  assumes "inj ch" "0 \<notin> set xs" "0 \<notin> set ys"
  shows "first_diff ch (xs @ [0]) (ys @ [0]) = 0 \<longleftrightarrow> xs = ys"
  using assms(2,3)
proof (induction xs arbitrary: ys)
  case Nil
  then show ?case using assms(1) by (cases ys) (auto dest: injD)
next
  case (Cons x xs)
  then show ?case using assms(1) by (cases ys) (auto dest: injD)
qed

lemma first_diff_at:
  assumes "0 \<notin> set xs" "0 \<notin> set ys" "xs \<noteq> ys"
  shows "\<exists>k. take k xs = take k ys \<and> (xs @ [0]) ! k \<noteq> (ys @ [0]) ! k \<and>
    first_diff ch (xs @ [0]) (ys @ [0]) = ch ((xs @ [0]) ! k) - ch ((ys @ [0]) ! k)"
  using assms
proof (induction xs arbitrary: ys)
  case Nil
  then show ?case by (cases ys) (auto intro!: exI [of _ 0])
next
  case (Cons x xs)
  show ?case
  proof (cases "ys \<noteq> [] \<and> hd ys = x")
    case True
    then obtain ys' where ys: "ys = x # ys'" by (cases ys) auto
    then obtain k where "take k xs = take k ys'" "(xs @ [0]) ! k \<noteq> (ys' @ [0]) ! k"
        "first_diff ch (xs @ [0]) (ys' @ [0]) = ch ((xs @ [0]) ! k) - ch ((ys' @ [0]) ! k)"
      using Cons.IH [of ys'] Cons.prems by auto
    then show ?thesis using ys by (intro exI [of _ "Suc k"]) simp
  next
    case False
    then show ?thesis using Cons.prems by (cases ys) (auto intro!: exI [of _ 0])
  qed
qed

lemma cells_add: "cells a (i + j) = cells a i \<union> cells (a + of_nat i) j"
proof (induction i arbitrary: a)
  case (Suc i)
  then show ?case using Suc.IH [of "a + 1"] by (simp add: cells_Suc add.assoc)
qed simp

lemma cells_apart: "i + j \<le> 2 ^ 32 \<Longrightarrow> cells a i \<inter> cells (a + of_nat i) j = {}"
proof (induction i arbitrary: a)
  case (Suc i)
  have "a \<notin> cells (a + 1) (i + j)" using Suc.prems by (intro head_fresh) simp
  then have "a \<notin> cells (a + of_nat (Suc i)) j" using cells_add [of "a + 1" i j] by (simp add: add.assoc)
  then show ?case using Suc.IH [of "a + 1"] Suc.prems by (simp add: cells_Suc add.assoc)
qed simp

lemma cstr_append:
  "0 \<notin> set xs \<Longrightarrow> (\<And>k. k < length xs \<Longrightarrow> m (a + of_nat k) = xs ! k) \<Longrightarrow> cstr m (a + of_nat (length xs)) ys \<Longrightarrow> cstr m a (xs @ ys)"
proof (induction xs arbitrary: a)
  case (Cons x xs)
  have "cstr m (a + 1) (xs @ ys)"
  proof (rule Cons.IH)
    show "m (a + 1 + of_nat k) = xs ! k" if "k < length xs" for k
      using Cons.prems(2) [of "Suc k"] that unfolding plus_Suc by simp
    show "cstr m (a + 1 + of_nat (length xs)) ys" using Cons.prems(3) unfolding plus_Suc by simp
  qed (use Cons.prems(1) in simp)
  then show ?case using Cons.prems(1) Cons.prems(2) [of 0] by simp
qed simp

lemma strcat_cstr:
  assumes "cstr m dst xs" "cstr m src ys"
    and "cells dst (Suc (length xs + length ys)) \<inter> cells src (Suc (length ys)) = {}" "length xs + length ys < 2 ^ 32"
  defines "p \<equiv> dst + of_nat (length xs)"
  shows "strcat dst src m = Some (dst, put_bytes p (ys @ [0]) m)" (is "_ = Some (dst, ?m)")
    and "cstr (put_bytes p (ys @ [0]) m) dst (xs @ ys)" and "cstr (put_bytes p (ys @ [0]) m) src ys"
proof -
  have split: "cells dst (Suc (length xs + length ys)) = cells dst (length xs) \<union> cells p (Suc (length ys))"
    using cells_add [of dst "length xs" "Suc (length ys)"] by (simp add: p_def)
  have apart: "cells dst (length xs) \<inter> cells p (Suc (length ys)) = {}"
    using cells_apart [of "length xs" "Suc (length ys)" dst] assms(4) by (simp add: p_def)
  have ys: "0 \<notin> set ys" "length ys < 2 ^ 32" using cstr_nonzero [OF assms(2)] assms(4) by auto
  show "strcat dst src m = Some (dst, ?m)"
    using strcpy_loop_cstr [OF assms(2), of p] strcat_end_cstr [OF assms(1)] assms(3) split
    by (auto simp: strcat_def p_def)
  show "cstr ?m dst (xs @ ys)"
  proof (rule cstr_append)
    show "0 \<notin> set xs" using cstr_nonzero [OF assms(1)] .
    show "?m (dst + of_nat k) = xs ! k" if "k < length xs" for k
    proof -
      have "dst + of_nat k \<in> cells dst (length xs)" using that by (auto simp: cells_def)
      then have "?m (dst + of_nat k) = m (dst + of_nat k)" using apart by (intro put_bytes_frame) auto
      then show ?thesis using cstr_nth [OF assms(1) that] by simp
    qed
    show "cstr ?m (dst + of_nat (length xs)) ys" using put_bytes_cstr [OF ys, of p m] by (simp add: p_def)
  qed
  have "cstr ?m src ys = cstr m src ys"
    by (rule cstr_frame) (use assms(3) split in \<open>auto intro!: put_bytes_frame\<close>)
  then show "cstr ?m src ys" using assms(2) by simp
qed

section \<open>Properties\<close>

text \<open>
  \<open>strcmp\<close> decides equality and orders strings by their first different character: for
  terminated strings it returns, with a result that is 0 exactly for equal strings and otherwise the
  difference of the first characters that differ, whatever the signedness of \<open>char\<close>.
\<close>

theorem klib_strcmp_decides:
  assumes "inj ch" "cstr m a xs" "cstr m b ys"
  shows "\<exists>d. strcmp ch a b m = Some d \<and> (d = 0 \<longleftrightarrow> xs = ys) \<and>
    (xs \<noteq> ys \<longrightarrow> (\<exists>k. take k xs = take k ys \<and> (xs @ [0]) ! k \<noteq> (ys @ [0]) ! k \<and>
      d = ch ((xs @ [0]) ! k) - ch ((ys @ [0]) ! k)))"
  using strcmp_loop_cstr [OF assms] first_diff_zero [OF assms(1)] first_diff_at [of xs ys ch]
    cstr_nonzero [OF assms(2)] cstr_nonzero [OF assms(3)]
  by (auto simp: strcmp_def)

text \<open>The witness compares \<open>"ab"\<close> and \<open>"a"\<close> as signed characters.\<close>

theorem klib_strcmp_decides_witness:
  "\<exists>d. strcmp sint 0 3 (\<lambda>x. if x = 0 \<or> x = 3 then 97 else if x = 1 then 98 else 0) = Some d \<and> d \<noteq> 0"
  using klib_strcmp_decides [of sint "\<lambda>x. if x = 0 \<or> x = 3 then 97 else if x = 1 then 98 else 0" 0 "[97, 98]" 3 "[97]"]
  by (auto simp: inj_def intro: signed_word_eqI)

text \<open>
  \<open>strcat\<close> appends: with room behind the first string that touches neither string's source, it
  returns the destination, where the concatenation now stands, and changes nothing but the bytes it wrote.
\<close>

theorem klib_strcat_appends:
  assumes "cstr m dst xs" "cstr m src ys"
    and "cells dst (Suc (length xs + length ys)) \<inter> cells src (Suc (length ys)) = {}" "length xs + length ys < 2 ^ 32"
  shows "\<exists>m'. strcat dst src m = Some (dst, m') \<and> cstr m' dst (xs @ ys) \<and> cstr m' src ys \<and>
    (\<forall>x. x \<notin> cells (dst + of_nat (length xs)) (Suc (length ys)) \<longrightarrow> m' x = m x)"
  using strcat_cstr [OF assms] put_bytes_frame [of _ "dst + of_nat (length xs)" "ys @ [0]" m] by auto

theorem klib_strcat_appends_witness:
  "\<exists>m'. strcat 0 100 (\<lambda>x. if x = 0 then 97 else if x = 100 then 98 else 0) = Some (0, m') \<and> cstr m' 0 [97, 98]"
  using klib_strcat_appends [of "\<lambda>x. if x = 0 then 97 else if x = 100 then 98 else 0" 0 "[97]" 100 "[98]"]
  by (auto simp: cells_Suc)



end
