(* ===== verification/CString.thy ===== *)
theory CString imports NemuPrelude begin

text \<open>
  The parts of the C library the debugger's commands are built on: \<open>isspace\<close>, \<open>strtok\<close> with one
  separator, and the \<open>sscanf\<close> conversions \<open>%u\<close>, \<open>%d\<close>, \<open>%llu\<close> and \<open>%ms\<close>. A C string is the list of its
  characters before the terminator. The place \<open>strtok\<close> remembers is the text that follows it.

  A number that does not fit is converted as the host's \<open>strtoul\<close> and \<open>strtol\<close> do: they saturate at 64
  bits, and the conversion keeps the low bits.
\<close>

definition is_blank_c :: "char \<Rightarrow> bool" where "is_blank_c c \<longleftrightarrow> c = CHR '' ''"

definition c_isspace :: "char \<Rightarrow> bool" where
  "c_isspace c \<longleftrightarrow> c = CHR '' '' \<or> 9 \<le> (of_char c :: nat) \<and> (of_char c :: nat) \<le> 13"

definition c_isdigit :: "char \<Rightarrow> bool" where
  "c_isdigit c \<longleftrightarrow> 48 \<le> (of_char c :: nat) \<and> (of_char c :: nat) \<le> 57"

section \<open>strtok\<close>

text \<open>\<open>strtok(NULL, " ")\<close>: the token, or \<open>None\<close>, and the text after the separator it overwrote.\<close>

definition strtok :: "string \<Rightarrow> string option \<times> string" where
  "strtok s =
     (let t = dropWhile is_blank_c s
      in if t = [] then (None, []) else (Some (takeWhile (\<lambda>c. \<not> is_blank_c c) t), drop 1 (dropWhile (\<lambda>c. \<not> is_blank_c c) t)))"

text \<open>\<open>strtok(NULL, "")\<close>: what is left, or \<open>None\<close>.\<close>

definition strtok_rest :: "string \<Rightarrow> string option" where
  "strtok_rest s = (if s = [] then None else Some s)"

section \<open>sscanf\<close>

definition skip_space :: "string \<Rightarrow> string" where
  "skip_space s = dropWhile c_isspace s"

definition digits_10 :: "string \<Rightarrow> nat" where
  "digits_10 s = foldl (\<lambda>n c. n * 10 + (of_char c - 48)) 0 s"

text \<open>An optionally signed decimal number: whether it has a minus sign, its digits' value, the rest.\<close>

definition scan_number :: "string \<Rightarrow> (bool \<times> nat \<times> string) option" where
  "scan_number s =
     (let s1 = skip_space s;
          neg = (s1 \<noteq> [] \<and> hd s1 = CHR ''-'');
          s2 = (if s1 \<noteq> [] \<and> (hd s1 = CHR ''-'' \<or> hd s1 = CHR ''+'') then tl s1 else s1);
          ds = takeWhile c_isdigit s2
      in if ds = [] then None else Some (neg, digits_10 ds, dropWhile c_isdigit s2))"

definition strtoul :: "bool \<Rightarrow> nat \<Rightarrow> u64" where
  "strtoul neg n = (if n > 2 ^ 64 - 1 then -1 else if neg then - of_nat n else of_nat n)"

definition strtol :: "bool \<Rightarrow> nat \<Rightarrow> int" where
  "strtol neg n = (if neg then max (- (2 ^ 63)) (- int n) else min (2 ^ 63 - 1) (int n))"

definition scanf_llu :: "string \<Rightarrow> (u64 \<times> string) option" where
  "scanf_llu s = map_option (\<lambda>(neg, n, r). (strtoul neg n, r)) (scan_number s)"

definition scanf_u :: "string \<Rightarrow> (u32 \<times> string) option" where
  "scanf_u s = map_option (\<lambda>(neg, n, r). (ucast (strtoul neg n), r)) (scan_number s)"

definition scanf_d :: "string \<Rightarrow> (int \<times> string) option" where
  "scanf_d s = map_option (\<lambda>(neg, n, r). (sint (word_of_int (strtol neg n) :: u32), r)) (scan_number s)"

definition scanf_ms :: "string \<Rightarrow> (string \<times> string) option" where
  "scanf_ms s =
     (let t = takeWhile (\<lambda>c. \<not> c_isspace c) (skip_space s)
      in if t = [] then None else Some (t, dropWhile (\<lambda>c. \<not> c_isspace c) (skip_space s)))"

section \<open>Numbers written in decimal\<close>

fun dec :: "nat \<Rightarrow> string" where
  "dec n = (if n < 10 then [char_of (48 + n)] else dec (n div 10) @ [char_of (48 + n mod 10)])"

declare dec.simps [simp del]

lemma digit_chars:
  "char_of (48 :: nat) = CHR ''0''" "char_of (49 :: nat) = CHR ''1''" "char_of (50 :: nat) = CHR ''2''"
  "char_of (51 :: nat) = CHR ''3''" "char_of (52 :: nat) = CHR ''4''" "char_of (53 :: nat) = CHR ''5''"
  "char_of (54 :: nat) = CHR ''6''" "char_of (55 :: nat) = CHR ''7''" "char_of (56 :: nat) = CHR ''8''"
  "char_of (57 :: nat) = CHR ''9''"
  by (simp_all add: char_of_def bit_0)

lemma dec_digit: "(d :: nat) < 10 \<Longrightarrow> c_isdigit (char_of (48 + d)) \<and> of_char (char_of (48 + d)) = 48 + d"
  by (simp add: c_isdigit_def)

lemma dec_all: "list_all c_isdigit (dec n)"
  by (induction n rule: dec.induct) (subst dec.simps, simp add: dec_digit)

lemma dec_ne: "dec n \<noteq> []"
  by (subst dec.simps) simp

lemma digits_dec: "digits_10 (dec n) = n"
proof (induction n rule: dec.induct)
  case (1 n)
  then show ?case by (subst dec.simps) (simp add: digits_10_def dec_digit)
qed

lemma dec_length: "n < 10 ^ k \<Longrightarrow> 0 < k \<Longrightarrow> length (dec n) \<le> k"
proof (induction k arbitrary: n)
  case (Suc k)
  show ?case
  proof (cases "n < 10")
    case False
    then have "0 < k" using Suc.prems by (cases k) auto
    then have "length (dec (n div 10)) \<le> k" using Suc.prems by (intro Suc.IH) auto
    then show ?thesis by (subst dec.simps) simp
  qed (subst dec.simps, simp)
qed simp

lemma c_isdigit_not: "c_isdigit c \<Longrightarrow> \<not> c_isspace c \<and> \<not> is_blank_c c \<and> c \<noteq> CHR ''-'' \<and> c \<noteq> CHR ''+''"
  by (auto simp: c_isdigit_def c_isspace_def is_blank_c_def)

lemma dec_Cons: "\<exists>c r. dec n = c # r \<and> c_isdigit c"
  using dec_all [of n] dec_ne [of n] by (cases "dec n") auto

lemma scan_number_dec:
  assumes "r = [] \<or> \<not> c_isdigit (hd r)"
  shows "scan_number (dec n @ r) = Some (False, n, r)"
proof -
  obtain c ds where d: "dec n = c # ds" "c_isdigit c" using dec_Cons by blast
  have "skip_space (dec n @ r) = dec n @ r" using d c_isdigit_not [OF d(2)] by (simp add: skip_space_def)
  moreover have "takeWhile c_isdigit (dec n @ r) = dec n" "dropWhile c_isdigit (dec n @ r) = r"
    using dec_all [of n] assms by (cases r; simp add: takeWhile_append dropWhile_append list_all_iff)+
  ultimately show ?thesis
    using d c_isdigit_not [OF d(2)] digits_dec [of n] by (simp add: scan_number_def Let_def)
qed

lemma dec_no_blank: "c \<in> set (dec n) \<Longrightarrow> \<not> is_blank_c c"
  using dec_all [of n] c_isdigit_not by (auto simp: list_all_iff)

lemma strtok_dec: "strtok (dec n) = (Some (dec n), [])"
proof -
  obtain c ds where d: "dec n = c # ds" "c_isdigit c" using dec_Cons by blast
  have "dropWhile is_blank_c (dec n) = dec n" using d c_isdigit_not by simp
  moreover have "takeWhile (\<lambda>c. \<not> is_blank_c c) (dec n) = dec n" "dropWhile (\<lambda>c. \<not> is_blank_c c) (dec n) = []"
    using dec_no_blank by (auto simp: takeWhile_eq_all_conv)
  ultimately show ?thesis using dec_ne [of n] unfolding strtok_def Let_def by (simp only: if_False drop_Nil)
qed

lemma strtok_Nil [simp]: "strtok [] = (None, [])"
  by (simp add: strtok_def)

lemma strtok_word: "w \<noteq> [] \<Longrightarrow> (\<And>c. c \<in> set w \<Longrightarrow> \<not> is_blank_c c) \<Longrightarrow> strtok (w @ CHR '' '' # r) = (Some w, r)"
proof -
  assume w: "w \<noteq> []" "\<And>c. c \<in> set w \<Longrightarrow> \<not> is_blank_c c"
  then have "dropWhile is_blank_c (w @ CHR '' '' # r) = w @ CHR '' '' # r" by (cases w) auto
  moreover have "takeWhile (\<lambda>c. \<not> is_blank_c c) (w @ CHR '' '' # r) = w"
      "dropWhile (\<lambda>c. \<not> is_blank_c c) (w @ CHR '' '' # r) = CHR '' '' # r"
    using w(2) by (auto simp: takeWhile_append dropWhile_append is_blank_c_def)
  ultimately show ?thesis using w(1) by (simp add: strtok_def Let_def)
qed

end
