(* ===== verification/KlibStdio.thy ===== *)
theory KlibStdio imports KlibProps CString "HOL-Library.Signed_Division" begin

text \<open>
  \<open>printf\<close> and \<open>sprintf\<close> of the guests' C library, \<open>abstract-machine/klib/src/stdio.c\<close>. A format is the
  list of its characters before the terminator, the arguments are a list; the output is the buffer
  \<open>sprintf\<close> writes with the position \<open>cur\<close>, and the characters given to \<open>putch\<close>. An argument of the
  wrong kind, and a format that ends inside a conversion (the parser then steps over the terminator),
  are undefined.
\<close>

section \<open>Conversion specifications\<close>

definition MAXF :: nat where "MAXF = 7"
definition F_POUND :: nat where "F_POUND = 0"
definition F_ZERO :: nat where "F_ZERO = 1"
definition F_DASH :: nat where "F_DASH = 2"
definition F_SPACE :: nat where "F_SPACE = 3"
definition F_PLUS :: nat where "F_PLUS = 4"
definition F_SQUOT :: nat where "F_SQUOT = 5"
definition F_I :: nat where "F_I = 6"

record Convtspec =
  fc :: "nat list"
  fw :: int
  prec :: int
  lm :: nat
  cs :: nat

definition csfinit :: Convtspec where
  "csfinit = \<lparr>fc = replicate MAXF 0, fw = 0, prec = 0, lm = 0, cs = 0\<rparr>"

definition set_flag :: "nat \<Rightarrow> Convtspec \<Rightarrow> Convtspec" where
  "set_flag f s = s\<lparr>fc := (fc s)[f := 1]\<rparr>"

definition quote :: char where "quote = CHR 0x27"

fun fparser :: "Convtspec \<Rightarrow> string \<Rightarrow> Convtspec \<times> string" where
  "fparser s [] = (s, [])"
| "fparser s (c # r) =
     (if c = quote then
        (if take 2 r = [CHR '' '', quote] then fparser (set_flag F_SPACE s) (drop 2 r)
         else fparser (set_flag F_SQUOT s) r)
      else if c = CHR ''#'' then fparser (set_flag F_POUND s) r
      else if c = CHR ''0'' then fparser (set_flag F_ZERO s) r
      else if c = CHR ''-'' then fparser (set_flag F_DASH s) r
      else if c = CHR ''+'' then fparser (set_flag F_PLUS s) r
      else if c = CHR ''I'' then fparser (set_flag F_I s) r
      else (s, c # r))"

text \<open>The parsers of width, precision and length modifier do nothing yet.\<close>

definition wparser :: "Convtspec \<Rightarrow> string \<Rightarrow> Convtspec \<times> string" where "wparser s c = (s, c)"
definition pparser :: "Convtspec \<Rightarrow> string \<Rightarrow> Convtspec \<times> string" where "pparser s c = (s, c)"
definition mparser :: "Convtspec \<Rightarrow> string \<Rightarrow> Convtspec \<times> string" where "mparser s c = (s, c)"

definition sparser :: "Convtspec \<Rightarrow> string \<Rightarrow> fault + (Convtspec \<times> string)" where
  "sparser s c =
     (case c of
        [] \<Rightarrow> Inl Out_Of_Bounds
      | x # r \<Rightarrow>
          Inr (s\<lparr>cs := (if x = CHR ''d'' \<or> x = CHR ''i'' then of_char (CHR ''d'')
                     else if x = CHR ''s'' then of_char (CHR ''s'') else 0)\<rparr>, r))"

definition parse :: "Convtspec \<Rightarrow> string \<Rightarrow> fault + (Convtspec \<times> string)" where
  "parse s c =
     (let (s, c) = fparser s c; (s, c) = wparser s c; (s, c) = pparser s c; (s, c) = mparser s c
      in sparser s c)"

definition conv_type :: "nat \<Rightarrow> nat \<Rightarrow> nat" where "conv_type l c = l * 256 + c"
definition int_t :: nat where "int_t = conv_type 0 (of_char (CHR ''d''))"
definition str_t :: nat where "str_t = conv_type 0 (of_char (CHR ''s''))"

section \<open>Output\<close>

record pout =
  o_buf :: "nat \<Rightarrow> char"
  o_cur :: nat
  o_put :: string

definition pushchr :: "bool \<Rightarrow> char \<Rightarrow> pout \<Rightarrow> pout" where
  "pushchr has_buf c st =
     (if has_buf then st\<lparr>o_buf := (o_buf st)(o_cur st := c)\<rparr> else st\<lparr>o_put := o_put st @ [c]\<rparr>)"

definition advance :: "pout \<Rightarrow> pout" where
  "advance st = st\<lparr>o_cur := o_cur st + 1\<rparr>"

definition emit :: "bool \<Rightarrow> char \<Rightarrow> pout \<Rightarrow> pout" where
  "emit has_buf c st = advance (pushchr has_buf c st)"

text \<open>The digits of a number, last one first, with C's truncating division.\<close>

function num_loop :: "int \<Rightarrow> int \<Rightarrow> string" where
  "num_loop sign var =
     (let c = char_of (nat (sign * (var smod 10) + 48)); v = var sdiv 10
      in if v = 0 then [c] else c # num_loop sign v)"
  by pat_completeness auto

termination
proof (relation "measure (\<lambda>(_, v). nat \<bar>v\<bar>)", goal_cases)
  case (2 sign var c v)
  have "\<bar>v\<bar> = \<bar>var\<bar> div 10" using 2(2) by (cases "var = 0") (simp_all add: signed_divide_int_def abs_mult)
  moreover have "v \<noteq> 0" using 2(3) .
  ultimately show ?case by (cases "var = 0") auto
qed simp

declare num_loop.simps [simp del]

definition convtint_t :: "bool \<Rightarrow> u32 \<Rightarrow> pout \<Rightarrow> pout" where
  "convtint_t has_buf var st =
     (let st1 = (if sint var < 0 then emit has_buf (CHR ''-'') st else st);
          sign = (if sint var < 0 then -1 else 1)
      in fold (emit has_buf) (rev (num_loop sign (sint var))) st1)"

definition convtstr_t :: "bool \<Rightarrow> string \<Rightarrow> pout \<Rightarrow> pout" where
  "convtstr_t has_buf var st = fold (emit has_buf) var st"

datatype parg = P_int u32 | P_str string

text \<open>
  \<open>convt\<close> starts behind the percent sign. \<open>None\<close> is the \<open>NULL\<close> it returns for a percent sign at the end.
  An unknown conversion is copied, but the loop over its characters does not contain the increment of
  \<open>cur\<close>.
\<close>

definition convt :: "bool \<Rightarrow> string \<Rightarrow> parg list \<Rightarrow> pout \<Rightarrow> fault + (string option \<times> parg list \<times> pout)" where
  "convt has_buf npchr ap st =
     (if npchr = [] then Inr (None, ap, emit has_buf (char_of (0 :: nat)) st)
      else bnd (parse csfinit npchr) (\<lambda>(csf, rest).
        if cs csf = 0 then
          Inr (Some rest, ap,
            advance (fold (pushchr has_buf) (CHR ''%'' # take (length npchr - length rest) npchr) st))
        else if conv_type (lm csf) (cs csf) = int_t then
          (case ap of P_int v # ap1 \<Rightarrow> Inr (Some rest, ap1, convtint_t has_buf v st) | _ \<Rightarrow> Inl Out_Of_Bounds)
        else if conv_type (lm csf) (cs csf) = str_t then
          (case ap of P_str s # ap1 \<Rightarrow> Inr (Some rest, ap1, convtstr_t has_buf s st) | _ \<Rightarrow> Inl Out_Of_Bounds)
        else Inr (Some rest, ap, st)))"

lemma fparser_length: "fparser s c = (s', r) \<Longrightarrow> length r \<le> length c"
proof (induction s c arbitrary: s' r rule: fparser.induct)
  case (2 s c r0)
  then show ?case by (fastforce split: if_splits dest: le_SucI)
qed simp

lemma convt_shorter: "convt has_buf npchr ap st = Inr (Some rest, ap1, st1) \<Longrightarrow> length rest < length npchr"
proof -
  assume a: "convt has_buf npchr ap st = Inr (Some rest, ap1, st1)"
  have "npchr \<noteq> []" using a by (auto simp: convt_def)
  then obtain csf where p: "parse csfinit npchr = Inr (csf, rest)"
    using a by (auto simp: convt_def bnd_simps split: if_splits list.splits parg.splits)
  obtain s c where f: "fparser csfinit npchr = (s, c)" by fastforce
  then have "sparser s c = Inr (csf, rest)" using p by (simp add: parse_def wparser_def pparser_def mparser_def)
  then have "length rest < length c" by (auto simp: sparser_def split: list.splits)
  then show ?thesis using fparser_length [OF f] by simp
qed

function comprintf_loop :: "bool \<Rightarrow> string \<Rightarrow> parg list \<Rightarrow> pout \<Rightarrow> fault + (int \<times> pout)" where
  "comprintf_loop has_buf [] ap st = Inr (int (o_cur st), pushchr has_buf (char_of (0 :: nat)) st)"
| "comprintf_loop has_buf (c # r) ap st =
     (if c \<noteq> CHR ''%'' then comprintf_loop has_buf r ap (emit has_buf c st)
      else (case convt has_buf r ap st of
          Inl e \<Rightarrow> Inl e
        | Inr (None, _, st1) \<Rightarrow> Inr (-1, st1)
        | Inr (Some rest, ap1, st1) \<Rightarrow> comprintf_loop has_buf rest ap1 st1))"
  by pat_completeness auto
termination
  by (relation "measure (\<lambda>(_, f, _). length f)") (auto dest: convt_shorter)

definition comprintf :: "(nat \<Rightarrow> char) \<Rightarrow> string \<Rightarrow> parg list \<Rightarrow> bool \<Rightarrow> fault + (int \<times> pout)" where
  "comprintf out fmt ap has_buf = comprintf_loop has_buf fmt ap \<lparr>o_buf = out, o_cur = 0, o_put = []\<rparr>"

text \<open>\<open>printf\<close> returns the count and what went to \<open>putch\<close>, \<open>sprintf\<close> the count and the buffer.\<close>

definition c_printf :: "string \<Rightarrow> parg list \<Rightarrow> fault + (int \<times> string)" where
  "c_printf fmt ap = bnd (comprintf (\<lambda>_. char_of (0 :: nat)) fmt ap False) (\<lambda>(n, st). Inr (n, o_put st))"

definition vsprintf :: "(nat \<Rightarrow> char) \<Rightarrow> string \<Rightarrow> parg list \<Rightarrow> fault + (int \<times> (nat \<Rightarrow> char))" where
  "vsprintf out fmt ap = bnd (comprintf out fmt ap True) (\<lambda>(n, st). Inr (n, o_buf st))"

definition sprintf :: "(nat \<Rightarrow> char) \<Rightarrow> string \<Rightarrow> parg list \<Rightarrow> fault + (int \<times> (nat \<Rightarrow> char))" where
  "sprintf out fmt ap = bnd (comprintf out fmt ap True) (\<lambda>(n, st). Inr (n, o_buf st))"

text \<open>The bounded variants are stubs that return 0.\<close>

definition snprintf :: "(nat \<Rightarrow> char) \<Rightarrow> nat \<Rightarrow> string \<Rightarrow> parg list \<Rightarrow> int \<times> (nat \<Rightarrow> char)" where
  "snprintf out n fmt ap = (0, out)"

definition vsnprintf :: "(nat \<Rightarrow> char) \<Rightarrow> nat \<Rightarrow> string \<Rightarrow> parg list \<Rightarrow> int \<times> (nat \<Rightarrow> char)" where
  "vsnprintf out n fmt ap = (0, out)"

end
