(* ===== verification/KlibStdioProps.thy ===== *)
theory KlibStdioProps imports KlibStdio begin

text \<open>
  What \<open>printf\<close> and \<open>sprintf\<close> produce, against a rendering of formats given item by item, and the round
  trip of numbers through \<open>sprintf\<close> and \<open>atoi\<close>.
\<close>

section \<open>What is printed\<close>

text \<open>Formats made of ordinary characters, \<open>%d\<close> and \<open>%s\<close>, with their arguments and their meaning.\<close>

datatype fmt_item = Lit char | Dec u32 | Str string

definition dec_int :: "int \<Rightarrow> string" where
  "dec_int i = (if i < 0 then CHR ''-'' # dec (nat (- i)) else dec (nat i))"

fun item_fmt :: "fmt_item \<Rightarrow> string" where
  "item_fmt (Lit c) = [c]"
| "item_fmt (Dec v) = ''%d''"
| "item_fmt (Str s) = ''%s''"

fun item_args :: "fmt_item \<Rightarrow> parg list" where
  "item_args (Lit c) = []"
| "item_args (Dec v) = [P_int v]"
| "item_args (Str s) = [P_str s]"

fun item_text :: "fmt_item \<Rightarrow> string" where
  "item_text (Lit c) = [c]"
| "item_text (Dec v) = dec_int (sint v)"
| "item_text (Str s) = s"

definition items_ok :: "fmt_item list \<Rightarrow> bool" where
  "items_ok is = list_all (\<lambda>i. i \<noteq> Lit (CHR ''%'')) is"

definition render :: "fmt_item list \<Rightarrow> string" where
  "render is = concat (map item_text is)"

text \<open>The digits come out in the right order and with one sign, for \<open>INT_MIN\<close> too.\<close>

lemma num_loop_dec:
  "sign * v = int n \<Longrightarrow> sign = 1 \<or> sign = -1 \<Longrightarrow> rev (num_loop sign v) = dec n"
proof (induction sign v arbitrary: n rule: num_loop.induct)
  case (1 sign v)
  have v: "v = sign * int n" using "1.prems" by auto
  have m: "sign * (v smod 10) = int (n mod 10)" and d: "v sdiv 10 = sign * int (n div 10)"
    using "1.prems"(2) unfolding v
    by (auto simp: signed_modulo_int_def signed_divide_int_def sgn_mult abs_mult zmod_int zdiv_int sgn_if)
  have c: "nat (sign * (v smod 10) + 48) = 48 + n mod 10" unfolding m by simp
  show ?case
  proof (cases "n < 10")
    case True
    then have "v sdiv 10 = 0" unfolding d by simp
    then show ?thesis using True c by (subst num_loop.simps, subst dec.simps) (simp add: Let_def)
  next
    case False
    then have nz: "v sdiv 10 \<noteq> 0" unfolding d using "1.prems"(2) by auto
    have "sign * (v sdiv 10) = int (n div 10)" unfolding d using "1.prems"(2) by auto
    then have "rev (num_loop sign (v sdiv 10)) = dec (n div 10)"
      using "1.IH" [OF refl refl nz] "1.prems"(2) by simp
    then show ?thesis using False c nz by (subst num_loop.simps, subst dec.simps) (simp add: Let_def)
  qed
qed

lemma convtint_dec: "convtint_t hb v st = fold (emit hb) (dec_int (sint v)) st"
proof (cases "sint v < 0")
  case True
  then have "rev (num_loop (-1) (sint v)) = dec (nat (- sint v))" by (intro num_loop_dec) auto
  then show ?thesis using True by (simp add: convtint_t_def dec_int_def)
next
  case False
  then have "rev (num_loop 1 (sint v)) = dec (nat (sint v))" by (intro num_loop_dec) auto
  then show ?thesis using False by (simp add: convtint_t_def dec_int_def)
qed

lemma convt_d: "convt hb (CHR ''d'' # r) (P_int v # ap) st = Inr (Some r, ap, convtint_t hb v st)"
  by (simp add: convt_def parse_def csfinit_def quote_def wparser_def pparser_def mparser_def sparser_def int_t_def conv_type_def)

lemma convt_s: "convt hb (CHR ''s'' # r) (P_str s # ap) st = Inr (Some r, ap, fold (emit hb) s st)"
  by (simp add: convt_def parse_def csfinit_def quote_def wparser_def pparser_def mparser_def sparser_def int_t_def str_t_def
      conv_type_def convtstr_t_def)

lemma comprintf_loop_items:
  "items_ok is \<Longrightarrow> comprintf_loop hb (concat (map item_fmt is)) (concat (map item_args is)) st =
    comprintf_loop hb [] [] (fold (emit hb) (render is) st)"
proof (induction "is" arbitrary: st)
  case (Cons i "is")
  have ok: "items_ok is" "i \<noteq> Lit (CHR ''%'')" using Cons.prems by (simp_all add: items_ok_def)
  show ?case
  proof (cases i)
    case (Lit c)
    then show ?thesis using Cons.IH [OF ok(1)] ok(2) by (simp add: render_def)
  next
    case (Dec v)
    then show ?thesis using Cons.IH [OF ok(1)] convt_d [of hb] convtint_dec by (simp add: render_def)
  next
    case (Str s)
    then show ?thesis using Cons.IH [OF ok(1)] convt_s [of hb] by (simp add: render_def)
  qed
qed (simp add: render_def)

lemma emit_buf:
  "fold (emit True) t st =
    st\<lparr>o_buf := (\<lambda>k. if o_cur st \<le> k \<and> k < o_cur st + length t then t ! (k - o_cur st) else o_buf st k),
       o_cur := o_cur st + length t\<rparr>"
proof (induction t arbitrary: st)
  case (Cons c t)
  have e: "fold (emit True) (c # t) st = fold (emit True) t (emit True c st)" by simp
  show ?case unfolding e Cons.IH
    by (cases st) (auto simp: emit_def advance_def pushchr_def fun_eq_iff nth_Cons')
next
  case Nil
  then show ?case by (cases st) (auto simp: fun_eq_iff)
qed


lemma emit_put: "fold (emit False) t st = st\<lparr>o_put := o_put st @ t, o_cur := o_cur st + length t\<rparr>"
  by (induction t arbitrary: st) (simp_all add: emit_def advance_def pushchr_def)

lemma dec_digit_bytes:
  "\<exists>ds. map of_char (dec n) = digit_bytes ds \<and> ds \<noteq> [] \<and> list_all (\<lambda>d. d < 10) ds \<and>
    foldl (\<lambda>x d. x * 10 + of_nat d) 0 ds = (of_nat n :: u32)"
proof (induction n rule: dec.induct)
  case (1 n)
  have ch: "(of_char (char_of (48 + d) :: char) :: u8) = of_nat (48 + d)" if "d < 10" for d :: nat
  proof -
    have "(of_char c :: u8) = of_nat (of_char c :: nat)" for c :: char by (simp only: of_nat_of_char)
    then show ?thesis using dec_digit [OF that] by metis
  qed
  show ?case
  proof (cases "n < 10")
    case True
    then have "map of_char (dec n) = digit_bytes [n]"
      using ch [of n] by (subst dec.simps) (simp only: if_True list.map digit_bytes_def)
    then show ?thesis using True by (intro exI [of _ "[n]"]) simp
  next
    case False
    then obtain ds where ds: "map of_char (dec (n div 10)) = digit_bytes ds" "ds \<noteq> []" "list_all (\<lambda>d. d < 10) ds"
        "foldl (\<lambda>x d. x * 10 + of_nat d) 0 ds = (of_nat (n div 10) :: u32)" using "1.IH" by blast
    have "map of_char (dec n) = digit_bytes (ds @ [n mod 10])"
      using False ds(1) ch [of "n mod 10"] by (subst dec.simps) (simp only: if_False map_append list.map digit_bytes_def)
    moreover have "of_nat (n div 10) * 10 + of_nat (n mod 10) = (of_nat n :: u32)"
    proof -
      have "(of_nat n :: u32) = of_nat (n div 10 * 10 + n mod 10)" by simp
      then show ?thesis by (simp only: of_nat_add of_nat_mult of_nat_numeral)
    qed
    ultimately show ?thesis using ds by (intro exI [of _ "ds @ [n mod 10]"]) simp
  qed
qed

lemma atoi_dec:
  assumes "cstr m p (map of_char (dec n))"
  shows "atoi p m = Some (of_nat n)"
proof -
  obtain ds where ds: "map of_char (dec n) = digit_bytes ds" "ds \<noteq> []" "list_all (\<lambda>d. d < 10) ds"
      "foldl (\<lambda>x d. x * 10 + of_nat d) 0 ds = (of_nat n :: u32)" using dec_digit_bytes by blast
  then obtain d r where r: "ds = d # r" "d < 10" by (cases ds) auto
  have "m p = of_nat (48 + d)" using assms r unfolding ds(1) by (simp add: digit_bytes_def)
  moreover have "unat (of_nat (48 + d) :: u8) = 48 + d" using r(2) by (simp only: unat_of_nat) simp
  ultimately have u: "unat (m p) = 48 + d" by simp
  have "m p \<noteq> 32"
  proof
    assume "m p = 32"
    then show False using u by simp
  qed
  then show ?thesis using atoi_loop_digits [OF assms [unfolded ds(1)] ds(3), of 0] ds(4) by (simp add: atoi_def atoi_skip.simps)
qed

lemma printf_items:
  assumes "items_ok is"
  shows "sprintf out (concat (map item_fmt is)) (concat (map item_args is)) =
      Inr (int (length (render is)), \<lambda>k. if k < length (render is) then render is ! k
        else if k = length (render is) then char_of (0 :: nat) else out k) \<and>
    c_printf (concat (map item_fmt is)) (concat (map item_args is)) =
      Inr (int (length (render is)), render is @ [char_of (0 :: nat)])"
  by (auto simp: sprintf_def c_printf_def comprintf_def comprintf_loop_items [OF assms] emit_buf emit_put pushchr_def)

section \<open>Properties\<close>

text \<open>
  C32. \<open>sprintf\<close> and \<open>printf\<close> render formats of ordinary characters, \<open>%d\<close> and \<open>%s\<close>: the numbers in
  decimal with their sign (the most negative one included), the strings as they are. \<open>sprintf\<close> leaves the
  text and its terminator at the start of the buffer and nothing else, and returns its length. \<open>printf\<close>
  returns the same length but also sends the terminator to the terminal.
\<close>

theorem klib_printf_renders:
  assumes "items_ok is"
  shows "sprintf out (concat (map item_fmt is)) (concat (map item_args is)) =
      Inr (int (length (render is)), \<lambda>k. if k < length (render is) then render is ! k
        else if k = length (render is) then char_of (0 :: nat) else out k) \<and>
    c_printf (concat (map item_fmt is)) (concat (map item_args is)) =
      Inr (int (length (render is)), render is @ [char_of (0 :: nat)])"
  using assms by (rule printf_items)

theorem klib_printf_renders_witness:
  "c_printf ''x=%d, %s'' [P_int 0x80000000, P_str ''ok''] = Inr (17, ''x=-2147483648, ok'' @ [char_of (0 :: nat)])"
proof -
  let ?is = "[Lit (CHR ''x''), Lit (CHR ''=''), Dec 0x80000000, Lit (CHR '',''), Lit (CHR '' ''), Str ''ok'']"
  have "render ?is = ''x=-2147483648, ok''"
  proof -
    have "sint (0x80000000 :: u32) = -2147483648" by simp
    moreover have "dec 2147483648 = ''2147483648''" by (simp add: dec.simps digit_chars)
    ultimately show ?thesis by (simp add: render_def dec_int_def)
  qed
  moreover have "items_ok ?is" by (simp add: items_ok_def)
  from klib_printf_renders [OF this]
  have "c_printf (concat (map item_fmt ?is)) (concat (map item_args ?is)) =
      Inr (int (length (render ?is)), render ?is @ [char_of (0 :: nat)])" by blast
  ultimately show ?thesis by simp
qed

text \<open>
  Round trip of numbers: what \<open>sprintf\<close> writes for \<open>%d\<close> and a number that is not negative, placed in
  memory as a string, is read back by \<open>atoi\<close> as that number.
\<close>

theorem klib_atoi_sprintf:
  assumes "0 \<le> sint v" "sprintf out ''%d'' [P_int v] = Inr (n, buf)"
    and "cstr m p (map (\<lambda>k. of_char (buf k)) [0 ..< nat n])"
  shows "atoi p m = Some v"
proof -
  let ?t = "dec (nat (sint v))"
  have r: "render [Dec v] = ?t" using assms(1) by (simp add: render_def dec_int_def)
  have ok: "items_ok [Dec v]" by (simp add: items_ok_def)
  have f: "concat (map item_fmt [Dec v]) = ''%d''" "concat (map item_args [Dec v]) = [P_int v]" by simp_all
  have "sprintf out ''%d'' [P_int v] = Inr (int (length ?t), \<lambda>k. if k < length ?t then ?t ! k
      else if k = length ?t then char_of (0 :: nat) else out k)"
    using conjunct1 [OF printf_items [OF ok, of out]] unfolding f r .
  then have n: "n = int (length ?t)" and b: "buf = (\<lambda>k. if k < length ?t then ?t ! k
      else if k = length ?t then char_of (0 :: nat) else out k)"
    unfolding assms(2) by (simp_all only: sum.inject prod.inject)
  have "map (\<lambda>k. of_char (buf k)) [0 ..< nat n] = map of_char ?t"
  proof (rule nth_equalityI)
    show "length (map (\<lambda>k. of_char (buf k)) [0 ..< nat n]) = length (map of_char ?t)" by (simp add: n)
    show "map (\<lambda>k. of_char (buf k)) [0 ..< nat n] ! k = map of_char ?t ! k"
      if "k < length (map (\<lambda>k. of_char (buf k)) [0 ..< nat n])" for k
      using that unfolding b by (simp add: n)
  qed
  then have "cstr m p (map of_char ?t)" using assms(3) by (rule subst)
  then have "atoi p m = Some (of_nat (nat (sint v)))" by (rule atoi_dec)
  then show ?thesis using assms(1) by simp
qed

theorem klib_atoi_sprintf_witness:
  "atoi 0 (\<lambda>x. if x = 0 then 52 else if x = 1 then 50 else 0) = Some 42"
proof -
  let ?buf = "\<lambda>k. if k < 2 then ''42'' ! k else char_of (0 :: nat)"
  have r: "render [Dec 42] = ''42''" by (simp add: render_def dec_int_def dec.simps digit_chars)
  have "sprintf (\<lambda>_. char_of (0 :: nat)) ''%d'' [P_int 42] = Inr (2, ?buf)"
    using printf_items [of "[Dec 42]" "\<lambda>_. char_of (0 :: nat)"] unfolding r by (simp add: items_ok_def fun_eq_iff)
  from klib_atoi_sprintf [OF _ this, of "\<lambda>x. if x = 0 then 52 else if x = 1 then 50 else 0" 0]
  show ?thesis by (simp add: upt_conv_Cons)
qed

end
