(* ===== verification/Bus.thy ===== *)
theory Bus
  imports Paddr
begin

text \<open>
  What \<open>init_device\<close> sets up and what an access to a mapped address amounts to: the seven
  memory-mapped and five port-mapped devices with their places in \<open>io_space\<close>, that no two of them
  share an address or a byte, that none overlaps guest memory, and the resulting lookup.
\<close>

section \<open>The layout init_device sets up\<close>

text \<open>The maps in registration order, with the base pointers \<open>new_space\<close> hands out page by page.\<close>

definition ready_bases :: dev_bases where
  "ready_bases = \<lparr>serial_base = 0, rtc_port_base = 4096, vgactl_port_base = 8192, vmem = 12288,
     i8042_data_port_base = 495616, audio_base = 499712, sbuf = 503808\<rparr>"

definition ready_mmio :: "IOMap list" where
  "ready_mmio =
    [\<lparr>name = ''serial'', low = 0xa10003F8, high = 0xa10003FF, space = 0, callback = Serial_io_handler\<rparr>,
     \<lparr>name = ''rtc'', low = 0xa1000048, high = 0xa100004F, space = 4096, callback = Rtc_io_handler\<rparr>,
     \<lparr>name = ''screen'', low = 0xa1000100, high = 0xa1000107, space = 8192, callback = NULL_callback\<rparr>,
     \<lparr>name = ''vmem'', low = 0xa0000000, high = 0xa00752FF, space = 12288, callback = NULL_callback\<rparr>,
     \<lparr>name = ''keyboard'', low = 0xa1000060, high = 0xa1000063, space = 495616, callback = I8042_data_io_handler\<rparr>,
     \<lparr>name = ''audio'', low = 0xa1000200, high = 0xa1000217, space = 499712, callback = Audio_io_handler\<rparr>,
     \<lparr>name = ''audio-sbuf'', low = 0xa0800000, high = 0xa080FFFF, space = 503808, callback = Audio_sbuf_handler\<rparr>]"

definition ready_pio :: "IOMap list" where
  "ready_pio =
    [\<lparr>name = ''serial'', low = 0x3F8, high = 0x3FF, space = 0, callback = Serial_io_handler\<rparr>,
     \<lparr>name = ''rtc'', low = 0x48, high = 0x4F, space = 4096, callback = Rtc_io_handler\<rparr>,
     \<lparr>name = ''screen'', low = 0x100, high = 0x107, space = 8192, callback = NULL_callback\<rparr>,
     \<lparr>name = ''keyboard'', low = 0x60, high = 0x63, space = 495616, callback = I8042_data_io_handler\<rparr>,
     \<lparr>name = ''audio'', low = 0x200, high = 0x217, space = 499712, callback = Audio_io_handler\<rparr>]"

definition io_ready :: "machine \<Rightarrow> bool" where
  "io_ready m \<longleftrightarrow> bases m = ready_bases \<and> mmio_maps (bus m) = ready_mmio \<and> pio_maps (bus m) = ready_pio"

definition io_fresh :: "machine \<Rightarrow> bool" where
  "io_fresh m \<longleftrightarrow> p_space (bus m) = 0 \<and> mmio_maps (bus m) = [] \<and> pio_maps (bus m) = [] \<and> handlers (alrm m) = []"

lemma page_round:
  "(8 + 4095 :: int) AND NOT 4095 = 4096" "(4 + 4095 :: int) AND NOT 4095 = 4096"
  "(24 + 4095 :: int) AND NOT 4095 = 4096" "(480000 + 4095 :: int) AND NOT 4095 = 483328"
  "(65536 + 4095 :: int) AND NOT 4095 = 65536"
  by simp_all


text \<open>\<open>io_stage\<close>: how far the registration has got, and that the host and the run state are untouched.\<close>

definition io_stage ::
    "nat \<Rightarrow> nat \<Rightarrow> nat \<Rightarrow> dev_bases \<Rightarrow> alarm_handler list \<Rightarrow> machine \<Rightarrow> machine \<Rightarrow> bool" where
  "io_stage p j k b hs m m' \<longleftrightarrow>
     p_space (bus m') = p \<and> mmio_maps (bus m') = take j ready_mmio \<and> pio_maps (bus m') = take k ready_pio \<and>
     bases m' = b \<and> handlers (alrm m') = hs \<and> hst m' = hst m \<and> kbd m' = kbd m \<and> aud m' = aud m \<and>
     cpu m' = cpu m \<and> pmem m' = pmem m \<and> isa m' = isa m \<and> nemu_state m' = nemu_state m \<and>
     device_update_flag (alrm m') = device_update_flag (alrm m)"

lemmas io_init_defs = io_stage_def new_space_def PAGE_SIZE_def PAGE_MASK_def IO_SPACE_MAX_def add_pio_map_def
    add_mmio_map_def NR_PIO_MAP_def NR_MMIO_MAP_def PORT_IO_SPACE_MAX_def add_alarm_handle_def MAX_HANDLER_def
    page_round ready_mmio_def ready_pio_def SCREEN_SIZE_def SCREEN_H_def SCREEN_W_def nr_reg_def
    STREAM_BUF_MAX_SIZE_def reg_put_def

lemma init_serial_stage:
  "io_stage 0 0 0 b hs m0 m \<Longrightarrow>
   \<exists>m'. init_serial m = Inr m' \<and> io_stage 4096 1 1 (b\<lparr>serial_base := 0\<rparr>) hs m0 m'"
  by (simp add: init_serial_def io_init_defs)

lemma init_timer_stage:
  "io_stage 4096 1 1 b [] m0 m \<Longrightarrow>
   \<exists>m'. init_timer m = Inr m' \<and> io_stage 8192 2 2 (b\<lparr>rtc_port_base := 4096\<rparr>) [Timer_intr] m0 m'"
  by (simp add: init_timer_def io_init_defs)

lemma init_vga_stage:
  "io_stage 8192 2 2 b hs m0 m \<Longrightarrow>
   \<exists>m'. init_vga m = Inr m' \<and>
     io_stage 495616 4 3 (b\<lparr>vgactl_port_base := 8192, vmem := 12288\<rparr>) hs m0 m'"
  by (simp add: init_vga_def io_init_defs)

lemma init_i8042_stage:
  "io_stage 495616 4 3 b hs m0 m \<Longrightarrow>
   \<exists>m'. init_i8042 m = Inr m' \<and> io_stage 499712 5 4 (b\<lparr>i8042_data_port_base := 495616\<rparr>) hs m0 m'"
  by (simp add: init_i8042_def io_init_defs)

lemma init_audio_stage:
  "io_stage 499712 5 4 b hs m0 m \<Longrightarrow> sdl_init_audio_ok (hst m0) \<Longrightarrow>
   \<exists>m'. init_audio m = Inr m' \<and> io_stage 569344 7 5 (b\<lparr>audio_base := 499712, sbuf := 503808\<rparr>) hs m0 m'"
  by (simp add: init_audio_def io_init_defs)

lemma ready_bases_eq:
  "b\<lparr>serial_base := 0, rtc_port_base := 4096, vgactl_port_base := 8192, vmem := 12288,
     i8042_data_port_base := 495616, audio_base := 499712, sbuf := 503808\<rparr> = ready_bases"
  by (cases b) (simp add: ready_bases_def)

lemma init_device_stage:
  assumes "io_fresh m" "sdl_init_audio_ok (hst m)"
  shows "\<exists>m'. init_device m = Inr m' \<and>
    io_stage 569344 7 5 ready_bases [Timer_intr, Set_device_update_flag] m m'"
proof -
  have "io_stage 0 0 0 (bases m) [] m m" using assms(1) by (simp add: io_stage_def io_fresh_def)
  then obtain m1 where m1: "init_serial m = Inr m1" "io_stage 4096 1 1 ((bases m)\<lparr>serial_base := 0\<rparr>) [] m m1"
    using init_serial_stage by blast
  obtain m2 where m2: "init_timer m1 = Inr m2"
    "io_stage 8192 2 2 ((bases m)\<lparr>serial_base := 0, rtc_port_base := 4096\<rparr>) [Timer_intr] m m2"
    using init_timer_stage [OF m1(2)] by auto
  obtain m3 where m3: "init_vga m2 = Inr m3"
    "io_stage 495616 4 3 ((bases m)\<lparr>serial_base := 0, rtc_port_base := 4096, vgactl_port_base := 8192,
      vmem := 12288\<rparr>) [Timer_intr] m m3"
    using init_vga_stage [OF m2(2)] by auto
  obtain m4 where m4: "init_i8042 m3 = Inr m4"
    "io_stage 499712 5 4 ((bases m)\<lparr>serial_base := 0, rtc_port_base := 4096, vgactl_port_base := 8192,
      vmem := 12288, i8042_data_port_base := 495616\<rparr>) [Timer_intr] m m4"
    using init_i8042_stage [OF m3(2)] by auto
  obtain m5 where m5: "init_audio m4 = Inr m5" "io_stage 569344 7 5 ready_bases [Timer_intr] m m5"
    using init_audio_stage [OF m4(2) assms(2)] by (auto simp: ready_bases_eq)
  have "\<exists>m6. add_alarm_handle Set_device_update_flag m5 = Inr m6 \<and>
      io_stage 569344 7 5 ready_bases [Timer_intr, Set_device_update_flag] m m6"
    using m5(2) by (simp add: add_alarm_handle_def MAX_HANDLER_def io_stage_def)
  then show ?thesis by (simp add: init_device_def m1(1) m2(1) m3(1) m4(1) m5(1))
qed

lemma io_stage_ready: "io_stage 569344 7 5 ready_bases hs m m' \<Longrightarrow> io_ready m'"
  by (simp add: io_stage_def io_ready_def ready_mmio_def ready_pio_def)

section \<open>Lookup\<close>

text \<open>Two maps that share no address; the bytes of \<open>io_space\<close> a map owns.\<close>

definition map_apart :: "IOMap \<Rightarrow> IOMap \<Rightarrow> bool" where
  "map_apart a b \<longleftrightarrow> high a < low b \<or> high b < low a"

definition space_apart :: "IOMap \<Rightarrow> IOMap \<Rightarrow> bool" where
  "space_apart a b \<longleftrightarrow> space a + unat (high a - low a) < space b \<or> space b + unat (high b - low b) < space a"

definition map_end :: "IOMap \<Rightarrow> nat" where
  "map_end mp = space mp + unat (high mp - low mp)"

lemma find_mapid_from_first:
  "k < length mps \<Longrightarrow> map_inside (mps ! k) addr \<Longrightarrow> (\<And>j. j < k \<Longrightarrow> \<not> map_inside (mps ! j) addr) \<Longrightarrow>
    find_mapid_from i mps addr = int (i + k)"
proof (induction mps arbitrary: i k)
  case (Cons mp mps)
  show ?case
  proof (cases k)
    case 0
    with Cons.prems show ?thesis by simp
  next
    case (Suc k')
    have "\<not> map_inside mp addr" using Cons.prems(3) [of 0] Suc by simp
    moreover have "\<not> map_inside (mps ! j) addr" if "j < k'" for j
      using Cons.prems(3) [of "Suc j"] that Suc by simp
    then have "find_mapid_from (Suc i) mps addr = int (Suc i + k')"
      using Cons.prems Suc by (intro Cons.IH) auto
    ultimately show ?thesis using Suc by simp
  qed
qed simp

lemma find_mapid_from_none:
  "(\<And>mp. mp \<in> set mps \<Longrightarrow> \<not> map_inside mp addr) \<Longrightarrow> find_mapid_from i mps addr = -1"
  by (induction mps arbitrary: i) auto

lemma map_apart_inside: "map_apart a b \<Longrightarrow> map_inside a x \<Longrightarrow> \<not> map_inside b x"
  by (auto simp: map_apart_def map_inside_def)

lemma find_mapid_apart:
  assumes "sorted_wrt map_apart mps" "k < length mps" "map_inside (mps ! k) addr"
  shows "find_mapid_by_addr mps addr = int k"
proof -
  have "\<not> map_inside (mps ! j) addr" if "j < k" for j
    using assms that map_apart_inside by (metis sorted_wrt_iff_nth_less)
  then show ?thesis
    using find_mapid_from_first [OF assms(2,3), of 0] by (simp add: find_mapid_by_addr_def)
qed

lemma fetch_mmio_apart:
  assumes "sorted_wrt map_apart (mmio_maps (bus m))" "mp \<in> set (mmio_maps (bus m))" "map_inside mp addr"
  shows "fetch_mmio_map m addr = Some mp"
proof -
  obtain k where k: "k < length (mmio_maps (bus m))" "mmio_maps (bus m) ! k = mp"
    using assms(2) by (auto simp: in_set_conv_nth)
  then have "find_mapid_by_addr (mmio_maps (bus m)) addr = int k"
    using assms by (intro find_mapid_apart) auto
  then show ?thesis using k by (simp add: fetch_mmio_map_def)
qed

lemma ready_mmio_apart: "sorted_wrt map_apart ready_mmio"
  by (simp add: ready_mmio_def map_apart_def)

lemma ready_pio_apart: "sorted_wrt map_apart ready_pio"
  by (simp add: ready_pio_def map_apart_def)

lemma ready_mmio_space: "sorted_wrt space_apart ready_mmio"
  by (simp add: ready_mmio_def space_apart_def)

lemma ready_mmio_inside: "mp \<in> set ready_mmio \<union> set ready_pio \<Longrightarrow> map_end mp < 569344"
  by (auto simp: ready_mmio_def ready_pio_def map_end_def)

lemma ready_mmio_low: "mp \<in> set ready_mmio \<Longrightarrow> 0xa0000000 \<le> low mp"
  by (auto simp: ready_mmio_def)

lemma ready_mmio_not_pmem: "mp \<in> set ready_mmio \<Longrightarrow> map_inside mp addr \<Longrightarrow> \<not> in_pmem m addr"
  by (drule ready_mmio_low) (cases "isa m"; auto simp: map_inside_def in_pmem_def PMEM_BASE_def PMEM_SIZE_def word_le_nat_alt)

lemma fetch_ready:
  "io_ready m \<Longrightarrow> mp \<in> set ready_mmio \<Longrightarrow> map_inside mp addr \<Longrightarrow> fetch_mmio_map m addr = Some mp"
  by (rule fetch_mmio_apart) (simp_all add: io_ready_def ready_mmio_apart)

text \<open>An access to a mapped address is one to the map's bytes.\<close>

lemma paddr_read_ready:
  "io_ready m \<Longrightarrow> mp \<in> set ready_mmio \<Longrightarrow> map_inside mp addr \<Longrightarrow>
    paddr_read addr len m = map_read addr len (Some mp) m"
  by (simp add: paddr_read_def ready_mmio_not_pmem fetch_ready)

lemma paddr_write_ready:
  "io_ready m \<Longrightarrow> mp \<in> set ready_mmio \<Longrightarrow> map_inside mp addr \<Longrightarrow>
    paddr_write addr data len m = map_write addr data len (Some mp) m"
  by (simp add: paddr_write_def ready_mmio_not_pmem fetch_ready)

lemma read_mask_take: "1 \<le> len \<Longrightarrow> len \<le> 8 \<Longrightarrow>
   (ucast ((ucast w :: u64) AND read_mask len) :: u32) = take_bit (8 * nat len) w"
proof (rule bit_word_eqI)
  fix n assume a: "1 \<le> len" "len \<le> 8" and "n < LENGTH(32)"
  then have n: "n < 32" by simp
  have "nat ((8 - len) * 8) + n < 64 \<longleftrightarrow> n < 8 * nat len"
    using a by (cases "nat len") (auto simp: nat_mult_distrib nat_diff_distrib)
  then show "bit (ucast ((ucast w :: u64) AND read_mask len) :: u32) n = bit (take_bit (8 * nat len) w) n"
    using n by (auto simp: read_mask_def bit_simps)
qed

end
