(* ===== verification/Interfaces.thy ===== *)
theory Interfaces
  imports NemuPrelude
begin

text \<open>
  The interfaces components are used through, as locales: a bounded queue (the keyboard's key
  queue), and a store addressed by keys (register files, device register blocks, guest memory
  bytes). Each is interpreted on the model's own operations in the theory of the component that
  provides it.
\<close>

section \<open>A bounded queue\<close>

text \<open>
  \<open>put\<close> fails with an assertion when \<open>cap\<close> elements are queued; \<open>take\<close> has nothing to give when
  none are.
\<close>

locale bounded_fifo =
  fixes valid :: "'q \<Rightarrow> bool"
    and content :: "'q \<Rightarrow> 'a list"
    and cap :: nat
    and put :: "'a \<Rightarrow> 'q \<Rightarrow> fault + 'q"
    and take_one :: "'q \<Rightarrow> ('a \<times> 'q) option"
  assumes put_room: "valid q \<Longrightarrow> length (content q) < cap \<Longrightarrow>
      \<exists>q'. put x q = Inr q' \<and> valid q' \<and> content q' = content q @ [x]"
    and put_full: "valid q \<Longrightarrow> length (content q) \<ge> cap \<Longrightarrow> put x q = Inl Assert_Fail"
    and take_empty: "valid q \<Longrightarrow> content q = [] \<Longrightarrow> take_one q = None"
    and take_head: "valid q \<Longrightarrow> content q = x # xs \<Longrightarrow>
      \<exists>q'. take_one q = Some (x, q') \<and> valid q' \<and> content q' = xs"
begin

text \<open>A sequence of insertions, and a sequence of reads that answer \<open>none\<close> when the queue is empty.\<close>

primrec put_all :: "'a list \<Rightarrow> 'q \<Rightarrow> fault + 'q" where
  "put_all [] q = Inr q"
| "put_all (x # xs) q = bnd (put x q) (put_all xs)"

primrec take_n :: "nat \<Rightarrow> 'a \<Rightarrow> 'q \<Rightarrow> 'a list \<times> 'q" where
  "take_n 0 none q = ([], q)"
| "take_n (Suc n) none q =
     (case take_one q of
        None \<Rightarrow> (none # fst (take_n n none q), snd (take_n n none q))
      | Some (x, q') \<Rightarrow> (x # fst (take_n n none q'), snd (take_n n none q')))"

lemma put_all_fits:
  "valid q \<Longrightarrow> length (content q) + length xs \<le> cap \<Longrightarrow>
    \<exists>q'. put_all xs q = Inr q' \<and> valid q' \<and> content q' = content q @ xs"
proof (induction xs arbitrary: q)
  case (Cons x xs)
  obtain q1 where "put x q = Inr q1" "valid q1" "content q1 = content q @ [x]"
    using put_room [of q x] Cons.prems by auto
  with Cons.IH [of q1] Cons.prems(2) show ?case by auto
qed simp

lemma put_all_overflows:
  "valid q \<Longrightarrow> length (content q) \<le> cap \<Longrightarrow> length (content q) + length xs > cap \<Longrightarrow>
    put_all xs q = Inl Assert_Fail"
proof (induction xs arbitrary: q)
  case (Cons x xs)
  show ?case
  proof (cases "length (content q) < cap")
    case True
    then obtain q1 where "put x q = Inr q1" "valid q1" "content q1 = content q @ [x]"
      using put_room [of q x] Cons.prems(1) by auto
    with Cons.IH [of q1] Cons.prems True show ?thesis by auto
  next
    case False
    then show ?thesis using put_full [of q x] Cons.prems(1) by simp
  qed
qed simp

lemma take_n_content:
  "valid q \<Longrightarrow> fst (take_n n none q) = take n (content q) @ replicate (n - length (content q)) none \<and>
    valid (snd (take_n n none q)) \<and> content (snd (take_n n none q)) = drop n (content q)"
proof (induction n arbitrary: q)
  case (Suc n)
  show ?case
  proof (cases "content q")
    case Nil
    then show ?thesis using take_empty [of q] Suc by simp
  next
    case (Cons x xs)
    then obtain q' where "take_one q = Some (x, q')" "valid q'" "content q' = xs"
      using take_head Suc.prems by blast
    then show ?thesis using Suc.IH [of q'] Cons by simp
  qed
qed simp

text \<open>What is written is read, in order.\<close>

lemma put_all_take_n:
  assumes "valid q" "content q = []" "length xs \<le> cap"
  shows "\<exists>q'. put_all xs q = Inr q' \<and> fst (take_n (length xs) none q') = xs"
proof -
  obtain q' where q': "put_all xs q = Inr q'" "valid q'" "content q' = xs"
    using put_all_fits [of q xs] assms by auto
  then show ?thesis using take_n_content [OF q'(2), of "length xs" none] by simp
qed

end

section \<open>An addressed store\<close>

locale addressed_store =
  fixes ok :: "'k \<Rightarrow> 's \<Rightarrow> bool"
    and get :: "'k \<Rightarrow> 's \<Rightarrow> 'v"
    and put :: "'k \<Rightarrow> 'v \<Rightarrow> 's \<Rightarrow> 's"
  assumes ok_put: "ok k s \<Longrightarrow> ok j s \<Longrightarrow> ok k (put j v s)"
    and get_put: "ok k s \<Longrightarrow> get k (put k v s) = v"
    and get_put_other: "ok k s \<Longrightarrow> ok j s \<Longrightarrow> k \<noteq> j \<Longrightarrow> get k (put j v s) = get k s"
begin

primrec puts :: "('k \<times> 'v) list \<Rightarrow> 's \<Rightarrow> 's" where
  "puts [] s = s"
| "puts (kv # kvs) s = puts kvs (put (fst kv) (snd kv) s)"

text \<open>After a sequence of writes a key holds the last value written to it.\<close>

lemma get_puts:
  assumes "ok k s" "\<forall>kv \<in> set kvs. ok (fst kv) s"
  shows "get k (puts kvs s) = (case map_of (rev kvs) k of None \<Rightarrow> get k s | Some v \<Rightarrow> v)"
  using assms
proof (induction kvs arbitrary: s)
  case (Cons kv kvs)
  have "get k (puts kvs (put (fst kv) (snd kv) s)) =
      (case map_of (rev kvs) k of None \<Rightarrow> get k (put (fst kv) (snd kv) s) | Some v \<Rightarrow> v)"
    using Cons.prems ok_put by (intro Cons.IH) auto
  then show ?case
    using Cons.prems get_put get_put_other
    by (cases kv) (auto simp: map_add_def split: option.splits)
qed simp

lemma puts_other:
  assumes "ok k s" "\<forall>kv \<in> set kvs. ok (fst kv) s" "k \<notin> fst ` set kvs"
  shows "get k (puts kvs s) = get k s"
proof -
  have "map_of (rev kvs) k = None" using assms(3) by (simp add: map_of_eq_None_iff)
  then show ?thesis using get_puts [OF assms(1,2)] by simp
qed

end

end
