(* ===== verification/DeviceProps.thy ===== *)
theory DeviceProps
  imports Bus Interfaces
begin

text \<open>
  What the devices do for the guest, seen through the bus: the keyboard queue, the audio ring, the
  frame buffer with its sync register, the serial port and guest memory. The key queue is the
  interpretation \<open>kbd\<close> of the bounded queue, a device's register block and the aligned words of
  guest memory are the interpretations \<open>dev_regs\<close> and \<open>guest_words\<close> of the addressed store.
\<close>

section \<open>The keyboard queue is a queue\<close>

definition kbd_len :: "keyboard \<Rightarrow> nat" where
  "kbd_len k = (key_r k + KEY_QUEUE_LEN - key_f k) mod KEY_QUEUE_LEN"

definition kbd_content :: "keyboard \<Rightarrow> u32 list" where
  "kbd_content k = map (\<lambda>i. key_queue k ! ((key_f k + i) mod KEY_QUEUE_LEN)) [0 ..< kbd_len k]"

definition kbd_wf :: "keyboard \<Rightarrow> bool" where
  "kbd_wf k \<longleftrightarrow> length (key_queue k) = KEY_QUEUE_LEN \<and> key_f k < KEY_QUEUE_LEN \<and> key_r k < KEY_QUEUE_LEN"

lemma ring_dist: "f < n \<Longrightarrow> r < n \<Longrightarrow> (r + n - f) mod n = (if f \<le> r then r - f else r + n - f)" for f r n :: nat
  by (auto simp: mod_if)

lemma ring_next: "r < n \<Longrightarrow> (r + 1) mod n = (if r + 1 = n then 0 else r + 1)" for r n :: nat
  by auto

lemma ring_at: "f < n \<Longrightarrow> i < n \<Longrightarrow> (f + i) mod n = (if f + i < n then f + i else f + i - n)" for f n i :: nat
  by (auto simp: mod_if)

lemma ring_full: "f < n \<Longrightarrow> r < n \<Longrightarrow> (r + 1) mod n = f \<longleftrightarrow> (r + n - f) mod n = n - 1" for f r n :: nat
  by (subst ring_dist, assumption+, subst ring_next, assumption) (cases "f \<le> r"; cases "r + 1 = n"; simp; linarith)

lemma ring_succ:
  fixes f r n :: nat
  assumes "f < n" "r < n" "(r + 1) mod n \<noteq> f"
  shows "((r + 1) mod n + n - f) mod n = (r + n - f) mod n + 1"
proof -
  have "(r + 1) mod n < n" using assms(1) by simp
  then show ?thesis
    using assms ring_next [OF assms(2)] by (simp add: ring_dist) (cases "r + 1 = n"; cases "f \<le> r"; simp)
qed

lemma ring_end: "f < n \<Longrightarrow> r < n \<Longrightarrow> (f + (r + n - f) mod n) mod n = r" for f r n :: nat
  by (simp add: ring_dist)

lemma ring_empty: "f < n \<Longrightarrow> r < n \<Longrightarrow> f = r \<longleftrightarrow> (r + n - f) mod n = 0" for f r n :: nat
  by (auto simp: ring_dist)

lemma ring_other:
  fixes f r n i :: nat
  assumes "f < n" "r < n" "i < (r + n - f) mod n"
  shows "(f + i) mod n \<noteq> r"
proof -
  have "i < n" using assms(1,3) by (meson less_trans mod_less_divisor order_le_less_trans zero_le)
  then show ?thesis
    using assms by (auto simp: ring_dist ring_at split: if_splits)
qed

lemma ring_drop:
  fixes f r n :: nat
  assumes "f < n" "r < n" "f \<noteq> r"
  shows "(r + n - (f + 1) mod n) mod n = (r + n - f) mod n - 1"
proof -
  have "(f + 1) mod n < n" using assms(1) by simp
  then show ?thesis
    using assms ring_next [OF assms(1)] by (simp add: ring_dist)
qed

lemma kbd_put:
  assumes "kbd_wf k" "length (kbd_content k) < 1023"
  shows "\<exists>k'. key_enqueue x k = Inr k' \<and> kbd_wf k' \<and> kbd_content k' = kbd_content k @ [x]"
proof -
  let ?k = "k\<lparr>key_queue := (key_queue k)[key_r k := x], key_r := (key_r k + 1) mod KEY_QUEUE_LEN\<rparr>"
  have b: "key_f k < KEY_QUEUE_LEN" "key_r k < KEY_QUEUE_LEN" "length (key_queue k) = KEY_QUEUE_LEN"
    using assms(1) by (auto simp: kbd_wf_def)
  have n: "kbd_len k < 1023" using assms(2) by (simp add: kbd_content_def)
  then have "(key_r k + 1) mod KEY_QUEUE_LEN \<noteq> key_f k"
    using ring_full [OF b(1,2)] by (simp add: kbd_len_def KEY_QUEUE_LEN_def)
  moreover from this have l: "kbd_len ?k = kbd_len k + 1"
    using ring_succ [OF b(1,2)] by (simp add: kbd_len_def)
  have "kbd_content ?k = kbd_content k @ [x]"
  proof -
    have "key_queue ?k ! ((key_f k + i) mod KEY_QUEUE_LEN) = key_queue k ! ((key_f k + i) mod KEY_QUEUE_LEN)"
      if "i < kbd_len k" for i
      using ring_other [OF b(1,2), of i] that by (simp add: kbd_len_def)
    moreover have "key_queue ?k ! ((key_f k + kbd_len k) mod KEY_QUEUE_LEN) = x"
      using ring_end [OF b(1,2)] b by (simp add: kbd_len_def)
    ultimately show ?thesis unfolding kbd_content_def l by simp
  qed
  moreover have "kbd_wf ?k" using b by (simp add: kbd_wf_def KEY_QUEUE_LEN_def)
  ultimately show ?thesis by (intro exI [of _ ?k]) (simp add: key_enqueue_def Let_def)
qed

lemma kbd_put_full:
  assumes "kbd_wf k" "length (kbd_content k) \<ge> 1023"
  shows "key_enqueue x k = Inl Assert_Fail"
proof -
  have b: "key_f k < KEY_QUEUE_LEN" "key_r k < KEY_QUEUE_LEN"
    using assms(1) by (auto simp: kbd_wf_def)
  have "kbd_len k \<ge> 1023" using assms(2) by (simp add: kbd_content_def)
  moreover have "kbd_len k < KEY_QUEUE_LEN" by (simp add: kbd_len_def KEY_QUEUE_LEN_def)
  ultimately have "(key_r k + 1) mod KEY_QUEUE_LEN = key_f k"
    using ring_full [OF b] by (simp add: kbd_len_def KEY_QUEUE_LEN_def)
  then show ?thesis by (simp add: key_enqueue_def Let_def)
qed

lemma kbd_take_empty: "kbd_wf k \<Longrightarrow> kbd_content k = [] \<Longrightarrow> key_dequeue k = None"
  using ring_empty [of "key_f k" KEY_QUEUE_LEN "key_r k"]
  by (simp add: kbd_wf_def kbd_content_def key_dequeue_def kbd_len_def)

lemma kbd_take_head:
  assumes "kbd_wf k" "kbd_content k = x # xs"
  shows "\<exists>k'. key_dequeue k = Some (x, k') \<and> kbd_wf k' \<and> kbd_content k' = xs"
proof -
  let ?k = "k\<lparr>key_f := Suc (key_f k) mod KEY_QUEUE_LEN\<rparr>"
  have b: "key_f k < KEY_QUEUE_LEN" "key_r k < KEY_QUEUE_LEN" "length (key_queue k) = KEY_QUEUE_LEN"
    using assms(1) by (auto simp: kbd_wf_def)
  have len: "kbd_len k = Suc (length xs)"
    using arg_cong [OF assms(2), of length] by (simp add: kbd_content_def)
  then have ne: "key_f k \<noteq> key_r k"
    using ring_empty [OF b(1,2)] by (simp add: kbd_len_def)
  have l: "kbd_len ?k = length xs"
    using len ring_drop [OF b(1,2) ne] by (simp add: kbd_len_def)
  have "kbd_content k ! 0 = x" using assms(2) by simp
  then have x: "key_queue k ! key_f k = x"
    using len b by (simp add: kbd_content_def del: upt_Suc)
  have "kbd_content ?k = xs"
  proof (rule nth_equalityI)
    show "length (kbd_content ?k) = length xs" by (simp add: kbd_content_def l)
    fix i assume "i < length (kbd_content ?k)"
    then have i: "i < length xs" by (simp add: kbd_content_def l)
    have "kbd_content k ! Suc i = xs ! i" using assms(2) by simp
    moreover have "(Suc (key_f k) mod KEY_QUEUE_LEN + i) mod KEY_QUEUE_LEN = (key_f k + Suc i) mod KEY_QUEUE_LEN"
      by (simp add: mod_simps)
    ultimately show "kbd_content ?k ! i = xs ! i"
      using i by (simp add: kbd_content_def l len del: upt_Suc)
  qed
  moreover have "kbd_wf ?k" using b by (simp add: kbd_wf_def KEY_QUEUE_LEN_def)
  ultimately show ?thesis using ne x by (auto simp: key_dequeue_def)
qed

interpretation kbd: bounded_fifo kbd_wf kbd_content 1023 key_enqueue key_dequeue
  by unfold_locales (auto intro: kbd_put kbd_put_full kbd_take_empty kbd_take_head)
text \<open>The key codes a list of SDL events enqueues while the machine runs.\<close>

definition key_code :: "(u8 \<Rightarrow> u32) \<Rightarrow> SDL_Event \<Rightarrow> u32 list" where
  "key_code km e =
     (case e of
        SDL_KEYDOWN k \<Rightarrow> if km (ucast k) = KEY_NONE then [] else [km (ucast k) OR KEYDOWN_MASK]
      | SDL_KEYUP k \<Rightarrow> if km (ucast k) = KEY_NONE then [] else [km (ucast k)]
      | _ \<Rightarrow> [])"

definition key_codes :: "(u8 \<Rightarrow> u32) \<Rightarrow> SDL_Event list \<Rightarrow> u32 list" where
  "key_codes km es = concat (map (key_code km) es)"

lemma put_all_append: "kbd.put_all (xs @ ys) k = bnd (kbd.put_all xs k) (kbd.put_all ys)"
  by (induction xs arbitrary: k) (auto simp: bnd_assoc intro: bnd_cong)

lemma handle_events_keys:
  assumes "status (nemu_state m) = NEMU_RUNNING" "SDL_QUIT \<notin> set es"
  shows "handle_events es m =
    bnd (kbd.put_all (key_codes (keymap (hst m)) es) (kbd m)) (\<lambda>k. Inr (m\<lparr>kbd := k\<rparr>))"
  using assms
proof (induction es arbitrary: m)
  case (Cons e es)
  have step: "(case e of SDL_QUIT \<Rightarrow> Inr (m\<lparr>nemu_state := (nemu_state m)\<lparr>status := NEMU_QUIT\<rparr>\<rparr>)
        | SDL_KEYDOWN k \<Rightarrow> send_key (ucast k) True m | SDL_KEYUP k \<Rightarrow> send_key (ucast k) False m
        | SDL_OTHER \<Rightarrow> Inr m) =
      bnd (kbd.put_all (key_code (keymap (hst m)) e) (kbd m)) (\<lambda>k. Inr (m\<lparr>kbd := k\<rparr>))"
    using Cons.prems by (cases e) (auto simp: send_key_def key_code_def bnd_assoc)
  have IH: "handle_events es (m\<lparr>kbd := k\<rparr>) =
      bnd (kbd.put_all (key_codes (keymap (hst m)) es) k) (\<lambda>k. Inr (m\<lparr>kbd := k\<rparr>))" for k
    using Cons.IH [of "m\<lparr>kbd := k\<rparr>"] Cons.prems by simp
  show ?case
    unfolding handle_events.simps step bnd_assoc
    by (simp add: IH key_codes_def put_all_append bnd_assoc)
qed (simp add: key_codes_def)

section \<open>Accesses to mapped registers\<close>

lemma map_read_inside:
  assumes "map_inside mp addr" "1 \<le> len" "len \<le> 8" "space mp + unat (addr - low mp) + 4 \<le> IO_SPACE_MAX"
  shows "map_read addr len (Some mp) m =
    bnd (invoke_callback (callback mp) (addr - low mp) len False m)
      (\<lambda>m1. Inr (take_bit (8 * nat len) (get32 (io_space (bus m1)) (space mp + unat (addr - low mp))), m1))"
  using assms unfolding map_read_def check_bound_def Let_def
  by (simp add: map_inside_def read_mask_take)

lemma copy_bytes_put_n: "n \<in> {1, 2, 4} \<Longrightarrow> copy_bytes n q data s = put_n n s q data"
  by (auto simp: put_n_def put16_def put32_def eval_nat_numeral)

lemma map_write_inside:
  assumes "map_inside mp addr" "len = 1 \<or> len = 2 \<or> len = 4" "space mp + unat (addr - low mp) + 4 \<le> IO_SPACE_MAX"
  shows "map_write addr data len (Some mp) m =
    invoke_callback (callback mp) (addr - low mp) len True
      (m\<lparr>bus := (bus m)\<lparr>io_space := put_n (nat len) (io_space (bus m)) (space mp + unat (addr - low mp)) data\<rparr>\<rparr>)"
proof -
  have "copy_bytes (nat len) q data s = put_n (nat len) s q data" for q s
    using assms(2) by (intro copy_bytes_put_n) auto
  then show ?thesis
    using assms unfolding map_write_def check_bound_def Let_def by (auto simp: map_inside_def)
qed

lemma ready_space_bound:
  assumes "mp \<in> set ready_mmio" "map_inside mp addr"
  shows "space mp + unat (addr - low mp) + 4 \<le> IO_SPACE_MAX"
proof -
  have "unat (addr - low mp) \<le> unat (high mp - low mp)"
    using assms(2) by (auto simp: map_inside_def word_le_nat_alt unat_sub intro: diff_le_mono)
  then show ?thesis using ready_mmio_inside [of mp] assms(1) by (simp add: map_end_def IO_SPACE_MAX_def)
qed

lemma mmio_read_ready:
  assumes "io_ready m" "mp \<in> set ready_mmio" "map_inside mp addr" "1 \<le> len" "len \<le> 8"
  shows "paddr_read addr len m =
    bnd (invoke_callback (callback mp) (addr - low mp) len False m)
      (\<lambda>m1. Inr (take_bit (8 * nat len) (get32 (io_space (bus m1)) (space mp + unat (addr - low mp))), m1))"
  by (simp add: paddr_read_ready [OF assms(1-3)] map_read_inside [OF assms(3-5) ready_space_bound [OF assms(2,3)]])

lemma mmio_write_ready:
  assumes "io_ready m" "mp \<in> set ready_mmio" "map_inside mp addr" "len = 1 \<or> len = 2 \<or> len = 4"
  shows "paddr_write addr data len m =
    invoke_callback (callback mp) (addr - low mp) len True
      (m\<lparr>bus := (bus m)\<lparr>io_space := put_n (nat len) (io_space (bus m)) (space mp + unat (addr - low mp)) data\<rparr>\<rparr>)"
  by (simp add: paddr_write_ready [OF assms(1-3)] map_write_inside [OF assms(3,4) ready_space_bound [OF assms(2,3)]])
section \<open>The keyboard through the bus\<close>

definition KBD_MMIO :: u32 where "KBD_MMIO = 0xa1000060"

lemma take_bit_32 [simp]: "take_bit 32 (w :: u32) = w"
  by (rule bit_word_eqI) (simp add: bit_simps)

lemma kbd_map:
  "\<lparr>name = ''keyboard'', low = 0xa1000060, high = 0xa1000063, space = 495616, callback = I8042_data_io_handler\<rparr>
     \<in> set ready_mmio"
  by (simp add: ready_mmio_def)

lemma read_kbd:
  assumes "io_ready m"
  shows "\<exists>m'. paddr_read KBD_MMIO 4 m =
      Inr (case key_dequeue (kbd m) of None \<Rightarrow> KEY_NONE | Some (x, _) \<Rightarrow> x, m') \<and> io_ready m' \<and>
    kbd m' = (case key_dequeue (kbd m) of None \<Rightarrow> kbd m | Some (_, k) \<Rightarrow> k)"
proof -
  have b: "i8042_data_port_base (bases m) = 495616" using assms by (simp add: io_ready_def ready_bases_def)
  have r: "get32 (io_space (bus (reg_put 495616 0 v m))) 495616 = v" for v
    using reg_get_put [of 495616 0 v m] by (simp add: reg_get_def)
  have i: "io_ready (reg_put 495616 0 v m)" for v
    using assms by (simp add: io_ready_def)
  show ?thesis
    using mmio_read_ready [OF assms kbd_map, of KBD_MMIO 4] i r b
    by (cases "key_dequeue (kbd m)")
      (auto simp: KBD_MMIO_def map_inside_def invoke_callback_def i8042_data_io_handler_def Let_def io_ready_def)
qed

text \<open>\<open>n\<close> guest reads of the keyboard's data register.\<close>

fun read_keys :: "nat \<Rightarrow> machine \<Rightarrow> fault + u32 list" where
  "read_keys 0 m = Inr []"
| "read_keys (Suc n) m =
     bnd (paddr_read KBD_MMIO 4 m) (\<lambda>(x, m1). bnd (read_keys n m1) (\<lambda>xs. Inr (x # xs)))"

lemma read_keys_take_n:
  "io_ready m \<Longrightarrow> read_keys n m = Inr (fst (kbd.take_n n KEY_NONE (kbd m)))"
proof (induction n arbitrary: m)
  case (Suc n)
  obtain m' where m': "paddr_read KBD_MMIO 4 m =
      Inr (case key_dequeue (kbd m) of None \<Rightarrow> KEY_NONE | Some (x, _) \<Rightarrow> x, m')" "io_ready m'"
    "kbd m' = (case key_dequeue (kbd m) of None \<Rightarrow> kbd m | Some (_, k) \<Rightarrow> k)"
    using read_kbd [OF Suc.prems] by blast
  show ?case
    using Suc.IH [OF m'(2)] m'(1,3) by (cases "key_dequeue (kbd m)") auto
qed simp

lemma init_device_kbd:
  assumes "io_fresh m" "sdl_init_audio_ok (hst m)" "init_device m = Inr m'"
  shows "io_ready m' \<and> kbd m' = kbd m \<and> hst m' = hst m \<and> nemu_state m' = nemu_state m"
  using init_device_stage [OF assms(1,2)] assms(3) io_stage_ready by (auto simp: io_stage_def)

lemma kbd_start: "kbd_wf (kbd (static_start arch h)) \<and> kbd_content (kbd (static_start arch h)) = []"
  by (simp add: static_start_def kbd_wf_def kbd_content_def kbd_len_def KEY_QUEUE_LEN_def)
section \<open>Register blocks and guest memory as addressed stores\<close>

interpretation dev_regs: addressed_store "\<lambda>i m. True" "reg_get base" "reg_put base" for base
  by unfold_locales (auto simp: reg_get_put_other)

lemma pmem_index_neq:
  assumes "PMEM_BASE (isa m) \<le> a" "PMEM_BASE (isa m) \<le> b"
  shows "pmem_index m a = unat a - unat (PMEM_BASE (isa m))"
  using assms by (simp add: pmem_index_def unat_sub)

lemma in_pmem_index: "in_pmem m a \<Longrightarrow> pmem_index m a < PMEM_SIZE"
  by (cases "isa m"; auto simp: in_pmem_def pmem_index_def PMEM_BASE_def PMEM_SIZE_def word_le_nat_alt unat_sub)

lemma paddr_read_in:
  assumes "in_pmem m a" "n \<in> {1, 2, 4}"
  shows "paddr_read a (int n) m =
    (if pmem_index m a + n \<le> PMEM_SIZE then Inr (get_n n (pmem m) (pmem_index m a), m) else Inl Out_Of_Bounds)"
  using assms by (auto simp: paddr_read_def pmem_read_def Let_def)

lemma paddr_write_in:
  assumes "in_pmem m a" "n \<in> {1, 2, 4}"
  shows "paddr_write a d (int n) m =
    (if pmem_index m a + n \<le> PMEM_SIZE then Inr (m\<lparr>pmem := put_n n (pmem m) (pmem_index m a) d\<rparr>)
     else Inl Out_Of_Bounds)"
  using assms by (auto simp: paddr_write_def pmem_write_def Let_def)

lemma in_pmem_update [simp]:
  "in_pmem (m\<lparr>pmem := p\<rparr>) a = in_pmem m a" "pmem_index (m\<lparr>pmem := p\<rparr>) a = pmem_index m a"
  by (simp_all add: in_pmem_def pmem_index_def)

text \<open>Aligned words of guest memory, as the guest's word loads and stores see them.\<close>

definition word_ok :: "u32 \<Rightarrow> machine \<Rightarrow> bool" where
  "word_ok a m \<longleftrightarrow> in_pmem m a \<and> 4 dvd pmem_index m a"

definition word_get :: "u32 \<Rightarrow> machine \<Rightarrow> u32" where
  "word_get a m = get32 (pmem m) (pmem_index m a)"

definition word_put :: "u32 \<Rightarrow> u32 \<Rightarrow> machine \<Rightarrow> machine" where
  "word_put a d m = m\<lparr>pmem := put32 (pmem m) (pmem_index m a) d\<rparr>"

lemma get32_put32_apart: "{a ..< a + 4} \<inter> {b ..< b + 4} = {} \<Longrightarrow> get32 (put32 s b v) a = get32 s a"
  using get_n_put_n_disjoint [of 4 4 a b s v] by (simp add: get_n_def put_n_def)

lemma aligned_apart: "4 dvd a \<Longrightarrow> 4 dvd b \<Longrightarrow> a \<noteq> b \<Longrightarrow> {a ..< a + 4} \<inter> {b ..< b + 4} = {}" for a b :: nat
  by (auto elim!: dvdE)

lemma pmem_index_inj: "pmem_index m a = pmem_index m b \<Longrightarrow> a = b"
  by (simp add: pmem_index_def word_unat_eq_iff [symmetric])

interpretation guest_words: addressed_store word_ok word_get word_put
proof unfold_locales
  show "word_get k (word_put j v s) = word_get k s" if "word_ok k s" "word_ok j s" "k \<noteq> j" for k j v s
  proof -
    have "pmem_index s k \<noteq> pmem_index s j" using that(3) pmem_index_inj by blast
    then have "{pmem_index s k ..< pmem_index s k + 4} \<inter> {pmem_index s j ..< pmem_index s j + 4} = {}"
      using that(1,2) by (intro aligned_apart) (auto simp: word_ok_def)
    then show ?thesis by (simp add: word_get_def word_put_def get32_put32_apart)
  qed
qed (auto simp: word_ok_def word_get_def word_put_def)

lemma word_ok_room: "word_ok a m \<Longrightarrow> pmem_index m a + 4 \<le> PMEM_SIZE"
  using in_pmem_index [of m a] by (auto simp: word_ok_def PMEM_SIZE_def elim!: dvdE)

lemma paddr_write_word: "word_ok a m \<Longrightarrow> paddr_write a d 4 m = Inr (word_put a d m)"
  using paddr_write_in [of m a 4 d] word_ok_room [of a m] by (simp add: word_ok_def word_put_def put_n_def)

lemma paddr_read_word: "word_ok a m \<Longrightarrow> paddr_read a 4 m = Inr (word_get a m, m)"
  using paddr_read_in [of m a 4] word_ok_room [of a m] by (simp add: word_ok_def word_get_def get_n_def)

text \<open>A guest program's sequence of word stores.\<close>

fun write_words :: "(u32 \<times> u32) list \<Rightarrow> machine \<Rightarrow> fault + machine" where
  "write_words [] m = Inr m"
| "write_words (w # ws) m = bnd (paddr_write (fst w) (snd w) 4 m) (\<lambda>m1. write_words ws m1)"

lemma write_words_puts:
  "\<forall>w \<in> set ws. word_ok (fst w) m \<Longrightarrow> write_words ws m = Inr (guest_words.puts ws m)"
  by (induction ws arbitrary: m rule: list.induct)
    (auto simp: paddr_write_word guest_words.ok_put split: prod.splits)

section \<open>The audio ring\<close>

definition ring_content :: "machine \<Rightarrow> u8 list" where
  "ring_content m = map (\<lambda>i. io_space (bus m) (sbuf (bases m) + (qhead (aud m) + i) mod STREAM_BUF_MAX_SIZE))
     [0 ..< nat (count (aud m))]"

definition ring_wf :: "machine \<Rightarrow> bool" where
  "ring_wf m \<longleftrightarrow> 0 \<le> count (aud m) \<and> count (aud m) \<le> int STREAM_BUF_MAX_SIZE \<and> qhead (aud m) < STREAM_BUF_MAX_SIZE"

lemma audio_play_loop_ring:
  "qhead (aud m) < STREAM_BUF_MAX_SIZE \<Longrightarrow>
   audio_play_loop n m =
     (map (\<lambda>i. io_space (bus m) (sbuf (bases m) + (qhead (aud m) + i) mod STREAM_BUF_MAX_SIZE)) [0 ..< n],
      m\<lparr>aud := (aud m)\<lparr>qhead := (qhead (aud m) + n) mod STREAM_BUF_MAX_SIZE\<rparr>\<rparr>)"
proof (induction n arbitrary: m)
  case (Suc n)
  let ?N = STREAM_BUF_MAX_SIZE
  let ?m = "m\<lparr>aud := (aud m)\<lparr>qhead := Suc (qhead (aud m)) mod ?N\<rparr>\<rparr>"
  have "qhead (aud ?m) < ?N" by (simp add: STREAM_BUF_MAX_SIZE_def)
  from Suc.IH [OF this] have IH: "audio_play_loop n ?m =
      (map (\<lambda>i. io_space (bus m) (sbuf (bases m) + (qhead (aud m) + Suc i) mod ?N)) [0 ..< n],
       m\<lparr>aud := (aud m)\<lparr>qhead := (qhead (aud m) + Suc n) mod ?N\<rparr>\<rparr>)"
    by (simp add: mod_simps)
  have "[0 ..< Suc n] = 0 # map Suc [0 ..< n]" by (simp add: map_Suc_upt upt_conv_Cons)
  then show ?case
    using Suc.prems by (simp add: IH Let_def comp_def del: upt_Suc)
qed simp

lemma audio_play_ring:
  assumes "ring_wf m" "0 \<le> len"
  shows "fst (audio_play len m) = take (nat len) (ring_content m) @ replicate (nat len - length (ring_content m)) 0 \<and>
    ring_wf (snd (audio_play len m)) \<and>
    ring_content (snd (audio_play len m)) = drop (nat len) (ring_content m)"
proof -
  let ?N = STREAM_BUF_MAX_SIZE
  let ?n = "if count (aud m) < len then count (aud m) else len"
  have q: "qhead (aud m) < ?N" "0 \<le> count (aud m)" "count (aud m) \<le> int ?N" "0 < ?N"
    using assms(1) by (auto simp: ring_wf_def STREAM_BUF_MAX_SIZE_def)
  have n: "0 \<le> ?n" "?n \<le> count (aud m)" "nat ?n = min (nat (count (aud m))) (nat len)" "?n \<le> len"
    using q(2) assms(2) by auto
  have e: "audio_play len m =
      (map (\<lambda>i. io_space (bus m) (sbuf (bases m) + (qhead (aud m) + i) mod ?N)) [0 ..< nat ?n]
         @ replicate (nat len - nat (count (aud m))) 0,
       m\<lparr>aud := (aud m)\<lparr>qhead := (qhead (aud m) + nat ?n) mod ?N, count := count (aud m) - ?n\<rparr>\<rparr>)"
    using assms(2) q(2)
    by (auto simp: audio_play_def Let_def audio_play_loop_ring [OF q(1)] nat_diff_distrib)
  have t: "take (nat len) (ring_content m) =
      map (\<lambda>i. io_space (bus m) (sbuf (bases m) + (qhead (aud m) + i) mod ?N)) [0 ..< nat ?n]"
    unfolding ring_content_def n(3) by (auto simp: take_map min_def)
  have "ring_content (snd (audio_play len m)) = drop (nat len) (ring_content m)"
  proof (rule nth_equalityI)
    show "length (ring_content (snd (audio_play len m))) = length (drop (nat len) (ring_content m))"
      unfolding e using n q(2) assms(2) by (auto simp: ring_content_def)
    fix i assume "i < length (ring_content (snd (audio_play len m)))"
    then have "len < count (aud m) \<and> i < nat (count (aud m)) - nat len \<and> nat len + i < nat (count (aud m))"
      unfolding e using q(2) assms(2) by (auto simp: ring_content_def split: if_splits)
    then show "ring_content (snd (audio_play len m)) ! i = drop (nat len) (ring_content m) ! i"
      unfolding e using assms(2) by (simp add: ring_content_def mod_simps nat_diff_distrib add.assoc)
  qed
  moreover have "length (ring_content m) = nat (count (aud m))" by (simp add: ring_content_def)
  moreover have "ring_wf (snd (audio_play len m))"
    unfolding e using n q by (auto simp: ring_wf_def)
  ultimately show ?thesis unfolding t using e by simp
qed
text \<open>The guest's side: one byte stored at the ring's tail through the bus.\<close>

definition AUDIO_SBUF :: u32 where "AUDIO_SBUF = 0xa0800000"

definition ring_tail :: "machine \<Rightarrow> u32" where
  "ring_tail m = AUDIO_SBUF + of_nat ((qhead (aud m) + nat (count (aud m))) mod STREAM_BUF_MAX_SIZE)"

fun stream_bytes :: "u8 list \<Rightarrow> machine \<Rightarrow> fault + machine" where
  "stream_bytes [] m = Inr m"
| "stream_bytes (b # bs) m = bnd (paddr_write (ring_tail m) (ucast b) 1 m) (\<lambda>m1. stream_bytes bs m1)"

lemma sbuf_map:
  "\<lparr>name = ''audio-sbuf'', low = 0xa0800000, high = 0xa080FFFF, space = 503808, callback = Audio_sbuf_handler\<rparr>
     \<in> set ready_mmio"
  by (simp add: ready_mmio_def)

lemma sbuf_offset:
  assumes "k < 65536"
  shows "AUDIO_SBUF \<le> AUDIO_SBUF + of_nat k" "AUDIO_SBUF + of_nat k \<le> 0xa080FFFF"
    and "unat (of_nat k :: u32) = k" "(of_nat k :: u32) + 1 \<le> 65536"
  using assms by (auto simp: AUDIO_SBUF_def word_le_nat_alt unat_of_nat unat_word_ariths)

lemma audio_write_byte:
  assumes "io_ready m" "ring_wf m" "count (aud m) < int STREAM_BUF_MAX_SIZE"
  shows "\<exists>m'. paddr_write (ring_tail m) (ucast b) 1 m = Inr m' \<and> io_ready m' \<and> ring_wf m' \<and>
    ring_content m' = ring_content m @ [b] \<and> count (aud m') = count (aud m) + 1 \<and>
    qhead (aud m') = qhead (aud m) \<and> pmem m' = pmem m \<and> isa m' = isa m"
proof -
  let ?N = STREAM_BUF_MAX_SIZE
  let ?t = "(qhead (aud m) + nat (count (aud m))) mod ?N"
  let ?m = "m\<lparr>bus := (bus m)\<lparr>io_space := (io_space (bus m))(503808 + ?t := b)\<rparr>,
      aud := (aud m)\<lparr>count := count (aud m) + 1\<rparr>\<rparr>"
  have q: "qhead (aud m) < ?N" "0 \<le> count (aud m)" "sbuf (bases m) = 503808"
    using assms(1,2) by (auto simp: ring_wf_def io_ready_def ready_bases_def)
  have t: "?t < 65536" by (simp add: STREAM_BUF_MAX_SIZE_def)
  have "byte_at 0 (ucast b) = b"
    by (rule bit_word_eqI) (auto simp: bit_byte_at bit_simps dest: bit_imp_le_length)
  then have "paddr_write (ring_tail m) (ucast b) 1 m = Inr ?m"
    using mmio_write_ready [OF assms(1) sbuf_map, of "ring_tail m" 1 "ucast b"] sbuf_offset [OF t]
    by (simp add: ring_tail_def map_inside_def AUDIO_SBUF_def invoke_callback_def audio_sbuf_handler_def
        STREAM_BUF_MAX_SIZE_def put_n_def)
  moreover have "ring_content ?m = ring_content m @ [b]"
  proof -
    have "nat (count (aud m) + 1) = Suc (nat (count (aud m)))" using q(2) by simp
    moreover have "(qhead (aud m) + i) mod ?N \<noteq> ?t" if "i < nat (count (aud m))" for i
      using that assms(3) q(1) by (auto simp: ring_at)
    ultimately show ?thesis by (simp add: ring_content_def q(3))
  qed
  moreover have "io_ready ?m" using assms(1) by (simp add: io_ready_def)
  moreover have "ring_wf ?m" using assms(2,3) by (simp add: ring_wf_def)
  ultimately show ?thesis by simp
qed

lemma stream_bytes_ring:
  "io_ready m \<Longrightarrow> ring_wf m \<Longrightarrow> length (ring_content m) + length bs \<le> STREAM_BUF_MAX_SIZE \<Longrightarrow>
    \<exists>m'. stream_bytes bs m = Inr m' \<and> io_ready m' \<and> ring_wf m' \<and> ring_content m' = ring_content m @ bs"
proof (induction bs arbitrary: m)
  case (Cons b bs)
  have "count (aud m) < int STREAM_BUF_MAX_SIZE"
    using Cons.prems(2,3) by (auto simp: ring_content_def ring_wf_def)
  then obtain m1 where m1: "paddr_write (ring_tail m) (ucast b) 1 m = Inr m1" "io_ready m1" "ring_wf m1"
    "ring_content m1 = ring_content m @ [b]"
    using audio_write_byte [OF Cons.prems(1,2)] by blast
  then show ?case using Cons.IH [OF m1(2,3)] Cons.prems(3) by auto
qed simp

section \<open>The screen\<close>

definition VMEM_MMIO :: u32 where "VMEM_MMIO = 0xa0000000"
definition SYNC_MMIO :: u32 where "SYNC_MMIO = 0xa1000104"

lemma vmem_map:
  "\<lparr>name = ''vmem'', low = 0xa0000000, high = 0xa00752FF, space = 12288, callback = NULL_callback\<rparr> \<in> set ready_mmio"
  by (simp add: ready_mmio_def)

lemma screen_map:
  "\<lparr>name = ''screen'', low = 0xa1000100, high = 0xa1000107, space = 8192, callback = NULL_callback\<rparr> \<in> set ready_mmio"
  by (simp add: ready_mmio_def)

text \<open>A guest that stores colours into pixels, by MMIO word stores.\<close>

fun draw :: "(nat \<times> u32) list \<Rightarrow> machine \<Rightarrow> fault + machine" where
  "draw [] m = Inr m"
| "draw (p # ps) m = bnd (paddr_write (VMEM_MMIO + of_nat (4 * fst p)) (snd p) 4 m) (\<lambda>m1. draw ps m1)"

lemma draw_pixel:
  assumes "io_ready m" "i < SCREEN_W * SCREEN_H"
  shows "paddr_write (VMEM_MMIO + of_nat (4 * i)) c 4 m = Inr (reg_put 12288 i c m)"
proof -
  have i: "4 * i < 480000" using assms(2) by (simp add: SCREEN_W_def SCREEN_H_def)
  then have "VMEM_MMIO \<le> VMEM_MMIO + of_nat (4 * i)" "VMEM_MMIO + of_nat (4 * i) \<le> 0xa00752FF"
      "unat (of_nat (4 * i) :: u32) = 4 * i"
    by (auto simp: VMEM_MMIO_def word_le_nat_alt unat_of_nat unat_word_ariths)
  then show ?thesis
    using mmio_write_ready [OF assms(1) vmem_map, of "VMEM_MMIO + of_nat (4 * i)" 4 c]
    by (simp add: map_inside_def VMEM_MMIO_def invoke_callback_def put_n_def reg_put_def del: of_nat_mult)
qed

lemma io_ready_reg_put [simp]: "io_ready (reg_put b i v m) = io_ready m"
  by (simp add: io_ready_def)

lemma draw_puts:
  "io_ready m \<Longrightarrow> \<forall>p \<in> set ps. fst p < SCREEN_W * SCREEN_H \<Longrightarrow> draw ps m = Inr (dev_regs.puts 12288 ps m)"
  by (induction ps arbitrary: m) (simp_all add: draw_pixel del: of_nat_mult)

lemma sync_write: "io_ready m \<Longrightarrow> paddr_write SYNC_MMIO v 4 m = Inr (reg_put 8192 1 v m)"
  using mmio_write_ready [OF _ screen_map, of m SYNC_MMIO 4 v]
  by (simp add: map_inside_def SYNC_MMIO_def invoke_callback_def put_n_def reg_put_def)
lemma puts_keep:
  "io_ready (dev_regs.puts b ps m) = io_ready m" "alrm (dev_regs.puts b ps m) = alrm m"
  "hst (dev_regs.puts b ps m) = hst m" "bases (dev_regs.puts b ps m) = bases m"
  by (induction ps arbitrary: m) simp_all

lemma sync_read: "io_ready m \<Longrightarrow> paddr_read SYNC_MMIO 4 m = Inr (reg_get 8192 1 m, m)"
  using mmio_read_ready [OF _ screen_map, of m SYNC_MMIO 4]
  by (simp add: map_inside_def SYNC_MMIO_def invoke_callback_def reg_get_def)

lemma reg_get_put_apart:
  assumes "b + 4 * i + 4 \<le> c + 4 * j \<or> c + 4 * j + 4 \<le> b + 4 * i"
  shows "reg_get b i (reg_put c j v m) = reg_get b i m"
proof -
  have "{b + 4 * i ..< b + 4 * i + 4} \<inter> {c + 4 * j ..< c + 4 * j + 4} = {}" using assms by auto
  then show ?thesis by (simp add: reg_get_def reg_put_def get32_put32_apart)
qed

lemma get32_shift: "(\<And>k. k < 4 \<Longrightarrow> f (a + k) = g (b + k)) \<Longrightarrow> get32 f a = get32 g b"
proof -
  assume h: "\<And>k. k < 4 \<Longrightarrow> f (a + k) = g (b + k)"
  have "f a = g b" "f (a + 1) = g (b + 1)" "f (a + 2) = g (b + 2)" "f (a + 3) = g (b + 3)"
    using h [of 0] h [of 1] h [of 2] h [of 3] by simp_all
  then show ?thesis by (simp only: get32_def)
qed

text \<open>One device update with the flag and the sync register set and no event pending.\<close>

lemma device_update_shows:
  assumes "io_ready m" "device_update_flag (alrm m)" "sdl_events (hst m) = []" "reg_get 8192 1 m \<noteq> 0"
    and "i < SCREEN_W * SCREEN_H"
  shows "\<exists>m'. device_update m = Inr m' \<and> io_ready m' \<and> reg_get 8192 1 m' = 0 \<and>
    get32 (texture (hst m')) (4 * i) = reg_get 12288 i m \<and> \<not> device_update_flag (alrm m') \<and>
    pmem m' = pmem m \<and> isa m' = isa m"
proof -
  let ?m1 = "m\<lparr>alrm := (alrm m)\<lparr>device_update_flag := False\<rparr>\<rparr>"
  have b: "vgactl_port_base (bases m) = 8192" "vmem (bases m) = 12288"
    using assms(1) by (auto simp: io_ready_def ready_bases_def)
  have "reg_get 8192 1 ?m1 \<noteq> 0" using assms(4) by (simp add: reg_get_def)
  then have "vga_update_screen ?m1 = reg_put 8192 1 0 (update_screen ?m1)"
    by (simp add: vga_update_screen_def b)
  then have "device_update m = Inr ((reg_put 8192 1 0 (update_screen ?m1))\<lparr>hst :=
      (hst (update_screen ?m1))\<lparr>sdl_events := []\<rparr>\<rparr>)"
    using assms(2,3) by (simp add: device_update_def Let_def update_screen_def)
  moreover have "\<And>k. k < 4 \<Longrightarrow> 4 * i + k < SCREEN_SIZE"
    using assms(5) by (simp add: SCREEN_SIZE_def SCREEN_W_def SCREEN_H_def)
  then have "get32 (texture (hst (update_screen ?m1))) (4 * i) = reg_get 12288 i m"
    unfolding reg_get_def by (intro get32_shift) (simp add: update_screen_def b add.assoc)
  ultimately show ?thesis
    using assms(1) by (simp add: io_ready_def reg_get_def reg_put_def update_screen_def)
qed

section \<open>The serial port\<close>

definition SERIAL_MMIO :: u32 where "SERIAL_MMIO = 0xa10003F8"

fun put_serial :: "u8 list \<Rightarrow> machine \<Rightarrow> fault + machine" where
  "put_serial [] m = Inr m"
| "put_serial (b # bs) m = bnd (paddr_write SERIAL_MMIO (ucast b) 1 m) (\<lambda>m1. put_serial bs m1)"

lemma serial_map:
  "\<lparr>name = ''serial'', low = 0xa10003F8, high = 0xa10003FF, space = 0, callback = Serial_io_handler\<rparr> \<in> set ready_mmio"
  by (simp add: ready_mmio_def)

lemma serial_byte:
  assumes "io_ready m"
  shows "\<exists>m'. paddr_write SERIAL_MMIO (ucast b) 1 m = Inr m' \<and> io_ready m' \<and> serial_out (hst m') = serial_out (hst m) @ [b]"
proof -
  have "byte_at 0 (ucast b) = b"
    by (rule bit_word_eqI) (auto simp: bit_byte_at bit_simps dest: bit_imp_le_length)
  moreover have "serial_base (bases m) = 0" using assms by (simp add: io_ready_def ready_bases_def)
  ultimately show ?thesis
    using mmio_write_ready [OF assms serial_map, of SERIAL_MMIO 1 "ucast b"] assms
    by (simp add: SERIAL_MMIO_def map_inside_def invoke_callback_def serial_io_handler_def CH_OFFSET_def put_n_def
        io_ready_def)
qed

lemma put_serial_out:
  "io_ready m \<Longrightarrow> \<exists>m'. put_serial bs m = Inr m' \<and> io_ready m' \<and> serial_out (hst m') = serial_out (hst m) @ bs"
proof (induction bs arbitrary: m)
  case (Cons b bs)
  obtain m1 where m1: "paddr_write SERIAL_MMIO (ucast b) 1 m = Inr m1" "io_ready m1"
      "serial_out (hst m1) = serial_out (hst m) @ [b]"
    using serial_byte [OF Cons.prems] by blast
  then show ?case using Cons.IH [OF m1(2)] by auto
qed simp

section \<open>A machine with its devices up\<close>

definition ioe_machine :: "ISA \<Rightarrow> host \<Rightarrow> machine" where
  "ioe_machine arch h =
     (static_start arch h)\<lparr>bases := ready_bases,
       bus := \<lparr>io_space = (\<lambda>_. 0), p_space = 569344, mmio_maps = ready_mmio, pio_maps = ready_pio\<rparr>,
       nemu_state := \<lparr>status = NEMU_RUNNING, halt_pc = 0, halt_ret = 0\<rparr>\<rparr>"

lemma ioe_machine_ready [simp]: "io_ready (ioe_machine arch h)"
  by (simp add: ioe_machine_def io_ready_def)

lemma ioe_machine_sel [simp]:
  "kbd (ioe_machine arch h) = kbd (static_start arch h)" "hst (ioe_machine arch h) = h"
  "status (nemu_state (ioe_machine arch h)) = NEMU_RUNNING" "isa (ioe_machine arch h) = arch"
  "pmem (ioe_machine arch h) = (\<lambda>_. 0)" "io_space (bus (ioe_machine arch h)) = (\<lambda>_. 0)"
  by (simp_all add: ioe_machine_def static_start_def)

section \<open>Properties\<close>


text \<open>
  The keyboard delivers what was typed, through the whole path: on a machine whose devices
  \<open>init_device\<close> has set up and whose key queue is empty, any list of SDL events other than a quit
  that carries at most 1023 known keys is accepted by the event loop, and successive guest reads of
  the keyboard's MMIO register return exactly the key codes, in order, followed by \<open>KEY_NONE\<close> for as
  long as the guest keeps reading.
\<close>

theorem keyboard_delivers:
  assumes "io_ready m" "status (nemu_state m) = NEMU_RUNNING" "kbd_wf (kbd m)" "kbd_content (kbd m) = []"
    and "SDL_QUIT \<notin> set es" "length (key_codes (keymap (hst m)) es) \<le> 1023"
  shows "\<exists>m'. handle_events es m = Inr m' \<and>
    (\<forall>extra. read_keys (length (key_codes (keymap (hst m)) es) + extra) m' =
       Inr (key_codes (keymap (hst m)) es @ replicate extra KEY_NONE))"
proof -
  let ?ks = "key_codes (keymap (hst m)) es"
  obtain k where k: "kbd.put_all ?ks (kbd m) = Inr k" "kbd_wf k" "kbd_content k = ?ks"
    using kbd.put_all_fits [of "kbd m" ?ks] assms(3,4,6) by auto
  have "io_ready (m\<lparr>kbd := k\<rparr>)" using assms(1) by (simp add: io_ready_def)
  then have "read_keys (length ?ks + e) (m\<lparr>kbd := k\<rparr>) = Inr (?ks @ replicate e KEY_NONE)" for e
    using kbd.take_n_content [OF k(2), of "length ?ks + e" KEY_NONE] k(3) by (simp add: read_keys_take_n)
  then show ?thesis using handle_events_keys [OF assms(2,5)] k(1) by auto
qed

theorem keyboard_delivers_witness:
  "\<exists>m'. handle_events [SDL_KEYDOWN 4, SDL_KEYUP 4] (ioe_machine Riscv32 (quiet_host\<lparr>keymap := (\<lambda>k. 29)\<rparr>)) = Inr m' \<and>
    read_keys 3 m' = Inr [29 OR 0x8000, 29, 0]"
proof -
  let ?m = "ioe_machine Riscv32 (quiet_host\<lparr>keymap := (\<lambda>k. 29)\<rparr>)"
  have ks: "key_codes (keymap (hst ?m)) [SDL_KEYDOWN 4, SDL_KEYUP 4] = [29 OR 0x8000, 29]"
    by (simp add: key_codes_def key_code_def KEY_NONE_def KEYDOWN_MASK_def)
  have "\<exists>m'. handle_events [SDL_KEYDOWN 4, SDL_KEYUP 4] ?m = Inr m' \<and>
    (\<forall>extra. read_keys (2 + extra) m' = Inr ([29 OR 0x8000, 29] @ replicate extra KEY_NONE))"
    using keyboard_delivers [of ?m "[SDL_KEYDOWN 4, SDL_KEYUP 4]"] kbd_start unfolding ks by simp
  then obtain m' where m': "handle_events [SDL_KEYDOWN 4, SDL_KEYUP 4] ?m = Inr m'"
    "read_keys (2 + 1) m' = Inr ([29 OR 0x8000, 29] @ replicate 1 KEY_NONE)" by blast
  then have "read_keys 3 m' = Inr [29 OR 0x8000, 29, 0]" by (simp add: KEY_NONE_def del: read_keys.simps)
  with m'(1) show ?thesis by blast
qed

text \<open>
  The 1024th undelivered key kills the process: with the queue holding fewer than 1024 codes, events
  that carry more keys than it has room for end in the assertion of \<open>send_key\<close>.
\<close>

theorem keyboard_overflow:
  assumes "status (nemu_state m) = NEMU_RUNNING" "kbd_wf (kbd m)" "SDL_QUIT \<notin> set es"
    and "length (kbd_content (kbd m)) + length (key_codes (keymap (hst m)) es) > 1023"
  shows "handle_events es m = Inl Assert_Fail"
proof -
  have "length (kbd_content (kbd m)) \<le> 1023"
    by (simp add: kbd_content_def kbd_len_def KEY_QUEUE_LEN_def less_Suc_eq_le [symmetric])
  then show ?thesis
    using kbd.put_all_overflows [OF assms(2) _ assms(4)] handle_events_keys [OF assms(1,3)] by simp
qed

theorem keyboard_overflow_witness:
  "handle_events (replicate 1024 (SDL_KEYDOWN 4)) (ioe_machine Riscv32 (quiet_host\<lparr>keymap := (\<lambda>k. 29)\<rparr>))
     = Inl Assert_Fail"
proof -
  let ?m = "ioe_machine Riscv32 (quiet_host\<lparr>keymap := (\<lambda>k. 29)\<rparr>)"
  have "key_codes (keymap (hst ?m)) (replicate n (SDL_KEYDOWN 4)) = replicate n (29 OR 0x8000)" for n
    by (induction n) (simp_all add: key_codes_def key_code_def KEY_NONE_def KEYDOWN_MASK_def)
  then show ?thesis
    using kbd_start by (intro keyboard_overflow) simp_all
qed

text \<open>
  Guest memory remembers: after any sequence of aligned word stores to \<open>pmem\<close> through
  \<open>paddr_write\<close>, every store succeeds, and a word load through \<open>paddr_read\<close> returns the last value
  stored at its address, or the old contents if the address was not stored to, and changes nothing.
\<close>

theorem memory_last_store_wins:
  assumes "\<forall>w \<in> set ws. word_ok (fst w) m" "word_ok a m"
  shows "\<exists>m'. write_words ws m = Inr m' \<and> paddr_read a 4 m' =
    Inr (case map_of (rev ws) a of None \<Rightarrow> word_get a m | Some d \<Rightarrow> d, m')"
proof -
  have "word_ok a (guest_words.puts ws m)"
    using assms(1) assms(2) by (induction ws arbitrary: m) (auto simp: guest_words.ok_put)
  then show ?thesis
    using write_words_puts [OF assms(1)] guest_words.get_puts [OF assms(2,1)] by (simp add: paddr_read_word)
qed

theorem memory_last_store_wins_witness:
  "\<exists>m'. write_words [(0x80000010, 1), (0x80000014, 2), (0x80000010, 3)] (ioe_machine Riscv32 quiet_host) = Inr m' \<and>
    paddr_read 0x80000010 4 m' = Inr (3, m')"
proof -
  let ?m = "ioe_machine Riscv32 quiet_host"
  have ok: "word_ok 0x80000010 ?m" "word_ok 0x80000014 ?m"
    by (simp_all add: word_ok_def in_pmem_def pmem_index_def PMEM_BASE_def PMEM_SIZE_def)
  then show ?thesis
    using memory_last_store_wins [of "[(0x80000010, 1), (0x80000014, 2), (0x80000010, 3)]" ?m "0x80000010"] by simp
qed

text \<open>
  The bound of guest memory, exactly: an access of 1, 2 or 4 bytes whose first byte lies in \<open>pmem\<close>
  passes \<open>in_pmem\<close>; it is carried out when its last byte lies there too, and otherwise runs past the
  end of the host's array, for a load and a store alike.
\<close>

theorem pmem_access_bound:
  assumes "in_pmem m a" "n \<in> {1, 2, 4}"
  shows "paddr_read a (int n) m = (if pmem_index m a + n \<le> PMEM_SIZE
           then Inr (get_n n (pmem m) (pmem_index m a), m) else Inl Out_Of_Bounds) \<and>
    paddr_write a d (int n) m = (if pmem_index m a + n \<le> PMEM_SIZE
           then Inr (m\<lparr>pmem := put_n n (pmem m) (pmem_index m a) d\<rparr>) else Inl Out_Of_Bounds)"
  using paddr_read_in [OF assms] paddr_write_in [OF assms] by simp_all

theorem pmem_access_bound_witness:
  "paddr_read 0x87FFFFFE 4 (ioe_machine Riscv32 quiet_host) = Inl Out_Of_Bounds"
proof -
  have "in_pmem (ioe_machine Riscv32 quiet_host) 0x87FFFFFE"
    by (simp add: in_pmem_def PMEM_BASE_def PMEM_SIZE_def)
  moreover have "pmem_index (ioe_machine Riscv32 quiet_host) 0x87FFFFFE = 0x7FFFFFE"
    by (simp add: pmem_index_def PMEM_BASE_def)
  ultimately show ?thesis
    using pmem_access_bound [of "ioe_machine Riscv32 quiet_host" "0x87FFFFFE" 4] by (simp add: PMEM_SIZE_def)
qed

text \<open>
  The audio path is a byte FIFO of 64 KiB: bytes the guest stores at the ring's tail through the
  bus are what SDL's callback plays, after the bytes already queued and in order; a request longer
  than what is queued is filled with silence, and what is left stays queued.
\<close>

theorem audio_stream_is_fifo:
  assumes "io_ready m" "ring_wf m" "length (ring_content m) + length bs \<le> STREAM_BUF_MAX_SIZE" "0 \<le> len"
  shows "\<exists>m'. stream_bytes bs m = Inr m' \<and>
    fst (audio_play len m') = take (nat len) (ring_content m @ bs)
      @ replicate (nat len - (length (ring_content m) + length bs)) 0 \<and>
    ring_content (snd (audio_play len m')) = drop (nat len) (ring_content m @ bs)"
proof -
  obtain m' where m': "stream_bytes bs m = Inr m'" "ring_wf m'" "ring_content m' = ring_content m @ bs"
    using stream_bytes_ring [OF assms(1-3)] by blast
  then show ?thesis using audio_play_ring [OF m'(2) assms(4)] by simp
qed

theorem audio_stream_is_fifo_witness:
  "\<exists>m'. stream_bytes [7, 8, 9] (ioe_machine Riscv32 quiet_host) = Inr m' \<and> fst (audio_play 2 m') = [7, 8]"
proof -
  let ?m = "ioe_machine Riscv32 quiet_host"
  have "ring_wf ?m" "ring_content ?m = []"
    by (simp_all add: ring_wf_def ring_content_def ioe_machine_def static_start_def STREAM_BUF_MAX_SIZE_def)
  then show ?thesis
    using audio_stream_is_fifo [of ?m "[7, 8, 9]" 2] by (auto simp: STREAM_BUF_MAX_SIZE_def)
qed

text \<open>
  A frame reaches the screen: after the guest stores colours into pixels and a non-zero value into
  the sync register, the next device update copies to the host's texture, for every pixel, the last
  colour stored there or the old contents of video memory, and clears the sync register.
\<close>

theorem frame_reaches_screen:
  assumes "io_ready m" "\<forall>p \<in> set ps. fst p < SCREEN_W * SCREEN_H" "v \<noteq> 0" "i < SCREEN_W * SCREEN_H"
    and "device_update_flag (alrm m)" "sdl_events (hst m) = []"
  shows "\<exists>m1 m2 m3. draw ps m = Inr m1 \<and> paddr_write SYNC_MMIO v 4 m1 = Inr m2 \<and> device_update m2 = Inr m3 \<and>
    get32 (texture (hst m3)) (4 * i) =
      (case map_of (rev ps) i of None \<Rightarrow> reg_get 12288 i m | Some c \<Rightarrow> c) \<and>
    paddr_read SYNC_MMIO 4 m3 = Inr (0, m3) \<and> \<not> device_update_flag (alrm m3)"
proof -
  let ?m1 = "dev_regs.puts 12288 ps m"
  let ?m2 = "reg_put 8192 1 v ?m1"
  obtain m3 where m3: "device_update ?m2 = Inr m3" "io_ready m3" "reg_get 8192 1 m3 = 0"
    "get32 (texture (hst m3)) (4 * i) = reg_get 12288 i ?m2" "\<not> device_update_flag (alrm m3)"
    using device_update_shows [of ?m2 i] assms(1,3-6) by (auto simp: puts_keep)
  have "reg_get 12288 i ?m2 = reg_get 12288 i ?m1"
    by (rule reg_get_put_apart) simp
  also have "\<dots> = (case map_of (rev ps) i of None \<Rightarrow> reg_get 12288 i m | Some c \<Rightarrow> c)"
    by (rule dev_regs.get_puts) simp_all
  finally show ?thesis
    using m3 draw_puts [OF assms(1,2)] sync_write [of ?m1 v] sync_read [OF m3(2)] assms(1)
    by (auto simp: puts_keep reg_get_def)
qed

theorem frame_reaches_screen_witness:
  "\<exists>m1 m2 m3. draw [(5, 0xff0000)] ((ioe_machine Riscv32 quiet_host)
        \<lparr>alrm := \<lparr>handlers = [], jiffy = 0, device_update_flag = True\<rparr>\<rparr>) = Inr m1 \<and>
     paddr_write SYNC_MMIO 1 4 m1 = Inr m2 \<and> device_update m2 = Inr m3 \<and>
     get32 (texture (hst m3)) 20 = 0xff0000"
  using frame_reaches_screen [of "(ioe_machine Riscv32 quiet_host)
        \<lparr>alrm := \<lparr>handlers = [], jiffy = 0, device_update_flag = True\<rparr>\<rparr>" "[(5, 0xff0000)]" 1 5]
  by (auto simp: io_ready_def ioe_machine_def SCREEN_W_def SCREEN_H_def static_start_def quiet_host_def)




text \<open>
  Bytes the guest stores to the serial port's MMIO address come out on the host's terminal, all of
  them and in order.
\<close>

theorem serial_prints:
  assumes "io_ready m"
  shows "\<exists>m'. put_serial bs m = Inr m' \<and> serial_out (hst m') = serial_out (hst m) @ bs"
  using put_serial_out [OF assms] by blast

theorem serial_prints_witness:
  "\<exists>m'. put_serial [72, 105] (ioe_machine X86 quiet_host) = Inr m' \<and> serial_out (hst m') = [72, 105]"
  using serial_prints [of "ioe_machine X86 quiet_host" "[72, 105]"] by (simp add: quiet_host_def)

end
