(* ===== verification/Expr.thy ===== *)
theory Expr imports CpuExec begin

text \<open>
  The debugger's expression evaluator, \<open>nemu/src/monitor/debug/expr.c\<close>: the regular expressions and the
  tokeniser with its array of 32 tokens, the checks of the parentheses, the search for the main operator
  with the priority table, the recursive evaluation with its error flag, and the entry point \<open>expr\<close>. The
  token array is passed and returned, since it is a static of the file that keeps its contents between
  calls. The recursion of the C functions is bounded by the tokens, so all definitions are total.
\<close>

unbundle bit_operations_syntax

section \<open>Tokens and rules\<close>

text \<open>Token types are C ints: a character's code, or an enumerator. \<open>NR_BIN_OP\<close> buckets index the priorities.\<close>

definition MAX_TOKENS :: nat where "MAX_TOKENS = 32"
definition TK_NOTYPE :: nat where "TK_NOTYPE = 256"
definition TK_DIGIT :: nat where "TK_DIGIT = 257"
definition TK_DEREF :: nat where "TK_DEREF = 258"
definition TK_HEX :: nat where "TK_HEX = 259"
definition TK_REG :: nat where "TK_REG = 260"
definition TK_UNEQ :: nat where "TK_UNEQ = 271"
definition TK_EQ :: nat where "TK_EQ = 272"
definition TK_AND :: nat where "TK_AND = 273"

definition c_plus :: nat where "c_plus = 43"
definition c_minus :: nat where "c_minus = 45"
definition c_star :: nat where "c_star = 42"
definition c_slash :: nat where "c_slash = 47"
definition c_lpar :: nat where "c_lpar = 40"
definition c_rpar :: nat where "c_rpar = 41"

lemmas tk_defs = TK_NOTYPE_def TK_DIGIT_def TK_DEREF_def TK_HEX_def TK_REG_def TK_UNEQ_def TK_EQ_def TK_AND_def
  c_plus_def c_minus_def c_star_def c_slash_def c_lpar_def c_rpar_def

definition NR_BIN_OP :: nat where "NR_BIN_OP = 20"

definition BOP_HASH :: "nat \<Rightarrow> nat" where "BOP_HASH type = type mod NR_BIN_OP"

definition bop_priority :: "nat list" where
  "bop_priority = (replicate NR_BIN_OP 0)
     [BOP_HASH c_plus := 4, BOP_HASH c_minus := 4, BOP_HASH c_star := 3, BOP_HASH c_slash := 3,
      BOP_HASH TK_UNEQ := 7, BOP_HASH TK_EQ := 7, BOP_HASH TK_AND := 11]"

record Token =
  ttype :: nat
  tstr :: string

text \<open>
  \<open>regexec\<close> with one of the compiled rules, anchored at the start of the text: the length of the
  longest match, or \<open>None\<close> when the leftmost match is not at offset 0. The patterns are the thirteen of
  \<open>rules\<close>, in their order.
\<close>

definition is_space_c :: "char \<Rightarrow> bool" where "is_space_c c \<longleftrightarrow> c = CHR '' ''"

definition is_digit_c :: "char \<Rightarrow> bool" where
  "is_digit_c c \<longleftrightarrow> 48 \<le> (of_char c :: nat) \<and> (of_char c :: nat) \<le> 57"

definition is_alpha_c :: "char \<Rightarrow> bool" where
  "is_alpha_c c \<longleftrightarrow> 65 \<le> (of_char c :: nat) \<and> (of_char c :: nat) \<le> 90
     \<or> 97 \<le> (of_char c :: nat) \<and> (of_char c :: nat) \<le> 122"

definition is_xdigit_c :: "char \<Rightarrow> bool" where
  "is_xdigit_c c \<longleftrightarrow> is_digit_c c \<or> 65 \<le> (of_char c :: nat) \<and> (of_char c :: nat) \<le> 70
     \<or> 97 \<le> (of_char c :: nat) \<and> (of_char c :: nat) \<le> 102"

definition span_len :: "(char \<Rightarrow> bool) \<Rightarrow> string \<Rightarrow> nat" where
  "span_len p s = length (takeWhile p s)"

definition opt_u :: "string \<Rightarrow> nat" where
  "opt_u s = (case s of c # _ \<Rightarrow> (if c = CHR ''u'' \<or> c = CHR ''U'' then 1 else 0) | [] \<Rightarrow> 0)"

datatype rule = R_spaces | R_hex | R_digit | R_lit string | R_reg

fun regexec :: "rule \<Rightarrow> string \<Rightarrow> nat option" where
  "regexec R_spaces s = (let n = span_len is_space_c s in if n = 0 then None else Some n)"
| "regexec R_hex s =
     (case s of
        a # b # r \<Rightarrow>
          (let n = span_len is_xdigit_c r in
           if a = CHR ''0'' \<and> (b = CHR ''x'' \<or> b = CHR ''X'') \<and> n \<noteq> 0
           then Some (2 + n + opt_u (drop n r)) else None)
      | _ \<Rightarrow> None)"
| "regexec R_digit s =
     (let n = span_len is_digit_c s in if n = 0 then None else Some (n + opt_u (drop n s)))"
| "regexec (R_lit l) s = (if l \<noteq> [] \<and> take (length l) s = l then Some (length l) else None)"
| "regexec R_reg s =
     (case s of
        a # r \<Rightarrow>
          (let n = span_len (\<lambda>c. is_alpha_c c \<or> is_digit_c c) r in
           if a = CHR ''$'' \<and> n \<noteq> 0 then Some (Suc n) else None)
      | [] \<Rightarrow> None)"

definition rules :: "(rule \<times> nat) list" where
  "rules = [(R_spaces, TK_NOTYPE), (R_hex, TK_HEX), (R_digit, TK_DIGIT), (R_lit ''+'', c_plus), (R_lit ''-'', c_minus),
     (R_lit ''*'', c_star), (R_lit ''/'', c_slash), (R_lit ''('', c_lpar), (R_lit '')'', c_rpar), (R_reg, TK_REG),
     (R_lit ''=='', TK_EQ), (R_lit ''!='', TK_UNEQ), (R_lit ''&&'', TK_AND)]"

fun first_rule :: "(rule \<times> nat) list \<Rightarrow> string \<Rightarrow> (nat \<times> nat) option" where
  "first_rule [] s = None"
| "first_rule ((r, ty) # rs) s =
     (case regexec r s of Some n \<Rightarrow> Some (n, ty) | None \<Rightarrow> first_rule rs s)"

definition is_op_type :: "nat \<Rightarrow> bool" where
  "is_op_type type \<longleftrightarrow> type = c_plus \<or> type = c_minus \<or> type = c_star \<or> type = c_slash \<or>
     type = TK_EQ \<or> type = TK_UNEQ \<or> type = TK_AND"

section \<open>The tokeniser\<close>

lemma regexec_pos: "regexec r s = Some n \<Longrightarrow> s \<noteq> [] \<Longrightarrow> 0 < n"
  by (cases r) (auto simp: Let_def split: list.splits if_splits)

lemma first_rule_pos: "first_rule rs s = Some (n, ty) \<Longrightarrow> s \<noteq> [] \<Longrightarrow> 0 < n"
  by (induction rs s rule: first_rule.induct) (auto split: option.splits dest: regexec_pos)

text \<open>
  The loop over the text: the rest of the text, the token array and \<open>nr_token\<close>. The result is the
  return value with the array and the count.
\<close>

function make_token_loop :: "string \<Rightarrow> Token list \<Rightarrow> nat \<Rightarrow> fault + (bool \<times> Token list \<times> nat)" where
  "make_token_loop rest tokens nr_token =
     (if rest = [] then Inr (True, tokens, nr_token)
      else case first_rule rules rest of
        None \<Rightarrow> Inr (False, tokens, nr_token)
      | Some (n, ty) \<Rightarrow>
          (if nr_token \<ge> MAX_TOKENS then Inr (False, tokens, nr_token)
           else if is_op_type ty \<or> ty = c_lpar \<or> ty = c_rpar then
             make_token_loop (drop n rest)
               (tokens[nr_token := (tokens ! nr_token)\<lparr>ttype := ty\<rparr>]) (nr_token + 1)
           else if ty = TK_DIGIT \<or> ty = TK_HEX \<or> ty = TK_REG then
             (if n \<ge> 32 then Inr (False, tokens, nr_token)
              else make_token_loop (drop n rest)
                (tokens[nr_token := \<lparr>ttype = ty, tstr = take n rest\<rparr>]) (nr_token + 1))
           else if ty = TK_NOTYPE then make_token_loop (drop n rest) tokens nr_token
           else Inl Todo))"
  by pat_completeness auto
termination
proof (relation "measure (\<lambda>(rest, _, _). length rest)", goal_cases)
qed (auto dest: first_rule_pos)

declare make_token_loop.simps [simp del]

definition make_token :: "string \<Rightarrow> Token list \<Rightarrow> fault + (bool \<times> Token list \<times> nat)" where
  "make_token e tokens = make_token_loop e tokens 0"

section \<open>Parentheses\<close>

text \<open>\<open>slice ts a b\<close>: the types of \<open>tokens[a]\<close> to \<open>tokens[b]\<close>, both included.\<close>

definition tok :: "Token list \<Rightarrow> int \<Rightarrow> nat" where
  "tok ts i = ttype (ts ! nat i)"

definition slice :: "Token list \<Rightarrow> int \<Rightarrow> int \<Rightarrow> nat list" where
  "slice ts a b = map ttype (take (nat (b - a + 1)) (drop (nat a) ts))"

fun legal_loop :: "nat list \<Rightarrow> int \<Rightarrow> bool" where
  "legal_loop [] stack_top = (\<not> stack_top \<ge> 0)"
| "legal_loop (t # ts) stack_top =
     (if t = c_lpar then legal_loop ts (stack_top + 1)
      else if t = c_rpar then (if stack_top < 0 then False else legal_loop ts (stack_top - 1))
      else legal_loop ts stack_top)"

definition islegal_parentheses :: "Token list \<Rightarrow> int \<Rightarrow> int \<Rightarrow> bool" where
  "islegal_parentheses ts start end' = legal_loop (slice ts start end') (-1)"

fun check_loop :: "nat list \<Rightarrow> int \<Rightarrow> bool" where
  "check_loop [] stack_top = True"
| "check_loop (t # ts) stack_top =
     (if t = c_lpar then (if stack_top = -1 then False else check_loop ts (stack_top + 1))
      else if t = c_rpar then check_loop ts (stack_top - 1)
      else check_loop ts stack_top)"

definition check_parentheses :: "Token list \<Rightarrow> int \<Rightarrow> int \<Rightarrow> bool" where
  "check_parentheses ts start end' \<longleftrightarrow>
     tok ts start = c_lpar \<and> tok ts end' = c_rpar \<and> check_loop (slice ts (start + 1) end') 0"

text \<open>The search for the matching parenthesis reads \<open>tokens[++cursor]\<close>; past the array it is undefined.\<close>

function go_loop :: "Token list \<Rightarrow> int \<Rightarrow> int \<Rightarrow> fault + int" where
  "go_loop ts cursor stack_top =
     (if stack_top = -1 then Inr cursor
      else if cursor + 1 \<ge> int (length ts) then Inl Out_Of_Bounds
      else go_loop ts (cursor + 1)
        (if tok ts (cursor + 1) = c_lpar then stack_top + 1
         else if tok ts (cursor + 1) = c_rpar then stack_top - 1 else stack_top))"
  by pat_completeness auto
termination by (relation "measure (\<lambda>(ts, cursor, _). nat (int (length ts) - cursor))") auto

declare go_loop.simps [simp del]

definition go_foward :: "Token list \<Rightarrow> int \<Rightarrow> fault + int" where
  "go_foward ts cursor =
     bnd (if tok ts cursor = c_lpar then go_loop ts cursor 0 else Inr cursor) (\<lambda>c. Inr (c + 1))"

lemma go_loop_ge: "go_loop ts cursor d = Inr c \<Longrightarrow> cursor \<le> c"
proof (induction ts cursor d rule: go_loop.induct)
  case (1 ts cursor d)
  show ?case
  proof (cases "d = -1 \<or> cursor + 1 \<ge> int (length ts)")
    case True
    then show ?thesis using "1.prems" by (subst (asm) go_loop.simps) (auto split: if_splits)
  next
    case False
    then have "cursor + 1 \<le> c" using "1.IH" "1.prems" by (subst (asm) (2) go_loop.simps) auto
    then show ?thesis by simp
  qed
qed

lemma go_foward_gt: "go_foward ts cursor = Inr c \<Longrightarrow> cursor < c"
  by (auto simp: go_foward_def bnd_simps dest: go_loop_ge split: if_splits)
section \<open>The main operator\<close>

function skip_deref :: "Token list \<Rightarrow> int \<Rightarrow> int \<Rightarrow> int" where
  "skip_deref ts end' current =
     (if current < end' \<and> tok ts current = TK_DEREF then skip_deref ts end' (current + 1) else current)"
  by pat_completeness auto
termination by (relation "measure (\<lambda>(ts, e, c). nat (e - c))") auto

declare skip_deref.simps [simp del]

text \<open>
  \<open>expected_op\<close> is a \<open>uint8_t\<close>; \<open>~expected_op\<close> alternates between 0 and 255, so the comparison with
  \<open>Op\<close>, which is 1, never holds.
\<close>

definition NonOp :: u8 where "NonOp = 0"
definition Op :: u8 where "Op = 1"

function main_loop :: "Token list \<Rightarrow> int \<Rightarrow> int \<Rightarrow> u8 \<Rightarrow> int \<Rightarrow> fault + int" where
  "main_loop ts end' current expected_op mop_pos =
     (if current \<le> end' then
        (if is_op_type (tok ts current) then
           (if expected_op = NonOp then Inr (-1)
            else bnd (go_foward ts current) (\<lambda>c.
              main_loop ts end' c (NOT expected_op)
                (if bop_priority ! BOP_HASH (tok ts current) \<ge> bop_priority ! BOP_HASH (tok ts mop_pos)
                 then current else mop_pos)))
         else if expected_op = Op then Inr (-1)
         else
           (let cur = skip_deref ts end' current in
            if is_op_type (tok ts cur) \<or> tok ts cur = TK_DEREF then Inr (-1)
            else bnd (go_foward ts cur) (\<lambda>_. bnd (go_foward ts cur) (\<lambda>c.
              main_loop ts end' c (NOT expected_op) mop_pos))))
      else if expected_op = NonOp then Inr (-1)
      else Inr mop_pos)"
  by pat_completeness auto

lemma skip_deref_ge: "current \<le> skip_deref ts end' current"
proof (induction ts end' current rule: skip_deref.induct)
  case (1 ts end' current)
  then show ?case by (subst skip_deref.simps) force
qed

lemma skip_deref_le: "current \<le> end' \<Longrightarrow> skip_deref ts end' current \<le> end'"
proof (induction ts end' current rule: skip_deref.induct)
  case (1 ts end' current)
  then show ?case by (subst skip_deref.simps) simp
qed

termination main_loop
proof (relation "measure (\<lambda>(ts, e, c, _). nat (e + 1 - c))", goal_cases)
  case (3 ts end' current expected_op mop_pos cur x c)
  then show ?case using skip_deref_ge [of current ts end'] by (auto dest!: go_foward_gt)
qed (auto dest!: go_foward_gt)

declare main_loop.simps [simp del]

definition find_mainop :: "Token list \<Rightarrow> int \<Rightarrow> int \<Rightarrow> fault + int" where
  "find_mainop ts start end' = main_loop ts end' start NonOp 0"

lemma main_loop_range:
  "main_loop ts end' current x mop = Inr p \<Longrightarrow> p = -1 \<or> p = mop \<or> current \<le> p \<and> p \<le> end'"
proof (induction ts end' current x mop rule: main_loop.induct)
  case (1 ts end' current x mop)
  show ?case
  proof (cases "current \<le> end'")
    case le: True
    show ?thesis
    proof (cases "is_op_type (tok ts current)")
      case op: True
      show ?thesis
      proof (cases "x = NonOp")
        case False
        then obtain c where "go_foward ts current = Inr c"
            "main_loop ts end' c (NOT x) (if bop_priority ! BOP_HASH (tok ts current) \<ge> bop_priority ! BOP_HASH (tok ts mop)
                 then current else mop) = Inr p"
          using "1.prems" le op by (subst (asm) main_loop.simps) (auto simp: bnd_simps)
        then show ?thesis using "1.IH"(1) [OF le op False] le by (auto dest!: go_foward_gt split: if_splits)
      qed (use "1.prems" le op in \<open>subst (asm) main_loop.simps; simp\<close>)
    next
      case op: False
      define cur where "cur = skip_deref ts end' current"
      show ?thesis
      proof (cases "x = Op \<or> is_op_type (tok ts cur) \<or> tok ts cur = TK_DEREF")
        case True
        then show ?thesis using "1.prems" le op by (subst (asm) main_loop.simps) (auto simp: cur_def Let_def split: if_splits)
      next
        case False
        then obtain c where c: "go_foward ts cur = Inr c" "main_loop ts end' c (NOT x) mop = Inr p"
          using "1.prems" le op by (subst (asm) main_loop.simps) (auto simp: cur_def Let_def bnd_simps)
        have "current \<le> cur" unfolding cur_def by (rule skip_deref_ge)
        then show ?thesis using "1.IH"(2) [OF le op _ cur_def _ c(1) c(1) c(2)] False go_foward_gt [OF c(1)] by auto
      qed
    qed
  qed (use "1.prems" in \<open>subst (asm) main_loop.simps; simp split: if_splits\<close>)
qed

lemma find_mainop_range:
  "find_mainop ts start end' = Inr p \<Longrightarrow> p = -1 \<or> p = 0 \<or> start \<le> p \<and> p \<le> end'"
  unfolding find_mainop_def using main_loop_range by blast

section \<open>Evaluation\<close>

text \<open>
  \<open>sscanf\<close> with \<open>%u\<close> and \<open>%x\<close> on a token: the longest prefix of digits, after the optional \<open>0x\<close>. A
  value that does not fit in \<open>unsigned int\<close> is undefined in C; the host's library converts through a
  64-bit \<open>unsigned long\<close> that saturates and keeps the low 32 bits.
\<close>

definition digit_val :: "char \<Rightarrow> nat" where
  "digit_val c = (let n = of_char c :: nat in if n \<ge> 97 then n - 87 else if n \<ge> 65 then n - 55 else n - 48)"

definition digits_val :: "nat \<Rightarrow> string \<Rightarrow> nat" where
  "digits_val b s = foldl (\<lambda>n c. n * b + digit_val c) 0 s"

definition to_u32 :: "nat \<Rightarrow> u32" where
  "to_u32 n = of_nat (min n (2 ^ 64 - 1))"

definition scan_u :: "string \<Rightarrow> u32" where
  "scan_u s = to_u32 (digits_val 10 (takeWhile is_digit_c s))"

definition scan_x :: "string \<Rightarrow> u32" where
  "scan_x s = to_u32 (digits_val 16 (takeWhile is_xdigit_c (drop 2 s)))"

definition reg_str2val :: "string \<Rightarrow> machine \<Rightarrow> bool \<Rightarrow> u32 \<times> bool" where
  "reg_str2val s m success =
     (case isa m of
        X86 \<Rightarrow> x86_isa_reg_str2val s m success
      | Mips32 \<Rightarrow> mips_isa_reg_str2val s m success
      | Riscv32 \<Rightarrow> isa_reg_str2val s m)"

text \<open>
  \<open>report_err\<close> prints, clears \<open>error_flag\<close> and returns 0. The state is the flag and the machine, which
  \<open>vaddr_read\<close> passes on.
\<close>

definition report_err :: "machine \<Rightarrow> fault + (u32 \<times> bool \<times> machine)" where
  "report_err m = Inr (0, False, m)"

definition deref_ok :: "u32 \<Rightarrow> machine \<Rightarrow> bool" where
  "deref_ok addr m \<longleftrightarrow> addr \<ge> PMEM_BASE (isa m) \<and> unat addr + 4 \<le> unat (PMEM_BASE (isa m)) + PMEM_SIZE"

definition binary :: "nat \<Rightarrow> u32 \<Rightarrow> u32 \<Rightarrow> bool \<Rightarrow> machine \<Rightarrow> fault + (u32 \<times> bool \<times> machine)" where
  "binary op l r flag m =
     (if op = c_plus then Inr (l + r, flag, m)
      else if op = c_minus then Inr (l - r, flag, m)
      else if op = c_star then Inr (l * r, flag, m)
      else if op = c_slash then
        (if r = 0 then (if flag then report_err m else Inr (0, flag, m)) else Inr (l div r, flag, m))
      else if op = TK_EQ then Inr (of_bool (l = r), flag, m)
      else if op = TK_UNEQ then Inr (of_bool (l \<noteq> r), flag, m)
      else if op = TK_AND then Inr (of_bool (l \<noteq> 0 \<and> r \<noteq> 0), flag, m)
      else Inl Assert_Fail)"

function expr_eval :: "Token list \<Rightarrow> int \<Rightarrow> int \<Rightarrow> bool \<Rightarrow> machine \<Rightarrow> fault + (u32 \<times> bool \<times> machine)" where
  "expr_eval ts start end' flag m =
     (if \<not> flag then Inr (0, flag, m)
      else if start > end' then report_err m
      else if start = end' then
        (if tok ts start = TK_DIGIT then Inr (scan_u (tstr (ts ! nat start)), flag, m)
         else if tok ts start = TK_HEX then Inr (scan_x (tstr (ts ! nat start)), flag, m)
         else if tok ts start = TK_REG then
           (let (v, flag1) = reg_str2val (drop 1 (tstr (ts ! nat start))) m flag
            in if flag1 then Inr (v, flag1, m) else report_err m)
         else report_err m)
      else if check_parentheses ts start end' then expr_eval ts (start + 1) (end' - 1) flag m
      else bnd (find_mainop ts start end') (\<lambda>mop_pos.
        if mop_pos = -1 then report_err m
        else if mop_pos = 0 then
          bnd (expr_eval ts (start + 1) end' flag m) (\<lambda>(addr, flag1, m1).
          if deref_ok addr m1 then
            bnd (vaddr_read addr 4 m1) (\<lambda>(v, m2). Inr (v, flag1, m2))
          else report_err m1)
        else
          bnd (expr_eval ts start (mop_pos - 1) flag m) (\<lambda>(left_val, flag1, m1).
          bnd (expr_eval ts (mop_pos + 1) end' flag1 m1) (\<lambda>(right_val, flag2, m2).
          binary (tok ts mop_pos) left_val right_val flag2 m2))))"
  by pat_completeness auto
termination
proof (relation "measure (\<lambda>(ts, s, e, _). nat (e - s + 1))", goal_cases)
qed (auto dest!: find_mainop_range)

declare expr_eval.simps [simp del]

section \<open>The entry point\<close>

fun deref_loop :: "nat \<Rightarrow> nat \<Rightarrow> Token list \<Rightarrow> Token list" where
  "deref_loop i 0 ts = ts"
| "deref_loop i (Suc n) ts =
     deref_loop (Suc i) n
       (if ttype (ts ! i) = c_star \<and>
           (i = 0 \<or> is_op_type (ttype (ts ! (i - 1))) \<or> ttype (ts ! (i - 1)) = c_lpar \<or> ttype (ts ! (i - 1)) = TK_DEREF)
        then ts[i := (ts ! i)\<lparr>ttype := TK_DEREF\<rparr>] else ts)"

definition expr :: "string \<Rightarrow> Token list \<Rightarrow> machine \<Rightarrow> fault + (u32 \<times> bool \<times> Token list \<times> machine)" where
  "expr e tokens m =
     bnd (make_token e tokens) (\<lambda>(ok, ts, nr_token).
     if \<not> ok then Inr (0, False, ts, m)
     else if islegal_parentheses ts 0 (int nr_token - 1) then
       (let ts1 = deref_loop 0 nr_token ts in
        bnd (expr_eval ts1 0 (int nr_token - 1) True m) (\<lambda>(result, error_flag, m1).
        Inr (result, error_flag, ts1, m1)))
     else Inr (0, False, ts, m))"

end
