(* ===== verification/ExprTotal.thy ===== *)
theory ExprTotal imports Expr begin

text \<open>
  No input crashes the evaluator: the tokeniser, the searches for a matching parenthesis and for the main
  operator, and the evaluation all return, for every text the user types, and leave the machine as it was.
\<close>

section \<open>No expression crashes the debugger\<close>

lemma ex_Not [simp]: "Ex Not"
  by (rule exI [of _ False]) simp

lemma first_rule_type: "first_rule rs s = Some (n, ty) \<Longrightarrow> ty \<in> snd ` set rs"
  by (induction rs s rule: first_rule.induct) (auto split: option.splits)

lemma rule_types:
  "first_rule rules s = Some (n, ty) \<Longrightarrow> is_op_type ty \<or> ty = c_lpar \<or> ty = c_rpar \<or>
    ty = TK_DIGIT \<or> ty = TK_HEX \<or> ty = TK_REG \<or> ty = TK_NOTYPE"
  by (drule first_rule_type) (auto simp: rules_def is_op_type_def)

lemma make_token_loop_total:
  "n \<le> MAX_TOKENS \<Longrightarrow> length ts = MAX_TOKENS \<Longrightarrow>
    \<exists>ok ts' n'. make_token_loop rest ts n = Inr (ok, ts', n') \<and> n' \<le> MAX_TOKENS \<and> length ts' = MAX_TOKENS"
proof (induction rest ts n rule: make_token_loop.induct)
  case (1 rest ts n)
  show ?case
  proof (cases "rest = [] \<or> first_rule rules rest = None \<or> n \<ge> MAX_TOKENS")
    case True
    then show ?thesis using "1.prems" by (subst make_token_loop.simps) (auto split: option.splits)
  next
    case False
    then obtain k ty where r: "first_rule rules rest = Some (k, ty)" by auto
    note IH = "1.IH" [OF _ r refl]
    show ?thesis
    proof (cases "is_op_type ty \<or> ty = c_lpar \<or> ty = c_rpar")
      case op: True
      show ?thesis using IH(1) False r op "1.prems" by (subst make_token_loop.simps) simp
    next
      case op: False
      show ?thesis
      proof (cases "ty = TK_DIGIT \<or> ty = TK_HEX \<or> ty = TK_REG")
        case True
        show ?thesis using IH(2) False r op True "1.prems" by (subst make_token_loop.simps) simp
      next
        case f: False
        have "ty = TK_NOTYPE" using rule_types [OF r] op f by blast
        then show ?thesis using IH(3) False r op f "1.prems" by (subst make_token_loop.simps) simp
      qed
    qed
  qed
qed

text \<open>Matching parentheses are found inside the tokens of the expression.\<close>

definition types_from :: "Token list \<Rightarrow> nat \<Rightarrow> nat \<Rightarrow> nat list" where
  "types_from ts c nr = map ttype (drop c (take nr ts))"

lemma types_from_Cons: "c < nr \<Longrightarrow> nr \<le> length ts \<Longrightarrow> types_from ts c nr = ttype (ts ! c) # types_from ts (Suc c) nr"
  by (simp add: types_from_def Cons_nth_drop_Suc [symmetric])

lemma types_from_end: "nr \<le> c \<Longrightarrow> types_from ts c nr = []"
  by (simp add: types_from_def)

lemma go_loop_found:
  "legal_loop (types_from ts (Suc c) nr) s \<Longrightarrow> t \<le> s \<Longrightarrow> -1 \<le> t \<Longrightarrow> c < nr \<Longrightarrow> nr \<le> length ts \<Longrightarrow>
    \<exists>d. go_loop ts (int c) t = Inr d \<and> d < int nr"
proof (induction "nr - Suc c" arbitrary: c s t)
  case 0
  then have "types_from ts (Suc c) nr = []" by (simp add: types_from_end)
  then have "t = -1" using 0 by simp
  then show ?case using 0 by (subst go_loop.simps) simp
next
  case (Suc k)
  show ?case
  proof (cases "t = -1")
    case True
    then show ?thesis using Suc.prems by (subst go_loop.simps) simp
  next
    case False
    have c: "Suc c < nr" using Suc.hyps(2) by simp
    let ?z = "ttype (ts ! Suc c)"
    define t' where "t' = (if ?z = c_lpar then t + 1 else if ?z = c_rpar then t - 1 else t)"
    have l: "legal_loop (?z # types_from ts (Suc (Suc c)) nr) s"
      using Suc.prems(1) types_from_Cons [OF c Suc.prems(5)] by simp
    then obtain s' where "legal_loop (types_from ts (Suc (Suc c)) nr) s'" "t' \<le> s'" "-1 \<le> t'"
      using Suc.prems(2,3) False by (auto simp: t'_def split: if_splits)
    then obtain d where "go_loop ts (int (Suc c)) t' = Inr d" "d < int nr"
    proof -
      have "k = nr - Suc (Suc c)" using Suc.hyps(2) by simp
      then show ?thesis using that Suc.hyps(1) [of "Suc c" s' t'] Suc.prems(5) c
          \<open>legal_loop (types_from ts (Suc (Suc c)) nr) s'\<close> \<open>t' \<le> s'\<close> \<open>-1 \<le> t'\<close> by blast
    qed
    moreover have "go_loop ts (int c) t = go_loop ts (int (Suc c)) t'"
    proof -
      have "nat (int c + 1) = Suc c" by simp
      then have "tok ts (int c + 1) = ?z" by (simp only: tok_def)
      then show ?thesis
        using False Suc.prems(5) c by (subst go_loop.simps) (simp add: t'_def add.commute)
    qed
    ultimately show ?thesis by simp
  qed
qed

lemma legal_loop_prefix:
  "legal_loop (xs @ ys) s \<Longrightarrow> -1 \<le> s \<Longrightarrow> \<exists>s'. legal_loop ys s' \<and> -1 \<le> s'"
proof (induction xs arbitrary: s)
  case (Cons x xs)
  let ?s = "if x = c_lpar then s + 1 else if x = c_rpar then s - 1 else s"
  have "legal_loop (xs @ ys) ?s" "-1 \<le> ?s" using Cons.prems by (auto split: if_splits)
  then show ?case by (rule Cons.IH)
qed auto

definition parens_ok :: "Token list \<Rightarrow> nat \<Rightarrow> bool" where
  "parens_ok ts nr \<longleftrightarrow> nr \<le> length ts \<and> legal_loop (types_from ts 0 nr) (-1)"

lemma go_foward_found:
  assumes "parens_ok ts nr" "0 \<le> c" "c < int nr"
  shows "\<exists>d. go_foward ts c = Inr d"
proof (cases "tok ts c = c_lpar")
  case True
  let ?c = "nat c"
  have c: "?c < nr" "nr \<le> length ts" using assms by (auto simp: parens_ok_def)
  have "types_from ts 0 nr = map ttype (take ?c ts) @ types_from ts ?c nr"
  proof -
    have "take ?c (take nr ts) = take ?c ts" using c by simp
    then show ?thesis unfolding types_from_def by (metis append_take_drop_id drop_0 map_append)
  qed
  then obtain s where "legal_loop (types_from ts ?c nr) s" "-1 \<le> s"
    using assms(1) legal_loop_prefix [of "map ttype (take ?c ts)"] by (auto simp: parens_ok_def)
  then have "legal_loop (types_from ts (Suc ?c) nr) (s + 1)" "0 \<le> s + 1"
    using True types_from_Cons [OF c] by (auto simp: tok_def)
  then obtain d where "go_loop ts (int ?c) 0 = Inr d"
    using go_loop_found c by (metis le_minus_one_simps(1) neg_0_le_iff_le zero_le_one)
  then show ?thesis using True assms(2) by (simp add: go_foward_def)
qed (simp add: go_foward_def)

lemma main_loop_total:
  "parens_ok ts nr \<Longrightarrow> 0 \<le> current \<Longrightarrow> end' < int nr \<Longrightarrow> \<exists>p. main_loop ts end' current x mop = Inr p"
proof (induction ts end' current x mop rule: main_loop.induct)
  case (1 ts end' current x mop)
  show ?case
  proof (cases "current \<le> end'")
    case le: True
    then have cur: "0 \<le> skip_deref ts end' current" "skip_deref ts end' current < int nr"
      using skip_deref_ge [of current ts end'] skip_deref_le [OF le, of ts] "1.prems" by linarith+
    obtain c where c: "go_foward ts (skip_deref ts end' current) = Inr c"
      using go_foward_found [OF "1.prems"(1) cur] by blast
    obtain c' where c': "go_foward ts current = Inr c'"
      using go_foward_found [OF "1.prems"(1,2)] "1.prems"(3) le by force
    have pos: "0 \<le> c" "0 \<le> c'"
      using go_foward_gt [OF c] go_foward_gt [OF c'] cur "1.prems"(2) by linarith+
    show ?thesis
    proof (cases "is_op_type (tok ts current)")
      case op: True
      show ?thesis
        using "1.IH"(1) [OF le op _ c' "1.prems"(1) pos(2) "1.prems"(3)] le op c'
        by (subst main_loop.simps) auto
    next
      case op: False
      show ?thesis
        using "1.IH"(2) [OF le op _ refl _ c c "1.prems"(1) pos(1) "1.prems"(3)] le op c
        by (subst main_loop.simps) (auto simp: Let_def)
    qed
  qed (subst main_loop.simps, simp)
qed

lemma main_loop_op:
  "main_loop ts end' current x mop = Inr p \<Longrightarrow> p = -1 \<or> p = mop \<or> is_op_type (tok ts p)"
proof (induction ts end' current x mop rule: main_loop.induct)
  case (1 ts end' current x mop)
  show ?case
  proof (cases "current \<le> end' \<and> is_op_type (tok ts current) \<and> x \<noteq> NonOp")
    case True
    then obtain c where "go_foward ts current = Inr c"
        "main_loop ts end' c (NOT x) (if bop_priority ! BOP_HASH (tok ts current) \<ge> bop_priority ! BOP_HASH (tok ts mop)
             then current else mop) = Inr p"
      using "1.prems" by (subst (asm) main_loop.simps) (auto simp: bnd_simps)
    then show ?thesis using "1.IH"(1) True by (auto split: if_splits)
  next
    case False
    show ?thesis
    proof (cases "p = -1 \<or> p = mop")
      case nz: False
      define cur where "cur = skip_deref ts end' current"
      obtain c where c: "current \<le> end'" "\<not> is_op_type (tok ts current)" "x \<noteq> Op"
          "\<not> (is_op_type (tok ts cur) \<or> tok ts cur = TK_DEREF)" "go_foward ts cur = Inr c"
          "main_loop ts end' c (NOT x) mop = Inr p"
        using "1.prems" False nz by (subst (asm) main_loop.simps) (auto simp: cur_def Let_def bnd_simps split: if_splits)
      show ?thesis using "1.IH"(2) [OF c(1,2,3) cur_def c(4,5,5,6)] by blast
    qed blast
  qed
qed

lemma deref_read:
  assumes "deref_ok addr m"
  shows "\<exists>v. vaddr_read addr 4 m = Inr (v, m)"
proof -
  have "in_pmem m addr" "pmem_index m addr + 4 \<le> PMEM_SIZE"
    using assms by (cases "isa m"; auto simp: deref_ok_def in_pmem_def pmem_index_def PMEM_BASE_def PMEM_SIZE_def
        word_le_nat_alt unat_sub)+
  then show ?thesis by (simp add: vaddr_read_pmem pmem_read_def Let_def)
qed

lemma binary_total: "is_op_type op \<Longrightarrow> \<exists>v f. binary op l r flag m = Inr (v, f, m)"
  by (auto simp: is_op_type_def binary_def report_err_def)

lemma expr_eval_total:
  "parens_ok ts nr \<Longrightarrow> 0 \<le> start \<Longrightarrow> end' < int nr \<Longrightarrow> \<exists>v f. expr_eval ts start end' flag m = Inr (v, f, m)"
proof (induction ts start end' flag m rule: expr_eval.induct)
  case (1 ts start end' flag m)
  show ?case
  proof (cases "\<not> flag \<or> start \<ge> end'")
    case True
    then show ?thesis
      by (subst expr_eval.simps) (auto simp: report_err_def Let_def split: prod.splits)
  next
    case False
    then have lt: "\<not> \<not> flag" "\<not> start > end'" "start \<noteq> end'" by auto
    show ?thesis
    proof (cases "check_parentheses ts start end'")
      case True
      then show ?thesis
        using "1.IH"(1) [OF lt True] "1.prems" lt by (subst expr_eval.simps) simp
    next
      case np: False
      obtain p where p: "find_mainop ts start end' = Inr p"
        using main_loop_total [OF "1.prems"] by (auto simp: find_mainop_def)
      have p_op: "p = -1 \<or> p = 0 \<or> is_op_type (tok ts p)"
        using p main_loop_op unfolding find_mainop_def by blast
      have p_range: "p = -1 \<or> p = 0 \<or> start \<le> p \<and> p \<le> end'" using p by (rule find_mainop_range)
      consider "p = -1" | "p = 0" | "p \<noteq> -1 \<and> p \<noteq> 0" by blast
      then show ?thesis
      proof cases
        case 1
        then show ?thesis using lt np p by (subst expr_eval.simps) (simp add: report_err_def)
      next
        case z: 2
        obtain a f where e: "expr_eval ts (start + 1) end' flag m = Inr (a, f, m)"
          using "1.IH"(2) [OF lt np p _ z "1.prems"(1) _ "1.prems"(3)] z "1.prems"(2) by auto
        show ?thesis
        proof (cases "deref_ok a m")
          case True
          then obtain v where "vaddr_read a 4 m = Inr (v, m)" using deref_read by blast
          then show ?thesis using True lt np p z e by (subst expr_eval.simps) simp
        qed (use lt np p z e in \<open>subst expr_eval.simps; simp add: report_err_def\<close>)
      next
        case nz: 3
        have r: "0 \<le> p + 1" "p - 1 < int nr" using p_range nz "1.prems" by auto
        obtain l f1 where l: "expr_eval ts start (p - 1) flag m = Inr (l, f1, m)"
          using "1.IH"(3) [OF lt np p _ _ "1.prems"(1,2) r(2)] nz by blast
        obtain r f2 where r2: "expr_eval ts (p + 1) end' f1 m = Inr (r, f2, m)"
          using "1.IH"(4) [OF lt np p _ _ l refl refl "1.prems"(1) r(1) "1.prems"(3)] nz by blast
        show ?thesis
          using binary_total [of "tok ts p" l r f2 m] p_op nz lt np p l r2 by (subst expr_eval.simps) auto
      qed
    qed
  qed
qed

text \<open>Marking dereferences leaves the parentheses alone.\<close>

definition paren_of :: "nat \<Rightarrow> nat" where
  "paren_of t = (if t = c_lpar \<or> t = c_rpar then t else 0)"

lemma legal_loop_paren: "legal_loop (map paren_of xs) s = legal_loop xs s"
  by (induction xs arbitrary: s) (auto simp: paren_of_def tk_defs)

lemma deref_loop_paren:
  "map (paren_of \<circ> ttype) (deref_loop i n ts) = map (paren_of \<circ> ttype) ts"
proof (induction n arbitrary: i ts)
  case (Suc n)
  have "map (paren_of \<circ> ttype) (ts[i := (ts ! i)\<lparr>ttype := TK_DEREF\<rparr>]) = map (paren_of \<circ> ttype) ts" if "ttype (ts ! i) = c_star"
    using that by (cases "i < length ts") (auto simp: map_update list_update_same_conv list_update_beyond paren_of_def tk_defs)
  then show ?case using Suc by (auto simp: comp_def)
qed simp

lemma deref_loop_length [simp]: "length (deref_loop i n ts) = length ts"
  by (induction n arbitrary: i ts) auto

lemma parens_ok_deref: "parens_ok ts nr \<Longrightarrow> parens_ok (deref_loop i n ts) nr"
proof -
  have "map paren_of (types_from (deref_loop i n ts) 0 nr) = map paren_of (types_from ts 0 nr)"
    using deref_loop_paren [of i n ts] by (simp add: types_from_def take_map [symmetric])
  then show "parens_ok ts nr \<Longrightarrow> parens_ok (deref_loop i n ts) nr"
    unfolding parens_ok_def using legal_loop_paren by (metis deref_loop_length)
qed

lemma islegal_types: "islegal_parentheses ts 0 (int nr - 1) \<longleftrightarrow> legal_loop (types_from ts 0 nr) (-1)"
  by (simp add: islegal_parentheses_def slice_def types_from_def)

end
