(* ===== verification/ExprGrammar.thy ===== *)
theory ExprGrammar imports ExprTotal begin

text \<open>
  What the evaluator computes: a grammar of expressions over tokens, with C's precedences and grouping, its
  meaning, and the lemmas that the searches by position of \<open>expr.c\<close> find what the grammar says.
\<close>

unbundle bit_operations_syntax

section \<open>The language of expressions\<close>

text \<open>
  What an expression means, without tokens or positions: C's precedence levels for the operators the
  debugger has, registers and memory read in the machine, and no value at all when a divisor is 0, a
  register does not exist or four bytes cannot be read.
\<close>

datatype binop = Add | Sub | Mul | Div | Eq | Ne | And

datatype ast = Num u32 | Reg string | Deref ast | Bin binop ast ast

definition prio :: "binop \<Rightarrow> nat" where
  "prio b = (case b of Mul \<Rightarrow> 3 | Div \<Rightarrow> 3 | Add \<Rightarrow> 4 | Sub \<Rightarrow> 4 | Eq \<Rightarrow> 7 | Ne \<Rightarrow> 7 | And \<Rightarrow> 11)"

definition op_tok :: "binop \<Rightarrow> nat" where
  "op_tok b = (case b of Add \<Rightarrow> c_plus | Sub \<Rightarrow> c_minus | Mul \<Rightarrow> c_star | Div \<Rightarrow> c_slash | Eq \<Rightarrow> TK_EQ | Ne \<Rightarrow> TK_UNEQ
     | And \<Rightarrow> TK_AND)"

definition bop_val :: "binop \<Rightarrow> u32 \<Rightarrow> u32 \<Rightarrow> u32 option" where
  "bop_val b l r =
     (case b of Add \<Rightarrow> Some (l + r) | Sub \<Rightarrow> Some (l - r) | Mul \<Rightarrow> Some (l * r)
      | Div \<Rightarrow> (if r = 0 then None else Some (l div r)) | Eq \<Rightarrow> Some (of_bool (l = r))
      | Ne \<Rightarrow> Some (of_bool (l \<noteq> r)) | And \<Rightarrow> Some (of_bool (l \<noteq> 0 \<and> r \<noteq> 0)))"

fun sem :: "ast \<Rightarrow> machine \<Rightarrow> u32 option" where
  "sem (Num n) m = Some n"
| "sem (Reg r) m = (let (v, ok) = reg_str2val r m True in if ok then Some v else None)"
| "sem (Deref e) m =
     (case sem e m of None \<Rightarrow> None
      | Some a \<Rightarrow> if deref_ok a m then Some (get32 (pmem m) (pmem_index m a)) else None)"
| "sem (Bin b l r) m =
     (case sem l m of None \<Rightarrow> None
      | Some x \<Rightarrow> (case sem r m of None \<Rightarrow> None | Some y \<Rightarrow> bop_val b x y))"

text \<open>
  \<open>gr k ts e\<close>: the tokens \<open>ts\<close> are an expression \<open>e\<close> whose outermost operator has level \<open>k\<close> (0 for an
  atom, a dereference or a parenthesis). A binary operator groups to the left.
\<close>

inductive gr :: "nat \<Rightarrow> Token list \<Rightarrow> ast \<Rightarrow> bool" where
  gr_digit: "ttype t = TK_DIGIT \<Longrightarrow> gr 0 [t] (Num (scan_u (tstr t)))"
| gr_hex: "ttype t = TK_HEX \<Longrightarrow> gr 0 [t] (Num (scan_x (tstr t)))"
| gr_reg: "ttype t = TK_REG \<Longrightarrow> gr 0 [t] (Reg (drop 1 (tstr t)))"
| gr_paren: "gr k ts e \<Longrightarrow> ttype l = c_lpar \<Longrightarrow> ttype r = c_rpar \<Longrightarrow> gr 0 (l # ts @ [r]) e"
| gr_deref: "gr 0 ts e \<Longrightarrow> ttype t = TK_DEREF \<Longrightarrow> gr 0 (t # ts) (Deref e)"
| gr_bin: "gr i l a \<Longrightarrow> gr j r b \<Longrightarrow> i \<le> prio op \<Longrightarrow> j < prio op \<Longrightarrow> ttype t = op_tok op \<Longrightarrow>
    gr (prio op) (l @ t # r) (Bin op a b)"

section \<open>Balance\<close>

fun run_parens :: "nat list \<Rightarrow> int \<Rightarrow> int option" where
  "run_parens [] d = Some d"
| "run_parens (t # ts) d =
     (if t = c_lpar then (if d = -1 then None else run_parens ts (d + 1))
      else if t = c_rpar then run_parens ts (d - 1) else run_parens ts d)"

lemma check_loop_run: "check_loop ts d \<longleftrightarrow> run_parens ts d \<noteq> None"
  by (induction ts arbitrary: d) auto

lemma run_append: "run_parens (xs @ ys) d = Option.bind (run_parens xs d) (run_parens ys)"
  by (induction xs arbitrary: d) auto

lemma op_tok_not: "op_tok b \<noteq> c_lpar" "op_tok b \<noteq> c_rpar" "op_tok b \<noteq> TK_DEREF" "is_op_type (op_tok b)"
  by (cases b; simp add: op_tok_def is_op_type_def tk_defs)+

lemma op_tok_num [simp]: "op_tok b \<noteq> 40" "op_tok b \<noteq> 41" "op_tok b \<noteq> 258"
  using op_tok_not [of b] by (simp_all add: tk_defs)

lemma prio_pos: "0 < prio b"
  by (cases b) (simp_all add: prio_def)

lemma gr_hd: "gr k ts e \<Longrightarrow> ts \<noteq> [] \<and> \<not> is_op_type (ttype (hd ts)) \<and> ttype (hd ts) \<noteq> c_rpar"
  by (induction rule: gr.induct) (auto simp: is_op_type_def tk_defs)

lemma gr_run: "gr k ts e \<Longrightarrow> 0 \<le> d \<Longrightarrow> run_parens (map ttype ts) d = Some d"
  by (induction arbitrary: d rule: gr.induct) (auto simp: run_append op_tok_not tk_defs)

lemma gr_run_bottom:
  "gr k ts e \<Longrightarrow> run_parens (map ttype ts) (-1) = (if c_lpar \<in> ttype ` set ts then None else Some (-1))"
  by (induction rule: gr.induct) (auto simp: run_append op_tok_not tk_defs)

lemma gr_run_open:
  "gr k ts e \<Longrightarrow> ttype (hd ts) = c_lpar \<Longrightarrow>
    run_parens (map ttype (tl ts)) 0 = Some (-1) \<or> run_parens (map ttype (tl ts)) 0 = None"
proof (induction rule: gr.induct)
  case (gr_paren k ts e l r)
  then show ?case using gr_run [of k ts e 0] by (simp add: run_append tk_defs)
next
  case (gr_bin i l a j r b op t)
  have "l \<noteq> []" using gr_hd [OF gr_bin.hyps(1)] by simp
  then have "run_parens (map ttype (tl l)) 0 = Some (-1) \<or> run_parens (map ttype (tl l)) 0 = None"
    using gr_bin by simp
  then show ?case
    using \<open>l \<noteq> []\<close> gr_bin.hyps gr_run_bottom [OF gr_bin.hyps(2)] op_tok_not
    by (auto simp: run_append split: if_splits)
qed (auto simp: tk_defs)

lemma gr_last: "gr k ts e \<Longrightarrow> ttype (last ts) = c_rpar \<Longrightarrow> c_lpar \<in> ttype ` set ts"
proof (induction rule: gr.induct)
  case (gr_bin i l a j r b op t)
  then show ?case using gr_hd [OF gr_bin.hyps(2)] by auto
next
  case (gr_deref ts e t)
  then show ?case using gr_hd [OF gr_deref.hyps(1)] by auto
qed (auto simp: tk_defs)

section \<open>Positions\<close>

definition at_pos :: "Token list \<Rightarrow> nat \<Rightarrow> Token list \<Rightarrow> bool" where
  "at_pos ts o' sub \<longleftrightarrow> (\<exists>rest. drop o' ts = sub @ rest)"

lemma at_pos_append: "at_pos ts p (a @ b) \<longleftrightarrow> at_pos ts p a \<and> at_pos ts (p + length a) b"
proof
  assume "at_pos ts p (a @ b)"
  then obtain rest where r: "drop p ts = a @ b @ rest" by (auto simp: at_pos_def)
  have "drop (p + length a) ts = drop (length a) (drop p ts)" by (simp add: add.commute)
  then show "at_pos ts p a \<and> at_pos ts (p + length a) b" using r by (auto simp: at_pos_def)
next
  assume a: "at_pos ts p a \<and> at_pos ts (p + length a) b"
  then obtain r1 r2 where r: "drop p ts = a @ r1" "drop (p + length a) ts = b @ r2" by (auto simp: at_pos_def)
  have "drop (p + length a) ts = drop (length a) (drop p ts)" by (simp add: add.commute)
  then have "r1 = b @ r2" using r by simp
  then show "at_pos ts p (a @ b)" using r(1) by (simp add: at_pos_def)
qed

lemma at_pos_Nil [simp]: "at_pos ts p []"
  by (simp add: at_pos_def)

lemma at_pos_one: "at_pos ts p [t] \<longleftrightarrow> p < length ts \<and> ts ! p = t"
proof (cases "p < length ts")
  case True
  then show ?thesis by (auto simp: at_pos_def Cons_nth_drop_Suc [symmetric])
qed (auto simp: at_pos_def)

lemma at_pos_Cons: "at_pos ts p (t # sub) \<longleftrightarrow> p < length ts \<and> ts ! p = t \<and> at_pos ts (Suc p) sub"
  using at_pos_append [of ts p "[t]" sub] by (simp add: at_pos_one)

lemma at_pos_slice: "at_pos ts p sub \<Longrightarrow> slice ts (int p) (int p + int (length sub) - 1) = map ttype sub"
  by (auto simp: at_pos_def slice_def)

lemma at_pos_hd: "at_pos ts p sub \<Longrightarrow> sub \<noteq> [] \<Longrightarrow> tok ts (int p) = ttype (hd sub)"
  by (cases sub) (auto simp: at_pos_Cons tok_def)

lemma at_pos_last: "at_pos ts p sub \<Longrightarrow> sub \<noteq> [] \<Longrightarrow> tok ts (int p + int (length sub) - 1) = ttype (last sub)"
proof -
  assume a: "at_pos ts p sub" "sub \<noteq> []"
  then have "at_pos ts p (butlast sub @ [last sub])" by simp
  then have "ts ! (p + length (butlast sub)) = last sub" by (simp only: at_pos_append at_pos_one)
  moreover have "nat (int p + int (length sub) - 1) = p + length (butlast sub)" using a(2) by (cases sub) auto
  ultimately show ?thesis by (simp only: tok_def)
qed

text \<open>One step of the search for the matching parenthesis, from the place before \<open>p\<close>.\<close>

lemma go_loop_step:
  assumes "at_pos ts p [t]" "d \<noteq> -1"
  shows "go_loop ts (int p - 1) d =
    go_loop ts (int p) (if ttype t = c_lpar then d + 1 else if ttype t = c_rpar then d - 1 else d)"
proof -
  have "p < length ts" "tok ts (int p) = ttype t" using assms(1) by (auto simp: at_pos_one tok_def)
  then show ?thesis using assms(2) by (subst go_loop.simps) simp
qed

lemma go_loop_skip:
  "at_pos ts p [t] \<Longrightarrow> 0 \<le> d \<Longrightarrow> ttype t \<noteq> c_lpar \<Longrightarrow> ttype t \<noteq> c_rpar \<Longrightarrow>
    go_loop ts (int p - 1) d = go_loop ts (int p) d"
  using go_loop_step [of ts p t d] by simp

lemma go_loop_gr:
  "gr k sub e \<Longrightarrow> at_pos ts p sub \<Longrightarrow> 0 \<le> d \<Longrightarrow>
    go_loop ts (int p - 1) d = go_loop ts (int (p + length sub) - 1) d"
proof (induction arbitrary: p d rule: gr.induct)
  case (gr_paren k sub e l r)
  have a: "at_pos ts p [l]" "at_pos ts (Suc p) sub" "at_pos ts (Suc p + length sub) [r]"
    using gr_paren.prems(1) by (auto simp: at_pos_Cons at_pos_append at_pos_one)
  have "go_loop ts (int p - 1) d = go_loop ts (int (Suc p) - 1) (d + 1)"
    using go_loop_step [OF a(1), of d] gr_paren by simp
  also have "\<dots> = go_loop ts (int (Suc p + length sub) - 1) (d + 1)"
    using gr_paren.IH [OF a(2), of "d + 1"] gr_paren.prems(2) by simp
  also have "\<dots> = go_loop ts (int (Suc p + length sub)) d"
    using go_loop_step [OF a(3), of "d + 1"] gr_paren by (simp add: tk_defs)
  finally show ?case by (simp add: algebra_simps)
next
  case (gr_deref sub e t)
  have a: "at_pos ts p [t]" "at_pos ts (Suc p) sub"
    using gr_deref.prems(1) by (auto simp: at_pos_Cons at_pos_one)
  show ?case
    using go_loop_step [OF a(1), of d] gr_deref.IH [OF a(2), of d] gr_deref by (simp add: tk_defs)
next
  case (gr_bin i l x j r y op t)
  have a: "at_pos ts p l" "at_pos ts (p + length l) [t]" "at_pos ts (Suc (p + length l)) r"
    using gr_bin.prems(1) by (auto simp: at_pos_Cons at_pos_append at_pos_one)
  have "go_loop ts (int p - 1) d = go_loop ts (int (p + length l) - 1) d"
    using gr_bin.IH(1) [OF a(1) gr_bin.prems(2)] .
  also have "\<dots> = go_loop ts (int (Suc (p + length l)) - 1) d"
    using go_loop_step [OF a(2), of d] gr_bin op_tok_not by simp
  also have "\<dots> = go_loop ts (int (Suc (p + length l) + length r) - 1) d"
    using gr_bin.IH(2) [OF a(3) gr_bin.prems(2)] .
  finally show ?case by (simp add: algebra_simps)
qed (auto intro!: go_loop_skip simp: tk_defs)

lemma go_foward_paren:
  assumes "gr k sub e" "at_pos ts p (l # sub @ [r])" "ttype l = c_lpar" "ttype r = c_rpar"
  shows "go_foward ts (int p) = Inr (int (p + length sub + 2))"
proof -
  have a: "tok ts (int p) = c_lpar" "at_pos ts (Suc p) sub" "at_pos ts (Suc p + length sub) [r]"
    using assms(2,3) by (auto simp: at_pos_Cons at_pos_append at_pos_one tok_def)
  have "go_loop ts (int p) 0 = go_loop ts (int (Suc p + length sub) - 1) 0"
    using go_loop_gr [OF assms(1) a(2), of 0] by simp
  also have "\<dots> = go_loop ts (int (Suc p + length sub)) (-1)"
    using go_loop_step [OF a(3), of 0] assms(4) by (simp add: tk_defs)
  also have "\<dots> = Inr (int (Suc p + length sub))" by (subst go_loop.simps) simp
  finally show ?thesis by (simp add: go_foward_def a(1))
qed
section \<open>The main operator of an expression\<close>

definition prio_at :: "Token list \<Rightarrow> int \<Rightarrow> nat" where
  "prio_at ts p = bop_priority ! BOP_HASH (tok ts p)"

lemma prio_table: "ttype t = op_tok b \<Longrightarrow> bop_priority ! BOP_HASH (ttype t) = prio b"
  by (cases b) (simp_all add: op_tok_def prio_def bop_priority_def BOP_HASH_def NR_BIN_OP_def tk_defs nth_list_update)

lemma prio_atoms: "ty \<in> {TK_DIGIT, TK_HEX, TK_REG, TK_DEREF, c_lpar} \<Longrightarrow> bop_priority ! BOP_HASH ty = 0"
  by (auto simp: bop_priority_def BOP_HASH_def NR_BIN_OP_def tk_defs nth_list_update)

lemma gr_hd_atom: "gr k ts e \<Longrightarrow> ttype (hd ts) \<in> {TK_DIGIT, TK_HEX, TK_REG, TK_DEREF, c_lpar}"
proof (induction rule: gr.induct)
  case (gr_bin i l a j r b op t)
  then show ?case using gr_hd [OF gr_bin.hyps(1)] by (cases l) auto
qed auto

lemma atom_not_op: "ty \<in> {TK_DIGIT, TK_HEX, TK_REG, TK_DEREF, c_lpar} \<Longrightarrow> \<not> is_op_type ty"
  by (auto simp: is_op_type_def tk_defs)

text \<open>An atom with its dereferences is passed over in one turn of the loop.\<close>

lemma gr_zero_passed:
  "gr k sub e \<Longrightarrow> k = 0 \<Longrightarrow> at_pos ts p sub \<Longrightarrow> int (p + length sub) - 1 \<le> en \<Longrightarrow>
    (let s = skip_deref ts en (int p) in
     \<not> is_op_type (tok ts s) \<and> tok ts s \<noteq> TK_DEREF \<and> go_foward ts s = Inr (int (p + length sub)))"
proof (induction arbitrary: p rule: gr.induct)
  case (gr_paren k sub e l r)
  have "tok ts (int p) = c_lpar" using at_pos_hd [OF gr_paren.prems(2)] gr_paren.hyps by simp
  then have "skip_deref ts en (int p) = int p" by (subst skip_deref.simps) (simp add: tk_defs)
  then show ?case
    using go_foward_paren [OF gr_paren.hyps(1) gr_paren.prems(2) gr_paren.hyps(2,3)] \<open>tok ts (int p) = c_lpar\<close>
    by (simp add: is_op_type_def tk_defs algebra_simps)
next
  case (gr_deref sub e t)
  have a: "tok ts (int p) = TK_DEREF" "at_pos ts (Suc p) sub"
    using gr_deref.prems(2) gr_deref.hyps by (auto simp: at_pos_Cons tok_def)
  have "int p < en" using gr_deref.prems(3) gr_hd [OF gr_deref.hyps(1)] by (cases sub) auto
  then have "skip_deref ts en (int p) = skip_deref ts en (int (Suc p))"
    using a(1) by (subst skip_deref.simps) (simp add: add.commute)
  then show ?case using gr_deref.IH [OF refl a(2)] gr_deref.prems(3) by simp
next
  case (gr_bin i l a j r b op t)
  then show ?case using prio_pos [of op] by simp
qed (auto simp: at_pos_Cons tok_def Let_def skip_deref.simps go_foward_def is_op_type_def tk_defs)

lemma NonOp_flips [simp]: "NOT NonOp \<noteq> NonOp" "NonOp \<noteq> NOT NonOp" "NonOp \<noteq> Op" "NOT NonOp \<noteq> Op"
  by (simp_all add: NonOp_def Op_def)

lemma main_loop_atom:
  assumes "gr 0 sub e" "at_pos ts p sub" "int (p + length sub) - 1 \<le> en"
  shows "main_loop ts en (int p) NonOp mop = main_loop ts en (int (p + length sub)) (NOT NonOp) mop"
proof -
  let ?s = "skip_deref ts en (int p)"
  have "sub \<noteq> []" using gr_hd [OF assms(1)] by blast
  then have "int p \<le> en" "\<not> is_op_type (tok ts (int p))"
    using assms(3) at_pos_hd [OF assms(2)] gr_hd [OF assms(1)] by (cases sub; simp)+
  then show ?thesis
    using gr_zero_passed [OF assms(1) refl assms(2,3)]
    by (subst main_loop.simps) (simp add: Let_def)
qed

lemma main_loop_gr:
  "gr k sub e \<Longrightarrow> at_pos ts p sub \<Longrightarrow> int (p + length sub) - 1 \<le> en \<Longrightarrow>
    \<exists>mop'. main_loop ts en (int p) NonOp mop = main_loop ts en (int (p + length sub)) (NOT NonOp) mop' \<and>
      (k = 0 \<or> k < prio_at ts mop \<longrightarrow> mop' = mop) \<and> prio_at ts mop' \<le> max (prio_at ts mop) k"
proof (induction arbitrary: p mop rule: gr.induct)
  case (gr_bin i l a j r b op t)
  have at: "at_pos ts p l" "at_pos ts (p + length l) [t]" "at_pos ts (Suc (p + length l)) r"
    using gr_bin.prems(1) by (auto simp: at_pos_Cons at_pos_append at_pos_one)
  let ?q = "int (p + length l)"
  have len: "int (p + length l) - 1 \<le> en" "int (Suc (p + length l) + length r) - 1 \<le> en" "?q \<le> en"
    using gr_bin.prems(2) by auto
  obtain m1 where m1: "main_loop ts en (int p) NonOp mop = main_loop ts en ?q (NOT NonOp) m1"
      "i = 0 \<or> i < prio_at ts mop \<longrightarrow> m1 = mop" "prio_at ts m1 \<le> max (prio_at ts mop) i"
    using gr_bin.IH(1) [OF at(1) len(1)] by blast
  have t: "tok ts ?q = op_tok op" "prio_at ts ?q = prio op"
    using at_pos_hd [OF at(2)] gr_bin.hyps(5) prio_table [of t op] by (simp_all add: prio_at_def)
  define m2 where "m2 = (if prio op \<ge> prio_at ts m1 then ?q else m1)"
  have step: "main_loop ts en ?q (NOT NonOp) m1 = main_loop ts en (int (Suc (p + length l))) NonOp m2"
  proof -
    have "go_foward ts ?q = Inr (?q + 1)" using t(1) op_tok_not by (simp add: go_foward_def)
    moreover have "?q + 1 = int (Suc (p + length l))" by simp
    moreover have "NOT NonOp \<noteq> NonOp" by simp
    moreover have "is_op_type (tok ts ?q)" using t(1) op_tok_not by simp
    ultimately show ?thesis
      using len(3) t(2) unfolding m2_def prio_at_def by (subst main_loop.simps) (simp add: ac_simps)
  qed
  obtain m3 where m3: "main_loop ts en (int (Suc (p + length l))) NonOp m2 =
        main_loop ts en (int (Suc (p + length l) + length r)) (NOT NonOp) m3"
      "j = 0 \<or> j < prio_at ts m2 \<longrightarrow> m3 = m2" "prio_at ts m3 \<le> max (prio_at ts m2) j"
    using gr_bin.IH(2) [OF at(3) len(2)] by blast
  have "prio op \<le> prio_at ts m2" using t(2) by (auto simp: m2_def)
  then have "m3 = m2" using m3(2) gr_bin.hyps(4) by auto
  moreover have "prio op < prio_at ts mop \<longrightarrow> m2 = mop"
    using m1(2) gr_bin.hyps(3) by (auto simp: m2_def)
  moreover have "prio_at ts m2 \<le> max (prio_at ts mop) (prio op)"
    using m1(3) gr_bin.hyps(3) t(2) by (auto simp: m2_def)
  moreover have "Suc (p + length l) + length r = p + length (l @ t # r)" by simp
  ultimately show ?case
    using m1(1) step m3(1) prio_pos [of op] by (intro exI [of _ m2]) (simp only: refl simp_thms less_not_refl3 neq0_conv [symmetric])
qed (use main_loop_atom gr.intros in \<open>blast intro: max.cobounded1\<close>)+

text \<open>The search returns the operator of a binary expression and 0 for a dereference.\<close>

lemma find_mainop_bin:
  assumes "gr i l a" "gr j r b" "i \<le> prio op" "j < prio op" "ttype t = op_tok op"
    and "at_pos ts p (l @ t # r)" "prio_at ts 0 = 0"
  shows "find_mainop ts (int p) (int (p + length (l @ t # r)) - 1) = Inr (int (p + length l))"
proof -
  let ?en = "int (p + length (l @ t # r)) - 1" and ?q = "int (p + length l)"
  have at: "at_pos ts p l" "at_pos ts (p + length l) [t]" "at_pos ts (Suc (p + length l)) r"
    using assms(6) by (auto simp: at_pos_Cons at_pos_append at_pos_one)
  have t: "tok ts ?q = op_tok op" "prio_at ts ?q = prio op"
    using at_pos_hd [OF at(2)] assms(5) prio_table [of t op] by (simp_all add: prio_at_def)
  obtain m1 where m1: "main_loop ts ?en (int p) NonOp 0 = main_loop ts ?en ?q (NOT NonOp) m1" "prio_at ts m1 \<le> max 0 i"
    using main_loop_gr [OF assms(1) at(1), of ?en 0] assms(7) by auto
  have "main_loop ts ?en ?q (NOT NonOp) m1 = main_loop ts ?en (int (Suc (p + length l))) NonOp ?q"
  proof -
    have "go_foward ts ?q = Inr (?q + 1)" using t(1) op_tok_not by (simp add: go_foward_def)
    moreover have "?q + 1 = int (Suc (p + length l))" by simp
    moreover have "NOT NonOp \<noteq> NonOp" by simp
    moreover have "is_op_type (tok ts ?q)" using t(1) op_tok_not by simp
    moreover have "prio_at ts m1 \<le> prio op" using m1(2) assms(3) by simp
    ultimately show ?thesis
      using t(2) unfolding prio_at_def by (subst main_loop.simps) (simp add: ac_simps)
  qed
  moreover obtain m3 where "main_loop ts ?en (int (Suc (p + length l))) NonOp ?q =
        main_loop ts ?en (int (Suc (p + length l) + length r)) (NOT NonOp) m3" "j = 0 \<or> j < prio_at ts ?q \<longrightarrow> m3 = ?q"
    using main_loop_gr [OF assms(2) at(3), of ?en ?q] by auto
  moreover have "m3 = ?q" using calculation(3) t(2) assms(4) by auto
  moreover have "main_loop ts ?en (int (Suc (p + length l) + length r)) (NOT NonOp) ?q = Inr ?q"
    by (subst main_loop.simps) simp
  ultimately show ?thesis using m1(1) by (simp add: find_mainop_def)
qed

lemma find_mainop_deref:
  assumes "gr 0 sub e" "at_pos ts p sub"
  shows "find_mainop ts (int p) (int (p + length sub) - 1) = Inr 0"
proof -
  have "main_loop ts (int (p + length sub) - 1) (int (p + length sub)) (NOT NonOp) 0 = Inr 0"
    by (subst main_loop.simps) simp
  then show ?thesis using main_loop_atom [OF assms, of "int (p + length sub) - 1" 0] by (simp add: find_mainop_def)
qed
section \<open>Evaluation follows the grammar\<close>

lemma check_parens_slice:
  assumes "at_pos ts p sub" "2 \<le> length sub"
  shows "check_parentheses ts (int p) (int (p + length sub) - 1) \<longleftrightarrow>
    ttype (hd sub) = c_lpar \<and> ttype (last sub) = c_rpar \<and> run_parens (map ttype (tl sub)) 0 \<noteq> None"
proof -
  obtain x r where sub: "sub = x # r" "r \<noteq> []" using assms(2) by (cases sub; cases "tl sub") auto
  have "at_pos ts (Suc p) r" using assms(1) sub by (simp add: at_pos_Cons)
  from at_pos_slice [OF this] have "slice ts (int p + 1) (int (p + length sub) - 1) = map ttype (tl sub)"
    using sub by (simp add: algebra_simps)
  then show ?thesis
    using at_pos_hd [OF assms(1)] at_pos_last [OF assms(1)] sub
    by (simp add: check_parentheses_def check_loop_run)
qed

lemma check_parens_group:
  assumes "gr k sub e" "at_pos ts p (l # sub @ [r])" "ttype l = c_lpar" "ttype r = c_rpar"
  shows "check_parentheses ts (int p) (int (p + length sub) + 1)"
proof -
  have "run_parens (map ttype (sub @ [r])) 0 = Some (-1)"
    using gr_run [OF assms(1), of 0] assms(4) by (simp add: run_append tk_defs)
  then show ?thesis using check_parens_slice [OF assms(2)] assms(3,4) by (simp add: ac_simps)
qed

lemma check_parens_bin:
  assumes "gr i l a" "gr j r b" "ttype t = op_tok op" "at_pos ts p (l @ t # r)"
  shows "\<not> check_parentheses ts (int p) (int (p + length (l @ t # r)) - 1)"
proof -
  have ne: "l \<noteq> []" "r \<noteq> []" using gr_hd assms by blast+
  have "run_parens (map ttype (tl (l @ t # r))) 0 = None"
    if hd: "ttype (hd l) = c_lpar" and last: "ttype (last r) = c_rpar"
  proof -
    have "run_parens (map ttype (tl l)) 0 = Some (-1) \<or> run_parens (map ttype (tl l)) 0 = None"
      using gr_run_open [OF assms(1)] hd by simp
    then show ?thesis
      using ne gr_run_bottom [OF assms(2)] gr_last [OF assms(2) last] assms(3) op_tok_not
      by (auto simp: run_append)
  qed
  moreover have "2 \<le> length (l @ t # r)" using ne by (cases l) auto
  ultimately show ?thesis using check_parens_slice [OF assms(4)] ne by auto
qed

lemma expr_eval_stopped: "expr_eval ts s e False m = Inr (0, False, m)"
  by (subst expr_eval.simps) simp

lemma deref_read_value: "deref_ok a m \<Longrightarrow> vaddr_read a 4 m = Inr (get32 (pmem m) (pmem_index m a), m)"
proof -
  assume "deref_ok a m"
  then have "in_pmem m a" "pmem_index m a + 4 \<le> PMEM_SIZE"
    by (cases "isa m"; auto simp: deref_ok_def in_pmem_def pmem_index_def PMEM_BASE_def PMEM_SIZE_def
        word_le_nat_alt unat_sub)+
  then show ?thesis by (simp add: vaddr_read_pmem pmem_read_def get_n_def Let_def)
qed

text \<open>What \<open>eval\<close> returns for a meaning: the value with the flag still set, or some value with the flag cleared.\<close>

definition eval_result :: "u32 option \<Rightarrow> machine \<Rightarrow> fault + (u32 \<times> bool \<times> machine) \<Rightarrow> bool" where
  "eval_result v m r \<longleftrightarrow>
     (case v of Some x \<Rightarrow> r = Inr (x, True, m) | None \<Rightarrow> (\<exists>x. r = Inr (x, False, m)))"

lemma binary_stopped: "is_op_type op \<Longrightarrow> \<exists>x. binary op l r False m = Inr (x, False, m)"
  by (auto simp: is_op_type_def binary_def)

lemma binary_value:
  "bop_val b x y = Some z \<Longrightarrow> binary (op_tok b) x y True m = Inr (z, True, m)"
  "bop_val b x y = None \<Longrightarrow> \<exists>v. binary (op_tok b) x y True m = Inr (v, False, m)"
  by (cases b; auto simp: bop_val_def binary_def op_tok_def report_err_def tk_defs split: if_splits)+

lemma expr_eval_gr:
  "gr k sub e \<Longrightarrow> at_pos ts p sub \<Longrightarrow> prio_at ts 0 = 0 \<Longrightarrow>
    eval_result (sem e m) m (expr_eval ts (int p) (int (p + length sub) - 1) True m)"
proof (induction arbitrary: p rule: gr.induct)
  case (gr_paren k sub e l r)
  have c: "check_parentheses ts (int p) (int (p + length sub) + 1)"
    by (rule check_parens_group [OF gr_paren.hyps(1) gr_paren.prems(1) gr_paren.hyps(2,3)])
  have "at_pos ts (Suc p) sub" using gr_paren.prems(1) by (simp add: at_pos_Cons at_pos_append)
  note IH = gr_paren.IH [OF this gr_paren.prems(2)]
  have "expr_eval ts (int p) (int (p + length (l # sub @ [r])) - 1) True m =
      expr_eval ts (int (Suc p)) (int (Suc p + length sub) - 1) True m"
    using c by (subst expr_eval.simps) (simp add: ac_simps)
  then show ?case using IH by simp
next
  case (gr_deref sub e t)
  have at: "at_pos ts (Suc p) sub" "tok ts (int p) = TK_DEREF"
    using gr_deref.prems(1) gr_deref.hyps(2) by (auto simp: at_pos_Cons tok_def)
  let ?en = "int (p + length (t # sub)) - 1"
  have sub: "sub \<noteq> []" using gr_hd [OF gr_deref.hyps(1)] by blast
  have m: "find_mainop ts (int p) ?en = Inr 0"
    using find_mainop_deref [OF gr.gr_deref [OF gr_deref.hyps] gr_deref.prems(1)] .
  have c: "\<not> check_parentheses ts (int p) ?en" using at(2) by (simp add: check_parentheses_def tk_defs)
  have IH: "eval_result (sem e m) m (expr_eval ts (int p + 1) ?en True m)"
    using gr_deref.IH [OF at(1) gr_deref.prems(2)] by (simp add: ac_simps)
  have "int p < ?en" using sub by (cases sub) auto
  then have "expr_eval ts (int p) ?en True m = bnd (expr_eval ts (int p + 1) ?en True m) (\<lambda>(addr, flag1, m1).
          if deref_ok addr m1 then bnd (vaddr_read addr 4 m1) (\<lambda>(v, m2). Inr (v, flag1, m2)) else report_err m1)"
    using c m by (subst expr_eval.simps) simp
  then show ?case
    using IH by (auto simp: eval_result_def report_err_def deref_read_value split: option.splits)
next
  case (gr_bin i l a j r b op t)
  let ?sub = "l @ t # r" and ?q = "int (p + length l)"
  let ?en = "int (p + length ?sub) - 1"
  have at: "at_pos ts p l" "at_pos ts (p + length l) [t]" "at_pos ts (Suc (p + length l)) r"
    using gr_bin.prems(1) by (auto simp: at_pos_Cons at_pos_append at_pos_one)
  have ne: "l \<noteq> []" "r \<noteq> []" using gr_hd gr_bin.hyps by blast+
  have t: "tok ts ?q = op_tok op" using at_pos_hd [OF at(2)] gr_bin.hyps(5) by simp
  have m: "find_mainop ts (int p) ?en = Inr ?q"
    using find_mainop_bin [OF gr_bin.hyps gr_bin.prems] .
  have c: "\<not> check_parentheses ts (int p) ?en"
    using check_parens_bin [OF gr_bin.hyps(1,2,5) gr_bin.prems(1)] .
  have L: "eval_result (sem a m) m (expr_eval ts (int p) (?q - 1) True m)"
    using gr_bin.IH(1) [OF at(1) gr_bin.prems(2)] .
  have R: "eval_result (sem b m) m (expr_eval ts (?q + 1) ?en True m)"
    using gr_bin.IH(2) [OF at(3) gr_bin.prems(2)] by (simp add: ac_simps)
  have "int p < ?en" "0 < ?q" using ne by (cases l; cases r; auto)+
  then have ev: "expr_eval ts (int p) ?en True m =
      bnd (expr_eval ts (int p) (?q - 1) True m) (\<lambda>(x, f1, m1).
      bnd (expr_eval ts (?q + 1) ?en f1 m1) (\<lambda>(y, f2, m2). binary (op_tok op) x y f2 m2))"
    using c m t by (subst expr_eval.simps) simp
  show ?case
    using L R binary_stopped [OF op_tok_not(4)] binary_value [of op] unfolding ev
    by (auto simp: eval_result_def expr_eval_stopped split: option.splits)
qed (auto simp: at_pos_one expr_eval.simps tok_def eval_result_def report_err_def Let_def tk_defs split: prod.splits option.splits)

end
