(* ===== verification/ExprProps.thy ===== *)
theory ExprProps imports ExprGrammar RiscvProps CString begin

text \<open>
  The round trip of the debugger's expressions: an expression printed with minimal parentheses is read back
  and evaluated to its meaning, through the tokeniser, the marking of dereferences, the parenthesis checks
  and \<open>eval\<close>. And \<open>expr\<close> returns for every text.
\<close>

section \<open>Printing an expression\<close>

text \<open>
  The tokens of an expression with as few parentheses as the grammar allows: an operand is put in
  parentheses when its outermost operator binds less tightly than its place asks for.
\<close>

fun level :: "ast \<Rightarrow> nat" where
  "level (Bin b _ _) = prio b"
| "level _ = 0"

definition punct :: "nat \<Rightarrow> Token" where
  "punct ty = \<lparr>ttype = ty, tstr = []\<rparr>"

definition group :: "nat \<Rightarrow> ast \<Rightarrow> Token list \<Rightarrow> Token list" where
  "group k e ts = (if level e \<le> k then ts else punct c_lpar # ts @ [punct c_rpar])"

fun lex :: "ast \<Rightarrow> Token list" where
  "lex (Num n) = [\<lparr>ttype = TK_DIGIT, tstr = dec (unat n)\<rparr>]"
| "lex (Reg r) = [\<lparr>ttype = TK_REG, tstr = CHR ''$'' # r\<rparr>]"
| "lex (Deref e) = punct TK_DEREF # group 0 e (lex e)"
| "lex (Bin b l r) = group (prio b) l (lex l) @ punct (op_tok b) # group (prio b - 1) r (lex r)"

definition spell :: "Token \<Rightarrow> string" where
  "spell t = (if ttype t = TK_DIGIT \<or> ttype t = TK_REG then tstr t
     else if ttype t = TK_DEREF then ''*'' else if ttype t = TK_EQ then ''==''
     else if ttype t = TK_UNEQ then ''!='' else if ttype t = TK_AND then ''&&''
     else if ttype t = c_plus then ''+'' else if ttype t = c_minus then ''-'' else if ttype t = c_star then ''*''
     else if ttype t = c_slash then ''/'' else if ttype t = c_lpar then ''('' else '')'')"

definition text_of :: "Token list \<Rightarrow> string" where
  "text_of ts = concat (map (\<lambda>t. spell t @ '' '') ts)"

fun reg_names :: "ast \<Rightarrow> string set" where
  "reg_names (Num n) = {}"
| "reg_names (Reg r) = {r}"
| "reg_names (Deref e) = reg_names e"
| "reg_names (Bin b l r) = reg_names l \<union> reg_names r"

definition reg_name_ok :: "string \<Rightarrow> bool" where
  "reg_name_ok r \<longleftrightarrow> r \<noteq> [] \<and> length r < 31 \<and> list_all (\<lambda>c. is_alpha_c c \<or> is_digit_c c) r"

lemma digit_char: "d < 10 \<Longrightarrow> is_digit_c (char_of (48 + d)) \<and> digit_val (char_of (48 + d)) = d"
  by (simp add: is_digit_c_def digit_val_def Let_def)

lemma dec_digits: "list_all is_digit_c (dec n)"
  by (induction n rule: dec.induct) (subst dec.simps, simp add: digit_char)

lemma dec_value: "digits_val 10 (dec n) = n"
proof (induction n rule: dec.induct)
  case (1 n)
  then show ?case by (subst dec.simps) (simp add: digits_val_def digit_char)
qed

lemma dec_u32: "scan_u (dec (unat n)) = (n :: u32)"
proof -
  have "takeWhile is_digit_c (dec (unat n)) = dec (unat n)"
    using dec_digits by (simp add: takeWhile_eq_all_conv list_all_iff)
  moreover have "unat n \<le> 18446744073709551615" using u32_less_4G [of n] by linarith
  ultimately show ?thesis
    by (simp add: scan_u_def dec_value to_u32_def min_absorb1 del: takeWhile_eq_all_conv)
qed

lemma lex_gr: "gr (level e) (lex e) e"
proof (induction e)
  case (Num n)
  show ?case using gr_digit [of "\<lparr>ttype = TK_DIGIT, tstr = dec (unat n)\<rparr>"] by (simp add: dec_u32)
next
  case (Reg r)
  show ?case using gr_reg [of "\<lparr>ttype = TK_REG, tstr = CHR ''$'' # r\<rparr>"] by simp
next
  case (Deref e)
  have "gr 0 (group 0 e (lex e)) e" using Deref gr_paren [OF Deref] by (auto simp: group_def punct_def)
  then show ?case by (auto intro!: gr_deref simp: punct_def)
next
  case (Bin b l r)
  have "gr (if level l \<le> prio b then level l else 0) (group (prio b) l (lex l)) l"
    using Bin.IH(1) gr_paren [OF Bin.IH(1)] by (auto simp: group_def punct_def)
  moreover have "gr (if level r \<le> prio b - 1 then level r else 0) (group (prio b - 1) r (lex r)) r"
    using Bin.IH(2) gr_paren [OF Bin.IH(2)] by (auto simp: group_def punct_def)
  ultimately show ?case using prio_pos [of b] by (auto intro!: gr_bin simp: punct_def)
qed
section \<open>Reading it back: tokens\<close>

definition unmark :: "nat \<Rightarrow> nat" where
  "unmark ty = (if ty = TK_DEREF then c_star else ty)"

definition tok_ok :: "Token \<Rightarrow> bool" where
  "tok_ok t \<longleftrightarrow> ttype t = TK_DIGIT \<and> (\<exists>n < 2 ^ 32. tstr t = dec n) \<or>
     ttype t = TK_REG \<and> (\<exists>r. reg_name_ok r \<and> tstr t = CHR ''$'' # r) \<or>
     ttype t \<in> {c_plus, c_minus, c_star, c_slash, c_lpar, c_rpar, TK_EQ, TK_UNEQ, TK_AND, TK_DEREF}"

lemma dec_head: "\<exists>c r. dec n = c # r \<and> is_digit_c c \<and> list_all is_digit_c r"
proof -
  have "dec n \<noteq> []" by (induction n rule: dec.induct) (subst dec.simps, simp)
  then show ?thesis using dec_digits [of n] by (cases "dec n") auto
qed

lemma digit_not: "is_digit_c c \<Longrightarrow> c \<noteq> CHR '' '' \<and> c \<noteq> CHR ''x'' \<and> c \<noteq> CHR ''X''"
  by (auto simp: is_digit_c_def)

lemma span_all: "list_all p s \<Longrightarrow> \<not> p c \<Longrightarrow> span_len p (s @ c # rest) = length s"
  by (simp add: span_len_def takeWhile_append list_all_iff)

lemma regexec_not:
  "c \<noteq> CHR '' '' \<Longrightarrow> regexec R_spaces (c # s) = None"
  "c \<noteq> CHR ''0'' \<Longrightarrow> regexec R_hex (c # s) = None"
  "\<not> is_digit_c c \<Longrightarrow> regexec R_digit (c # s) = None"
  "c \<noteq> CHR ''$'' \<Longrightarrow> regexec R_reg (c # s) = None"
  by (auto simp: span_len_def is_space_c_def Let_def split: list.splits)

lemma first_rule_number:
  "first_rule rules (dec n @ CHR '' '' # rest) = Some (length (dec n), TK_DIGIT)"
proof -
  obtain c r where d: "dec n = c # r" "is_digit_c c" "list_all is_digit_c r" using dec_head by blast
  have sp: "\<not> is_digit_c (CHR '' '')" by (simp add: is_digit_c_def)
  have "regexec R_spaces (dec n @ CHR '' '' # rest) = None"
    using d digit_not by (simp add: span_len_def is_space_c_def)
  moreover have "regexec R_hex (dec n @ CHR '' '' # rest) = None"
    using d digit_not by (cases r) (auto simp: Let_def)
  moreover have "regexec R_digit (dec n @ CHR '' '' # rest) = Some (length (dec n))"
    using span_all [OF dec_digits sp, of n rest] d by (simp add: opt_u_def)
  ultimately show ?thesis by (simp add: rules_def)
qed

lemma first_rule_reg:
  assumes "reg_name_ok r"
  shows "first_rule rules (CHR ''$'' # r @ CHR '' '' # rest) = Some (Suc (length r), TK_REG)"
proof -
  have "span_len (\<lambda>c. is_alpha_c c \<or> is_digit_c c) (r @ CHR '' '' # rest) = length r"
    using assms by (intro span_all) (simp_all add: reg_name_ok_def is_alpha_c_def is_digit_c_def)
  then show ?thesis
    using assms
    by (simp add: rules_def regexec_not is_digit_c_def reg_name_ok_def del: regexec.simps(1,2,3))
qed

lemma first_rule_punct:
  "ttype t \<in> {c_plus, c_minus, c_star, c_slash, c_lpar, c_rpar, TK_EQ, TK_UNEQ, TK_AND, TK_DEREF} \<Longrightarrow>
    first_rule rules (spell t @ CHR '' '' # rest) = Some (length (spell t), unmark (ttype t))"
  by (elim insertE emptyE; simp add: rules_def spell_def unmark_def tk_defs regexec_not is_digit_c_def
      del: regexec.simps(1,2,3,5))

lemma first_rule_space:
  "rest = [] \<or> hd rest \<noteq> CHR '' '' \<Longrightarrow> first_rule rules (CHR '' '' # rest) = Some (1, TK_NOTYPE)"
  by (cases rest) (auto simp: rules_def span_len_def is_space_c_def Let_def)

lemma spell_head: "tok_ok t \<Longrightarrow> spell t \<noteq> [] \<and> hd (spell t @ s) \<noteq> CHR '' ''"
proof -
  assume "tok_ok t"
  then consider k where "ttype t = TK_DIGIT" "tstr t = dec k" | "ttype t = TK_REG" "\<exists>r. tstr t = CHR ''$'' # r"
    | "ttype t \<in> {c_plus, c_minus, c_star, c_slash, c_lpar, c_rpar, TK_EQ, TK_UNEQ, TK_AND, TK_DEREF}"
    unfolding tok_ok_def by blast
  then show ?thesis
  proof cases
    case 1
    then show ?thesis using dec_head [of k] digit_not by (auto simp: spell_def)
  qed (auto simp: spell_def tk_defs)
qed

lemma text_head: "list_all tok_ok ts \<Longrightarrow> text_of ts = [] \<or> hd (text_of ts) \<noteq> CHR '' ''"
  by (cases ts) (auto simp: text_of_def dest: spell_head [of _ "'' '' @ _"])

definition same_tok :: "nat \<Rightarrow> Token \<Rightarrow> Token \<Rightarrow> bool" where
  "same_tok ty t x \<longleftrightarrow> ttype t = ty \<and> (ttype x = TK_DIGIT \<or> ttype x = TK_HEX \<or> ttype x = TK_REG \<longrightarrow> tstr t = tstr x)"

lemma token_read:
  assumes "tok_ok x" "n < MAX_TOKENS" "length ts = MAX_TOKENS"
  shows "\<exists>t. same_tok (unmark (ttype x)) t x \<and>
    make_token_loop (spell x @ CHR '' '' # rest) ts n = make_token_loop (CHR '' '' # rest) (ts[n := t]) (Suc n)"
proof -
  have ne: "spell x \<noteq> []" using spell_head [OF assms(1)] by simp
  consider k where "ttype x = TK_DIGIT" "k < 2 ^ 32" "tstr x = dec k"
    | r where "ttype x = TK_REG" "reg_name_ok r" "tstr x = CHR ''$'' # r"
    | "ttype x \<in> {c_plus, c_minus, c_star, c_slash, c_lpar, c_rpar, TK_EQ, TK_UNEQ, TK_AND, TK_DEREF}"
    using assms(1) unfolding tok_ok_def by blast
  then show ?thesis
  proof cases
    case 1
    have "length (dec k) \<le> 10" using 1(2) by (intro dec_length) auto
    moreover have "spell x = dec k" using 1 by (simp add: spell_def)
    ultimately show ?thesis
      using 1 assms(2) ne first_rule_number [of k rest]
      by (intro exI [of _ "\<lparr>ttype = TK_DIGIT, tstr = tstr x\<rparr>"], subst make_token_loop.simps)
         (simp add: same_tok_def unmark_def is_op_type_def tk_defs)
  next
    case 2
    have "length r < 31" using 2(2) by (simp add: reg_name_ok_def)
    then show ?thesis
      using 2 assms(2) ne first_rule_reg [OF 2(2), of rest]
      by (intro exI [of _ "\<lparr>ttype = TK_REG, tstr = tstr x\<rparr>"], subst make_token_loop.simps)
         (simp add: same_tok_def unmark_def is_op_type_def spell_def tk_defs)
  next
    case 3
    then have "is_op_type (unmark (ttype x)) \<or> unmark (ttype x) = c_lpar \<or> unmark (ttype x) = c_rpar"
      by (auto simp: is_op_type_def unmark_def tk_defs)
    moreover have "same_tok (unmark (ttype x)) ((ts ! n)\<lparr>ttype := unmark (ttype x)\<rparr>) x"
      using 3 by (auto simp: same_tok_def tk_defs)
    ultimately show ?thesis
      using assms(2) ne first_rule_punct [OF 3, of rest]
      by (intro exI [of _ "(ts ! n)\<lparr>ttype := unmark (ttype x)\<rparr>"], subst make_token_loop.simps) simp
  qed
qed

lemma space_read:
  assumes "rest = [] \<or> hd rest \<noteq> CHR '' ''" "n < MAX_TOKENS"
  shows "make_token_loop (CHR '' '' # rest) ts n = make_token_loop rest ts n"
  using assms first_rule_space [OF assms(1)] by (subst make_token_loop.simps) (simp add: is_op_type_def tk_defs)

lemma tokens_read:
  "list_all tok_ok xs \<Longrightarrow> n + length xs < MAX_TOKENS \<Longrightarrow> length ts = MAX_TOKENS \<Longrightarrow>
    \<exists>ts'. make_token_loop (text_of xs) ts n = Inr (True, ts', n + length xs) \<and> length ts' = MAX_TOKENS \<and>
      take n ts' = take n ts \<and>
      list_all2 (\<lambda>t x. same_tok (unmark (ttype x)) t x) (take (length xs) (drop n ts')) xs"
proof (induction xs arbitrary: n ts)
  case Nil
  then show ?case by (simp add: text_of_def make_token_loop.simps)
next
  case (Cons x xs)
  have tx: "text_of (x # xs) = spell x @ CHR '' '' # text_of xs" by (simp add: text_of_def)
  obtain t where t: "same_tok (unmark (ttype x)) t x" "make_token_loop (text_of (x # xs)) ts n =
      make_token_loop (CHR '' '' # text_of xs) (ts[n := t]) (Suc n)"
    unfolding tx using token_read [of x n ts "text_of xs"] Cons.prems by auto
  have "make_token_loop (CHR '' '' # text_of xs) (ts[n := t]) (Suc n) =
      make_token_loop (text_of xs) (ts[n := t]) (Suc n)"
    using Cons.prems text_head by (intro space_read) auto
  moreover obtain ts' where ts': "make_token_loop (text_of xs) (ts[n := t]) (Suc n) = Inr (True, ts', Suc n + length xs)"
      "length ts' = MAX_TOKENS" "take (Suc n) ts' = take (Suc n) (ts[n := t])"
      "list_all2 (\<lambda>t x. same_tok (unmark (ttype x)) t x) (take (length xs) (drop (Suc n) ts')) xs"
    using Cons.IH [of "Suc n" "ts[n := t]"] Cons.prems by auto
  moreover have "ts' ! n = t" "take n ts' = take n ts"
  proof -
    have n: "n < length ts" "n < length ts'" using Cons.prems ts'(2) by auto
    have "take (Suc n) ts' ! n = take (Suc n) (ts[n := t]) ! n" using ts'(3) by simp
    then show "ts' ! n = t" using n by simp
    have "take n (take (Suc n) ts') = take n (take (Suc n) (ts[n := t]))" using ts'(3) by simp
    then show "take n ts' = take n ts" by (simp add: min_def)
  qed
  moreover have "take (length (x # xs)) (drop n ts') = ts' ! n # take (length xs) (drop (Suc n) ts')"
    using Cons.prems ts'(2) by (simp add: Cons_nth_drop_Suc [symmetric])
  ultimately show ?case using t by simp
qed
section \<open>Reading it back: dereferences\<close>

definition opens :: "nat \<Rightarrow> bool" where
  "opens ty \<longleftrightarrow> is_op_type ty \<or> ty = c_lpar \<or> ty = TK_DEREF"

fun marked :: "bool \<Rightarrow> nat list \<Rightarrow> nat list" where
  "marked opn [] = []"
| "marked opn (t # ts) =
     (let t' = if t = c_star \<and> opn then TK_DEREF else t in t' # marked (opens t') ts)"

lemma gr_marked:
  "gr k xs e \<Longrightarrow> marked True (map (unmark \<circ> ttype) xs @ ys) = map ttype xs @ marked False ys"
proof (induction arbitrary: ys rule: gr.induct)
  case (gr_bin i l a j r b op t)
  have "opens (op_tok op)" "unmark (op_tok op) = op_tok op"
    using op_tok_not by (simp_all add: opens_def unmark_def)
  then show ?case using gr_bin by (simp add: Let_def)
qed (simp_all add: unmark_def opens_def is_op_type_def tk_defs)

lemma deref_loop_tstr [simp]: "map tstr (deref_loop i n ts) = map tstr ts"
proof (induction n arbitrary: i ts)
  case (Suc n)
  have "map tstr (ts[i := (ts ! i)\<lparr>ttype := TK_DEREF\<rparr>]) = map tstr ts"
    by (cases "i < length ts") (simp_all add: map_update list_update_same_conv list_update_beyond)
  then show ?case using Suc by simp
qed simp

lemma deref_loop_below: "take i (deref_loop i n ts) = take i ts"
proof (induction n arbitrary: i ts)
  case (Suc n)
  have "take i (deref_loop (Suc i) n ts') = take i ts'" for ts'
    using Suc [of "Suc i" ts'] by (metis min.absorb1 le_add2 plus_1_eq_Suc take_take)
  then show ?case by simp
qed simp

lemma deref_loop_marked:
  "i + n \<le> length ts \<Longrightarrow> map ttype (take n (drop i (deref_loop i n ts))) =
     marked (i = 0 \<or> opens (ttype (ts ! (i - 1)))) (map ttype (take n (drop i ts)))"
proof (induction n arbitrary: i ts)
  case (Suc n)
  let ?open = "i = 0 \<or> opens (ttype (ts ! (i - 1)))"
  let ?t = "if ttype (ts ! i) = c_star \<and> ?open then TK_DEREF else ttype (ts ! i)"
  define ts' where "ts' = (if ttype (ts ! i) = c_star \<and> ?open then ts[i := (ts ! i)\<lparr>ttype := TK_DEREF\<rparr>] else ts)"
  have step: "deref_loop i (Suc n) ts = deref_loop (Suc i) n ts'"
    by (simp only: deref_loop.simps ts'_def opens_def)
  have ts': "length ts' = length ts" "ttype (ts' ! i) = ?t" "drop (Suc i) ts' = drop (Suc i) ts"
    using Suc.prems by (auto simp: ts'_def)
  have rest: "map ttype (take n (drop (Suc i) (deref_loop (Suc i) n ts'))) = marked (opens ?t) (map ttype (take n (drop (Suc i) ts)))"
    using Suc.IH [of "Suc i" ts'] Suc.prems ts' by simp
  have "deref_loop (Suc i) n ts' ! i = ts' ! i"
    using deref_loop_below [of "Suc i" n ts'] by (metis lessI nth_take)
  then have "map ttype (take (Suc n) (drop i (deref_loop (Suc i) n ts'))) =
      ?t # map ttype (take n (drop (Suc i) (deref_loop (Suc i) n ts')))"
    using Suc.prems ts' by (simp add: Cons_nth_drop_Suc [symmetric])
  moreover have "take (Suc n) (drop i ts) = ts ! i # take n (drop (Suc i) ts)"
    using Suc.prems by (simp add: Cons_nth_drop_Suc [symmetric])
  ultimately show ?case unfolding step rest by (simp add: Let_def)
qed simp

text \<open>The grammar looks at the types and at the text of the atoms only.\<close>

lemma gr_same:
  "gr k xs e \<Longrightarrow> list_all2 (\<lambda>t x. same_tok (ttype x) t x) ys xs \<Longrightarrow> gr k ys e"
proof (induction arbitrary: ys rule: gr.induct)
  case (gr_digit t)
  then show ?case using gr.gr_digit by (force simp: list_all2_Cons2 same_tok_def)
next
  case (gr_hex t)
  then show ?case using gr.gr_hex by (force simp: list_all2_Cons2 same_tok_def)
next
  case (gr_reg t)
  then show ?case using gr.gr_reg by (force simp: list_all2_Cons2 same_tok_def)
next
  case (gr_paren k ts e l r)
  then show ?case
    by (auto simp: list_all2_Cons2 list_all2_append2 same_tok_def intro!: gr.gr_paren)
next
  case (gr_deref ts e t)
  then show ?case by (auto simp: list_all2_Cons2 same_tok_def intro!: gr.gr_deref)
next
  case (gr_bin i l a j r b op t)
  then show ?case by (auto simp: list_all2_Cons2 list_all2_append2 same_tok_def intro!: gr.gr_bin)
qed

section \<open>The entry point\<close>

lemma gr_legal:
  "gr k ts e \<Longrightarrow> -1 \<le> d \<Longrightarrow> legal_loop (map ttype ts @ ys) d = legal_loop ys d"
  by (induction arbitrary: d ys rule: gr.induct) (auto simp: op_tok_not tk_defs)

lemma expr_of_gr:
  assumes tk: "make_token e tokens = Inr (True, ts, n)" and len: "length tokens = MAX_TOKENS"
    and gr: "gr k (take n (deref_loop 0 n ts)) a"
  defines "ts1 \<equiv> deref_loop 0 n ts"
  shows "case sem a m of Some v \<Rightarrow> expr e tokens m = Inr (v, True, ts1, m)
    | None \<Rightarrow> \<exists>v. expr e tokens m = Inr (v, False, ts1, m)"
proof -
  have n: "n \<le> MAX_TOKENS" "length ts1 = MAX_TOKENS"
    using make_token_loop_total [of 0 tokens e] tk len by (auto simp: make_token_def ts1_def)
  have ne: "0 < n" using gr_hd [OF gr] by (cases n) auto
  have at: "at_pos ts1 0 (take n ts1)" unfolding at_pos_def by (intro exI [of _ "drop n ts1"]) simp
  have p0: "prio_at ts1 0 = 0"
    using gr_hd_atom [OF gr] prio_atoms ne at_pos_hd [OF at] gr_hd [OF gr] by (auto simp: prio_at_def ts1_def)
  have "length (take n ts1) = n" using n by simp
  then have ev: "eval_result (sem a m) m (expr_eval ts1 0 (int n - 1) True m)"
    using expr_eval_gr [OF gr [folded ts1_def] at p0, of m] by simp
  have "legal_loop (types_from ts1 0 n) (-1)"
    using gr_legal [OF gr, of "-1" "[]"] by (simp add: types_from_def ts1_def)
  moreover have "map paren_of (types_from ts1 0 n) = map paren_of (types_from ts 0 n)"
    using deref_loop_paren [of 0 n ts] by (simp add: types_from_def ts1_def take_map [symmetric])
  ultimately have "islegal_parentheses ts 0 (int n - 1)"
    using legal_loop_paren islegal_types by metis
  then have "expr e tokens m = bnd (expr_eval ts1 0 (int n - 1) True m) (\<lambda>(result, error_flag, m1).
        Inr (result, error_flag, ts1, m1))"
    using tk by (simp add: expr_def ts1_def Let_def)
  then show ?thesis using ev by (auto simp: eval_result_def split: option.splits)
qed
lemma same_types: "list_all2 (\<lambda>t x. same_tok (unmark (ttype x)) t x) ys xs \<Longrightarrow> map ttype ys = map (unmark \<circ> ttype) xs"
  by (induction ys xs rule: list_all2_induct) (simp_all add: same_tok_def)

lemma same_retyped:
  "list_all2 (\<lambda>t x. same_tok (unmark (ttype x)) t x) ys xs \<Longrightarrow> map ttype zs = map ttype xs \<Longrightarrow> map tstr zs = map tstr ys \<Longrightarrow>
    list_all2 (\<lambda>t x. same_tok (ttype x) t x) zs xs"
  by (induction ys xs arbitrary: zs rule: list_all2_induct) (auto simp: same_tok_def map_eq_Cons_conv)

lemma lex_ok: "(\<And>r. r \<in> reg_names e \<Longrightarrow> reg_name_ok r) \<Longrightarrow> list_all tok_ok (lex e)"
proof (induction e)
  case (Num n)
  have "\<exists>k < 2 ^ 32. dec (unat n) = dec k" using u32_less_4G [of n] by (intro exI [of _ "unat n"]) simp
  then show ?case by (simp add: tok_ok_def)
next
  case (Bin b l r)
  have "tok_ok (punct (op_tok b))" by (cases b) (simp_all add: tok_ok_def punct_def op_tok_def)
  then show ?case using Bin by (simp add: group_def tok_ok_def punct_def)
qed (simp_all add: tok_ok_def group_def punct_def)

lemma expr_printed:
  assumes "length tokens = MAX_TOKENS" "length (lex e) < MAX_TOKENS"
    and "\<And>r. r \<in> reg_names e \<Longrightarrow> reg_name_ok r"
  shows "\<exists>ts. case sem e m of Some v \<Rightarrow> expr (text_of (lex e)) tokens m = Inr (v, True, ts, m)
    | None \<Rightarrow> \<exists>v. expr (text_of (lex e)) tokens m = Inr (v, False, ts, m)"
proof -
  obtain ts where ts: "make_token (text_of (lex e)) tokens = Inr (True, ts, length (lex e))" "length ts = MAX_TOKENS"
      "list_all2 (\<lambda>t x. same_tok (unmark (ttype x)) t x) (take (length (lex e)) ts) (lex e)"
    using tokens_read [OF lex_ok [OF assms(3)], where n = 0 and ts = tokens] assms by (auto simp: make_token_def)
  let ?n = "length (lex e)"
  define ts1 where "ts1 = deref_loop 0 ?n ts"
  have "map ttype (take ?n ts) = map (unmark \<circ> ttype) (lex e)" using ts(3) by (rule same_types)
  then have "map ttype (take ?n ts1) = marked True (map (unmark \<circ> ttype) (lex e))"
    using deref_loop_marked [of 0 ?n ts] ts(2) assms(2) by (simp add: ts1_def)
  also have "\<dots> = map ttype (lex e)" using gr_marked [OF lex_gr, of e "[]"] by simp
  finally have "map ttype (take ?n ts1) = map ttype (lex e)" .
  moreover have "map tstr (take ?n ts1) = map tstr (take ?n ts)"
    by (simp add: take_map [symmetric] ts1_def)
  ultimately have "list_all2 (\<lambda>t x. same_tok (ttype x) t x) (take ?n ts1) (lex e)"
    using same_retyped ts(3) by blast
  then have "gr (level e) (take ?n ts1) e" by (rule gr_same [OF lex_gr])
  then show ?thesis using expr_of_gr [OF ts(1) assms(1)] unfolding ts1_def by blast
qed

text \<open>
  C15. Round trip of the debugger's expressions. Every expression, printed with no more parentheses than C's
  precedences and left grouping need, is read back by \<open>expr\<close> as that expression: tokeniser, dereference
  marking, parenthesis checks, main-operator search and evaluation together return the value the
  expression means with the success flag set, and clear the flag exactly when it has none (a zero divisor,
  an unknown register, an address outside the memory). The machine is unchanged.
\<close>

theorem expr_reads_printed:
  assumes "length tokens = MAX_TOKENS" "length (lex e) < MAX_TOKENS"
    and "\<And>r. r \<in> reg_names e \<Longrightarrow> reg_name_ok r"
  shows "\<exists>ts. case sem e m of Some v \<Rightarrow> expr (text_of (lex e)) tokens m = Inr (v, True, ts, m)
    | None \<Rightarrow> \<exists>v. expr (text_of (lex e)) tokens m = Inr (v, False, ts, m)"
  using assms by (rule expr_printed)

definition fresh_tokens :: "Token list" where
  "fresh_tokens = replicate MAX_TOKENS \<lparr>ttype = 0, tstr = []\<rparr>"

definition sample_expr :: ast where
  "sample_expr = Bin Mul (Bin Add (Num 1) (Num 20)) (Bin Sub (Reg ''a0'') (Num 3))"

lemma sample_text: "text_of (lex sample_expr) = ''( 1 + 20 ) * ( $a0 - 3 ) ''"
  by (simp add: sample_expr_def text_of_def group_def prio_def op_tok_def punct_def spell_def tk_defs dec.simps digit_chars)

lemma sample_sem: "sem sample_expr (booted Riscv32 0 div_regs) = Some (-210)"
  by (simp add: sample_expr_def bop_val_def reg_str2val_def isa_reg_str2val_def regsl_def booted_def static_start_def
      div_regs_def numeral_eq_Suc)

theorem expr_reads_printed_witness:
  "\<exists>ts. expr ''( 1 + 20 ) * ( $a0 - 3 ) '' fresh_tokens (booted Riscv32 0 div_regs) =
     Inr (-210, True, ts, booted Riscv32 0 div_regs)"
proof -
  have "reg_name_ok r" if "r \<in> reg_names sample_expr" for r
    using that by (simp add: sample_expr_def reg_name_ok_def is_alpha_c_def is_digit_c_def)
  moreover have "length (lex sample_expr) < MAX_TOKENS" "length fresh_tokens = MAX_TOKENS"
    by (simp_all add: sample_expr_def fresh_tokens_def group_def prio_def MAX_TOKENS_def)
  ultimately show ?thesis
    using expr_reads_printed [of fresh_tokens sample_expr "booted Riscv32 0 div_regs"]
    by (simp add: sample_text sample_sem)
qed

lemma expr_returns:
  assumes "length tokens = MAX_TOKENS"
  shows "\<exists>v ok ts. expr e tokens m = Inr (v, ok, ts, m) \<and> length ts = MAX_TOKENS"
proof -
  obtain ok ts n where t: "make_token e tokens = Inr (ok, ts, n)" "n \<le> MAX_TOKENS" "length ts = MAX_TOKENS"
    using make_token_loop_total [of 0 tokens e] assms by (auto simp: make_token_def)
  show ?thesis
  proof (cases "ok \<and> islegal_parentheses ts 0 (int n - 1)")
    case True
    then have "parens_ok ts n" using t by (simp add: parens_ok_def islegal_types)
    then have "parens_ok (deref_loop 0 n ts) n" by (rule parens_ok_deref)
    then obtain v f where "expr_eval (deref_loop 0 n ts) 0 (int n - 1) True m = Inr (v, f, m)"
      using expr_eval_total [of "deref_loop 0 n ts" n 0 "int n - 1" True m] by auto
    then show ?thesis using t True by (simp add: expr_def Let_def)
  qed (use t in \<open>auto simp: expr_def\<close>)
qed

text \<open>
  C16. The evaluator never crashes the monitor: for every text the user types, the tokeniser, the searches
  and the evaluation return (no assertion, no index past the 32 tokens, no read outside the memory), with a
  value and a flag, and the machine is unchanged.
\<close>

theorem expr_total:
  assumes "length tokens = MAX_TOKENS"
  shows "\<exists>v ok ts. expr e tokens m = Inr (v, ok, ts, m) \<and> length ts = MAX_TOKENS"
  using assms by (rule expr_returns)

text \<open>The witness is an unbalanced text.\<close>

theorem expr_total_witness:
  "\<exists>v ok ts. expr ''((1+'' fresh_tokens (booted Riscv32 0 div_regs) = Inr (v, ok, ts, booted Riscv32 0 div_regs) \<and>
     length ts = MAX_TOKENS"
  using expr_total [of fresh_tokens "''((1+''" "booted Riscv32 0 div_regs"] by (simp add: fresh_tokens_def)

text \<open>
  The zero register of riscv32 is in the table of names as \<open>$0\<close>, but the evaluator looks a register up
  without its dollar sign: it cannot be read.
\<close>

lemma zero_register_unreadable: "reg_str2val (drop 1 ''$0'') m True = (v, ok) \<Longrightarrow> isa m = Riscv32 \<Longrightarrow> \<not> ok"
  by (auto simp: reg_str2val_def isa_reg_str2val_def regsl_def split: option.splits)

end
