(* ===== verification/Watchpoint.thy ===== *)
theory Watchpoint
  imports NemuPrelude
begin

text \<open>
  The watchpoint pool of \<open>nemu/src/monitor/debug/watchpoint.c\<close>: 32 static nodes threaded on two
  linked lists, the active ones from \<open>head\<close> and the unused ones from \<open>free_\<close>. A pointer to a node is
  its index in \<open>wp_pool\<close>, \<open>NULL\<close> is \<open>None\<close>; a pointer to a pointer (\<open>WP **\<close>) is a \<open>wp_loc\<close>. The
  abstraction is the list of the active watchpoints' number, value and text, newest first.
\<close>

definition NR_WP :: nat where "NR_WP = 32"

record WP =
  wp_NO :: int
  wp_next :: "nat option"
  wp_val :: u32
  wp_what :: "string option"

record wp_state =
  wp_pool :: "WP list"
  wp_head :: "nat option"
  wp_free :: "nat option"

datatype wp_loc = Loc_head | Loc_free | Loc_next nat

section \<open>Operations\<close>

definition init_wp_pool :: "wp_state \<Rightarrow> wp_state" where
  "init_wp_pool st =
     \<lparr>wp_pool = map (\<lambda>i. (wp_pool st ! i)
        \<lparr>wp_NO := int i, wp_next := (if i = NR_WP - 1 then None else Some (i + 1))\<rparr>) [0 ..< NR_WP],
      wp_head = None, wp_free = Some 0\<rparr>"

fun loc_get :: "wp_loc \<Rightarrow> wp_state \<Rightarrow> nat option" where
  "loc_get Loc_head st = wp_head st"
| "loc_get Loc_free st = wp_free st"
| "loc_get (Loc_next i) st = wp_next (wp_pool st ! i)"

fun loc_set :: "wp_loc \<Rightarrow> nat option \<Rightarrow> wp_state \<Rightarrow> wp_state" where
  "loc_set Loc_head p st = st\<lparr>wp_head := p\<rparr>"
| "loc_set Loc_free p st = st\<lparr>wp_free := p\<rparr>"
| "loc_set (Loc_next i) p st = st\<lparr>wp_pool := (wp_pool st)[i := (wp_pool st ! i)\<lparr>wp_next := p\<rparr>]\<rparr>"

text \<open>
  \<open>element_exchange\<close> moves the first node of the list at \<open>src_list_p\<close> to the front of the list at
  \<open>dest_list_p\<close>. A null source is a null dereference.
\<close>

definition element_exchange :: "wp_loc \<Rightarrow> wp_loc \<Rightarrow> wp_state \<Rightarrow> fault + wp_state" where
  "element_exchange dest_list_p src_list_p st =
     (case loc_get src_list_p st of
        None \<Rightarrow> Inl Out_Of_Bounds
      | Some target \<Rightarrow>
          (let st1 = loc_set src_list_p (wp_next (wp_pool st ! target)) st;
               st2 = loc_set (Loc_next target) (loc_get dest_list_p st1) st1
           in Inr (loc_set dest_list_p (Some target) st2)))"

definition upd_wp :: "nat \<Rightarrow> (WP \<Rightarrow> WP) \<Rightarrow> wp_state \<Rightarrow> wp_state" where
  "upd_wp i f st = st\<lparr>wp_pool := (wp_pool st)[i := f (wp_pool st ! i)]\<rparr>"

definition new_wp :: "wp_state \<Rightarrow> fault + (nat \<times> wp_state)" where
  "new_wp st =
     bnd (c_assert (wp_free st \<noteq> None)) (\<lambda>_.
     bnd (element_exchange Loc_head Loc_free st) (\<lambda>st1.
     case wp_head st1 of
       None \<Rightarrow> Inl Out_Of_Bounds
     | Some h \<Rightarrow> Inr (h, upd_wp h (\<lambda>w. w\<lparr>wp_what := None\<rparr>) st1)))"

text \<open>
  The loop of \<open>free_wp\<close> follows \<open>next\<close> pointers; \<open>front\<close> is the place that points at \<open>current\<close>. The
  result says whether the number was found; releasing the text with \<open>free\<close> leaves the field as it is.
\<close>

partial_function (option) free_wp_loop ::
    "int \<Rightarrow> wp_loc \<Rightarrow> nat option \<Rightarrow> wp_state \<Rightarrow> (fault + (bool \<times> wp_state)) option" where
  "free_wp_loop n front current st =
     (case current of
        None \<Rightarrow> Some (Inr (False, st))
      | Some i \<Rightarrow>
          (if wp_NO (wp_pool st ! i) = n
           then Some (bnd (element_exchange Loc_free front st) (\<lambda>st1. Inr (True, st1)))
           else free_wp_loop n (Loc_next i) (wp_next (wp_pool st ! i)) st))"

definition free_wp :: "int \<Rightarrow> wp_state \<Rightarrow> (fault + (bool \<times> wp_state)) option" where
  "free_wp n st = free_wp_loop n Loc_head (wp_head st) st"

definition get_next_wp :: "nat option \<Rightarrow> wp_state \<Rightarrow> nat option" where
  "get_next_wp wp st = (case wp of None \<Rightarrow> wp_head st | Some i \<Rightarrow> wp_next (wp_pool st ! i))"

text \<open>What \<open>cmd_w\<close> of ui.c does with the node it gets.\<close>

definition set_wp :: "int \<Rightarrow> u32 \<Rightarrow> string \<Rightarrow> wp_state \<Rightarrow> fault + wp_state" where
  "set_wp seq v args st =
     bnd (new_wp st) (\<lambda>(i, st1).
     Inr (upd_wp i (\<lambda>w. w\<lparr>wp_NO := seq, wp_val := v, wp_what := Some args\<rparr>) st1))"

section \<open>Linked lists\<close>

text \<open>\<open>chain nx p xs\<close>: following \<open>nx\<close> from \<open>p\<close> visits exactly \<open>xs\<close> and ends in \<open>NULL\<close>.\<close>

fun chain :: "(nat \<Rightarrow> nat option) \<Rightarrow> nat option \<Rightarrow> nat list \<Rightarrow> bool" where
  "chain nx p [] \<longleftrightarrow> p = None"
| "chain nx p (x # xs) \<longleftrightarrow> p = Some x \<and> chain nx (nx x) xs"

lemma chain_cong: "(\<And>x. x \<in> set xs \<Longrightarrow> nx x = nx' x) \<Longrightarrow> chain nx p xs = chain nx' p xs"
  by (induction xs arbitrary: p) auto

lemma chain_upd [simp]: "i \<notin> set xs \<Longrightarrow> chain (nx(i := v)) p xs = chain nx p xs"
  by (rule chain_cong) auto

lemma chain_hd: "chain nx p xs \<Longrightarrow> xs \<noteq> [] \<Longrightarrow> p = Some (hd xs)"
  by (cases xs) auto

lemma chain_unique: "chain nx p xs \<Longrightarrow> chain nx p ys \<Longrightarrow> xs = ys"
proof (induction xs arbitrary: p ys)
  case (Cons x xs)
  then show ?case by (cases ys) auto
next
  case Nil
  then show ?case by (cases ys) auto
qed

definition nexts :: "wp_state \<Rightarrow> nat \<Rightarrow> nat option" where
  "nexts st i = wp_next (wp_pool st ! i)"

lemma nth_update_any: "xs[i := w] ! x = (if x = i \<and> i < length xs then w else xs ! x)"
  by (cases "i < length xs") (auto simp: list_update_beyond)

definition wp_rel :: "wp_state \<Rightarrow> nat list \<Rightarrow> nat list \<Rightarrow> bool" where
  "wp_rel st hs fs \<longleftrightarrow> length (wp_pool st) = NR_WP \<and> chain (nexts st) (wp_head st) hs \<and>
     chain (nexts st) (wp_free st) fs \<and> distinct (hs @ fs) \<and> set (hs @ fs) = {0 ..< NR_WP}"

definition wp_entry :: "wp_state \<Rightarrow> nat \<Rightarrow> int \<times> u32 \<times> string option" where
  "wp_entry st i = (let w = wp_pool st ! i in (wp_NO w, wp_val w, wp_what w))"

lemma wp_rel_count: "wp_rel st hs fs \<Longrightarrow> length hs + length fs = NR_WP"
  by (metis wp_rel_def distinct_card card_atLeastLessThan diff_zero length_append)

lemma wp_rel_free: "wp_rel st hs fs \<Longrightarrow> wp_free st = None \<longleftrightarrow> length hs = NR_WP"
  using wp_rel_count [of st hs fs] by (cases fs) (auto simp: wp_rel_def)

lemma chain_upt: "(\<And>i. i \<in> set [k ..< n] \<Longrightarrow> nx i = (if i = n - 1 then None else Some (i + 1))) \<Longrightarrow> k < n \<Longrightarrow>
    chain nx (Some k) [k ..< n]"
proof (induction "n - k" arbitrary: k)
  case (Suc d)
  show ?case
  proof (cases "Suc k = n")
    case True
    then show ?thesis using Suc.prems(1) [of k] Suc.prems(2) by (simp add: upt_conv_Cons)
  next
    case False
    then have "chain nx (Some (Suc k)) [Suc k ..< n]" using Suc by (intro Suc.hyps) auto
    moreover have "nx k = Some (k + 1)" using Suc.prems(1) [of k] Suc.prems(2) False by simp
    ultimately show ?thesis using Suc.prems(2) by (simp add: upt_conv_Cons)
  qed
qed simp

lemma init_wp_pool_rel: "wp_rel (init_wp_pool st) [] [0 ..< NR_WP]"
proof -
  have "chain (nexts (init_wp_pool st)) (Some 0) [0 ..< NR_WP]"
    by (rule chain_upt) (auto simp: nexts_def init_wp_pool_def NR_WP_def)
  then show ?thesis by (auto simp: wp_rel_def init_wp_pool_def)
qed

section \<open>Refinement of the operations\<close>

lemma new_wp_rel:
  assumes "wp_rel st hs (f # fs)"
  shows "\<exists>st'. new_wp st = Inr (f, st') \<and> wp_rel st' (f # hs) fs \<and>
    (\<forall>i. i \<noteq> f \<longrightarrow> wp_entry st' i = wp_entry st i)"
proof -
  have a: "wp_free st = Some f" "f < length (wp_pool st)" "chain (nexts st) (nexts st f) fs"
    "chain (nexts st) (wp_head st) hs" "f \<notin> set hs" "f \<notin> set fs"
    using assms by (auto simp: wp_rel_def)
  let ?w = "(wp_pool st ! f)\<lparr>wp_next := wp_head st, wp_what := None\<rparr>"
  let ?st = "st\<lparr>wp_pool := (wp_pool st)[f := ?w], wp_head := Some f, wp_free := wp_next (wp_pool st ! f)\<rparr>"
  have "new_wp st = Inr (f, ?st)"
    using a(1,2) by (simp add: new_wp_def element_exchange_def upd_wp_def Let_def)
  moreover have "chain (nexts ?st) (wp_next (wp_pool st ! f)) fs"
    using a(3,6) by (subst chain_cong [of _ _ "nexts st"]) (auto simp: nexts_def nth_update_any)
  moreover have "chain (nexts ?st) (wp_head st) hs"
    using a(4,5) by (subst chain_cong [of _ _ "nexts st"]) (auto simp: nexts_def nth_update_any)
  moreover have "nexts ?st f = wp_head st" using a(2) by (simp add: nexts_def)
  ultimately show ?thesis
    using assms by (intro exI [of _ ?st]) (auto simp: wp_rel_def wp_entry_def)
qed

lemma set_wp_rel:
  assumes "wp_rel st hs fs"
  shows "if length hs = NR_WP then set_wp seq v args st = Inl Assert_Fail
    else \<exists>st' f fs'. set_wp seq v args st = Inr st' \<and> fs = f # fs' \<and> wp_rel st' (f # hs) fs' \<and>
      map (wp_entry st') (f # hs) = (seq, v, Some args) # map (wp_entry st) hs"
proof (cases fs)
  case Nil
  then have "wp_free st = None" using assms by (simp add: wp_rel_def)
  then show ?thesis using wp_rel_free [OF assms] by (simp add: set_wp_def new_wp_def)
next
  case (Cons f fs')
  then obtain st1 where st1: "new_wp st = Inr (f, st1)" "wp_rel st1 (f # hs) fs'"
    "\<And>i. i \<noteq> f \<Longrightarrow> wp_entry st1 i = wp_entry st i"
    using new_wp_rel assms by blast
  let ?st = "upd_wp f (\<lambda>w. w\<lparr>wp_NO := seq, wp_val := v, wp_what := Some args\<rparr>) st1"
  have f: "f < length (wp_pool st1)" "f \<notin> set hs" using st1(2) by (auto simp: wp_rel_def)
  have "nexts ?st = nexts st1" by (rule ext) (simp add: nexts_def upd_wp_def nth_update_any)
  then have "wp_rel ?st (f # hs) fs'" using st1(2) by (simp add: wp_rel_def upd_wp_def)
  moreover have "wp_entry ?st f = (seq, v, Some args)"
    using f(1) by (simp add: wp_entry_def upd_wp_def)
  moreover have "wp_entry ?st i = wp_entry st i" if "i \<in> set hs" for i
  proof -
    have "i \<noteq> f" using that f(2) by auto
    then have "wp_entry ?st i = wp_entry st1 i" by (simp add: wp_entry_def upd_wp_def)
    then show ?thesis using st1(3) \<open>i \<noteq> f\<close> by simp
  qed
  moreover have "length hs \<noteq> NR_WP" using wp_rel_count [OF assms] Cons by simp
  ultimately show ?thesis using st1(1) Cons by (simp add: set_wp_def)
qed

text \<open>The place that points at the node after \<open>ps\<close>.\<close>

definition front_of :: "nat list \<Rightarrow> wp_loc" where
  "front_of ps = (if ps = [] then Loc_head else Loc_next (last ps))"

lemma chain_append: "chain nx p (ps @ qs) \<longleftrightarrow>
    (if ps = [] then chain nx p qs else p = Some (hd ps) \<and> chain (nx(last ps := None)) p ps \<and> chain nx (nx (last ps)) qs)"
  if "distinct ps"
  using that
proof (induction ps arbitrary: p)
  case (Cons x ps)
  show ?case
  proof (cases "ps = []")
    case False
    then have "x \<noteq> last ps" using Cons.prems by auto
    then show ?thesis using Cons.IH [of "nx x"] Cons.prems False chain_hd [of _ "nx x" ps] by auto
  qed auto
qed simp

lemma exchange_front:
  assumes "wp_rel st (ps @ i # qs) fs"
  shows "\<exists>st'. element_exchange Loc_free (front_of ps) st = Inr st' \<and> wp_rel st' (ps @ qs) (i # fs) \<and>
    wp_entry st' = wp_entry st"
proof -
  let ?nx = "nexts st"
  have d: "distinct ps" "i \<notin> set ps" "i \<notin> set qs" "i \<notin> set fs" "set ps \<inter> set qs = {}" "set ps \<inter> set fs = {}"
      "length (wp_pool st) = NR_WP" "i < NR_WP" "set (ps @ i # qs @ fs) = {0 ..< NR_WP}" "distinct (ps @ qs @ fs)"
    using assms by (auto simp: wp_rel_def)
  have c: "chain ?nx (wp_free st) fs" "chain ?nx (?nx i) qs" "chain ?nx (wp_head st) (ps @ i # qs)"
    using assms chain_append [of ps ?nx "wp_head st" "i # qs"] d(1) by (auto simp: wp_rel_def split: if_splits)
  show ?thesis
  proof (cases "ps = []")
    case True
    let ?st = "st\<lparr>wp_pool := (wp_pool st)[i := (wp_pool st ! i)\<lparr>wp_next := wp_free st\<rparr>],
        wp_head := wp_next (wp_pool st ! i), wp_free := Some i\<rparr>"
    have "element_exchange Loc_free (front_of ps) st = Inr ?st"
      using True c(3) by (simp add: element_exchange_def front_of_def Let_def)
    moreover have "nexts ?st = ?nx(i := wp_free st)"
      using d(7,8) by (auto simp: nexts_def nth_update_any)
    then have "wp_rel ?st (ps @ qs) (i # fs)"
      using True c d by (auto simp: wp_rel_def nexts_def [of st i, symmetric])
    moreover have "wp_entry ?st = wp_entry st" by (rule ext) (auto simp: wp_entry_def nth_update_any Let_def)
    ultimately show ?thesis by blast
  next
    case False
    let ?l = "last ps"
    have l: "?l \<in> set ps" "?l < NR_WP" "?l \<noteq> i" using False d by auto
    have li: "?nx ?l = Some i" and hd: "wp_head st = Some (hd ps)" "chain (?nx(?l := None)) (wp_head st) ps"
      using c(3) chain_append [OF d(1), of ?nx "wp_head st" "i # qs"] False by auto
    let ?p1 = "(wp_pool st)[?l := (wp_pool st ! ?l)\<lparr>wp_next := wp_next (wp_pool st ! i)\<rparr>]"
    let ?st = "st\<lparr>wp_pool := ?p1[i := (wp_pool st ! i)\<lparr>wp_next := wp_free st\<rparr>], wp_free := Some i\<rparr>"
    have e: "element_exchange Loc_free (front_of ps) st = Inr ?st"
      using False li l(3) by (simp add: element_exchange_def front_of_def Let_def nexts_def)
    have nx: "nexts ?st = ?nx(?l := ?nx i, i := wp_free st)"
      using d(7,8) l by (auto simp: nexts_def nth_update_any)
    have "chain (?nx(?l := ?nx i, i := wp_free st)) (?nx i) qs"
      using c(2) d l by (subst chain_cong [of _ _ ?nx]) auto
    moreover have "chain (?nx(?l := ?nx i, i := wp_free st, ?l := None)) (wp_head st) ps"
      using hd(2) d l by (subst chain_cong [of _ _ "?nx(?l := None)"]) auto
    ultimately have "chain (nexts ?st) (wp_head st) (ps @ qs)"
      unfolding nx using hd(1) chain_append [OF d(1)] False l(3) by simp
    moreover have "chain (nexts ?st) (wp_free st) fs"
      unfolding nx using c(1) d l by (subst chain_cong [of _ _ ?nx]) auto
    ultimately have "wp_rel ?st (ps @ qs) (i # fs)"
      using d by (auto simp: wp_rel_def nx)
    moreover have "wp_entry ?st = wp_entry st" by (rule ext) (auto simp: wp_entry_def nth_update_any Let_def)
    ultimately show ?thesis using e by blast
  qed
qed

text \<open>Where the loop stops: nowhere, or at the first active watchpoint with the number.\<close>

definition stops_at :: "wp_state \<Rightarrow> int \<Rightarrow> nat list \<Rightarrow> nat list \<Rightarrow> nat \<Rightarrow> nat list \<Rightarrow> bool" where
  "stops_at st n qs us i vs \<longleftrightarrow>
     qs = us @ i # vs \<and> (\<forall>j \<in> set us. wp_NO (wp_pool st ! j) \<noteq> n) \<and> wp_NO (wp_pool st ! i) = n"

lemma stops_at_Cons: "wp_NO (wp_pool st ! k) \<noteq> n \<Longrightarrow> stops_at st n qs us i vs \<Longrightarrow> stops_at st n (k # qs) (k # us) i vs"
  by (simp add: stops_at_def)

lemma free_wp_loop_rel:
  assumes "wp_rel st (ps @ qs) fs"
  shows "(\<forall>j \<in> set qs. wp_NO (wp_pool st ! j) \<noteq> n) \<and>
      free_wp_loop n (front_of ps) (if qs = [] then None else Some (hd qs)) st = Some (Inr (False, st))
    \<or> (\<exists>us i vs st'. stops_at st n qs us i vs \<and>
      free_wp_loop n (front_of ps) (if qs = [] then None else Some (hd qs)) st = Some (Inr (True, st')) \<and>
      wp_rel st' (ps @ us @ vs) (i # fs) \<and> wp_entry st' = wp_entry st)"
  using assms
proof (induction qs arbitrary: ps)
  case Nil
  then show ?case by (subst free_wp_loop.simps) auto
next
  case (Cons i qs)
  have d: "distinct (ps @ i # qs)" using Cons.prems by (auto simp: wp_rel_def)
  show ?case
  proof (cases "wp_NO (wp_pool st ! i) = n")
    case True
    obtain st' where st': "element_exchange Loc_free (front_of ps) st = Inr st'" "wp_rel st' (ps @ qs) (i # fs)"
        "wp_entry st' = wp_entry st"
      using exchange_front [OF Cons.prems] by blast
    have "free_wp_loop n (front_of ps) (Some i) st = Some (Inr (True, st'))"
      using True st'(1) by (subst free_wp_loop.simps) simp
    moreover have "stops_at st n (i # qs) [] i qs" using True by (simp add: stops_at_def)
    moreover have "wp_rel st' (ps @ [] @ qs) (i # fs)" using st'(2) by simp
    ultimately have "\<exists>us k vs st'. stops_at st n (i # qs) us k vs \<and>
        free_wp_loop n (front_of ps) (Some i) st = Some (Inr (True, st')) \<and>
        wp_rel st' (ps @ us @ vs) (k # fs) \<and> wp_entry st' = wp_entry st"
      using st'(3) by blast
    then show ?thesis by simp
  next
    case False
    have "nexts st i = (if qs = [] then None else Some (hd qs))"
      using Cons.prems chain_append [of "ps @ [i]" "nexts st" "wp_head st" qs] d
      by (cases qs) (auto simp: wp_rel_def)
    then have step: "free_wp_loop n (front_of ps) (Some i) st =
        free_wp_loop n (front_of (ps @ [i])) (if qs = [] then None else Some (hd qs)) st"
      using False by (subst free_wp_loop.simps) (simp add: front_of_def nexts_def)
    have "wp_rel st ((ps @ [i]) @ qs) fs" using Cons.prems by simp
    from Cons.IH [OF this] show ?thesis
    proof (elim disjE)
      assume "(\<forall>j \<in> set qs. wp_NO (wp_pool st ! j) \<noteq> n) \<and>
        free_wp_loop n (front_of (ps @ [i])) (if qs = [] then None else Some (hd qs)) st = Some (Inr (False, st))"
      then show ?thesis using False step by simp
    next
      assume "\<exists>us k vs st'. stops_at st n qs us k vs \<and>
        free_wp_loop n (front_of (ps @ [i])) (if qs = [] then None else Some (hd qs)) st = Some (Inr (True, st')) \<and>
        wp_rel st' ((ps @ [i]) @ us @ vs) (k # fs) \<and> wp_entry st' = wp_entry st"
      then obtain us k vs st' where r: "stops_at st n qs us k vs"
        "free_wp_loop n (front_of (ps @ [i])) (if qs = [] then None else Some (hd qs)) st = Some (Inr (True, st'))"
        "wp_rel st' (ps @ (i # us) @ vs) (k # fs)" "wp_entry st' = wp_entry st" by auto
      have "stops_at st n (i # qs) (i # us) k vs" using False r(1) by (rule stops_at_Cons)
      then have "\<exists>us k vs st'. stops_at st n (i # qs) us k vs \<and>
          free_wp_loop n (front_of ps) (Some i) st = Some (Inr (True, st')) \<and>
          wp_rel st' (ps @ us @ vs) (k # fs) \<and> wp_entry st' = wp_entry st"
        using r(2-4) step by metis
      then show ?thesis by simp
    qed
  qed
qed

section \<open>The pool as a list of watchpoints\<close>

text \<open>
  The contract of the pool: a bounded list of numbered entries, with insertion at the front and
  deletion by number.
\<close>

type_synonym wp_list = "(int \<times> u32 \<times> string option) list"

definition wp_abs :: "wp_state \<Rightarrow> wp_list \<Rightarrow> bool" where
  "wp_abs st xs \<longleftrightarrow> (\<exists>hs fs. wp_rel st hs fs \<and> xs = map (wp_entry st) hs)"

fun remove_NO :: "int \<Rightarrow> wp_list \<Rightarrow> wp_list" where
  "remove_NO n [] = []"
| "remove_NO n (x # xs) = (if fst x = n then xs else x # remove_NO n xs)"

lemma remove_NO_append: "(\<forall>x \<in> set xs. fst x \<noteq> n) \<Longrightarrow> fst y = n \<Longrightarrow> remove_NO n (xs @ y # ys) = xs @ ys"
  by (induction xs) auto

lemma remove_NO_absent: "(\<forall>x \<in> set xs. fst x \<noteq> n) \<Longrightarrow> remove_NO n xs = xs"
  by (induction xs) auto

lemma wp_abs_init: "wp_abs (init_wp_pool st) []"
  unfolding wp_abs_def using init_wp_pool_rel by auto

lemma wp_abs_length: "wp_abs st xs \<Longrightarrow> length xs \<le> NR_WP"
  using wp_rel_count by (force simp: wp_abs_def)

lemma wp_abs_set:
  assumes "wp_abs st xs"
  shows "length xs = NR_WP \<Longrightarrow> set_wp seq v w st = Inl Assert_Fail"
    and "length xs < NR_WP \<Longrightarrow> \<exists>st'. set_wp seq v w st = Inr st' \<and> wp_abs st' ((seq, v, Some w) # xs)"
proof -
  obtain hs fs where r: "wp_rel st hs fs" "xs = map (wp_entry st) hs" using assms by (auto simp: wp_abs_def)
  show "length xs = NR_WP \<Longrightarrow> set_wp seq v w st = Inl Assert_Fail"
    using set_wp_rel [OF r(1), of seq v w] r(2) by simp
  assume "length xs < NR_WP"
  then obtain st' f fs' where "set_wp seq v w st = Inr st'" "wp_rel st' (f # hs) fs'"
      "map (wp_entry st') (f # hs) = (seq, v, Some w) # xs"
    using set_wp_rel [OF r(1), of seq v w] r(2) by auto
  then show "\<exists>st'. set_wp seq v w st = Inr st' \<and> wp_abs st' ((seq, v, Some w) # xs)"
    unfolding wp_abs_def by metis
qed

lemma wp_abs_free:
  assumes "wp_abs st xs"
  shows "\<exists>st'. free_wp n st = Some (Inr (n \<in> fst ` set xs, st')) \<and> wp_abs st' (remove_NO n xs)"
proof -
  obtain hs fs where r: "wp_rel st hs fs" "xs = map (wp_entry st) hs" using assms by (auto simp: wp_abs_def)
  have e: "fst (wp_entry st j) = wp_NO (wp_pool st ! j)" for j by (simp add: wp_entry_def Let_def)
  have "wp_head st = (if hs = [] then None else Some (hd hs))"
    using r(1) by (cases hs) (auto simp: wp_rel_def)
  then have f: "free_wp n st = free_wp_loop n (front_of []) (if hs = [] then None else Some (hd hs)) st"
    by (simp add: free_wp_def front_of_def)
  have "wp_rel st ([] @ hs) fs" using r(1) by simp
  from free_wp_loop_rel [OF this, of n] show ?thesis
  proof (elim disjE)
    assume a: "(\<forall>j \<in> set hs. wp_NO (wp_pool st ! j) \<noteq> n) \<and>
      free_wp_loop n (front_of []) (if hs = [] then None else Some (hd hs)) st = Some (Inr (False, st))"
    then have "\<forall>x \<in> set xs. fst x \<noteq> n" using r(2) e by auto
    then show ?thesis using a f assms by (auto simp: remove_NO_absent)
  next
    assume "\<exists>us i vs st'. stops_at st n hs us i vs \<and>
      free_wp_loop n (front_of []) (if hs = [] then None else Some (hd hs)) st = Some (Inr (True, st')) \<and>
      wp_rel st' ([] @ us @ vs) (i # fs) \<and> wp_entry st' = wp_entry st"
    then obtain us i vs st' where a: "stops_at st n hs us i vs" "free_wp n st = Some (Inr (True, st'))"
      "wp_rel st' (us @ vs) (i # fs)" "wp_entry st' = wp_entry st"
      using f by auto
    have "remove_NO n xs = map (wp_entry st) (us @ vs)"
      using a(1) r(2) e remove_NO_append [of "map (wp_entry st) us" n "wp_entry st i" "map (wp_entry st) vs"]
      by (simp add: stops_at_def)
    moreover have "n \<in> fst ` set xs" using a(1) r(2) e [of i] by (force simp: stops_at_def)
    ultimately show ?thesis using a(2-4) by (auto simp: wp_abs_def)
  qed
qed


section \<open>The debugger as the pool's client\<close>

text \<open>
  The two commands that change the pool once their arguments are parsed: \<open>w\<close>, with the value and the
  text of the expression, numbered by the static counter \<open>seq\<close>, and \<open>d\<close>.
\<close>

datatype wp_cmd = Cmd_w u32 string | Cmd_d int

fun watch_run ::
    "(int \<Rightarrow> u32 \<Rightarrow> string \<Rightarrow> 's \<Rightarrow> fault + 's) \<Rightarrow> (int \<Rightarrow> 's \<Rightarrow> (fault + (bool \<times> 's)) option) \<Rightarrow>
     wp_cmd list \<Rightarrow> int \<Rightarrow> 's \<Rightarrow> (fault + 's) option" where
  "watch_run add del [] seq st = Some (Inr st)"
| "watch_run add del (Cmd_w v w # cs) seq st =
     (case add seq v w st of
        Inl e \<Rightarrow> Some (Inl e)
      | Inr st1 \<Rightarrow> watch_run add del cs (seq + 1) st1)"
| "watch_run add del (Cmd_d n # cs) seq st =
     (case del n st of
        None \<Rightarrow> None
      | Some (Inl e) \<Rightarrow> Some (Inl e)
      | Some (Inr (_, st1)) \<Rightarrow> watch_run add del cs seq st1)"

text \<open>What the commands mean: \<open>None\<close> when more than \<open>cap\<close> watchpoints would be active.\<close>

fun watch_spec :: "nat \<Rightarrow> wp_cmd list \<Rightarrow> int \<Rightarrow> wp_list \<Rightarrow> wp_list option" where
  "watch_spec cap [] seq xs = Some xs"
| "watch_spec cap (Cmd_w v w # cs) seq xs =
     (if length xs < cap then watch_spec cap cs (seq + 1) ((seq, v, Some w) # xs) else None)"
| "watch_spec cap (Cmd_d n # cs) seq xs = watch_spec cap cs seq (remove_NO n xs)"

locale watch_list =
  fixes repr :: "'s \<Rightarrow> wp_list \<Rightarrow> bool"
    and cap :: nat
    and add :: "int \<Rightarrow> u32 \<Rightarrow> string \<Rightarrow> 's \<Rightarrow> fault + 's"
    and del :: "int \<Rightarrow> 's \<Rightarrow> (fault + (bool \<times> 's)) option"
  assumes bounded: "repr s xs \<Longrightarrow> length xs \<le> cap"
    and add_full: "repr s xs \<Longrightarrow> length xs = cap \<Longrightarrow> add n v w s = Inl Assert_Fail"
    and add_room: "repr s xs \<Longrightarrow> length xs < cap \<Longrightarrow> \<exists>s'. add n v w s = Inr s' \<and> repr s' ((n, v, Some w) # xs)"
    and del_entry: "repr s xs \<Longrightarrow> \<exists>s'. del n s = Some (Inr (n \<in> fst ` set xs, s')) \<and> repr s' (remove_NO n xs)"
begin

lemma run_simulates:
  "repr s xs \<Longrightarrow> case watch_spec cap cs seq xs of
      None \<Rightarrow> watch_run add del cs seq s = Some (Inl Assert_Fail)
    | Some ys \<Rightarrow> \<exists>s'. watch_run add del cs seq s = Some (Inr s') \<and> repr s' ys"
proof (induction cs arbitrary: seq xs s)
  case (Cons c cs)
  show ?case
  proof (cases c)
    case w: (Cmd_w v w)
    show ?thesis
    proof (cases "length xs < cap")
      case True
      then obtain s' where s': "add seq v w s = Inr s'" "repr s' ((seq, v, Some w) # xs)"
        using add_room Cons.prems by blast
      show ?thesis using Cons.IH [OF s'(2), of "seq + 1"] True s'(1) w by (simp split: option.splits)
    next
      case False
      then show ?thesis using add_full [OF Cons.prems] bounded [OF Cons.prems] w by (simp split: option.splits)
    qed
  next
    case (Cmd_d n)
    obtain s' where "del n s = Some (Inr (n \<in> fst ` set xs, s'))" "repr s' (remove_NO n xs)"
      using del_entry [OF Cons.prems] by blast
    then show ?thesis using Cons.IH [of s' "remove_NO n xs" seq] Cmd_d by (simp split: option.splits)
  qed
qed auto

end

interpretation pool: watch_list wp_abs NR_WP set_wp free_wp
  by unfold_locales (use wp_abs_length wp_abs_set wp_abs_free in blast)+

lemma remove_NO_subset: "set (remove_NO n xs) \<subseteq> set xs"
  by (induction xs) auto

lemma remove_NO_distinct: "distinct (map fst xs) \<Longrightarrow> distinct (map fst (remove_NO n xs))"
  using remove_NO_subset by (induction xs) fastforce+

lemma watch_spec_numbers:
  "watch_spec cap cs seq xs = Some ys \<Longrightarrow> distinct (map fst xs) \<Longrightarrow> (\<forall>x \<in> set xs. fst x < seq) \<Longrightarrow>
    distinct (map fst ys)"
proof (induction cap cs seq xs rule: watch_spec.induct)
  case (2 cap v w cs seq xs)
  then show ?case by (force split: if_splits)
next
  case (3 cap n cs seq xs)
  have "\<forall>x \<in> set (remove_NO n xs). fst x < seq" using "3.prems"(3) remove_NO_subset by blast
  then show ?case using 3 remove_NO_distinct [of xs n] by simp
qed simp

section \<open>Properties\<close>

text \<open>
  C14. The pool of 32 nodes behaves as a list of numbered watchpoints for every sequence of debugger
  commands: started from \<open>init_wp_pool\<close>, setting and deleting watchpoints always returns; the active
  nodes hold, newest first, exactly what was set and not deleted, with distinct numbers; deleting an
  unknown number changes nothing; and the 33rd simultaneous watchpoint dies in the assertion of \<open>new_wp\<close>.
\<close>

theorem watchpoints_refine_list:
  "case watch_spec NR_WP cs 0 [] of
     None \<Rightarrow> watch_run set_wp free_wp cs 0 (init_wp_pool st) = Some (Inl Assert_Fail)
   | Some ys \<Rightarrow> distinct (map fst ys) \<and>
       (\<exists>st'. watch_run set_wp free_wp cs 0 (init_wp_pool st) = Some (Inr st') \<and> wp_abs st' ys)"
  using pool.run_simulates [OF wp_abs_init, of cs 0 st] watch_spec_numbers [of NR_WP cs 0 "[]"]
  by (auto split: option.splits)

end
