(* ===== verification/Ui.thy ===== *)
theory Ui imports ExprProps Watchpoint CString begin

text \<open>
  The debugger's commands and its main loop, \<open>nemu/src/monitor/debug/ui.c\<close>, over the evaluator, the
  watchpoint pool and the engine. A command gets the text after its name, \<open>None\<close> for \<open>NULL\<close>; what
  \<open>strtok\<close> remembers is a component of the state. What the commands print is the list of messages in
  the state, newest last; the reports of errors inside \<open>expr\<close> and \<open>free_wp\<close> are left out. \<open>None\<close> as
  the result of a command stands for a command that never returns, as with the engine.

  \<open>readline\<close> is the list of lines the user types, each with the schedule of the host while the line's
  command runs.
\<close>

unbundle bit_operations_syntax

section \<open>The state\<close>

datatype ui_msg =
    Wp_none
  | Wp_header
  | Wp_line int "string option"
  | Reg_line string u32
  | Mem_line u32 u32
  | Eval_line u32
  | Wp_set int string
  | Help_line string
  | Try_help string
  | Not_numeric string
  | Too_much string
  | Unknown_option string
  | Unknown_command string
  | Cannot_access u32
  | Not_enough

record ui_state =
  u_mach :: machine
  u_wp :: wp_state
  u_seq :: int
  u_tokens :: "Token list"
  u_strtok :: string
  u_out :: "ui_msg list"

definition say :: "ui_msg list \<Rightarrow> ui_state \<Rightarrow> ui_state" where
  "say ms u = u\<lparr>u_out := u_out u @ ms\<rparr>"

text \<open>A command returns its int and the state, dies, or never returns.\<close>

type_synonym ui_result = "(fault + (int \<times> ui_state)) option"

definition ok :: "ui_state \<Rightarrow> ui_result" where
  "ok u = Some (Inr (0, u))"

text \<open>A call of \<open>strtok\<close> that continues the scan.\<close>

definition next_token :: "ui_state \<Rightarrow> string option \<times> ui_state" where
  "next_token u = (let (t, rest) = strtok (u_strtok u) in (t, u\<lparr>u_strtok := rest\<rparr>))"

section \<open>Display\<close>

partial_function (option) wp_display_loop :: "nat option \<Rightarrow> ui_state \<Rightarrow> ui_result" where
  "wp_display_loop current u =
     (case current of
        None \<Rightarrow> ok u
      | Some i \<Rightarrow>
          wp_display_loop (get_next_wp (Some i) (u_wp u))
            (say [Wp_line (wp_NO (wp_pool (u_wp u) ! i)) (wp_what (wp_pool (u_wp u) ! i))] u))"

definition wp_display :: "ui_state \<Rightarrow> ui_result" where
  "wp_display u =
     (case get_next_wp None (u_wp u) of
        None \<Rightarrow> ok (say [Wp_none] u)
      | Some i \<Rightarrow> wp_display_loop (Some i) (say [Wp_header] u))"

text \<open>\<open>isa_reg_display\<close> of riscv32 prints the 32 registers and \<open>pc\<close>; the bodies of the other two are empty.\<close>

definition isa_reg_display :: "machine \<Rightarrow> ui_msg list" where
  "isa_reg_display m =
     map (\<lambda>i. Reg_line (regsl ! i) (gpr (cpu m) ! i)) [0 ..< 32] @ [Reg_line ''pc'' (pc (cpu m))]"

definition reg_display :: "ui_state \<Rightarrow> ui_result" where
  "reg_display u = ok (if isa (u_mach u) = Riscv32 then say (isa_reg_display (u_mach u)) u else u)"

section \<open>The commands\<close>

definition run_cpu :: "exec_once \<Rightarrow> (nat \<Rightarrow> tick) \<Rightarrow> u64 \<Rightarrow> ui_state \<Rightarrow> ui_result" where
  "run_cpu ex ticks n u = obnd (cpu_exec ex ticks n (u_mach u)) (\<lambda>m. ok (u\<lparr>u_mach := m\<rparr>))"

definition cmd_c :: "exec_once \<Rightarrow> (nat \<Rightarrow> tick) \<Rightarrow> string option \<Rightarrow> ui_state \<Rightarrow> ui_result" where
  "cmd_c ex ticks args u = run_cpu ex ticks (-1) u"

text \<open>\<open>cmd_q\<close> frees every active node, but the nodes are elements of the static \<open>wp_pool\<close>.\<close>

definition cmd_q :: "string option \<Rightarrow> ui_state \<Rightarrow> ui_result" where
  "cmd_q args u =
     (case get_next_wp None (u_wp u) of
        None \<Rightarrow> Some (Inr (-1, u))
      | Some i \<Rightarrow> Some (Inl Bad_Free))"

text \<open>\<open>cmd_si\<close> starts \<open>strtok\<close> again at its arguments.\<close>

definition cmd_si :: "exec_once \<Rightarrow> (nat \<Rightarrow> tick) \<Rightarrow> string option \<Rightarrow> ui_state \<Rightarrow> ui_result" where
  "cmd_si ex ticks args u =
     (case args of
        None \<Rightarrow> run_cpu ex ticks 1 u
      | Some a \<Rightarrow>
          (case next_token (u\<lparr>u_strtok := a\<rparr>) of
             (None, u1) \<Rightarrow> run_cpu ex ticks 1 u1
           | (Some arg, u1) \<Rightarrow>
               (case scanf_llu arg of
                  None \<Rightarrow> ok (say [Not_numeric arg] u1)
                | Some (n, _) \<Rightarrow>
                    (case strtok_rest (u_strtok u1) of
                       None \<Rightarrow> run_cpu ex ticks n u1
                     | Some left \<Rightarrow>
                         (if scanf_ms left \<noteq> None then ok (say [Too_much left] (u1\<lparr>u_strtok := []\<rparr>))
                          else run_cpu ex ticks n (u1\<lparr>u_strtok := []\<rparr>))))))"

definition info_opt :: "(string \<times> (ui_state \<Rightarrow> ui_result)) list" where
  "info_opt = [(''r'', reg_display), (''w'', wp_display)]"

definition cmd_info :: "string option \<Rightarrow> ui_state \<Rightarrow> ui_result" where
  "cmd_info args u =
     (case next_token u of
        (None, u1) \<Rightarrow> ok (say [Try_help ''info''] u1)
      | (Some arg, u1) \<Rightarrow>
          (case next_token u1 of
             (Some _, u2) \<Rightarrow> ok (say [Try_help ''info''] u2)
           | (None, u2) \<Rightarrow>
               (case map_of info_opt arg of
                  Some handler \<Rightarrow> obnd (handler u2) (\<lambda>(_, u3). ok u3)
                | None \<Rightarrow> ok (say [Unknown_option arg] u2))))"

definition Len :: u32 where "Len = 4"

definition pmem_end :: "machine \<Rightarrow> u32" where
  "pmem_end m = PMEM_BASE (isa m) + of_nat PMEM_SIZE"

definition END_ADDR :: "machine \<Rightarrow> u32 \<Rightarrow> u32 \<Rightarrow> u32" where
  "END_ADDR m start_addr n =
     (if start_addr + Len * n \<ge> pmem_end m then start_addr + (pmem_end m - start_addr) div Len
      else start_addr + Len * n)"

definition my_in_pmem :: "machine \<Rightarrow> u32 \<Rightarrow> bool" where
  "my_in_pmem m addr \<longleftrightarrow> addr \<ge> PMEM_BASE (isa m) \<and> addr < pmem_end m"

partial_function (option) x_loop :: "u32 \<Rightarrow> u32 \<Rightarrow> ui_state \<Rightarrow> ui_result" where
  "x_loop addr end_addr u =
     (if addr < end_addr
      then (case vaddr_read addr 4 (u_mach u) of
          Inl e \<Rightarrow> Some (Inl e)
        | Inr (v, m) \<Rightarrow> x_loop (addr + Len) end_addr (say [Mem_line addr v] (u\<lparr>u_mach := m\<rparr>)))
      else ok u)"

text \<open>
  \<open>expr\<close> as the commands call it: the value and the success flag, with the new token array and machine
  in the state.
\<close>

definition run_expr :: "string \<Rightarrow> ui_state \<Rightarrow> fault + (u32 \<times> bool \<times> ui_state)" where
  "run_expr e u =
     bnd (expr e (u_tokens u) (u_mach u)) (\<lambda>(v, success, ts, m).
     Inr (v, success, u\<lparr>u_tokens := ts, u_mach := m\<rparr>))"

text \<open>
  \<open>cmd_x\<close> checks its two arguments with \<open>sscanf\<close>, which lets the number end where no blank is, and then
  steps over the terminator of the token \<open>strtok\<close> cuts out. Without a blank there is no text after it.
\<close>

definition cmd_x :: "string option \<Rightarrow> ui_state \<Rightarrow> ui_result" where
  "cmd_x args u =
     (case Option.bind (Option.bind args scanf_u) (\<lambda>(n, r). map_option (\<lambda>_. n) (scanf_ms r)) of
        None \<Rightarrow> ok (say [Try_help ''x''] u)
      | Some n \<Rightarrow>
          (let after = dropWhile (\<lambda>c. \<not> is_blank_c c) (dropWhile is_blank_c (u_strtok u))
           in if after = [] then Some (Inl Out_Of_Bounds)
              else obnd (Some (run_expr (tl after) (u\<lparr>u_strtok := tl after\<rparr>))) (\<lambda>(addr, success, u1).
                if \<not> success then ok u1
                else if \<not> my_in_pmem (u_mach u1) addr then ok (say [Cannot_access addr] u1)
                else
                  (let end_addr = END_ADDR (u_mach u1) addr n
                   in if addr = end_addr then ok (say [Not_enough] u1) else x_loop addr end_addr u1))))"

definition cmd_p :: "string option \<Rightarrow> ui_state \<Rightarrow> ui_result" where
  "cmd_p args u =
     (case args of
        None \<Rightarrow> ok (say [Try_help ''p''] u)
      | Some a \<Rightarrow>
          (if scanf_ms a = None then ok (say [Try_help ''p''] u)
           else obnd (Some (run_expr a u)) (\<lambda>(v, success, u1).
             ok (if success then say [Eval_line v] u1 else u1))))"

definition cmd_w :: "string option \<Rightarrow> ui_state \<Rightarrow> ui_result" where
  "cmd_w args u =
     (case args of
        None \<Rightarrow> ok (say [Try_help ''w''] u)
      | Some a \<Rightarrow>
          (if scanf_ms a = None then ok (say [Try_help ''w''] u)
           else obnd (Some (run_expr a u)) (\<lambda>(v, success, u1).
             if \<not> success then ok u1
             else obnd (Some (set_wp (u_seq u1) v a (u_wp u1))) (\<lambda>wp.
               ok (say [Wp_set (u_seq u1) a] (u1\<lparr>u_wp := wp, u_seq := u_seq u1 + 1\<rparr>))))))"

definition cmd_d :: "string option \<Rightarrow> ui_state \<Rightarrow> ui_result" where
  "cmd_d args u =
     (case next_token u of
        (None, u1) \<Rightarrow> ok (say [Try_help ''d''] u1)
      | (Some arg, u1) \<Rightarrow>
          (case scanf_d arg of
             None \<Rightarrow> ok (say [Not_numeric arg] u1)
           | Some (n, _) \<Rightarrow>
               (case next_token u1 of
                  (Some extra, u2) \<Rightarrow> ok (say [Too_much extra] u2)
                | (None, u2) \<Rightarrow>
                    obnd (free_wp n (u_wp u2)) (\<lambda>(_, wp). ok (u2\<lparr>u_wp := wp\<rparr>)))))"

section \<open>The main loop\<close>

definition cmd_names :: "string list" where
  "cmd_names = [''help'', ''c'', ''q'', ''si'', ''info'', ''x'', ''p'', ''w'', ''d'']"

definition cmd_help :: "string option \<Rightarrow> ui_state \<Rightarrow> ui_result" where
  "cmd_help args u =
     (case next_token u of
        (None, u1) \<Rightarrow> ok (say (map Help_line cmd_names) u1)
      | (Some arg, u1) \<Rightarrow>
          ok (say [if arg \<in> set cmd_names then Help_line arg else Unknown_command arg] u1))"

definition cmd_table ::
    "exec_once \<Rightarrow> (nat \<Rightarrow> tick) \<Rightarrow> (string \<times> (string option \<Rightarrow> ui_state \<Rightarrow> ui_result)) list" where
  "cmd_table ex ticks =
     [(''help'', cmd_help), (''c'', cmd_c ex ticks), (''q'', cmd_q), (''si'', cmd_si ex ticks),
      (''info'', cmd_info), (''x'', cmd_x), (''p'', cmd_p), (''w'', cmd_w), (''d'', cmd_d)]"

text \<open>One turn of the loop: the line's first word is the command, the text after it the arguments.\<close>

definition ui_line :: "exec_once \<Rightarrow> (nat \<Rightarrow> tick) \<Rightarrow> string \<Rightarrow> ui_state \<Rightarrow> ui_result" where
  "ui_line ex ticks str u =
     (case strtok str of
        (None, rest) \<Rightarrow> ok (u\<lparr>u_strtok := rest\<rparr>)
      | (Some cmd, rest) \<Rightarrow>
          (let u1 = u\<lparr>u_strtok := rest, u_mach := sdl_clear_event_queue (u_mach u)\<rparr>;
               args = (if rest = [] then None else Some rest)
           in case map_of (cmd_table ex ticks) cmd of
                Some handler \<Rightarrow> handler args u1
              | None \<Rightarrow> ok (say [Unknown_command cmd] u1)))"

fun ui_loop :: "exec_once \<Rightarrow> (string \<times> (nat \<Rightarrow> tick)) list \<Rightarrow> ui_state \<Rightarrow> (fault + ui_state) option" where
  "ui_loop ex [] u = Some (Inr u)"
| "ui_loop ex ((str, ticks) # ls) u =
     obnd (ui_line ex ticks str u) (\<lambda>(r, u1). if r < 0 then Some (Inr u1) else ui_loop ex ls u1)"

definition ui_mainloop ::
    "exec_once \<Rightarrow> bool \<Rightarrow> (string \<times> (nat \<Rightarrow> tick)) list \<Rightarrow> (nat \<Rightarrow> tick) \<Rightarrow> ui_state \<Rightarrow> (fault + ui_state) option" where
  "ui_mainloop ex batch_mode lines ticks u =
     (if batch_mode then obnd (cmd_c ex ticks None u) (\<lambda>(_, u1). Some (Inr u1)) else ui_loop ex lines u)"

end
