(* ===== verification/UiProps.thy ===== *)
theory UiProps imports Ui begin

text \<open>
  The debugger's commands: which of them can change the guest, the pool or the counter, what \<open>x\<close>, \<open>w\<close>,
  \<open>d\<close>, \<open>info\<close>, \<open>si\<close> and \<open>q\<close> do with the arguments typed, and that a session always comes to an end.
  The engine enters through the interface \<open>isa_step\<close> of \<open>CpuExec\<close>.
\<close>

section \<open>The state between two lines\<close>

definition ui_ok :: "ui_state \<Rightarrow> bool" where
  "ui_ok u \<longleftrightarrow> length (u_tokens u) = MAX_TOKENS \<and> (\<exists>xs. wp_abs (u_wp u) xs)"

lemma say_fields [simp]:
  "u_mach (say ms u) = u_mach u" "u_wp (say ms u) = u_wp u" "u_seq (say ms u) = u_seq u"
  "u_tokens (say ms u) = u_tokens u" "u_out (say ms u) = u_out u @ ms" "u_strtok (say ms u) = u_strtok u"
  by (simp_all add: say_def)

lemma say_say [simp]: "say ms (say ns u) = say (ns @ ms) u"
  by (simp add: say_def)

lemma say_Nil [simp]: "say [] u = u"
  by (simp add: say_def)

lemma run_expr_returns:
  assumes "length (u_tokens u) = MAX_TOKENS"
  obtains v s ts where "run_expr e u = Inr (v, s, u\<lparr>u_tokens := ts\<rparr>)" "length ts = MAX_TOKENS"
  using expr_returns [OF assms, of e "u_mach u"] by (auto simp: run_expr_def)

section \<open>The display of the watchpoints\<close>

definition wp_msg :: "wp_state \<Rightarrow> nat \<Rightarrow> ui_msg" where
  "wp_msg st i = Wp_line (wp_NO (wp_pool st ! i)) (wp_what (wp_pool st ! i))"

lemma wp_display_loop_chain:
  "chain (nexts (u_wp u)) p hs \<Longrightarrow> wp_display_loop p u = ok (say (map (wp_msg (u_wp u)) hs) u)"
proof (induction hs arbitrary: p u)
  case (Cons i hs)
  let ?u = "say [wp_msg (u_wp u) i] u"
  have "wp_display_loop (nexts (u_wp u) i) ?u = ok (say (map (wp_msg (u_wp u)) hs) ?u)"
    using Cons.IH [of ?u "nexts (u_wp u) i"] Cons.prems by simp
  then show ?case
    using Cons.prems by (subst wp_display_loop.simps) (simp add: wp_msg_def get_next_wp_def nexts_def)
qed (subst wp_display_loop.simps, simp)

definition wp_lines :: "wp_list \<Rightarrow> ui_msg list" where
  "wp_lines xs = (if xs = [] then [Wp_none] else Wp_header # map (\<lambda>(n, _, w). Wp_line n w) xs)"

lemma wp_display_abs:
  assumes "wp_abs (u_wp u) xs"
  shows "wp_display u = ok (say (wp_lines xs) u)"
proof -
  obtain hs fs where r: "wp_rel (u_wp u) hs fs" "xs = map (wp_entry (u_wp u)) hs" using assms by (auto simp: wp_abs_def)
  then have c: "chain (nexts (u_wp u)) (wp_head (u_wp u)) hs" by (simp add: wp_rel_def)
  have m: "map (\<lambda>(n, _, w). Wp_line n w) xs = map (wp_msg (u_wp u)) hs"
    using r(2) by (simp add: wp_entry_def wp_msg_def Let_def)
  show ?thesis
  proof (cases hs)
    case Nil
    then show ?thesis using c r by (simp add: wp_display_def get_next_wp_def wp_lines_def)
  next
    case (Cons i hs')
    then have l: "wp_lines xs = Wp_header # map (wp_msg (u_wp u)) hs"
      using m r(2) by (simp only: wp_lines_def) simp
    then show ?thesis
      using c Cons wp_display_loop_chain [of "say [Wp_header] u" "Some i" hs]
      unfolding l by (simp add: wp_display_def get_next_wp_def)
  qed
qed

section \<open>The loop of cmd\_x\<close>

definition word_msg :: "machine \<Rightarrow> u32 \<Rightarrow> nat \<Rightarrow> ui_msg" where
  "word_msg m a k = Mem_line (a + of_nat (4 * k)) (get32 (pmem m) (pmem_index m (a + of_nat (4 * k))))"

definition dump :: "machine \<Rightarrow> u32 \<Rightarrow> nat \<Rightarrow> ui_msg list" where
  "dump m a n = map (word_msg m a) [0 ..< n]"

lemma dump_Suc: "dump m a (Suc n) = word_msg m a 0 # dump m (a + 4) n"
proof -
  have "map (word_msg m a) [Suc 0 ..< Suc n] = map (word_msg m (a + 4)) [0 ..< n]"
    by (subst map_Suc_upt [symmetric]) (simp add: word_msg_def add.assoc)
  then show ?thesis by (simp add: dump_def upt_conv_Cons del: upt_Suc)
qed

lemma pmem_end_unat: "unat (pmem_end m) = unat (PMEM_BASE (isa m)) + PMEM_SIZE \<and> unat (pmem_end m) \<le> 0x88000000"
  by (cases "isa m") (simp_all add: pmem_end_def PMEM_BASE_def PMEM_SIZE_def)

lemma x_loop_dump:
  assumes "\<And>k. k < n \<Longrightarrow> deref_ok (a + of_nat (4 * k)) (u_mach u)"
    and "unat a + 4 * n < 2 ^ 32" "unat e \<le> unat a + 4 * n" "0 < n \<Longrightarrow> unat a + 4 * n < unat e + 4"
  shows "x_loop a e u = ok (say (dump (u_mach u) a n) u)"
  using assms
proof (induction n arbitrary: a u)
  case 0
  then have "\<not> a < e" by (simp add: word_less_nat_alt)
  then show ?case by (subst x_loop.simps) (simp add: dump_def)
next
  case (Suc n)
  let ?u = "say [word_msg (u_mach u) a 0] u"
  have "deref_ok a (u_mach u)" using Suc.prems(1) [of 0] by simp
  then have r: "vaddr_read a 4 (u_mach u) = Inr (get32 (pmem (u_mach u)) (pmem_index (u_mach u) a), u_mach u)"
    by (rule deref_read_value)
  have a4: "unat (a + 4) = unat a + 4" using Suc.prems(2) by (simp add: unat_word_ariths)
  have "x_loop (a + 4) e ?u = ok (say (dump (u_mach u) (a + 4) n) ?u)"
  proof (cases "n = 0")
    case True
    then have "\<not> a + 4 < e" using Suc.prems(3) a4 by (simp add: word_less_nat_alt)
    then show ?thesis using True by (subst x_loop.simps) (simp add: dump_def)
  next
    case False
    have "deref_ok (a + 4 + of_nat (4 * k)) (u_mach ?u)" if "k < n" for k
      using Suc.prems(1) [of "Suc k"] that by (simp add: algebra_simps)
    then show ?thesis using Suc.IH [of "a + 4" ?u] Suc.prems a4 by simp
  qed
  moreover have "a < e" using Suc.prems(4) by (simp add: word_less_nat_alt)
  ultimately show ?case using r by (subst x_loop.simps) (simp add: dump_Suc word_msg_def Len_def)
qed
section \<open>What a memory dump reaches\<close>

lemma deref_ok_from:
  assumes "my_in_pmem m a" "unat a + 4 * k + 4 \<le> unat (pmem_end m)"
  shows "deref_ok (a + of_nat (4 * k)) m"
proof -
  have "unat a + 4 * k < 2 ^ 32" using assms(2) pmem_end_unat [of m] by simp
  then have u: "unat (a + of_nat (4 * k)) = unat a + 4 * k"
    by (simp add: unat_word_ariths unat_of_nat del: of_nat_mult)
  show ?thesis
    using assms pmem_end_unat [of m] unfolding deref_ok_def my_in_pmem_def word_le_nat_alt u by simp
qed

lemma quarter_fits:
  assumes "a < (p :: nat)"
  shows "a + (p - a) div 4 \<le> p" and "a + 4 * (((p - a) div 4 + 3) div 4) \<le> p"
proof -
  define q where "q = (p - a) div 4"
  have q: "4 * q \<le> p - a" unfolding q_def by (rule times_div_less_eq_dividend)
  have "4 * ((q + 3) div 4) \<le> q + 3" by (rule times_div_less_eq_dividend)
  moreover have "(q + 3) div 4 = 0" if "q = 0" using that by simp
  ultimately have "4 * ((q + 3) div 4) \<le> 4 * q" by (cases "q = 0") auto
  then show "a + (p - a) div 4 \<le> p" "a + 4 * (((p - a) div 4 + 3) div 4) \<le> p"
    using q assms unfolding q_def [symmetric] by linarith+
qed

text \<open>\<open>words_shown\<close>: how many words \<open>cmd_x\<close> prints, as a number.\<close>

definition words_shown :: "machine \<Rightarrow> u32 \<Rightarrow> u32 \<Rightarrow> nat" where
  "words_shown m a n = (let e = END_ADDR m a n in (unat e - unat a + 3) div 4)"

lemma x_loop_END:
  assumes "my_in_pmem (u_mach u) a"
  shows "x_loop a (END_ADDR (u_mach u) a n) u = ok (say (dump (u_mach u) a (words_shown (u_mach u) a n)) u)"
proof -
  let ?m = "u_mach u" and ?e = "unat (END_ADDR (u_mach u) a n)" and ?p = "unat (pmem_end (u_mach u))"
  define k where "k = words_shown ?m a n"
  have a: "unat a < ?p" using assms by (simp add: my_in_pmem_def word_less_nat_alt)
  have p: "?p \<le> 0x88000000" using pmem_end_unat by blast
  have kd: "k = (?e - unat a + 3) div 4" by (simp add: k_def words_shown_def Let_def)
  have bound: "unat a + 4 * k \<le> ?p"
  proof (cases "a + Len * n \<ge> pmem_end ?m")
    case True
    let ?q = "(?p - unat a) div 4"
    have "unat ((pmem_end ?m - a) div Len) = ?q"
      using a by (simp add: Len_def unat_div unat_sub word_le_nat_alt)
    moreover have "unat a + ?q < 2 ^ 32" using quarter_fits(1) [OF a] p by simp
    ultimately have "?e = unat a + ?q"
      using True by (simp add: END_ADDR_def unat_word_ariths)
    then show ?thesis using quarter_fits(2) [OF a] kd by simp
  next
    case False
    then have e: "?e = unat (a + Len * n)" by (simp add: END_ADDR_def)
    have lt: "?e < ?p" using False unfolding e by (simp add: word_less_nat_alt not_le)
    show ?thesis
    proof (cases "?e \<le> unat a")
      case True
      then show ?thesis using a kd by simp
    next
      case False
      define c where "c = (unat n * 4) mod 2 ^ 32"
      have "c mod 4 = 0" by (simp add: c_def mod_mod_cancel)
      have "unat (Len * n) = c" by (simp add: c_def Len_def unat_word_ariths mult.commute)
      then have "?e = (unat a + c) mod 2 ^ 32" using e by (simp add: unat_word_ariths)
      moreover have "c < 2 ^ 32" by (simp add: c_def)
      ultimately have "?e = unat a + c" using False a p no_wrap [of "unat a" c] by simp
      then have "4 * k = c" using kd \<open>c mod 4 = 0\<close> by presburger
      then show ?thesis using \<open>?e = unat a + c\<close> lt by simp
    qed
  qed
  show ?thesis
    unfolding k_def [symmetric]
  proof (rule x_loop_dump)
    show "deref_ok (a + of_nat (4 * j)) ?m" if "j < k" for j
      using that bound by (intro deref_ok_from [OF assms]) simp
    show "unat a + 4 * k < 2 ^ 32" using bound p by simp
    show "?e \<le> unat a + 4 * k" using kd by presburger
    show "unat a + 4 * k < ?e + 4" if "0 < k" using kd that by presburger
  qed
qed

lemma END_ADDR_value:
  assumes "my_in_pmem m a" "unat n < 2 ^ 28"
  shows "unat (END_ADDR m a n) = unat a +
    (if unat a + 4 * unat n < unat (pmem_end m) then 4 * unat n else (unat (pmem_end m) - unat a) div 4)"
proof -
  have a: "unat a < unat (pmem_end m)" using assms(1) by (simp add: my_in_pmem_def word_less_nat_alt)
  have "unat (Len * n) = 4 * unat n" "unat a + 4 * unat n < 2 ^ 32"
    using a assms(2) pmem_end_unat [of m] by (simp_all add: Len_def unat_word_ariths)
  then have "unat (a + Len * n) = unat a + 4 * unat n" by (simp add: unat_word_ariths)
  moreover have "unat ((pmem_end m - a) div Len) = (unat (pmem_end m) - unat a) div 4"
    using a by (simp add: Len_def unat_div unat_sub word_le_nat_alt)
  moreover have "unat a + (unat (pmem_end m) - unat a) div 4 < 2 ^ 32"
    using quarter_fits(1) [OF a] pmem_end_unat [of m] by simp
  ultimately show ?thesis by (simp add: END_ADDR_def word_le_nat_alt unat_word_ariths)
qed

lemma words_shown_value:
  assumes "my_in_pmem m a" "unat n < 2 ^ 28"
  shows "words_shown m a n = (if unat a + 4 * unat n < unat (pmem_end m) then unat n
      else ((unat (pmem_end m) - unat a) div 4 + 3) div 4)"
    and "a = END_ADDR m a n \<longleftrightarrow> words_shown m a n = 0"
  unfolding words_shown_def Let_def word_unat_eq_iff [of a] END_ADDR_value [OF assms] by (simp, linarith)

section \<open>Lines\<close>

definition word_of_line :: "string \<Rightarrow> bool" where
  "word_of_line w \<longleftrightarrow> w \<noteq> [] \<and> (\<forall>c \<in> set w. \<not> is_blank_c c)"

definition entered :: "string \<Rightarrow> ui_state \<Rightarrow> ui_state" where
  "entered rest u = u\<lparr>u_strtok := rest, u_mach := sdl_clear_event_queue (u_mach u)\<rparr>"

lemma entered_fields [simp]:
  "u_mach (entered r u) = sdl_clear_event_queue (u_mach u)" "u_wp (entered r u) = u_wp u" "u_seq (entered r u) = u_seq u"
  "u_tokens (entered r u) = u_tokens u" "u_out (entered r u) = u_out u" "u_strtok (entered r u) = r"
  by (simp_all add: entered_def)

lemma entered_strtok [simp]: "(entered d u)\<lparr>u_strtok := r\<rparr> = entered r u"
  by (cases u) (simp add: entered_def)

lemma ui_line_word:
  assumes "strtok str = (Some cmd, rest)" "map_of (cmd_table ex ticks) cmd = Some h"
  shows "ui_line ex ticks str u = h (if rest = [] then None else Some rest) (entered rest u)"
  using assms by (simp add: ui_line_def entered_def Let_def)

lemma ui_line_args:
  assumes "word_of_line w" "map_of (cmd_table ex ticks) w = Some h" "r \<noteq> []"
  shows "ui_line ex ticks (w @ CHR '' '' # r) u = h (Some r) (entered r u)"
  using ui_line_word [OF strtok_word assms(2)] assms(1,3) by (auto simp: word_of_line_def)

lemma cmd_words: "w \<in> set cmd_names \<Longrightarrow> word_of_line w"
  by (auto simp: cmd_names_def word_of_line_def is_blank_c_def)

lemma cmd_lookup [simp]:
  "map_of (cmd_table ex ticks) ''help'' = Some cmd_help" "map_of (cmd_table ex ticks) ''c'' = Some (cmd_c ex ticks)"
  "map_of (cmd_table ex ticks) ''q'' = Some cmd_q" "map_of (cmd_table ex ticks) ''si'' = Some (cmd_si ex ticks)"
  "map_of (cmd_table ex ticks) ''info'' = Some cmd_info" "map_of (cmd_table ex ticks) ''x'' = Some cmd_x"
  "map_of (cmd_table ex ticks) ''p'' = Some cmd_p" "map_of (cmd_table ex ticks) ''w'' = Some cmd_w"
  "map_of (cmd_table ex ticks) ''d'' = Some cmd_d"
  by (simp_all add: cmd_table_def)

lemma cmd_cases:
  assumes "map_of (cmd_table ex ticks) cmd = Some h"
  shows "cmd = ''help'' \<and> h = cmd_help \<or> cmd = ''c'' \<and> h = cmd_c ex ticks \<or> cmd = ''q'' \<and> h = cmd_q \<or>
    cmd = ''si'' \<and> h = cmd_si ex ticks \<or> cmd = ''info'' \<and> h = cmd_info \<or> cmd = ''x'' \<and> h = cmd_x \<or>
    cmd = ''p'' \<and> h = cmd_p \<or> cmd = ''w'' \<and> h = cmd_w \<or> cmd = ''d'' \<and> h = cmd_d"
  using map_of_SomeD [OF assms] by (auto simp: cmd_table_def)

section \<open>What each command may do\<close>

text \<open>
  \<open>looks u r\<close>: the command returned 0 or died stepping past its arguments, and left the guest, the pool and
  the counter alone.
\<close>

definition same_guest :: "ui_state \<Rightarrow> ui_state \<Rightarrow> bool" where
  "same_guest u u' \<longleftrightarrow> u_mach u' = u_mach u \<and> u_wp u' = u_wp u \<and> u_seq u' = u_seq u \<and> length (u_tokens u') = MAX_TOKENS"

definition looks :: "ui_state \<Rightarrow> ui_result \<Rightarrow> bool" where
  "looks u r \<longleftrightarrow> (\<exists>u'. r = Some (Inr (0, u')) \<and> same_guest u u')"

lemma looks_ok: "same_guest u u' \<Longrightarrow> looks u (ok u')"
  by (simp add: looks_def ok_def)

lemma next_token_fields:
  "next_token u = (t, u1) \<Longrightarrow> u_mach u1 = u_mach u \<and> u_wp u1 = u_wp u \<and> u_seq u1 = u_seq u \<and> u_tokens u1 = u_tokens u"
  by (auto simp: next_token_def split: prod.splits)

lemma help_looks: "ui_ok u \<Longrightarrow> looks u (cmd_help args u)"
  unfolding cmd_help_def
  by (auto simp: ui_ok_def same_guest_def dest!: next_token_fields intro!: looks_ok split: prod.splits option.splits)

lemma info_looks:
  assumes "ui_ok u"
  shows "looks u (cmd_info args u)"
proof -
  obtain t1 u1 where t1: "next_token u = (t1, u1)" by fastforce
  obtain t2 u2 where t2: "next_token u1 = (t2, u2)" by fastforce
  have s: "same_guest u u1" "same_guest u u2" "ui_ok u2"
    using assms next_token_fields [OF t1] next_token_fields [OF t2] by (auto simp: same_guest_def ui_ok_def)
  then obtain xs where "wp_abs (u_wp u2) xs" by (auto simp: ui_ok_def)
  from wp_display_abs [OF this] show ?thesis
    using s t1 t2
    by (auto simp: cmd_info_def info_opt_def reg_display_def looks_def ok_def same_guest_def split: option.splits)
qed

lemma p_looks:
  assumes "ui_ok u"
  shows "looks u (cmd_p args u)"
proof (cases args)
  case (Some a)
  obtain v s ts where "run_expr a u = Inr (v, s, u\<lparr>u_tokens := ts\<rparr>)" "length ts = MAX_TOKENS"
    using run_expr_returns [of u a] assms by (auto simp: ui_ok_def)
  then show ?thesis using assms Some by (auto simp: cmd_p_def looks_def ok_def same_guest_def ui_ok_def)
qed (use assms in \<open>auto simp: cmd_p_def looks_def ok_def same_guest_def ui_ok_def\<close>)

definition glued :: "string option \<Rightarrow> bool" where
  "glued args \<longleftrightarrow> (\<exists>a. args = Some a \<and> dropWhile (\<lambda>c. \<not> is_blank_c c) (dropWhile is_blank_c a) = [])"

lemma x_looks:
  assumes "ui_ok u" "args = (if u_strtok u = [] then None else Some (u_strtok u))"
  shows "looks u (cmd_x args u) \<or> cmd_x args u = Some (Inl Out_Of_Bounds) \<and> glued args"
proof (cases "Option.bind (Option.bind args scanf_u) (\<lambda>(n, r). map_option (\<lambda>_. n) (scanf_ms r))")
  case None
  then show ?thesis using assms by (simp add: cmd_x_def looks_def ok_def same_guest_def ui_ok_def)
next
  case (Some n)
  define after where "after = dropWhile (\<lambda>c. \<not> is_blank_c c) (dropWhile is_blank_c (u_strtok u))"
  show ?thesis
  proof (cases "after = []")
    case True
    then show ?thesis using Some assms(2) by (auto simp: cmd_x_def after_def glued_def Let_def split: if_splits)
  next
    case False
    let ?u = "u\<lparr>u_strtok := tl after\<rparr>"
    obtain v s ts where r: "run_expr (tl after) ?u = Inr (v, s, ?u\<lparr>u_tokens := ts\<rparr>)" "length ts = MAX_TOKENS"
      using run_expr_returns [of ?u "tl after"] assms(1) by (auto simp: ui_ok_def)
    let ?v = "?u\<lparr>u_tokens := ts\<rparr>"
    have "x_loop v (END_ADDR (u_mach u) v n) ?v = ok (say (dump (u_mach u) v (words_shown (u_mach u) v n)) ?v)"
      if "my_in_pmem (u_mach u) v"
      using x_loop_END [of ?v v n] that by simp
    then show ?thesis
      using Some r False after_def
      by (auto simp: cmd_x_def looks_def ok_def same_guest_def Let_def)
  qed
qed

lemma w_result:
  assumes "length (u_tokens u) = MAX_TOKENS" "wp_abs (u_wp u) xs"
  shows "looks u (cmd_w args u) \<or> cmd_w args u = Some (Inl Assert_Fail) \<and> length xs = NR_WP \<or>
    (\<exists>a v u'. args = Some a \<and> cmd_w args u = ok u' \<and> u_mach u' = u_mach u \<and> length (u_tokens u') = MAX_TOKENS \<and>
       wp_abs (u_wp u') ((u_seq u, v, Some a) # xs) \<and> u_seq u' = u_seq u + 1)"
proof (cases "args = None \<or> scanf_ms (the args) = None")
  case False
  then obtain a where a: "args = Some a" "scanf_ms a \<noteq> None" by auto
  obtain v s ts where r: "run_expr a u = Inr (v, s, u\<lparr>u_tokens := ts\<rparr>)" "length ts = MAX_TOKENS"
    using run_expr_returns [OF assms(1)] by blast
  show ?thesis
  proof (cases s)
    case True
    consider "length xs = NR_WP" | "length xs < NR_WP" using wp_abs_length [OF assms(2)] by linarith
    then show ?thesis
    proof cases
      case 1
      then have "set_wp (u_seq u) v a (u_wp u) = Inl Assert_Fail" using wp_abs_set(1) [OF assms(2)] by blast
      then show ?thesis using a r True 1 by (auto simp: cmd_w_def)
    next
      case 2
      then obtain wp where "set_wp (u_seq u) v a (u_wp u) = Inr wp" "wp_abs wp ((u_seq u, v, Some a) # xs)"
        using wp_abs_set(2) [OF assms(2)] by blast
      then show ?thesis using a r True by (auto simp: cmd_w_def ok_def)
    qed
  qed (use a r in \<open>auto simp: cmd_w_def looks_def ok_def same_guest_def\<close>)
qed (use assms in \<open>auto simp: cmd_w_def looks_def ok_def same_guest_def split: option.splits\<close>)

lemma d_result:
  assumes "length (u_tokens u) = MAX_TOKENS" "wp_abs (u_wp u) xs"
  shows "looks u (cmd_d args u) \<or>
    (\<exists>n u'. cmd_d args u = ok u' \<and> u_mach u' = u_mach u \<and> length (u_tokens u') = MAX_TOKENS \<and>
       wp_abs (u_wp u') (remove_NO n xs) \<and> u_seq u' = u_seq u)"
proof -
  obtain t1 u1 where t1: "next_token u = (t1, u1)" by fastforce
  obtain t2 u2 where t2: "next_token u1 = (t2, u2)" by fastforce
  have s: "same_guest u u1" "same_guest u u2"
    using assms next_token_fields [OF t1] next_token_fields [OF t2] by (auto simp: same_guest_def)
  show ?thesis
  proof (cases "t1 = None \<or> scanf_d (the t1) = None \<or> t2 \<noteq> None")
    case True
    then show ?thesis
      using s t1 t2 by (auto simp: cmd_d_def looks_def ok_def same_guest_def split: option.splits)
  next
    case False
    then obtain n r where n: "scanf_d (the t1) = Some (n, r)" by auto
    obtain st' where "free_wp n (u_wp u2) = Some (Inr (n \<in> fst ` set xs, st'))" "wp_abs st' (remove_NO n xs)"
      using wp_abs_free [OF assms(2), of n] s by (auto simp: same_guest_def)
    then have "cmd_d args u = ok (u2\<lparr>u_wp := st'\<rparr>)" "wp_abs st' (remove_NO n xs)"
      using False n t1 t2 by (auto simp: cmd_d_def)
    then show ?thesis using s by (intro disjI2 exI [of _ n] exI [of _ "u2\<lparr>u_wp := st'\<rparr>"]) (simp add: same_guest_def)
  qed
qed

section \<open>Every line returns\<close>

lemma ui_ok_same: "ui_ok u \<Longrightarrow> same_guest u u' \<Longrightarrow> ui_ok u'"
  by (auto simp: ui_ok_def same_guest_def)

lemma ui_ok_entered [simp]: "ui_ok (entered r u) = ui_ok u"
  by (simp add: ui_ok_def)

lemma ui_ok_mach [simp]: "ui_ok (u\<lparr>u_mach := m\<rparr>) = ui_ok u"
  by (simp add: ui_ok_def)

lemma sdl_clear_guest [simp]: "guest (sdl_clear_event_queue m) = guest m"
  by (simp add: sdl_clear_event_queue_def)

lemma sdl_clear_empty: "sdl_events (hst m) = [] \<Longrightarrow> sdl_clear_event_queue m = m"
  by (cases m; cases "hst m") (simp add: sdl_clear_event_queue_def)

text \<open>\<open>si\<close> either runs the CPU once or only prints.\<close>

lemma si_result:
  assumes "length (u_tokens u) = MAX_TOKENS"
  shows "looks u (cmd_si ex ticks args u) \<or> (\<exists>n u1. same_guest u u1 \<and> cmd_si ex ticks args u = run_cpu ex ticks n u1)"
proof (cases args)
  case None
  then show ?thesis using assms by (auto simp: cmd_si_def same_guest_def)
next
  case (Some a)
  obtain t u1 where t: "next_token (u\<lparr>u_strtok := a\<rparr>) = (t, u1)" by fastforce
  then have s: "same_guest u u1" using assms next_token_fields [OF t] by (simp add: same_guest_def)
  show ?thesis
  proof (cases "\<exists>arg n r. t = Some arg \<and> scanf_llu arg = Some (n, r)")
    case True
    then obtain arg n r where n: "t = Some arg" "scanf_llu arg = Some (n, r)" by blast
    show ?thesis
    proof (cases "strtok_rest (u_strtok u1)")
      case None
      then have "cmd_si ex ticks args u = run_cpu ex ticks n u1" using Some t n by (simp add: cmd_si_def)
      then show ?thesis using s by blast
    next
      case left: (Some left)
      have s1: "same_guest u (u1\<lparr>u_strtok := []\<rparr>)" using s by (simp add: same_guest_def)
      show ?thesis
      proof (cases "scanf_ms left")
        case None
        then have "cmd_si ex ticks args u = run_cpu ex ticks n (u1\<lparr>u_strtok := []\<rparr>)" using Some t n left by (simp add: cmd_si_def)
        then show ?thesis using s1 by blast
      next
        case ms: (Some w)
        then have "cmd_si ex ticks args u = ok (say [Too_much left] (u1\<lparr>u_strtok := []\<rparr>))"
          using Some t n left by (simp add: cmd_si_def)
        then show ?thesis using s1 by (auto simp: looks_def ok_def same_guest_def)
      qed
    qed
  next
    case False
    show ?thesis
    proof (cases t)
      case None
      then have "cmd_si ex ticks args u = run_cpu ex ticks 1 u1" using Some t by (simp add: cmd_si_def)
      then show ?thesis using s by blast
    next
      case arg: (Some arg)
      then have "scanf_llu arg = None" using False by (cases "scanf_llu arg") auto
      then have "cmd_si ex ticks args u = ok (say [Not_numeric arg] u1)" using Some t arg by (simp add: cmd_si_def)
      then show ?thesis using s by (auto simp: looks_def ok_def same_guest_def)
    qed
  qed
qed

context isa_step
begin

lemma exec_wf:
  assumes "wf m" "cpu_exec exec_once ticks n m = Some (Inr m')"
  shows "wf m'"
proof (cases "status (nemu_state m) = NEMU_END \<or> status (nemu_state m) = NEMU_ABORT")
  case True
  then show ?thesis using assms exec_ended [of m ticks n] by simp
next
  case False
  then show ?thesis using exec_result [OF assms(1) _ _ assms(2)] by blast
qed

definition goes_on :: "ui_result \<Rightarrow> bool" where
  "goes_on r \<longleftrightarrow> (\<exists>x. r = Some x \<and> (\<forall>i u'. x = Inr (i, u') \<longrightarrow> wf (u_mach u') \<and> ui_ok u'))"

lemma goes_on_looks: "looks u r \<Longrightarrow> wf (u_mach u) \<Longrightarrow> ui_ok u \<Longrightarrow> goes_on r"
  using ui_ok_same by (auto simp: looks_def goes_on_def same_guest_def)

lemma goes_on_run:
  assumes "wf (u_mach u)" "ui_ok u"
  shows "goes_on (run_cpu exec_once ticks n u)"
proof -
  obtain r where r: "cpu_exec exec_once ticks n (u_mach u) = Some r" using exec_returns assms(1) by blast
  show ?thesis
  proof (cases r)
    case (Inr m')
    then show ?thesis using r exec_wf [OF assms(1)] assms(2) by (auto simp: run_cpu_def goes_on_def ok_def)
  qed (use r in \<open>simp add: run_cpu_def goes_on_def\<close>)
qed

lemma line_returns:
  assumes "wf (u_mach u)" "ui_ok u"
  shows "goes_on (ui_line exec_once ticks str u)"
proof -
  obtain t rest where t: "strtok str = (t, rest)" by fastforce
  let ?u = "entered rest u" and ?args = "if rest = [] then None else Some rest"
  have u: "wf (u_mach ?u)" "ui_ok ?u" "length (u_tokens ?u) = MAX_TOKENS"
    using assms wf_guest [of "sdl_clear_event_queue (u_mach u)" "u_mach u"] by (simp_all add: ui_ok_def)
  then obtain xs where xs: "wp_abs (u_wp ?u) xs" by (auto simp: ui_ok_def)
  show ?thesis
  proof (cases t)
    case None
    then show ?thesis using t assms by (simp add: ui_line_def ok_def goes_on_def ui_ok_def)
  next
    case (Some cmd)
    show ?thesis
    proof (cases "map_of (cmd_table exec_once ticks) cmd")
      case None
      then show ?thesis using t Some u by (auto simp: ui_line_def ok_def goes_on_def entered_def ui_ok_def Let_def)
    next
      case h: (Some h)
      have line: "ui_line exec_once ticks str u = h ?args ?u"
        using ui_line_word t Some h by simp
      have "goes_on (cmd_help ?args ?u)" "goes_on (cmd_info ?args ?u)" "goes_on (cmd_p ?args ?u)"
        using help_looks info_looks p_looks u goes_on_looks by blast+
      moreover have "goes_on (cmd_x ?args ?u)"
        using x_looks [OF u(2), of ?args] u goes_on_looks by (auto simp: goes_on_def)
      moreover have "goes_on (cmd_c exec_once ticks ?args ?u)" using goes_on_run u by (simp add: cmd_c_def)
      moreover have "goes_on (cmd_q ?args ?u)" using u by (auto simp: cmd_q_def goes_on_def split: option.splits)
      moreover have "goes_on (cmd_si exec_once ticks ?args ?u)"
        using si_result [OF u(3), of exec_once ticks ?args] goes_on_looks [OF _ u(1,2)] goes_on_run ui_ok_same [OF u(2)] u(1)
        by (fastforce simp: same_guest_def)
      moreover have "goes_on (cmd_w ?args ?u)"
        using w_result [OF u(3) xs, of ?args] goes_on_looks [OF _ u(1,2)] u(1)
        by (fastforce simp: goes_on_def ok_def ui_ok_def)
      moreover have "goes_on (cmd_d ?args ?u)"
        using d_result [OF u(3) xs, of ?args] goes_on_looks [OF _ u(1,2)] u(1)
        by (fastforce simp: goes_on_def ok_def ui_ok_def)
      ultimately show ?thesis unfolding line using cmd_cases [OF h] by (elim disjE conjE) simp_all
    qed
  qed
qed

lemma session_returns: "wf (u_mach u) \<Longrightarrow> ui_ok u \<Longrightarrow> \<exists>r. ui_loop exec_once ls u = Some r"
proof (induction ls arbitrary: u)
  case (Cons l ls)
  obtain str ticks where l: "l = (str, ticks)" by fastforce
  obtain x where x: "ui_line exec_once ticks str u = Some x"
      "\<forall>i u'. x = Inr (i, u') \<longrightarrow> wf (u_mach u') \<and> ui_ok u'"
    using line_returns [OF Cons.prems, of ticks str] by (auto simp: goes_on_def)
  show ?case
  proof (cases x)
    case (Inr p)
    then show ?thesis using x l Cons.IH [of "snd p"] by (cases p) auto
  qed (use x l in simp)
qed simp

lemma main_returns: "wf (u_mach u) \<Longrightarrow> ui_ok u \<Longrightarrow> \<exists>r. ui_mainloop exec_once batch ls ticks u = Some r"
proof (cases batch)
  case True
  assume a: "wf (u_mach u)" "ui_ok u"
  obtain x where "cmd_c exec_once ticks None u = Some x"
    using goes_on_run [OF a, of ticks "-1"] by (auto simp: goes_on_def cmd_c_def)
  then show ?thesis using True by (cases x) (auto simp: ui_mainloop_def)
qed (simp add: ui_mainloop_def session_returns)

end
section \<open>The start\<close>

definition ui_start :: "machine \<Rightarrow> ui_state" where
  "ui_start m =
     \<lparr>u_mach = m,
      u_wp = init_wp_pool \<lparr>wp_pool = replicate NR_WP \<lparr>wp_NO = 0, wp_next = None, wp_val = 0, wp_what = None\<rparr>,
        wp_head = None, wp_free = None\<rparr>,
      u_seq = 0, u_tokens = fresh_tokens, u_strtok = [], u_out = []\<rparr>"

lemma ui_start_wp: "wp_abs (u_wp (ui_start m)) []"
  using wp_abs_init by (simp add: ui_start_def)

lemma ui_start_ok: "ui_ok (ui_start m)"
  using ui_start_wp [of m] by (auto simp: ui_ok_def ui_start_def fresh_tokens_def)

lemma ui_start_fields [simp]: "u_mach (ui_start m) = m" "u_out (ui_start m) = []" "u_seq (ui_start m) = 0"
  "u_tokens (ui_start m) = fresh_tokens"
  by (simp_all add: ui_start_def)

section \<open>Arguments\<close>

lemma scanf_u_dec:
  assumes "r = [] \<or> \<not> c_isdigit (hd r)"
  shows "scanf_u (dec (unat (n :: u32)) @ r) = Some (n, r)"
proof -
  have "unat n \<le> 18446744073709551615" using u32_less_4G [of n] by linarith
  moreover have "take_bit 64 n = n" by (rule bit_word_eqI) (simp add: bit_take_bit_iff)
  ultimately show ?thesis by (simp add: scanf_u_def scan_number_dec [OF assms] strtoul_def unsigned_ucast_eq)
qed

lemma scanf_llu_dec: "scanf_llu (dec (unat (n :: u64))) = Some (n, [])"
proof -
  have "unat n < 18446744073709551616" using unsigned_less [of n] by simp
  then have "\<not> 18446744073709551615 < unat n" by linarith
  then show ?thesis using scan_number_dec [of "[]" "unat n"] by (simp add: scanf_llu_def strtoul_def)
qed

lemma scanf_d_dec:
  assumes "k < 2 ^ 31"
  shows "scanf_d (dec k) = Some (int k, [])"
proof -
  have "sint (word_of_int (int k) :: u32) = int k"
    using assms by (simp only: sint_sbintrunc') (simp add: signed_take_bit_int_eq_self)
  moreover have "strtol False k = int k" using assms by (simp add: strtol_def)
  ultimately show ?thesis using scan_number_dec [of "[]" k] by (simp add: scanf_d_def)
qed

lemma skip_space_blank: "skip_space (CHR '' '' # s) = skip_space s"
  by (simp add: skip_space_def c_isspace_def)

lemma scanf_ms_blank [simp]: "scanf_ms (CHR '' '' # s) = scanf_ms s"
  by (simp only: scanf_ms_def skip_space_blank)

lemma after_word:
  assumes "\<And>c. c \<in> set w \<Longrightarrow> \<not> is_blank_c c" "w \<noteq> []"
  shows "dropWhile (\<lambda>c. \<not> is_blank_c c) (dropWhile is_blank_c (w @ CHR '' '' # r)) = CHR '' '' # r"
proof -
  have "dropWhile is_blank_c (w @ CHR '' '' # r) = w @ CHR '' '' # r" using assms by (cases w) auto
  then show ?thesis using assms(1) by (simp add: dropWhile_append is_blank_c_def)
qed

text \<open>The commands on well-formed arguments.\<close>

lemma run_expr_value:
  "expr e (u_tokens u) (u_mach u) = Inr (v, s, ts, u_mach u) \<Longrightarrow> run_expr e u = Inr (v, s, u\<lparr>u_tokens := ts\<rparr>)"
  by (simp add: run_expr_def)

lemma cmd_x_dump:
  assumes "expr e (u_tokens u) (u_mach u) = Inr (a, True, ts, u_mach u)" "scanf_ms e \<noteq> None"
    and "u_strtok u = dec (unat n) @ CHR '' '' # e" "my_in_pmem (u_mach u) a"
  shows "cmd_x (Some (u_strtok u)) u =
    ok (say (if a = END_ADDR (u_mach u) a n then [Not_enough] else dump (u_mach u) a (words_shown (u_mach u) a n))
         (u\<lparr>u_strtok := e, u_tokens := ts\<rparr>))"
proof -
  obtain w where w: "scanf_ms e = Some w" using assms(2) by auto
  have args: "scanf_u (u_strtok u) = Some (n, CHR '' '' # e)"
    using scanf_u_dec [of "CHR '' '' # e" n] assms(3) by (simp add: c_isdigit_def)
  have after: "dropWhile (\<lambda>c. \<not> is_blank_c c) (dropWhile is_blank_c (u_strtok u)) = CHR '' '' # e"
    unfolding assms(3) by (rule after_word) (auto dest: dec_no_blank simp: dec_ne)
  let ?u = "u\<lparr>u_strtok := e\<rparr>"
  have r: "run_expr e ?u = Inr (a, True, ?u\<lparr>u_tokens := ts\<rparr>)" using run_expr_value [of e ?u] assms(1) by simp
  have "x_loop a (END_ADDR (u_mach u) a n) (?u\<lparr>u_tokens := ts\<rparr>) =
      ok (say (dump (u_mach u) a (words_shown (u_mach u) a n)) (?u\<lparr>u_tokens := ts\<rparr>))"
    using x_loop_END [of "?u\<lparr>u_tokens := ts\<rparr>" a n] assms(4) by simp
  then show ?thesis using args after r w assms(4) by (simp add: cmd_x_def Let_def)
qed


section \<open>Properties\<close>

text \<open>
  C30. Looking is harmless: a line whose command is not \<open>c\<close>, \<open>q\<close>, \<open>si\<close>, \<open>w\<close> or \<open>d\<close> (so also an unknown
  one) returns and changes neither the guest, nor the watchpoints, nor their counter, apart from dropping
  the queued SDL events. The one way it can die is \<open>x\<close> with its number glued to the expression, when it
  steps past the end of the line.
\<close>

theorem ui_inspection_readonly:
  assumes "ui_ok u" "strtok str = (Some cmd, rest)" "cmd \<notin> {''c'', ''q'', ''si'', ''w'', ''d''}"
  shows "(\<exists>u'. ui_line ex ticks str u = Some (Inr (0, u')) \<and> u_mach u' = sdl_clear_event_queue (u_mach u) \<and>
      u_wp u' = u_wp u \<and> u_seq u' = u_seq u \<and> ui_ok u') \<or>
    cmd = ''x'' \<and> ui_line ex ticks str u = Some (Inl Out_Of_Bounds) \<and>
      dropWhile (\<lambda>c. \<not> is_blank_c c) (dropWhile is_blank_c rest) = []"
proof -
  let ?u = "entered rest u" and ?args = "if rest = [] then None else Some rest"
  have u: "ui_ok ?u" using assms(1) by simp
  have looks: "\<exists>u'. ui_line ex ticks str u = Some (Inr (0, u')) \<and> u_mach u' = sdl_clear_event_queue (u_mach u) \<and>
      u_wp u' = u_wp u \<and> u_seq u' = u_seq u \<and> ui_ok u'" if "looks ?u (ui_line ex ticks str u)"
    using that ui_ok_same [OF u] by (auto simp: looks_def same_guest_def)
  show ?thesis
  proof (cases "map_of (cmd_table ex ticks) cmd")
    case None
    have "ui_line ex ticks str u = ok (say [Unknown_command cmd] ?u)"
      using None assms(2) by (simp add: ui_line_def entered_def Let_def)
    then have "looks ?u (ui_line ex ticks str u)" using u by (auto simp: looks_def ok_def same_guest_def ui_ok_def)
    then show ?thesis using looks by blast
  next
    case (Some h)
    then have line: "ui_line ex ticks str u = h ?args ?u" using ui_line_word [OF assms(2)] by simp
    from cmd_cases [OF Some] assms(3)
    consider "h = cmd_help" | "h = cmd_info" | "cmd = ''x''" "h = cmd_x" | "h = cmd_p" by blast
    then show ?thesis
    proof cases
      case 1
      show ?thesis using looks [unfolded line 1, OF help_looks [OF u]] unfolding line 1 by blast
    next
      case 2
      show ?thesis using looks [unfolded line 2, OF info_looks [OF u]] unfolding line 2 by blast
    next
      case 3
      show ?thesis
        using x_looks [OF u, of ?args] looks [unfolded line 3] 3(1) unfolding line 3(2)
        by (auto simp: glued_def split: if_splits)
    next
      case 4
      show ?thesis using looks [unfolded line 4, OF p_looks [OF u]] unfolding line 4 by blast
    qed
  qed
qed

text \<open>The witness is a glued \<open>x\<close> whose expression is not even looked at.\<close>

theorem ui_inspection_readonly_witness:
  "ui_line riscv32_once still_ticks ''x 4$pc'' (ui_start (booted Riscv32 0 div_regs)) = Some (Inl Out_Of_Bounds)"
proof -
  have s: "strtok ''x 4$pc'' = (Some ''x'', ''4$pc'')" by (simp add: strtok_def is_blank_c_def)
  have scan: "scanf_u ''4$pc'' = Some (4, ''$pc'')" "scanf_ms ''$pc'' = Some (''$pc'', [])"
    by (simp_all add: scanf_u_def scan_number_def skip_space_def c_isspace_def c_isdigit_def digits_10_def strtoul_def scanf_ms_def)
  show ?thesis
    using ui_inspection_readonly [OF ui_start_ok s, of riscv32_once still_ticks "booted Riscv32 0 div_regs"]
      ui_line_word [OF s cmd_lookup(6), of riscv32_once still_ticks "ui_start (booted Riscv32 0 div_regs)"] scan
    by (auto simp: cmd_x_def is_blank_c_def)
qed



lemma ui_watchpoint_lines:
  assumes "length (u_tokens u) = MAX_TOKENS" "wp_abs (u_wp u) xs"
  shows "\<exists>u'. ui_line ex ticks ''info w'' u = Some (Inr (0, u')) \<and> u_out u' = u_out u @ wp_lines xs"
    and "k < 2 ^ 31 \<Longrightarrow> \<exists>u'. ui_line ex ticks (''d '' @ dec k) u = Some (Inr (0, u')) \<and>
      wp_abs (u_wp u') (remove_NO (int k) xs) \<and> u_mach u' = sdl_clear_event_queue (u_mach u)"
    and "expr e (u_tokens u) (sdl_clear_event_queue (u_mach u)) = Inr (v, True, ts, sdl_clear_event_queue (u_mach u)) \<Longrightarrow>
      scanf_ms e \<noteq> None \<Longrightarrow> length xs < NR_WP \<Longrightarrow>
      \<exists>u'. ui_line ex ticks (''w '' @ e) u = Some (Inr (0, u')) \<and> wp_abs (u_wp u') ((u_seq u, v, Some e) # xs) \<and>
        u_seq u' = u_seq u + 1 \<and> u_mach u' = sdl_clear_event_queue (u_mach u)"
proof -
  have "strtok ''info w'' = (Some ''info'', ''w'')" "strtok ''w'' = (Some ''w'', [])"
    by (simp_all add: strtok_def is_blank_c_def)
  then show "\<exists>u'. ui_line ex ticks ''info w'' u = Some (Inr (0, u')) \<and> u_out u' = u_out u @ wp_lines xs"
    using ui_line_word [of "''info w''" "''info''" "''w''" ex ticks cmd_info u] wp_display_abs assms(2)
    by (simp add: cmd_info_def next_token_def info_opt_def ok_def)
next
  assume k: "k < 2 ^ 31"
  have "strtok (''d '' @ dec k) = (Some ''d'', dec k)"
    using strtok_word [of "''d''" "dec k"] by (simp add: is_blank_c_def)
  then have l: "ui_line ex ticks (''d '' @ dec k) u = cmd_d (Some (dec k)) (entered (dec k) u)"
    using ui_line_word [of "''d '' @ dec k" "''d''" "dec k" ex ticks cmd_d u] dec_ne [of k] by simp
  obtain wp where "free_wp (int k) (u_wp u) = Some (Inr (int k \<in> fst ` set xs, wp))" "wp_abs wp (remove_NO (int k) xs)"
    using wp_abs_free [OF assms(2)] by blast
  then show "\<exists>u'. ui_line ex ticks (''d '' @ dec k) u = Some (Inr (0, u')) \<and>
      wp_abs (u_wp u') (remove_NO (int k) xs) \<and> u_mach u' = sdl_clear_event_queue (u_mach u)"
    unfolding l using scanf_d_dec [OF k]
    by (simp add: cmd_d_def next_token_def strtok_dec ok_def)
next
  assume v: "expr e (u_tokens u) (sdl_clear_event_queue (u_mach u)) = Inr (v, True, ts, sdl_clear_event_queue (u_mach u))"
    and e: "scanf_ms e \<noteq> None" and room: "length xs < NR_WP"
  have "e \<noteq> []" using e by (auto simp: scanf_ms_def skip_space_def)
  then have l: "ui_line ex ticks (''w '' @ e) u = cmd_w (Some e) (entered e u)"
    using ui_line_args [of "''w''" ex ticks cmd_w e u] by (simp add: word_of_line_def is_blank_c_def)
  obtain wp where "set_wp (u_seq u) v e (u_wp u) = Inr wp" "wp_abs wp ((u_seq u, v, Some e) # xs)"
    using wp_abs_set(2) [OF assms(2) room] by blast
  then show "\<exists>u'. ui_line ex ticks (''w '' @ e) u = Some (Inr (0, u')) \<and> wp_abs (u_wp u') ((u_seq u, v, Some e) # xs) \<and>
        u_seq u' = u_seq u + 1 \<and> u_mach u' = sdl_clear_event_queue (u_mach u)"
    unfolding l using run_expr_value [of e "entered e u"] v e by (auto simp: cmd_w_def ok_def)
qed

text \<open>
  The watchpoint commands as typed: \<open>w EXPR\<close> adds the number, value and text of the expression in
  front, \<open>d N\<close> removes number \<open>N\<close>, and \<open>info w\<close> prints the active ones, newest first; the guest stays as it is.
\<close>

theorem ui_watchpoint_commands:
  assumes "length (u_tokens u) = MAX_TOKENS" "wp_abs (u_wp u) xs" "k < 2 ^ 31" "length xs < NR_WP" "scanf_ms e \<noteq> None"
    and "expr e (u_tokens u) (sdl_clear_event_queue (u_mach u)) = Inr (v, True, ts, sdl_clear_event_queue (u_mach u))"
  shows "(\<exists>u'. ui_line ex ticks ''info w'' u = Some (Inr (0, u')) \<and> u_out u' = u_out u @ wp_lines xs) \<and>
    (\<exists>u'. ui_line ex ticks (''d '' @ dec k) u = Some (Inr (0, u')) \<and>
      wp_abs (u_wp u') (remove_NO (int k) xs) \<and> u_mach u' = sdl_clear_event_queue (u_mach u)) \<and>
    (\<exists>u'. ui_line ex ticks (''w '' @ e) u = Some (Inr (0, u')) \<and> wp_abs (u_wp u') ((u_seq u, v, Some e) # xs) \<and>
      u_seq u' = u_seq u + 1 \<and> u_mach u' = sdl_clear_event_queue (u_mach u))"
  using ui_watchpoint_lines [OF assms(1,2)] assms(3-6) by blast

theorem ui_watchpoint_commands_witness:
  "\<exists>u'. ui_line riscv32_once still_ticks ''w 1 '' (ui_start (booted Riscv32 0 div_regs)) = Some (Inr (0, u')) \<and>
     wp_abs (u_wp u') [(0, 1, Some ''1 '')]"
proof -
  let ?m = "booted Riscv32 0 div_regs"
  have c: "sdl_clear_event_queue ?m = ?m" by (rule sdl_clear_empty) (simp add: booted_def static_start_def quiet_host_def)
  have t: "text_of (lex (Num 1)) = ''1 ''" by (simp add: text_of_def spell_def dec.simps digit_chars)
  obtain ts where e: "expr ''1 '' fresh_tokens ?m = Inr (1, True, ts, ?m)"
    using expr_printed [of fresh_tokens "Num 1" ?m] t by (auto simp: fresh_tokens_def MAX_TOKENS_def)
  have "scanf_ms ''1 '' \<noteq> None" by (simp add: scanf_ms_def skip_space_def c_isspace_def)
  then show ?thesis
    using ui_watchpoint_commands [of "ui_start ?m" "[]" 0 "''1 ''" 1 ts riscv32_once still_ticks] e c ui_start_wp [of ?m]
    by (auto simp: fresh_tokens_def NR_WP_def)
qed

text \<open>
  \<open>q\<close> leaves the loop only when no watchpoint is active: otherwise \<open>cmd_q\<close> hands the static nodes of
  the pool to \<open>free\<close>.
\<close>

theorem ui_quit:
  assumes "wp_abs (u_wp u) xs"
  shows "ui_loop ex ((''q'', ticks) # ls) u =
    (if xs = [] then Some (Inr (entered [] u)) else Some (Inl Bad_Free))"
proof -
  have "strtok ''q'' = (Some ''q'', [])" by (simp add: strtok_def is_blank_c_def)
  then have l: "ui_line ex ticks ''q'' u = cmd_q None (entered [] u)"
    using ui_line_word [of "''q''" "''q''" "[]" ex ticks cmd_q u] by simp
  obtain hs fs where "wp_rel (u_wp u) hs fs" "xs = map (wp_entry (u_wp u)) hs" using assms by (auto simp: wp_abs_def)
  then have "get_next_wp None (u_wp u) = (if xs = [] then None else Some (hd hs))"
    by (cases hs) (auto simp: wp_rel_def get_next_wp_def)
  then show ?thesis using l by (simp add: cmd_q_def)
qed

theorem ui_quit_witness:
  "ui_loop riscv32_once [(''q'', still_ticks), (''c'', still_ticks)] (ui_start (booted Riscv32 0 div_regs)) =
     Some (Inr (entered [] (ui_start (booted Riscv32 0 div_regs))))"
  using ui_quit [OF ui_start_wp, of riscv32_once still_ticks "[(''c'', still_ticks)]" "booted Riscv32 0 div_regs"] by simp

lemma si_line: "ui_line ex ticks (''si '' @ dec (unat (n :: u64))) u = run_cpu ex ticks n (entered [] u)"
proof -
  let ?d = "dec (unat n)"
  have "strtok (''si'' @ CHR '' '' # ?d) = (Some ''si'', ?d)"
    by (rule strtok_word) (auto simp: is_blank_c_def)
  then have "ui_line ex ticks (''si '' @ ?d) u = cmd_si ex ticks (Some ?d) (entered ?d u)"
    using ui_line_word [of "''si '' @ ?d" "''si''" ?d ex ticks "cmd_si ex ticks" u] dec_ne by simp
  then show ?thesis by (simp add: cmd_si_def next_token_def strtok_dec scanf_llu_dec strtok_rest_def)
qed

text \<open>
  \<open>si N\<close> runs \<open>N\<close> instructions: for riscv32 and a machine that has not ended, the line returns 0, the
  instruction count grows by at most \<open>N\<close> and by exactly \<open>N\<close> when the guest neither ended nor was
  stopped by the window's close event, and the watchpoints are untouched.
\<close>

theorem ui_si_steps:
  assumes "rv_wf (u_mach u)" "status (nemu_state (u_mach u)) \<notin> {NEMU_END, NEMU_ABORT}"
    and "ui_line riscv32_once ticks (''si '' @ dec (unat (n :: u64))) u = Some (Inr (r, u'))"
  shows "r = 0 \<and> u_wp u' = u_wp u \<and> u_out u' = u_out u \<and>
    (\<exists>k \<le> unat n. g_nr_guest_instr (u_mach u') = g_nr_guest_instr (u_mach u) + of_nat k \<and>
      (status (nemu_state (u_mach u')) = NEMU_STOP \<longrightarrow> k = unat n))"
proof -
  let ?m = "sdl_clear_event_queue (u_mach u)"
  have w: "rv_wf ?m" using assms(1) riscv32.wf_guest [of ?m "u_mach u"] by simp
  obtain m' where m': "cpu_exec riscv32_once ticks n ?m = Some (Inr m')" "r = 0"
      "u' = (entered [] u)\<lparr>u_mach := m'\<rparr>"
    using assms(3) unfolding si_line by (auto simp: run_cpu_def ok_def obnd_def split: option.splits sum.splits)
  have "g_nr_guest_instr ?m = g_nr_guest_instr (u_mach u)" "nemu_state ?m = nemu_state (u_mach u)"
    by (simp_all add: sdl_clear_event_queue_def)
  then show ?thesis using riscv32.exec_result [OF w _ _ m'(1)] assms(2) m'(2,3) by auto
qed

text \<open>The witness steps the built-in image.\<close>

theorem ui_si_steps_witness:
  "\<exists>u'. ui_line riscv32_once still_ticks ''si 5'' (ui_start (init_isa (static_start Riscv32 quiet_host))) = Some (Inr (0, u'))"
proof -
  let ?m = "init_isa (static_start Riscv32 quiet_host)"
  have d: "''si '' @ dec (unat (5 :: u64)) = ''si 5''" by (simp add: dec.simps digit_chars)
  have "sdl_events (hst ?m) = []"
    by (simp add: init_isa_def restart_def set_gpr_def load_bytes_def static_start_def quiet_host_def Let_def)
  then have "sdl_clear_event_queue ?m = ?m" by (rule sdl_clear_empty)
  then obtain u' where u': "ui_line riscv32_once still_ticks ''si 5'' (ui_start ?m) = Some (Inr (0, u'))"
    using started_runs si_line [of riscv32_once still_ticks 5 "ui_start ?m"] unfolding d by (auto simp: run_cpu_def ok_def)
  then show ?thesis
    using ui_si_steps [of "ui_start ?m" still_ticks 5 0 u'] started_wf started_stopped unfolding d by auto
qed



end
