(* ===== verification/DebugBuild.thy ===== *)
theory DebugBuild
  imports UiProps
begin

text \<open>
  The loop of \<open>cpu_exec\<close> as a build with \<open>DEBUG\<close> compiles it: after every instruction the watched
  expressions are evaluated again and the machine stops at a change (\<open>nemu/src/monitor/cpu-exec.c\<close>).
  The component composes the engine, the watchpoint pool and the expression evaluator. The log of
  executed instructions (\<open>asm_print\<close>) is not modelled.
\<close>

section \<open>Operations\<close>

record wp_hit =
  hit_NO :: int
  hit_what :: string
  hit_old :: u32
  hit_new :: u32
  hit_pc :: u32

text \<open>The comparison of a watchpoint's value with the new one: message, value and state.\<close>

definition watch_compare :: "u32 \<Rightarrow> nat \<Rightarrow> string \<Rightarrow> u32 \<Rightarrow> wp_hit list \<times> ui_state \<Rightarrow> wp_hit list \<times> ui_state" where
  "watch_compare seq i what new_val p = (case p of (hits, u) \<Rightarrow>
     let w = wp_pool (u_wp u) ! i
     in if status (nemu_state (u_mach u)) = NEMU_RUNNING \<and> new_val \<noteq> wp_val w
        then (hits @ [\<lparr>hit_NO = wp_NO w, hit_what = what, hit_old = wp_val w, hit_new = new_val, hit_pc = seq\<rparr>],
              u\<lparr>u_wp := upd_wp i (\<lambda>w. w\<lparr>wp_val := new_val\<rparr>) (u_wp u), u_mach := set_status NEMU_STOP (u_mach u)\<rparr>)
        else (hits, u))"

partial_function (option) watch_loop ::
  "u32 \<Rightarrow> nat option \<Rightarrow> wp_hit list \<times> ui_state \<Rightarrow> (fault + (wp_hit list \<times> ui_state)) option" where
  "watch_loop seq current p =
     (case current of
        None \<Rightarrow> Some (Inr p)
      | Some i \<Rightarrow>
          (case wp_what (wp_pool (u_wp (snd p)) ! i) of
             None \<Rightarrow> Some (Inl Assert_Fail)
           | Some what \<Rightarrow>
               (case run_expr what (snd p) of
                  Inl e \<Rightarrow> Some (Inl e)
                | Inr (new_val, success, u) \<Rightarrow>
                    if \<not> success then Some (Inl Assert_Fail)
                    else watch_loop seq (get_next_wp (Some i) (u_wp (snd (watch_compare seq i what new_val (fst p, u)))))
                           (watch_compare seq i what new_val (fst p, u)))))"

definition check_watchpoints :: "u32 \<Rightarrow> ui_state \<Rightarrow> (fault + (wp_hit list \<times> ui_state)) option" where
  "check_watchpoints seq u = watch_loop seq (get_next_wp None (u_wp u)) ([], u)"

definition debug_turn :: "exec_once \<Rightarrow> tick \<Rightarrow> wp_hit list \<times> ui_state \<Rightarrow> (fault + (wp_hit list \<times> ui_state)) option" where
  "debug_turn ex t p = (case p of (hits, u) \<Rightarrow>
     obnd (ex (host_tick t (u_mach u))) (\<lambda>(seq, m).
     obnd (check_watchpoints seq (u\<lparr>u_mach := m\<lparr>g_nr_guest_instr := g_nr_guest_instr m + 1\<rparr>\<rparr>)) (\<lambda>(new, u).
     obnd (Some (device_update (u_mach u))) (\<lambda>m. Some (Inr (hits @ new, u\<lparr>u_mach := m\<rparr>))))))"

fun debug_loop ::
  "exec_once \<Rightarrow> (nat \<Rightarrow> tick) \<Rightarrow> nat \<Rightarrow> wp_hit list \<times> ui_state \<Rightarrow> (fault + (wp_hit list \<times> ui_state)) option" where
  "debug_loop ex ticks 0 p = Some (Inr p)"
| "debug_loop ex ticks (Suc n) p = obnd (debug_turn ex (ticks 0) p) (\<lambda>p.
     if status (nemu_state (u_mach (snd p))) \<noteq> NEMU_RUNNING then Some (Inr p)
     else debug_loop ex (\<lambda>i. ticks (Suc i)) n p)"

section \<open>The check on the list of watchpoints\<close>

text \<open>What the check does to the list: the first changed value is reported and kept.\<close>

fun first_change :: "(string \<Rightarrow> u32) \<Rightarrow> u32 \<Rightarrow> wp_list \<Rightarrow> wp_hit list \<times> wp_list" where
  "first_change v seq [] = ([], [])"
| "first_change v seq ((n, old, w) # xs) =
     (if v (the w) \<noteq> old
      then ([\<lparr>hit_NO = n, hit_what = the w, hit_old = old, hit_new = v (the w), hit_pc = seq\<rparr>], (n, v (the w), w) # xs)
      else (fst (first_change v seq xs), (n, old, w) # snd (first_change v seq xs)))"

text \<open>The watched expressions have values, whatever the run state and the tokens of earlier lines.\<close>

definition watched :: "(string \<Rightarrow> u32) \<Rightarrow> machine \<Rightarrow> wp_list \<Rightarrow> bool" where
  "watched v m xs \<longleftrightarrow> (\<forall>(n, old, w) \<in> set xs. \<exists>what. w = Some what \<and>
     (\<forall>ts st. length ts = MAX_TOKENS \<longrightarrow>
        (\<exists>ts'. expr what ts (m\<lparr>nemu_state := st\<rparr>) = Inr (v what, True, ts', m\<lparr>nemu_state := st\<rparr>))))"

lemma upd_val_rel:
  fixes x :: u32
  assumes "wp_rel st hs fs" "i \<in> set hs"
  defines "st' \<equiv> upd_wp i (\<lambda>w. w\<lparr>wp_val := x\<rparr>) st"
  shows "wp_rel st' hs fs" "nexts st' = nexts st"
    "wp_entry st' j = (if j = i then (fst (wp_entry st i), x, snd (snd (wp_entry st i))) else wp_entry st j)"
proof -
  have i: "i < length (wp_pool st)" using assms(1,2) by (auto simp: wp_rel_def)
  show n: "nexts st' = nexts st" by (rule ext) (simp add: st'_def nexts_def upd_wp_def nth_update_any)
  show "wp_rel st' hs fs" using assms(1) n by (simp add: wp_rel_def st'_def upd_wp_def)
  show "wp_entry st' j = (if j = i then (fst (wp_entry st i), x, snd (snd (wp_entry st i))) else wp_entry st j)"
    using i by (simp add: st'_def wp_entry_def upd_wp_def Let_def)
qed

lemma next_of_node: "get_next_wp (Some i) st = nexts st i"
  by (simp add: get_next_wp_def nexts_def)

lemma watch_loop_NULL: "watch_loop seq None p = Some (Inr p)"
  by (subst watch_loop.simps) simp

text \<open>One watchpoint whose expression has a value.\<close>

lemma watch_loop_node:
  assumes "watched v m (wp_entry (u_wp u) i # xs)" "u_mach u = m\<lparr>nemu_state := st\<rparr>" "length (u_tokens u) = MAX_TOKENS"
  shows "\<exists>what ts. wp_what (wp_pool (u_wp u) ! i) = Some what \<and> length ts = MAX_TOKENS \<and>
    watch_loop seq (Some i) (hits, u) =
      watch_loop seq (get_next_wp (Some i) (u_wp (snd (watch_compare seq i what (v what) (hits, u\<lparr>u_tokens := ts\<rparr>)))))
        (watch_compare seq i what (v what) (hits, u\<lparr>u_tokens := ts\<rparr>))"
proof -
  obtain what where w: "wp_what (wp_pool (u_wp u) ! i) = Some what"
      "\<exists>ts'. expr what (u_tokens u) (u_mach u) = Inr (v what, True, ts', u_mach u)"
    using assms by (auto simp: watched_def wp_entry_def Let_def)
  moreover obtain ts where "expr what (u_tokens u) (u_mach u) = Inr (v what, True, ts, u_mach u)" "length ts = MAX_TOKENS"
    using w(2) expr_returns [OF assms(3), of what "u_mach u"] by auto
  ultimately show ?thesis
    by (subst watch_loop.simps) (auto simp: run_expr_def)
qed

lemma watched_Cons: "watched v m (x # xs) \<Longrightarrow> watched v m xs"
  by (simp add: watched_def)

lemma watch_loop_quiet:
  assumes "chain (nexts (u_wp u)) p hs" "watched v m (map (wp_entry (u_wp u)) hs)" "u_mach u = m\<lparr>nemu_state := st\<rparr>"
    "length (u_tokens u) = MAX_TOKENS" "status st \<noteq> NEMU_RUNNING"
  shows "\<exists>ts. watch_loop seq p (hits, u) = Some (Inr (hits, u\<lparr>u_tokens := ts\<rparr>)) \<and> length ts = MAX_TOKENS"
  using assms
proof (induction hs arbitrary: p u)
  case Nil
  then show ?case by (auto simp: watch_loop_NULL intro!: exI [of _ "u_tokens u"])
next
  case (Cons i hs)
  obtain what ts where ts: "length ts = MAX_TOKENS" "watch_loop seq (Some i) (hits, u) =
      watch_loop seq (get_next_wp (Some i) (u_wp (snd (watch_compare seq i what (v what) (hits, u\<lparr>u_tokens := ts\<rparr>)))))
        (watch_compare seq i what (v what) (hits, u\<lparr>u_tokens := ts\<rparr>))"
    using watch_loop_node [of v m u i "map (wp_entry (u_wp u)) hs" st seq hits] Cons.prems by auto
  moreover have "watch_compare seq i what (v what) (hits, u\<lparr>u_tokens := ts\<rparr>) = (hits, u\<lparr>u_tokens := ts\<rparr>)"
    using Cons.prems(3,5) by (simp add: watch_compare_def)
  ultimately show ?case
    using Cons.IH [of "u\<lparr>u_tokens := ts\<rparr>" "nexts (u_wp u) i"] Cons.prems by (auto simp: get_next_wp_def nexts_def watched_Cons)
qed

lemma watch_loop_first:
  assumes "wp_rel (u_wp u) (ps @ hs) fs" "chain (nexts (u_wp u)) p hs" "watched v m (map (wp_entry (u_wp u)) hs)"
    "u_mach u = m\<lparr>nemu_state := st\<rparr>" "length (u_tokens u) = MAX_TOKENS" "status st = NEMU_RUNNING"
  shows "\<exists>u'. watch_loop seq p (hits, u) = Some (Inr (hits @ fst (first_change v seq (map (wp_entry (u_wp u)) hs)), u'))
    \<and> wp_rel (u_wp u') (ps @ hs) fs \<and> length (u_tokens u') = MAX_TOKENS
    \<and> map (wp_entry (u_wp u')) (ps @ hs) = map (wp_entry (u_wp u)) ps @ snd (first_change v seq (map (wp_entry (u_wp u)) hs))
    \<and> u_mach u' = (if fst (first_change v seq (map (wp_entry (u_wp u)) hs)) = [] then u_mach u
        else set_status NEMU_STOP (u_mach u))"
  using assms
proof (induction hs arbitrary: ps p u)
  case Nil
  then show ?case by (auto simp: watch_loop_NULL intro!: exI [of _ u])
next
  case (Cons i hs)
  let ?xs = "map (wp_entry (u_wp u)) hs"
  obtain what ts where ts: "wp_what (wp_pool (u_wp u) ! i) = Some what" "length ts = MAX_TOKENS"
      "watch_loop seq (Some i) (hits, u) =
      watch_loop seq (get_next_wp (Some i) (u_wp (snd (watch_compare seq i what (v what) (hits, u\<lparr>u_tokens := ts\<rparr>)))))
        (watch_compare seq i what (v what) (hits, u\<lparr>u_tokens := ts\<rparr>))"
    using watch_loop_node [of v m u i ?xs st seq hits] Cons.prems by auto
  let ?u = "u\<lparr>u_tokens := ts\<rparr>" and ?w = "wp_pool (u_wp u) ! i"
  have entry: "wp_entry (u_wp u) i = (wp_NO ?w, wp_val ?w, Some what)" using ts(1) by (simp add: wp_entry_def Let_def)
  have p: "p = Some i" "chain (nexts (u_wp u)) (nexts (u_wp u) i) hs" using Cons.prems(2) by auto
  show ?case
  proof (cases "v what = wp_val ?w")
    case True
    then have "watch_compare seq i what (v what) (hits, ?u) = (hits, ?u)" by (simp add: watch_compare_def)
    moreover have "wp_rel (u_wp ?u) ((ps @ [i]) @ hs) fs" using Cons.prems(1) by simp
    ultimately show ?thesis
      using Cons.IH [of ?u "ps @ [i]" "nexts (u_wp u) i"] Cons.prems(3-6) p ts entry True
      by (auto simp: next_of_node watched_Cons)
  next
    case False
    let ?wp = "upd_wp i (\<lambda>w. w\<lparr>wp_val := v what\<rparr>) (u_wp u)"
    let ?v = "?u\<lparr>u_wp := ?wp, u_mach := set_status NEMU_STOP (u_mach u)\<rparr>"
    let ?hit = "\<lparr>hit_NO = wp_NO ?w, hit_what = what, hit_old = wp_val ?w, hit_new = v what, hit_pc = seq\<rparr>"
    have c: "watch_compare seq i what (v what) (hits, ?u) = (hits @ [?hit], ?v)"
      using False Cons.prems(4,6) by (simp add: watch_compare_def Let_def)
    note r = upd_val_rel [OF Cons.prems(1), of i "v what"]
    have i: "i \<notin> set ps" "i \<notin> set hs" using Cons.prems(1) by (auto simp: wp_rel_def)
    then have e: "map (wp_entry ?wp) ps = map (wp_entry (u_wp u)) ps" "map (wp_entry ?wp) hs = ?xs"
      using r(3) by (auto simp: map_eq_conv)
    have st: "u_mach ?v = m\<lparr>nemu_state := st\<lparr>status := NEMU_STOP\<rparr>\<rparr>" using Cons.prems(4) by (simp add: set_status_def)
    obtain ts' where "watch_loop seq (nexts (u_wp u) i) (hits @ [?hit], ?v) = Some (Inr (hits @ [?hit], ?v\<lparr>u_tokens := ts'\<rparr>))"
        "length ts' = MAX_TOKENS"
      using watch_loop_quiet [of ?v "nexts (u_wp u) i" hs v m "st\<lparr>status := NEMU_STOP\<rparr>" seq "hits @ [?hit]"]
        Cons.prems(3) p(2) r(2) e(2) st ts(2) watched_Cons by auto
    moreover have "get_next_wp (Some i) ?wp = nexts (u_wp u) i" using r(2) by (simp add: next_of_node)
    ultimately have "watch_loop seq p (hits, u) = Some (Inr (hits @ [?hit], ?v\<lparr>u_tokens := ts'\<rparr>))"
      using ts(3) p(1) c by simp
    then show ?thesis
      using r(1,3) e entry False \<open>length ts' = MAX_TOKENS\<close> by (intro exI [of _ "?v\<lparr>u_tokens := ts'\<rparr>"]) auto
  qed
qed

lemma check_watchpoints_first:
  assumes "wp_abs (u_wp u) xs" "watched v (u_mach u) xs" "length (u_tokens u) = MAX_TOKENS"
    "status (nemu_state (u_mach u)) = NEMU_RUNNING"
  shows "\<exists>u'. check_watchpoints seq u = Some (Inr (fst (first_change v seq xs), u'))
    \<and> wp_abs (u_wp u') (snd (first_change v seq xs)) \<and> length (u_tokens u') = MAX_TOKENS
    \<and> u_mach u' = (if fst (first_change v seq xs) = [] then u_mach u else set_status NEMU_STOP (u_mach u))"
proof -
  obtain hs fs where r: "wp_rel (u_wp u) hs fs" "xs = map (wp_entry (u_wp u)) hs" using assms(1) by (auto simp: wp_abs_def)
  then have "chain (nexts (u_wp u)) (wp_head (u_wp u)) hs" by (simp add: wp_rel_def)
  then obtain u' where u': "watch_loop seq (wp_head (u_wp u)) ([], u) = Some (Inr (fst (first_change v seq xs), u'))"
      "wp_rel (u_wp u') hs fs" "length (u_tokens u') = MAX_TOKENS"
      "map (wp_entry (u_wp u')) hs = snd (first_change v seq xs)"
      "u_mach u' = (if fst (first_change v seq xs) = [] then u_mach u else set_status NEMU_STOP (u_mach u))"
    using watch_loop_first [of u "[]" hs fs "wp_head (u_wp u)" v "u_mach u" "nemu_state (u_mach u)" seq "[]"] r assms(2-4)
    by auto
  then have "wp_abs (u_wp u') (snd (first_change v seq xs))" unfolding wp_abs_def by metis
  then show ?thesis using u' by (auto simp: check_watchpoints_def get_next_wp_def)
qed

section \<open>The loop\<close>

text \<open>Without watchpoints the debug build runs the guest as the default build does.\<close>

lemma check_no_watchpoints: "wp_abs (u_wp u) [] \<Longrightarrow> check_watchpoints seq u = Some (Inr ([], u))"
  by (auto simp: check_watchpoints_def get_next_wp_def wp_abs_def wp_rel_def watch_loop_NULL)

lemma debug_loop_plain:
  "wp_abs (u_wp u) [] \<Longrightarrow> debug_loop ex ticks n (hits, u)
     = obnd (cpu_loop ex ticks n (u_mach u)) (\<lambda>m. Some (Inr (hits, u\<lparr>u_mach := m\<rparr>)))"
proof (induction n arbitrary: ticks u)
  case (Suc n)
  show ?case
    using Suc.IH Suc.prems
    by (auto simp: debug_turn_def check_no_watchpoints after_step_def Let_def obnd_def split: option.splits sum.splits)
qed simp

text \<open>A turn after which a watched value has changed stops the machine, with one report.\<close>

lemma debug_turn_stops:
  assumes "ex (host_tick t (u_mach u)) = Some (Inr (seq, m))" "status (nemu_state m) = NEMU_RUNNING"
    "wp_abs (u_wp u) xs" "watched v (m\<lparr>g_nr_guest_instr := g_nr_guest_instr m + 1\<rparr>) xs" "length (u_tokens u) = MAX_TOKENS"
    "fst (first_change v seq xs) \<noteq> []"
  shows "\<exists>u1. wp_abs (u_wp u1) (snd (first_change v seq xs)) \<and> debug_turn ex t (hits, u) =
    obnd (Some (device_update (set_status NEMU_STOP (m\<lparr>g_nr_guest_instr := g_nr_guest_instr m + 1\<rparr>))))
      (\<lambda>m. Some (Inr (hits @ fst (first_change v seq xs), u1\<lparr>u_mach := m\<rparr>)))"
proof -
  let ?m = "m\<lparr>g_nr_guest_instr := g_nr_guest_instr m + 1\<rparr>"
  obtain u1 where "check_watchpoints seq (u\<lparr>u_mach := ?m\<rparr>) = Some (Inr (fst (first_change v seq xs), u1))"
      "wp_abs (u_wp u1) (snd (first_change v seq xs))" "u_mach u1 = set_status NEMU_STOP ?m"
    using check_watchpoints_first [of "u\<lparr>u_mach := ?m\<rparr>" xs v seq] assms(2-6) by auto
  then show ?thesis using assms(1) by (intro exI [of _ u1]) (simp add: debug_turn_def)
qed

lemma stopped_device_update:
  assumes "device_update (set_status NEMU_STOP (m\<lparr>g_nr_guest_instr := c\<rparr>)) = Inr m2"
  shows "cpu m2 = cpu m" "status (nemu_state m2) \<noteq> NEMU_RUNNING"
  using device_update_frame [OF assms] by (auto simp: guest_def set_status_def)

text \<open>The built-in image changes \<open>$t0\<close> with its first instruction.\<close>

lemma builtin_sets_t0:
  "\<exists>s m. riscv32_once (host_tick (still_ticks 0) (set_status NEMU_RUNNING (init_isa (static_start Riscv32 quiet_host))))
      = Some (Inr (s, m)) \<and> at_word 1 (\<lambda>g p. g ! 5 = 0x80000000) m"
proof -
  let ?m = "set_status NEMU_RUNNING (init_isa (static_start Riscv32 quiet_host))"
  have "img_pmem (pmem ?m)"
    using img_loaded [of "static_start Riscv32 quiet_host"]
    by (simp add: init_isa_def restart_def set_status_def set_gpr_def Let_def IMAGE_START_def static_start_def)
  then have "at_word 0 (\<lambda>g p. True) ?m"
    by (simp add: at_word_def rv_wf_def init_isa_def restart_def set_status_def set_gpr_def Let_def load_bytes_def
        PMEM_BASE_def IMAGE_START_def static_start_def NR_GPR_def quiet_host_def)
  then have w: "at_word 0 (\<lambda>g p. True) (host_tick (still_ticks 0) ?m)"
    using quiet_closedD [OF at_word_closed] by (simp add: still_ticks_def)
  show ?thesis
    using at_word_step [OF w] img_step_0 [OF w] by (auto simp: img_nth img_decode is_mulhsu_no)
qed

lemma watched_t0:
  assumes "at_word k (\<lambda>g p. g ! 5 = x) m"
  shows "watched (\<lambda>_. x) (m\<lparr>g_nr_guest_instr := c\<rparr>) [(n, old, Some ''$t0 '')]"
proof -
  have t: "text_of (lex (Reg ''t0'')) = ''$t0 ''" by (simp add: text_of_def spell_def tk_defs)
  have "\<exists>ts'. expr ''$t0 '' ts (m\<lparr>g_nr_guest_instr := c, nemu_state := st\<rparr>)
      = Inr (x, True, ts', m\<lparr>g_nr_guest_instr := c, nemu_state := st\<rparr>)" if "length ts = MAX_TOKENS" for ts st
  proof -
    have s: "sem (Reg ''t0'') (m\<lparr>g_nr_guest_instr := c, nemu_state := st\<rparr>) = Some x"
      using assms by (simp add: reg_str2val_def isa_reg_str2val_def regsl_def at_word_def numeral_eq_Suc)
    have "reg_name_ok r" if "r \<in> reg_names (Reg ''t0'')" for r
      using that by (simp add: reg_name_ok_def is_alpha_c_def is_digit_c_def)
    moreover have "length (lex (Reg ''t0'')) < MAX_TOKENS" by (simp add: MAX_TOKENS_def)
    ultimately show ?thesis
      using expr_printed [of ts "Reg ''t0''" "m\<lparr>g_nr_guest_instr := c, nemu_state := st\<rparr>"] that s t by auto
  qed
  then show ?thesis by (simp add: watched_def)
qed

text \<open>
  C26. Watchpoints work in a build with \<open>DEBUG\<close>: when, after an instruction that leaves the machine
  running, some watched expression has another value than the one kept, \<open>cpu_exec\<close> goes no further. It
  reports the first such watchpoint in the pool's order, once, with its number, text, old and new
  value; its new value is kept, the others stay as they are, to be reported when the run is resumed.
\<close>

theorem debug_watchpoint_stops:
  assumes "ex (host_tick (ticks 0) (u_mach u)) = Some (Inr (seq, m))" "status (nemu_state m) = NEMU_RUNNING"
    "wp_abs (u_wp u) xs" "watched v (m\<lparr>g_nr_guest_instr := g_nr_guest_instr m + 1\<rparr>) xs" "length (u_tokens u) = MAX_TOKENS"
    "fst (first_change v seq xs) \<noteq> []" "debug_loop ex ticks (Suc n) (hits, u) = Some (Inr (hits', u'))"
  shows "hits' = hits @ fst (first_change v seq xs) \<and> wp_abs (u_wp u') (snd (first_change v seq xs))
    \<and> cpu (u_mach u') = cpu m \<and> status (nemu_state (u_mach u')) \<noteq> NEMU_RUNNING"
proof -
  let ?m = "set_status NEMU_STOP (m\<lparr>g_nr_guest_instr := g_nr_guest_instr m + 1\<rparr>)"
  obtain u1 where u1: "wp_abs (u_wp u1) (snd (first_change v seq xs))" "debug_turn ex (ticks 0) (hits, u) =
      obnd (Some (device_update ?m)) (\<lambda>m. Some (Inr (hits @ fst (first_change v seq xs), u1\<lparr>u_mach := m\<rparr>)))"
    using debug_turn_stops [of ex "ticks 0", OF assms(1-6)] by blast
  then obtain m2 where m2: "device_update ?m = Inr m2"
    using assms(7) by (auto simp: obnd_def split: option.splits sum.splits)
  then show ?thesis using u1 assms(7) stopped_device_update [OF m2] by auto
qed

theorem debug_watchpoint_stops_witness:
  "\<exists>u hits u'. debug_loop riscv32_once still_ticks 5 ([], u) = Some (Inr (hits, u'))
     \<and> map hit_new hits = [0x80000000] \<and> status (nemu_state (u_mach u')) \<noteq> NEMU_RUNNING"
proof -
  let ?m = "set_status NEMU_RUNNING (init_isa (static_start Riscv32 quiet_host))"
  obtain s m where m: "riscv32_once (host_tick (still_ticks 0) ?m) = Some (Inr (s, m))"
      "at_word 1 (\<lambda>g p. g ! 5 = 0x80000000) m" using builtin_sets_t0 by blast
  obtain wp where wp: "wp_abs wp [(0, 0, Some ''$t0 '')]"
    using wp_abs_set(2) [OF wp_abs_init, of 0 0 "''$t0 ''"] by (auto simp: NR_WP_def)
  let ?u = "(ui_start ?m)\<lparr>u_wp := wp, u_tokens := fresh_tokens\<rparr>"
  let ?hits = "[\<lparr>hit_NO = 0, hit_what = ''$t0 '', hit_old = 0, hit_new = 0x80000000, hit_pc = s\<rparr>]"
  have um: "u_mach ?u = ?m" "length (u_tokens ?u) = MAX_TOKENS" by (simp_all add: ui_start_def fresh_tokens_def)
  have first: "first_change (\<lambda>_. 0x80000000) s [(0, 0, Some ''$t0 '')] = (?hits, [(0, 0x80000000, Some ''$t0 '')])" by simp
  obtain hits u' where r: "debug_loop riscv32_once still_ticks (Suc 4) ([], ?u) = Some (Inr (hits, u'))"
  proof -
    let ?m1 = "set_status NEMU_STOP (m\<lparr>g_nr_guest_instr := g_nr_guest_instr m + 1\<rparr>)"
    have "sdl_events (hst ?m1) = []" using m(2) by (simp add: at_word_def set_status_def)
    then obtain m2 where m2: "device_update ?m1 = Inr m2"
      by (cases "device_update_flag (alrm ?m1)") (auto simp: device_update_def Let_def)
    have run: "status (nemu_state m) = NEMU_RUNNING" using m(2) by (simp add: at_word_def)
    obtain u1 where "debug_turn riscv32_once (still_ticks 0) ([], ?u) = Some (Inr (?hits, u1\<lparr>u_mach := m2\<rparr>))"
      using debug_turn_stops [of riscv32_once "still_ticks 0" ?u s m "[(0, 0, Some ''$t0 '')]" "\<lambda>_. 0x80000000" "[]"]
        m(1) um wp watched_t0 [OF m(2)] run first m2 by auto
    then have "debug_loop riscv32_once still_ticks (Suc 4) ([], ?u) = Some (Inr (?hits, u1\<lparr>u_mach := m2\<rparr>))"
      using stopped_device_update(2) [OF m2] unfolding debug_loop.simps(2) by simp
    then show ?thesis using that by blast
  qed
  have "hits = ?hits \<and> status (nemu_state (u_mach u')) \<noteq> NEMU_RUNNING"
    using debug_watchpoint_stops [of riscv32_once still_ticks ?u s m "[(0, 0, Some ''$t0 '')]" "\<lambda>_. 0x80000000" 4 "[]" hits u']
      m um wp watched_t0 [OF m(2)] r first by (simp add: at_word_def del: debug_loop.simps)
  then show ?thesis using r by (intro exI [of _ ?u] exI [of _ hits] exI [of _ u']) simp
qed

end
