(* ===== verification/AmIoe.thy ===== *)
theory AmIoe
  imports DeviceProps "HOL-Library.Signed_Division"
begin

text \<open>
  The device layer of the abstract machine on NEMU (\<open>abstract-machine/am/src/nemu\<close>), which guest
  programs call: \<open>ioe/timer.c\<close>, \<open>ioe/input.c\<close>, \<open>ioe/gpu.c\<close>, \<open>ioe/audio.c\<close>, the dispatch of \<open>ioe/ioe.c\<close>,
  \<open>putch\<close> of \<open>trm.c\<close> and \<open>mpe.c\<close>. The functions run on the guest: their loads and stores are
  \<open>paddr_read\<close> and \<open>paddr_write\<close> of the emulated machine, so that the model here and the model of the
  devices meet at the bus. The static variables of the files are the record \<open>am\<close>.

  A C \<open>int\<close> is an \<open>int\<close>, with \<open>c_int\<close> where a sum or product can leave its range. SDL calls the audio
  callback from another thread; \<open>audio_write\<close> takes a schedule that says how many bytes SDL asks for
  before each of its accesses to the bus, and logs what SDL got.
\<close>

section \<open>Addresses (nemu.h) and port access (riscv32.h, mips32.h)\<close>

definition SERIAL_PORT :: u32 where "SERIAL_PORT = 0xa10003f8"
definition KBD_ADDR :: u32 where "KBD_ADDR = 0xa1000060"
definition RTC_ADDR :: u32 where "RTC_ADDR = 0xa1000048"
definition VGACTL_ADDR :: u32 where "VGACTL_ADDR = 0xa1000100"
definition AUDIO_ADDR :: u32 where "AUDIO_ADDR = 0xa1000200"
definition FB_ADDR :: u32 where "FB_ADDR = 0xa0000000"
definition AUDIO_SBUF_ADDR :: u32 where "AUDIO_SBUF_ADDR = 0xa0800000"

definition inb :: "u32 \<Rightarrow> machine \<Rightarrow> fault + u32 \<times> machine" where "inb a m = paddr_read a 1 m"
definition inl :: "u32 \<Rightarrow> machine \<Rightarrow> fault + u32 \<times> machine" where "inl a m = paddr_read a 4 m"
definition outb :: "u32 \<Rightarrow> u32 \<Rightarrow> machine \<Rightarrow> fault + machine" where "outb a d m = paddr_write a d 1 m"
definition outl :: "u32 \<Rightarrow> u32 \<Rightarrow> machine \<Rightarrow> fault + machine" where "outl a d m = paddr_write a d 4 m"

text \<open>A signed result must fit in 32 bits.\<close>

definition c_int :: "int \<Rightarrow> fault + int" where
  "c_int i = (if - 2147483648 \<le> i \<and> i < 2147483648 then Inr i else Inl Int_Overflow)"

text \<open>The static variables: \<open>qtail\<close> of audio.c, \<open>rect\<close> of gpu.c and \<open>am_start_time\<close> of timer.c.\<close>

record am =
  qtail :: int
  rect :: u32
  am_start_time :: u64

section \<open>Timer (timer.c)\<close>

text \<open>
  \<open>inl(RTC_ADDR) + inl(RTC_ADDR + 4) * 1000 * 1000\<close>, 32-bit arithmetic throughout. The host's clock is
  asked once per read, so it may have moved on to \<open>t\<close> before the second.
\<close>

definition clock_at :: "u32 \<times> u32 \<Rightarrow> machine \<Rightarrow> machine" where
  "clock_at t m = m\<lparr>hst := (hst m)\<lparr>host_now := t\<rparr>\<rparr>"

definition rtc_time :: "u32 \<times> u32 \<Rightarrow> machine \<Rightarrow> fault + u32 \<times> machine" where
  "rtc_time t m =
     bnd (inl RTC_ADDR m) (\<lambda>(us, m1).
     bnd (inl (RTC_ADDR + 4) (clock_at t m1)) (\<lambda>(s, m2). Inr (us + s * 1000 * 1000, m2)))"

definition am_timer_init :: "u32 \<times> u32 \<Rightarrow> am \<Rightarrow> machine \<Rightarrow> fault + am \<times> machine" where
  "am_timer_init t a m = bnd (rtc_time t m) (\<lambda>(now, m1). Inr (a\<lparr>am_start_time := ucast now\<rparr>, m1))"

definition am_timer_uptime :: "u32 \<times> u32 \<Rightarrow> am \<Rightarrow> machine \<Rightarrow> fault + u64 \<times> machine" where
  "am_timer_uptime t a m = bnd (rtc_time t m) (\<lambda>(now, m1). Inr (ucast now - am_start_time a, m1))"

record rtc_date =
  second :: int
  minute :: int
  hour :: int
  day :: int
  month :: int
  year :: int

definition am_timer_rtc :: rtc_date where
  "am_timer_rtc = \<lparr>second = 0, minute = 0, hour = 0, day = 0, month = 0, year = 1900\<rparr>"

section \<open>Keyboard (input.c)\<close>

definition am_input_keybrd :: "machine \<Rightarrow> fault + (bool \<times> int) \<times> machine" where
  "am_input_keybrd m =
     bnd (inl KBD_ADDR m) (\<lambda>(am_scancode, m1).
     let sig = am_scancode AND KEYDOWN_MASK
     in Inr ((sig \<noteq> 0, sint (am_scancode XOR sig)), m1))"

section \<open>Screen (gpu.c)\<close>

definition SYNC_ADDR :: u32 where "SYNC_ADDR = VGACTL_ADDR + 4"

definition am_gpu_init :: "am \<Rightarrow> machine \<Rightarrow> fault + am \<times> machine" where
  "am_gpu_init a m = bnd (inl VGACTL_ADDR m) (\<lambda>(r, m1). Inr (a\<lparr>rect := r\<rparr>, m1))"

record gpu_config =
  present :: bool
  has_accel :: bool
  width :: int
  height :: int
  vmemsz :: int

definition am_gpu_config :: "am \<Rightarrow> gpu_config" where
  "am_gpu_config a =
     \<lparr>present = True, has_accel = False, width = sint (drop_bit 16 (rect a)), height = sint (rect a AND 0xffff),
      vmemsz = 0\<rparr>"

record gpu_fbdraw =
  fb_x :: int
  fb_y :: int
  pixels :: u32
  fb_w :: int
  fb_h :: int
  sync :: bool

text \<open>\<open>fb_row\<close> is the loop over \<open>x\<close>, \<open>fb_rows\<close> the loop over \<open>y\<close>; \<open>src\<close> is the address of \<open>pixels[i]\<close>.\<close>

fun fb_row :: "nat \<Rightarrow> int \<Rightarrow> int \<Rightarrow> int \<Rightarrow> u32 \<Rightarrow> machine \<Rightarrow> fault + u32 \<times> machine" where
  "fb_row 0 screen_w y x src m = Inr (src, m)"
| "fb_row (Suc n) screen_w y x src m =
     bnd (c_int (y * screen_w)) (\<lambda>r.
     bnd (c_int (r + x)) (\<lambda>k.
     bnd (paddr_read src 4 m) (\<lambda>(c, m1).
     bnd (paddr_write (FB_ADDR + 4 * word_of_int k) c 4 m1) (\<lambda>m2.
     fb_row n screen_w y (x + 1) (src + 4) m2))))"

fun fb_rows :: "nat \<Rightarrow> int \<Rightarrow> int \<Rightarrow> int \<Rightarrow> int \<Rightarrow> u32 \<Rightarrow> machine \<Rightarrow> fault + u32 \<times> machine" where
  "fb_rows 0 screen_w x w y src m = Inr (src, m)"
| "fb_rows (Suc n) screen_w x w y src m =
     bnd (c_int (x + w)) (\<lambda>_.
     bnd (fb_row (nat w) screen_w y x src m) (\<lambda>(src1, m1).
     fb_rows n screen_w x w (y + 1) src1 m1))"

text \<open>The two statements of \<open>__am_gpu_fbdraw\<close>: the request to show the frame comes first.\<close>

definition gpu_sync :: "gpu_fbdraw \<Rightarrow> machine \<Rightarrow> fault + machine" where
  "gpu_sync ctl m = (if sync ctl then outl SYNC_ADDR 1 m else Inr m)"

definition gpu_pixels :: "gpu_fbdraw \<Rightarrow> am \<Rightarrow> machine \<Rightarrow> fault + machine" where
  "gpu_pixels ctl a m =
     (if pixels ctl \<noteq> 0 then
        (let screen_w = sint (drop_bit 16 (rect a)) in
         bnd (c_int (fb_y ctl + fb_h ctl)) (\<lambda>_.
         bnd (fb_rows (nat (fb_h ctl)) screen_w (fb_x ctl) (fb_w ctl) (fb_y ctl) (pixels ctl) m) (\<lambda>(_, m1).
         Inr m1)))
      else Inr m)"

definition am_gpu_fbdraw :: "gpu_fbdraw \<Rightarrow> am \<Rightarrow> machine \<Rightarrow> fault + machine" where
  "am_gpu_fbdraw ctl a m = bnd (gpu_sync ctl m) (\<lambda>m1. gpu_pixels ctl a m1)"

definition am_gpu_status :: bool where "am_gpu_status = True"

section \<open>Audio (audio.c)\<close>

definition AUDIO_FREQ_ADDR :: u32 where "AUDIO_FREQ_ADDR = AUDIO_ADDR + 0x00"
definition AUDIO_CHANNELS_ADDR :: u32 where "AUDIO_CHANNELS_ADDR = AUDIO_ADDR + 0x04"
definition AUDIO_SAMPLES_ADDR :: u32 where "AUDIO_SAMPLES_ADDR = AUDIO_ADDR + 0x08"
definition AUDIO_SBUF_SIZE_ADDR :: u32 where "AUDIO_SBUF_SIZE_ADDR = AUDIO_ADDR + 0x0c"
definition AUDIO_INIT_ADDR :: u32 where "AUDIO_INIT_ADDR = AUDIO_ADDR + 0x10"
definition AUDIO_COUNT_ADDR :: u32 where "AUDIO_COUNT_ADDR = AUDIO_ADDR + 0x14"

definition am_audio_init :: "am \<Rightarrow> am" where
  "am_audio_init a = a\<lparr>qtail := 0\<rparr>"

definition am_audio_config :: "machine \<Rightarrow> fault + (bool \<times> int) \<times> machine" where
  "am_audio_config m = bnd (inl AUDIO_SBUF_SIZE_ADDR m) (\<lambda>(s, m1). Inr ((True, sint s), m1))"

definition am_audio_ctrl :: "int \<Rightarrow> int \<Rightarrow> int \<Rightarrow> machine \<Rightarrow> fault + machine" where
  "am_audio_ctrl fr ch sa m =
     bnd (outl AUDIO_FREQ_ADDR (word_of_int fr) m) (\<lambda>m1.
     bnd (outl AUDIO_CHANNELS_ADDR (word_of_int ch) m1) (\<lambda>m2.
     bnd (outl AUDIO_SAMPLES_ADDR (word_of_int sa) m2) (\<lambda>m3.
     outl AUDIO_INIT_ADDR 1 m3)))"

definition am_audio_status :: "machine \<Rightarrow> fault + int \<times> machine" where
  "am_audio_status m = bnd (inl AUDIO_COUNT_ADDR m) (\<lambda>(c, m1). Inr (sint c, m1))"

text \<open>
  SDL's callback asked for \<open>len\<close> bytes: those it takes out of the ring (the silence it appends when
  the ring runs dry is left out). \<open>audio_log\<close> counts the accesses and keeps the bytes taken so far.
\<close>

definition sdl_callback :: "nat \<Rightarrow> machine \<Rightarrow> u8 list \<times> machine" where
  "sdl_callback len m = (let (bs, m1) = audio_play (int len) m in (take (nat (count (aud m))) bs, m1))"

record audio_log =
  accesses :: nat
  heard :: "u8 list"

definition sdl_runs :: "(nat \<Rightarrow> nat) \<Rightarrow> audio_log \<times> machine \<Rightarrow> audio_log \<times> machine" where
  "sdl_runs sch s =
     (let (lg, m) = s; (bs, m1) = sdl_callback (sch (accesses lg)) m
      in (\<lparr>accesses = accesses lg + 1, heard = heard lg @ bs\<rparr>, m1))"

text \<open>
  \<open>audio_copy\<close> is the inner loop of \<open>audio_write\<close> over \<open>i < n\<close>, \<open>audio_write_loop\<close> the loop
  \<open>while (nwrite < len)\<close>, which spins while the ring is full.
\<close>

fun audio_copy ::
    "(nat \<Rightarrow> nat) \<Rightarrow> nat \<Rightarrow> int \<Rightarrow> u32 \<Rightarrow> int \<Rightarrow> audio_log \<times> machine \<Rightarrow>
     fault + u32 \<times> int \<times> audio_log \<times> machine" where
  "audio_copy sch 0 sbuf_size buf qt s = Inr (buf, qt, s)"
| "audio_copy sch (Suc n) sbuf_size buf qt s =
     (let (lg, m) = sdl_runs sch s in
      bnd (paddr_read buf 1 m) (\<lambda>(b, m1).
      bnd (outb (AUDIO_SBUF_ADDR + word_of_int qt) b m1) (\<lambda>m2.
      if sbuf_size = 0 then Inl Div_Trap
      else audio_copy sch n sbuf_size (buf + 1) ((qt + 1) smod sbuf_size) (lg, m2))))"

definition audio_room :: "int \<Rightarrow> int \<Rightarrow> int \<Rightarrow> machine \<Rightarrow> fault + int \<times> machine" where
  "audio_room sbuf_size len nwrite m =
     bnd (inl AUDIO_COUNT_ADDR m) (\<lambda>(c, m1).
     bnd (c_int (sbuf_size - sint c)) (\<lambda>rest_size.
     Inr (if len - nwrite < rest_size then len - nwrite else rest_size, m1)))"

partial_function (option) audio_write_loop ::
    "(nat \<Rightarrow> nat) \<Rightarrow> int \<Rightarrow> int \<Rightarrow> int \<Rightarrow> u32 \<Rightarrow> int \<Rightarrow> audio_log \<times> machine \<Rightarrow>
     (fault + int \<times> audio_log \<times> machine) option" where
  "audio_write_loop sch sbuf_size len nwrite buf qt s =
     (if nwrite < len then
        (let (lg, m) = sdl_runs sch s in
         case audio_room sbuf_size len nwrite m of
           Inl e \<Rightarrow> Some (Inl e)
         | Inr (n, m1) \<Rightarrow>
             (case audio_copy sch (nat n) sbuf_size buf qt (lg, m1) of
                Inl e \<Rightarrow> Some (Inl e)
              | Inr (buf1, qt1, s1) \<Rightarrow> audio_write_loop sch sbuf_size len (nwrite + n) buf1 qt1 s1))
      else Some (Inr (qt, s)))"

definition audio_write ::
    "(nat \<Rightarrow> nat) \<Rightarrow> u32 \<Rightarrow> int \<Rightarrow> am \<Rightarrow> machine \<Rightarrow> (fault + am \<times> audio_log \<times> machine) option" where
  "audio_write sch buf len a m =
     obnd (Some (inl AUDIO_SBUF_SIZE_ADDR m)) (\<lambda>(sz, m1).
     obnd (audio_write_loop sch (sint sz) len 0 buf (qtail a) (\<lparr>accesses = 0, heard = []\<rparr>, m1)) (\<lambda>(qt, lg, m2).
     Some (Inr (a\<lparr>qtail := qt\<rparr>, lg, m2))))"

definition am_audio_play ::
    "(nat \<Rightarrow> nat) \<Rightarrow> u32 \<Rightarrow> u32 \<Rightarrow> am \<Rightarrow> machine \<Rightarrow> (fault + am \<times> audio_log \<times> machine) option" where
  "am_audio_play sch buf_start buf_end a m = audio_write sch buf_start (sint (buf_end - buf_start)) a m"

section \<open>Initialisation and dispatch (ioe.c)\<close>

definition ioe_init :: "u32 \<times> u32 \<Rightarrow> am \<Rightarrow> machine \<Rightarrow> fault + am \<times> machine" where
  "ioe_init t a m =
     bnd (am_gpu_init a m) (\<lambda>(a1, m1).
     bnd (am_timer_init t a1 m1) (\<lambda>(a2, m2).
     Inr (am_audio_init a2, m2)))"

text \<open>
  \<open>ioe_read\<close> and \<open>ioe_write\<close> call \<open>lut[reg]\<close> on the structure of the register: one constructor per
  \<open>AM_xxx_T\<close> that has a handler. A register without one reaches \<open>fail\<close>, which panics; an index outside
  \<open>lut\<close> is a read outside the array. The macros \<open>io_read\<close> and \<open>io_write\<close> pair register and structure.
\<close>

datatype am_reg =
    Timer_Config bool bool | Timer_Rtc rtc_date | Timer_Uptime u64
  | Input_Config bool | Input_Keybrd bool int
  | Gpu_Config gpu_config | Gpu_Fbdraw gpu_fbdraw | Gpu_Status bool
  | Uart_Config bool | Disk_Config bool | Net_Config bool
  | Audio_Config bool int | Audio_Ctrl int int int | Audio_Status int | Audio_Play u32 u32

definition ioe_pure :: "am_reg \<Rightarrow> am \<Rightarrow> machine \<Rightarrow> (fault + am_reg \<times> am \<times> machine) option" where
  "ioe_pure r a m = Some (Inr (r, a, m))"

definition ioe_step :: "fault + 'a \<times> machine \<Rightarrow> ('a \<Rightarrow> am_reg) \<Rightarrow> am \<Rightarrow> (fault + am_reg \<times> am \<times> machine) option" where
  "ioe_step r f a = Some (bnd r (\<lambda>(x, m1). Inr (f x, a, m1)))"

definition ioe_store :: "fault + machine \<Rightarrow> am_reg \<Rightarrow> am \<Rightarrow> (fault + am_reg \<times> am \<times> machine) option" where
  "ioe_store r v a = Some (bnd r (\<lambda>m1. Inr (v, a, m1)))"

text \<open>
  The handlers of \<open>lut\<close> by index, with the structure the caller passes. A handler that reads a structure
  of another type reads memory that is not its own.
\<close>

definition ioe_call ::
    "(nat \<Rightarrow> nat) \<Rightarrow> u32 \<times> u32 \<Rightarrow> int \<Rightarrow> am_reg \<Rightarrow> am \<Rightarrow> machine \<Rightarrow> (fault + am_reg \<times> am \<times> machine) option" where
  "ioe_call sch t reg v a m =
     (if reg < 0 \<or> 128 \<le> reg then Some (Inl Out_Of_Bounds)
      else if reg = 1 then ioe_pure (Uart_Config False) a m
      else if reg = 4 then ioe_pure (Timer_Config True True) a m
      else if reg = 5 then ioe_pure (Timer_Rtc am_timer_rtc) a m
      else if reg = 6 then ioe_step (am_timer_uptime t a m) Timer_Uptime a
      else if reg = 7 then ioe_pure (Input_Config True) a m
      else if reg = 8 then ioe_step (am_input_keybrd m) (\<lambda>(d, k). Input_Keybrd d k) a
      else if reg = 9 then ioe_pure (Gpu_Config (am_gpu_config a)) a m
      else if reg = 10 then ioe_pure (Gpu_Status am_gpu_status) a m
      else if reg = 11 then
        (case v of Gpu_Fbdraw ctl \<Rightarrow> ioe_store (am_gpu_fbdraw ctl a m) v a | _ \<Rightarrow> Some (Inl Out_Of_Bounds))
      else if reg = 14 then ioe_step (am_audio_config m) (\<lambda>(p, b). Audio_Config p b) a
      else if reg = 15 then
        (case v of Audio_Ctrl fr ch sa \<Rightarrow> ioe_store (am_audio_ctrl fr ch sa m) v a | _ \<Rightarrow> Some (Inl Out_Of_Bounds))
      else if reg = 16 then ioe_step (am_audio_status m) Audio_Status a
      else if reg = 17 then
        (case v of
           Audio_Play st en \<Rightarrow> obnd (am_audio_play sch st en a m) (\<lambda>(a1, lg, m1). Some (Inr (v, a1, m1)))
         | _ \<Rightarrow> Some (Inl Out_Of_Bounds))
      else if reg = 18 then ioe_pure (Disk_Config False) a m
      else if reg = 21 then ioe_pure (Net_Config False) a m
      else Some (Inl Panic))"

definition ioe_read ::
    "(nat \<Rightarrow> nat) \<Rightarrow> u32 \<times> u32 \<Rightarrow> int \<Rightarrow> am_reg \<Rightarrow> am \<Rightarrow> machine \<Rightarrow> (fault + am_reg \<times> am \<times> machine) option" where
  "ioe_read sch t reg buf a m = ioe_call sch t reg buf a m"

definition ioe_write ::
    "(nat \<Rightarrow> nat) \<Rightarrow> u32 \<times> u32 \<Rightarrow> int \<Rightarrow> am_reg \<Rightarrow> am \<Rightarrow> machine \<Rightarrow> (fault + am_reg \<times> am \<times> machine) option" where
  "ioe_write sch t reg buf a m = ioe_call sch t reg buf a m"

section \<open>Terminal (trm.c) and the single processor (mpe.c)\<close>

definition putch :: "u8 \<Rightarrow> machine \<Rightarrow> fault + machine" where
  "putch ch m = outb SERIAL_PORT (ucast ch) m"

definition mpe_init :: bool where "mpe_init = False"
definition cpu_count :: int where "cpu_count = 1"
definition cpu_current :: int where "cpu_current = 0"

definition atomic_xchg :: "u32 \<Rightarrow> int \<Rightarrow> machine \<Rightarrow> int \<times> machine" where
  "atomic_xchg addr newval m = (0, m)"

end
