(* ===== verification/AmIoeProps.thy ===== *)
theory AmIoeProps
  imports AmIoe
begin

text \<open>
  What the abstract machine's device layer does on an emulator whose devices are up: the properties
  follow a value from the guest's call through the bus to the host, or back. \<open>regs_ready\<close> says that the
  two constant device registers hold what \<open>init_device\<close> stored there.
\<close>

section \<open>The machine the layer runs on\<close>

definition regs_ready :: "machine \<Rightarrow> bool" where
  "regs_ready m \<longleftrightarrow> reg_get 8192 0 m = 0x190012C \<and> reg_get 499712 3 m = 65536"

lemma init_vga_reg:
  "io_stage 8192 2 2 b hs m0 m \<Longrightarrow> init_vga m = Inr m' \<Longrightarrow> reg_get 8192 0 m' = 0x190012C"
  by (auto simp: init_vga_def io_init_defs reg_get_def)

lemma init_i8042_reg:
  "io_stage 495616 4 3 b hs m0 m \<Longrightarrow> init_i8042 m = Inr m' \<Longrightarrow> reg_get 8192 0 m' = reg_get 8192 0 m"
  by (auto simp: init_i8042_def io_init_defs reg_get_def get32_put32_apart)

lemma init_audio_reg:
  "io_stage 499712 5 4 b hs m0 m \<Longrightarrow> sdl_init_audio_ok (hst m0) \<Longrightarrow> init_audio m = Inr m' \<Longrightarrow>
   reg_get 8192 0 m' = reg_get 8192 0 m \<and> reg_get 499712 3 m' = 65536"
  by (auto simp: init_audio_def io_init_defs reg_get_def get32_put32_apart reg_sbuf_size_def)

lemma init_device_regs:
  assumes "io_fresh m" "sdl_init_audio_ok (hst m)" "init_device m = Inr m'"
  shows "io_ready m' \<and> regs_ready m' \<and> aud m' = aud m"
proof -
  obtain m1 where m1: "init_serial m = Inr m1" "io_stage 4096 1 1 ((bases m)\<lparr>serial_base := 0\<rparr>) [] m m1"
    using init_serial_stage [of "bases m" "[]" m m] assms(1) by (auto simp: io_stage_def io_fresh_def)
  obtain m2 where m2: "init_timer m1 = Inr m2"
    "io_stage 8192 2 2 ((bases m)\<lparr>serial_base := 0, rtc_port_base := 4096\<rparr>) [Timer_intr] m m2"
    using init_timer_stage [OF m1(2)] by auto
  obtain m3 b where m3: "init_vga m2 = Inr m3" "io_stage 495616 4 3 b [Timer_intr] m m3"
    using init_vga_stage [OF m2(2)] by blast
  obtain m4 b' where m4: "init_i8042 m3 = Inr m4" "io_stage 499712 5 4 b' [Timer_intr] m m4"
    using init_i8042_stage [OF m3(2)] by blast
  obtain m5 where m5: "init_audio m4 = Inr m5"
    using init_audio_stage [OF m4(2) assms(2)] by auto
  have "add_alarm_handle Set_device_update_flag m5 = Inr m'"
    using assms(3) by (simp add: init_device_def m1(1) m2(1) m3(1) m4(1) m5)
  then have "bus m' = bus m5" by (auto simp: add_alarm_handle_def bnd_simps)
  then have "regs_ready m'"
    using init_audio_reg [OF m4(2) assms(2) m5] init_i8042_reg [OF m3(2) m4(1)] init_vga_reg [OF m2(2) m3(1)]
    by (simp add: regs_ready_def reg_get_def)
  moreover have "io_ready m' \<and> aud m' = aud m"
    using init_device_stage [OF assms(1,2)] assms(3) io_stage_ready by (auto simp: io_stage_def)
  ultimately show ?thesis by simp
qed

section \<open>Register reads\<close>

lemma inl_read:
  assumes "io_ready m" "mp \<in> set ready_mmio" "map_inside mp a"
  shows "inl a m = bnd (invoke_callback (callback mp) (a - low mp) 4 False m)
      (\<lambda>m1. Inr (get32 (io_space (bus m1)) (space mp + unat (a - low mp)), m1))"
  using mmio_read_ready [OF assms, of 4] by (simp add: inl_def)

lemma rtc_map:
  "\<lparr>name = ''rtc'', low = 0xa1000048, high = 0xa100004F, space = 4096, callback = Rtc_io_handler\<rparr> \<in> set ready_mmio"
  by (simp add: ready_mmio_def)

lemma audio_map:
  "\<lparr>name = ''audio'', low = 0xa1000200, high = 0xa1000217, space = 499712, callback = Audio_io_handler\<rparr>
     \<in> set ready_mmio"
  by (simp add: ready_mmio_def)

lemma inl_rtc:
  assumes "io_ready m"
  shows "inl RTC_ADDR m = Inr (fst (host_now (hst m)),
      reg_put 4096 1 (snd (host_now (hst m))) (reg_put 4096 0 (fst (host_now (hst m))) m))"
    "inl (RTC_ADDR + 4) m = Inr (snd (host_now (hst m)),
      reg_put 4096 1 (snd (host_now (hst m))) (reg_put 4096 0 (fst (host_now (hst m))) m))"
proof -
  have b: "rtc_port_base (bases m) = 4096" using assms by (simp add: io_ready_def ready_bases_def)
  have g: "get32 (io_space (bus (reg_put 4096 1 u (reg_put 4096 0 v m)))) 4096 = v"
      "get32 (io_space (bus (reg_put 4096 1 u (reg_put 4096 0 v m)))) 4100 = u" for u v
    using reg_get_put_other [of 0 1 4096 u "reg_put 4096 0 v m"] reg_get_put [of 4096 1 u] reg_get_put [of 4096 0 v m]
    by (simp_all add: reg_get_def)
  show "inl RTC_ADDR m = Inr (fst (host_now (hst m)),
      reg_put 4096 1 (snd (host_now (hst m))) (reg_put 4096 0 (fst (host_now (hst m))) m))"
    using inl_read [OF assms rtc_map, of RTC_ADDR] b g
    by (simp add: RTC_ADDR_def map_inside_def invoke_callback_def rtc_io_handler_def split: prod.splits)
  show "inl (RTC_ADDR + 4) m = Inr (snd (host_now (hst m)),
      reg_put 4096 1 (snd (host_now (hst m))) (reg_put 4096 0 (fst (host_now (hst m))) m))"
    using inl_read [OF assms rtc_map, of "RTC_ADDR + 4"] b g
    by (simp add: RTC_ADDR_def map_inside_def invoke_callback_def rtc_io_handler_def split: prod.splits)
qed

lemma inl_screen_size: "io_ready m \<Longrightarrow> inl VGACTL_ADDR m = Inr (reg_get 8192 0 m, m)"
  using inl_read [OF _ screen_map, of m VGACTL_ADDR]
  by (simp add: VGACTL_ADDR_def map_inside_def invoke_callback_def reg_get_def)

lemma inl_sbuf_size: "io_ready m \<Longrightarrow> inl AUDIO_SBUF_SIZE_ADDR m = Inr (reg_get 499712 3 m, m)"
  using inl_read [OF _ audio_map, of m AUDIO_SBUF_SIZE_ADDR]
  by (simp add: AUDIO_SBUF_SIZE_ADDR_def AUDIO_ADDR_def map_inside_def invoke_callback_def audio_io_handler_def
      reg_off_def reg_freq_def reg_channels_def reg_samples_def reg_init_def reg_sbuf_size_def reg_count_def reg_get_def)

lemma inl_count:
  assumes "io_ready m"
  shows "inl AUDIO_COUNT_ADDR m =
    Inr (word_of_int (count (aud m)), reg_put 499712 5 (word_of_int (count (aud m))) m)"
proof -
  have b: "audio_base (bases m) = 499712" using assms by (simp add: io_ready_def ready_bases_def)
  have g: "get32 (io_space (bus (reg_put 499712 5 v m))) 499732 = v" for v
    using reg_get_put [of 499712 5 v m] by (simp add: reg_get_def)
  show ?thesis
    using inl_read [OF assms audio_map, of AUDIO_COUNT_ADDR] b g
    by (simp add: AUDIO_COUNT_ADDR_def AUDIO_ADDR_def map_inside_def invoke_callback_def audio_io_handler_def
      reg_off_def reg_freq_def reg_channels_def reg_samples_def reg_init_def reg_sbuf_size_def reg_count_def)
qed

section \<open>The clock\<close>

text \<open>Microseconds of a host time, and the 32 bits of it the guest computes with.\<close>

definition micros :: "u32 \<times> u32 \<Rightarrow> int" where
  "micros t = uint (snd t) * 1000000 + uint (fst t)"

lemma io_ready_clock [simp]: "io_ready (clock_at t m) = io_ready m"
  by (simp add: clock_at_def io_ready_def)

lemma rtc_time_reads:
  assumes "io_ready m"
  shows "\<exists>m1. rtc_time t m = Inr (fst (host_now (hst m)) + snd t * 1000000, m1) \<and> io_ready m1"
  using inl_rtc [OF assms] inl_rtc(2) [of "clock_at t (reg_put 4096 1 (snd (host_now (hst m)))
      (reg_put 4096 0 (fst (host_now (hst m))) m))"] assms
  by (simp add: rtc_time_def mult.assoc) (simp add: clock_at_def)

lemma micros_word: "uint (fst t + snd t * 1000000 :: u32) = micros t mod 4294967296"
proof -
  have "uint (1000000 :: u32) = 1000000" by simp
  then show ?thesis by (simp add: micros_def uint_word_ariths(1,3) mod_simps ac_simps del: uint_numeral)
qed

lemma ucast_diff: "(ucast (a :: u32) :: u64) - ucast b = word_of_int (uint a - uint b)"
  by (simp only: ucast_eq wi_hom_sub)

lemma micros_less: "0 \<le> micros t \<and> micros t < 4294967296 * 1000001"
  using uint_bounded [of "fst t"] uint_bounded [of "snd t"] by (simp add: micros_def) 

lemma word_of_int_eq_dvd: "(word_of_int a :: u64) = word_of_int b \<longleftrightarrow> 18446744073709551616 dvd b - a"
proof -
  have "(word_of_int b :: u64) = word_of_int a \<longleftrightarrow> b mod 18446744073709551616 = a mod 18446744073709551616"
    by (simp add: word_of_int_eq_iff take_bit_eq_mod)
  then show ?thesis by (auto simp: mod_eq_dvd_iff)
qed

lemma high_part_dvd:
  fixes q r :: int
  assumes "\<bar>q - r\<bar> < 4294967296"
  shows "18446744073709551616 dvd 4294967296 * (q - r) \<longleftrightarrow> q = r"
proof -
  have "18446744073709551616 dvd 4294967296 * (q - r) \<longleftrightarrow> 4294967296 dvd q - r"
    using dvd_mult_cancel_left [of 4294967296 4294967296 "q - r"] by simp
  then show ?thesis using assms zdvd_imp_le [of 4294967296 "\<bar>q - r\<bar>"] by auto
qed

lemma word_of_int_diff_eq:
  fixes x y :: int
  assumes "0 \<le> x" "x < 4294967296 * 1000001" "0 \<le> y" "y < 4294967296 * 1000001"
  shows "(word_of_int (x mod 4294967296 - y mod 4294967296) :: u64) = word_of_int (x - y) \<longleftrightarrow>
    x div 4294967296 = y div 4294967296"
proof -
  have "(x - y) - (x mod 4294967296 - y mod 4294967296) = 4294967296 * (x div 4294967296 - y div 4294967296)"
    by (simp add: minus_mod_eq_mult_div [symmetric] algebra_simps)
  moreover have "\<bar>x div 4294967296 - y div 4294967296\<bar> < 4294967296" using assms by linarith
  ultimately show ?thesis
    using high_part_dvd [of "x div 4294967296" "y div 4294967296"] by (simp only: word_of_int_eq_dvd)
qed

section \<open>The keyboard\<close>

definition decode_key :: "u32 \<Rightarrow> bool \<times> int" where
  "decode_key c = (c AND KEYDOWN_MASK \<noteq> 0, sint (c XOR (c AND KEYDOWN_MASK)))"

text \<open>\<open>n\<close> reads of the keyboard by the guest program, and what the events of the host mean to it.\<close>

fun am_keys :: "nat \<Rightarrow> machine \<Rightarrow> fault + (bool \<times> int) list \<times> machine" where
  "am_keys 0 m = Inr ([], m)"
| "am_keys (Suc n) m =
     bnd (am_input_keybrd m) (\<lambda>(k, m1). bnd (am_keys n m1) (\<lambda>(ks, m2). Inr (k # ks, m2)))"

definition am_event :: "(u8 \<Rightarrow> u32) \<Rightarrow> SDL_Event \<Rightarrow> (bool \<times> int) list" where
  "am_event km e =
     (case e of
        SDL_KEYDOWN k \<Rightarrow> if km (ucast k) = KEY_NONE then [] else [(True, sint (km (ucast k)))]
      | SDL_KEYUP k \<Rightarrow> if km (ucast k) = KEY_NONE then [] else [(False, sint (km (ucast k)))]
      | _ \<Rightarrow> [])"

lemma bit_keydown_mask: "bit KEYDOWN_MASK n \<longleftrightarrow> n = 15"
proof -
  have m: "KEYDOWN_MASK = 2 ^ 15" by (simp add: KEYDOWN_MASK_def)
  show ?thesis unfolding m bit_exp_iff by auto
qed

lemma small_code: "c < 0x8000 \<Longrightarrow> \<not> bit c 15" for c :: u32
proof -
  assume "c < 0x8000"
  then have "unat c < 2 ^ 15" by (simp add: word_less_nat_alt)
  then have "take_bit 15 c = c" by (simp add: word_unat_eq_iff unsigned_take_bit_eq take_bit_nat_eq_self)
  then show "\<not> bit c 15" by (metis bit_take_bit_iff less_irrefl)
qed

lemma decode_key_up: "c < 0x8000 \<Longrightarrow> decode_key c = (False, sint c)"
proof -
  assume "c < 0x8000"
  then have "c AND KEYDOWN_MASK = 0"
    by (intro bit_word_eqI) (auto simp: bit_simps bit_keydown_mask dest: small_code)
  then show "decode_key c = (False, sint c)" by (simp add: decode_key_def)
qed

lemma decode_key_down: "c < 0x8000 \<Longrightarrow> decode_key (c OR KEYDOWN_MASK) = (True, sint c)"
proof -
  assume "c < 0x8000"
  then have "(c OR KEYDOWN_MASK) AND KEYDOWN_MASK = KEYDOWN_MASK"
      and "(c OR KEYDOWN_MASK) XOR KEYDOWN_MASK = c"
    by (auto intro!: bit_word_eqI simp: bit_simps bit_keydown_mask dest: small_code)
  then show "decode_key (c OR KEYDOWN_MASK) = (True, sint c)"
    by (simp add: decode_key_def) (simp add: KEYDOWN_MASK_def)
qed

lemma decode_key_codes:
  "\<forall>k. km k < 0x8000 \<Longrightarrow> map decode_key (key_codes km es) = concat (map (am_event km) es)"
  by (induction es) (auto simp: key_codes_def key_code_def am_event_def decode_key_up decode_key_down
      split: SDL_Event.splits)

lemma am_keys_take_n:
  "io_ready m \<Longrightarrow> \<exists>m'. am_keys n m = Inr (map decode_key (fst (kbd.take_n n KEY_NONE (kbd m))), m')"
proof (induction n arbitrary: m)
  case (Suc n)
  obtain m' where m': "inl KBD_ADDR m =
      Inr (case key_dequeue (kbd m) of None \<Rightarrow> KEY_NONE | Some (x, _) \<Rightarrow> x, m')" "io_ready m'"
    "kbd m' = (case key_dequeue (kbd m) of None \<Rightarrow> kbd m | Some (_, k) \<Rightarrow> k)"
    using read_kbd [OF Suc.prems] unfolding inl_def KBD_ADDR_def KBD_MMIO_def by blast
  obtain m2 where "am_keys n m' = Inr (map decode_key (fst (kbd.take_n n KEY_NONE (kbd m'))), m2)"
    using Suc.IH [OF m'(2)] by blast
  then show ?case
    using m'(1,3) by (cases "key_dequeue (kbd m)") (auto simp: am_input_keybrd_def decode_key_def Let_def)
qed simp

section \<open>Properties: clock and keyboard\<close>



text \<open>
  C9. A guest program sees the keyboard as the host does: the known keys pressed and released while the
  machine runs come back from \<open>__am_input_keybrd\<close> as presses and releases of their key codes, in order,
  and then as \<open>AM_KEY_NONE\<close> for as long as it asks.
\<close>

theorem am_keyboard_events:
  assumes "io_ready m" "status (nemu_state m) = NEMU_RUNNING" "kbd_wf (kbd m)" "kbd_content (kbd m) = []"
    and "SDL_QUIT \<notin> set es" "\<forall>k. keymap (hst m) k < 0x8000"
    and "length (concat (map (am_event (keymap (hst m))) es)) \<le> 1023"
  shows "\<exists>m1. handle_events es m = Inr m1 \<and>
    (\<forall>extra. \<exists>m2. am_keys (length (concat (map (am_event (keymap (hst m))) es)) + extra) m1 =
       Inr (concat (map (am_event (keymap (hst m))) es) @ replicate extra (False, 0), m2))"
proof -
  let ?ks = "key_codes (keymap (hst m)) es"
  let ?es = "concat (map (am_event (keymap (hst m))) es)"
  have d: "map decode_key ?ks = ?es" by (rule decode_key_codes [OF assms(6)])
  then have l: "length ?ks = length ?es" by (metis length_map)
  obtain k where k: "kbd.put_all ?ks (kbd m) = Inr k" "kbd_wf k" "kbd_content k = ?ks"
    using kbd.put_all_fits [of "kbd m" ?ks] assms(3,4,7) l by auto
  have r: "io_ready (m\<lparr>kbd := k\<rparr>)" using assms(1) by (simp add: io_ready_def)
  have z: "decode_key KEY_NONE = (False, 0)" by (simp add: decode_key_def KEY_NONE_def)
  have "\<exists>m2. am_keys (length ?es + e) (m\<lparr>kbd := k\<rparr>) = Inr (?es @ replicate e (False, 0), m2)" for e
    using am_keys_take_n [OF r, of "length ?es + e"] kbd.take_n_content [OF k(2), of "length ?es + e" KEY_NONE]
    by (simp add: k(3) l [symmetric] d [symmetric] z)
  then show ?thesis using handle_events_keys [OF assms(2,5)] k(1) by auto
qed

theorem am_keyboard_events_witness:
  "\<exists>m1 m2. handle_events [SDL_KEYDOWN 4, SDL_KEYUP 4] (ioe_machine Mips32 (quiet_host\<lparr>keymap := (\<lambda>k. 43)\<rparr>)) = Inr m1 \<and>
    am_keys 3 m1 = Inr ([(True, 43), (False, 43), (False, 0)], m2)"
proof -
  let ?m = "ioe_machine Mips32 (quiet_host\<lparr>keymap := (\<lambda>k. 43)\<rparr>)"
  have e: "concat (map (am_event (keymap (hst ?m))) [SDL_KEYDOWN 4, SDL_KEYUP 4]) = [(True, 43), (False, 43)]"
    by (simp add: am_event_def KEY_NONE_def)
  have "\<exists>m1. handle_events [SDL_KEYDOWN 4, SDL_KEYUP 4] ?m = Inr m1 \<and>
    (\<forall>extra. \<exists>m2. am_keys (2 + extra) m1 = Inr ([(True, 43), (False, 43)] @ replicate extra (False, 0), m2))"
    using am_keyboard_events [of ?m "[SDL_KEYDOWN 4, SDL_KEYUP 4]"] kbd_start unfolding e by simp
  then obtain m1 m2 where "handle_events [SDL_KEYDOWN 4, SDL_KEYUP 4] ?m = Inr m1"
    "am_keys (2 + 1) m1 = Inr ([(True, 43), (False, 43)] @ replicate 1 (False, 0), m2)" by blast
  then show ?thesis by (auto simp del: am_keys.simps)
qed

section \<open>Drawing\<close>

lemma word_reg_put [simp]:
  "word_ok s (reg_put b i v m) = word_ok s m" "word_get s (reg_put b i v m) = word_get s m"
  by (simp_all add: word_ok_def word_get_def reg_put_def in_pmem_def pmem_index_def)

text \<open>What drawing may change: the bytes of \<open>io_space\<close> from video memory on.\<close>

definition drawn :: "machine \<Rightarrow> machine \<Rightarrow> bool" where
  "drawn m m' \<longleftrightarrow> (\<exists>f. m' = m\<lparr>bus := (bus m)\<lparr>io_space := f\<rparr>\<rparr> \<and> (\<forall>a < 12288. f a = io_space (bus m) a))"

lemma drawn_refl: "drawn m m"
  unfolding drawn_def by (rule exI [of _ "io_space (bus m)"]) simp

lemma drawn_trans: "drawn m m1 \<Longrightarrow> drawn m1 m2 \<Longrightarrow> drawn m m2"
  unfolding drawn_def by auto

lemma drawn_put: "drawn m (reg_put 12288 i v m)"
  by (auto simp: drawn_def reg_put_def put32_def)

lemma drawn_keeps:
  assumes "drawn m m'"
  shows "io_ready m' = io_ready m" "word_ok s m' = word_ok s m" "word_get s m' = word_get s m"
    "reg_get 8192 1 m' = reg_get 8192 1 m" "alrm m' = alrm m" "hst m' = hst m"
  using assms
  by (auto simp: drawn_def io_ready_def word_ok_def word_get_def in_pmem_def pmem_index_def reg_get_def get32_def)

text \<open>One pixel: the load from the guest's array and the store to video memory.\<close>

lemma fb_row_Suc:
  assumes "io_ready m" "word_ok src m" "X < 400" "Y < 300"
  shows "fb_row (Suc n) 400 (int Y) (int X) src m =
    fb_row n 400 (int Y) (int (Suc X)) (src + 4) (reg_put 12288 (Y * 400 + X) (word_get src m) m)"
proof -
  have k: "Y * 400 + X < SCREEN_W * SCREEN_H" using assms(3,4) by (simp add: SCREEN_W_def SCREEN_H_def)
  have c: "c_int (int Y * 400) = Inr (int Y * 400)" "c_int (int Y * 400 + int X) = Inr (int (Y * 400 + X))"
    using assms(3,4) by (simp_all add: c_int_def)
  have a: "FB_ADDR + 4 * word_of_int (int (Y * 400 + X)) = VMEM_MMIO + of_nat (4 * (Y * 400 + X))"
    by (simp add: FB_ADDR_def VMEM_MMIO_def)
  show ?thesis
    using draw_pixel [OF assms(1) k] paddr_read_word [OF assms(2)]
    by (simp add: c a del: of_nat_add of_nat_mult of_int_of_nat_eq) (simp add: add.commute)
qed

lemma fb_row_draws:
  "io_ready m \<Longrightarrow> X + n \<le> 400 \<Longrightarrow> Y < 300 \<Longrightarrow> \<forall>k < n. word_ok (src + 4 * of_nat k) m \<Longrightarrow>
   \<exists>m'. fb_row n 400 (int Y) (int X) src m = Inr (src + 4 * of_nat n, m') \<and> drawn m m' \<and>
     (\<forall>i. reg_get 12288 i m' = (if Y * 400 + X \<le> i \<and> i < Y * 400 + X + n
        then word_get (src + 4 * of_nat (i - (Y * 400 + X))) m else reg_get 12288 i m))"
proof (induction n arbitrary: m X src)
  case 0
  then show ?case by (auto simp: drawn_refl)
next
  case (Suc n)
  let ?m = "reg_put 12288 (Y * 400 + X) (word_get src m) m"
  have ok: "word_ok src m" using Suc.prems(4) [rule_format, of 0] by simp
  have "\<forall>k < n. word_ok (src + 4 + 4 * of_nat k) ?m"
  proof (intro allI impI)
    fix k assume "k < n"
    then have "word_ok (src + 4 * of_nat (Suc k)) m" by (intro Suc.prems(4) [rule_format]) simp
    then show "word_ok (src + 4 + 4 * of_nat k) ?m" by (simp add: algebra_simps)
  qed
  then obtain m' where m': "fb_row n 400 (int Y) (int (Suc X)) (src + 4) ?m = Inr (src + 4 + 4 * of_nat n, m')"
    "drawn ?m m'" "\<forall>i. reg_get 12288 i m' = (if Y * 400 + Suc X \<le> i \<and> i < Y * 400 + Suc X + n
        then word_get (src + 4 + 4 * of_nat (i - (Y * 400 + Suc X))) ?m else reg_get 12288 i ?m)"
    using Suc.IH [of ?m "Suc X" "src + 4"] Suc.prems(1-3) by auto
  have "fb_row (Suc n) 400 (int Y) (int X) src m = Inr (src + 4 * of_nat (Suc n), m')"
    using fb_row_Suc [OF Suc.prems(1) ok, of X Y n] Suc.prems(2,3) m'(1) by (simp add: algebra_simps)
  moreover have "drawn m m'" using drawn_trans [OF drawn_put m'(2)] .
  moreover have "reg_get 12288 i m' = (if Y * 400 + X \<le> i \<and> i < Y * 400 + X + Suc n
        then word_get (src + 4 * of_nat (i - (Y * 400 + X))) m else reg_get 12288 i m)" for i
  proof -
    consider "i = Y * 400 + X" | "Y * 400 + Suc X \<le> i" | "i < Y * 400 + X" by linarith
    then show ?thesis
    proof cases
      case 2
      then obtain d where "i = Y * 400 + Suc X + d" using le_Suc_ex by blast
      then have e: "i - (Y * 400 + X) = Suc d" "i - (Y * 400 + Suc X) = d" by simp_all
      show ?thesis using 2 m'(3) [rule_format, of i] unfolding e by (simp add: reg_get_put_other add.assoc)
    next
      case 1
      then show ?thesis using m'(3) [rule_format, of i] by simp
    next
      case 3
      then show ?thesis using m'(3) [rule_format, of i] by (simp add: reg_get_put_other)
    qed
  qed
  ultimately show ?case by (intro exI [of _ m']) simp
qed

text \<open>The row of a pixel on a screen 400 wide.\<close>

lemma row_pixel:
  fixes px py X Y W :: nat
  assumes "px < 400" "X + W \<le> 400"
  shows "Y * 400 + X \<le> py * 400 + px \<and> py * 400 + px < Y * 400 + X + W \<longleftrightarrow> py = Y \<and> X \<le> px \<and> px < X + W"
proof -
  consider "py < Y" | "py = Y" | "Y < py" by linarith
  then show ?thesis using assms by cases linarith+
qed

lemma fb_rows_draw:
  "io_ready m \<Longrightarrow> X + W \<le> 400 \<Longrightarrow> Y + n \<le> 300 \<Longrightarrow> \<forall>k < n * W. word_ok (src + 4 * of_nat k) m \<Longrightarrow>
   \<exists>src' m'. fb_rows n 400 (int X) (int W) (int Y) src m = Inr (src', m') \<and> drawn m m' \<and>
     (\<forall>px < 400. \<forall>py. reg_get 12288 (py * 400 + px) m' = (if X \<le> px \<and> px < X + W \<and> Y \<le> py \<and> py < Y + n
        then word_get (src + 4 * of_nat ((py - Y) * W + (px - X))) m else reg_get 12288 (py * 400 + px) m))"
proof (induction n arbitrary: m Y src)
  case 0
  then show ?case by (auto simp: drawn_refl)
next
  case (Suc n)
  have y0: "Y < 300" using Suc.prems(3) by simp
  have ok0: "\<forall>k < W. word_ok (src + 4 * of_nat k) m"
  proof (intro allI impI)
    fix k assume "k < W"
    then show "word_ok (src + 4 * of_nat k) m" by (intro Suc.prems(4) [rule_format]) simp
  qed
  obtain m1 where m1: "fb_row W 400 (int Y) (int X) src m = Inr (src + 4 * of_nat W, m1)" "drawn m m1"
    "\<forall>i. reg_get 12288 i m1 = (if Y * 400 + X \<le> i \<and> i < Y * 400 + X + W
        then word_get (src + 4 * of_nat (i - (Y * 400 + X))) m else reg_get 12288 i m)"
    using fb_row_draws [OF Suc.prems(1,2) y0 ok0] by blast
  have r1: "io_ready m1" and y1: "Suc Y + n \<le> 300"
    using Suc.prems(1,3) drawn_keeps(1) [OF m1(2)] by simp_all
  have "\<forall>k < n * W. word_ok (src + 4 * of_nat W + 4 * of_nat k) m1"
  proof (intro allI impI)
    fix k assume "k < n * W"
    then have "word_ok (src + 4 * of_nat (W + k)) m" by (intro Suc.prems(4) [rule_format]) simp
    then show "word_ok (src + 4 * of_nat W + 4 * of_nat k) m1"
      by (simp add: drawn_keeps [OF m1(2)] algebra_simps)
  qed
  then obtain src' m2 where m2:
    "fb_rows n 400 (int X) (int W) (int (Suc Y)) (src + 4 * of_nat W) m1 = Inr (src', m2)" "drawn m1 m2"
    "\<forall>px < 400. \<forall>py. reg_get 12288 (py * 400 + px) m2 =
      (if X \<le> px \<and> px < X + W \<and> Suc Y \<le> py \<and> py < Suc Y + n
       then word_get (src + 4 * of_nat W + 4 * of_nat ((py - Suc Y) * W + (px - X))) m1
       else reg_get 12288 (py * 400 + px) m1)"
    using Suc.IH [OF r1 Suc.prems(2) y1] by blast
  have c: "c_int (int X + int W) = Inr (int X + int W)" using Suc.prems(2) by (simp add: c_int_def)
  have "fb_rows (Suc n) 400 (int X) (int W) (int Y) src m = Inr (src', m2)"
    using m1(1) m2(1) c by (simp add: add.commute)
  moreover have "drawn m m2" using drawn_trans [OF m1(2) m2(2)] .
  moreover have "reg_get 12288 (py * 400 + px) m2 = (if X \<le> px \<and> px < X + W \<and> Y \<le> py \<and> py < Y + Suc n
        then word_get (src + 4 * of_nat ((py - Y) * W + (px - X))) m else reg_get 12288 (py * 400 + px) m)"
    if "px < 400" for px py
  proof -
    have r: "reg_get 12288 (py * 400 + px) m1 = (if py = Y \<and> X \<le> px \<and> px < X + W
        then word_get (src + 4 * of_nat (py * 400 + px - (Y * 400 + X))) m else reg_get 12288 (py * 400 + px) m)"
      using m1(3) row_pixel [OF that Suc.prems(2)] by simp
    show ?thesis
    proof (cases "Suc Y \<le> py")
      case True
      then obtain d where "py = Suc Y + d" using le_Suc_ex by blast
      then have e: "py - Y = Suc d" "py - Suc Y = d" "py \<noteq> Y" by simp_all
      define c where "c = px - X"
      show ?thesis
        using m2(3) [rule_format, OF that, of py] True r
        unfolding e(1,2) c_def [symmetric] by (simp add: e(3) drawn_keeps(3) [OF m1(2)] algebra_simps)
    next
      case False
      then show ?thesis using m2(3) [rule_format, OF that, of py] r by auto
    qed
  qed
  ultimately show ?case by (intro exI [of _ src'] exI [of _ m2]) simp
qed

text \<open>A call of \<open>__am_gpu_fbdraw\<close> for a rectangle on the screen.\<close>

definition fb_call :: "nat \<Rightarrow> nat \<Rightarrow> u32 \<Rightarrow> nat \<Rightarrow> nat \<Rightarrow> gpu_fbdraw" where
  "fb_call X Y src W H =
     \<lparr>fb_x = int X, fb_y = int Y, pixels = src, fb_w = int W, fb_h = int H, sync = True\<rparr>"

definition on_screen :: "nat \<Rightarrow> nat \<Rightarrow> u32 \<Rightarrow> nat \<Rightarrow> nat \<Rightarrow> machine \<Rightarrow> bool" where
  "on_screen X Y src W H m \<longleftrightarrow>
     X + W \<le> 400 \<and> Y + H \<le> 300 \<and> src \<noteq> 0 \<and> (\<forall>k < H * W. word_ok (src + 4 * of_nat k) m)"

lemma gpu_pixels_draws:
  assumes "io_ready m" "rect a = 0x190012C" "on_screen X Y src W H m"
  shows "\<exists>m'. gpu_pixels (fb_call X Y src W H) a m = Inr m' \<and> drawn m m' \<and>
     (\<forall>px < 400. \<forall>py. reg_get 12288 (py * 400 + px) m' = (if X \<le> px \<and> px < X + W \<and> Y \<le> py \<and> py < Y + H
        then word_get (src + 4 * of_nat ((py - Y) * W + (px - X))) m else reg_get 12288 (py * 400 + px) m))"
proof -
  have o: "X + W \<le> 400" "Y + H \<le> 300" "src \<noteq> 0" "\<forall>k < H * W. word_ok (src + 4 * of_nat k) m"
    using assms(3) by (auto simp: on_screen_def)
  have w: "sint (drop_bit 16 (rect a)) = 400" unfolding assms(2) by simp
  have c: "c_int (int Y + int H) = Inr (int Y + int H)" using o(2) by (simp add: c_int_def)
  have p: "gpu_pixels (fb_call X Y src W H) a m =
      bnd (fb_rows H 400 (int X) (int W) (int Y) src m) (\<lambda>(_, m1). Inr m1)"
    using o(3) by (simp add: gpu_pixels_def fb_call_def w c)
  obtain src' m' where "fb_rows H 400 (int X) (int W) (int Y) src m = Inr (src', m')" "drawn m m'"
    "\<forall>px < 400. \<forall>py. reg_get 12288 (py * 400 + px) m' = (if X \<le> px \<and> px < X + W \<and> Y \<le> py \<and> py < Y + H
        then word_get (src + 4 * of_nat ((py - Y) * W + (px - X))) m else reg_get 12288 (py * 400 + px) m)"
    using fb_rows_draw [OF assms(1) o(1,2,4)] by blast
  then show ?thesis by (intro exI [of _ m']) (simp add: p)
qed

lemma gpu_sync_sets: "io_ready m \<Longrightarrow> gpu_sync (fb_call X Y src W H) m = Inr (reg_put 8192 1 1 m)"
  using sync_write [of m 1] by (simp add: gpu_sync_def fb_call_def outl_def SYNC_ADDR_def VGACTL_ADDR_def SYNC_MMIO_def)

lemma on_screen_reg_put [simp]: "on_screen X Y src W H (reg_put b i v m) = on_screen X Y src W H m"
  by (simp add: on_screen_def)

section \<open>A machine to draw on\<close>

lemma ioe_machine_word_ok: "k < 100 \<Longrightarrow> word_ok (0x80001000 + 4 * of_nat k) (ioe_machine Riscv32 h)"
proof -
  assume k: "k < 100"
  then have "unat (0x80001000 + 4 * of_nat k :: u32) = 0x80001000 + 4 * k"
      "unat (4096 + 4 * of_nat k :: u32) = 4 * (1024 + k)"
    by (simp_all add: unat_word_ariths unat_of_nat)
  then show ?thesis
    using k by (simp add: word_ok_def in_pmem_def pmem_index_def PMEM_BASE_def PMEM_SIZE_def word_le_nat_alt)
qed

text \<open>A machine with its devices up and the two constant registers filled in, and a screen update due.\<close>

definition io_machine :: "ISA \<Rightarrow> machine" where
  "io_machine arch = reg_put 8192 0 0x190012C (reg_put 499712 3 65536
     ((ioe_machine arch quiet_host)\<lparr>alrm := \<lparr>handlers = [], jiffy = 0, device_update_flag = True\<rparr>\<rparr>))"

lemma io_machine_ready [simp]: "io_ready (io_machine arch)" "regs_ready (io_machine arch)"
  using reg_get_put_apart [of 499712 3 8192 0] ioe_machine_ready [of arch quiet_host]
  by (simp_all add: io_machine_def regs_ready_def io_ready_def)

lemma io_machine_sel [simp]:
  "device_update_flag (alrm (io_machine arch))" "sdl_events (hst (io_machine arch)) = []"
  "pmem (io_machine arch) = (\<lambda>_. 0)" "isa (io_machine arch) = arch"
  by (simp_all add: io_machine_def quiet_host_def)

lemma io_machine_on_screen:
  "X + W \<le> 400 \<Longrightarrow> Y + H \<le> 300 \<Longrightarrow> H * W \<le> 100 \<Longrightarrow> on_screen X Y 0x80001000 W H (io_machine Riscv32)"
  using ioe_machine_word_ok [of _ quiet_host]
  by (auto simp: on_screen_def word_ok_def in_pmem_def pmem_index_def)

section \<open>Properties: drawing\<close>



text \<open>
  The request to show a frame goes out before its pixels are stored: when a device update falls
  between the two, the host shows the old contents of video memory, and the finished frame is not shown
  because the request has been used up.
\<close>

theorem am_fbdraw_sync_first:
  assumes "io_ready m" "rect a = 0x190012C" "on_screen X Y src W H m"
    and "device_update_flag (alrm m)" "sdl_events (hst m) = []" "px < 400" "py < 300"
  shows "\<exists>m1 m2 m3. gpu_sync (fb_call X Y src W H) m = Inr m1 \<and> device_update m1 = Inr m2 \<and>
    gpu_pixels (fb_call X Y src W H) a m2 = Inr m3 \<and>
    get32 (texture (hst m3)) (4 * (py * 400 + px)) = reg_get 12288 (py * 400 + px) m \<and> reg_get 8192 1 m3 = 0"
proof -
  let ?s = "reg_put 8192 1 1 m"
  have k: "io_ready ?s" "device_update_flag (alrm ?s)" "sdl_events (hst ?s) = []" "reg_get 8192 1 ?s \<noteq> 0"
    using assms(1,4,5) by (simp_all del: One_nat_def)
  have b: "py * 400 + px < SCREEN_W * SCREEN_H" using assms(6,7) by (simp add: SCREEN_W_def SCREEN_H_def)
  obtain m2 where m2: "device_update ?s = Inr m2" "io_ready m2" "reg_get 8192 1 m2 = 0"
    "get32 (texture (hst m2)) (4 * (py * 400 + px)) = reg_get 12288 (py * 400 + px) ?s"
    "pmem m2 = pmem m" "isa m2 = isa m"
    using device_update_shows [OF k b] by auto
  have "on_screen X Y src W H m2"
    using assms(3) m2(5,6) by (simp add: on_screen_def word_ok_def in_pmem_def pmem_index_def)
  then obtain m3 where m3: "gpu_pixels (fb_call X Y src W H) a m2 = Inr m3" "drawn m2 m3"
    using gpu_pixels_draws [OF m2(2) assms(2)] by blast
  have "reg_get 12288 (py * 400 + px) ?s = reg_get 12288 (py * 400 + px) m"
    by (rule reg_get_put_apart) simp
  then show ?thesis
    using m2(1,3,4) m3(1) drawn_keeps(4,6) [OF m3(2)] by (simp add: gpu_sync_sets [OF assms(1)])
qed

theorem am_fbdraw_sync_first_witness:
  "\<exists>m1 m2 m3. gpu_sync (fb_call 10 20 0x80001000 2 2) (io_machine Riscv32) = Inr m1 \<and> device_update m1 = Inr m2 \<and>
    gpu_pixels (fb_call 10 20 0x80001000 2 2) \<lparr>qtail = 0, rect = 0x190012C, am_start_time = 0\<rparr> m2 = Inr m3 \<and>
    reg_get 8192 1 m3 = 0"
  using am_fbdraw_sync_first [of "io_machine Riscv32" "\<lparr>qtail = 0, rect = 0x190012C, am_start_time = 0\<rparr>" 10 20
      "0x80001000" 2 2 11 20] io_machine_on_screen [of 10 2 20 2]
  by auto

end
