(* ===== verification/AmAudio.thy ===== *)
theory AmAudio
  imports AmIoeProps
begin

text \<open>
  The audio path end to end: \<open>audio_write\<close> of the guest's library fills the ring that SDL's callback
  drains from another thread. The two share no lock; what makes this right is the invariant \<open>audio_ok\<close>
  (the guest's \<open>qtail\<close> is where the emulator's head and count say the ring ends) and that the callback
  only makes room. A callback may run before each access to the bus.
\<close>

section \<open>The invariant\<close>

definition ring_end :: "machine \<Rightarrow> nat" where
  "ring_end m = (qhead (aud m) + nat (count (aud m))) mod STREAM_BUF_MAX_SIZE"

definition audio_ok :: "int \<Rightarrow> machine \<Rightarrow> bool" where
  "audio_ok qt m \<longleftrightarrow> io_ready m \<and> ring_wf m \<and> qt = int (ring_end m)"

text \<open>The guest's memory and build, which neither side touches, and the bytes the guest sends.\<close>

definition same_guest :: "machine \<Rightarrow> machine \<Rightarrow> bool" where
  "same_guest m m' \<longleftrightarrow> pmem m' = pmem m \<and> isa m' = isa m"

definition guest_bytes :: "machine \<Rightarrow> u32 \<Rightarrow> nat \<Rightarrow> u8 list" where
  "guest_bytes m a n = map (\<lambda>i. pmem m (pmem_index m (a + of_nat i))) [0 ..< n]"

definition bytes_readable :: "machine \<Rightarrow> u32 \<Rightarrow> nat \<Rightarrow> bool" where
  "bytes_readable m a n \<longleftrightarrow> (\<forall>i < n. in_pmem m (a + of_nat i))"

lemma same_guest_trans: "same_guest m m1 \<Longrightarrow> same_guest m1 m2 \<Longrightarrow> same_guest m m2"
  by (simp add: same_guest_def)

lemma same_guest_bytes:
  "same_guest m m' \<Longrightarrow> guest_bytes m' a n = guest_bytes m a n"
  "same_guest m m' \<Longrightarrow> bytes_readable m' a n = bytes_readable m a n"
  by (simp_all add: same_guest_def guest_bytes_def bytes_readable_def in_pmem_def pmem_index_def)

lemma length_guest_bytes [simp]: "length (guest_bytes m a n) = n"
  by (simp add: guest_bytes_def)

lemma guest_bytes_Suc:
  "guest_bytes m a (Suc n) = pmem m (pmem_index m a) # guest_bytes m (a + 1) n"
proof -
  have "[0 ..< Suc n] = 0 # map Suc [0 ..< n]" by (simp add: map_Suc_upt upt_conv_Cons)
  then show ?thesis by (simp add: guest_bytes_def comp_def add.assoc del: upt_Suc)
qed

lemma guest_bytes_add: "guest_bytes m a (n + k) = guest_bytes m a n @ guest_bytes m (a + of_nat n) k"
  by (induction n arbitrary: a) (simp_all add: guest_bytes_Suc add.assoc, simp add: guest_bytes_def)

lemma bytes_readable_Suc:
  "bytes_readable m a (Suc n) \<longleftrightarrow> in_pmem m a \<and> bytes_readable m (a + 1) n"
  by (auto simp: bytes_readable_def All_less_Suc2 add.assoc)

lemma bytes_readable_add:
  "bytes_readable m a (n + k) \<longleftrightarrow> bytes_readable m a n \<and> bytes_readable m (a + of_nat n) k"
  by (induction n arbitrary: a) (auto simp: bytes_readable_Suc add.assoc, simp add: bytes_readable_def)

section \<open>The two sides\<close>

text \<open>The callback takes from the front of the ring and leaves its end where it is.\<close>

lemma audio_play_frame:
  assumes "ring_wf m"
  shows "\<exists>k. k = min len (nat (count (aud m))) \<and> snd (audio_play (int len) m) =
    m\<lparr>aud := (aud m)\<lparr>qhead := (qhead (aud m) + k) mod STREAM_BUF_MAX_SIZE, count := count (aud m) - int k\<rparr>\<rparr>"
proof -
  have q: "qhead (aud m) < STREAM_BUF_MAX_SIZE" "0 \<le> count (aud m)" using assms by (auto simp: ring_wf_def)
  let ?n = "if count (aud m) < int len then count (aud m) else int len"
  have "nat ?n = min len (nat (count (aud m)))" "int (nat ?n) = ?n" using q(2) by auto
  then show ?thesis
    unfolding audio_play_def Let_def audio_play_loop_ring [OF q(1)] by simp
qed

lemma sdl_callback_takes:
  assumes "audio_ok qt m"
  shows "\<exists>m'. sdl_callback len m = (take len (ring_content m), m') \<and> audio_ok qt m' \<and>
    ring_content m' = drop len (ring_content m) \<and> same_guest m m'"
proof -
  let ?m = "snd (audio_play (int len) m)"
  have w: "ring_wf m" "io_ready m" "qt = int (ring_end m)" using assms by (auto simp: audio_ok_def)
  have r: "length (ring_content m) = nat (count (aud m))" by (simp add: ring_content_def)
  obtain k where k: "k = min len (nat (count (aud m)))" "?m =
      m\<lparr>aud := (aud m)\<lparr>qhead := (qhead (aud m) + k) mod STREAM_BUF_MAX_SIZE, count := count (aud m) - int k\<rparr>\<rparr>"
    using audio_play_frame [OF w(1)] by blast
  have "qhead (aud m) + k + nat (count (aud m) - int k) = qhead (aud m) + nat (count (aud m))"
    using k(1) by arith
  then have "ring_end ?m = ring_end m" unfolding k(2) ring_end_def by (simp add: mod_simps add.assoc)
  moreover have "io_ready ?m" "same_guest m ?m" unfolding k(2) using w(2) by (simp_all add: io_ready_def same_guest_def)
  moreover have p: "fst (audio_play (int len) m) = take len (ring_content m) @ replicate (len - length (ring_content m)) 0"
      "ring_wf ?m" "ring_content ?m = drop len (ring_content m)"
    using audio_play_ring [OF w(1), of "int len"] by auto
  have "sdl_callback len m = (take (nat (count (aud m))) (fst (audio_play (int len) m)), ?m)"
    by (simp add: sdl_callback_def split_beta)
  moreover have "take (nat (count (aud m))) (fst (audio_play (int len) m)) = take len (ring_content m)"
    unfolding p(1) r [symmetric] by (cases "len \<le> length (ring_content m)") simp_all
  ultimately show ?thesis using p w(3) by (simp add: audio_ok_def)
qed

lemma sdl_runs_takes:
  assumes "audio_ok qt m"
  shows "\<exists>m'. sdl_runs sch (lg, m) =
      (\<lparr>accesses = Suc (accesses lg), heard = heard lg @ take (sch (accesses lg)) (ring_content m)\<rparr>, m') \<and>
    audio_ok qt m' \<and> ring_content m' = drop (sch (accesses lg)) (ring_content m) \<and> same_guest m m'"
  using sdl_callback_takes [OF assms, of "sch (accesses lg)"] by (auto simp: sdl_runs_def)

lemma audio_ok_count: "audio_ok qt m \<Longrightarrow> count (aud m) = int (length (ring_content m))"
  by (simp add: audio_ok_def ring_wf_def ring_content_def)

lemma audio_ok_full: "audio_ok qt m \<Longrightarrow> length (ring_content m) \<le> 65536"
  by (auto simp: audio_ok_def ring_wf_def ring_content_def STREAM_BUF_MAX_SIZE_def nat_le_iff)

text \<open>The guest stores one byte behind the end of the ring.\<close>

lemma store_byte:
  assumes "audio_ok qt m" "length (ring_content m) < 65536"
  shows "\<exists>m'. outb (AUDIO_SBUF_ADDR + word_of_int qt) (ucast (b :: u8)) m = Inr m' \<and>
    audio_ok ((qt + 1) smod 65536) m' \<and> ring_content m' = ring_content m @ [b] \<and> same_guest m m'"
proof -
  have c: "count (aud m) < int STREAM_BUF_MAX_SIZE" and a: "io_ready m" "ring_wf m" "qt = int (ring_end m)"
    using assms audio_ok_count [OF assms(1)] by (auto simp: audio_ok_def STREAM_BUF_MAX_SIZE_def)
  obtain m' where m': "paddr_write (ring_tail m) (ucast b) 1 m = Inr m'" "io_ready m'" "ring_wf m'"
    "ring_content m' = ring_content m @ [b]" "count (aud m') = count (aud m) + 1" "qhead (aud m') = qhead (aud m)"
    "same_guest m m'"
    using audio_write_byte [OF a(1,2) c, of b] by (auto simp: same_guest_def)
  have "0 \<le> count (aud m)" using a(2) by (simp add: ring_wf_def)
  then have "ring_end m' = (ring_end m + 1) mod 65536"
    by (simp add: ring_end_def m'(5,6) nat_add_distrib STREAM_BUF_MAX_SIZE_def mod_simps)
  then have "(qt + 1) smod 65536 = int (ring_end m')"
    by (simp add: a(3) signed_modulo_int_def sgn_if zmod_int add.commute)
  moreover have "AUDIO_SBUF_ADDR + word_of_int qt = ring_tail m"
    by (simp add: AUDIO_SBUF_ADDR_def ring_tail_def AUDIO_SBUF_def a(3) ring_end_def)
  ultimately show ?thesis using m' by (simp add: outb_def audio_ok_def)
qed

lemma load_byte:
  "in_pmem m a \<Longrightarrow> paddr_read a 1 m = Inr (ucast (pmem m (pmem_index m a)), m)"
  using paddr_read_in [of m a 1] in_pmem_index [of m a] by (simp add: get_n_def)

section \<open>Writing\<close>

lemma audio_copy_fills:
  "audio_ok qt m \<Longrightarrow> bytes_readable m buf n \<Longrightarrow> length (ring_content m) + n \<le> 65536 \<Longrightarrow>
   \<exists>qt' lg' m'. audio_copy sch n 65536 buf qt (lg, m) = Inr (buf + of_nat n, qt', lg', m') \<and> audio_ok qt' m' \<and>
     heard lg' @ ring_content m' = heard lg @ ring_content m @ guest_bytes m buf n \<and>
     accesses lg' = accesses lg + n \<and> same_guest m m'"
proof (induction n arbitrary: m buf qt lg)
  case 0
  then show ?case by (simp add: guest_bytes_def same_guest_def)
next
  case (Suc n)
  let ?k = "sch (accesses lg)" and ?b = "pmem m (pmem_index m buf)"
  obtain m1 where m1: "sdl_runs sch (lg, m) =
      (\<lparr>accesses = Suc (accesses lg), heard = heard lg @ take ?k (ring_content m)\<rparr>, m1)"
    "audio_ok qt m1" "ring_content m1 = drop ?k (ring_content m)" "same_guest m m1"
    using sdl_runs_takes [OF Suc.prems(1)] by blast
  have rd: "in_pmem m1 buf" "bytes_readable m1 (buf + 1) n" "pmem m1 (pmem_index m1 buf) = ?b"
    using Suc.prems(2) same_guest_bytes [OF m1(4)] m1(4)
    by (auto simp: bytes_readable_Suc same_guest_def in_pmem_def pmem_index_def)
  have "length (ring_content m1) < 65536" using Suc.prems(3) m1(3) by simp
  then obtain m2 where m2: "outb (AUDIO_SBUF_ADDR + word_of_int qt) (ucast ?b) m1 = Inr m2"
    "audio_ok ((qt + 1) smod 65536) m2" "ring_content m2 = ring_content m1 @ [?b]" "same_guest m1 m2"
    using store_byte [OF m1(2), of ?b] by blast
  have "length (ring_content m2) + n \<le> 65536" using Suc.prems(3) m1(3) m2(3) by simp
  then obtain qt' lg' m' where m': "audio_copy sch n 65536 (buf + 1) ((qt + 1) smod 65536)
      (\<lparr>accesses = Suc (accesses lg), heard = heard lg @ take ?k (ring_content m)\<rparr>, m2) =
      Inr (buf + 1 + of_nat n, qt', lg', m')" "audio_ok qt' m'"
    "heard lg' @ ring_content m' = (heard lg @ take ?k (ring_content m)) @ ring_content m2 @ guest_bytes m2 (buf + 1) n"
    "accesses lg' = Suc (accesses lg) + n" "same_guest m2 m'"
    using Suc.IH [OF m2(2), of "buf + 1" "\<lparr>accesses = Suc (accesses lg), heard = heard lg @ take ?k (ring_content m)\<rparr>"]
      rd(2) same_guest_bytes(2) [OF m2(4)] by auto
  have g: "same_guest m m2" using same_guest_trans [OF m1(4) m2(4)] .
  have "audio_copy sch (Suc n) 65536 buf qt (lg, m) = Inr (buf + of_nat (Suc n), qt', lg', m')"
    using m1(1) m2(1) m'(1) load_byte [OF rd(1)] rd(3) by (simp add: add.assoc)
  moreover have "heard lg' @ ring_content m' = heard lg @ ring_content m @ guest_bytes m buf (Suc n)"
    using m'(3) m1(3) m2(3) same_guest_bytes(1) [OF g] by (simp add: guest_bytes_Suc)
  ultimately show ?case
    using m'(2,4) same_guest_trans [OF g m'(5)] by (intro exI [of _ qt'] exI [of _ lg'] exI [of _ m']) simp
qed

lemma io_machine_bytes: "bytes_readable (io_machine Riscv32) 0x80001000 64"
proof -
  have "unat (0x80001000 + of_nat i :: u32) = 0x80001000 + i" if "i < 64" for i
    using that by (simp add: unat_word_ariths unat_of_nat)
  then show ?thesis
    by (simp add: bytes_readable_def in_pmem_def PMEM_BASE_def PMEM_SIZE_def word_le_nat_alt)
qed

lemma sint_of_nat_small: "n < 2147483648 \<Longrightarrow> sint (of_nat n :: u32) = int n"
proof -
  assume "n < 2147483648"
  then have "signed_take_bit 31 (int n) = int n" by (intro signed_take_bit_int_eq_self) simp_all
  then show ?thesis using sint_sbintrunc' [of "int n", where ?'a = 32] by simp
qed

lemma sint_of_small: "unat (w :: u32) < 2147483648 \<Longrightarrow> sint w = int (unat w)"
  using sint_of_nat_small [of "unat w"] by simp

text \<open>Reading the count register leaves the ring alone and tells how much fits.\<close>

lemma audio_room_fits:
  assumes "audio_ok qt m" "nwrite < len"
  shows "\<exists>m' n. audio_room 65536 len nwrite m = Inr (int n, m') \<and> audio_ok qt m' \<and>
    ring_content m' = ring_content m \<and> same_guest m m' \<and> length (ring_content m) + n \<le> 65536 \<and>
    int n \<le> len - nwrite \<and> (n = 0 \<longrightarrow> length (ring_content m) = 65536)"
proof -
  define l where "l = length (ring_content m)"
  define m1 where "m1 = reg_put 499712 5 (of_nat l) m"
  define n where "n = nat (if len - nwrite < 65536 - int l then len - nwrite else 65536 - int l)"
  have a: "io_ready m" "l \<le> 65536" using assms(1) audio_ok_full by (auto simp: audio_ok_def l_def)
  have s: "sbuf (bases m) = 503808" using a(1) by (simp add: io_ready_def ready_bases_def)
  have k: "io_ready m1" "bases m1 = bases m" "aud m1 = aud m" "pmem m1 = pmem m" "isa m1 = isa m"
      and b: "\<And>i. io_space (bus m1) (503808 + i) = io_space (bus m) (503808 + i)"
    using a(1) by (simp_all add: m1_def io_ready_def) (simp_all add: reg_put_def put32_def)
  have r: "ring_content m1 = ring_content m" unfolding ring_content_def k(2,3) s b ..
  have o: "audio_ok qt m1" using assms(1) k by (simp add: audio_ok_def ring_wf_def ring_end_def)
  have n: "int n \<le> len - nwrite" "l + n \<le> 65536" "n = 0 \<longrightarrow> l = 65536"
      "int n = (if len - nwrite < 65536 - int l then len - nwrite else 65536 - int l)"
    using a(2) assms(2) unfolding n_def by auto
  have c: "count (aud m) = int l" using audio_ok_count [OF assms(1)] by (simp add: l_def)
  have "inl AUDIO_COUNT_ADDR m = Inr (of_nat l, m1)" using inl_count [OF a(1)] by (simp add: c m1_def)
  moreover have "c_int (65536 - int l) = Inr (65536 - int l)" using a(2) by (simp add: c_int_def)
  ultimately have "audio_room 65536 len nwrite m = Inr (int n, m1)"
    unfolding audio_room_def n(4) by (simp add: sint_of_nat_small a(2) le_less_trans [OF a(2)])
  then show ?thesis
    using o r k(4,5) n(1-3) unfolding same_guest_def l_def by (intro exI [of _ m1] exI [of _ n]) simp
qed

text \<open>
  The loop ends as soon as SDL keeps asking: \<open>d\<close> is how many accesses ahead the next request for at
  least one byte is.
\<close>

lemma audio_loop_done:
  "\<not> nwrite < len \<Longrightarrow> audio_write_loop sch sz len nwrite buf qt s = Some (Inr (qt, s))"
  by (subst audio_write_loop.simps) simp

lemma audio_loop_turn:
  assumes "audio_ok qt m" "nwrite < len" "bytes_readable m buf (nat (len - nwrite))"
  shows "\<exists>n qt' lg' m'. audio_write_loop sch 65536 len nwrite buf qt (lg, m) =
      audio_write_loop sch 65536 len (nwrite + int n) (buf + of_nat n) qt' (lg', m') \<and>
    audio_ok qt' m' \<and> int n \<le> len - nwrite \<and> accesses lg' = Suc (accesses lg) + n \<and>
    heard lg' @ ring_content m' = heard lg @ ring_content m @ guest_bytes m buf n \<and> same_guest m m' \<and>
    (n = 0 \<longrightarrow> sch (accesses lg) = 0)"
proof -
  let ?k = "sch (accesses lg)"
  let ?lg = "\<lparr>accesses = Suc (accesses lg), heard = heard lg @ take ?k (ring_content m)\<rparr>"
  obtain m1 where m1: "sdl_runs sch (lg, m) = (?lg, m1)" "audio_ok qt m1"
    "ring_content m1 = drop ?k (ring_content m)" "same_guest m m1"
    using sdl_runs_takes [OF assms(1)] by blast
  obtain m2 n where m2: "audio_room 65536 len nwrite m1 = Inr (int n, m2)" "audio_ok qt m2"
    "ring_content m2 = ring_content m1" "same_guest m1 m2" "length (ring_content m1) + n \<le> 65536"
    "int n \<le> len - nwrite" "n = 0 \<longrightarrow> length (ring_content m1) = 65536"
    using audio_room_fits [OF m1(2) assms(2)] by blast
  have g: "same_guest m m2" using same_guest_trans [OF m1(4) m2(4)] .
  have "nat (len - nwrite) = n + (nat (len - nwrite) - n)" using m2(6) by simp
  then have "bytes_readable m2 buf n"
    using assms(3) same_guest_bytes(2) [OF g] bytes_readable_add by metis
  moreover have "length (ring_content m2) + n \<le> 65536" using m2(3,5) by simp
  ultimately obtain qt' lg' m3 where m3:
    "audio_copy sch n 65536 buf qt (?lg, m2) = Inr (buf + of_nat n, qt', lg', m3)" "audio_ok qt' m3"
    "heard lg' @ ring_content m3 = heard ?lg @ ring_content m2 @ guest_bytes m2 buf n"
    "accesses lg' = accesses ?lg + n" "same_guest m2 m3"
    using audio_copy_fills [OF m2(2), of buf n sch ?lg] by blast
  have "audio_write_loop sch 65536 len nwrite buf qt (lg, m) =
      audio_write_loop sch 65536 len (nwrite + int n) (buf + of_nat n) qt' (lg', m3)"
    using assms(2) m1(1) m2(1) m3(1) by (subst audio_write_loop.simps) simp
  moreover have "heard lg' @ ring_content m3 = heard lg @ ring_content m @ guest_bytes m buf n"
    using m3(3) m2(3) m1(3) same_guest_bytes(1) [OF g] by simp
  moreover have "n = 0 \<longrightarrow> ?k = 0"
  proof
    assume "n = 0"
    then have "65536 \<le> length (ring_content m) - ?k" using m2(7) m1(3) by simp
    then show "?k = 0" using audio_ok_full [OF assms(1)] by simp
  qed
  ultimately show ?thesis
    using m3(2,4) m2(6) same_guest_trans [OF g m3(5)]
    by (intro exI [of _ n] exI [of _ qt'] exI [of _ lg'] exI [of _ m3]) simp
qed

lemma audio_loop_ends:
  assumes fair: "\<forall>k. \<exists>j. 0 < sch (k + j)"
  shows "audio_ok qt m \<Longrightarrow> bytes_readable m buf (nat (len - nwrite)) \<Longrightarrow> 0 < sch (accesses lg + d) \<Longrightarrow>
   \<exists>qt' lg' m'. audio_write_loop sch 65536 len nwrite buf qt (lg, m) = Some (Inr (qt', lg', m')) \<and>
     audio_ok qt' m' \<and> same_guest m m' \<and>
     heard lg' @ ring_content m' = heard lg @ ring_content m @ guest_bytes m buf (nat (len - nwrite))"
proof (induction "(nat (len - nwrite), d)" arbitrary: qt m buf nwrite lg d
    rule: wf_induct_rule [OF wf_lex_prod [OF wf_less_than wf_less_than]])
  case 1
  show ?case
  proof (cases "nwrite < len")
    case False
    then show ?thesis using 1(2) by (simp add: audio_loop_done guest_bytes_def same_guest_def)
  next
    case True
    obtain n qt1 lg1 m1 where t: "audio_write_loop sch 65536 len nwrite buf qt (lg, m) =
        audio_write_loop sch 65536 len (nwrite + int n) (buf + of_nat n) qt1 (lg1, m1)"
      "audio_ok qt1 m1" "int n \<le> len - nwrite" "accesses lg1 = Suc (accesses lg) + n"
      "heard lg1 @ ring_content m1 = heard lg @ ring_content m @ guest_bytes m buf n" "same_guest m m1"
      "n = 0 \<longrightarrow> sch (accesses lg) = 0"
      using audio_loop_turn [OF 1(2) True 1(3)] by blast
    have e: "nat (len - nwrite) = n + nat (len - (nwrite + int n))" using t(3) by simp
    obtain d1 where d1: "0 < sch (accesses lg1 + d1)" "n = 0 \<longrightarrow> d1 < d"
    proof (cases "n = 0")
      case True
      then have "d \<noteq> 0" using t(7) 1(4) by (cases d) auto
      then have "0 < sch (accesses lg1 + (d - 1))" using 1(4) t(4) True by (cases d) auto
      then show ?thesis using that [of "d - 1"] \<open>d \<noteq> 0\<close> by simp
    next
      case False
      then show ?thesis using fair that by blast
    qed
    have less: "((nat (len - (nwrite + int n)), d1), (nat (len - nwrite), d)) \<in> less_than <*lex*> less_than"
      using e d1(2) by auto
    have rd: "bytes_readable m1 (buf + of_nat n) (nat (len - (nwrite + int n)))"
      using 1(3) bytes_readable_add [of m buf n] same_guest_bytes(2) [OF t(6)] e by simp
    obtain qt2 lg2 m2 where "audio_write_loop sch 65536 len (nwrite + int n) (buf + of_nat n) qt1 (lg1, m1) =
        Some (Inr (qt2, lg2, m2))" "audio_ok qt2 m2" "same_guest m1 m2"
      "heard lg2 @ ring_content m2 = heard lg1 @ ring_content m1 @
         guest_bytes m1 (buf + of_nat n) (nat (len - (nwrite + int n)))"
      using 1(1) [OF less t(2) rd d1(1)] by blast
    then show ?thesis
      using t(1,5) same_guest_trans [OF t(6)] same_guest_bytes(1) [OF t(6)] guest_bytes_add e
      by (intro exI [of _ qt2] exI [of _ lg2] exI [of _ m2]) (simp flip: append_assoc)
  qed
qed

section \<open>Properties\<close>

text \<open>
  C12. No byte of sound is lost, repeated or reordered between the guest program and SDL: for every
  schedule of SDL's callback that keeps asking for data, \<open>__am_audio_play\<close> returns, what SDL took during
  the call followed by what is left in the ring is what the ring held before followed by the guest's
  buffer, and the guest's \<open>qtail\<close> is again at the end of the ring, so that the next call can follow.
\<close>

theorem am_audio_play_delivers:
  assumes "audio_ok (qtail a) m" "regs_ready m" "bytes_readable m st (unat (en - st))"
    and "unat (en - st) < 2147483648" "\<forall>k. \<exists>j. 0 < sch (k + j)"
  shows "\<exists>a' lg m'. am_audio_play sch st en a m = Some (Inr (a', lg, m')) \<and> audio_ok (qtail a') m' \<and>
    heard lg @ ring_content m' = ring_content m @ guest_bytes m st (unat (en - st)) \<and> same_guest m m'"
proof -
  let ?n = "unat (en - st)" and ?lg = "\<lparr>accesses = 0, heard = []\<rparr>"
  have i: "inl AUDIO_SBUF_SIZE_ADDR m = Inr (65536, m)"
    using assms(1,2) inl_sbuf_size [of m] by (simp add: audio_ok_def regs_ready_def)
  have l: "sint (en - st) = int ?n" using assms(4) by (rule sint_of_small)
  obtain d where d: "0 < sch (accesses ?lg + d)" using assms(5) by blast
  obtain qt lg m' where "audio_write_loop sch 65536 (int ?n) 0 st (qtail a) (?lg, m) = Some (Inr (qt, lg, m'))"
    "audio_ok qt m'" "same_guest m m'" "heard lg @ ring_content m' = ring_content m @ guest_bytes m st ?n"
    using audio_loop_ends [OF assms(5,1) _ d, of st "int ?n" 0] assms(3) by auto
  then show ?thesis
    by (intro exI [of _ "a\<lparr>qtail := qt\<rparr>"] exI [of _ lg] exI [of _ m']) (simp add: am_audio_play_def audio_write_def i l)
qed

theorem am_audio_play_delivers_witness:
  "\<exists>a' lg m'. am_audio_play (\<lambda>k. if odd k then 512 else 0) 0x80001000 0x80001040
      \<lparr>qtail = 0, rect = 0, am_start_time = 0\<rparr> (io_machine Riscv32) = Some (Inr (a', lg, m')) \<and>
    heard lg @ ring_content m' = replicate 64 0"
proof -
  let ?sch = "\<lambda>k :: nat. if odd k then 512 else 0 :: nat" and ?m = "io_machine Riscv32"
  have f: "\<forall>k. \<exists>j. 0 < ?sch (k + j)"
  proof
    fix k show "\<exists>j. 0 < ?sch (k + j)" by (rule exI [of _ "k + 1"]) simp
  qed
  have c: "count (aud ?m) = 0" "qhead (aud ?m) = 0"
    by (simp_all add: io_machine_def ioe_machine_def static_start_def)
  then have o: "audio_ok 0 ?m" and e: "ring_content ?m = []"
    by (simp_all add: audio_ok_def ring_wf_def ring_end_def ring_content_def STREAM_BUF_MAX_SIZE_def)
  have "guest_bytes ?m a n = replicate n 0" for a n
    by (induction n arbitrary: a) (simp_all add: guest_bytes_Suc, simp add: guest_bytes_def)
  then show ?thesis
    using am_audio_play_delivers [of "\<lparr>qtail = 0, rect = 0, am_start_time = 0\<rparr>" ?m "0x80001000" "0x80001040" ?sch]
      o e f io_machine_bytes by auto
qed

end
