(* ===== verification/X86Vme.thy ===== *)
theory X86Vme
  imports NemuPrelude
begin

text \<open>
  Virtual memory of the abstract machine on x86 (\<open>abstract-machine/am/src/x86/qemu/vme.c\<close>, the 32-bit
  build): two-level page tables, built by \<open>ptwalk\<close> with pages from the client's allocator.

  Memory is the map from word-aligned physical addresses to words; \<open>pt[index]\<close> is \<open>mem (pt + 4 * index)\<close>.
  An \<open>AddrSpace\<close> is a structure in that memory, whose field \<open>ptr\<close> is treated by \<open>ptwalk\<close> as a page
  table with one entry. The client's \<open>pgalloc\<close> is the list of the addresses its next calls return,
  \<open>NULL\<close> when there is none left; \<open>pgfree\<close> is the list of the pages given back.
\<close>

section \<open>The MMU's configuration (x86.h, x86-qemu.h)\<close>

definition PTE_P :: u32 where "PTE_P = 1"
definition PTE_W :: u32 where "PTE_W = 2"
definition PTE_U :: u32 where "PTE_U = 4"
definition CR0_PG :: u32 where "CR0_PG = 0x80000000"
definition MMAP_NONE :: u32 where "MMAP_NONE = 0"
definition MMAP_READ :: u32 where "MMAP_READ = 1"
definition MMAP_WRITE :: u32 where "MMAP_WRITE = 2"

record ptinfo =
  pt_mask :: u32
  pt_shift :: nat
  pt_bits :: nat

definition pgsize :: nat where "pgsize = 4096"

definition pgtables :: "ptinfo list" where
  "pgtables =
    [\<lparr>pt_mask = 0x00000000, pt_shift = 0, pt_bits = 0\<rparr>,
     \<lparr>pt_mask = 0xffc00000, pt_shift = 22, pt_bits = 10\<rparr>,
     \<lparr>pt_mask = 0x003ff000, pt_shift = 12, pt_bits = 10\<rparr>]"

record vm_area =
  area_start :: u32
  area_end :: u32
  kernel :: bool

definition vm_areas :: "vm_area list" where
  "vm_areas =
    [\<lparr>area_start = 0x40000000, area_end = 0x80000000, kernel = False\<rparr>,
     \<lparr>area_start = 0x00000000, area_end = 0x40000000, kernel = True\<rparr>,
     \<lparr>area_start = 0xfd000000, area_end = 0x00000000, kernel = True\<rparr>]"

definition uvm_area :: vm_area where "uvm_area = vm_areas ! 0"

section \<open>State\<close>

record vmm =
  mem :: "u32 \<Rightarrow> u32"
  pages_left :: "u32 list"
  freed :: "u32 list"
  kpt :: u32
  cr0 :: u32
  cr3 :: u32

definition store :: "u32 \<Rightarrow> u32 \<Rightarrow> vmm \<Rightarrow> vmm" where
  "store a v s = s\<lparr>mem := (mem s)(a := v)\<rparr>"

text \<open>The fields of an \<open>AddrSpace\<close>: \<open>pgsize\<close>, \<open>area\<close> and \<open>ptr\<close>.\<close>

definition as_pgsize :: "u32 \<Rightarrow> u32" where "as_pgsize as = as"
definition as_start :: "u32 \<Rightarrow> u32" where "as_start as = as + 4"
definition as_end :: "u32 \<Rightarrow> u32" where "as_end as = as + 8"
definition as_ptr :: "u32 \<Rightarrow> u32" where "as_ptr as = as + 12"

section \<open>Walking the tables\<close>

text \<open>\<open>pgallocz\<close>: a page from the client, cleared by the loop over its words.\<close>

primrec clear_words :: "nat \<Rightarrow> u32 \<Rightarrow> vmm \<Rightarrow> vmm" where
  "clear_words 0 a s = s"
| "clear_words (Suc n) a s = clear_words n (a + 4) (store a 0 s)"

definition pgallocz :: "vmm \<Rightarrow> fault + u32 \<times> vmm" where
  "pgallocz s =
     (let base = (case pages_left s of [] \<Rightarrow> 0 | p # _ \<Rightarrow> p); s1 = s\<lparr>pages_left := tl (pages_left s)\<rparr>
      in bnd (c_panic_unless (base \<noteq> 0)) (\<lambda>_. Inr (base, clear_words (pgsize div 4) base s1)))"

definition indexof :: "u32 \<Rightarrow> ptinfo \<Rightarrow> u32" where
  "indexof addr info = drop_bit (pt_shift info) (addr AND pt_mask info)"

definition baseof :: "u32 \<Rightarrow> u32" where
  "baseof addr = addr AND NOT (of_nat (pgsize - 1))"

text \<open>
  The loop of \<open>ptwalk\<close> over the levels that are left: at the last one it returns the address of the
  entry, before that it follows the entry, and gives it a fresh table when it is not present.
\<close>

fun walk_levels :: "ptinfo list \<Rightarrow> u32 \<Rightarrow> u32 \<Rightarrow> u32 \<Rightarrow> vmm \<Rightarrow> fault + u32 \<times> vmm" where
  "walk_levels [] cur addr flags s = Inl Panic"
| "walk_levels [info] cur addr flags s = Inr (cur + 4 * indexof addr info, s)"
| "walk_levels (info # rest) cur addr flags s =
     (let e = cur + 4 * indexof addr info in
      if mem s e AND PTE_P = 0 then
        bnd (pgallocz s) (\<lambda>(next_page, s1).
        walk_levels rest next_page addr flags (store e (next_page OR PTE_P OR flags) s1))
      else walk_levels rest (baseof (mem s e)) addr flags s)"

definition ptwalk :: "u32 \<Rightarrow> u32 \<Rightarrow> u32 \<Rightarrow> vmm \<Rightarrow> fault + u32 \<times> vmm" where
  "ptwalk as addr flags s = walk_levels pgtables (as_ptr as) addr flags s"

text \<open>
  \<open>teardown\<close> for the level whose tables are the head of the list; \<open>top\<close> says that it is level 0, whose
  "page" is the structure itself and is not freed.
\<close>

primrec teardown :: "ptinfo list \<Rightarrow> bool \<Rightarrow> u32 \<Rightarrow> vmm \<Rightarrow> vmm" where
  "teardown [] is_top pt s = s"
| "teardown (info # rest) is_top pt s =
     (let s1 = fold (\<lambda>index s.
            let e = mem s (pt + 4 * of_nat index)
            in if e AND PTE_P \<noteq> 0 \<and> e AND PTE_U \<noteq> 0 then teardown rest False (baseof e) s else s)
          [0 ..< 2 ^ pt_bits info] s
      in if is_top then s1 else s1\<lparr>freed := freed s1 @ [pt]\<rparr>)"

section \<open>The interface\<close>

text \<open>The loops of \<open>vme_init\<close> and \<open>protect\<close> over an area whose size is a multiple of the step.\<close>

definition area_steps :: "nat \<Rightarrow> vm_area \<Rightarrow> nat" where
  "area_steps shift v = unat (area_end v - area_start v) div 2 ^ shift"

fun identity_loop :: "nat \<Rightarrow> u32 \<Rightarrow> u32 \<Rightarrow> vmm \<Rightarrow> fault + vmm" where
  "identity_loop 0 as cur s = Inr s"
| "identity_loop (Suc n) as cur s =
     bnd (ptwalk as cur PTE_W s) (\<lambda>(e, s1).
     identity_loop n as (cur + of_nat pgsize) (store e (cur OR PTE_P OR PTE_W) s1))"

fun identity_areas :: "vm_area list \<Rightarrow> u32 \<Rightarrow> vmm \<Rightarrow> fault + vmm" where
  "identity_areas [] as s = Inr s"
| "identity_areas (v # vs) as s =
     bnd (if kernel v then identity_loop (area_steps 12 v) as (area_start v) s else Inr s)
       (\<lambda>s1. identity_areas vs as s1)"

text \<open>\<open>as\<close> is the address of the local variable of that name.\<close>

definition vme_init :: "u32 \<Rightarrow> int \<Rightarrow> vmm \<Rightarrow> fault + vmm" where
  "vme_init as cpu_current s =
     bnd (c_panic_unless (cpu_current = 0)) (\<lambda>_.
     bnd (identity_areas vm_areas as (store (as_ptr as) 0 s)) (\<lambda>s1.
     let k = baseof (mem s1 (as_ptr as))
     in Inr (s1\<lparr>kpt := k, cr3 := k, cr0 := cr0 s1 OR CR0_PG\<rparr>)))"

fun share_loop :: "nat \<Rightarrow> u32 \<Rightarrow> u32 \<Rightarrow> vmm \<Rightarrow> vmm" where
  "share_loop 0 dir cur s = s"
| "share_loop (Suc n) dir cur s =
     (let index = indexof cur (pgtables ! 1)
      in share_loop n dir (cur + push_bit (pt_shift (pgtables ! 1)) 1)
           (store (dir + 4 * index) (mem s (kpt s + 4 * index)) s))"

fun share_areas :: "vm_area list \<Rightarrow> u32 \<Rightarrow> vmm \<Rightarrow> vmm" where
  "share_areas [] dir s = s"
| "share_areas (v # vs) dir s =
     share_areas vs dir
       (if kernel v then share_loop (area_steps (pt_shift (pgtables ! 1)) v) dir (area_start v) s else s)"

definition protect :: "u32 \<Rightarrow> vmm \<Rightarrow> fault + vmm" where
  "protect as s =
     bnd (pgallocz s) (\<lambda>(dir, s1).
     let s2 = share_areas vm_areas dir s1
     in Inr (store (as_ptr as) (dir OR PTE_P OR PTE_U)
              (store (as_end as) (area_end uvm_area)
                (store (as_start as) (area_start uvm_area)
                  (store (as_pgsize as) (of_nat pgsize) s2)))))"

definition unprotect :: "u32 \<Rightarrow> vmm \<Rightarrow> vmm" where
  "unprotect as s = teardown pgtables True (as_ptr as) s"

definition vm_map :: "u32 \<Rightarrow> u32 \<Rightarrow> u32 \<Rightarrow> u32 \<Rightarrow> vmm \<Rightarrow> fault + vmm" where
  "vm_map as va pa prot s =
     bnd (c_panic_unless (area_start uvm_area \<le> va \<and> va < area_end uvm_area)) (\<lambda>_.
     bnd (c_panic_unless (va = va AND NOT (of_nat (pgsize - 1)) \<and> pa = pa AND NOT (of_nat (pgsize - 1)))) (\<lambda>_.
     bnd (ptwalk as va (PTE_W OR PTE_U) s) (\<lambda>(e, s1).
     bnd (if prot = MMAP_NONE
          then bnd (c_panic_unless (mem s1 e AND PTE_P \<noteq> 0)) (\<lambda>_. Inr (store e 0 s1))
          else bnd (c_panic_unless (mem s1 e AND PTE_P = 0)) (\<lambda>_.
            Inr (store e (pa OR PTE_P OR PTE_U OR (if prot AND MMAP_WRITE \<noteq> 0 then PTE_W else 0)) s1)))
       (\<lambda>s2. bnd (ptwalk as va (PTE_W OR PTE_U) s2) (\<lambda>(_, s3). Inr s3)))))"

section \<open>User contexts\<close>

record am_context =
  c_cr3 :: u32
  c_ds :: u32
  c_eax :: u32
  c_ebx :: u32
  c_ecx :: u32
  c_edx :: u32
  c_esp0 :: u32
  c_esi :: u32
  c_edi :: u32
  c_ebp :: u32
  c_eip :: u32
  c_cs :: u32
  c_eflags :: u32
  c_esp :: u32
  c_ss3 :: u32

definition zero_context :: am_context where
  "zero_context = \<lparr>c_cr3 = 0, c_ds = 0, c_eax = 0, c_ebx = 0, c_ecx = 0, c_edx = 0, c_esp0 = 0, c_esi = 0,
     c_edi = 0, c_ebp = 0, c_eip = 0, c_cs = 0, c_eflags = 0, c_esp = 0, c_ss3 = 0\<rparr>"

definition sizeof_context :: u32 where "sizeof_context = 60"

definition DPL_KERN :: u32 where "DPL_KERN = 0"
definition DPL_USER :: u32 where "DPL_USER = 3"
definition KSEL :: "u32 \<Rightarrow> u32" where "KSEL seg = push_bit 3 seg OR DPL_KERN"
definition USEL :: "u32 \<Rightarrow> u32" where "USEL seg = push_bit 3 seg OR DPL_USER"
definition SEG_KCODE :: u32 where "SEG_KCODE = 1"
definition SEG_KDATA :: u32 where "SEG_KDATA = 2"
definition SEG_UCODE :: u32 where "SEG_UCODE = 3"
definition SEG_UDATA :: u32 where "SEG_UDATA = 4"
definition FL_IF :: u32 where "FL_IF = 0x200"

text \<open>The address of the new context and its contents.\<close>

definition ucontext :: "u32 \<Rightarrow> u32 \<Rightarrow> u32 \<Rightarrow> vmm \<Rightarrow> u32 \<times> am_context" where
  "ucontext as kstack_end entry s =
     (kstack_end - sizeof_context,
      zero_context\<lparr>c_cs := USEL SEG_UCODE, c_ds := USEL SEG_UDATA, c_ss3 := USEL SEG_UDATA, c_eip := entry,
        c_eflags := FL_IF, c_esp := area_end uvm_area, c_esp0 := kstack_end, c_cr3 := mem s (as_ptr as)\<rparr>)"

end
