(* ===== verification/X86VmeProps.thy ===== *)
theory X86VmeProps
  imports X86Vme
begin

text \<open>
  Page tables as maps: \<open>mmu_walk\<close> is the translation the processor makes, \<open>wf_space\<close> the invariant of an
  address space under construction, and every operation of \<open>vme.c\<close> is described by what it does to the
  translation.
\<close>

section \<open>Pages and entries as arithmetic\<close>

definition dir_index :: "u32 \<Rightarrow> u32" where "dir_index va = indexof va (pgtables ! 1)"
definition tab_index :: "u32 \<Rightarrow> u32" where "tab_index va = indexof va (pgtables ! 2)"

definition page :: "u32 \<Rightarrow> bool" where
  "page p \<longleftrightarrow> p \<noteq> 0 \<and> baseof p = p"

lemma baseof_mask: "baseof x = push_bit 12 (drop_bit 12 x)"
proof (rule bit_word_eqI)
  fix n assume "n < LENGTH(32)"
  have m: "(of_nat (pgsize - 1) :: u32) = mask 12" by (simp add: pgsize_def mask_eq_exp_minus_1)
  show "bit (baseof x) n = bit (push_bit 12 (drop_bit 12 x)) n"
    using \<open>n < LENGTH(32)\<close> unfolding baseof_def m by (auto simp: bit_simps)
qed

lemma unat_shift_right: "unat (drop_bit n (x :: u32)) = unat x div 2 ^ n"
  unfolding unat_drop_bit_eq by (rule drop_bit_eq_div)

lemma unat_baseof: "unat (baseof x) = 4096 * (unat x div 4096)"
proof -
  have "unat (drop_bit 12 x) = unat x div 4096" by (simp add: unat_shift_right)
  moreover have "4096 * (unat x div 4096) < 4294967296"
    using u32_less_4G [of x] by (rule le_less_trans [rotated]) simp
  ultimately show ?thesis
    by (simp add: baseof_mask push_bit_eq_mult unat_word_ariths mult.commute)
qed

lemma unat_dir_index: "unat (dir_index va) = unat va div 4194304"
proof -
  have "dir_index va = drop_bit 22 va"
  proof (rule bit_word_eqI)
    fix n assume n: "n < LENGTH(32)"
    have m: "(0xffc00000 :: u32) = NOT (mask 22)" by (simp add: mask_eq_exp_minus_1)
    show "bit (dir_index va) n = bit (drop_bit 22 va) n"
      unfolding dir_index_def tab_index_def indexof_def pgtables_def using n by (simp add: m) (auto simp: bit_simps dest: bit_imp_le_length)
  qed
  then show ?thesis by (simp add: unat_shift_right)
qed

lemma unat_tab_index: "unat (tab_index va) = unat va div 4096 mod 1024"
proof -
  have "tab_index va = take_bit 10 (drop_bit 12 va)"
  proof (rule bit_word_eqI)
    fix n assume n: "n < LENGTH(32)"
    have m: "(0x003ff000 :: u32) = push_bit 12 (mask 10)" by (simp add: mask_eq_exp_minus_1)
    show "bit (tab_index va) n = bit (take_bit 10 (drop_bit 12 va)) n"
      unfolding dir_index_def tab_index_def indexof_def pgtables_def using n by (simp add: m) (auto simp: bit_simps)
  qed
  then show ?thesis by (simp add: take_bit_eq_mod unat_mod unat_shift_right)
qed

lemma index_less [simp]: "unat (dir_index va) < 1024" "unat (tab_index va) < 1024"
  using u32_less_4G [of va] unfolding unat_dir_index unat_tab_index by linarith+

text \<open>A page address ends in twelve zeros; entry \<open>i\<close> of a table lies in the table's page.\<close>

lemma page_unat: "page p \<Longrightarrow> 4096 * (unat p div 4096) = unat p"
  by (metis page_def unat_baseof)

lemma unat_entry:
  assumes "page p" "unat i < 1024"
  shows "unat (p + 4 * i) = unat p + 4 * unat i"
proof -
  have "unat p div 4096 < 1048576" using u32_less_4G [of p] by linarith
  then have "unat p + 4 * unat i < 4294967296" using page_unat [OF assms(1)] assms(2) by linarith
  moreover have "unat (4 * i) = 4 * unat i" using assms(2) by (simp add: unat_word_ariths)
  ultimately show ?thesis by (simp add: unat_word_ariths)
qed

lemma baseof_entry:
  assumes "page p" "unat i < 1024"
  shows "baseof (p + 4 * i) = p"
proof -
  obtain k where k: "unat p = 4096 * k" using page_unat [OF assms(1)] by metis
  have "(4 * unat i) div 4096 = 0" using assms(2) by simp
  then have "unat (baseof (p + 4 * i)) = unat p" unfolding unat_baseof unat_entry [OF assms] k by simp
  then show ?thesis by (simp add: word_unat_eq_iff)
qed

lemma entry_inj:
  assumes "page p" "unat i < 1024" "page q" "unat j < 1024"
  shows "p + 4 * i = q + 4 * j \<longleftrightarrow> p = q \<and> i = j"
proof
  assume e: "p + 4 * i = q + 4 * j"
  have "p = q" using baseof_entry [OF assms(1,2)] baseof_entry [OF assms(3,4)] e by metis
  moreover have "unat i = unat j"
    using unat_entry [OF assms(1,2)] unat_entry [OF assms(3,4)] e \<open>p = q\<close> by simp
  ultimately show "p = q \<and> i = j" by (simp add: word_unat_eq_iff)
qed simp

lemma same_page: "baseof v = baseof va \<longleftrightarrow> dir_index v = dir_index va \<and> tab_index v = tab_index va"
proof -
  have "baseof v = baseof va \<longleftrightarrow> unat v div 4096 = unat va div 4096"
    unfolding word_unat_eq_iff [of "baseof v"] unat_baseof by simp
  also have "\<dots> \<longleftrightarrow> unat v div 4194304 = unat va div 4194304 \<and> unat v div 4096 mod 1024 = unat va div 4096 mod 1024"
  proof -
    have "x div 4194304 = x div 4096 div 1024" for x :: nat using div_mult2_eq [of x 4096 1024] by simp
    then show ?thesis using div_mult_mod_eq [of _ 1024] by metis
  qed
  finally show ?thesis by (simp only: word_unat_eq_iff unat_dir_index unat_tab_index)
qed

text \<open>An entry is a page and flags below the page size.\<close>

lemma entry_flags:
  assumes "baseof p = p" "take_bit 12 f = f"
  shows "baseof (p OR f) = p" "(p OR f) AND PTE_P = f AND PTE_P" "(p OR f) AND PTE_W = f AND PTE_W"
    "(p OR f) AND PTE_U = f AND PTE_U"
proof -
  have f: "bit f n \<Longrightarrow> n < 12" for n by (metis assms(2) bit_take_bit_iff)
  have p: "bit p n \<Longrightarrow> 12 \<le> n" for n using assms(1) unfolding baseof_mask by (metis bit_push_bit_iff)
  have k: "bit PTE_P n \<longleftrightarrow> n = 0" "bit PTE_W n \<longleftrightarrow> n = 1" "bit PTE_U n \<longleftrightarrow> n = 2" for n
  proof -
    have w: "PTE_W = 2 ^ 1" "PTE_U = 2 ^ 2" by (simp_all add: PTE_W_def PTE_U_def)
    show "bit PTE_P n \<longleftrightarrow> n = 0" by (simp add: PTE_P_def bit_1_iff)
    show "bit PTE_W n \<longleftrightarrow> n = 1" "bit PTE_U n \<longleftrightarrow> n = 2" unfolding w bit_exp_iff by auto
  qed
  show "baseof (p OR f) = p"
  proof (rule bit_word_eqI)
    fix n assume "n < LENGTH(32)"
    have "bit (baseof (p OR f)) n \<longleftrightarrow> 12 \<le> n \<and> (bit p n \<or> bit f n)"
      unfolding baseof_mask using \<open>n < LENGTH(32)\<close> by (auto simp: bit_simps)
    then show "bit (baseof (p OR f)) n = bit p n" using f p by (metis leD)
  qed
  show "(p OR f) AND PTE_P = f AND PTE_P" "(p OR f) AND PTE_W = f AND PTE_W" "(p OR f) AND PTE_U = f AND PTE_U"
    by (rule bit_word_eqI, use p in \<open>fastforce simp: bit_simps k\<close>)+
qed

lemmas entry_parts = entry_flags [OF page_def [THEN iffD1, THEN conjunct2]]

section \<open>Translation and the invariant\<close>

text \<open>The i386's two-level walk from a value of CR3: the physical address, and whether a user may write or access it.\<close>

definition mmu_walk :: "(u32 \<Rightarrow> u32) \<Rightarrow> u32 \<Rightarrow> u32 \<Rightarrow> (u32 \<times> bool \<times> bool) option" where
  "mmu_walk m root va =
     (let d = m (baseof root + 4 * dir_index va); e = m (baseof d + 4 * tab_index va) in
      if d AND PTE_P = 0 \<or> e AND PTE_P = 0 then None
      else Some (baseof e OR take_bit 12 va, d AND e AND PTE_W \<noteq> 0, d AND e AND PTE_U \<noteq> 0))"

definition used :: "vmm \<Rightarrow> u32 \<Rightarrow> u32 \<Rightarrow> bool" where
  "used s r i \<longleftrightarrow> unat i < 1024 \<and> mem s (r + 4 * i) AND PTE_P \<noteq> 0"

definition table :: "vmm \<Rightarrow> u32 \<Rightarrow> u32 \<Rightarrow> u32" where
  "table s r i = baseof (mem s (r + 4 * i))"

text \<open>
  The root, the tables it points to, the pages the allocator will still give out and the page of the
  structure itself are all different.
\<close>

definition wf_space :: "vmm \<Rightarrow> u32 \<Rightarrow> u32 \<Rightarrow> bool" where
  "wf_space s as r \<longleftrightarrow>
     page r \<and> mem s (as_ptr as) AND PTE_P \<noteq> 0 \<and> baseof (mem s (as_ptr as)) = r \<and> baseof (as_ptr as) \<noteq> r \<and>
     distinct (pages_left s) \<and>
     (\<forall>p \<in> set (pages_left s). page p \<and> p \<noteq> r \<and> p \<noteq> baseof (as_ptr as)) \<and>
     (\<forall>i. used s r i \<longrightarrow> page (table s r i) \<and> table s r i \<noteq> r \<and> table s r i \<notin> set (pages_left s) \<and>
        table s r i \<noteq> baseof (as_ptr as)) \<and>
     (\<forall>i j. used s r i \<longrightarrow> used s r j \<longrightarrow> table s r i = table s r j \<longrightarrow> i = j)"

lemma clear_words_keeps [simp]:
  "pages_left (clear_words n a s) = pages_left s" "freed (clear_words n a s) = freed s" "kpt (clear_words n a s) = kpt s"
  "cr0 (clear_words n a s) = cr0 s" "cr3 (clear_words n a s) = cr3 s"
  by (induction n arbitrary: a s) (simp_all add: store_def)

lemma clear_words_other: "(\<forall>k < n. x \<noteq> a + 4 * of_nat k) \<Longrightarrow> mem (clear_words n a s) x = mem s x"
proof (induction n arbitrary: a s)
  case (Suc n)
  have "x \<noteq> a + 4 + 4 * of_nat k" if "k < n" for k
    using Suc.prems [rule_format, of "Suc k"] that by (simp add: algebra_simps)
  moreover have "x \<noteq> a" using Suc.prems [rule_format, of 0] by simp
  ultimately show ?case using Suc.IH [of "a + 4" "store a 0 s"] by (simp add: store_def)
qed simp

lemma clear_words_zero: "k < n \<Longrightarrow> mem s x = 0 \<or> x = a + 4 * of_nat k \<Longrightarrow> mem (clear_words n a s) x = 0"
proof (induction n arbitrary: a s k)
  case (Suc n)
  show ?case
  proof (cases "n = 0")
    case True
    then show ?thesis using Suc.prems by (auto simp: store_def)
  next
    case False
    show ?thesis
    proof (cases k)
      case 0
      then have "mem (store a 0 s) x = 0" using Suc.prems(2) by (auto simp: store_def)
      then show ?thesis using Suc.IH [of 0] False by simp
    next
      case (Suc k')
      then have "mem (store a 0 s) x = 0 \<or> x = a + 4 + 4 * of_nat k'"
        using Suc.prems(2) by (auto simp: store_def algebra_simps)
      then show ?thesis using Suc.IH [of k'] Suc Suc.prems(1) by simp
    qed
  qed
qed simp

text \<open>A cleared page reads zero at every entry, and nothing else has changed.\<close>

lemma cleared_page:
  assumes "page q"
  shows "unat j < 1024 \<Longrightarrow> mem (clear_words (pgsize div 4) q s) (q + 4 * j) = 0"
    "baseof x \<noteq> q \<Longrightarrow> mem (clear_words (pgsize div 4) q s) x = mem s x"
proof -
  assume "unat j < 1024"
  then show "mem (clear_words (pgsize div 4) q s) (q + 4 * j) = 0"
    by (intro clear_words_zero [of "unat j"]) (simp_all add: pgsize_def)
next
  assume b: "baseof x \<noteq> q"
  show "mem (clear_words (pgsize div 4) q s) x = mem s x"
  proof (rule clear_words_other, intro allI impI)
    fix k assume "k < pgsize div 4"
    then have "unat (of_nat k :: u32) < 1024" by (simp add: pgsize_def unat_of_nat)
    then show "x \<noteq> q + 4 * of_nat k" using baseof_entry [OF assms] b by metis
  qed
qed

lemma pgallocz_page:
  "pages_left s = q # ps \<Longrightarrow> page q \<Longrightarrow> pgallocz s = Inr (q, clear_words (pgsize div 4) q (s\<lparr>pages_left := ps\<rparr>))"
  by (simp add: pgallocz_def page_def)

lemma ptwalk_two_levels:
  assumes "wf_space s as r"
  shows "ptwalk as va f s =
    (if mem s (r + 4 * dir_index va) AND PTE_P = 0
     then bnd (pgallocz s) (\<lambda>(q, s1). Inr (q + 4 * tab_index va, store (r + 4 * dir_index va) (q OR PTE_P OR f) s1))
     else Inr (table s r (dir_index va) + 4 * tab_index va, s))"
  using assms by (simp add: ptwalk_def pgtables_def wf_space_def Let_def table_def dir_index_def tab_index_def)
    (simp add: indexof_def)

lemma mmu_walk_cong:
  assumes "page r" "mem s' (r + 4 * dir_index v) = mem s (r + 4 * dir_index v)"
    and "used s r (dir_index v) \<Longrightarrow>
      mem s' (table s r (dir_index v) + 4 * tab_index v) = mem s (table s r (dir_index v) + 4 * tab_index v)"
  shows "mmu_walk (mem s') r v = mmu_walk (mem s) r v"
  using assms by (cases "used s r (dir_index v)") (auto simp: mmu_walk_def Let_def used_def table_def page_def)

lemma mem_store: "mem (store a v s) x = (if x = a then v else mem s x)"
  by (simp add: store_def)

lemma store_keeps [simp]:
  "pages_left (store a v s) = pages_left s" "freed (store a v s) = freed s" "kpt (store a v s) = kpt s"
  "cr0 (store a v s) = cr0 s" "cr3 (store a v s) = cr3 s"
  by (simp_all add: store_def)

section \<open>Adding a table\<close>

definition fresh :: "vmm \<Rightarrow> u32 \<Rightarrow> u32 \<Rightarrow> u32 \<Rightarrow> u32 \<Rightarrow> u32 list \<Rightarrow> u32 \<Rightarrow> bool" where
  "fresh s as r i q ps f \<longleftrightarrow> wf_space s as r \<and> unat i < 1024 \<and> mem s (r + 4 * i) AND PTE_P = 0 \<and>
     pages_left s = q # ps \<and> take_bit 12 f = f"

definition new_table :: "u32 \<Rightarrow> u32 \<Rightarrow> u32 \<Rightarrow> u32 list \<Rightarrow> u32 \<Rightarrow> vmm \<Rightarrow> vmm" where
  "new_table r i q ps f s =
     store (r + 4 * i) (q OR (PTE_P OR f)) (clear_words (pgsize div 4) q (s\<lparr>pages_left := ps\<rparr>))"

lemma fresh_facts:
  assumes "fresh s as r i q ps f"
  shows "wf_space s as r" "unat i < 1024" "mem s (r + 4 * i) AND PTE_P = 0" "pages_left s = q # ps"
    "page q" "q \<noteq> r" "q \<noteq> baseof (as_ptr as)" "q \<notin> set ps" "distinct ps" "page r"
    "take_bit 12 (PTE_P OR f) = PTE_P OR f" "(PTE_P OR f) AND PTE_P \<noteq> 0"
proof -
  show "wf_space s as r" "unat i < 1024" "mem s (r + 4 * i) AND PTE_P = 0" "pages_left s = q # ps"
    using assms by (auto simp: fresh_def)
  then show "page q" "q \<noteq> r" "q \<noteq> baseof (as_ptr as)" "q \<notin> set ps" "distinct ps" "page r"
    by (auto simp: wf_space_def)
  have "take_bit 12 PTE_P = PTE_P" by (simp add: PTE_P_def)
  then show "take_bit 12 (PTE_P OR f) = PTE_P OR f" using assms by (simp only: take_bit_or fresh_def)
  have "(PTE_P OR f) AND PTE_P = PTE_P" by (rule bit_word_eqI) (auto simp: bit_simps)
  then show "(PTE_P OR f) AND PTE_P \<noteq> 0" by (simp add: PTE_P_def)
qed

lemma new_table_dir: "mem (new_table r i q ps f s) (r + 4 * i) = q OR (PTE_P OR f)"
  by (simp add: new_table_def mem_store)

lemma new_table_keeps:
  "pages_left (new_table r i q ps f s) = ps" "cr0 (new_table r i q ps f s) = cr0 s" "kpt (new_table r i q ps f s) = kpt s"
  by (simp_all add: new_table_def)

lemma new_table_zero:
  assumes "fresh s as r i q ps f" "unat j < 1024"
  shows "mem (new_table r i q ps f s) (q + 4 * j) = 0"
  using entry_inj [OF fresh_facts(5) [OF assms(1)] assms(2) fresh_facts(10,2) [OF assms(1)]] fresh_facts(6) [OF assms(1)]
    cleared_page(1) [OF fresh_facts(5) [OF assms(1)] assms(2)]
  by (simp add: new_table_def mem_store)

lemma new_table_other:
  "fresh s as r i q ps f \<Longrightarrow> x \<noteq> r + 4 * i \<Longrightarrow> baseof x \<noteq> q \<Longrightarrow> mem (new_table r i q ps f s) x = mem s x"
  using cleared_page(2) [OF fresh_facts(5), of s as r i q ps f x] by (simp add: new_table_def mem_store)

lemma new_table_dir_other:
  assumes "fresh s as r i q ps f" "unat j < 1024" "j \<noteq> i"
  shows "mem (new_table r i q ps f s) (r + 4 * j) = mem s (r + 4 * j)"
  using entry_inj [OF fresh_facts(10) [OF assms(1)] assms(2) fresh_facts(10,2) [OF assms(1)]]
    baseof_entry [OF fresh_facts(10) [OF assms(1)] assms(2)] fresh_facts(6) [OF assms(1)] assms(3)
  by (intro new_table_other [OF assms(1)]) auto

lemma new_table_used:
  assumes "fresh s as r i q ps f"
  shows "used (new_table r i q ps f s) r j \<longleftrightarrow> j = i \<or> used s r j"
proof (cases "j = i")
  case True
  then show ?thesis
    using fresh_facts(2,12) [OF assms] entry_parts(2) [OF fresh_facts(5,11) [OF assms]]
    by (simp add: used_def new_table_dir)
next
  case False
  then show ?thesis using new_table_dir_other [OF assms, of j] by (auto simp: used_def)
qed

lemma new_table_table:
  assumes "fresh s as r i q ps f"
  shows "table (new_table r i q ps f s) r i = q" "used s r j \<Longrightarrow> table (new_table r i q ps f s) r j = table s r j"
proof -
  show "table (new_table r i q ps f s) r i = q"
    using entry_parts(1) [OF fresh_facts(5,11) [OF assms]] by (simp add: table_def new_table_dir)
  assume u: "used s r j"
  then have "j \<noteq> i" using fresh_facts(3) [OF assms] by (auto simp: used_def)
  then show "table (new_table r i q ps f s) r j = table s r j"
    using new_table_dir_other [OF assms, of j] u by (simp add: table_def used_def)
qed

lemma old_table:
  assumes "fresh s as r i q ps f" "used s r j"
  shows "page (table s r j)" "table s r j \<noteq> r" "table s r j \<noteq> q" "table s r j \<notin> set ps"
    "table s r j \<noteq> baseof (as_ptr as)"
  using fresh_facts(1,4) [OF assms(1)] assms(2) by (auto simp: wf_space_def)

lemma new_table_wf:
  assumes "fresh s as r i q ps f"
  shows "wf_space (new_table r i q ps f s) as r"
proof -
  let ?s = "new_table r i q ps f s"
  note w = fresh_facts(1) [OF assms]
  have "as_ptr as \<noteq> r + 4 * i" using baseof_entry [OF fresh_facts(10,2) [OF assms]] w by (auto simp: wf_space_def)
  then have a: "mem ?s (as_ptr as) = mem s (as_ptr as)"
    using fresh_facts(7) [OF assms] by (intro new_table_other [OF assms]) auto
  have "used ?s r j \<Longrightarrow> used ?s r k \<Longrightarrow> table ?s r j = table ?s r k \<Longrightarrow> j = k" for j k
    using new_table_used [OF assms, of j] new_table_used [OF assms, of k] new_table_table(1) [OF assms]
      new_table_table(2) [OF assms, of j] new_table_table(2) [OF assms, of k]
      old_table(3) [OF assms, of j] old_table(3) [OF assms, of k] w
    by (auto simp: wf_space_def)
  moreover have "page (table ?s r j) \<and> table ?s r j \<noteq> r \<and> table ?s r j \<notin> set ps \<and>
      table ?s r j \<noteq> baseof (as_ptr as)" if "used ?s r j" for j
    using that new_table_used [OF assms, of j] new_table_table [OF assms] old_table [OF assms, of j]
      fresh_facts(5-8) [OF assms] by auto
  moreover have "pages_left ?s = ps" by (simp add: new_table_def)
  ultimately show ?thesis
    using w fresh_facts(4,9) [OF assms] a unfolding wf_space_def by auto
qed

lemma new_table_walk:
  assumes "fresh s as r i q ps f"
  shows "mmu_walk (mem (new_table r i q ps f s)) r v = mmu_walk (mem s) r v"
proof (cases "dir_index v = i")
  case True
  note r = fresh_facts(10) [OF assms]
  have "mmu_walk (mem s) r v = None"
    using fresh_facts(3) [OF assms] r True by (simp add: mmu_walk_def Let_def page_def)
  moreover have "mmu_walk (mem (new_table r i q ps f s)) r v = None"
    using r True new_table_zero [OF assms, of "tab_index v"] entry_parts(1) [OF fresh_facts(5,11) [OF assms]]
    by (simp add: mmu_walk_def Let_def page_def new_table_dir)
  ultimately show ?thesis by simp
next
  case False
  note r = fresh_facts(10) [OF assms]
  show ?thesis
  proof (rule mmu_walk_cong [OF r])
    show "mem (new_table r i q ps f s) (r + 4 * dir_index v) = mem s (r + 4 * dir_index v)"
      by (rule new_table_dir_other [OF assms]) (simp_all add: False)
    assume u: "used s r (dir_index v)"
    have b: "baseof (table s r (dir_index v) + 4 * tab_index v) = table s r (dir_index v)"
      by (rule baseof_entry [OF old_table(1) [OF assms u]]) simp
    then show "mem (new_table r i q ps f s) (table s r (dir_index v) + 4 * tab_index v) =
        mem s (table s r (dir_index v) + 4 * tab_index v)"
      using old_table(2,3) [OF assms u] baseof_entry [OF r fresh_facts(2) [OF assms]]
      by (intro new_table_other [OF assms]) auto
  qed
qed

section \<open>What a walk and a store of an entry do\<close>

lemma ptwalk_used:
  "wf_space s as r \<Longrightarrow> used s r (dir_index va) \<Longrightarrow>
    ptwalk as va f s = Inr (table s r (dir_index va) + 4 * tab_index va, s)"
  by (simp add: ptwalk_two_levels used_def)

lemma ptwalk_fresh:
  "fresh s as r (dir_index va) q ps f \<Longrightarrow>
    ptwalk as va f s = Inr (q + 4 * tab_index va, new_table r (dir_index va) q ps f s)"
  using ptwalk_two_levels [OF fresh_facts(1)] fresh_facts(3) pgallocz_page [OF fresh_facts(4,5)]
  by (simp add: new_table_def or.assoc)

text \<open>What \<open>ptwalk\<close> guarantees, whether it finds the table or adds one.\<close>

definition walked :: "u32 \<Rightarrow> u32 \<Rightarrow> u32 \<Rightarrow> u32 \<Rightarrow> vmm \<Rightarrow> vmm \<Rightarrow> bool" where
  "walked as r va f s s1 \<longleftrightarrow>
     wf_space s1 as r \<and> used s1 r (dir_index va) \<and> (\<forall>v. mmu_walk (mem s1) r v = mmu_walk (mem s) r v) \<and>
     (\<forall>j. used s1 r j \<longleftrightarrow> j = dir_index va \<or> used s r j) \<and>
     (\<forall>j. used s r j \<longrightarrow> mem s1 (r + 4 * j) = mem s (r + 4 * j)) \<and>
     (\<not> used s r (dir_index va) \<longrightarrow> (\<exists>q \<in> set (pages_left s). page q \<and> mem s1 (r + 4 * dir_index va) = q OR (PTE_P OR f))) \<and>
     (\<forall>x. baseof x \<notin> insert r (set (pages_left s)) \<longrightarrow> mem s1 x = mem s x) \<and>
     (used s r (dir_index va) \<longrightarrow> s1 = s) \<and> length (pages_left s) \<le> Suc (length (pages_left s1)) \<and>
     set (pages_left s1) \<subseteq> set (pages_left s) \<and> cr0 s1 = cr0 s \<and> kpt s1 = kpt s"

lemma ptwalk_ok:
  assumes "wf_space s as r" "used s r (dir_index va) \<or> pages_left s \<noteq> []" "take_bit 12 f = f"
  shows "\<exists>s1. ptwalk as va f s = Inr (table s1 r (dir_index va) + 4 * tab_index va, s1) \<and> walked as r va f s s1"
proof (cases "used s r (dir_index va)")
  case True
  then show ?thesis using ptwalk_used [OF assms(1) True] assms(1) by (auto simp: walked_def)
next
  case False
  then obtain q ps where l: "pages_left s = q # ps" using assms(2) by (cases "pages_left s") auto
  have fr: "fresh s as r (dir_index va) q ps f"
    using assms(1,3) l False by (simp add: fresh_def used_def)
  let ?s = "new_table r (dir_index va) q ps f s"
  have "mem ?s x = mem s x" if "baseof x \<notin> insert r (set (pages_left s))" for x
    using that l baseof_entry [OF fresh_facts(10,2) [OF fr]] by (intro new_table_other [OF fr]) auto
  moreover have "mem ?s (r + 4 * j) = mem s (r + 4 * j)" if "used s r j" for j
    using that False by (intro new_table_dir_other [OF fr]) (auto simp: used_def)
  ultimately have "walked as r va f s ?s"
    using new_table_wf [OF fr] new_table_used [OF fr] new_table_walk [OF fr] False l fresh_facts(5) [OF fr] new_table_dir
    unfolding walked_def by (simp add: new_table_keeps subset_insertI)
  then show ?thesis using ptwalk_fresh [OF fr] new_table_table(1) [OF fr] by (intro exI [of _ ?s]) simp
qed

lemma store_entry:
  fixes w :: u32
  assumes "wf_space s as r" "used s r i" "unat j < 1024"
  defines s2: "s2 \<equiv> store (table s r i + 4 * j) w s"
  shows "wf_space s2 as r" "\<And>k. used s2 r k = used s r k" "\<And>k. unat k < 1024 \<Longrightarrow> mem s2 (r + 4 * k) = mem s (r + 4 * k)"
    "mmu_walk (mem s2) r v = (if dir_index v = i \<and> tab_index v = j
       then if w AND PTE_P = 0 then None
         else Some (baseof w OR take_bit 12 v, mem s (r + 4 * i) AND w AND PTE_W \<noteq> 0, mem s (r + 4 * i) AND w AND PTE_U \<noteq> 0)
       else mmu_walk (mem s) r v)"
    "baseof x \<noteq> table s r i \<Longrightarrow> mem s2 x = mem s x"
proof -
  let ?t = "table s r i"
  have r: "page r" and t: "page ?t" "?t \<noteq> r" "?t \<noteq> baseof (as_ptr as)"
    using assms(1,2) by (auto simp: wf_space_def)
  have b: "baseof (?t + 4 * j) = ?t" by (rule baseof_entry [OF t(1) assms(3)])
  show o: "baseof x \<noteq> ?t \<Longrightarrow> mem s2 x = mem s x" for x using b by (auto simp: s2 mem_store)
  show d: "mem s2 (r + 4 * k) = mem s (r + 4 * k)" if "unat k < 1024" for k
    using baseof_entry [OF r that] t(2) by (intro o) auto
  show u: "used s2 r k = used s r k" for k using d [of k] by (auto simp: used_def)
  have tb: "used s r k \<Longrightarrow> table s2 r k = table s r k" for k using d [of k] by (simp add: table_def used_def)
  have "mem s2 (as_ptr as) = mem s (as_ptr as)" using t(3) by (intro o) auto
  moreover have "pages_left s2 = pages_left s" by (simp add: s2)
  ultimately show "wf_space s2 as r"
    using assms(1) u tb unfolding wf_space_def by simp
  show "mmu_walk (mem s2) r v = (if dir_index v = i \<and> tab_index v = j
       then if w AND PTE_P = 0 then None
         else Some (baseof w OR take_bit 12 v, mem s (r + 4 * i) AND w AND PTE_W \<noteq> 0, mem s (r + 4 * i) AND w AND PTE_U \<noteq> 0)
       else mmu_walk (mem s) r v)"
  proof (cases "dir_index v = i \<and> tab_index v = j")
    case True
    then have "mem s2 (baseof (mem s (r + 4 * i)) + 4 * tab_index v) = w"
      by (simp add: s2 mem_store table_def)
    then show ?thesis
      using True assms(2,3) d [of i] r by (simp add: mmu_walk_def Let_def page_def used_def)
  next
    case False
    have "mmu_walk (mem s2) r v = mmu_walk (mem s) r v"
    proof (rule mmu_walk_cong [OF r])
      show "mem s2 (r + 4 * dir_index v) = mem s (r + 4 * dir_index v)" by (rule d) simp
      assume uv: "used s r (dir_index v)"
      then have tv: "page (table s r (dir_index v))" "table s r (dir_index v) = ?t \<Longrightarrow> dir_index v = i"
        using assms(1,2) by (auto simp: wf_space_def)
      have "table s r (dir_index v) + 4 * tab_index v \<noteq> ?t + 4 * j"
        using entry_inj [OF tv(1) _ t(1) assms(3), of "tab_index v"] tv(2) False by auto
      then show "mem s2 (table s r (dir_index v) + 4 * tab_index v) = mem s (table s r (dir_index v) + 4 * tab_index v)"
        by (simp add: s2 mem_store)
    qed
    then show ?thesis using False by auto
  qed
qed

section \<open>Mapping and unmapping\<close>

text \<open>
  A user address space: its tables for user addresses are writable user tables, the others are not
  accessible to the user. The abstract space is the map from user pages to physical pages.
\<close>

definition user_dir :: "u32 \<Rightarrow> bool" where
  "user_dir i \<longleftrightarrow> 256 \<le> unat i \<and> unat i < 512"

definition user_space :: "vmm \<Rightarrow> u32 \<Rightarrow> u32 \<Rightarrow> bool" where
  "user_space s as r \<longleftrightarrow> wf_space s as r \<and>
     (\<forall>i. used s r i \<longrightarrow> (mem s (r + 4 * i) AND PTE_U \<noteq> 0 \<longleftrightarrow> user_dir i) \<and>
        (user_dir i \<longrightarrow> mem s (r + 4 * i) AND PTE_W \<noteq> 0))"

definition user_address :: "u32 \<Rightarrow> bool" where
  "user_address v \<longleftrightarrow> 0x40000000 \<le> v \<and> v < 0x80000000"

definition abs_map :: "u32 \<Rightarrow> u32 \<Rightarrow> u32 \<Rightarrow> (u32 \<Rightarrow> (u32 \<times> bool \<times> bool) option) \<Rightarrow>
    fault + (u32 \<Rightarrow> (u32 \<times> bool \<times> bool) option)" where
  "abs_map va pa prot A =
     (if \<not> user_address va \<or> baseof va \<noteq> va \<or> baseof pa \<noteq> pa then Inl Panic
      else if (prot = MMAP_NONE) = (A va = None) then Inl Panic
      else Inr (\<lambda>v. if baseof v \<noteq> va then A v
        else if prot = MMAP_NONE then None
        else Some (pa OR take_bit 12 v, prot AND MMAP_WRITE \<noteq> 0, True)))"

lemma user_address_dir: "user_address v \<longleftrightarrow> user_dir (dir_index v)"
proof -
  have "user_address v \<longleftrightarrow> 1073741824 \<le> unat v \<and> unat v < 2147483648"
    by (simp add: user_address_def word_le_nat_alt word_less_nat_alt)
  also have "\<dots> \<longleftrightarrow> 256 \<le> unat v div 4194304 \<and> unat v div 4194304 < 512" by linarith
  finally show ?thesis by (simp only: user_dir_def unat_dir_index)
qed

lemma flag_bits: "PTE_W OR PTE_U = 6" "take_bit 12 (6 :: u32) = 6" "PTE_P OR 6 = (7 :: u32)" "take_bit 12 (7 :: u32) = 7"
    "(7 :: u32) AND PTE_W = 2" "(7 :: u32) AND PTE_U = 4" "(7 :: u32) AND PTE_P = 1"
  by (simp_all add: PTE_W_def PTE_U_def PTE_P_def)

lemma walked_user:
  assumes "user_space s as r" "user_address va" "walked as r va 6 s s1"
  shows "user_space s1 as r" "mem s1 (r + 4 * dir_index va) AND PTE_W \<noteq> 0" "mem s1 (r + 4 * dir_index va) AND PTE_U \<noteq> 0"
proof -
  have d: "(mem s1 (r + 4 * i) AND PTE_U \<noteq> 0 \<longleftrightarrow> user_dir i) \<and> (user_dir i \<longrightarrow> mem s1 (r + 4 * i) AND PTE_W \<noteq> 0)"
    if "used s1 r i" for i
  proof (cases "used s r i")
    case True
    then have "mem s1 (r + 4 * i) = mem s (r + 4 * i)" using assms(3) by (simp add: walked_def)
    then show ?thesis using assms(1) True by (simp add: user_space_def)
  next
    case False
    then have i: "i = dir_index va" using that assms(3) by (simp add: walked_def)
    then obtain q where q: "page q" "mem s1 (r + 4 * i) = q OR 7"
      using False assms(3) by (auto simp: walked_def flag_bits)
    have "(q OR 7) AND PTE_W = 2" "(q OR 7) AND PTE_U = 4"
      using entry_parts(3,4) [OF q(1) flag_bits(4)] by (simp_all only: flag_bits)
    then show ?thesis using q(2) i assms(2) by (simp add: user_address_dir)
  qed
  then show "user_space s1 as r" using assms(3) by (simp add: user_space_def walked_def)
  show "mem s1 (r + 4 * dir_index va) AND PTE_W \<noteq> 0" "mem s1 (r + 4 * dir_index va) AND PTE_U \<noteq> 0"
    using d [of "dir_index va"] assms(2,3) by (simp_all add: walked_def user_address_dir)
qed

lemma vm_map_checks:
  "vm_map as va pa prot s =
     (if \<not> user_address va \<or> baseof va \<noteq> va \<or> baseof pa \<noteq> pa then Inl Panic
      else bnd (ptwalk as va 6 s) (\<lambda>(e, s1).
        bnd (if prot = MMAP_NONE
             then bnd (c_panic_unless (mem s1 e AND PTE_P \<noteq> 0)) (\<lambda>_. Inr (store e 0 s1))
             else bnd (c_panic_unless (mem s1 e AND PTE_P = 0)) (\<lambda>_.
               Inr (store e (pa OR (5 OR (if prot AND MMAP_WRITE \<noteq> 0 then 2 else 0))) s1)))
        (\<lambda>s2. bnd (ptwalk as va 6 s2) (\<lambda>(_, s3). Inr s3))))"
proof -
  have p: "pa OR PTE_P OR PTE_U OR x = pa OR (5 OR x)" for x by (simp add: PTE_P_def PTE_U_def flip: or.assoc)
  have w: "(if c then PTE_W else 0) = (if c then 2 else 0 :: u32)" for c by (simp add: PTE_W_def)
  have u: "area_start uvm_area \<le> va \<and> va < area_end uvm_area \<longleftrightarrow> user_address va"
    by (simp add: uvm_area_def vm_areas_def user_address_def)
  have b: "va = va AND NOT (of_nat (pgsize - 1)) \<and> pa = pa AND NOT (of_nat (pgsize - 1)) \<longleftrightarrow> baseof va = va \<and> baseof pa = pa"
    by (auto simp: baseof_def)
  show ?thesis unfolding vm_map_def u b p w flag_bits(1)
    by (cases "user_address va"; cases "baseof va = va"; cases "baseof pa = pa"; simp)
qed

lemma vm_map_steps:
  assumes "user_space s as r" "pages_left s \<noteq> []" "user_address va" "baseof va = va" "baseof pa = pa"
  shows "\<exists>s1. walked as r va 6 s s1 \<and> vm_map as va pa prot s =
    (if (prot = MMAP_NONE) = (mmu_walk (mem s) r va = None) then Inl Panic
     else Inr (store (table s1 r (dir_index va) + 4 * tab_index va)
       (if prot = MMAP_NONE then 0 else pa OR (5 OR (if prot AND MMAP_WRITE \<noteq> 0 then 2 else 0))) s1))"
proof -
  let ?i = "dir_index va" and ?j = "tab_index va"
  let ?w = "if prot = MMAP_NONE then 0 else pa OR (5 OR (if prot AND MMAP_WRITE \<noteq> 0 then 2 else 0))"
  have wf: "wf_space s as r" using assms(1) by (simp add: user_space_def)
  obtain s1 where s1: "ptwalk as va 6 s = Inr (table s1 r ?i + 4 * ?j, s1)" "walked as r va 6 s s1"
    using ptwalk_ok [OF wf, of va 6] assms(2) flag_bits(2) by blast
  let ?e = "table s1 r ?i + 4 * ?j"
  have w1: "wf_space s1 as r" "used s1 r ?i" and m: "mmu_walk (mem s1) r va = mmu_walk (mem s) r va"
    using s1(2) by (simp_all add: walked_def)
  have "page r" using wf by (simp add: wf_space_def)
  then have n: "mem s1 ?e AND PTE_P = 0 \<longleftrightarrow> mmu_walk (mem s) r va = None"
    using w1(2) unfolding m [symmetric] by (simp add: mmu_walk_def Let_def used_def table_def page_def)
  have t: "bnd (ptwalk as va 6 (store ?e v s1)) (\<lambda>(_, s3). Inr s3) = Inr (store ?e v s1)" for v
    using ptwalk_used [OF store_entry(1) [OF w1, of ?j v]] store_entry(2) [OF w1, of ?j v ?i] w1(2) by simp
  have "vm_map as va pa prot s =
      (if (prot = MMAP_NONE) = (mmu_walk (mem s) r va = None) then Inl Panic else Inr (store ?e ?w s1))"
    unfolding vm_map_checks s1(1) n [symmetric] using assms(3-5)
    by (cases "mem s1 ?e AND PTE_P = 0"; cases "prot = MMAP_NONE") (simp_all add: t)
  then show ?thesis using s1(2) by blast
qed

lemma user_space_store:
  assumes "user_space s as r" "used s r i" "unat j < 1024"
  shows "user_space (store (table s r i + 4 * j) w s) as r"
proof -
  have wf: "wf_space s as r" using assms(1) by (simp add: user_space_def)
  note st = store_entry [OF wf assms(2,3), where w = w]
  show ?thesis using assms(1) st(1,2,3) unfolding user_space_def by (simp add: used_def)
qed

lemma map_flags:
  fixes c :: bool
  assumes "d AND PTE_W \<noteq> 0" "d AND PTE_U \<noteq> 0" "baseof pa = pa"
  defines "w \<equiv> pa OR (5 OR (if c then 2 else 0)) :: u32"
  shows "w AND PTE_P \<noteq> 0" "baseof w = pa" "d AND w AND PTE_W \<noteq> 0 \<longleftrightarrow> c" "d AND w AND PTE_U \<noteq> 0"
proof -
  let ?f = "5 OR (if c then 2 else 0) :: u32"
  have f: "take_bit 12 ?f = ?f" by simp
  have "?f AND PTE_P = PTE_P" "?f AND PTE_U = PTE_U" "?f AND PTE_W = (if c then PTE_W else 0)"
    by (simp_all add: PTE_P_def PTE_U_def PTE_W_def)
  then show "w AND PTE_P \<noteq> 0" "baseof w = pa" "d AND w AND PTE_W \<noteq> 0 \<longleftrightarrow> c" "d AND w AND PTE_U \<noteq> 0"
    using entry_flags [OF assms(3) f] assms(1,2) unfolding w_def by (simp_all add: PTE_P_def)
qed

lemma same_page_index:
  "baseof va = va \<Longrightarrow> dir_index v = dir_index va \<and> tab_index v = tab_index va \<longleftrightarrow> baseof v = va"
  using same_page [of v va] by auto

lemma store_in_space:
  assumes "user_space s as r" "used s r (dir_index va)" "user_address va" "baseof va = va" "baseof pa = pa"
    and "mem s (r + 4 * dir_index va) AND PTE_W \<noteq> 0" "mem s (r + 4 * dir_index va) AND PTE_U \<noteq> 0"
  shows "mmu_walk (mem (store (table s r (dir_index va) + 4 * tab_index va)
      (if prot = MMAP_NONE then 0 else pa OR (5 OR (if prot AND MMAP_WRITE \<noteq> 0 then 2 else 0))) s)) r v =
    (if baseof v \<noteq> va then mmu_walk (mem s) r v else if prot = MMAP_NONE then None
     else Some (pa OR take_bit 12 v, prot AND MMAP_WRITE \<noteq> 0, True))"
proof -
  have wf: "wf_space s as r" using assms(1) by (simp add: user_space_def)
  note f = map_flags [OF assms(6,7,5), of "prot AND MMAP_WRITE \<noteq> 0"]
  show ?thesis
    using store_entry(4) [OF wf assms(2) index_less(2) [of va], where v = v] same_page_index [OF assms(4), of v] f
    by (cases "baseof v = va"; cases "prot = MMAP_NONE") auto
qed

section \<open>Two address spaces\<close>

text \<open>
  The second space's root, tables and structure are none of the first one's root and user tables. They
  may share the kernel's tables.
\<close>

definition apart :: "vmm \<Rightarrow> u32 \<Rightarrow> u32 \<Rightarrow> u32 \<Rightarrow> bool" where
  "apart s r1 as2 r2 \<longleftrightarrow> r1 \<noteq> r2 \<and> baseof (as_ptr as2) \<noteq> r1 \<and> (\<forall>j. used s r2 j \<longrightarrow> table s r2 j \<noteq> r1) \<and>
     (\<forall>i. used s r1 i \<longrightarrow> user_dir i \<longrightarrow> table s r1 i \<noteq> r2 \<and> table s r1 i \<noteq> baseof (as_ptr as2) \<and>
        (\<forall>j. used s r2 j \<longrightarrow> table s r2 j \<noteq> table s r1 i))"

lemma walked_table:
  assumes "walked as r va 6 s s1"
  shows "used s r j \<Longrightarrow> table s1 r j = table s r j"
    "\<not> used s r (dir_index va) \<Longrightarrow> table s1 r (dir_index va) \<in> set (pages_left s)"
proof -
  show "used s r j \<Longrightarrow> table s1 r j = table s r j" using assms by (simp add: walked_def table_def)
  assume "\<not> used s r (dir_index va)"
  then obtain q where "q \<in> set (pages_left s)" "page q" "mem s1 (r + 4 * dir_index va) = q OR 7"
    using assms by (auto simp: walked_def flag_bits)
  then show "table s1 r (dir_index va) \<in> set (pages_left s)"
    using entry_parts(1) [OF _ flag_bits(4)] by (simp add: table_def)
qed

text \<open>What agrees on the pages of the second space gives it the same translation and invariant.\<close>

lemma other_space:
  assumes "wf_space s as2 r2" "distinct (pages_left s')" "set (pages_left s') \<subseteq> set (pages_left s)"
    and "\<And>x. baseof x = r2 \<or> baseof x = baseof (as_ptr as2) \<or> (\<exists>j. used s r2 j \<and> baseof x = table s r2 j) \<Longrightarrow>
      mem s' x = mem s x"
  shows "wf_space s' as2 r2" "mmu_walk (mem s') r2 v = mmu_walk (mem s) r2 v" "used s' r2 j = used s r2 j"
    "used s r2 j \<Longrightarrow> table s' r2 j = table s r2 j"
proof -
  have r: "page r2" using assms(1) by (simp add: wf_space_def)
  have d: "mem s' (r2 + 4 * k) = mem s (r2 + 4 * k)" if "unat k < 1024" for k
    using baseof_entry [OF r that] by (intro assms(4)) simp
  show u: "used s' r2 j = used s r2 j" for j using d [of j] by (auto simp: used_def)
  show t: "table s' r2 j = table s r2 j" if "used s r2 j" for j using d [of j] that by (simp add: used_def table_def)
  show "mmu_walk (mem s') r2 v = mmu_walk (mem s) r2 v"
  proof (rule mmu_walk_cong [OF r])
    show "mem s' (r2 + 4 * dir_index v) = mem s (r2 + 4 * dir_index v)" by (rule d) simp
    assume "used s r2 (dir_index v)"
    moreover then have "page (table s r2 (dir_index v))" using assms(1) by (simp add: wf_space_def)
    ultimately show "mem s' (table s r2 (dir_index v) + 4 * tab_index v) = mem s (table s r2 (dir_index v) + 4 * tab_index v)"
      using baseof_entry by (intro assms(4)) auto
  qed
  have "mem s' (as_ptr as2) = mem s (as_ptr as2)" by (rule assms(4)) simp
  then show "wf_space s' as2 r2" using assms(1-3) u t unfolding wf_space_def by auto
qed

section \<open>An example\<close>

text \<open>
  The kernel's space, at \<open>0x1000\<close>, maps the page \<open>0xb8000\<close> to itself; the user space, at \<open>0x4000\<close>, shares
  its table and maps \<open>0x40000000\<close> to \<open>0x7000\<close>. Their structures are at \<open>0x100\<close> and \<open>0x200\<close>.
\<close>

definition demo :: vmm where
  "demo = \<lparr>mem = (\<lambda>a. if a = 0x10c then 0x1003 else if a = 0x20c then 0x4005
       else if a = 0x1000 \<or> a = 0x4000 then 0x5003 else if a = 0x4400 then 0x6007
       else if a = 0x52e0 then 0xb8003 else if a = 0x6000 then 0x7007 else 0),
     pages_left = [0x8000, 0x9000], freed = [], kpt = 0x1000, cr0 = 0x80000001, cr3 = 0x1000\<rparr>"

lemma demo_pages [simp]:
  "baseof 0x10c = 0" "baseof 0x20c = 0" "baseof 0x1000 = 0x1000" "baseof 0x4000 = 0x4000" "baseof 0x4400 = 0x4000"
  "baseof 0x52e0 = 0x5000" "baseof 0x6000 = 0x6000" "baseof 0x1003 = 0x1000" "baseof 0x4005 = 0x4000"
  "baseof 0x5003 = 0x5000" "baseof 0x6007 = 0x6000" "baseof 0x7007 = 0x7000" "baseof 0xb8003 = 0xb8000"
  "baseof 0x8000 = 0x8000" "baseof 0x9000 = 0x9000" "baseof 0x5000 = 0x5000"
  by (simp_all add: baseof_def pgsize_def)

lemma demo_entry:
  assumes "unat i < 1024" "page p"
  shows "p + 4 * i = 0x1000 \<longleftrightarrow> p = 0x1000 \<and> i = 0" "p + 4 * i = 0x4000 \<longleftrightarrow> p = 0x4000 \<and> i = 0"
    "p + 4 * i = 0x4400 \<longleftrightarrow> p = 0x4000 \<and> i = 0x100" "p + 4 * i = 0x52e0 \<longleftrightarrow> p = 0x5000 \<and> i = 0xb8"
    "p + 4 * i = 0x6000 \<longleftrightarrow> p = 0x6000 \<and> i = 0" "p + 4 * i \<noteq> 0x10c" "p + 4 * i \<noteq> 0x20c"
proof -
  note e = entry_inj [OF assms(2,1)]
  show "p + 4 * i = 0x1000 \<longleftrightarrow> p = 0x1000 \<and> i = 0" using e [of "0x1000" 0] by (simp add: page_def)
  show "p + 4 * i = 0x4000 \<longleftrightarrow> p = 0x4000 \<and> i = 0" using e [of "0x4000" 0] by (simp add: page_def)
  show "p + 4 * i = 0x4400 \<longleftrightarrow> p = 0x4000 \<and> i = 0x100" using e [of "0x4000" "0x100"] by (simp add: page_def)
  show "p + 4 * i = 0x52e0 \<longleftrightarrow> p = 0x5000 \<and> i = 0xb8" using e [of "0x5000" "0xb8"] by (simp add: page_def)
  show "p + 4 * i = 0x6000 \<longleftrightarrow> p = 0x6000 \<and> i = 0" using e [of "0x6000" 0] by (simp add: page_def)
  show "p + 4 * i \<noteq> 0x10c" "p + 4 * i \<noteq> 0x20c" using baseof_entry [OF assms(2,1)] assms(2) by (auto simp: page_def)
qed

lemma demo_dir:
  assumes "unat i < 1024"
  shows "mem demo (0x1000 + 4 * i) = (if i = 0 then 0x5003 else 0)"
    "mem demo (0x4000 + 4 * i) = (if i = 0 then 0x5003 else if i = 0x100 then 0x6007 else 0)"
    "mem demo (0x5000 + 4 * i) = (if i = 0xb8 then 0xb8003 else 0)"
    "mem demo (0x6000 + 4 * i) = (if i = 0 then 0x7007 else 0)"
  using demo_entry [OF assms, of "0x1000"] demo_entry [OF assms, of "0x4000"] demo_entry [OF assms, of "0x5000"]
    demo_entry [OF assms, of "0x6000"]
  by (simp_all add: demo_def page_def)

lemma demo_used:
  "used demo 0x1000 i \<longleftrightarrow> i = 0" "used demo 0x4000 i \<longleftrightarrow> i = 0 \<or> i = 0x100"
  "table demo 0x1000 0 = 0x5000" "table demo 0x4000 0 = 0x5000" "table demo 0x4000 0x100 = 0x6000"
proof -
  have n: "unat (0 :: u32) < 1024" "unat (0x100 :: u32) < 1024" by simp_all
  show "used demo 0x1000 i \<longleftrightarrow> i = 0" "used demo 0x4000 i \<longleftrightarrow> i = 0 \<or> i = 0x100"
    using demo_dir(1,2) [of i] by (cases "unat i < 1024", auto simp: used_def PTE_P_def split: if_splits)
  show "table demo 0x1000 0 = 0x5000" "table demo 0x4000 0 = 0x5000" "table demo 0x4000 0x100 = 0x6000"
    using demo_dir(1,2) [OF n(1)] demo_dir(2) [OF n(2)] unfolding table_def by simp_all
qed

lemma demo_spaces: "wf_space demo 0x100 0x1000" "user_space demo 0x200 0x4000" "apart demo 0x4000 0x100 0x1000"
proof -
  have m: "mem demo 0x10c = 0x1003" "mem demo 0x20c = 0x4005" by (simp_all add: demo_def)
  have l: "pages_left demo = [0x8000, 0x9000]" by (simp add: demo_def)
  have w: "wf_space demo 0x200 0x4000" unfolding wf_space_def demo_used(2)
    by (auto simp: m l demo_used as_ptr_def page_def PTE_P_def)
  show "wf_space demo 0x100 0x1000" unfolding wf_space_def demo_used(1)
    by (auto simp: m l demo_used as_ptr_def page_def PTE_P_def)
  show "user_space demo 0x200 0x4000" unfolding user_space_def demo_used(2)
    using w demo_dir(2) [of 0] demo_dir(2) [of "0x100"] by (auto simp: user_dir_def PTE_U_def PTE_W_def)
  show "apart demo 0x4000 0x100 0x1000" unfolding apart_def demo_used(1,2)
    by (auto simp: demo_used user_dir_def as_ptr_def)
qed

lemma demo_walk: "dir_index 0x40000000 = 0x100" "tab_index 0x40000000 = 0" "dir_index 0x40001123 = 0x100" "tab_index 0x40001123 = 1"
    "dir_index 0x40001000 = 0x100" "tab_index 0x40001000 = 1"
    "mmu_walk (mem demo) 0x4000 0x40001000 = None"
proof -
  show i: "dir_index 0x40000000 = 0x100" "tab_index 0x40000000 = 0" "dir_index 0x40001123 = 0x100" "tab_index 0x40001123 = 1"
    "dir_index 0x40001000 = 0x100" "tab_index 0x40001000 = 1"
    by (simp_all add: word_unat_eq_iff unat_dir_index unat_tab_index)
  show "mmu_walk (mem demo) 0x4000 0x40001000 = None"
    using demo_dir(2) [of "0x100"] demo_dir(4) [of 1] by (simp add: mmu_walk_def Let_def i)
qed

section \<open>Properties: mapping\<close>

text \<open>
  C18. \<open>map\<close> refines the update of a map from user pages to physical pages: on an address space that
  satisfies the invariant and with a page left to allocate it panics exactly when the abstract operation
  does (outside the user area, off a page boundary, remapping, unmapping what is not mapped), and
  otherwise the processor's translation of every address is the updated one: the page asked for is
  mapped with the protection asked for, or no longer mapped, and no other address changes.
\<close>

theorem vm_map_refines:
  assumes "user_space s as r" "pages_left s \<noteq> []"
  shows "case vm_map as va pa prot s of
      Inl e \<Rightarrow> abs_map va pa prot (mmu_walk (mem s) r) = Inl e
    | Inr s' \<Rightarrow> user_space s' as r \<and> abs_map va pa prot (mmu_walk (mem s) r) = Inr (mmu_walk (mem s') r)"
proof (cases "user_address va \<and> baseof va = va \<and> baseof pa = pa")
  case False
  then show ?thesis by (auto simp: vm_map_checks abs_map_def)
next
  case True
  then have a: "user_address va" "baseof va = va" "baseof pa = pa" by auto
  obtain s1 where s1: "walked as r va 6 s s1" "vm_map as va pa prot s =
      (if (prot = MMAP_NONE) = (mmu_walk (mem s) r va = None) then Inl Panic
       else Inr (store (table s1 r (dir_index va) + 4 * tab_index va)
         (if prot = MMAP_NONE then 0 else pa OR (5 OR (if prot AND MMAP_WRITE \<noteq> 0 then 2 else 0))) s1))"
    using vm_map_steps [OF assms a] by blast
  note w = walked_user [OF assms(1) a(1) s1(1)]
  have u: "used s1 r (dir_index va)" and m: "mmu_walk (mem s1) r = mmu_walk (mem s) r"
    using s1(1) by (auto simp: walked_def)
  show ?thesis
  proof (cases "(prot = MMAP_NONE) = (mmu_walk (mem s) r va = None)")
    case True
    then show ?thesis using s1(2) a by (simp add: abs_map_def)
  next
    case False
    let ?s = "store (table s1 r (dir_index va) + 4 * tab_index va)
      (if prot = MMAP_NONE then 0 else pa OR (5 OR (if prot AND MMAP_WRITE \<noteq> 0 then 2 else 0))) s1"
    have v: "vm_map as va pa prot s = Inr ?s" using s1(2) False by (simp only: if_False)
    have e: "mmu_walk (mem ?s) r = (\<lambda>v. if baseof v \<noteq> va then mmu_walk (mem s) r v else if prot = MMAP_NONE then None
       else Some (pa OR take_bit 12 v, prot AND MMAP_WRITE \<noteq> 0, True))"
      by (rule ext) (simp only: store_in_space [OF w(1) u a w(2,3)] m)
    have "abs_map va pa prot (mmu_walk (mem s) r) = Inr (mmu_walk (mem ?s) r)"
      unfolding e abs_map_def using a False by (simp only: simp_thms if_False)
    then show ?thesis unfolding v using user_space_store [OF w(1) u index_less(2)] by simp
  qed
qed

theorem vm_map_refines_witness:
  "\<exists>s'. vm_map 0x200 0x40001000 0xa000 (MMAP_READ OR MMAP_WRITE) demo = Inr s' \<and> user_space s' 0x200 0x4000 \<and>
     mmu_walk (mem s') 0x4000 0x40001123 = Some (0xa123, True, True)"
proof -
  have b: "baseof 0x40001000 = 0x40001000" "baseof 0xa000 = 0xa000" "baseof 0x40001123 = 0x40001000"
    by (simp_all add: baseof_def pgsize_def)
  have t: "take_bit 12 (0x40001123 :: u32) = 0x123" by (simp add: take_bit_eq_mask mask_eq_exp_minus_1)
  have p: "MMAP_READ OR MMAP_WRITE = 3" "MMAP_NONE = 0"
    by (simp_all add: MMAP_READ_def MMAP_WRITE_def MMAP_NONE_def)
  have "pages_left demo \<noteq> []" by (simp add: demo_def)
  note r = vm_map_refines [OF demo_spaces(2) this, of "0x40001000" "0xa000" 3]
  have c: "user_address 0x40001000" by (simp add: user_address_def)
  obtain s' where s': "vm_map 0x200 0x40001000 0xa000 3 demo = Inr s'" "user_space s' 0x200 0x4000"
    "abs_map 0x40001000 0xa000 3 (mmu_walk (mem demo) 0x4000) = Inr (mmu_walk (mem s') 0x4000)"
    using r by (cases "vm_map 0x200 0x40001000 0xa000 3 demo") (auto simp: abs_map_def b c p(2) demo_walk)
  have "abs_map 0x40001000 0xa000 3 (mmu_walk (mem demo) 0x4000) =
      Inr (\<lambda>v. if baseof v \<noteq> 0x40001000 then mmu_walk (mem demo) 0x4000 v else Some (0xa000 OR take_bit 12 v, True, True))"
    by (simp add: abs_map_def b c demo_walk fun_eq_iff MMAP_WRITE_def MMAP_NONE_def)
  from fun_cong [OF s'(3) [unfolded this sum.inject], of "0x40001123"]
  have "mmu_walk (mem s') 0x4000 0x40001123 = Some (0xa123, True, True)" by (simp add: b t)
  then show ?thesis using s'(1,2) unfolding p(1) by blast
qed

text \<open>
  C24. Address spaces are isolated: \<open>map\<close> in one changes the translation of no address in another one,
  whose kernel tables it may share, and keeps the two apart for the next call.
\<close>

theorem vm_map_isolated:
  assumes "user_space s as r" "wf_space s as2 r2" "apart s r as2 r2" "pages_left s \<noteq> []"
    and "vm_map as va pa prot s = Inr s'"
  shows "mmu_walk (mem s') r2 v = mmu_walk (mem s) r2 v \<and> wf_space s' as2 r2 \<and> apart s' r as2 r2"
proof -
  let ?i = "dir_index va"
  have a: "user_address va" "baseof va = va" "baseof pa = pa"
    using assms(5) by (auto simp: vm_map_checks split: if_splits)
  have "\<exists>s1 w. walked as r va 6 s s1 \<and> s' = store (table s1 r ?i + 4 * tab_index va) w s1"
    using vm_map_steps [OF assms(1,4) a, of prot] assms(5) by (metis sum.inject(2) sum.distinct(1))
  then obtain s1 w where s1: "walked as r va 6 s s1" "s' = store (table s1 r ?i + 4 * tab_index va) w s1" by blast
  have w1: "wf_space s1 as r" "used s1 r ?i" using s1(1) by (simp_all add: walked_def)
  note st = store_entry [OF w1 index_less(2) [of va], where w = w, folded s1(2)]
  have ui: "user_dir ?i" using a(1) by (simp add: user_address_dir)
  have t: "table s1 r ?i \<in> set (pages_left s) \<or> used s r ?i \<and> table s1 r ?i = table s r ?i"
    using walked_table [OF s1(1)] by blast
  have o2: "r2 \<notin> set (pages_left s)" "baseof (as_ptr as2) \<notin> set (pages_left s)"
      "used s r2 j \<Longrightarrow> table s r2 j \<notin> set (pages_left s)" for j
    using assms(2) by (auto simp: wf_space_def)
  have l: "pages_left s' = pages_left s1" by (simp add: s1(2))
  have sm: "mem s' x = mem s x"
    if h: "baseof x = r2 \<or> baseof x = baseof (as_ptr as2) \<or> (\<exists>j. used s r2 j \<and> baseof x = table s r2 j)" for x
  proof -
    have "baseof x \<noteq> r" "baseof x \<notin> set (pages_left s)" "baseof x \<noteq> table s1 r ?i"
      using h assms(3) o2 t ui unfolding apart_def by metis+
    then show ?thesis using st(5) [of x] s1(1) by (simp add: walked_def)
  qed
  have d: "distinct (pages_left s')" "set (pages_left s') \<subseteq> set (pages_left s)"
    using w1(1) s1(1) l by (simp_all add: wf_space_def walked_def)
  note o = other_space [OF assms(2) d sm]
  have us: "used s' r i \<longleftrightarrow> i = ?i \<or> used s r i" for i using st(2) [of i] s1(1) by (simp add: walked_def)
  have ts: "table s' r i = table s1 r i" if "used s' r i" for i
    using st(3) [of i] that by (simp add: table_def used_def)
  have "table s' r i \<in> set (pages_left s) \<or> used s r i \<and> table s' r i = table s r i" if "used s' r i" for i
    using ts [OF that] us [of i] that t walked_table(1) [OF s1(1), of i] by auto
  then have "apart s' r as2 r2"
    using assms(3) o(3,4) o2 unfolding apart_def by metis
  then show ?thesis using o(1,2) by blast
qed

theorem vm_map_isolated_witness:
  "\<exists>s'. vm_map 0x200 0x40001000 0xa000 (MMAP_READ OR MMAP_WRITE) demo = Inr s' \<and>
     (\<forall>v. mmu_walk (mem s') 0x1000 v = mmu_walk (mem demo) 0x1000 v) \<and> mmu_walk (mem demo) 0x1000 0xb8008 = Some (0xb8008, True, False)"
proof -
  have b: "user_address 0x40001000" "baseof 0x40001000 = 0x40001000" "baseof 0xa000 = 0xa000"
    by (simp_all add: baseof_def pgsize_def user_address_def)
  have p: "MMAP_READ OR MMAP_WRITE = 3" "MMAP_NONE = 0" by (simp_all add: MMAP_READ_def MMAP_WRITE_def MMAP_NONE_def)
  have l: "pages_left demo \<noteq> []" by (simp add: demo_def)
  obtain s' where s': "vm_map 0x200 0x40001000 0xa000 3 demo = Inr s'"
    using vm_map_steps [OF demo_spaces(2) l b, of 3] p(2) demo_walk(7) by auto
  have i: "dir_index 0xb8008 = 0" "tab_index 0xb8008 = 0xb8"
    by (simp_all add: word_unat_eq_iff unat_dir_index unat_tab_index)
  have "take_bit 12 (0xb8008 :: u32) = 8" by (simp add: take_bit_eq_mask mask_eq_exp_minus_1)
  then have "mmu_walk (mem demo) 0x1000 0xb8008 = Some (0xb8008, True, False)"
    using demo_dir(1) [of 0] demo_dir(3) [of "0xb8"]
    by (simp add: mmu_walk_def Let_def i PTE_P_def PTE_W_def PTE_U_def)
  then show ?thesis
    using vm_map_isolated [OF demo_spaces(2,1,3) l s'] s' unfolding p(1) by blast
qed

end
