(* ===== verification/X86VmeBuild.thy ===== *)
theory X86VmeBuild
  imports X86VmeProps
begin

text \<open>
  The life of an address space: \<open>vme_init\<close> builds the kernel's identity mapping, \<open>protect\<close> makes a user
  space that shares it, \<open>unprotect\<close> gives its tables back.
\<close>

section \<open>The identity mapping\<close>

definition kernel_dir :: "u32 \<Rightarrow> bool" where
  "kernel_dir i \<longleftrightarrow> unat i < 256 \<or> 1012 \<le> unat i \<and> unat i < 1024"

text \<open>A kernel space that maps exactly the addresses in \<open>D\<close>, to themselves, writable and not for users.\<close>

definition kernel_space :: "vmm \<Rightarrow> u32 \<Rightarrow> u32 \<Rightarrow> u32 set \<Rightarrow> bool" where
  "kernel_space s as r D \<longleftrightarrow> wf_space s as r \<and>
     (\<forall>i. used s r i \<longrightarrow> kernel_dir i \<and> mem s (r + 4 * i) AND PTE_U = 0 \<and> mem s (r + 4 * i) AND PTE_W \<noteq> 0) \<and>
     (\<forall>v. mmu_walk (mem s) r v = (if v \<in> D then Some (v, True, False) else None))"

definition page_of :: "u32 \<Rightarrow> u32 set" where
  "page_of p = {v. baseof v = p}"

lemma split_address: "baseof v OR take_bit 12 v = v"
  unfolding baseof_mask by (rule bit_word_eqI) (auto simp: bit_simps)

lemma kernel_flags: "PTE_P OR PTE_W = 3" "take_bit 12 (3 :: u32) = 3" "take_bit 12 PTE_W = PTE_W"
    "(3 :: u32) AND PTE_W = 2" "(3 :: u32) AND PTE_U = 0" "(3 :: u32) AND PTE_P = 1"
  by (simp_all add: PTE_W_def PTE_U_def PTE_P_def)

lemma and_zero: "w AND PTE_U = 0 \<Longrightarrow> d AND w AND PTE_U = 0" "d AND PTE_W \<noteq> 0 \<Longrightarrow> w AND PTE_W = PTE_W \<Longrightarrow> d AND w AND PTE_W \<noteq> 0"
  for d w :: u32
  by simp_all

lemma identity_step:
  assumes "kernel_space s as r D" "baseof cur = cur" "kernel_dir (dir_index cur)"
    and "used s r (dir_index cur) \<or> pages_left s \<noteq> []"
  shows "\<exists>e s1. ptwalk as cur PTE_W s = Inr (e, s1) \<and>
    kernel_space (store e (cur OR PTE_P OR PTE_W) s1) as r (D \<union> page_of cur) \<and>
    (\<forall>j. used (store e (cur OR PTE_P OR PTE_W) s1) r j \<longleftrightarrow> j = dir_index cur \<or> used s r j) \<and>
    length (pages_left s) \<le> length (pages_left s1) + (if used s r (dir_index cur) then 0 else 1)"
proof -
  let ?i = "dir_index cur" and ?j = "tab_index cur"
  have wf: "wf_space s as r" using assms(1) by (simp add: kernel_space_def)
  obtain s1 where s1: "ptwalk as cur PTE_W s = Inr (table s1 r ?i + 4 * ?j, s1)" "walked as r cur PTE_W s s1"
    using ptwalk_ok [OF wf assms(4) kernel_flags(3)] by blast
  have w1: "wf_space s1 as r" "used s1 r ?i" and us: "\<And>j. used s1 r j \<longleftrightarrow> j = ?i \<or> used s r j"
      and m: "\<And>v. mmu_walk (mem s1) r v = mmu_walk (mem s) r v"
    using s1(2) by (simp_all add: walked_def)
  let ?w = "cur OR PTE_P OR PTE_W"
  have w: "?w = cur OR 3" using kernel_flags(1) by (simp add: or.assoc)
  have wp: "?w AND PTE_P \<noteq> 0" "baseof ?w = cur" "?w AND PTE_U = 0" "?w AND PTE_W = PTE_W"
    using entry_flags [OF assms(2) kernel_flags(2)] unfolding w kernel_flags(4-6) by (simp_all add: PTE_W_def)
  have d: "kernel_dir j \<and> mem s1 (r + 4 * j) AND PTE_U = 0 \<and> mem s1 (r + 4 * j) AND PTE_W \<noteq> 0" if "used s1 r j" for j
  proof (cases "used s r j")
    case True
    then have "mem s1 (r + 4 * j) = mem s (r + 4 * j)" using s1(2) by (simp add: walked_def)
    then show ?thesis using assms(1) True by (simp add: kernel_space_def)
  next
    case False
    then have j: "j = ?i" using that us by blast
    then obtain q where "page q" "mem s1 (r + 4 * j) = q OR 3"
      using False s1(2) by (auto simp: walked_def kernel_flags)
    then show ?thesis
      using entry_parts(3,4) [OF _ kernel_flags(2)] j assms(3) by (simp add: kernel_flags)
  qed
  note st = store_entry [OF w1 index_less(2) [of cur], where w = "?w"]
  let ?s = "store (table s1 r ?i + 4 * ?j) ?w s1"
  have "mmu_walk (mem ?s) r v = (if v \<in> D \<union> page_of cur then Some (v, True, False) else None)" for v
  proof (cases "baseof v = cur")
    case True
    then have "dir_index v = ?i \<and> tab_index v = ?j" using same_page_index [OF assms(2)] by simp
    then have "mmu_walk (mem ?s) r v = Some (cur OR take_bit 12 v, True, False)"
      using st(4) [of v] wp d [OF w1(2)] and_zero [of "?w" "mem s1 (r + 4 * ?i)"] and_zero(2) by simp
    then show ?thesis using True split_address [of v] by (simp add: page_of_def)
  next
    case False
    then have "\<not> (dir_index v = ?i \<and> tab_index v = ?j)" using same_page_index [OF assms(2)] by simp
    then have "mmu_walk (mem ?s) r v = mmu_walk (mem s) r v" using st(4) [of v] by (simp only: if_False m)
    then show ?thesis using assms(1) False by (simp add: kernel_space_def page_of_def)
  qed
  moreover have "used ?s r j \<longleftrightarrow> j = ?i \<or> used s r j" for j using st(2) us by simp
  moreover have "kernel_dir j \<and> mem ?s (r + 4 * j) AND PTE_U = 0 \<and> mem ?s (r + 4 * j) AND PTE_W \<noteq> 0" if "used ?s r j" for j
    using d [of j] that st(2) [of j] st(3) [of j] by (simp add: used_def)
  moreover have "length (pages_left s) \<le> length (pages_left s1) + (if used s r ?i then 0 else 1)"
    using s1(2) by (auto simp: walked_def)
  ultimately show ?thesis
    using s1(1) st(1) unfolding kernel_space_def by (intro exI [of _ "table s1 r ?i + 4 * ?j"] exI [of _ s1]) simp
qed

text \<open>
  The loop over an area: \<open>dirs\<close> are the directory entries it touches, and one page is enough for each of
  them that is not in use.
\<close>

definition dirs :: "nat \<Rightarrow> u32 \<Rightarrow> u32 set" where
  "dirs n cur = (\<lambda>k. dir_index (cur + 4096 * of_nat k)) ` {..< n}"

definition pages :: "nat \<Rightarrow> u32 \<Rightarrow> u32 set" where
  "pages n cur = (\<Union>k < n. page_of (cur + 4096 * of_nat k))"

lemma range_Suc:
  "dirs (Suc n) cur = insert (dir_index cur) (dirs n (cur + 4096))"
  "pages (Suc n) cur = page_of cur \<union> pages n (cur + 4096)"
proof -
  have e: "{..< Suc n} = insert 0 (Suc ` {..< n})" by (auto simp: image_iff less_Suc_eq_0_disj)
  have s: "cur + 4096 * of_nat (Suc k) = cur + 4096 + 4096 * of_nat k" for k by (simp add: algebra_simps)
  show "dirs (Suc n) cur = insert (dir_index cur) (dirs n (cur + 4096))"
    unfolding dirs_def e image_insert image_image s by simp
  show "pages (Suc n) cur = page_of cur \<union> pages n (cur + 4096)"
    unfolding pages_def e UN_insert image_image s by simp
qed

lemma finite_dirs [simp]: "finite (dirs n cur)"
  by (simp add: dirs_def)

lemma next_page: "baseof cur = cur \<Longrightarrow> baseof (cur + 4096) = cur + 4096"
proof -
  assume b: "baseof cur = cur"
  have "unat (baseof (cur + 4096)) = unat (cur + 4096)"
  proof (cases "unat cur + 4096 < 4294967296")
    case True
    then have u: "unat (cur + 4096) = unat cur + 4096" by (simp add: unat_word_ariths)
    obtain k where k: "unat cur = 4096 * k" using unat_baseof [of cur] b by metis
    show ?thesis unfolding unat_baseof u k by simp
  next
    case False
    obtain k where k: "unat cur = 4096 * k" using unat_baseof [of cur] b by metis
    have "4096 * k < 4096 * 1048576" "4096 * 1048575 \<le> 4096 * k"
      using False u32_less_4G [of cur] unfolding k by simp_all
    then have "k = 1048575" unfolding mult_less_cancel1 mult_le_cancel1 by simp
    then have "unat cur = 4294963200" using k by simp
    then have "unat (cur + 4096) = 0" by (simp add: unat_word_ariths)
    then show ?thesis unfolding unat_baseof by simp
  qed
  then show "baseof (cur + 4096) = cur + 4096" by (simp only: word_unat_eq_iff)
qed

definition unused :: "vmm \<Rightarrow> u32 \<Rightarrow> u32 set \<Rightarrow> u32 set" where
  "unused s r X = {d \<in> X. \<not> used s r d}"

lemma identity_loop_ok:
  "kernel_space s as r D \<Longrightarrow> baseof cur = cur \<Longrightarrow> \<forall>d \<in> dirs n cur. kernel_dir d \<Longrightarrow>
   card (unused s r (dirs n cur)) \<le> length (pages_left s) \<Longrightarrow>
   \<exists>s'. identity_loop n as cur s = Inr s' \<and> kernel_space s' as r (D \<union> pages n cur) \<and>
     (\<forall>j. used s' r j \<longleftrightarrow> j \<in> dirs n cur \<or> used s r j) \<and>
     length (pages_left s) \<le> length (pages_left s') + card (unused s r (dirs n cur))"
proof (induction n arbitrary: s D cur)
  case 0
  then show ?case by (simp add: pages_def dirs_def)
next
  case (Suc n)
  let ?i = "dir_index cur" and ?R = "dirs n (cur + 4096)"
  have u: "unused s r (dirs (Suc n) cur) = (if used s r ?i then unused s r ?R else insert ?i (unused s r ?R))"
    by (auto simp: unused_def range_Suc)
  have fin: "finite (unused s r ?R)" by (simp add: unused_def)
  have "used s r ?i \<or> pages_left s \<noteq> []"
  proof (rule ccontr)
    assume "\<not> (used s r ?i \<or> pages_left s \<noteq> [])"
    then have "card (insert ?i (unused s r ?R)) \<le> 0" using Suc.prems(4) u by simp
    then show False using fin by simp
  qed
  then obtain e s1 where s1: "ptwalk as cur PTE_W s = Inr (e, s1)"
    "kernel_space (store e (cur OR PTE_P OR PTE_W) s1) as r (D \<union> page_of cur)"
    "\<And>j. used (store e (cur OR PTE_P OR PTE_W) s1) r j \<longleftrightarrow> j = ?i \<or> used s r j"
    "length (pages_left s) \<le> length (pages_left s1) + (if used s r ?i then 0 else 1)"
    using identity_step [OF Suc.prems(1,2)] Suc.prems(3) by (auto simp: range_Suc)
  let ?s = "store e (cur OR PTE_P OR PTE_W) s1"
  have c: "card (unused s r (dirs (Suc n) cur)) =
      card (unused ?s r ?R) + (if used s r ?i then 0 else 1)"
  proof -
    have "unused ?s r ?R = unused s r ?R - {?i}" using s1(3) by (auto simp: unused_def)
    moreover have "insert ?i (unused s r ?R) = insert ?i (unused s r ?R - {?i})" by auto
    moreover have "used s r ?i \<Longrightarrow> unused s r ?R - {?i} = unused s r ?R" by (auto simp: unused_def)
    ultimately show ?thesis unfolding u using fin by (simp add: card.insert_remove)
  qed
  have "card (unused ?s r ?R) \<le> length (pages_left ?s)" using Suc.prems(4) s1(4) c by simp
  moreover have "\<forall>d \<in> ?R. kernel_dir d" using Suc.prems(3) by (simp add: range_Suc)
  ultimately obtain s' where s': "identity_loop n as (cur + 4096) ?s = Inr s'"
    "kernel_space s' as r (D \<union> page_of cur \<union> pages n (cur + 4096))"
    "\<And>j. used s' r j \<longleftrightarrow> j \<in> ?R \<or> used ?s r j"
    "length (pages_left ?s) \<le> length (pages_left s') + card (unused ?s r ?R)"
    using Suc.IH [OF s1(2) next_page [OF Suc.prems(2)]] by blast
  have "identity_loop (Suc n) as cur s = Inr s'" using s1(1) s'(1) by (simp add: pgsize_def)
  moreover have "length (pages_left s) \<le> length (pages_left s') + card (unused s r (dirs (Suc n) cur))"
    using s1(4) s'(4) c by simp
  moreover have "used s' r j \<longleftrightarrow> j \<in> dirs (Suc n) cur \<or> used s r j" for j
    using s'(3) s1(3) by (auto simp: range_Suc)
  ultimately show ?case using s'(2) by (auto simp: range_Suc Un_assoc)
qed

section \<open>The kernel's space\<close>

text \<open>The first walk gives the structure a root.\<close>

definition with_root :: "u32 \<Rightarrow> u32 \<Rightarrow> u32 list \<Rightarrow> vmm \<Rightarrow> vmm" where
  "with_root as q ps s =
     store (as_ptr as) (q OR 3) (clear_words (pgsize div 4) q (s\<lparr>pages_left := ps\<rparr>))"

lemma root_walk:
  assumes "mem s (as_ptr as) = 0" "pages_left s = q # ps" "page q" "baseof (as_ptr as) \<noteq> q"
  shows "ptwalk as va PTE_W s = ptwalk as va PTE_W (with_root as q ps s)"
proof -
  have e: "(q OR 3) AND PTE_P = PTE_P" "baseof (q OR 3) = q"
    using entry_parts(1,2) [OF assms(3) kernel_flags(2)] by (simp_all add: kernel_flags(6) PTE_P_def)
  have z: "PTE_P \<noteq> 0" by (simp add: PTE_P_def)
  have i: "indexof va \<lparr>pt_mask = 0, pt_shift = 0, pt_bits = 0\<rparr> = 0" by (simp add: indexof_def)
  show ?thesis
    using pgallocz_page [OF assms(2,3)] assms(1) e z i
    by (simp add: ptwalk_def pgtables_def Let_def with_root_def mem_store or.assoc kernel_flags(1))
qed

lemma with_root_space:
  assumes "pages_left s = q # ps" "\<forall>p \<in> set (q # ps). page p \<and> p \<noteq> baseof (as_ptr as)" "distinct (q # ps)"
  shows "kernel_space (with_root as q ps s) as q {}"
proof -
  let ?s = "with_root as q ps s"
  have q: "page q" "baseof (as_ptr as) \<noteq> q" using assms(2) by auto
  have e: "(q OR 3) AND PTE_P = PTE_P" "baseof (q OR 3) = q"
    using entry_parts(1,2) [OF q(1) kernel_flags(2)] by (simp_all add: kernel_flags(6) PTE_P_def)
  have z: "mem ?s (q + 4 * i) = 0" if "unat i < 1024" for i
    using cleared_page(1) [OF q(1) that] baseof_entry [OF q(1) that] q(2) by (auto simp: with_root_def mem_store)
  then have u: "\<not> used ?s q i" for i by (auto simp: used_def)
  have "mmu_walk (mem ?s) q v = None" for v
    using z [of "dir_index v"] q(1) by (simp add: mmu_walk_def Let_def page_def)
  moreover have "mem ?s (as_ptr as) = q OR 3" "pages_left ?s = ps" by (simp_all add: with_root_def mem_store)
  ultimately show ?thesis
    using assms q u e unfolding kernel_space_def wf_space_def by (auto simp: PTE_P_def)
qed

lemma unat_page_step:
  assumes "baseof cur = cur" "unat cur + 4096 * k < 4294967296"
  shows "baseof v = cur + 4096 * of_nat k \<longleftrightarrow> unat v div 4096 = unat cur div 4096 + k"
proof -
  obtain c where c: "unat cur = 4096 * c" using unat_baseof [of cur] assms(1) by metis
  have "unat (cur + 4096 * of_nat k) = 4096 * c + 4096 * k"
    using assms(2) c by (simp add: unat_word_ariths unat_of_nat)
  then have "baseof v = cur + 4096 * of_nat k \<longleftrightarrow> 4096 * (unat v div 4096) = 4096 * c + 4096 * k"
    unfolding word_unat_eq_iff [of "baseof v"] unat_baseof by simp
  then show ?thesis using c by auto
qed

lemma kernel_pages:
  "pages 262144 0 = {v. v < 0x40000000}" "pages 12288 0xfd000000 = {v. 0xfd000000 \<le> v}"
proof -
  have "v \<in> pages 262144 0 \<longleftrightarrow> v < 0x40000000" for v
  proof -
    have "v \<in> pages 262144 0 \<longleftrightarrow> (\<exists>k < 262144. unat v div 4096 = k)"
      unfolding pages_def page_of_def using unat_page_step [of 0 _ v] by (auto simp: baseof_def)
    also have "\<dots> \<longleftrightarrow> unat v < 1073741824" by auto
    finally show ?thesis by (simp add: word_less_nat_alt)
  qed
  then show "pages 262144 0 = {v. v < 0x40000000}" by blast
  have "v \<in> pages 12288 0xfd000000 \<longleftrightarrow> 0xfd000000 \<le> v" for v
  proof -
    have b: "baseof 0xfd000000 = 0xfd000000" by (simp add: baseof_mask)
    have "v \<in> pages 12288 0xfd000000 \<longleftrightarrow> (\<exists>k < 12288. unat v div 4096 = 1036288 + k)"
      unfolding pages_def page_of_def using unat_page_step [OF b, of _ v] by auto
    also have "\<dots> \<longleftrightarrow> 4244635648 \<le> unat v"
    proof
      assume "4244635648 \<le> unat v"
      then have "unat v div 4096 = 1036288 + (unat v div 4096 - 1036288)" "unat v div 4096 - 1036288 < 12288"
        using u32_less_4G [of v] by linarith+
      then show "\<exists>k < 12288. unat v div 4096 = 1036288 + k" by blast
    qed (use u32_less_4G [of v] in auto)
    finally show ?thesis by (simp add: word_le_nat_alt)
  qed
  then show "pages 12288 0xfd000000 = {v. 0xfd000000 \<le> v}" by blast
qed

lemma kernel_dirs:
  "dirs 262144 0 \<subseteq> {d. unat d < 256}" "dirs 12288 0xfd000000 \<subseteq> {d. 1012 \<le> unat d \<and> unat d < 1024}"
proof -
  have "unat (4096 * of_nat k :: u32) = 4096 * k" if "k < 262144" for k
    using that by (simp add: unat_word_ariths unat_of_nat)
  then show "dirs 262144 0 \<subseteq> {d. unat d < 256}" by (auto simp: dirs_def unat_dir_index)
  have "unat (0xfd000000 + 4096 * of_nat k :: u32) = 0xfd000000 + 4096 * k" if "k < 12288" for k
    using that by (simp add: unat_word_ariths unat_of_nat)
  then show "dirs 12288 0xfd000000 \<subseteq> {d. 1012 \<le> unat d \<and> unat d < 1024}" by (auto simp: dirs_def unat_dir_index)
qed

lemma card_small: "card {d :: u32. a \<le> unat d \<and> unat d < a + n} \<le> n"
proof -
  have "{d :: u32. a \<le> unat d \<and> unat d < a + n} \<subseteq> (\<lambda>k. of_nat (a + k)) ` {..< n}"
  proof
    fix d :: u32 assume "d \<in> {d. a \<le> unat d \<and> unat d < a + n}"
    then have "a + (unat d - a) = unat d" "unat d - a < n" by auto
    then have "d = of_nat (a + (unat d - a))" "unat d - a < n" by simp_all
    then show "d \<in> (\<lambda>k. of_nat (a + k)) ` {..< n}" by blast
  qed
  then have "card {d :: u32. a \<le> unat d \<and> unat d < a + n} \<le> card ((\<lambda>k. of_nat (a + k) :: u32) ` {..< n})"
    by (intro card_mono) auto
  also have "\<dots> \<le> card {..< n}" by (rule card_image_le) simp
  finally show ?thesis by simp
qed

lemma identity_loop_root:
  assumes "mem s (as_ptr as) = 0" "pages_left s = q # ps" "page q" "baseof (as_ptr as) \<noteq> q"
  shows "identity_loop (Suc n) as cur s = identity_loop (Suc n) as cur (with_root as q ps s)"
  using root_walk [OF assms, of cur] by simp

section \<open>Properties: the kernel's space\<close>

definition kernel_area :: "u32 set" where
  "kernel_area = {v. v < 0x40000000} \<union> {v. 0xfd000000 \<le> v}"

text \<open>What the client's allocator has to offer: distinct pages, none of them the page of the structure.\<close>

definition pages_ok :: "vmm \<Rightarrow> u32 \<Rightarrow> bool" where
  "pages_ok s as \<longleftrightarrow> distinct (pages_left s) \<and> (\<forall>p \<in> set (pages_left s). page p \<and> p \<noteq> baseof (as_ptr as))"

text \<open>
  C22. \<open>vme_init\<close> maps the kernel identically: with 269 pages to allocate it returns, the processor then
  translates every address below 1 GiB and every device address from \<open>0xfd000000\<close> on to itself, writable
  and not for users, and no other address, and paging is on with CR3 at this table.
\<close>

theorem vme_init_identity:
  assumes "pages_ok s as" "269 \<le> length (pages_left s)"
  shows "\<exists>s'. vme_init as 0 s = Inr s' \<and> cr3 s' = kpt s' \<and> cr0 s' AND CR0_PG \<noteq> 0 \<and>
    kernel_space s' as (kpt s') kernel_area \<and>
    mmu_walk (mem s') (cr3 s') v = (if v \<in> kernel_area then Some (v, True, False) else None)"
proof -
  let ?s0 = "store (as_ptr as) 0 s"
  obtain q ps where l: "pages_left s = q # ps" using assms(2) by (cases "pages_left s") auto
  have ok: "\<forall>p \<in> set (q # ps). page p \<and> p \<noteq> baseof (as_ptr as)" "distinct (q # ps)"
    using assms(1) by (auto simp: pages_ok_def l)
  let ?s1 = "with_root as q ps ?s0"
  have k1: "kernel_space ?s1 as q {}" using with_root_space [of ?s0 q ps as] l ok by simp
  have l1: "268 \<le> length (pages_left ?s1)" using assms(2) l by (simp add: with_root_def)
  have c1: "card (unused ?s1 q (dirs 262144 0)) \<le> 256"
    by (rule order_trans [OF card_mono card_small [of 0 256]]) (use kernel_dirs(1) in \<open>auto simp: unused_def\<close>)
  obtain s2 where s2: "identity_loop 262144 as 0 ?s1 = Inr s2" "kernel_space s2 as q (pages 262144 0)"
    "length (pages_left ?s1) \<le> length (pages_left s2) + card (unused ?s1 q (dirs 262144 0))"
    using identity_loop_ok [OF k1, of 0 262144] kernel_dirs(1) c1 l1 by (fastforce simp: kernel_dir_def baseof_def)
  have c2: "card (unused s2 q (dirs 12288 0xfd000000)) \<le> 12"
    by (rule order_trans [OF card_mono card_small [of 1012 12]]) (use kernel_dirs(2) in \<open>auto simp: unused_def\<close>)
  have b: "baseof 0xfd000000 = 0xfd000000" by (simp add: baseof_mask)
  obtain s3 where s3: "identity_loop 12288 as 0xfd000000 s2 = Inr s3"
    "kernel_space s3 as q (pages 262144 0 \<union> pages 12288 0xfd000000)"
    using identity_loop_ok [OF s2(2) b, of 12288] kernel_dirs(2) c2 c1 l1 s2(3) by (fastforce simp: kernel_dir_def)
  have r: "identity_loop 262144 as 0 ?s0 = identity_loop 262144 as 0 ?s1"
    using identity_loop_root [of ?s0 as q ps 262143 0] l ok(1) by (auto simp: mem_store simp del: identity_loop.simps)
  have "identity_areas vm_areas as ?s0 = Inr s3"
    using s2(1) s3(1) r by (simp add: vm_areas_def area_steps_def del: identity_loop.simps)
  moreover have "baseof (mem s3 (as_ptr as)) = q" using s3(2) by (simp add: kernel_space_def wf_space_def)
  moreover have "(cr0 s3 OR CR0_PG) AND CR0_PG = CR0_PG" by (rule bit_word_eqI) (auto simp: bit_simps)
  moreover have "kernel_space (s3\<lparr>kpt := q, cr3 := q, cr0 := x\<rparr>) as q kernel_area" for x
    using s3(2) unfolding kernel_pages kernel_area_def [symmetric]
    by (simp add: kernel_space_def wf_space_def used_def table_def)
  ultimately show ?thesis
    by (simp add: vme_init_def Let_def CR0_PG_def kernel_space_def)
qed

definition demo_boot :: vmm where
  "demo_boot = demo\<lparr>pages_left := map (\<lambda>k. of_nat (0x100000 + 4096 * k)) [0 ..< 269]\<rparr>"

lemma demo_boot_ok: "pages_ok demo_boot 0x100" "length (pages_left demo_boot) = 269"
proof -
  let ?p = "\<lambda>k. of_nat (0x100000 + 4096 * k) :: u32"
  have u: "unat (?p k) = 0x100000 + 4096 * k" if "k < 269" for k using that by (simp only: unat_of_nat) simp
  have "baseof (?p k) = ?p k" if k: "k < 269" for k
  proof -
    have "unat (baseof (?p k)) = unat (?p k)" unfolding unat_baseof u [OF k] by simp
    then show ?thesis by (simp only: word_unat_eq_iff)
  qed
  moreover have "?p k \<noteq> 0" if "k < 269" for k using u [OF that] by (metis add_is_0 unat_0 zero_neq_numeral)
  moreover have "inj_on ?p {0 ..< 269}" by (rule inj_onI) (metis u add_left_imp_eq atLeastLessThan_iff mult_cancel1 zero_neq_numeral)
  moreover have "baseof (as_ptr 0x100) = 0" by (simp add: as_ptr_def)
  ultimately show "pages_ok demo_boot 0x100"
    unfolding pages_ok_def demo_boot_def by (simp add: distinct_map page_def del: of_nat_add of_nat_mult)
  show "length (pages_left demo_boot) = 269" by (simp add: demo_boot_def)
qed

theorem vme_init_identity_witness:
  "\<exists>s'. vme_init 0x100 0 demo_boot = Inr s' \<and> mmu_walk (mem s') (cr3 s') 0xfd00abcd = Some (0xfd00abcd, True, False)"
proof -
  have "0xfd00abcd \<in> kernel_area" by (simp add: kernel_area_def)
  then show ?thesis using vme_init_identity [OF demo_boot_ok(1), of "0xfd00abcd"] demo_boot_ok(2) by auto
qed

section \<open>Sharing the kernel's tables\<close>

lemma share_loop_keeps [simp]:
  "pages_left (share_loop n d cur s) = pages_left s" "kpt (share_loop n d cur s) = kpt s"
  by (induction n arbitrary: cur s) (simp_all add: Let_def)

lemma share_loop_mem:
  assumes "page d" "page (kpt s)" "d \<noteq> kpt s"
  shows "mem (share_loop n d cur s) x =
    (if \<exists>k < n. x = d + 4 * dir_index (cur + 4194304 * of_nat k)
     then mem s (x - d + kpt s) else mem s x)"
  using assms(2,3)
proof (induction n arbitrary: cur s)
  case (Suc n)
  let ?i = "dir_index cur"
  let ?s = "store (d + 4 * ?i) (mem s (kpt s + 4 * ?i)) s"
  have kd: "kpt s + 4 * dir_index c \<noteq> d + 4 * ?i" for c
    using entry_inj [OF Suc.prems(1) _ assms(1), of "dir_index c" ?i] Suc.prems(2) by auto
  have IH: "mem (share_loop n d (cur + 4194304) ?s) x =
      (if \<exists>k < n. x = d + 4 * dir_index (cur + 4194304 + 4194304 * of_nat k)
       then mem ?s (x - d + kpt ?s) else mem ?s x)"
    using Suc.IH [of ?s "cur + 4194304"] Suc.prems by simp
  have e: "(\<exists>k < Suc n. x = d + 4 * dir_index (cur + 4194304 * of_nat k)) \<longleftrightarrow>
      x = d + 4 * ?i \<or> (\<exists>k < n. x = d + 4 * dir_index (cur + 4194304 + 4194304 * of_nat k))"
    by (simp add: Ex_less_Suc2 algebra_simps)
  have st: "share_loop (Suc n) d cur s = share_loop n d (cur + 4194304) ?s"
    by (simp add: Let_def pgtables_def dir_index_def)
  have o: "mem ?s (x - d + kpt s) = mem s (x - d + kpt s)" if "x = d + 4 * dir_index c" for c
    using kd [of c] that by (simp add: mem_store add.commute)
  show ?case
  proof (cases "\<exists>k < n. x = d + 4 * dir_index (cur + 4194304 + 4194304 * of_nat k)")
    case True
    then have "mem ?s (x - d + kpt s) = mem s (x - d + kpt s)" using o by blast
    then show ?thesis unfolding st e IH using True by (simp only: if_True simp_thms store_keeps)
  next
    case False
    have "mem ?s x = (if x = d + 4 * ?i then mem s (x - d + kpt s) else mem s x)" by (simp add: mem_store add.commute)
    then show ?thesis unfolding st e IH using False by (simp only: if_False simp_thms)
  qed
qed simp

text \<open>The two kernel areas, as directory entries.\<close>

lemma dir_steps:
  "(\<exists>k < 256. i = dir_index (4194304 * of_nat k)) \<longleftrightarrow> unat i < 256"
  "(\<exists>k < 12. i = dir_index (0xfd000000 + 4194304 * of_nat k)) \<longleftrightarrow> 1012 \<le> unat i \<and> unat i < 1024"
proof -
  have a: "unat (dir_index (4194304 * of_nat k)) = k" if "k < 256" for k
    using that by (simp add: unat_dir_index unat_word_ariths unat_of_nat)
  have b: "unat (dir_index (0xfd000000 + 4194304 * of_nat k)) = 1012 + k" if "k < 12" for k
    using that by (simp add: unat_dir_index unat_word_ariths unat_of_nat)
  show "(\<exists>k < 256. i = dir_index (4194304 * of_nat k)) \<longleftrightarrow> unat i < 256"
    using a by (metis word_unat_eq_iff)
  show "(\<exists>k < 12. i = dir_index (0xfd000000 + 4194304 * of_nat k)) \<longleftrightarrow> 1012 \<le> unat i \<and> unat i < 1024"
  proof
    assume "1012 \<le> unat i \<and> unat i < 1024"
    then have "unat i - 1012 < 12" "unat (dir_index (0xfd000000 + 4194304 * of_nat (unat i - 1012))) = unat i"
      using b [of "unat i - 1012"] by auto
    then show "\<exists>k < 12. i = dir_index (0xfd000000 + 4194304 * of_nat k)" by (metis word_unat_eq_iff)
  qed (use b in auto)
qed

lemma share_areas_mem:
  assumes "page d" "page (kpt s)" "d \<noteq> kpt s" "unat i < 1024"
  shows "mem (share_areas vm_areas d s) (d + 4 * i) = (if kernel_dir i then mem s (kpt s + 4 * i) else mem s (d + 4 * i))"
    "baseof x \<noteq> d \<Longrightarrow> mem (share_areas vm_areas d s) x = mem s x"
proof -
  let ?s = "share_loop 256 d 0 s"
  have e: "share_areas vm_areas d s = share_loop 12 d 0xfd000000 ?s"
    by (simp add: vm_areas_def area_steps_def pgtables_def del: share_loop.simps)
  have inj: "(\<exists>k < n. d + 4 * i = d + 4 * dir_index (c + 4194304 * of_nat k)) \<longleftrightarrow>
      (\<exists>k < n. i = dir_index (c + 4194304 * of_nat k))" for n c
    using entry_inj [OF assms(1,4,1)] by simp
  have m1: "mem ?s (d + 4 * i) = (if unat i < 256 then mem s (kpt s + 4 * i) else mem s (d + 4 * i))"
    using dir_steps(1) [of i] inj [of 256 0] unfolding share_loop_mem [OF assms(1-3)] by (simp add: add.commute)
  have o: "mem ?s y = mem s y" if "baseof y \<noteq> d" for y
    using that baseof_entry [OF assms(1)] unfolding share_loop_mem [OF assms(1-3)] by auto
  have p: "page (kpt ?s)" "d \<noteq> kpt ?s" using assms(2,3) by simp_all
  have k: "mem ?s (kpt s + 4 * i) = mem s (kpt s + 4 * i)"
    using baseof_entry [OF assms(2,4)] assms(3) by (intro o) simp
  show "mem (share_areas vm_areas d s) (d + 4 * i) = (if kernel_dir i then mem s (kpt s + 4 * i) else mem s (d + 4 * i))"
    using dir_steps(2) [of i] inj [of 12 "0xfd000000"] m1 k unfolding e share_loop_mem [OF assms(1) p]
    by (simp add: kernel_dir_def add.commute)
  show "baseof x \<noteq> d \<Longrightarrow> mem (share_areas vm_areas d s) x = mem s x"
    using o [of x] baseof_entry [OF assms(1)] unfolding e share_loop_mem [OF assms(1) p] by auto
qed

section \<open>A user space\<close>

text \<open>The structure lies in one page, which is none of the kernel's tables.\<close>

definition struct_ok :: "vmm \<Rightarrow> u32 \<Rightarrow> u32 \<Rightarrow> bool" where
  "struct_ok s as k \<longleftrightarrow> (\<forall>f \<in> {as_pgsize as, as_start as, as_end as}. baseof f = baseof (as_ptr as) \<and> f \<noteq> as_ptr as) \<and>
     baseof (as_ptr as) \<noteq> k \<and> (\<forall>i. used s k i \<longrightarrow> table s k i \<noteq> baseof (as_ptr as))"

definition fill_struct :: "u32 \<Rightarrow> u32 \<Rightarrow> vmm \<Rightarrow> vmm" where
  "fill_struct as d s = store (as_ptr as) (d OR PTE_P OR PTE_U)
     (store (as_end as) (area_end uvm_area) (store (as_start as) (area_start uvm_area)
       (store (as_pgsize as) (of_nat pgsize) s)))"

lemma protect_page:
  "pages_left s = q # ps \<Longrightarrow> page q \<Longrightarrow>
   protect as s = Inr (fill_struct as q (share_areas vm_areas q (clear_words (pgsize div 4) q (s\<lparr>pages_left := ps\<rparr>))))"
  using pgallocz_page [of s q ps] by (simp add: protect_def fill_struct_def Let_def)

lemma share_areas_keeps [simp]:
  "pages_left (share_areas vs d s) = pages_left s" "kpt (share_areas vs d s) = kpt s"
  by (induction vs arbitrary: s) (simp_all del: share_loop.simps)

text \<open>What \<open>protect\<close> leaves in memory.\<close>

lemma protect_mem:
  assumes "kernel_space s kas k D" "kpt s = k" "pages_ok s as" "pages_left s = q # ps" "struct_ok s as k"
  shows "\<exists>s'. protect as s = Inr s' \<and> pages_left s' = ps \<and> kpt s' = k \<and> mem s' (as_ptr as) = q OR 5 \<and>
    (\<forall>i. unat i < 1024 \<longrightarrow> mem s' (q + 4 * i) = (if kernel_dir i then mem s (k + 4 * i) else 0)) \<and>
    (\<forall>x. baseof x \<noteq> q \<and> baseof x \<noteq> baseof (as_ptr as) \<longrightarrow> mem s' x = mem s x)"
proof -
  let ?s1 = "clear_words (pgsize div 4) q (s\<lparr>pages_left := ps\<rparr>)"
  let ?s' = "fill_struct as q (share_areas vm_areas q ?s1)"
  have q: "page q" "q \<noteq> baseof (as_ptr as)" using assms(3,4) by (auto simp: pages_ok_def)
  have k: "page k" "q \<noteq> k" using assms(1,4) by (auto simp: kernel_space_def wf_space_def)
  have f: "baseof (as_pgsize as) = baseof (as_ptr as)" "baseof (as_start as) = baseof (as_ptr as)"
      "baseof (as_end as) = baseof (as_ptr as)"
    using assms(5) by (auto simp: struct_ok_def)
  have p5: "q OR PTE_P OR PTE_U = q OR 5" by (simp add: PTE_P_def PTE_U_def)
  have o: "mem ?s' x = mem (share_areas vm_areas q ?s1) x" if "baseof x \<noteq> baseof (as_ptr as)" for x
    using that f by (auto simp: fill_struct_def mem_store)
  have p: "page (kpt ?s1)" "q \<noteq> kpt ?s1" using k assms(2) by simp_all
  note sh = share_areas_mem [OF q(1) p]
  have c: "mem ?s1 x = mem s x" if "baseof x \<noteq> q" for x using cleared_page(2) [OF q(1) that] by simp
  have "mem ?s' (q + 4 * i) = (if kernel_dir i then mem s (k + 4 * i) else 0)" if i: "unat i < 1024" for i
    using o [of "q + 4 * i"] baseof_entry [OF q(1) i] q(2) sh(1) [OF i] c [of "k + 4 * i"] baseof_entry [OF k(1) i] k(2)
      cleared_page(1) [OF q(1) i] assms(2) by simp
  moreover have "mem ?s' x = mem s x" if "baseof x \<noteq> q" "baseof x \<noteq> baseof (as_ptr as)" for x
    using o [OF that(2)] sh(2) [of 0, OF _ that(1)] c [OF that(1)] by simp
  moreover have "mem ?s' (as_ptr as) = q OR 5" by (simp add: fill_struct_def mem_store p5)
  moreover have "pages_left ?s' = ps" "kpt ?s' = k" using assms(2) by (simp_all add: fill_struct_def)
  ultimately show ?thesis using protect_page [OF assms(4) q(1)] by (intro exI [of _ ?s']) simp
qed

lemma demo_kernel:
  "kernel_space demo 0x100 (kpt demo) (page_of 0xb8000)" "pages_ok demo 0xa300" "struct_ok demo 0xa300 (kpt demo)"
proof -
  have k: "kpt demo = 0x1000" "pages_left demo = [0x8000, 0x9000]" by (simp_all add: demo_def)
  have b: "baseof 0xb8000 = 0xb8000" "dir_index 0xb8000 = 0" "tab_index 0xb8000 = 0xb8"
    by (simp_all add: baseof_def pgsize_def word_unat_eq_iff unat_dir_index unat_tab_index)
  have "mmu_walk (mem demo) 0x1000 v = (if v \<in> page_of 0xb8000 then Some (v, True, False) else None)" for v
  proof (cases "baseof v = 0xb8000")
    case True
    then have i: "dir_index v = 0" "tab_index v = 0xb8" using same_page [of v "0xb8000"] b by simp_all
    show ?thesis using demo_dir(1) [of 0] demo_dir(3) [of "0xb8"] split_address [of v] True
      by (simp add: mmu_walk_def Let_def i page_of_def PTE_P_def PTE_W_def PTE_U_def)
  next
    case False
    then have "dir_index v \<noteq> 0 \<or> tab_index v \<noteq> 0xb8" using same_page [of v "0xb8000"] b by simp
    then show ?thesis using demo_dir(1) [OF index_less(1) [of v]] demo_dir(3) [OF index_less(2) [of v]] False
      by (auto simp: mmu_walk_def Let_def page_of_def PTE_P_def)
  qed
  then show "kernel_space demo 0x100 (kpt demo) (page_of 0xb8000)"
    using demo_spaces(1) demo_dir(1) [of 0] unfolding kernel_space_def k demo_used(1)
    by (simp add: kernel_dir_def PTE_U_def PTE_W_def)
  show "pages_ok demo 0xa300" by (simp add: pages_ok_def k page_def as_ptr_def baseof_def pgsize_def)
  show "struct_ok demo 0xa300 (kpt demo)" unfolding struct_ok_def k demo_used(1)
    by (simp add: demo_used as_ptr_def as_pgsize_def as_start_def as_end_def baseof_def pgsize_def)
qed

text \<open>
  C23. \<open>protect\<close> gives a user space with an empty user area and exactly the kernel's translation elsewhere,
  and leaves the kernel's space as it was; the two are apart in the sense of \<open>vm_map_isolated\<close>.
\<close>

theorem protect_shares_kernel:
  assumes "kernel_space s kas (kpt s) D" "pages_ok s as" "pages_left s \<noteq> []" "struct_ok s as (kpt s)"
    and "baseof (as_ptr kas) \<noteq> baseof (as_ptr as)"
  shows "\<exists>s' q. protect as s = Inr s' \<and> user_space s' as q \<and> mem s' (as_ptr as) = q OR 5 \<and>
    (\<forall>v. mmu_walk (mem s') q v = mmu_walk (mem s) (kpt s) v) \<and> (\<forall>v. user_address v \<longrightarrow> mmu_walk (mem s') q v = None) \<and>
    kernel_space s' kas (kpt s) D \<and> apart s' q kas (kpt s)"
proof -
  let ?k = "kpt s"
  obtain q ps where l: "pages_left s = q # ps" using assms(3) by (cases "pages_left s") auto
  obtain s' where s': "protect as s = Inr s'" "pages_left s' = ps" "mem s' (as_ptr as) = q OR 5"
    "\<And>i. unat i < 1024 \<Longrightarrow> mem s' (q + 4 * i) = (if kernel_dir i then mem s (?k + 4 * i) else 0)"
    "\<And>x. baseof x \<noteq> q \<Longrightarrow> baseof x \<noteq> baseof (as_ptr as) \<Longrightarrow> mem s' x = mem s x"
    using protect_mem [OF assms(1) refl assms(2) l assms(4)] by blast
  have wf: "wf_space s kas ?k" and kd: "\<And>i. used s ?k i \<Longrightarrow> kernel_dir i"
      and ku: "\<And>i. used s ?k i \<Longrightarrow> mem s (?k + 4 * i) AND PTE_U = 0"
    using assms(1) by (auto simp: kernel_space_def)
  have q: "page q" "q \<noteq> baseof (as_ptr as)" "q \<noteq> ?k" "q \<notin> set ps" "distinct ps" "q \<noteq> baseof (as_ptr kas)" "page ?k"
    using assms(2) wf l by (auto simp: pages_ok_def wf_space_def)
  have ps: "\<forall>p \<in> set ps. page p \<and> p \<noteq> q \<and> p \<noteq> baseof (as_ptr as)"
    using assms(2) l by (auto simp: pages_ok_def)
  have t: "page (table s ?k i) \<and> table s ?k i \<noteq> q \<and> table s ?k i \<notin> set ps \<and> table s ?k i \<noteq> baseof (as_ptr as)"
    if "used s ?k i" for i using that wf l assms(4) by (auto simp: wf_space_def struct_ok_def)
  have u: "used s' q i \<longleftrightarrow> used s ?k i" for i
    using s'(4) [of i] kd [of i] by (auto simp: used_def split: if_splits)
  have e: "mem s' (q + 4 * i) = mem s (?k + 4 * i)" if "used s ?k i" for i
    using s'(4) [of i] kd [OF that] that by (simp add: used_def)
  have tb: "table s' q i = table s ?k i" if "used s ?k i" for i using e [OF that] by (simp add: table_def)
  have f: "take_bit 12 (5 :: u32) = 5" "(5 :: u32) AND PTE_P \<noteq> 0" by (simp_all add: PTE_P_def)
  have wq: "wf_space s' as q"
    using q ps t u tb wf s'(2,3) entry_parts(1,2) [OF q(1) f(1)] f(2) unfolding wf_space_def by auto
  have nk: "\<not> user_dir i" if "kernel_dir i" for i using that by (auto simp: user_dir_def kernel_dir_def)
  have us: "user_space s' as q"
    using wq u e ku kd nk unfolding user_space_def by auto
  have w: "mmu_walk (mem s') q v = mmu_walk (mem s) ?k v" for v
  proof (cases "used s ?k (dir_index v)")
    case True
    have "mem s' (table s ?k (dir_index v) + 4 * tab_index v) = mem s (table s ?k (dir_index v) + 4 * tab_index v)"
      using t [OF True] baseof_entry [of "table s ?k (dir_index v)" "tab_index v"] by (intro s'(5)) auto
    then show ?thesis using e [OF True] q(1,7) by (simp add: mmu_walk_def Let_def page_def table_def)
  next
    case False
    then have "\<not> used s' q (dir_index v)" using u by simp
    then show ?thesis using False q(1,7) by (simp add: mmu_walk_def Let_def page_def used_def)
  qed
  have n: "mmu_walk (mem s') q v = None" if "user_address v" for v
    using that nk [OF kd, of "dir_index v"] q(7) unfolding w by (auto simp: user_address_dir mmu_walk_def Let_def page_def used_def)
  have sm: "mem s' x = mem s x" if "baseof x = ?k \<or> baseof x = baseof (as_ptr kas) \<or> (\<exists>j. used s ?k j \<and> baseof x = table s ?k j)" for x
  proof (rule s'(5))
    have k: "?k \<noteq> baseof (as_ptr as)" using assms(4) unfolding struct_ok_def by metis
    from that consider "baseof x = ?k" | "baseof x = baseof (as_ptr kas)" | j where "used s ?k j" "baseof x = table s ?k j"
      by blast
    then show "baseof x \<noteq> q" using q(3,6) t by (cases, metis, metis, metis)
    from that consider "baseof x = ?k" | "baseof x = baseof (as_ptr kas)" | j where "used s ?k j" "baseof x = table s ?k j"
      by blast
    then show "baseof x \<noteq> baseof (as_ptr as)" using k assms(5) t by (cases, metis, metis, metis)
  qed
  have d: "distinct (pages_left s')" "set (pages_left s') \<subseteq> set (pages_left s)" using s'(2) q(5) l by auto
  note o = other_space [OF wf d sm]
  have "mem s' (?k + 4 * i) = mem s (?k + 4 * i)" if "used s ?k i" for i
    using that baseof_entry [OF q(7)] by (intro sm) (simp add: used_def)
  then have ks: "kernel_space s' kas ?k D"
    using o(1-3) assms(1) unfolding kernel_space_def by simp
  have "apart s' q kas ?k"
    unfolding apart_def using q(3,6) o(3,4) t u kd nk by auto
  then show ?thesis using s'(1,3) us w n ks by blast
qed

theorem protect_shares_kernel_witness:
  "\<exists>s' q. protect 0xa300 demo = Inr s' \<and> user_space s' 0xa300 q \<and> mem s' 0xa30c = q OR 5 \<and>
     mmu_walk (mem s') q 0xb8004 = Some (0xb8004, True, False)"
proof -
  have l: "pages_left demo \<noteq> []" and p: "baseof (as_ptr 0x100) \<noteq> baseof (as_ptr 0xa300)"
    by (simp_all add: demo_def as_ptr_def baseof_def pgsize_def)
  obtain s' q where s': "protect 0xa300 demo = Inr s'" "user_space s' 0xa300 q" "mem s' (as_ptr 0xa300) = q OR 5"
    "\<And>v. mmu_walk (mem s') q v = mmu_walk (mem demo) (kpt demo) v"
    using protect_shares_kernel [OF demo_kernel(1,2) l demo_kernel(3) p] by blast
  have "0xb8004 \<in> page_of 0xb8000" by (simp add: page_of_def baseof_def pgsize_def)
  then have "mmu_walk (mem s') q 0xb8004 = Some (0xb8004, True, False)"
    using demo_kernel(1) unfolding s'(4) kernel_space_def by simp
  then show ?thesis using s'(1-3) by (auto simp: as_ptr_def)
qed

section \<open>Giving the tables back\<close>

definition user_tables :: "vmm \<Rightarrow> u32 \<Rightarrow> u32 list" where
  "user_tables s r = map (\<lambda>n. table s r (of_nat n)) (filter (\<lambda>n. used s r (of_nat n) \<and> user_dir (of_nat n)) [0 ..< 1024])"

lemma fold_frees:
  "(\<And>n s'. n \<in> set ns \<Longrightarrow> mem s' = mem s \<Longrightarrow> f n s' = (if P n then s'\<lparr>freed := freed s' @ [g n]\<rparr> else s')) \<Longrightarrow>
   mem s' = mem s \<Longrightarrow> fold f ns s' = s'\<lparr>freed := freed s' @ map g (filter P ns)\<rparr>"
  by (induction ns arbitrary: s') auto

lemma teardown_last: "teardown [info] False pt s = s\<lparr>freed := freed s @ [pt]\<rparr>"
proof -
  have "fold (\<lambda>index s. let e = mem s (pt + 4 * of_nat index)
      in if e AND PTE_P \<noteq> 0 \<and> e AND PTE_U \<noteq> 0 then teardown [] False (baseof e) s else s) ns s = s" for ns :: "nat list" and s
    by (induction ns arbitrary: s) (simp_all add: Let_def)
  then show ?thesis unfolding teardown.simps(2) by (simp only: Let_def if_False)
qed

text \<open>
  C25. \<open>unprotect\<close> gives back exactly the space's own tables, each once: those of the user area, then the
  root. The kernel's tables, which it shares, and the pages that are mapped are not freed, and memory is
  not written.
\<close>

theorem unprotect_frees:
  assumes "user_space s as r" "mem s (as_ptr as) AND PTE_U \<noteq> 0"
  shows "unprotect as s = s\<lparr>freed := freed s @ user_tables s r @ [r]\<rparr> \<and> distinct (user_tables s r @ [r]) \<and>
    (\<forall>i. used s r i \<longrightarrow> table s r i \<in> set (user_tables s r) \<longleftrightarrow> user_dir i)"
proof -
  have wf: "wf_space s as r" and ud: "\<And>i. used s r i \<Longrightarrow> mem s (r + 4 * i) AND PTE_U \<noteq> 0 \<longleftrightarrow> user_dir i"
    using assms(1) by (auto simp: user_space_def)
  have n: "unat (of_nat n :: u32) = n" if "n < 1024" for n using that by (simp add: unat_of_nat)
  let ?L1 = "pgtables ! 1" and ?L2 = "pgtables ! 2"
  have l1: "teardown [?L1, ?L2] False r s = s\<lparr>freed := freed s @ user_tables s r @ [r]\<rparr>"
  proof -
    let ?f = "\<lambda>index s. let e = mem s (r + 4 * of_nat index)
            in if e AND PTE_P \<noteq> 0 \<and> e AND PTE_U \<noteq> 0 then teardown [?L2] False (baseof e) s else s"
    have "fold ?f [0 ..< 1024] s = s\<lparr>freed := freed s @ user_tables s r\<rparr>"
      unfolding user_tables_def
    proof (rule fold_frees [where s = s])
      fix i and s' :: vmm assume i: "i \<in> set [0 ..< 1024]" "mem s' = mem s"
      then have "used s r (of_nat i) \<longleftrightarrow> mem s (r + 4 * of_nat i) AND PTE_P \<noteq> 0" by (simp add: used_def n)
      then show "?f i s' = (if used s r (of_nat i) \<and> user_dir (of_nat i)
          then s'\<lparr>freed := freed s' @ [table s r (of_nat i)]\<rparr> else s')"
        using ud [of "of_nat i"] i(2) by (auto simp: Let_def table_def teardown_last simp del: teardown.simps)
    qed simp
    moreover have "2 ^ pt_bits ?L1 = (1024 :: nat)" by (simp add: pgtables_def)
    ultimately show ?thesis
      by (subst teardown.simps) (simp only: Let_def if_False, simp add: Let_def del: teardown.simps)
  qed
  have pg: "pgtables = [pgtables ! 0, ?L1, ?L2]" "2 ^ pt_bits (pgtables ! 0) = (1 :: nat)" by (simp_all add: pgtables_def)
  have p: "mem s (as_ptr as) AND PTE_P \<noteq> 0" "baseof (mem s (as_ptr as)) = r" using wf by (auto simp: wf_space_def)
  have "unprotect as s = teardown (pgtables ! 0 # [?L1, ?L2]) True (as_ptr as) s" using pg(1) by (simp only: unprotect_def)
  also have "\<dots> = teardown [?L1, ?L2] False r s"
    unfolding teardown.simps(2) [of "pgtables ! 0"] pg(2) using p assms(2)
    by (simp add: Let_def upt_rec del: teardown.simps)
  finally have "unprotect as s = s\<lparr>freed := freed s @ user_tables s r @ [r]\<rparr>" using l1 by simp
  moreover have "distinct (user_tables s r)" unfolding user_tables_def distinct_map
  proof (intro conjI inj_onI)
    fix x y
    assume "x \<in> set (filter (\<lambda>n. used s r (of_nat n) \<and> user_dir (of_nat n)) [0 ..< 1024])"
      "y \<in> set (filter (\<lambda>n. used s r (of_nat n) \<and> user_dir (of_nat n)) [0 ..< 1024])"
      "table s r (of_nat x) = table s r (of_nat y)"
    then have "x < 1024" "y < 1024" "(of_nat x :: u32) = of_nat y" using wf by (auto simp: wf_space_def)
    then show "x = y" using n by metis
  qed simp
  moreover have "r \<notin> set (user_tables s r)" using wf by (auto simp: user_tables_def wf_space_def)
  moreover have "table s r i \<in> set (user_tables s r) \<longleftrightarrow> user_dir i" if u: "used s r i" for i
  proof
    assume "table s r i \<in> set (user_tables s r)"
    then obtain m where m: "used s r (of_nat m)" "user_dir (of_nat m)" "table s r i = table s r (of_nat m)"
      by (auto simp: user_tables_def)
    then have "i = of_nat m" using wf u unfolding wf_space_def by blast
    then show "user_dir i" using m(2) by simp
  next
    assume "user_dir i"
    moreover have "i = of_nat (unat i)" "unat i \<in> set [0 ..< 1024]" using u by (auto simp: used_def)
    ultimately show "table s r i \<in> set (user_tables s r)" unfolding user_tables_def set_map using u
      by (intro image_eqI [where x = "unat i"]) auto
  qed
  ultimately show ?thesis by simp
qed

theorem unprotect_frees_witness:
  "\<exists>ts. freed (unprotect 0x200 demo) = ts @ [0x4000] \<and> distinct (ts @ [0x4000]) \<and> 0x6000 \<in> set ts \<and> 0x5000 \<notin> set ts"
proof -
  have u: "mem demo (as_ptr 0x200) AND PTE_U \<noteq> 0" "freed demo = []" by (simp_all add: demo_def as_ptr_def PTE_U_def)
  note r = unprotect_frees [OF demo_spaces(2) u(1)]
  have "0x6000 \<in> set (user_tables demo 0x4000)" "0x5000 \<notin> set (user_tables demo 0x4000)"
    using r demo_used(4,5) demo_used(2) [of 0] demo_used(2) [of "0x100"] by (fastforce simp: user_dir_def)+
  then show ?thesis using r u(2) by auto
qed

end
