(* ===== verification/Monitor.thy ===== *)
theory Monitor
  imports UiProps
begin

text \<open>
  The start of NEMU: \<open>nemu/src/monitor/monitor.c\<close>, \<open>init_log\<close> of \<open>monitor/debug/log.c\<close>, \<open>engine_start\<close> of
  \<open>engine/interpreter/init.c\<close> and \<open>main\<close>. The default build is meant: \<open>init_difftest\<close> returns at once, and
  \<open>welcome\<close> only prints.

  \<open>getopt\<close> is GNU \<open>getopt_long\<close> as \<open>parse_args\<close> calls it, in the mode that returns the arguments in
  order: what it delivers call by call is a list. The file system, the random numbers and the register
  test's samples come from outside.
\<close>

section \<open>Options\<close>

datatype arg_opt =
    Opt_batch
  | Opt_port string
  | Opt_log string
  | Opt_diff string
  | Opt_image string
  | Opt_usage    \<comment> \<open>\<open>-h\<close>, or what \<open>getopt_long\<close> reports as \<open>'?'\<close>\<close>

record monitor_opts =
  batch_mode :: bool
  log_file :: "string option"
  diff_so_file :: "string option"
  img_file :: "string option"
  difftest_port :: int

definition default_opts :: monitor_opts where
  "default_opts = \<lparr>batch_mode = False, log_file = None, diff_so_file = None, img_file = None, difftest_port = 1234\<rparr>"

text \<open>The table of \<open>parse_args\<close>: name, whether an argument is required, the short option it stands for.\<close>

definition long_table :: "(string \<times> bool \<times> char) list" where
  "long_table = [(''batch'', False, CHR ''b''), (''log'', True, CHR ''l''), (''diff'', True, CHR ''d''),
     (''port'', True, CHR ''p''), (''help'', False, CHR ''h'')]"

definition no_arg_opt :: "char \<Rightarrow> arg_opt" where
  "no_arg_opt c = (if c = CHR ''b'' then Opt_batch else Opt_usage)"

definition arg_opt_of :: "char \<Rightarrow> string \<Rightarrow> arg_opt" where
  "arg_opt_of c a = (if c = CHR ''l'' then Opt_log a else if c = CHR ''d'' then Opt_diff a
     else if c = CHR ''p'' then Opt_port a else Opt_usage)"

text \<open>
  A cluster of short options, as \<open>bhl:d:p:\<close> has them: what it delivers, and the option that takes the
  next argument as its value.
\<close>

fun short_opts :: "string \<Rightarrow> arg_opt list \<times> char option" where
  "short_opts [] = ([], None)"
| "short_opts (c # cs) =
     (if c \<in> set ''ldp'' then (if cs = [] then ([], Some c) else ([arg_opt_of c cs], None))
      else (let (os, p) = short_opts cs in (no_arg_opt c # os, p)))"

text \<open>A long option: the exact name or an unambiguous beginning of one, with or without \<open>=\<close> and a value.\<close>

definition long_opt :: "string \<Rightarrow> arg_opt list \<times> char option" where
  "long_opt s =
     (let n = takeWhile (\<lambda>c. c \<noteq> CHR ''='') s; v = dropWhile (\<lambda>c. c \<noteq> CHR ''='') s;
          exact = filter (\<lambda>e. fst e = n) long_table;
          found = (if exact \<noteq> [] then exact else filter (\<lambda>e. take (length n) (fst e) = n) long_table)
      in case found of
           [(_, has_arg, c)] \<Rightarrow>
             (if \<not> has_arg then (if v = [] then ([no_arg_opt c], None) else ([Opt_usage], None))
              else if v = [] then ([], Some c) else ([arg_opt_of c (tl v)], None))
         | _ \<Rightarrow> ([Opt_usage], None))"

fun getopt :: "char option \<Rightarrow> string list \<Rightarrow> arg_opt list" where
  "getopt None [] = []"
| "getopt (Some c) [] = [Opt_usage]"
| "getopt (Some c) (a # as) = arg_opt_of c a # getopt None as"
| "getopt None (a # as) =
     (if a = ''--'' then []
      else if take 2 a = ''--'' then (let (os, p) = long_opt (drop 2 a) in os @ getopt p as)
      else if take 1 a = ''-'' \<and> a \<noteq> ''-'' then (let (os, p) = short_opts (tl a) in os @ getopt p as)
      else Opt_image a # getopt None as)"

text \<open>The loop of \<open>parse_args\<close>; \<open>None\<close> is \<open>exit(0)\<close> after the usage message.\<close>

fun opts_loop :: "arg_opt list \<Rightarrow> monitor_opts \<Rightarrow> monitor_opts option" where
  "opts_loop [] o1 = Some o1"
| "opts_loop (Opt_batch # os) o1 = opts_loop os (o1\<lparr>batch_mode := True\<rparr>)"
| "opts_loop (Opt_port a # os) o1 =
     opts_loop os (case scanf_d a of Some (n, _) \<Rightarrow> o1\<lparr>difftest_port := n\<rparr> | None \<Rightarrow> o1)"
| "opts_loop (Opt_log a # os) o1 = opts_loop os (o1\<lparr>log_file := Some a\<rparr>)"
| "opts_loop (Opt_diff a # os) o1 = opts_loop os (o1\<lparr>diff_so_file := Some a\<rparr>)"
| "opts_loop (Opt_image a # os) o1 =
     opts_loop os (if img_file o1 \<noteq> None then o1 else o1\<lparr>img_file := Some a\<rparr>)"
| "opts_loop (Opt_usage # os) o1 = None"

text \<open>\<open>argv\<close> without the program's name.\<close>

definition parse_args :: "string list \<Rightarrow> monitor_opts option" where
  "parse_args argv = opts_loop (getopt None argv) default_opts"

section \<open>Files and initialisation\<close>

record outside =
  files :: "string \<Rightarrow> u8 list option"    \<comment> \<open>the contents of a file that can be opened for reading\<close>
  writable :: "string \<Rightarrow> bool"
  garbage :: "nat \<Rightarrow> u32"
  reg_sample :: "u32 list"
  pc_sample :: u32

definition init_log :: "outside \<Rightarrow> string option \<Rightarrow> fault + unit" where
  "init_log w f = (case f of None \<Rightarrow> Inr () | Some n \<Rightarrow> c_assert (writable w n))"

text \<open>
  \<open>fread\<close> is asked for one item of the size of the file, and delivers none for an empty file. What
  does not fit in \<open>pmem\<close> behind the start of the image is written past its end.
\<close>

definition load_img :: "outside \<Rightarrow> string option \<Rightarrow> machine \<Rightarrow> fault + (nat \<times> machine)" where
  "load_img w fname m =
     (case fname of
        None \<Rightarrow> Inr (4096, m)
      | Some f \<Rightarrow>
          (case files w f of
             None \<Rightarrow> Inl Assert_Fail
           | Some bs \<Rightarrow>
               (let start = IMAGE_START (isa m)
                in if guest_to_host start + length bs > PMEM_SIZE then Inl Out_Of_Bounds
                   else bnd (c_assert (bs \<noteq> [])) (\<lambda>_. Inr (length bs, load_bytes start bs m)))))"

text \<open>The build's \<open>init_isa\<close> and instruction step.\<close>

definition start_isa :: "outside \<Rightarrow> machine \<Rightarrow> fault + machine" where
  "start_isa w m =
     (case isa m of
        Riscv32 \<Rightarrow> Inr (init_isa m)
      | Mips32 \<Rightarrow> Inr (mips_init_isa m)
      | X86 \<Rightarrow> x86_init_isa (reg_sample w) (pc_sample w) m)"

definition isa_once :: "ISA \<Rightarrow> exec_once" where
  "isa_once i = (case i of Riscv32 \<Rightarrow> riscv32_once | Mips32 \<Rightarrow> mips32_once | X86 \<Rightarrow> x86_once)"

text \<open>\<open>init_regex\<close> and \<open>init_wp_pool\<close> set up the debugger's part of the state; the tokens are static.\<close>

definition init_monitor :: "outside \<Rightarrow> string list \<Rightarrow> machine \<Rightarrow> fault + (monitor_opts \<times> ui_state) option" where
  "init_monitor w argv m =
     (case parse_args argv of
        None \<Rightarrow> Inr None
      | Some o1 \<Rightarrow>
          bnd (init_log w (log_file o1)) (\<lambda>_.
          bnd (start_isa w (init_mem (garbage w) m)) (\<lambda>m1.
          bnd (load_img w (img_file o1) m1) (\<lambda>(img_size, m2).
          Inr (Some (o1, ui_start m2))))))"

definition engine_start ::
    "bool \<Rightarrow> (string \<times> (nat \<Rightarrow> tick)) list \<Rightarrow> (nat \<Rightarrow> tick) \<Rightarrow> ui_state \<Rightarrow> (fault + ui_state) option" where
  "engine_start batch lines ticks u =
     obnd (Some (init_device (u_mach u))) (\<lambda>m1.
     ui_mainloop (isa_once (isa m1)) batch lines ticks (u\<lparr>u_mach := m1\<rparr>))"

text \<open>\<open>main\<close>: the exit status, with the lines typed and the schedule of a run in batch mode.\<close>

definition nemu_main ::
    "outside \<Rightarrow> string list \<Rightarrow> (string \<times> (nat \<Rightarrow> tick)) list \<Rightarrow> (nat \<Rightarrow> tick) \<Rightarrow> machine \<Rightarrow> (fault + int) option" where
  "nemu_main w argv lines ticks m =
     obnd (Some (init_monitor w argv m)) (\<lambda>r.
       case r of
         None \<Rightarrow> Some (Inr 0)
       | Some (o1, u) \<Rightarrow>
           obnd (engine_start (batch_mode o1) lines ticks u) (\<lambda>u1.
           Some (Inr (if is_exit_status_bad (u_mach u1) then 1 else 0))))"

end
