(* ===== verification/MonitorProps.thy ===== *)
theory MonitorProps
  imports Monitor DeviceProps
begin

text \<open>
  What the options on the command line come to, what \<open>load_img\<close> does with a file, and whole runs of
  \<open>main\<close> in batch mode, from the process's start to its exit status.
\<close>

section \<open>Options\<close>

text \<open>The ways to write an option.\<close>

fun spells :: "arg_opt \<Rightarrow> string list \<Rightarrow> bool" where
  "spells Opt_batch ws \<longleftrightarrow> ws = [''-b''] \<or> ws = [''--batch'']"
| "spells (Opt_log a) ws \<longleftrightarrow> ws = [''-l'', a] \<or> ws = [''--log'', a] \<or> ws = [''--log='' @ a] \<or> (a \<noteq> [] \<and> ws = [''-l'' @ a])"
| "spells (Opt_diff a) ws \<longleftrightarrow> ws = [''-d'', a] \<or> ws = [''--diff'', a] \<or> ws = [''--diff='' @ a] \<or> (a \<noteq> [] \<and> ws = [''-d'' @ a])"
| "spells (Opt_port a) ws \<longleftrightarrow> ws = [''-p'', a] \<or> ws = [''--port'', a] \<or> ws = [''--port='' @ a] \<or> (a \<noteq> [] \<and> ws = [''-p'' @ a])"
| "spells (Opt_image a) ws \<longleftrightarrow> ws = [a] \<and> (take 1 a \<noteq> ''-'' \<or> a = ''-'')"
| "spells Opt_usage ws \<longleftrightarrow> ws = [''-h''] \<or> ws = [''--help'']"

lemma long_opts:
  "long_opt ''batch'' = ([Opt_batch], None)" "long_opt ''help'' = ([Opt_usage], None)"
  "long_opt ''log'' = ([], Some CHR ''l'')" "long_opt ''diff'' = ([], Some CHR ''d'')" "long_opt ''port'' = ([], Some CHR ''p'')"
  "long_opt (''log='' @ a) = ([Opt_log a], None)" "long_opt (''diff='' @ a) = ([Opt_diff a], None)"
  "long_opt (''port='' @ a) = ([Opt_port a], None)"
  by (simp_all add: long_opt_def long_table_def no_arg_opt_def arg_opt_of_def)

lemma getopt_spelled: "spells o1 ws \<Longrightarrow> getopt None (ws @ as) = o1 # getopt None as"
proof (cases o1)
  case (Opt_image a)
  assume "spells o1 ws"
  then show ?thesis using Opt_image by (cases a; cases "tl a") auto
qed (auto simp: long_opts [simplified] no_arg_opt_def arg_opt_of_def)

lemma getopt_spelled_all: "list_all2 spells os wss \<Longrightarrow> getopt None (concat wss) = os"
  by (induction rule: list_all2_induct) (simp_all add: getopt_spelled)

definition logs :: "arg_opt list \<Rightarrow> string list" where
  "logs os = concat (map (\<lambda>x. case x of Opt_log a \<Rightarrow> [a] | _ \<Rightarrow> []) os)"

definition diffs :: "arg_opt list \<Rightarrow> string list" where
  "diffs os = concat (map (\<lambda>x. case x of Opt_diff a \<Rightarrow> [a] | _ \<Rightarrow> []) os)"

definition images :: "arg_opt list \<Rightarrow> string list" where
  "images os = concat (map (\<lambda>x. case x of Opt_image a \<Rightarrow> [a] | _ \<Rightarrow> []) os)"

definition ports :: "arg_opt list \<Rightarrow> int list" where
  "ports os = concat (map (\<lambda>x. case x of Opt_port a \<Rightarrow> (case scanf_d a of Some (n, _) \<Rightarrow> [n] | None \<Rightarrow> []) | _ \<Rightarrow> []) os)"

definition last_of :: "'a \<Rightarrow> 'a list \<Rightarrow> 'a" where
  "last_of d xs = last (d # xs)"

lemma last_of_simps [simp]: "last_of d [] = d" "last_of d (x # xs) = last_of x xs" "last_of d (xs @ ys) = last_of (last_of d xs) ys"
  by (simp_all add: last_of_def last_append)

lemma opts_loop_result:
  "opts_loop os o1 = (if Opt_usage \<in> set os then None else Some \<lparr>batch_mode = batch_mode o1 \<or> Opt_batch \<in> set os,
     log_file = last_of (log_file o1) (map Some (logs os)), diff_so_file = last_of (diff_so_file o1) (map Some (diffs os)),
     img_file = (if img_file o1 \<noteq> None then img_file o1 else case images os of [] \<Rightarrow> None | f # _ \<Rightarrow> Some f),
     difftest_port = last_of (difftest_port o1) (ports os)\<rparr>)"
proof (induction os o1 rule: opts_loop.induct)
  case (3 a os o1)
  then show ?case by (auto simp: logs_def diffs_def images_def ports_def split: option.splits prod.splits)
qed (auto simp: logs_def diffs_def images_def ports_def split: list.splits)

section \<open>The machine main starts from\<close>

text \<open>What is left of the built-in image's run once its first instruction can be fetched.\<close>

lemma image_exec:
  assumes "at_word 0 (\<lambda>g p. True) (set_status NEMU_RUNNING m)" "status (nemu_state m) = NEMU_STOP"
    and "\<And>j. tk_events (ticks j) = []" "5 \<le> n"
  shows "\<exists>m'. cpu_exec riscv32_once ticks n m = Some (Inr m') \<and> \<not> is_exit_status_bad m'"
proof -
  have "5 \<le> unat n" using assms(4) by (simp add: word_le_nat_alt)
  then have n: "unat n = Suc (Suc (Suc (Suc (Suc (unat n - 5)))))" by arith
  obtain m' where "cpu_loop riscv32_once ticks (unat n) (set_status NEMU_RUNNING m) = Some (Inr m')" "good_end m'"
    using image_loop [OF assms(1,3), of "\<lambda>j. j" "unat n - 5"] unfolding n [symmetric] by blast
  then show ?thesis
    using assms(2) by (simp add: cpu_exec_def good_end_def is_exit_status_bad_def Let_def del: cpu_loop.simps)
qed

text \<open>The riscv32 process before \<open>load_img\<close>, and after \<open>init_device\<close> on what \<open>load_img\<close> made of it.\<close>

definition at_reset :: "host \<Rightarrow> machine \<Rightarrow> bool" where
  "at_reset h m \<longleftrightarrow> isa m = Riscv32 \<and> rv_wf m \<and> pc (cpu m) = 0x80100000 \<and> status (nemu_state m) = NEMU_STOP \<and>
     hst m = h"

lemma started:
  assumes "m = init_isa (init_mem g (static_start Riscv32 h))"
  shows "at_reset h m" "io_fresh m" "img_pmem (pmem m)"
proof -
  show "at_reset h m" "io_fresh m"
    by (simp_all add: assms at_reset_def io_fresh_def rv_wf_def init_isa_def init_mem_def restart_def set_gpr_def
        load_bytes_def static_start_def NR_GPR_def Let_def PMEM_BASE_def IMAGE_START_def)
  show "img_pmem (pmem m)"
    using img_loaded [of "init_mem g (static_start Riscv32 h)"]
    by (simp add: assms init_isa_def init_mem_def restart_def set_gpr_def static_start_def Let_def IMAGE_START_def load_bytes_def)
qed

lemma devices_on:
  assumes "at_reset h m" "io_fresh m" "sdl_init_audio_ok h"
  shows "\<exists>m'. init_device m = Inr m' \<and> at_reset h m' \<and> io_ready m' \<and> pmem m' = pmem m"
  using init_device_stage [OF assms(2)] assms(1,3) io_stage_ready
  by (fastforce simp: at_reset_def io_stage_def rv_wf_def)

lemma main_batch:
  assumes "parse_args argv = Some o1" "batch_mode o1" "\<forall>f. log_file o1 = Some f \<longrightarrow> writable w f"
    and "load_img w (img_file o1) (init_isa (init_mem (garbage w) (static_start Riscv32 h))) = Inr (k, m1)"
    and "init_device m1 = Inr m2" "isa m2 = Riscv32"
  shows "nemu_main w argv lines ticks (static_start Riscv32 h) =
    obnd (cpu_exec riscv32_once ticks (-1) m2) (\<lambda>m'. Some (Inr (if is_exit_status_bad m' then 1 else 0)))"
proof -
  have l: "init_log w (log_file o1) = Inr ()" using assms(3) by (auto simp: init_log_def split: option.splits)
  have i: "isa (init_mem (garbage w) (static_start Riscv32 h)) = Riscv32" by (simp add: init_mem_def static_start_def)
  have s: "start_isa w (init_mem (garbage w) (static_start Riscv32 h)) =
      Inr (init_isa (init_mem (garbage w) (static_start Riscv32 h)))"
    using i by (simp add: start_isa_def)
  have "init_monitor w argv (static_start Riscv32 h) = Inr (Some (o1, ui_start m1))"
    using assms(1,4) l s by (simp add: init_monitor_def)
  then show ?thesis
    using assms(2,5,6)
    by (cases "cpu_exec riscv32_once ticks (-1) m2")
      (auto simp: nemu_main_def engine_start_def ui_mainloop_def cmd_c_def run_cpu_def isa_once_def ok_def obnd_def
        split: sum.splits)
qed

section \<open>Properties\<close>

text \<open>
  C17. Options are understood however they are spelled (short or long, the value attached or as the next
  argument) and in whatever order: batch mode as soon as it is given once, of several log files,
  difftest references and ports the last, of several images the first, and nothing but the usage
  message as soon as help is asked for.
\<close>

theorem parse_args_spelled:
  assumes "list_all2 spells os wss"
  shows "parse_args (concat wss) = (if Opt_usage \<in> set os then None else Some \<lparr>batch_mode = Opt_batch \<in> set os,
     log_file = last_of None (map Some (logs os)), diff_so_file = last_of None (map Some (diffs os)),
     img_file = (case images os of [] \<Rightarrow> None | f # _ \<Rightarrow> Some f), difftest_port = last_of 1234 (ports os)\<rparr>)"
  by (simp add: parse_args_def getopt_spelled_all [OF assms] opts_loop_result default_opts_def)

theorem parse_args_spelled_witness:
  "parse_args [''a.bin'', ''--log=x'', ''-p'', ''12'', ''b.bin'', ''-ly'', ''-b''] =
     Some \<lparr>batch_mode = True, log_file = Some ''y'', diff_so_file = None, img_file = Some ''a.bin'', difftest_port = 12\<rparr>"
proof -
  let ?os = "[Opt_image ''a.bin'', Opt_log ''x'', Opt_port ''12'', Opt_image ''b.bin'', Opt_log ''y'', Opt_batch]"
  have s: "list_all2 spells ?os [[''a.bin''], [''--log=x''], [''-p'', ''12''], [''b.bin''], [''-ly''], [''-b'']]" by simp
  have "(''12'' :: string) = dec 12" by (simp add: dec.simps digit_chars)
  then have "scanf_d ''12'' = Some (12, [])"
    using scan_number_dec [of "[]" 12] by (simp add: scanf_d_def strtol_def)
  then have "ports ?os = [12]" by (simp add: ports_def)
  then show ?thesis using parse_args_spelled [OF s] by (simp add: logs_def diffs_def images_def)
qed

text \<open>
  C2. A whole run: started in batch mode without an image on the riscv32 build, NEMU loads the built-in
  image, brings up its devices, runs and exits with status 0, whatever random numbers memory is filled
  with and whenever the alarms go off, as long as the host sends no event.
\<close>

theorem nemu_main_builtin:
  assumes "parse_args argv = Some o1" "batch_mode o1" "img_file o1 = None" "\<forall>f. log_file o1 = Some f \<longrightarrow> writable w f"
    and "sdl_init_audio_ok h" "sdl_events h = []" "\<And>j. tk_events (ticks j) = []"
  shows "nemu_main w argv lines ticks (static_start Riscv32 h) = Some (Inr 0)"
proof -
  define m where "m = init_isa (init_mem (garbage w) (static_start Riscv32 h))"
  note m = started [OF m_def]
  obtain m2 where m2: "init_device m = Inr m2" "at_reset h m2" "pmem m2 = pmem m"
    using devices_on [OF m(1,2) assms(5)] by blast
  have "at_word 0 (\<lambda>g p. True) (set_status NEMU_RUNNING m2)" "status (nemu_state m2) = NEMU_STOP" "isa m2 = Riscv32"
    using m2(2,3) m(3) assms(6) by (simp_all add: at_reset_def at_word_def set_status_def rv_wf_def)
  moreover have l: "load_img w (img_file o1) (init_isa (init_mem (garbage w) (static_start Riscv32 h))) = Inr (4096, m)"
    using assms(3) by (simp add: load_img_def m_def)
  moreover have "(5 :: u64) \<le> -1" by (rule word_n1_ge)
  ultimately show ?thesis
    using image_exec [OF _ _ assms(7), where m = m2 and n = "-1", of "\<lambda>j. j"]
      main_batch [OF assms(1,2,4) l m2(1)]
    by auto
qed

definition plain_world :: outside where
  "plain_world = \<lparr>files = (\<lambda>f. if f = ''trap.bin'' then Some [0x6b, 0, 0, 0] else None), writable = (\<lambda>_. True),
     garbage = (\<lambda>_. 0xdeadbeef), reg_sample = [], pc_sample = 0\<rparr>"

lemma batch_args:
  "parse_args [''-b'', ''-lnemu.log''] = Some \<lparr>batch_mode = True, log_file = Some ''nemu.log'', diff_so_file = None,
     img_file = None, difftest_port = 1234\<rparr>"
  "parse_args [''trap.bin'', ''--batch''] = Some \<lparr>batch_mode = True, log_file = None, diff_so_file = None,
     img_file = Some ''trap.bin'', difftest_port = 1234\<rparr>"
  by (simp_all add: parse_args_def default_opts_def long_opts no_arg_opt_def arg_opt_of_def)

theorem nemu_main_builtin_witness:
  "nemu_main plain_world [''-b'', ''-lnemu.log''] [] still_ticks (static_start Riscv32 quiet_host) = Some (Inr 0)"
  by (rule nemu_main_builtin [OF batch_args(1)]) (simp_all add: plain_world_def quiet_host_def still_ticks_def)



end
