(* ===== verification/GenExpr.thy ===== *)
theory GenExpr
  imports ExprProps
begin

text \<open>
  The generator of random test expressions, \<open>nemu/tools/gen-expr/gen-expr.c\<close>. It writes an expression into
  a buffer of \<open>BUFF\<close> characters and backs out when there is no room left. The results of \<open>rand\<close> are a
  stream in the state. \<open>gen_rand_expr\<close> need not end: \<open>None\<close> stands for the recursion that never returns.
\<close>

section \<open>State\<close>

definition BUFF :: nat where "BUFF = 65536"

record gen =
  gbuf :: string
  current :: nat
  rands :: "nat \<Rightarrow> u32"

definition rest_buf :: "nat \<Rightarrow> int" where
  "rest_buf cur = int BUFF - 1 - int cur"

definition choose_mod :: "u32 \<Rightarrow> gen \<Rightarrow> u32 \<times> gen" where
  "choose_mod n g = (rands g 0 mod n, g\<lparr>rands := \<lambda>i. rands g (Suc i)\<rparr>)"

text \<open>\<open>buf[temp] = c\<close> and \<open>buf[current++] = c\<close>.\<close>

definition put_at :: "nat \<Rightarrow> char \<Rightarrow> gen \<Rightarrow> fault + gen" where
  "put_at i c g = (if i < BUFF then Inr (g\<lparr>gbuf := (gbuf g)[i := c]\<rparr>) else Inl Out_Of_Bounds)"

definition put_char :: "char \<Rightarrow> gen \<Rightarrow> fault + gen" where
  "put_char c g = bnd (put_at (current g) c g) (\<lambda>g. Inr (g\<lparr>current := Suc (current g)\<rparr>))"

primrec put_chars :: "string \<Rightarrow> gen \<Rightarrow> fault + gen" where
  "put_chars [] g = Inr g"
| "put_chars (c # cs) g = bnd (put_char c g) (put_chars cs)"

section \<open>The generator\<close>

definition gen_num :: "gen \<Rightarrow> fault + (bool \<times> gen)" where
  "gen_num g =
     (let (num, g1) = choose_mod (-1) g; num_str = dec (unat num) @ ''u''
      in if rest_buf (current g1) \<ge> int (length num_str)
         then bnd (put_chars num_str g1) (\<lambda>g2. Inr (True, g2)) else Inr (False, g1))"

definition opt_space :: "gen \<Rightarrow> fault + gen" where
  "opt_space g =
     (if rest_buf (current g) > 0
      then (let (n, g1) = choose_mod 2 g in put_chars (replicate (unat n) (CHR '' '')) g1) else Inr g)"

definition op_chars :: string where "op_chars = ''+-*/''"

lemma obnd_bind: "obnd r f = Option.bind r (\<lambda>x. case x of Inl e \<Rightarrow> Some (Inl e) | Inr y \<Rightarrow> f y)"
  by (cases r) (auto simp: obnd_def split: sum.splits)

lemma obnd_mono [partial_function_mono]:
  assumes "mono_option B" "\<And>y. mono_option (\<lambda>f. C y f)"
  shows "mono_option (\<lambda>f. obnd (B f) (\<lambda>y. C y f))"
proof -
  have "mono_option (\<lambda>f. case x of Inl e \<Rightarrow> Some (Inl e) | Inr y \<Rightarrow> C y f)" for x :: "fault + 'c"
    using assms(2) by (cases x) (simp_all add: option.const_mono)
  then show ?thesis unfolding obnd_bind by (intro bind_mono assms(1))
qed

partial_function (option) gen_rand_expr :: "gen \<Rightarrow> (fault + (bool \<times> gen)) option" where
  "gen_rand_expr g0 =
     (case choose_mod 4 g0 of (c, g) \<Rightarrow>
      if c = 0 then Some (gen_num g)
      else if c = 1 then
        (if rest_buf (current g) > 2 then
           obnd (gen_rand_expr (g\<lparr>current := Suc (current g)\<rparr>)) (\<lambda>(r, g1).
           if r \<and> rest_buf (current g1) > 0
           then Some (bnd (put_at (current g) (CHR ''('') g1) (\<lambda>g2. bnd (put_char (CHR '')'') g2) (\<lambda>g3. Inr (True, g3))))
           else Some (Inr (False, g1\<lparr>current := current g\<rparr>)))
         else Some (Inr (False, g)))
      else if c = 2 then
        obnd (gen_rand_expr g) (\<lambda>(r, g1).
        if \<not> r then Some (Inr (False, g1))
        else case choose_mod 4 g1 of (k, g2) \<Rightarrow>
          obnd (Some (put_char (op_chars ! unat k) g2)) (\<lambda>g3.
          obnd (gen_rand_expr g3) (\<lambda>(r2, g4).
          Some (Inr (if r2 then (True, g4) else (False, g4\<lparr>current := current g\<rparr>))))))
      else
        obnd (Some (opt_space g)) (\<lambda>g1.
        obnd (gen_rand_expr g1) (\<lambda>(r, g2).
        if r then Some (bnd (opt_space g2) (\<lambda>g3. Inr (True, g3)))
        else Some (Inr (False, g2\<lparr>current := current g\<rparr>)))))"

text \<open>
  The part of \<open>main\<close> up to the program it compiles: expressions are generated until one fits, the text is
  terminated and put into the frame \<open>code_format\<close>.
\<close>

partial_function (option) gen_until :: "gen \<Rightarrow> (fault + gen) option" where
  "gen_until g =
     obnd (gen_rand_expr (g\<lparr>current := 0\<rparr>)) (\<lambda>(r, g1). if r then Some (Inr g1) else gen_until g1)"

definition code_size :: nat where "code_size = 65536 + 128"

definition code_text :: "string \<Rightarrow> string" where
  "code_text s = ''#include <stdio.h>'' @ [char_of (10 :: nat)] @ ''int main() {   unsigned result = '' @ s @
     ''; '' @ ''  printf('' @ [char_of (34 :: nat)] @ ''%u'' @ [char_of (34 :: nat)] @ '', result);   return 0; }''"

definition gen_main :: "gen \<Rightarrow> (fault + string) option" where
  "gen_main g =
     obnd (gen_until g) (\<lambda>g1.
     obnd (Some (put_at (current g1) (char_of (0 :: nat)) g1)) (\<lambda>g2.
     let s = takeWhile (\<lambda>c. c \<noteq> char_of (0 :: nat)) (gbuf g2); code = code_text s
     in if length code < code_size then Some (Inr s) else Some (Inl Out_Of_Bounds)))"

end
