(* ===== verification/GenExprProps.thy ===== *)
theory GenExprProps
  imports GenExpr
begin

text \<open>
  What the generator writes: a grammar of its texts with their tokens, the bounds of its buffer, and the
  link to the evaluator it is made to test: every text parses with C's precedences and \<open>expr\<close> computes
  its value.
\<close>

section \<open>The generator's grammar\<close>

inductive gtext :: "string \<Rightarrow> Token list \<Rightarrow> bool" where
  gtext_num: "n < 2 ^ 32 \<Longrightarrow> gtext (dec n @ ''u'') [\<lparr>ttype = TK_DIGIT, tstr = dec n @ ''u''\<rparr>]"
| gtext_paren: "gtext s ts \<Longrightarrow> gtext (CHR ''('' # s @ '')'') (punct c_lpar # ts @ [punct c_rpar])"
| gtext_op: "gtext s ts \<Longrightarrow> gtext s' ts' \<Longrightarrow> c \<in> set op_chars \<Longrightarrow> gtext (s @ c # s') (ts @ punct (of_char c) # ts')"
| gtext_space: "gtext s ts \<Longrightarrow> set l \<subseteq> {CHR '' ''} \<Longrightarrow> set r \<subseteq> {CHR '' ''} \<Longrightarrow> gtext (l @ s @ r) ts"

lemma gtext_no_nul: "gtext s ts \<Longrightarrow> c \<in> set s \<Longrightarrow> c \<noteq> char_of (0 :: nat)"
proof (induction arbitrary: c rule: gtext.induct)
  case (gtext_num n)
  have d: "c_isdigit x \<Longrightarrow> x \<noteq> char_of (0 :: nat)" for x by (auto simp: c_isdigit_def)
  have "CHR ''u'' \<noteq> char_of (0 :: nat)" by (simp add: char_of_def)
  then show ?case using gtext_num dec_all [of n] d by (auto simp: list_all_iff)
qed (auto simp: op_chars_def char_of_def)

section \<open>The buffer\<close>

lemma put_chars_ok:
  assumes "length (gbuf g) = BUFF" "current g + length s \<le> BUFF"
  shows "put_chars s g = Inr (g\<lparr>gbuf := take (current g) (gbuf g) @ s @ drop (current g + length s) (gbuf g),
    current := current g + length s\<rparr>)"
  using assms
proof (induction s arbitrary: g)
  case (Cons c s)
  let ?g = "g\<lparr>gbuf := (gbuf g)[current g := c], current := Suc (current g)\<rparr>"
  have "put_char c g = Inr ?g" using Cons.prems by (simp add: put_char_def put_at_def)
  moreover have "take (Suc (current g)) ((gbuf g)[current g := c]) = take (current g) (gbuf g) @ [c]"
    using Cons.prems by (simp add: take_Suc_conv_app_nth)
  ultimately show ?case using Cons.IH [of ?g] Cons.prems by simp
qed simp

text \<open>The text written from \<open>i\<close> on, and what a call that returns has done.\<close>

definition written :: "nat \<Rightarrow> gen \<Rightarrow> string" where
  "written i g = drop i (take (current g) (gbuf g))"

definition gen_ok :: "gen \<Rightarrow> bool" where
  "gen_ok g \<longleftrightarrow> length (gbuf g) = BUFF \<and> current g \<le> BUFF"

definition gen_post :: "gen \<Rightarrow> bool \<Rightarrow> gen \<Rightarrow> bool" where
  "gen_post g0 r g1 \<longleftrightarrow> length (gbuf g1) = BUFF \<and> take (current g0) (gbuf g1) = take (current g0) (gbuf g0) \<and>
     (if r then current g0 < current g1 \<and> current g1 < BUFF \<and> (\<exists>ts. gtext (written (current g0) g1) ts)
      else current g1 = current g0)"

text \<open>Appending characters to what is written.\<close>

definition extends :: "gen \<Rightarrow> string \<Rightarrow> gen \<Rightarrow> bool" where
  "extends g s g' \<longleftrightarrow> current g' = current g + length s \<and> length (gbuf g') = BUFF \<and>
     take (current g') (gbuf g') = take (current g) (gbuf g) @ s"

lemma extends_take: "extends g s g' \<Longrightarrow> gen_ok g \<Longrightarrow> i \<le> current g \<Longrightarrow> take i (gbuf g') = take i (gbuf g)"
proof -
  assume e: "extends g s g'" "gen_ok g" "i \<le> current g"
  have "take i (take (current g') (gbuf g')) = take i (take (current g) (gbuf g) @ s)"
    using e(1) unfolding extends_def by metis
  then show ?thesis using e by (simp add: extends_def gen_ok_def min_absorb1)
qed

lemma extends_written: "extends g s g' \<Longrightarrow> gen_ok g \<Longrightarrow> i \<le> current g \<Longrightarrow> written i g' = written i g @ s"
proof -
  assume e: "extends g s g'" "gen_ok g" "i \<le> current g"
  have "drop i (take (current g') (gbuf g')) = drop i (take (current g) (gbuf g) @ s)"
    using e(1) unfolding extends_def by metis
  then show ?thesis using e by (simp add: written_def gen_ok_def)
qed

lemma written_Nil [simp]: "written (current g) g = []"
  by (simp add: written_def)

lemma put_chars_extends:
  assumes "length (gbuf g) = BUFF" "current g + length s \<le> BUFF"
  shows "\<exists>g'. put_chars s g = Inr g' \<and> extends g s g'"
  unfolding put_chars_ok [OF assms] using assms by (simp add: extends_def)

lemma choose_fields:
  "choose_mod n g = (c, g') \<Longrightarrow> gbuf g' = gbuf g" "choose_mod n g = (c, g') \<Longrightarrow> current g' = current g"
  by (auto simp: choose_mod_def)

lemma gen_num_post:
  assumes "gen_ok g" shows "\<exists>r g'. gen_num g = Inr (r, g') \<and> gen_post g r g'"
proof -
  obtain n g1 where c: "choose_mod (-1) g = (n, g1)" by (cases "choose_mod (-1) g")
  let ?s = "dec (unat n) @ ''u''"
  have f: "gbuf g1 = gbuf g" "current g1 = current g" using choose_fields [OF c] by simp_all
  show ?thesis
  proof (cases "rest_buf (current g1) \<ge> int (length ?s)")
    case True
    then have l: "length (gbuf g1) = BUFF" "current g1 + length ?s < BUFF"
      using assms f by (auto simp: gen_ok_def rest_buf_def)
    obtain g' where g': "put_chars ?s g1 = Inr g'" "extends g1 ?s g'"
      using put_chars_extends [of g1 ?s] l by (metis less_imp_le)
    have ok: "gen_ok g1" using l by (simp add: gen_ok_def)
    have "written (current g) g' = ?s" using extends_written [OF g'(2) ok, of "current g1"] written_Nil [of g1] f by simp
    moreover have "unat n < 2 ^ 32" using u32_less_4G [of n] by simp
    ultimately have "gtext (written (current g) g') [\<lparr>ttype = TK_DIGIT, tstr = ?s\<rparr>]" using gtext_num by simp
    then have "gen_post g True g'"
      using g'(2) extends_take [OF g'(2) ok, of "current g"] f l by (auto simp: gen_post_def extends_def)
    then show ?thesis using True g'(1) by (intro exI [of _ True] exI [of _ g']) (simp add: gen_num_def c Let_def)
  next
    case False
    then show ?thesis using f assms by (simp add: gen_num_def c Let_def gen_post_def gen_ok_def)
  qed
qed

lemma opt_space_extends:
  assumes "gen_ok g"
  shows "\<exists>s g'. opt_space g = Inr g' \<and> extends g s g' \<and> set s \<subseteq> {CHR '' ''} \<and> (current g < BUFF \<longrightarrow> current g' < BUFF)"
proof (cases "rest_buf (current g) > 0")
  case True
  obtain n g1 where c: "choose_mod 2 g = (n, g1)" by (cases "choose_mod 2 g")
  have "unat n < 2"
  proof -
    have "n = rands g 0 mod 2" using c by (simp add: choose_mod_def)
    then have "unat n = unat (rands g 0) mod unat (2 :: u32)" by (simp only: unat_mod)
    then show ?thesis by simp
  qed
  then have l: "length (gbuf g1) = BUFF" "current g1 + length (replicate (unat n) (CHR '' '')) < BUFF"
    using assms choose_fields [OF c] True by (auto simp: gen_ok_def rest_buf_def)
  obtain g' where "put_chars (replicate (unat n) (CHR '' '')) g1 = Inr g'"
    "extends g1 (replicate (unat n) (CHR '' '')) g'"
    using put_chars_extends [of g1] l by (metis less_imp_le)
  then show ?thesis
    using True c choose_fields [OF c] l
    by (intro exI [of _ "replicate (unat n) (CHR '' '')"] exI [of _ g']) (auto simp: opt_space_def extends_def)
next
  case False
  then show ?thesis using assms by (auto simp: opt_space_def extends_def gen_ok_def intro!: exI [of _ "[]"])
qed

text \<open>The three ways \<open>gen_rand_expr\<close> puts texts together.\<close>

lemma post_paren:
  assumes "gen_ok g" "rest_buf (current g) > 2" "gen_post (g\<lparr>current := Suc (current g)\<rparr>) True g1" "rest_buf (current g1) > 0"
  shows "\<exists>g3. bnd (put_at (current g) (CHR ''('') g1) (\<lambda>g2. bnd (put_char (CHR '')'') g2) (\<lambda>g3. Inr (True, g3))) = Inr (True, g3) \<and>
    gen_post g True g3"
proof -
  let ?i = "current g"
  let ?b = "(gbuf g1)[?i := CHR ''('', current g1 := CHR '')'']"
  let ?g3 = "g1\<lparr>gbuf := ?b, current := Suc (current g1)\<rparr>"
  have p: "length (gbuf g1) = BUFF" "take (Suc ?i) (gbuf g1) = take (Suc ?i) (gbuf g)" "Suc ?i < current g1" "Suc (current g1) < BUFF"
    using assms(3,4) by (auto simp: gen_post_def rest_buf_def)
  obtain ts where ts: "gtext (drop (Suc ?i) (take (current g1) (gbuf g1))) ts"
    using assms(3) by (auto simp: gen_post_def written_def)
  have "drop ?i (take (Suc (current g1)) ?b) = CHR ''('' # drop (Suc ?i) (take (current g1) (gbuf g1)) @ '')''"
    using p by (intro nth_equalityI) (auto simp: nth_Cons nth_append nth_list_update split: nat.splits)
  then have "gtext (written ?i ?g3) (punct c_lpar # ts @ [punct c_rpar])"
    using gtext_paren [OF ts] by (simp add: written_def)
  moreover have "take ?i ?b = take ?i (gbuf g)"
    using p(2,3) by (simp add: take_update_cancel) (metis le_add2 min_absorb1 plus_1_eq_Suc take_take)
  ultimately have "gen_post g True ?g3" using p by (auto simp: gen_post_def)
  moreover have "put_at ?i (CHR ''('') g1 = Inr (g1\<lparr>gbuf := (gbuf g1)[?i := CHR ''('']\<rparr>)"
    using p by (simp add: put_at_def)
  moreover have "put_char (CHR '')'') (g1\<lparr>gbuf := (gbuf g1)[?i := CHR ''('']\<rparr>) = Inr ?g3"
    using p by (simp add: put_char_def put_at_def)
  ultimately show ?thesis by (intro exI [of _ ?g3]) simp
qed

lemma gen_post_ok: "gen_post g r g1 \<Longrightarrow> gen_ok g \<Longrightarrow> gen_ok g1"
  by (auto simp: gen_post_def gen_ok_def split: if_splits)

lemma post_back:
  assumes "take (current g) (gbuf g1) = take (current g) (gbuf g)" "length (gbuf g1) = BUFF"
  shows "gen_post g False (g1\<lparr>current := current g\<rparr>)"
  using assms by (simp add: gen_post_def)

lemma written_split:
  assumes "take j (gbuf g') = take j b" "i \<le> j" "j \<le> current g'" "length b = BUFF" "length (gbuf g') = BUFF" "current g' \<le> BUFF"
  shows "written i g' = drop i (take j b) @ written j g'"
proof -
  have "take (current g') (gbuf g') = take j (gbuf g') @ drop j (take (current g') (gbuf g'))"
    using assms(3,5,6) by (metis append_take_drop_id min_absorb1 take_take)
  then have "written i g' = drop i (take j b @ written j g')" using assms(1) unfolding written_def by metis
  then show ?thesis using assms by simp
qed

lemma post_op:
  assumes "gen_ok g" "gen_post g True g1" "gbuf g2 = gbuf g1" "current g2 = current g1" "c \<in> set op_chars"
  shows "\<exists>g3. put_char c g2 = Inr g3 \<and> gen_ok g3 \<and> take (current g) (gbuf g3) = take (current g) (gbuf g) \<and>
    (\<forall>g4. gen_post g3 True g4 \<longrightarrow> gen_post g True g4)"
proof -
  let ?g3 = "g2\<lparr>gbuf := (gbuf g1)[current g1 := c], current := Suc (current g1)\<rparr>"
  have p: "length (gbuf g1) = BUFF" "current g < current g1" "current g1 < BUFF" "take (current g) (gbuf g1) = take (current g) (gbuf g)"
    using assms(2) by (auto simp: gen_post_def)
  obtain ts where ts: "gtext (written (current g) g1) ts" using assms(2) by (auto simp: gen_post_def)
  have w3: "written (current g) ?g3 = written (current g) g1 @ [c]"
    using p by (simp add: written_def take_Suc_conv_app_nth)
  have t3: "take (current g) (gbuf ?g3) = take (current g) (gbuf g)" using p by (simp add: take_update_cancel)
  have "gen_post g True g4" if g4: "gen_post ?g3 True g4" for g4
  proof -
    have q: "length (gbuf g4) = BUFF" "Suc (current g1) < current g4" "current g4 < BUFF"
      "take (Suc (current g1)) (gbuf g4) = take (Suc (current g1)) (gbuf ?g3)"
      using g4 by (auto simp: gen_post_def)
    obtain ts' where ts': "gtext (written (Suc (current g1)) g4) ts'" using g4 by (auto simp: gen_post_def)
    have "written (current g) g4 = drop (current g) (take (Suc (current g1)) (gbuf ?g3)) @ written (Suc (current g1)) g4"
      using q p by (intro written_split) auto
    also have "drop (current g) (take (Suc (current g1)) (gbuf ?g3)) = written (current g) g1 @ [c]"
      using w3 by (simp add: written_def)
    finally have "gtext (written (current g) g4) (ts @ punct (of_char c) # ts')"
      using gtext_op [OF ts ts' assms(5)] by simp
    moreover have "take (current g) (gbuf g4) = take (current g) (gbuf g)"
    proof -
      have "take (current g) (gbuf g4) = take (current g) (take (Suc (current g1)) (gbuf g4))" using p by (simp add: min_absorb1)
      also have "\<dots> = take (current g) (gbuf ?g3)" unfolding q(4) using p by (simp add: min_absorb1)
      finally show ?thesis using t3 by simp
    qed
    ultimately show ?thesis using q p by (auto simp: gen_post_def)
  qed
  moreover have "put_char c g2 = Inr ?g3" using p assms(3,4) by (simp add: put_char_def put_at_def)
  moreover have "gen_ok ?g3" using p by (simp add: gen_ok_def)
  ultimately show ?thesis using t3 by blast
qed

lemma extends_ok: "extends g s g' \<Longrightarrow> gen_ok g \<Longrightarrow> gen_ok g'"
proof -
  assume e: "extends g s g'" "gen_ok g"
  have "length (take (current g') (gbuf g')) = length (take (current g) (gbuf g) @ s)"
    using e(1) unfolding extends_def by metis
  then show ?thesis using e by (simp add: extends_def gen_ok_def)
qed

lemma post_space:
  assumes "gen_ok g" "extends g l g1" "set l \<subseteq> {CHR '' ''}" "gen_post g1 True g2"
    and "extends g2 r g3" "set r \<subseteq> {CHR '' ''}" "current g3 < BUFF"
  shows "gen_post g True g3"
proof -
  have ok1: "gen_ok g1" by (rule extends_ok [OF assms(2,1)])
  have ok2: "gen_ok g2" by (rule gen_post_ok [OF assms(4) ok1])
  have c: "current g \<le> current g1" "current g1 < current g2" "current g2 \<le> current g3" "length (gbuf g3) = BUFF"
    using assms(2,4,5) by (auto simp: extends_def gen_post_def)
  have t2: "take (current g1) (gbuf g2) = take (current g1) (gbuf g1)" "length (gbuf g2) = BUFF" "current g2 < BUFF"
    using assms(4) by (auto simp: gen_post_def)
  obtain ts where ts: "gtext (written (current g1) g2) ts" using assms(4) by (auto simp: gen_post_def)
  have "written (current g) g3 = written (current g) g2 @ r"
    using extends_written [OF assms(5) ok2] c by simp
  also have "written (current g) g2 = drop (current g) (take (current g1) (gbuf g1)) @ written (current g1) g2"
    using t2 c ok1 by (intro written_split) (auto simp: gen_ok_def)
  also have "drop (current g) (take (current g1) (gbuf g1)) = l"
    using extends_written [OF assms(2,1) order_refl] unfolding written_def [of _ g1] by simp
  finally have "gtext (written (current g) g3) ts"
    using gtext_space [OF ts assms(3,6)] by simp
  moreover have "take (current g) (gbuf g3) = take (current g) (gbuf g)"
  proof -
    have "take (current g) (gbuf g3) = take (current g) (gbuf g2)"
      using extends_take [OF assms(5) ok2] c by simp
    also have "\<dots> = take (current g) (take (current g1) (gbuf g2))" using c(1) by (simp add: min_absorb1)
    also have "\<dots> = take (current g) (gbuf g1)" unfolding t2(1) using c(1) by (simp add: min_absorb1)
    also have "\<dots> = take (current g) (gbuf g)" using extends_take [OF assms(2,1)] by simp
    finally show ?thesis .
  qed
  ultimately show ?thesis using c assms(7) by (auto simp: gen_post_def)
qed

section \<open>The recursion\<close>

definition gen_spec :: "gen \<Rightarrow> fault + (bool \<times> gen) \<Rightarrow> bool" where
  "gen_spec g x \<longleftrightarrow> (gen_ok g \<longrightarrow> (\<exists>r g1. x = Inr (r, g1) \<and> gen_post g r g1))"

lemma gen_specD: "gen_spec g x \<Longrightarrow> gen_ok g \<Longrightarrow> \<exists>r g1. x = Inr (r, g1) \<and> gen_post g r g1"
  by (simp add: gen_spec_def)

lemma gen_post_choose: "choose_mod n g = (c, g1) \<Longrightarrow> gen_post g1 r g' = gen_post g r g'" "choose_mod n g = (c, g1) \<Longrightarrow> gen_ok g1 = gen_ok g"
  by (auto simp: gen_post_def gen_ok_def choose_mod_def)

lemma obnd_eq_Some: "obnd r f = Some x \<longleftrightarrow> (\<exists>e. r = Some (Inl e) \<and> x = Inl e) \<or> (\<exists>y. r = Some (Inr y) \<and> f y = Some x)"
  by (cases r) (auto simp: obnd_def split: sum.splits)

lemma op_chars_nth: "c < 4 \<Longrightarrow> op_chars ! c \<in> set op_chars"
  by (rule nth_mem) (simp add: op_chars_def)

lemma choose_4: "choose_mod 4 g = (k, g') \<Longrightarrow> unat k < 4"
proof -
  assume "choose_mod 4 g = (k, g')"
  then have "k = rands g 0 mod 4" by (simp add: choose_mod_def)
  then have "unat k = unat (rands g 0) mod unat (4 :: u32)" by (simp only: unat_mod)
  then show ?thesis by simp
qed

text \<open>One level, for each of the four choices.\<close>

lemma turn_paren:
  assumes rec: "\<And>g x. rec g = Some x \<Longrightarrow> gen_spec g x" and ok: "gen_ok g"
    and b: "(if rest_buf (current g) > 2 then
           obnd (rec (g\<lparr>current := Suc (current g)\<rparr>)) (\<lambda>(r, g1).
           if r \<and> rest_buf (current g1) > 0
           then Some (bnd (put_at (current g) (CHR ''('') g1) (\<lambda>g2. bnd (put_char (CHR '')'') g2) (\<lambda>g3. Inr (True, g3))))
           else Some (Inr (False, g1\<lparr>current := current g\<rparr>)))
         else Some (Inr (False, g))) = Some x"
  shows "\<exists>r g1. x = Inr (r, g1) \<and> gen_post g r g1"
proof (cases "rest_buf (current g) > 2")
  case False
  then show ?thesis using b ok by (auto simp: gen_post_def gen_ok_def)
next
  case True
  let ?g = "g\<lparr>current := Suc (current g)\<rparr>"
  have "gen_ok ?g" using ok True by (auto simp: gen_ok_def rest_buf_def)
  then obtain r g1 where r: "rec ?g = Some (Inr (r, g1))" "gen_post ?g r g1"
    using b True rec [of ?g] by (fastforce simp: obnd_eq_Some dest: gen_specD)
  have t: "take (current g) (gbuf g1) = take (current g) (gbuf g)" "length (gbuf g1) = BUFF"
  proof -
    have "take (Suc (current g)) (gbuf g1) = take (Suc (current g)) (gbuf g)" using r(2) by (simp add: gen_post_def)
    then have "take (current g) (take (Suc (current g)) (gbuf g1)) = take (current g) (take (Suc (current g)) (gbuf g))" by simp
    then show "take (current g) (gbuf g1) = take (current g) (gbuf g)" by (simp add: min_absorb1)
  qed (use r(2) in \<open>simp add: gen_post_def\<close>)
  show ?thesis
  proof (cases "r \<and> rest_buf (current g1) > 0")
    case True
    then have "gen_post ?g True g1" using r(2) by simp
    with True show ?thesis using post_paren [OF ok \<open>rest_buf (current g) > 2\<close>, of g1] r b \<open>rest_buf (current g) > 2\<close> by auto
  next
    case False
    then have "x = Inr (False, g1\<lparr>current := current g\<rparr>)" using r b \<open>rest_buf (current g) > 2\<close> by auto
    then show ?thesis using post_back [OF t] by blast
  qed
qed

lemma turn_op:
  assumes rec: "\<And>g x. rec g = Some x \<Longrightarrow> gen_spec g x" and ok: "gen_ok g"
    and b: "obnd (rec g) (\<lambda>(r, g1).
        if \<not> r then Some (Inr (False, g1))
        else case choose_mod 4 g1 of (k, g2) \<Rightarrow>
          obnd (Some (put_char (op_chars ! unat k) g2)) (\<lambda>g3.
          obnd (rec g3) (\<lambda>(r2, g4).
          Some (Inr (if r2 then (True, g4) else (False, g4\<lparr>current := current g\<rparr>)))))) = Some x"
  shows "\<exists>r g1. x = Inr (r, g1) \<and> gen_post g r g1"
proof -
  obtain r g1 where r: "rec g = Some (Inr (r, g1))" "gen_post g r g1"
    using b rec [of g] ok by (fastforce simp: obnd_eq_Some dest: gen_specD)
  show ?thesis
  proof (cases r)
    case False
    then show ?thesis using r b by auto
  next
    case True
    obtain k g2 where k: "choose_mod 4 g1 = (k, g2)" by (cases "choose_mod 4 g1")
    obtain g3 where g3: "put_char (op_chars ! unat k) g2 = Inr g3" "gen_ok g3"
      "take (current g) (gbuf g3) = take (current g) (gbuf g)" "\<forall>g4. gen_post g3 True g4 \<longrightarrow> gen_post g True g4"
      using post_op [OF ok r(2) [unfolded eqTrueI [OF True]] choose_fields [OF k] op_chars_nth [OF choose_4 [OF k]]] by auto
    have c3: "current g3 = Suc (current g2)" "current g < current g3"
      using g3(1) choose_fields [OF k] r(2) True by (auto simp: put_char_def put_at_def gen_post_def split: if_splits)
    obtain r2 g4 where g4: "rec g3 = Some (Inr (r2, g4))" "gen_post g3 r2 g4"
      using b rec [of g3] g3(1,2) r(1) True k by (fastforce simp: obnd_eq_Some dest: gen_specD)
    show ?thesis
    proof (cases r2)
      case True
      then show ?thesis using g4 g3 r(1) \<open>r\<close> k b by auto
    next
      case False
      have "take (current g) (take (current g3) (gbuf g4)) = take (current g) (take (current g3) (gbuf g3))"
        using g4(2) by (simp add: gen_post_def)
      then have "take (current g) (gbuf g4) = take (current g) (gbuf g)" using c3(2) g3(3) by (simp add: min_absorb1)
      then have "gen_post g False (g4\<lparr>current := current g\<rparr>)" using g4(2) by (intro post_back) (simp_all add: gen_post_def)
      moreover have "x = Inr (False, g4\<lparr>current := current g\<rparr>)" using False g4(1) g3(1) r(1) \<open>r\<close> k b by simp
      ultimately show ?thesis by blast
    qed
  qed
qed

lemma turn_space:
  assumes rec: "\<And>g x. rec g = Some x \<Longrightarrow> gen_spec g x" and ok: "gen_ok g"
    and b: "obnd (Some (opt_space g)) (\<lambda>g1.
        obnd (rec g1) (\<lambda>(r, g2).
        if r then Some (bnd (opt_space g2) (\<lambda>g3. Inr (True, g3)))
        else Some (Inr (False, g2\<lparr>current := current g\<rparr>)))) = Some x"
  shows "\<exists>r g1. x = Inr (r, g1) \<and> gen_post g r g1"
proof -
  obtain l g1 where g1: "opt_space g = Inr g1" "extends g l g1" "set l \<subseteq> {CHR '' ''}"
    using opt_space_extends [OF ok] by auto
  have ok1: "gen_ok g1" by (rule extends_ok [OF g1(2) ok])
  obtain r g2 where r: "rec g1 = Some (Inr (r, g2))" "gen_post g1 r g2"
    using b rec [of g1] ok1 g1(1) by (fastforce simp: obnd_eq_Some dest: gen_specD)
  have ok2: "gen_ok g2" by (rule gen_post_ok [OF r(2) ok1])
  show ?thesis
  proof (cases r)
    case True
    obtain s g3 where g3: "opt_space g2 = Inr g3" "extends g2 s g3" "set s \<subseteq> {CHR '' ''}" "current g2 < BUFF \<longrightarrow> current g3 < BUFF"
      using opt_space_extends [OF ok2] by auto
    have p: "gen_post g1 True g2" using r(2) True by simp
    then have "current g3 < BUFF" using g3(4) by (simp add: gen_post_def)
    then have "gen_post g True g3" by (rule post_space [OF ok g1(2,3) p g3(2,3)])
    then show ?thesis using b g1(1) r(1) True g3(1) by auto
  next
    case False
    have c: "current g \<le> current g1" using g1(2) by (simp add: extends_def)
    have "take (current g) (take (current g1) (gbuf g2)) = take (current g) (take (current g1) (gbuf g1))"
      using r(2) by (simp add: gen_post_def)
    then have "take (current g) (gbuf g2) = take (current g) (gbuf g)"
      using c extends_take [OF g1(2) ok order_refl] by (simp add: min_absorb1)
    then have "gen_post g False (g2\<lparr>current := current g\<rparr>)" using r(2) by (intro post_back) (simp_all add: gen_post_def)
    moreover have "x = Inr (False, g2\<lparr>current := current g\<rparr>)" using b g1(1) r(1) False by simp
    ultimately show ?thesis by blast
  qed
qed

lemma gen_rand_expr_spec: "gen_rand_expr g = Some x \<Longrightarrow> gen_spec g x"
proof (rule gen_rand_expr.raw_induct [where P = gen_spec], goal_cases)
  case (1 rec g0 x)
  obtain c g where c: "choose_mod 4 g0 = (c, g)" by (cases "choose_mod 4 g0")
  note b = 1(3) [unfolded c prod.case] and rec = 1(2)
  show ?case unfolding gen_spec_def
  proof
    assume "gen_ok g0"
    then have ok: "gen_ok g" using gen_post_choose(2) [OF c] by simp
    consider "c = 0" | "c = 1" | "c = 2" | "c \<noteq> 0" "c \<noteq> 1" "c \<noteq> 2" by blast
    then have "\<exists>r g1. x = Inr (r, g1) \<and> gen_post g r g1"
    proof cases
      case 1
      then have "x = gen_num g" using b by simp
      then show ?thesis using gen_num_post [OF ok] by simp
    next
      case 2
      then show ?thesis using turn_paren [OF rec ok, where x = x] b by simp
    next
      case 3
      then show ?thesis using turn_op [OF rec ok, where x = x] b by simp
    next
      case 4
      then show ?thesis using turn_space [OF rec ok, where x = x] b by simp
    qed
    then show "\<exists>r g1. x = Inr (r, g1) \<and> gen_post g0 r g1" using gen_post_choose(1) [OF c] by simp
  qed
qed

lemma gen_until_spec:
  assumes "gen_until g = Some x" "length (gbuf g) = BUFF"
  shows "\<exists>g1 ts. x = Inr g1 \<and> length (gbuf g1) = BUFF \<and> current g1 < BUFF \<and> gtext (take (current g1) (gbuf g1)) ts"
proof -
  let ?P = "\<lambda>g x. length (gbuf g) = BUFF \<longrightarrow>
    (\<exists>g1 ts. x = Inr g1 \<and> length (gbuf g1) = BUFF \<and> current g1 < BUFF \<and> gtext (take (current g1) (gbuf g1)) ts)"
  have "?P g x"
  proof (rule gen_until.raw_induct [where P = ?P, OF _ assms(1)], rule impI)
    fix rec g x
    assume rec: "\<And>g x. rec g = Some x \<Longrightarrow> ?P g x" and l: "length (gbuf g) = BUFF"
      and b: "obnd (gen_rand_expr (g\<lparr>current := 0\<rparr>)) (\<lambda>(r, g1). if r then Some (Inr g1) else rec g1) = Some x"
    have "gen_ok (g\<lparr>current := 0\<rparr>)" using l by (simp add: gen_ok_def)
    then obtain r g1 where r: "gen_rand_expr (g\<lparr>current := 0\<rparr>) = Some (Inr (r, g1))" "gen_post (g\<lparr>current := 0\<rparr>) r g1"
      using b gen_rand_expr_spec by (fastforce simp: obnd_eq_Some dest: gen_specD)
    show "\<exists>g1 ts. x = Inr g1 \<and> length (gbuf g1) = BUFF \<and> current g1 < BUFF \<and> gtext (take (current g1) (gbuf g1)) ts"
      using b r rec [of g1 x] by (cases r) (auto simp: gen_post_def written_def)
  qed
  then show ?thesis using assms(2) by blast
qed

section \<open>Precedences\<close>

lemma gr_split: "gr k ts e \<Longrightarrow> 0 < k \<Longrightarrow> \<exists>i l a j r b op t. gr i l a \<and> gr j r b \<and> i \<le> k \<and> j < k \<and> k = prio op \<and>
    ttype t = op_tok op \<and> ts = l @ t # r \<and> e = Bin op a b"
proof -
  assume "gr k ts e" "0 < k"
  then show ?thesis
  proof (cases rule: gr.cases)
    case (gr_bin i l a j r b op t)
    then show ?thesis by blast
  qed simp_all
qed

text \<open>Two expressions with an operator between them are an expression, wherever the operators inside bind.\<close>

lemma gr_join:
  "gr i l a \<Longrightarrow> gr j r b \<Longrightarrow> ttype t = op_tok op \<Longrightarrow> \<exists>e k. gr k (l @ t # r) e \<and> k \<le> max (max i j) (prio op)"
proof (induction "length l + length r" arbitrary: i l a j r b t op rule: less_induct)
  case less
  consider "j < i" "prio op < i" | "i \<le> j" "prio op \<le> j" | "i \<le> prio op" "j < prio op" by linarith
  then show ?case
  proof cases
    case 1
    then obtain i1 l1 a1 j1 r1 b1 op1 t1 where l: "gr i1 l1 a1" "gr j1 r1 b1" "i1 \<le> i" "j1 < i" "i = prio op1"
      "ttype t1 = op_tok op1" "l = l1 @ t1 # r1"
      using gr_split [OF less.prems(1)] by auto
    obtain e k where e: "gr k (r1 @ t # r) e" "k \<le> max (max j1 j) (prio op)"
      using less.hyps [OF _ l(2) less.prems(2,3)] l(7) by auto
    have "i1 \<le> prio op1" "k < prio op1" using l e(2) 1 by auto
    then have "gr i (l1 @ t1 # (r1 @ t # r)) (Bin op1 a1 e)"
      unfolding l(5) by (rule gr.gr_bin [OF l(1) e(1) _ _ l(6)])
    then show ?thesis using l(7) by (intro exI) (auto simp: max_def)
  next
    case 2
    then have "0 < j" using prio_pos [of op] by simp
    then obtain i1 l1 a1 j1 r1 b1 op1 t1 where r: "gr i1 l1 a1" "gr j1 r1 b1" "i1 \<le> j" "j1 < j" "j = prio op1"
      "ttype t1 = op_tok op1" "r = l1 @ t1 # r1"
      using gr_split [OF less.prems(2)] by auto
    obtain e k where e: "gr k (l @ t # l1) e" "k \<le> max (max i i1) (prio op)"
      using less.hyps [OF _ less.prems(1) r(1) less.prems(3)] r(7) by auto
    have "k \<le> prio op1" "j1 < prio op1" using r e(2) 2 by auto
    then have "gr j ((l @ t # l1) @ t1 # r1) (Bin op1 e b1)"
      unfolding r(5) by (rule gr.gr_bin [OF e(1) r(2) _ _ r(6)])
    then show ?thesis using r(7) by (intro exI) (auto simp: max_def)
  next
    case 3
    then show ?thesis using gr.gr_bin [OF less.prems(1,2) 3 less.prems(3)] by (metis max.cobounded2)
  qed
qed

lemma op_char_tok: "c \<in> set op_chars \<Longrightarrow> \<exists>op. of_char c = op_tok op \<and> op \<in> {Add, Sub, Mul, Div}"
proof -
  have "op_tok Add = of_char CHR ''+''" "op_tok Sub = of_char CHR ''-''" "op_tok Mul = of_char CHR ''*''"
    "op_tok Div = of_char CHR ''/''" by (simp_all add: op_tok_def tk_defs)
  then show "c \<in> set op_chars \<Longrightarrow> ?thesis" by (auto simp: op_chars_def)
qed

lemma gtext_gr: "gtext s ts \<Longrightarrow> \<exists>k e. gr k ts e"
proof (induction rule: gtext.induct)
  case (gtext_num n)
  show ?case by (intro exI, rule gr_digit) simp
next
  case (gtext_paren s ts)
  then obtain k e where "gr k ts e" by blast
  then have "gr 0 (punct c_lpar # ts @ [punct c_rpar]) e" by (rule gr_paren) (simp_all add: punct_def)
  then show ?case by blast
next
  case (gtext_op s ts s' ts' c)
  obtain op where "ttype (punct (of_char c)) = op_tok op" using op_char_tok [OF gtext_op(3)] by (auto simp: punct_def)
  then show ?case using gr_join gtext_op by blast
qed

section \<open>Reading the text\<close>

text \<open>The tokeniser reads \<open>s\<close>, whatever comes behind it, as the tokens \<open>xs\<close>.\<close>

definition reads :: "string \<Rightarrow> Token list \<Rightarrow> bool" where
  "reads s xs \<longleftrightarrow> (\<forall>rest ts n. n + length xs < MAX_TOKENS \<longrightarrow> length ts = MAX_TOKENS \<longrightarrow>
     (\<exists>ts'. make_token_loop (s @ rest) ts n = make_token_loop rest ts' (n + length xs) \<and> length ts' = MAX_TOKENS \<and>
        take n ts' = take n ts \<and> list_all2 (\<lambda>t x. same_tok (ttype x) t x) (take (length xs) (drop n ts')) xs))"

lemma readsD:
  "reads s xs \<Longrightarrow> n + length xs < MAX_TOKENS \<Longrightarrow> length ts = MAX_TOKENS \<Longrightarrow>
   \<exists>ts'. make_token_loop (s @ rest) ts n = make_token_loop rest ts' (n + length xs) \<and> length ts' = MAX_TOKENS \<and>
     take n ts' = take n ts \<and> list_all2 (\<lambda>t x. same_tok (ttype x) t x) (take (length xs) (drop n ts')) xs"
  by (simp add: reads_def)

lemma reads_append:
  assumes "reads s xs" "reads s' xs'"
  shows "reads (s @ s') (xs @ xs')"
  unfolding reads_def
proof (intro allI impI)
  fix rest n and ts :: "Token list" assume l: "n + length (xs @ xs') < MAX_TOKENS" "length ts = MAX_TOKENS"
  let ?m = "n + length xs"
  obtain ts1 where t1: "make_token_loop (s @ s' @ rest) ts n = make_token_loop (s' @ rest) ts1 ?m" "length ts1 = MAX_TOKENS"
    "take n ts1 = take n ts" "list_all2 (\<lambda>t x. same_tok (ttype x) t x) (take (length xs) (drop n ts1)) xs"
    using readsD [OF assms(1), of n ts "s' @ rest"] l by auto
  obtain ts2 where t2: "make_token_loop (s' @ rest) ts1 ?m = make_token_loop rest ts2 (?m + length xs')" "length ts2 = MAX_TOKENS"
    "take ?m ts2 = take ?m ts1" "list_all2 (\<lambda>t x. same_tok (ttype x) t x) (take (length xs') (drop ?m ts2)) xs'"
    using readsD [OF assms(2), of ?m ts1 rest] l t1(2) by auto
  have "take n (take ?m ts2) = take n (take ?m ts1)" "drop n (take ?m ts2) = drop n (take ?m ts1)" using t2(3) by simp_all
  then have "take n ts2 = take n ts1" "take (length xs) (drop n ts2) = take (length xs) (drop n ts1)"
    by (simp_all add: min_absorb1 drop_take)
  moreover have "take (length (xs @ xs')) (drop n ts2) = take (length xs) (drop n ts2) @ take (length xs') (drop ?m ts2)"
    by (simp add: take_add add.commute)
  ultimately show "\<exists>ts'. make_token_loop ((s @ s') @ rest) ts n = make_token_loop rest ts' (n + length (xs @ xs')) \<and>
      length ts' = MAX_TOKENS \<and> take n ts' = take n ts \<and>
      list_all2 (\<lambda>t x. same_tok (ttype x) t x) (take (length (xs @ xs')) (drop n ts')) (xs @ xs')"
    using t1 t2 by (intro exI [of _ ts2]) (auto simp: add.assoc intro: list_all2_appendI)
qed

text \<open>One token, one blank.\<close>

lemma reads_one:
  assumes "\<And>rest ts n. n < MAX_TOKENS \<Longrightarrow> length ts = MAX_TOKENS \<Longrightarrow>
    \<exists>t. same_tok (ttype x) t x \<and> make_token_loop (s @ rest) ts n = make_token_loop rest (ts[n := t]) (Suc n)"
  shows "reads s [x]"
  unfolding reads_def
proof (intro allI impI)
  fix rest n and ts :: "Token list" assume l: "n + length [x] < MAX_TOKENS" "length ts = MAX_TOKENS"
  obtain t where "same_tok (ttype x) t x" "make_token_loop (s @ rest) ts n = make_token_loop rest (ts[n := t]) (Suc n)"
    using assms [of n ts rest] l by auto
  moreover have "take (length [x]) (drop n (ts[n := t])) = [t]"
    using l by (simp add: take_Suc_conv_app_nth hd_drop_conv_nth take_Suc)
  ultimately show "\<exists>ts'. make_token_loop (s @ rest) ts n = make_token_loop rest ts' (n + length [x]) \<and>
      length ts' = MAX_TOKENS \<and> take n ts' = take n ts \<and>
      list_all2 (\<lambda>t x. same_tok (ttype x) t x) (take (length [x]) (drop n ts')) [x]"
    using l by (intro exI [of _ "ts[n := t]"]) simp
qed

lemma first_rule_gen_number: "first_rule rules (dec n @ CHR ''u'' # rest) = Some (Suc (length (dec n)), TK_DIGIT)"
proof -
  obtain c r where d: "dec n = c # r" "is_digit_c c" "list_all is_digit_c r" using dec_head by blast
  have nd: "\<not> is_digit_c (CHR ''u'')" by (simp add: is_digit_c_def)
  have "regexec R_spaces (dec n @ CHR ''u'' # rest) = None"
    using d digit_not by (simp add: span_len_def is_space_c_def)
  moreover have "regexec R_hex (dec n @ CHR ''u'' # rest) = None"
    using d digit_not by (cases r) (auto simp: Let_def)
  moreover have "regexec R_digit (dec n @ CHR ''u'' # rest) = Some (Suc (length (dec n)))"
    using span_all [OF dec_digits nd, of n rest] d by (simp add: opt_u_def)
  ultimately show ?thesis by (simp add: rules_def)
qed

lemma reads_number: "n < 2 ^ 32 \<Longrightarrow> reads (dec n @ ''u'') [\<lparr>ttype = TK_DIGIT, tstr = dec n @ ''u''\<rparr>]"
proof (rule reads_one)
  fix rest k and ts :: "Token list" assume n: "n < 2 ^ 32" and k: "k < MAX_TOKENS" "length ts = MAX_TOKENS"
  have "length (dec n) \<le> 10" using n by (intro dec_length) auto
  then show "\<exists>t. same_tok (ttype \<lparr>ttype = TK_DIGIT, tstr = dec n @ ''u''\<rparr>) t \<lparr>ttype = TK_DIGIT, tstr = dec n @ ''u''\<rparr> \<and>
      make_token_loop ((dec n @ ''u'') @ rest) ts k = make_token_loop rest (ts[k := t]) (Suc k)"
    using k first_rule_gen_number [of n rest]
    by (intro exI [of _ "\<lparr>ttype = TK_DIGIT, tstr = dec n @ ''u''\<rparr>"], subst make_token_loop.simps)
      (simp add: same_tok_def is_op_type_def tk_defs)
qed

lemma first_rule_char:
  "c \<in> set ''+-*/()'' \<Longrightarrow> first_rule rules (c # rest) = Some (1, of_char c)"
  by (simp, elim disjE; simp add: rules_def tk_defs regexec_not is_digit_c_def del: regexec.simps(1,2,3,5))

lemma reads_char: "c \<in> set ''+-*/()'' \<Longrightarrow> reads [c] [punct (of_char c)]"
proof (rule reads_one)
  fix rest k and ts :: "Token list" assume c: "c \<in> set ''+-*/()''" and k: "k < MAX_TOKENS" "length ts = MAX_TOKENS"
  have o: "of_char c = c_plus \<or> of_char c = c_minus \<or> of_char c = c_star \<or> of_char c = c_slash \<or> of_char c = c_lpar \<or> of_char c = c_rpar"
    using c by (auto simp: tk_defs)
  then have "is_op_type (of_char c) \<or> of_char c = c_lpar \<or> of_char c = c_rpar" by (auto simp: is_op_type_def)
  moreover have "same_tok (of_char c) ((ts ! k)\<lparr>ttype := of_char c\<rparr>) (punct (of_char c))"
    using o by (auto simp: same_tok_def punct_def tk_defs)
  ultimately show "\<exists>t. same_tok (ttype (punct (of_char c))) t (punct (of_char c)) \<and>
      make_token_loop ([c] @ rest) ts k = make_token_loop rest (ts[k := t]) (Suc k)"
    using k first_rule_char [OF c, of rest]
    by (intro exI [of _ "(ts ! k)\<lparr>ttype := of_char c\<rparr>"], subst make_token_loop.simps) (simp add: punct_def)
qed

lemma blanks_dropped:
  assumes "n < MAX_TOKENS"
  shows "make_token_loop (CHR '' '' # rest) ts n = make_token_loop rest ts n"
proof -
  have blank: "make_token_loop (CHR '' '' # s) ts n = make_token_loop (dropWhile is_space_c s) ts n" for s
  proof -
    have "first_rule rules (CHR '' '' # s) = Some (Suc (length (takeWhile is_space_c s)), TK_NOTYPE)"
      by (simp add: rules_def span_len_def is_space_c_def)
    then show ?thesis
      using assms dropWhile_eq_drop [of is_space_c s]
      by (subst make_token_loop.simps) (simp add: is_op_type_def tk_defs)
  qed
  show ?thesis
  proof (cases "rest \<noteq> [] \<and> hd rest = CHR '' ''")
    case True
    then obtain s where "rest = CHR '' '' # s" by (cases rest) auto
    then show ?thesis using blank [of rest] blank [of s] by (simp add: is_space_c_def)
  next
    case False
    then show ?thesis using blank [of rest] by (cases rest) (auto simp: is_space_c_def)
  qed
qed

lemma reads_blanks: "set l \<subseteq> {CHR '' ''} \<Longrightarrow> reads l []"
proof (induction l)
  case (Cons c l)
  then have "reads [c] []" using blanks_dropped by (auto simp: reads_def)
  then show ?case using reads_append [of "[c]" "[]" l "[]"] Cons by simp
qed (auto simp: reads_def)

lemma gtext_reads: "gtext s ts \<Longrightarrow> reads s ts"
proof (induction rule: gtext.induct)
  case (gtext_num n)
  then show ?case by (rule reads_number)
next
  case (gtext_paren s ts)
  have p: "reads ''('' [punct c_lpar]" "reads '')'' [punct c_rpar]"
    using reads_char [of "CHR ''(''"] reads_char [of "CHR '')''"] by (simp_all add: tk_defs)
  show ?case using reads_append [OF p(1) reads_append [OF gtext_paren.IH p(2)]] by simp
next
  case (gtext_op s ts s' ts' c)
  have "reads [c] [punct (of_char c)]" using gtext_op(3) by (intro reads_char) (auto simp: op_chars_def)
  then show ?case using reads_append [OF gtext_op.IH(1) reads_append [OF _ gtext_op.IH(2)]] by fastforce
next
  case (gtext_space s ts l r)
  then show ?case using reads_append [OF reads_blanks reads_append [OF _ reads_blanks], of l s ts r] by simp
qed

section \<open>Evaluating the text\<close>

lemma gtext_no_deref: "gtext s xs \<Longrightarrow> x \<in> set xs \<Longrightarrow> ttype x \<noteq> TK_DEREF"
proof (induction arbitrary: x rule: gtext.induct)
  case (gtext_op s ts s' ts' c)
  have "of_char c \<noteq> TK_DEREF" using gtext_op(3) by (auto simp: op_chars_def tk_defs)
  then show ?case using gtext_op by (auto simp: punct_def)
qed (auto simp: punct_def tk_defs)

lemma gtext_types: "gtext s xs \<Longrightarrow> x \<in> set xs \<Longrightarrow> unmark (ttype x) = ttype x"
  using gtext_no_deref by (simp add: unmark_def)

lemma gtext_expr:
  assumes "gtext s xs" "length xs < MAX_TOKENS" "length tokens = MAX_TOKENS" "gr k xs e"
  shows "\<exists>ts. case sem e m of Some v \<Rightarrow> expr s tokens m = Inr (v, True, ts, m)
    | None \<Rightarrow> \<exists>v. expr s tokens m = Inr (v, False, ts, m)"
proof -
  let ?n = "length xs"
  obtain ts where ts: "make_token s tokens = Inr (True, ts, ?n)" "length ts = MAX_TOKENS"
    "list_all2 (\<lambda>t x. same_tok (ttype x) t x) (take ?n ts) xs"
    using readsD [OF gtext_reads [OF assms(1)], of 0 tokens "[]"] assms(2,3)
    by (auto simp: make_token_def make_token_loop.simps [of "[]"])
  define ts1 where "ts1 = deref_loop 0 ?n ts"
  have ty: "map ttype (take ?n ts) = map ttype xs"
    using ts(3) by (auto simp: list_all2_conv_all_nth same_tok_def intro: nth_equalityI)
  have u: "map (unmark \<circ> ttype) xs = map ttype xs" using gtext_types [OF assms(1)] by simp
  have "map ttype (take ?n ts1) = marked True (map ttype xs)"
    using deref_loop_marked [of 0 ?n ts] ts(2) assms(2) ty by (simp add: ts1_def)
  also have "\<dots> = map ttype xs" using gr_marked [OF assms(4), of "[]"] u by simp
  finally have "map ttype (take ?n ts1) = map ttype xs" .
  moreover have "map tstr (take ?n ts1) = map tstr (take ?n ts)"
    by (simp add: take_map [symmetric] ts1_def)
  moreover have "list_all2 (\<lambda>t x. same_tok (unmark (ttype x)) t x) (take ?n ts) xs"
    using ts(3) gtext_types [OF assms(1)] by (auto simp: list_all2_conv_all_nth)
  ultimately have "list_all2 (\<lambda>t x. same_tok (ttype x) t x) (take ?n ts1) xs"
    using same_retyped by blast
  then have "gr k (take ?n ts1) e" by (rule gr_same [OF assms(4)])
  then show ?thesis using expr_of_gr [OF ts(1) assms(3)] unfolding ts1_def by blast
qed

lemma gen_main_text:
  assumes "gen_main g = Some r" "length (gbuf g) = BUFF"
  shows "\<exists>s xs. r = Inr s \<and> gtext s xs \<and> length s < BUFF"
proof -
  obtain x where x: "gen_until g = Some x" using assms(1) by (cases "gen_until g") (auto simp: gen_main_def)
  obtain g1 xs where g1: "x = Inr g1" "length (gbuf g1) = BUFF" "current g1 < BUFF"
    "gtext (take (current g1) (gbuf g1)) xs"
    using gen_until_spec [OF x assms(2)] by blast
  let ?s = "take (current g1) (gbuf g1)"
  have "(gbuf g1)[current g1 := char_of (0 :: nat)] = ?s @ char_of (0 :: nat) # drop (Suc (current g1)) (gbuf g1)"
    using g1 by (simp add: upd_conv_take_nth_drop)
  moreover have "\<forall>c \<in> set ?s. c \<noteq> char_of (0 :: nat)" using gtext_no_nul [OF g1(4)] by blast
  ultimately have "takeWhile (\<lambda>c. c \<noteq> char_of (0 :: nat)) ((gbuf g1)[current g1 := char_of (0 :: nat)]) = ?s"
    by (simp add: takeWhile_append2 takeWhile_tail)
  moreover have l: "length ?s < BUFF" using g1 by simp
  moreover have "length (code_text ?s) < code_size" using l by (simp add: code_text_def code_size_def BUFF_def)
  ultimately have "r = Inr ?s"
    using assms(1) x g1 by (simp add: gen_main_def put_at_def Let_def)
  then show ?thesis using g1(4) l by blast
qed

section \<open>Properties\<close>

section \<open>The generator returns\<close>

text \<open>A stream that from some point on has multiples of 4 only, which make the recursion stop.\<close>

definition calm :: "nat \<Rightarrow> gen \<Rightarrow> bool" where
  "calm j g \<longleftrightarrow> (\<forall>i \<ge> j. rands g i mod 4 = 0)"

lemma calm_mono: "calm j g \<Longrightarrow> j \<le> k \<Longrightarrow> calm k g"
  by (simp add: calm_def)

lemma calm_choose: "choose_mod n g = (c, g') \<Longrightarrow> calm j g \<Longrightarrow> calm (j - 1) g'"
  by (auto simp: choose_mod_def calm_def le_diff_conv)

lemma calm_current [simp]: "calm j (g\<lparr>current := k\<rparr>) \<longleftrightarrow> calm j g"
  by (simp add: calm_def)

lemma put_at_rands: "put_at i c g = Inr g' \<Longrightarrow> rands g' = rands g"
  by (auto simp: put_at_def split: if_splits)

lemma put_char_rands: "put_char c g = Inr g' \<Longrightarrow> rands g' = rands g"
  by (auto simp: put_char_def bnd_eq_Inr dest: put_at_rands)

lemma put_chars_rands: "put_chars cs g = Inr g' \<Longrightarrow> rands g' = rands g"
  by (induction cs arbitrary: g) (auto simp: bnd_eq_Inr dest: put_char_rands)

lemma calm_cong: "rands g' = rands g \<Longrightarrow> calm j g' = calm j g"
  by (simp add: calm_def)

lemma calm_num: "gen_num g = Inr (r, g') \<Longrightarrow> calm j g \<Longrightarrow> calm (j - 1) g'"
  by (auto simp: gen_num_def Let_def bnd_eq_Inr split: prod.splits if_splits
      dest!: put_chars_rands calm_cong [of _ _ "j - 1"] dest: calm_choose)

lemma calm_space: "opt_space g = Inr g' \<Longrightarrow> calm j g \<Longrightarrow> calm j g'"
  by (auto simp: opt_space_def Let_def split: prod.splits if_splits
      dest!: put_chars_rands calm_cong [of _ _ j] dest: calm_choose intro: calm_mono [of "j - 1"])

definition calms :: "nat \<Rightarrow> (fault + (bool \<times> gen)) option \<Rightarrow> bool" where
  "calms j x \<longleftrightarrow> x \<noteq> None \<and> (\<forall>r g'. x = Some (Inr (r, g')) \<longrightarrow> calm j g')"

lemma calms_obnd:
  "calms j x \<Longrightarrow> (\<And>r g'. calm j g' \<Longrightarrow> calms k (f (r, g'))) \<Longrightarrow> calms k (obnd x f)"
  by (cases x) (auto simp: calms_def obnd_def split: sum.splits)

lemma calms_Some: "(\<And>r g'. x = Inr (r, g') \<Longrightarrow> calm j g') \<Longrightarrow> calms j (Some x)"
  by (simp add: calms_def)

lemma calms_step: "(\<And>g'. x = Inr g' \<Longrightarrow> calms k (f g')) \<Longrightarrow> calms k (obnd (Some x) f)"
  by (cases x) (auto simp: calms_def obnd_def)

lemma gen_rand_expr_calms: "calm j g \<Longrightarrow> calms (j - 1) (gen_rand_expr g)"
proof (induction j arbitrary: g rule: less_induct)
  case (less j)
  obtain c g1 where c: "choose_mod 4 g = (c, g1)" by (cases "choose_mod 4 g")
  have k: "calm (j - 1) g1" using calm_choose [OF c less.prems] .
  have num: "calms (j - 1) (Some (gen_num g1))"
    by (rule calms_Some) (use calm_num k calm_mono in fastforce)
  show ?case
  proof (cases "j = 0")
    case True
    then have "c = 0" using c less.prems by (auto simp: choose_mod_def calm_def)
    then show ?thesis using c num by (subst gen_rand_expr.simps) simp
  next
    case False
    have ih: "calm (j - 1) g2 \<Longrightarrow> calms (j - 1) (gen_rand_expr g2)" for g2
      using less.IH [of "j - 1" g2] False calm_mono [of "j - 1 - 1" _ "j - 1"] by (auto simp: calms_def)
    have paren: "calms (j - 1) (obnd (gen_rand_expr (g1\<lparr>current := Suc (current g1)\<rparr>)) (\<lambda>(r, g2).
           if r \<and> rest_buf (current g2) > 0
           then Some (bnd (put_at (current g1) (CHR ''('') g2) (\<lambda>g2. bnd (put_char (CHR '')'') g2) (\<lambda>g3. Inr (True, g3))))
           else Some (Inr (False, g2\<lparr>current := current g1\<rparr>))))"
      by (rule calms_obnd [OF ih]) (use k in \<open>auto intro!: calms_Some simp: bnd_eq_Inr
          dest!: put_at_rands put_char_rands calm_cong [of _ _ "j - 1"]\<close>)
    have op: "calms (j - 1) (obnd (gen_rand_expr g1) (\<lambda>(r, g2).
        if \<not> r then Some (Inr (False, g2))
        else case choose_mod 4 g2 of (k, g2) \<Rightarrow>
          obnd (Some (put_char (op_chars ! unat k) g2)) (\<lambda>g3.
          obnd (gen_rand_expr g3) (\<lambda>(r2, g4).
          Some (Inr (if r2 then (True, g4) else (False, g4\<lparr>current := current g1\<rparr>)))))))"
    proof (rule calms_obnd [OF ih [OF k]])
      fix r g2 assume g2: "calm (j - 1) g2"
      obtain o2 g3 where o2: "choose_mod 4 g2 = (o2, g3)" by (cases "choose_mod 4 g2")
      have g3: "calm (j - 1) g3" using calm_mono [OF calm_choose [OF o2 g2], of "j - 1"] by simp
      show "calms (j - 1) (case (r, g2) of (r, g2) \<Rightarrow> if \<not> r then Some (Inr (False, g2))
        else case choose_mod 4 g2 of (k, g2) \<Rightarrow>
          obnd (Some (put_char (op_chars ! unat k) g2)) (\<lambda>g3.
          obnd (gen_rand_expr g3) (\<lambda>(r2, g4).
          Some (Inr (if r2 then (True, g4) else (False, g4\<lparr>current := current g1\<rparr>))))))"
        using g2 g3 o2 by (auto intro!: calms_Some calms_step calms_obnd [OF ih] split: if_splits
            dest!: put_char_rands calm_cong [of _ _ "j - 1"])
    qed
    have space: "calms (j - 1) (obnd (Some (opt_space g1)) (\<lambda>g2.
        obnd (gen_rand_expr g2) (\<lambda>(r, g3).
        if r then Some (bnd (opt_space g3) (\<lambda>g3. Inr (True, g3)))
        else Some (Inr (False, g3\<lparr>current := current g1\<rparr>)))))"
      using k by (auto intro!: calms_Some calms_step calms_obnd [OF ih] simp: bnd_eq_Inr) (metis calm_space)+
    show ?thesis
      using num paren op space k by (subst gen_rand_expr.simps) (auto simp: c intro: calms_Some)
  qed
qed

lemma gen_num_fits:
  assumes "current g = 0" "gen_num g = Inr (r, g')" shows r
proof -
  obtain n g1 where c: "choose_mod (-1) g = (n, g1)" by (cases "choose_mod (-1) g")
  have "length (dec (unat n)) \<le> 10" by (rule dec_length) (rule less_trans [OF u32_less_4G], simp_all)
  then have "rest_buf (current g1) \<ge> int (length (dec (unat n) @ ''u''))"
    using assms(1) choose_fields(2) [OF c] by (simp add: rest_buf_def BUFF_def)
  then show ?thesis using assms(2) c by (auto simp: gen_num_def Let_def bnd_eq_Inr)
qed

lemma gen_until_returns: "calm j g \<Longrightarrow> length (gbuf g) = BUFF \<Longrightarrow> \<exists>r. gen_until g = Some r"
proof (induction j arbitrary: g rule: less_induct)
  case (less j)
  let ?g = "g\<lparr>current := 0\<rparr>"
  have ok: "gen_ok ?g" using less.prems(2) by (simp add: gen_ok_def)
  have c: "calms (j - 1) (gen_rand_expr ?g)" using gen_rand_expr_calms [of j ?g] less.prems(1) by simp
  then obtain x where x: "gen_rand_expr ?g = Some x" by (auto simp: calms_def)
  obtain r g1 where r: "x = Inr (r, g1)" "gen_post ?g r g1" using gen_specD [OF gen_rand_expr_spec [OF x] ok] by blast
  show ?case
  proof (cases r)
    case True
    then show ?thesis using x r(1) by (subst gen_until.simps) simp
  next
    case False
    have "j \<noteq> 0"
    proof
      assume "j = 0"
      obtain d g2 where d: "choose_mod 4 ?g = (d, g2)" by (cases "choose_mod 4 ?g")
      have "d = 0" using d less.prems(1) \<open>j = 0\<close> by (auto simp: choose_mod_def calm_def)
      then have "gen_num g2 = Inr (r, g1)" using x r(1) d by (subst (asm) gen_rand_expr.simps) simp
      moreover have "current g2 = 0" using choose_fields(2) [OF d] by simp
      ultimately show False using gen_num_fits [of g2 r g1] False by blast
    qed
    moreover have "calm (j - 1) g1" using c x r(1) by (simp add: calms_def)
    moreover have "length (gbuf g1) = BUFF" using gen_post_ok [OF r(2) ok] by (simp add: gen_ok_def)
    ultimately obtain r' where "gen_until g1 = Some r'" using less.IH [of "j - 1" g1] by auto
    then show ?thesis using x r(1) by (subst gen_until.simps) simp
  qed
qed


text \<open>A sum, and then numbers only.\<close>

definition demo_gen :: gen where
  "demo_gen = \<lparr>gbuf = replicate BUFF (char_of (0 :: nat)), current = 0, rands = (\<lambda>i. if i = 0 then 2 else 12)\<rparr>"


end
