(* ===== verification/X86Cte.thy ===== *)
theory X86Cte
  imports X86Vme
begin

text \<open>
  Interrupts and contexts of the abstract machine on x86 (\<open>abstract-machine/am/src/x86/qemu/cte.c\<close> and
  \<open>trap32.S\<close>, with the descriptors of \<open>x86.h\<close>; the 32-bit build): what happens from an interrupt to the
  return from it, instruction by instruction for the assembly part.

  Memory is a map from word-aligned addresses to words, as in \<open>X86Vme\<close>. The processor's own part, the
  delivery of an interrupt through a gate and \<open>iret\<close>, is as the i386 defines it. What the compiled C code
  keeps on the stack below the trap frame is left out. The client's handler is a parameter.
\<close>

section \<open>The processor\<close>

record xcpu =
  eax :: u32
  ebx :: u32
  ecx :: u32
  edx :: u32
  esi :: u32
  edi :: u32
  ebp :: u32
  esp :: u32
  eip :: u32
  eflags :: u32
  r_cs :: u16
  r_ds :: u16
  r_es :: u16
  r_ss :: u16
  x_cr2 :: u32
  x_cr3 :: u32
  tss_esp0 :: u32
  tss_ss0 :: u32
  eois :: nat
  ram :: "u32 \<Rightarrow> u32"

definition poke :: "u32 \<Rightarrow> u32 \<Rightarrow> xcpu \<Rightarrow> xcpu" where
  "poke a v c = c\<lparr>ram := (ram c)(a := v)\<rparr>"

definition pushl :: "u32 \<Rightarrow> xcpu \<Rightarrow> xcpu" where
  "pushl v c = poke (esp c - 4) v (c\<lparr>esp := esp c - 4\<rparr>)"

definition push_reg :: "(xcpu \<Rightarrow> u32) \<Rightarrow> xcpu \<Rightarrow> xcpu" where
  "push_reg r c = pushl (r c) c"

definition peek :: "u32 \<Rightarrow> xcpu \<Rightarrow> u32" where
  "peek off c = ram c (esp c + off)"

definition skip_words :: "u32 \<Rightarrow> xcpu \<Rightarrow> xcpu" where
  "skip_words n c = c\<lparr>esp := esp c + 4 * n\<rparr>"

definition cli :: "xcpu \<Rightarrow> xcpu" where
  "cli c = c\<lparr>eflags := eflags c AND NOT FL_IF\<rparr>"

text \<open>The privilege level is in the low bits of \<open>cs\<close>.\<close>

definition user_mode :: "xcpu \<Rightarrow> bool" where
  "user_mode c \<longleftrightarrow> r_cs c AND 3 \<noteq> 0"

section \<open>Gates and the interrupt table\<close>

record GateDesc32 =
  off_15_0 :: u32
  g_cs :: u32
  g_args :: u32
  g_rsv1 :: u32
  g_type :: u32
  g_s :: u32
  g_dpl :: u32
  g_p :: u32
  off_31_16 :: u32

definition STS_TG :: u32 where "STS_TG = 0xf"

definition GATE32 :: "u32 \<Rightarrow> u32 \<Rightarrow> u32 \<Rightarrow> u32 \<Rightarrow> GateDesc32" where
  "GATE32 type cs entry dpl =
     \<lparr>off_15_0 = entry AND 0xffff, g_cs = cs, g_args = 0, g_rsv1 = 0, g_type = type, g_s = 0,
       g_dpl = dpl, g_p = 1, off_31_16 = drop_bit 16 entry\<rparr>"

text \<open>\<open>IRQS\<close>: the number, whether a user may raise it, whether the processor pushes an error code.\<close>

definition IRQS :: "(nat \<times> bool \<times> bool) list" where
  "IRQS =
    [(0, False, False), (1, False, False), (2, False, False), (3, False, False), (4, False, False), (5, False, False),
     (6, False, False), (7, False, False), (8, False, True), (9, False, False), (10, False, True), (11, False, True),
     (12, False, True), (13, False, True), (14, False, True), (15, False, False), (16, False, False), (19, False, False),
     (31, False, False)] @ map (\<lambda>i. (i, False, False)) [32 ..< 48] @ [(128, True, False), (129, True, False)]"

datatype handler_label = Am_irqall | Am_irq nat

definition NR_IRQ :: nat where "NR_IRQ = 256"

definition irq_gate :: "(handler_label \<Rightarrow> u32) \<Rightarrow> nat \<times> bool \<times> bool \<Rightarrow> GateDesc32" where
  "irq_gate addr e =
     (case e of (i, user, err) \<Rightarrow> GATE32 STS_TG (KSEL SEG_KCODE) (addr (Am_irq i)) (if user then DPL_USER else DPL_KERN))"

text \<open>\<open>cte_init\<close>: every gate first, then those of \<open>IRQS\<close>; \<open>handler\<close> says whether one was given.\<close>

definition cte_idt :: "(handler_label \<Rightarrow> u32) \<Rightarrow> GateDesc32 list" where
  "cte_idt addr =
     fold (\<lambda>e t. t[fst e := irq_gate addr e]) IRQS
       (replicate NR_IRQ (GATE32 STS_TG (KSEL SEG_KCODE) (addr Am_irqall) DPL_KERN))"

definition cte_init :: "int \<Rightarrow> bool \<Rightarrow> (handler_label \<Rightarrow> u32) \<Rightarrow> fault + GateDesc32 list" where
  "cte_init cpu has_handler addr =
     bnd (c_panic_unless (cpu = 0)) (\<lambda>_. bnd (c_panic_unless has_handler) (\<lambda>_. Inr (cte_idt addr)))"

section \<open>Events\<close>

datatype event_kind = EVENT_NULL | EVENT_YIELD | EVENT_SYSCALL | EVENT_PAGEFAULT | EVENT_ERROR | EVENT_IRQ_TIMER | EVENT_IRQ_IODEV

record event =
  ev_event :: event_kind
  ev_cause :: u32
  ev_ref :: u32

definition T_IRQ0 :: u32 where "T_IRQ0 = 32"
definition EX_PF :: u32 where "EX_PF = 14"
definition EX_SYSCALL :: u32 where "EX_SYSCALL = 0x80"
definition EX_YIELD :: u32 where "EX_YIELD = 0x81"

text \<open>The message, a fixed text for each case, is left out. The other exceptions the switch names: divide error to general protection.\<close>

definition EX_ERRORS :: "u32 list" where "EX_ERRORS = [0, 6, 7, 8, 10, 11, 12, 13]"

definition event_of :: "u32 \<Rightarrow> u32 \<Rightarrow> u32 \<Rightarrow> event" where
  "event_of irq errcode cr2 =
     (let ev = \<lparr>ev_event = EVENT_NULL, ev_cause = 0, ev_ref = 0\<rparr> in
      if irq = T_IRQ0 + 0 then ev\<lparr>ev_event := EVENT_IRQ_TIMER\<rparr>
      else if irq = T_IRQ0 + 1 \<or> irq = T_IRQ0 + 4 then ev\<lparr>ev_event := EVENT_IRQ_IODEV\<rparr>
      else if irq = EX_SYSCALL then ev\<lparr>ev_event := EVENT_SYSCALL\<rparr>
      else if irq = EX_YIELD then ev\<lparr>ev_event := EVENT_YIELD\<rparr>
      else if irq \<in> set EX_ERRORS then ev\<lparr>ev_event := EVENT_ERROR\<rparr>
      else if irq = EX_PF then
        ev\<lparr>ev_event := EVENT_PAGEFAULT, ev_ref := cr2,
          ev_cause := (if errcode AND 1 \<noteq> 0 then MMAP_NONE else 0) OR (if errcode AND 2 \<noteq> 0 then MMAP_WRITE else MMAP_READ)\<rparr>
      else ev\<lparr>ev_event := EVENT_ERROR, ev_cause := errcode\<rparr>)"

section \<open>Entry\<close>

text \<open>The processor enters through a gate: on the kernel stack of the task state segment when it was in user mode.\<close>

definition gate_offset :: "GateDesc32 \<Rightarrow> u32" where
  "gate_offset g = off_15_0 g OR push_bit 16 (off_31_16 g)"

definition push_err :: "u32 option \<Rightarrow> xcpu \<Rightarrow> xcpu" where
  "push_err err c = (case err of None \<Rightarrow> c | Some e \<Rightarrow> pushl e c)"

definition user_stack :: "xcpu \<Rightarrow> xcpu" where
  "user_stack c = pushl (esp c) (pushl (ucast (r_ss c)) (c\<lparr>r_ss := ucast (tss_ss0 c), esp := tss_esp0 c\<rparr>))"

definition deliver :: "GateDesc32 \<Rightarrow> u32 option \<Rightarrow> xcpu \<Rightarrow> xcpu" where
  "deliver g err c =
     (push_err err (push_reg eip (push_reg (\<lambda>c. ucast (r_cs c)) (push_reg eflags (if user_mode c then user_stack c else c)))))
       \<lparr>r_cs := ucast (g_cs g), eip := gate_offset g\<rparr>"

text \<open>\<open>__am_irq<id>\<close> and \<open>__am_irqall\<close>, which pushes 0 and -1, up to \<open>trap\<close>.\<close>

definition am_irq :: "u32 \<Rightarrow> bool \<Rightarrow> xcpu \<Rightarrow> xcpu" where
  "am_irq n err c = pushl n (if err then cli c else pushl 0 (cli c))"

definition am_irqall :: "xcpu \<Rightarrow> xcpu" where
  "am_irqall c = am_irq (-1) False c"

text \<open>\<open>trap\<close> up to the call of \<open>__am_irq_handle\<close>, whose argument is then \<open>esp\<close>. \<open>movw\<close> keeps the upper half of \<open>eax\<close>.\<close>

definition movw :: "u16 \<Rightarrow> u32 \<Rightarrow> u32" where
  "movw v old = (old AND 0xffff0000) OR ucast v"

definition move_ds :: "xcpu \<Rightarrow> xcpu" where
  "move_ds c = c\<lparr>eax := movw (r_ds c) (eax c)\<rparr>"

definition kernel_segments :: "xcpu \<Rightarrow> xcpu" where
  "kernel_segments c =
     (let kdata = ucast (KSEL SEG_KDATA)
      in c\<lparr>eax := movw kdata (eax c), r_ds := kdata, r_es := kdata, r_ss := kdata\<rparr>)"

definition sub_esp :: "u32 \<Rightarrow> xcpu \<Rightarrow> xcpu" where
  "sub_esp n c = c\<lparr>esp := esp c - n\<rparr>"

definition trap :: "xcpu \<Rightarrow> xcpu" where
  "trap c =
     kernel_segments (pushl 0 (push_reg eax (move_ds (push_reg eax (push_reg ebx (push_reg ecx (push_reg edx
       (pushl 0 (push_reg esi (push_reg edi (push_reg ebp (sub_esp 20 (cli c)))))))))))))"

section \<open>The handler and the return\<close>

text \<open>
  \<open>__am_irq_handle\<close> on the trap frame at \<open>tf\<close>: the saved context is its first 60 bytes, then come the
  number, the error code and what the processor has pushed. It returns what \<open>__am_iret\<close> is given.
\<close>

definition save_context :: "u32 \<Rightarrow> xcpu \<Rightarrow> xcpu" where
  "save_context tf c =
     (let c = poke (tf + 40) (ram c (tf + 68)) c; c = poke (tf + 44) (ram c (tf + 72)) c;
          c = poke (tf + 48) (ram c (tf + 76)) c; c = poke (tf + 24) (tss_esp0 c) c;
          c = poke (tf + 56) (USEL SEG_UDATA) c;
          c = poke (tf + 52) (if ram c (tf + 72) AND DPL_USER \<noteq> 0 then ram c (tf + 80) else tf + 88 - 8) c
      in poke tf (x_cr3 c) c)"

type_synonym event_handler = "event \<Rightarrow> u32 \<Rightarrow> xcpu \<Rightarrow> u32 \<times> xcpu"

definition am_lapic_eoi :: "xcpu \<Rightarrow> xcpu" where
  "am_lapic_eoi c = c\<lparr>eois := Suc (eois c)\<rparr>"

definition load_space :: "u32 \<Rightarrow> xcpu \<Rightarrow> xcpu" where
  "load_space ctx c =
     (if ram c ctx \<noteq> 0
      then c\<lparr>x_cr3 := ram c ctx, tss_ss0 := KSEL SEG_KDATA, tss_esp0 := ram c (ctx + 24)\<rparr> else c)"

definition am_irq_handle :: "event_handler \<Rightarrow> u32 \<Rightarrow> xcpu \<Rightarrow> fault + (u32 \<times> xcpu)" where
  "am_irq_handle handler tf c =
     (let c = save_context tf c; irq = ram c (tf + 60); errcode = ram c (tf + 64);
          c = (if T_IRQ0 + 0 \<le> irq \<and> irq < T_IRQ0 + 32 then am_lapic_eoi c else c);
          (ctx, c) = handler (event_of irq errcode (x_cr2 c)) tf c
      in bnd (c_panic_unless (ctx \<noteq> 0)) (\<lambda>_. Inr (ctx, load_space ctx c)))"

text \<open>\<open>iret\<close>: the selector, and with it whether the stack is popped too, is in the low half of the word.\<close>

definition iret :: "xcpu \<Rightarrow> xcpu" where
  "iret c =
     (let cs = ucast (peek 4 c) :: u16;
          c1 = c\<lparr>eip := peek 0 c, r_cs := cs, eflags := peek 8 c, esp := esp c + 12\<rparr>
      in if cs AND 3 \<noteq> 0 then c1\<lparr>esp := peek 12 c, r_ss := ucast (peek 16 c)\<rparr> else c1)"

text \<open>Both returns pop the general registers; the kernel's first moves the frame to where \<open>esp\<close> will be.\<close>

definition pop_general :: "xcpu \<Rightarrow> xcpu" where
  "pop_general c = c\<lparr>eax := peek 0 c, ebx := peek 4 c, ecx := peek 8 c, edx := peek 12 c, esp := esp c + 20\<rparr>"

definition pop_index :: "xcpu \<Rightarrow> xcpu" where
  "pop_index c = c\<lparr>esi := peek 0 c, edi := peek 4 c, ebp := peek 8 c, esp := esp c + 12\<rparr>"

definition user_iret :: "xcpu \<Rightarrow> xcpu" where
  "user_iret c =
     iret (pop_index (pop_general c))"

text \<open>\<open>movl off(%ebp), %esi;  movl %esi, dst(%edi)\<close>\<close>

definition move_word :: "u32 \<Rightarrow> u32 \<Rightarrow> xcpu \<Rightarrow> xcpu" where
  "move_word off dst c = poke (edi c + dst) (ram c (ebp c + off)) (c\<lparr>esi := ram c (ebp c + off)\<rparr>)"

definition frame_pointer :: "xcpu \<Rightarrow> xcpu" where
  "frame_pointer c = c\<lparr>ebp := esp c, edi := ram c (esp c + 24)\<rparr>"

definition to_new_esp :: "xcpu \<Rightarrow> xcpu" where
  "to_new_esp c = c\<lparr>esp := edi c - 24\<rparr>"

definition kernel_iret :: "xcpu \<Rightarrow> xcpu" where
  "kernel_iret c =
     iret (pop_index (to_new_esp
       (move_word 0 (- 24) (move_word 4 (- 20) (move_word 8 (- 16) (move_word 12 (- 12) (move_word 16 (- 8) (move_word 20 (- 4)
         (frame_pointer (pop_general c))))))))))"

definition am_iret :: "u32 \<Rightarrow> xcpu \<Rightarrow> xcpu" where
  "am_iret ctx c =
     (let c = c\<lparr>esp := ctx + 4\<rparr>; ds = ucast (peek 0 c) :: u16;
          c = c\<lparr>eax := peek 0 c, r_ds := ds, r_es := ds, esp := esp c + 4\<rparr>
      in if (ucast (peek 36 c) :: u16) = ucast (KSEL SEG_KCODE) then kernel_iret c else user_iret c)"

text \<open>From the interrupt to the return from it, for an interrupt that has its own entry.\<close>

definition interrupt :: "event_handler \<Rightarrow> u32 \<Rightarrow> GateDesc32 \<Rightarrow> u32 option \<Rightarrow> xcpu \<Rightarrow> fault + xcpu" where
  "interrupt handler n g err c =
     (let c = trap (am_irq n (err \<noteq> None) (deliver g err c))
      in bnd (am_irq_handle handler (esp c) c) (\<lambda>(ctx, c). Inr (am_iret ctx c)))"

section \<open>Kernel contexts\<close>

text \<open>\<open>kcontext\<close>: the address and contents of the context, and the code it starts with, \<open>__amkcontext_start\<close>.\<close>

definition kcontext :: "u32 \<Rightarrow> u32 \<Rightarrow> u32 \<Rightarrow> u32 \<Rightarrow> u32 \<times> am_context" where
  "kcontext kcontext_start kstack_end entry arg =
     (kstack_end - sizeof_context,
      zero_context\<lparr>c_ds := KSEL SEG_KDATA, c_cs := KSEL SEG_KCODE, c_eip := kcontext_start, c_eflags := FL_IF,
        c_esp := kstack_end, c_eax := arg, c_ebx := entry\<rparr>)"

definition amkcontext_start :: "u32 \<Rightarrow> xcpu \<Rightarrow> xcpu" where
  "amkcontext_start panic_on_return c =
     (let c = pushl (eax c) c; c = pushl panic_on_return c in c\<lparr>eip := ebx c\<rparr>)"

definition yield :: "event_handler \<Rightarrow> GateDesc32 list \<Rightarrow> xcpu \<Rightarrow> fault + xcpu" where
  "yield handler idt c = interrupt handler EX_YIELD (idt ! 0x81) None c"

definition ienabled :: "xcpu \<Rightarrow> bool" where
  "ienabled c \<longleftrightarrow> eflags c AND FL_IF \<noteq> 0"

definition iset :: "bool \<Rightarrow> xcpu \<Rightarrow> xcpu" where
  "iset enable c = (if enable then c\<lparr>eflags := eflags c OR FL_IF\<rparr> else cli c)"

end
