(* ===== verification/X86CteProps.thy ===== *)
theory X86CteProps
  imports X86Cte
begin

text \<open>
  Contexts as values: \<open>ctx_of\<close> reads one from memory, \<open>context_at\<close> is the one an interrupted program
  should get, \<open>resumed\<close> says that the processor runs it. Entry saves the one, the return makes the other.
\<close>

section \<open>Contexts\<close>

definition ctx_of :: "(u32 \<Rightarrow> u32) \<Rightarrow> u32 \<Rightarrow> am_context" where
  "ctx_of m p = \<lparr>c_cr3 = m p, c_ds = m (p + 4), c_eax = m (p + 8), c_ebx = m (p + 12), c_ecx = m (p + 16),
     c_edx = m (p + 20), c_esp0 = m (p + 24), c_esi = m (p + 28), c_edi = m (p + 32), c_ebp = m (p + 36),
     c_eip = m (p + 40), c_cs = m (p + 44), c_eflags = m (p + 48), c_esp = m (p + 52), c_ss3 = m (p + 56)\<rparr>"

definition context_at :: "xcpu \<Rightarrow> am_context" where
  "context_at c = \<lparr>c_cr3 = x_cr3 c, c_ds = movw (r_ds c) (eax c), c_eax = eax c, c_ebx = ebx c, c_ecx = ecx c,
     c_edx = edx c, c_esp0 = tss_esp0 c, c_esi = esi c, c_edi = edi c, c_ebp = ebp c,
     c_eip = eip c, c_cs = ucast (r_cs c), c_eflags = eflags c, c_esp = esp c, c_ss3 = USEL SEG_UDATA\<rparr>"

definition resumed :: "am_context \<Rightarrow> xcpu \<Rightarrow> bool" where
  "resumed x c \<longleftrightarrow> eax c = c_eax x \<and> ebx c = c_ebx x \<and> ecx c = c_ecx x \<and> edx c = c_edx x \<and> esi c = c_esi x \<and>
     edi c = c_edi x \<and> ebp c = c_ebp x \<and> esp c = c_esp x \<and> eip c = c_eip x \<and> eflags c = c_eflags x \<and>
     r_cs c = ucast (c_cs x) \<and> r_ds c = ucast (c_ds x) \<and> r_es c = ucast (c_ds x)"

definition user_context :: "am_context \<Rightarrow> bool" where
  "user_context x \<longleftrightarrow> (ucast (c_cs x) :: u16) AND 3 \<noteq> 0"

definition kernel_context :: "am_context \<Rightarrow> bool" where
  "kernel_context x \<longleftrightarrow> (ucast (c_cs x) :: u16) = ucast (KSEL SEG_KCODE)"

lemma selectors: "KSEL SEG_KCODE = 8" "KSEL SEG_KDATA = 16" "USEL SEG_UCODE = 27" "USEL SEG_UDATA = 35"
  by (simp_all add: KSEL_def USEL_def SEG_KCODE_def SEG_KDATA_def SEG_UCODE_def SEG_UDATA_def DPL_KERN_def DPL_USER_def)

lemma ucast_low: "ucast (ucast (v :: u16) :: u32) = (v :: u16)"
  by (rule bit_word_eqI) (auto simp: bit_simps)

lemma ucast_movw: "ucast (movw v w) = v"
  unfolding movw_def
proof (rule bit_word_eqI)
  fix n assume n: "n < LENGTH(16)"
  have m: "(0xffff0000 :: u32) = NOT (mask 16)" by (simp add: mask_eq_exp_minus_1)
  show "bit (ucast (w AND 0xffff0000 OR ucast v) :: u16) n = bit v n"
    unfolding m using n by (auto simp: bit_simps)
qed

lemma ucast_and_3: "ucast (v :: u16) AND (3 :: u32) = 0 \<longleftrightarrow> v AND 3 = 0"
proof -
  have m: "(3 :: u32) = mask 2" "(3 :: u16) = mask 2" by (simp_all add: mask_eq_exp_minus_1)
  have "ucast v AND (3 :: u32) = ucast (v AND 3)"
    unfolding m by (rule bit_word_eqI) (auto simp: bit_simps)
  then show ?thesis by (metis ucast_low ucast_0)
qed

section \<open>Fields\<close>

lemma pushl_fields [simp]:
  "esp (pushl v c) = esp c - 4" "ram (pushl v c) = (ram c)(esp c - 4 := v)"
  "eax (pushl v c) = eax c" "ebx (pushl v c) = ebx c" "ecx (pushl v c) = ecx c" "edx (pushl v c) = edx c"
  "esi (pushl v c) = esi c" "edi (pushl v c) = edi c" "ebp (pushl v c) = ebp c" "eip (pushl v c) = eip c"
  "eflags (pushl v c) = eflags c" "r_cs (pushl v c) = r_cs c" "r_ds (pushl v c) = r_ds c" "r_ss (pushl v c) = r_ss c"
  "x_cr2 (pushl v c) = x_cr2 c" "x_cr3 (pushl v c) = x_cr3 c" "tss_esp0 (pushl v c) = tss_esp0 c" "eois (pushl v c) = eois c"
  by (simp_all add: pushl_def poke_def)

lemma cli_fields [simp]:
  "esp (cli c) = esp c" "ram (cli c) = ram c"
  "eax (cli c) = eax c" "ebx (cli c) = ebx c" "ecx (cli c) = ecx c" "edx (cli c) = edx c"
  "esi (cli c) = esi c" "edi (cli c) = edi c" "ebp (cli c) = ebp c" "eip (cli c) = eip c"
  "r_cs (cli c) = r_cs c" "r_ds (cli c) = r_ds c" "r_ss (cli c) = r_ss c"
  "x_cr2 (cli c) = x_cr2 c" "x_cr3 (cli c) = x_cr3 c" "tss_esp0 (cli c) = tss_esp0 c" "eois (cli c) = eois c"
  by (simp_all add: cli_def)

lemma trap_fields:
  "esp (trap c) = esp c - 60" "x_cr2 (trap c) = x_cr2 c" "x_cr3 (trap c) = x_cr3 c" "tss_esp0 (trap c) = tss_esp0 c"
  "ram (trap c) = (ram c)(esp c - 24 := ebp c, esp c - 28 := edi c, esp c - 32 := esi c, esp c - 36 := 0, esp c - 40 := edx c,
     esp c - 44 := ecx c, esp c - 48 := ebx c, esp c - 52 := eax c, esp c - 56 := movw (r_ds c) (eax c), esp c - 60 := 0)"
  by (simp_all add: trap_def kernel_segments_def push_reg_def move_ds_def sub_esp_def Let_def)

section \<open>Entry\<close>

text \<open>The end of the trap frame, and the state in which \<open>__am_irq_handle\<close> finds it.\<close>

definition frame_top :: "xcpu \<Rightarrow> u32" where
  "frame_top c = (if user_mode c then tss_esp0 c else esp c + 8)"

definition entered :: "u32 \<Rightarrow> GateDesc32 \<Rightarrow> u32 option \<Rightarrow> xcpu \<Rightarrow> xcpu" where
  "entered n g err c = trap (am_irq n (err \<noteq> None) (deliver g err c))"

lemmas entry_defs = entered_def trap_fields am_irq_def deliver_def push_reg_def push_err_def user_stack_def

definition pushed :: "xcpu \<Rightarrow> u32 \<Rightarrow> u32 option \<Rightarrow> u32 \<Rightarrow> (u32 \<Rightarrow> u32) \<Rightarrow> u32 \<Rightarrow> u32" where
  "pushed c n err t m = m(t - 12 := eflags c, t - 16 := ucast (r_cs c), t - 20 := eip c,
     t - 24 := (case err of None \<Rightarrow> 0 | Some e \<Rightarrow> e), t - 28 := n, t - 52 := ebp c, t - 56 := edi c, t - 60 := esi c,
     t - 64 := 0, t - 68 := edx c, t - 72 := ecx c, t - 76 := ebx c, t - 80 := eax c,
     t - 84 := movw (r_ds c) (eax c), t - 88 := 0)"

lemma entered_regs:
  assumes "t = frame_top c"
  shows "esp (entered n g err c) = t - 88" "x_cr3 (entered n g err c) = x_cr3 c" "x_cr2 (entered n g err c) = x_cr2 c"
    "tss_esp0 (entered n g err c) = tss_esp0 c"
  using assms by (cases "user_mode c"; cases err; simp add: entry_defs frame_top_def)+

lemma entered_user:
  assumes "user_mode c" "tss_esp0 c = t"
  shows "ram (entered n g err c) = pushed c n err t ((ram c)(t - 4 := ucast (r_ss c), t - 8 := esp c))"
  using assms by (cases err; simp add: entry_defs pushed_def)

lemma entered_kernel:
  assumes "\<not> user_mode c" "esp c = t - 8"
  shows "ram (entered n g err c) = pushed c n err t (ram c)"
  using assms by (cases err; simp add: entry_defs pushed_def)

lemma save_context_fields:
  "ram (save_context tf c) = (ram c)(tf + 40 := ram c (tf + 68), tf + 44 := ram c (tf + 72), tf + 48 := ram c (tf + 76),
     tf + 24 := tss_esp0 c, tf + 56 := USEL SEG_UDATA,
     tf + 52 := (if ram c (tf + 72) AND DPL_USER \<noteq> 0 then ram c (tf + 80) else tf + 88 - 8), tf := x_cr3 c)"
  "x_cr3 (save_context tf c) = x_cr3 c" "x_cr2 (save_context tf c) = x_cr2 c" "tss_esp0 (save_context tf c) = tss_esp0 c"
  by (simp_all add: save_context_def poke_def Let_def)

text \<open>What an interrupt saves: the context of the interrupted program, the number and the error code.\<close>

lemma saved_from:
  assumes "ram c1 = pushed c n err t m" "x_cr3 c1 = x_cr3 c" "tss_esp0 c1 = tss_esp0 c"
    and "if user_mode c then m (t - 8) = esp c else esp c = t - 8"
  shows "ctx_of (ram (save_context (t - 88) c1)) (t - 88) = context_at c"
    "ram (save_context (t - 88) c1) (t - 28) = n"
    "ram (save_context (t - 88) c1) (t - 24) = (case err of None \<Rightarrow> 0 | Some e \<Rightarrow> e)"
proof -
  have cs: "ram c1 (t - 16) AND DPL_USER \<noteq> 0 \<longleftrightarrow> user_mode c"
    by (simp add: assms(1) pushed_def DPL_USER_def user_mode_def ucast_and_3)
  have r: "ram c1 (t - 20) = eip c" "ram c1 (t - 16) = ucast (r_cs c)" "ram c1 (t - 12) = eflags c"
    "ram c1 (t - 8) = m (t - 8)" "ram c1 (t - 28) = n" "ram c1 (t - 24) = (case err of None \<Rightarrow> 0 | Some e \<Rightarrow> e)"
    "ram c1 (t - 52) = ebp c" "ram c1 (t - 56) = edi c" "ram c1 (t - 60) = esi c"
    "ram c1 (t - 68) = edx c" "ram c1 (t - 72) = ecx c" "ram c1 (t - 76) = ebx c" "ram c1 (t - 80) = eax c"
    "ram c1 (t - 84) = movw (r_ds c) (eax c)"
    by (simp_all add: assms(1) pushed_def)
  show "ram (save_context (t - 88) c1) (t - 28) = n"
    "ram (save_context (t - 88) c1) (t - 24) = (case err of None \<Rightarrow> 0 | Some e \<Rightarrow> e)"
    by (simp_all add: save_context_fields r)
  show "ctx_of (ram (save_context (t - 88) c1)) (t - 88) = context_at c"
    using assms(2-4) cs by (simp add: save_context_fields r ctx_of_def context_at_def)
qed

section \<open>Return\<close>

lemma iret_user:
  assumes "user_context (ctx_of (ram c) p)"
  shows "resumed (ctx_of (ram c) p) (am_iret p c)" "r_ss (am_iret p c) = ucast (c_ss3 (ctx_of (ram c) p))"
    "ram (am_iret p c) = ram c" "x_cr3 (am_iret p c) = x_cr3 c" "tss_esp0 (am_iret p c) = tss_esp0 c"
    "tss_ss0 (am_iret p c) = tss_ss0 c"
proof -
  have u: "(ucast (ram c (p + 44)) :: u16) AND 3 \<noteq> 0" using assms by (simp add: user_context_def ctx_of_def)
  then have n: "(ucast (ram c (p + 44)) :: u16) \<noteq> ucast (KSEL SEG_KCODE)" by (auto simp: selectors)
  show "resumed (ctx_of (ram c) p) (am_iret p c)" "r_ss (am_iret p c) = ucast (c_ss3 (ctx_of (ram c) p))"
    "ram (am_iret p c) = ram c" "x_cr3 (am_iret p c) = x_cr3 c" "tss_esp0 (am_iret p c) = tss_esp0 c"
    "tss_ss0 (am_iret p c) = tss_ss0 c"
    using u n by (simp_all add: am_iret_def Let_def peek_def user_iret_def pop_general_def pop_index_def iret_def resumed_def
        ctx_of_def add.commute)
qed

text \<open>The frame that is moved may overlap the context it comes from, as long as it lies above or well below.\<close>

definition frame_fits :: "u32 \<Rightarrow> u32 \<Rightarrow> bool" where
  "frame_fits p new \<longleftrightarrow> new \<notin> {p + 32, p + 36, p + 40, p + 44, p + 48}"

lemma moved:
  fixes m :: "u32 \<Rightarrow> u32"
  assumes "frame_fits p new" "c1 = frame_pointer (pop_general c0)" "esp c0 = p + 8" "ram c0 (52 + p) = new"
  defines "c2 \<equiv> move_word 0 (- 24) (move_word 4 (- 20) (move_word 8 (- 16) (move_word 12 (- 12) (move_word 16 (- 8)
    (move_word 20 (- 4) c1)))))"
  shows "ram c2 = (ram c0)(new - 4 := ram c0 (48 + p), new - 8 := ram c0 (44 + p), new - 12 := ram c0 (40 + p),
      new - 16 := ram c0 (36 + p), new - 20 := ram c0 (32 + p), new - 24 := ram c0 (28 + p))"
    "edi c2 = new" "eax c2 = eax c1" "ebx c2 = ebx c1" "ecx c2 = ecx c1" "edx c2 = edx c1"
    "r_ds c2 = r_ds c1" "r_es c2 = r_es c1" "x_cr3 c2 = x_cr3 c1" "tss_esp0 c2 = tss_esp0 c1" "tss_ss0 c2 = tss_ss0 c1"
proof -
  have ne: "32 + p \<noteq> new" "36 + p \<noteq> new" "40 + p \<noteq> new" "44 + p \<noteq> new" "48 + p \<noteq> new"
    using assms(1) by (auto simp: frame_fits_def add.commute)
  show "ram c2 = (ram c0)(new - 4 := ram c0 (48 + p), new - 8 := ram c0 (44 + p), new - 12 := ram c0 (40 + p),
      new - 16 := ram c0 (36 + p), new - 20 := ram c0 (32 + p), new - 24 := ram c0 (28 + p))"
    using assms(3,4) ne by (simp add: add.commute [of p] c2_def assms(2) move_word_def poke_def frame_pointer_def pop_general_def)
  show "edi c2 = new" "eax c2 = eax c1" "ebx c2 = ebx c1" "ecx c2 = ecx c1" "edx c2 = edx c1"
    "r_ds c2 = r_ds c1" "r_es c2 = r_es c1" "x_cr3 c2 = x_cr3 c1" "tss_esp0 c2 = tss_esp0 c1" "tss_ss0 c2 = tss_ss0 c1"
    using assms(3,4) by (simp_all add: c2_def assms(2) move_word_def poke_def frame_pointer_def pop_general_def)
qed

lemma iret_kernel:
  assumes "kernel_context (ctx_of (ram c) p)" "frame_fits p (c_esp (ctx_of (ram c) p))"
  shows "resumed (ctx_of (ram c) p) (am_iret p c)" "x_cr3 (am_iret p c) = x_cr3 c" "tss_esp0 (am_iret p c) = tss_esp0 c"
    "tss_ss0 (am_iret p c) = tss_ss0 c"
proof -
  define c0 where "c0 = c\<lparr>eax := ram c (4 + p), r_ds := ucast (ram c (4 + p)), r_es := ucast (ram c (4 + p)), esp := p + 8\<rparr>"
  define c1 where "c1 = frame_pointer (pop_general c0)"
  define new where "new = ram c (52 + p)"
  have cs: "(ucast (ram c (44 + p)) :: u16) = ucast (KSEL SEG_KCODE)"
    using assms(1) by (simp add: kernel_context_def ctx_of_def add.commute)
  have f: "frame_fits p new" using assms(2) by (simp add: ctx_of_def new_def add.commute)
  have k: "am_iret p c = kernel_iret c0" using cs by (simp add: am_iret_def Let_def peek_def c0_def add.commute)
  have r0: "ram c0 = ram c" "esp c0 = p + 8" "ram c0 (52 + p) = new" by (simp_all add: c0_def new_def add.commute)
  note mv = moved [OF f c1_def r0(2,3)]
  have c1: "eax c1 = ram c (8 + p)" "ebx c1 = ram c (12 + p)" "ecx c1 = ram c (16 + p)" "edx c1 = ram c (20 + p)"
      "r_ds c1 = ucast (ram c (4 + p))" "r_es c1 = ucast (ram c (4 + p))" "x_cr3 c1 = x_cr3 c"
      "tss_esp0 c1 = tss_esp0 c" "tss_ss0 c1 = tss_ss0 c"
    by (simp_all add: c1_def frame_pointer_def pop_general_def peek_def r0 add.commute) (simp_all add: c0_def add.commute)
  define c2 where "c2 = move_word 0 (- 24) (move_word 4 (- 20) (move_word 8 (- 16) (move_word 12 (- 12) (move_word 16 (- 8)
    (move_word 20 (- 4) c1)))))"
  have w: "ram c2 (new - 24) = ram c (28 + p)" "ram c2 (new - 20) = ram c (32 + p)" "ram c2 (new - 16) = ram c (36 + p)"
      "ram c2 (new - 12) = ram c (40 + p)" "ram c2 (new - 8) = ram c (44 + p)" "ram c2 (new - 4) = ram c (48 + p)"
    by (simp_all add: c2_def mv r0(1))
  note f2 = mv(2-11) [folded c2_def]
  have z: "(ucast (KSEL SEG_KCODE) :: u16) AND 3 = 0" by (simp add: selectors)
  have i: "iret (pop_index (to_new_esp c2)) = c2\<lparr>esi := ram c (28 + p), edi := ram c (32 + p), ebp := ram c (36 + p),
      eip := ram c (40 + p), r_cs := ucast (KSEL SEG_KCODE), eflags := ram c (48 + p), esp := new\<rparr>"
    by (simp add: iret_def Let_def pop_index_def to_new_esp_def peek_def f2(1) w cs z)
  have x: "ctx_of (ram c) p = \<lparr>c_cr3 = ram c p, c_ds = ram c (4 + p), c_eax = ram c (8 + p), c_ebx = ram c (12 + p),
     c_ecx = ram c (16 + p), c_edx = ram c (20 + p), c_esp0 = ram c (24 + p), c_esi = ram c (28 + p), c_edi = ram c (32 + p),
     c_ebp = ram c (36 + p), c_eip = ram c (40 + p), c_cs = ram c (44 + p), c_eflags = ram c (48 + p), c_esp = new,
     c_ss3 = ram c (56 + p)\<rparr>"
    by (simp add: ctx_of_def new_def add.commute)
  show "resumed (ctx_of (ram c) p) (am_iret p c)" "x_cr3 (am_iret p c) = x_cr3 c" "tss_esp0 (am_iret p c) = tss_esp0 c"
    "tss_ss0 (am_iret p c) = tss_ss0 c"
    unfolding k kernel_iret_def c1_def [symmetric] c2_def [symmetric] i x by (simp_all add: resumed_def f2 c1 cs)
qed

section \<open>From the interrupt to the handler and back\<close>

definition errcode_of :: "u32 option \<Rightarrow> u32" where
  "errcode_of err = (case err of None \<Rightarrow> 0 | Some e \<Rightarrow> e)"

lemma eoi_fields [simp]:
  "ram (am_lapic_eoi c) = ram c" "x_cr3 (am_lapic_eoi c) = x_cr3 c" "x_cr2 (am_lapic_eoi c) = x_cr2 c"
  "tss_esp0 (am_lapic_eoi c) = tss_esp0 c"
  by (simp_all add: am_lapic_eoi_def)

lemma interrupt_handled:
  "\<exists>c1. ctx_of (ram c1) (frame_top c - 88) = context_at c \<and> x_cr3 c1 = x_cr3 c \<and> tss_esp0 c1 = tss_esp0 c \<and>
     interrupt handler n g err c =
       (let (p, c2) = handler (event_of n (errcode_of err) (x_cr2 c)) (frame_top c - 88) c1
        in bnd (c_panic_unless (p \<noteq> 0)) (\<lambda>_. Inr (am_iret p (load_space p c2))))"
proof -
  define t where "t = frame_top c"
  define e where "e = entered n g err c"
  define s where "s = save_context (t - 88) e"
  let ?c1 = "if T_IRQ0 + 0 \<le> n \<and> n < T_IRQ0 + 32 then am_lapic_eoi s else s"
  note ef = entered_regs [OF t_def, of n g err, folded e_def]
  have "\<exists>m. ram e = pushed c n err t m \<and> (if user_mode c then m (t - 8) = esp c else esp c = t - 8)"
  proof (cases "user_mode c")
    case True
    then show ?thesis
      using entered_user [of c t n g err] by (intro exI [of _ "(ram c)(t - 4 := ucast (r_ss c), t - 8 := esp c)"])
        (simp add: e_def t_def frame_top_def)
  next
    case False
    then show ?thesis using entered_kernel [of c t n g err] by (intro exI [of _ "ram c"]) (simp add: e_def t_def frame_top_def)
  qed
  then obtain m where m: "ram e = pushed c n err t m" "if user_mode c then m (t - 8) = esp c else esp c = t - 8" by blast
  note sv = saved_from [OF m(1) ef(2,4) m(2), folded s_def]
  have sf: "x_cr3 s = x_cr3 c" "x_cr2 s = x_cr2 c" "tss_esp0 s = tss_esp0 c" using ef by (simp_all add: s_def save_context_fields)
  have a: "t - 88 + 60 = t - 28" "t - 88 + 64 = t - 24" by simp_all
  have "ctx_of (ram ?c1) (t - 88) = context_at c" "x_cr3 ?c1 = x_cr3 c" "tss_esp0 ?c1 = tss_esp0 c" using sv sf by simp_all
  moreover have "interrupt handler n g err c =
      (let (p, c2) = handler (event_of n (errcode_of err) (x_cr2 c)) (t - 88) ?c1
        in bnd (c_panic_unless (p \<noteq> 0)) (\<lambda>_. Inr (am_iret p (load_space p c2))))"
    unfolding interrupt_def entered_def [symmetric] e_def [symmetric] Let_def ef(1) am_irq_handle_def s_def [symmetric] a sv(2,3)
    by (cases "handler (event_of n (errcode_of err) (x_cr2 c)) (t - 88) ?c1")
      (auto simp: sf errcode_of_def c_panic_unless_def)
  ultimately show ?thesis unfolding t_def by blast
qed

lemma load_space_fields [simp]:
  "ram (load_space p c) = ram c" "r_ss (load_space p c) = r_ss c"
  by (simp_all add: load_space_def)

lemma load_space_loads:
  "c_cr3 (ctx_of (ram c) p) \<noteq> 0 \<Longrightarrow> x_cr3 (load_space p c) = c_cr3 (ctx_of (ram c) p) \<and>
     tss_esp0 (load_space p c) = c_esp0 (ctx_of (ram c) p) \<and> tss_ss0 (load_space p c) = KSEL SEG_KDATA"
  by (simp add: load_space_def ctx_of_def)

lemma fits_frame: "frame_fits (t - 88) (t - 8)" "frame_fits (e - 60) e"
proof -
  have "x = y + 48 - 88 \<longleftrightarrow> x - y = - 40" for x y :: u32 by (auto simp: diff_eq_eq)
  then show "frame_fits (t - 88) (t - 8)" "frame_fits (e - 60) e" by (simp_all add: frame_fits_def eq_diff_eq diff_eq_eq)
qed

section \<open>The interrupt table\<close>

lemma cte_idt_nth:
  assumes "n < 256"
  shows "cte_idt addr ! n = (case map_of IRQS n of
      Some (user, err) \<Rightarrow> irq_gate addr (n, user, err)
    | None \<Rightarrow> GATE32 STS_TG (KSEL SEG_KCODE) (addr Am_irqall) DPL_KERN)"
proof -
  have k: "length (fold (\<lambda>e t. t[fst e := irq_gate addr e]) es t) = length t" for es and t :: "GateDesc32 list"
    by (induction es arbitrary: t) simp_all
  have "distinct (map fst es) \<Longrightarrow> n < length t \<Longrightarrow> fold (\<lambda>e t. t[fst e := irq_gate addr e]) es t ! n =
      (case map_of es n of Some (u, e) \<Rightarrow> irq_gate addr (n, u, e) | None \<Rightarrow> t ! n)" for es and t :: "GateDesc32 list"
  proof (induction es arbitrary: t)
    case (Cons x es)
    obtain i u e where x: "x = (i, u, e)" by (cases x)
    have "map_of es n = None" if "i = n" using Cons.prems(1) x that by (auto simp: map_of_eq_None_iff)
    then show ?case using Cons x by (auto split: option.splits)
  qed simp
  moreover have "distinct (map fst IRQS)" by (simp add: IRQS_def upt_rec)
  ultimately show ?thesis using assms by (simp add: cte_idt_def NR_IRQ_def split: option.split)
qed

lemma gate_entry: "gate_offset (GATE32 type cs entry dpl) = entry"
proof -
  have m: "(0xffff :: u32) = mask 16" by (simp add: mask_eq_exp_minus_1)
  show ?thesis unfolding gate_offset_def GATE32_def m by (simp, rule bit_word_eqI) (auto simp: bit_simps, metis le_add_diff_inverse linorder_not_less)
qed

lemma user_irqs: "map_of IRQS n = Some (True, err) \<longleftrightarrow> (n = 128 \<or> n = 129) \<and> \<not> err"
proof -
  have "(n, True, err) \<in> set IRQS \<longleftrightarrow> (n = 128 \<or> n = 129) \<and> \<not> err" by (auto simp: IRQS_def)
  moreover have "distinct (map fst IRQS)" by (simp add: IRQS_def upt_rec)
  ultimately show ?thesis by (metis map_of_eq_Some_iff)
qed

section \<open>Properties\<close>

definition same_program :: "xcpu \<Rightarrow> xcpu \<Rightarrow> bool" where
  "same_program c c' \<longleftrightarrow> eax c' = eax c \<and> ebx c' = ebx c \<and> ecx c' = ecx c \<and> edx c' = edx c \<and> esi c' = esi c \<and>
     edi c' = edi c \<and> ebp c' = ebp c \<and> esp c' = esp c \<and> eip c' = eip c \<and> eflags c' = eflags c \<and> r_cs c' = r_cs c \<and>
     r_ds c' = r_ds c \<and> (x_cr3 c \<noteq> 0 \<longrightarrow> x_cr3 c' = x_cr3 c \<and> tss_esp0 c' = tss_esp0 c)"


text \<open>A program in user mode, and a handler that gives it back.\<close>

definition user_xcpu :: xcpu where
  "user_xcpu = \<lparr>eax = 1, ebx = 2, ecx = 3, edx = 4, esi = 5, edi = 6, ebp = 7, esp = 0x7ffffff0, eip = 0x40001000,
     eflags = FL_IF, r_cs = 27, r_ds = 35, r_es = 35, r_ss = 35, x_cr2 = 0, x_cr3 = 0x300000, tss_esp0 = 0x200000,
     tss_ss0 = 16, eois = 0, ram = (\<lambda>_. 0)\<rparr>"

lemma user_xcpu_fields: "user_mode user_xcpu" "frame_top user_xcpu = 0x200000"
  by (simp_all add: user_mode_def frame_top_def user_xcpu_def)


text \<open>The return to a context the handler has chosen.\<close>

lemma interrupt_switches:
  assumes "p \<noteq> 0"
    and "\<And>c1. fst (handler (event_of n (errcode_of err) (x_cr2 c)) (frame_top c - 88) c1) = p"
    and "\<And>c1. ctx_of (ram (snd (handler (event_of n (errcode_of err) (x_cr2 c)) (frame_top c - 88) c1))) p = x"
  shows "\<exists>c2. interrupt handler n g err c = Inr (am_iret p (load_space p c2)) \<and> ctx_of (ram (load_space p c2)) p = x"
proof -
  obtain c1 where c1: "interrupt handler n g err c =
       (let (p, c2) = handler (event_of n (errcode_of err) (x_cr2 c)) (frame_top c - 88) c1
        in bnd (c_panic_unless (p \<noteq> 0)) (\<lambda>_. Inr (am_iret p (load_space p c2))))"
    using interrupt_handled [of c handler n g err] by blast
  show ?thesis
    by (rule exI [of _ "snd (handler (event_of n (errcode_of err) (x_cr2 c)) (frame_top c - 88) c1)"])
      (use assms(2) [of c1] assms(3) [of c1] assms(1) c1 in \<open>simp add: Let_def split_beta c_panic_unless_def\<close>)
qed

text \<open>
  A fresh kernel context starts its thread: if the handler returns what kcontext has made on a stack that
  ends at e, the processor gets to the assembly stub and from there to the entry, in kernel mode with
  interrupts on, the argument on top of the stack and below it the address that panics on return.
\<close>

theorem kcontext_enters:
  assumes "e \<noteq> 60"
    and "\<And>c1. fst (handler (event_of n (errcode_of err) (x_cr2 c)) (frame_top c - 88) c1) = fst (kcontext start e f a)"
    and "\<And>c1. ctx_of (ram (snd (handler (event_of n (errcode_of err) (x_cr2 c)) (frame_top c - 88) c1))) (fst (kcontext start e f a)) =
      snd (kcontext start e f a)"
  shows "\<exists>c'. interrupt handler n g err c = Inr c' \<and> eip c' = start \<and>
    (let t = amkcontext_start ret c'
     in eip t = f \<and> esp t = e - 8 \<and> ram t (e - 4) = a \<and> ram t (e - 8) = ret \<and> ienabled t \<and> \<not> user_mode t)"
proof -
  let ?p = "e - 60" and ?x = "snd (kcontext start e f a)"
  have k: "fst (kcontext start e f a) = ?p" by (simp add: kcontext_def sizeof_context_def)
  obtain c2 where i: "interrupt handler n g err c = Inr (am_iret ?p (load_space ?p c2))"
    and x: "ctx_of (ram (load_space ?p c2)) ?p = ?x"
    using interrupt_switches [of ?p handler n err c ?x g, OF _ assms(2,3) [unfolded k]] assms(1) by (auto simp: eq_diff_eq)
  have "resumed ?x (am_iret ?p (load_space ?p c2))"
  proof (rule iret_kernel(1) [of "load_space ?p c2" ?p, unfolded x])
    show "kernel_context ?x" by (simp add: kernel_context_def kcontext_def)
    show "frame_fits ?p (c_esp ?x)" using fits_frame(2) [of e] by (simp add: kcontext_def)
  qed
  then have r: "eax (am_iret ?p (load_space ?p c2)) = a" "ebx (am_iret ?p (load_space ?p c2)) = f"
    "esp (am_iret ?p (load_space ?p c2)) = e" "eip (am_iret ?p (load_space ?p c2)) = start"
    "eflags (am_iret ?p (load_space ?p c2)) = FL_IF" "r_cs (am_iret ?p (load_space ?p c2)) = 8"
    by (simp_all add: resumed_def kcontext_def selectors)
  show ?thesis unfolding i by (simp add: Let_def amkcontext_start_def r ienabled_def user_mode_def FL_IF_def)
qed

text \<open>A handler that puts a context into memory and returns it.\<close>

definition store_context :: "u32 \<Rightarrow> am_context \<Rightarrow> xcpu \<Rightarrow> xcpu" where
  "store_context p x c = c\<lparr>ram := (ram c)(p := c_cr3 x, p + 4 := c_ds x, p + 8 := c_eax x, p + 12 := c_ebx x, p + 16 := c_ecx x,
     p + 20 := c_edx x, p + 24 := c_esp0 x, p + 28 := c_esi x, p + 32 := c_edi x, p + 36 := c_ebp x, p + 40 := c_eip x,
     p + 44 := c_cs x, p + 48 := c_eflags x, p + 52 := c_esp x, p + 56 := c_ss3 x)\<rparr>"

lemma ctx_of_store: "ctx_of (ram (store_context p x c)) p = x"
  by (simp add: ctx_of_def store_context_def)

theorem kcontext_enters_witness:
  "\<exists>c'. interrupt (\<lambda>_ _ c. (0x1fffc4, store_context 0x1fffc4 (snd (kcontext 0x100100 0x200000 0x100200 7)) c)) 0x81
       (cte_idt (\<lambda>_. 0x100000) ! 0x81) None user_xcpu = Inr c' \<and> eip c' = 0x100100 \<and>
    (let t = amkcontext_start 0x100300 c'
     in eip t = 0x100200 \<and> esp t = 0x200000 - 8 \<and> ram t (0x200000 - 4) = 7 \<and> ram t (0x200000 - 8) = 0x100300 \<and>
       ienabled t \<and> \<not> user_mode t)"
proof -
  have p: "fst (kcontext 0x100100 0x200000 0x100200 7) = 0x1fffc4" by (simp add: kcontext_def sizeof_context_def)
  show ?thesis by (rule kcontext_enters) (simp_all only: p ctx_of_store fst_conv snd_conv, simp_all)
qed

text \<open>
  C21. A fresh user context starts its process: if the handler returns what ucontext has made for an address
  space, the processor is in user mode at the entry with interrupts on and the stack at the end of the user
  area, it translates through the space's directory, and the next interrupt enters on the given kernel stack.
\<close>

theorem ucontext_enters:
  assumes "e \<noteq> 60" "mem s (as_ptr as) \<noteq> 0"
    and "\<And>c1. fst (handler (event_of n (errcode_of err) (x_cr2 c)) (frame_top c - 88) c1) = fst (ucontext as e f s)"
    and "\<And>c1. ctx_of (ram (snd (handler (event_of n (errcode_of err) (x_cr2 c)) (frame_top c - 88) c1))) (fst (ucontext as e f s)) =
      snd (ucontext as e f s)"
  shows "\<exists>c'. interrupt handler n g err c = Inr c' \<and> user_mode c' \<and> ienabled c' \<and> eip c' = f \<and> esp c' = 0x80000000 \<and>
    x_cr3 c' = mem s (as_ptr as) \<and> tss_esp0 c' = e \<and> frame_top c' = e"
proof -
  let ?p = "e - 60" and ?x = "snd (ucontext as e f s)"
  have k: "fst (ucontext as e f s) = ?p" by (simp add: ucontext_def sizeof_context_def)
  obtain c2 where i: "interrupt handler n g err c = Inr (am_iret ?p (load_space ?p c2))"
    and x: "ctx_of (ram (load_space ?p c2)) ?p = ?x"
    using interrupt_switches [of ?p handler n err c ?x g, OF _ assms(3,4) [unfolded k]] assms(1) by (auto simp: eq_diff_eq)
  have x': "ctx_of (ram c2) ?p = ?x" using x by simp
  have f: "c_cr3 ?x = mem s (as_ptr as)" "c_esp0 ?x = e" "c_esp ?x = 0x80000000" "c_eip ?x = f" "c_cs ?x = 27" "c_eflags ?x = FL_IF"
    by (simp_all add: ucontext_def selectors uvm_area_def vm_areas_def)
  have l: "x_cr3 (load_space ?p c2) = mem s (as_ptr as)" "tss_esp0 (load_space ?p c2) = e"
    using load_space_loads [of c2 ?p] assms(2) by (simp_all add: x' f)
  note ir = iret_user [of "load_space ?p c2" ?p, unfolded x]
  have u: "user_context ?x" by (simp add: user_context_def f)
  show ?thesis
    unfolding i using ir(1,4,5) [OF u] by (simp add: resumed_def f l user_mode_def ienabled_def FL_IF_def frame_top_def)
qed

text \<open>An address space at 4M whose directory is at 5M.\<close>

definition some_space :: vmm where
  "some_space = \<lparr>mem = (\<lambda>_. 0x500000), pages_left = [], freed = [], kpt = 0, cr0 = 0, cr3 = 0\<rparr>"

theorem ucontext_enters_witness:
  "\<exists>c'. interrupt (\<lambda>_ _ c. (0x1fffc4, store_context 0x1fffc4 (snd (ucontext 0x400000 0x200000 0x40000000 some_space)) c)) 0x81
       (cte_idt (\<lambda>_. 0x100000) ! 0x81) None user_xcpu = Inr c' \<and> user_mode c' \<and> ienabled c' \<and> eip c' = 0x40000000 \<and>
     esp c' = 0x80000000 \<and> x_cr3 c' = mem some_space (as_ptr 0x400000) \<and> tss_esp0 c' = 0x200000 \<and> frame_top c' = 0x200000"
proof -
  have p: "fst (ucontext 0x400000 0x200000 0x40000000 some_space) = 0x1fffc4" by (simp add: ucontext_def sizeof_context_def)
  show ?thesis by (rule ucontext_enters) (simp_all only: p ctx_of_store fst_conv snd_conv, simp_all add: some_space_def)
qed

text \<open>
  The interrupt table: the processor enters the stub of its own number for every vector IRQS lists and
  the common one for the others; a user program can enter through the vectors of system calls and of yield
  and no other one, and nothing is installed on another processor or without a handler.
\<close>

theorem cte_gates:
  "cte_init cpu has_handler addr =
     (if cpu = 0 \<and> has_handler then Inr (cte_idt addr) else Inl Panic) \<and>
   length (cte_idt addr) = 256 \<and>
   (\<forall>n. n < 256 \<longrightarrow> gate_offset (cte_idt addr ! n) = addr (if n \<in> fst ` set IRQS then Am_irq n else Am_irqall) \<and>
     g_cs (cte_idt addr ! n) = KSEL SEG_KCODE \<and> g_dpl (cte_idt addr ! n) = (if n = 128 \<or> n = 129 then DPL_USER else DPL_KERN))"
proof (intro conjI allI impI)
  show "cte_init cpu has_handler addr = (if cpu = 0 \<and> has_handler then Inr (cte_idt addr) else Inl Panic)"
    by (simp add: cte_init_def c_panic_unless_def)
  have k: "length (fold (\<lambda>e t. t[fst e := irq_gate addr e]) es t) = length t" for es and t :: "GateDesc32 list"
    by (induction es arbitrary: t) simp_all
  then show "length (cte_idt addr) = 256" by (simp add: cte_idt_def NR_IRQ_def)
  fix n :: nat assume n: "n < 256"
  have d: "n \<in> fst ` set IRQS \<longleftrightarrow> map_of IRQS n \<noteq> None" by (simp add: map_of_eq_None_iff)
  note nth = cte_idt_nth [OF n, of addr]
  show "gate_offset (cte_idt addr ! n) = addr (if n \<in> fst ` set IRQS then Am_irq n else Am_irqall)"
    "g_cs (cte_idt addr ! n) = KSEL SEG_KCODE"
    unfolding nth d by (auto simp: irq_gate_def gate_entry split: option.split) (simp_all add: GATE32_def)
  show "g_dpl (cte_idt addr ! n) = (if n = 128 \<or> n = 129 then DPL_USER else DPL_KERN)"
  proof (cases "map_of IRQS n")
    case None
    then have "n \<noteq> 128 \<and> n \<noteq> 129" by (auto simp: IRQS_def upt_rec)
    then show ?thesis unfolding nth using None by (simp add: GATE32_def)
  next
    case (Some ue)
    obtain u e where ue: "ue = (u, e)" by (cases ue)
    have "u \<longleftrightarrow> n = 128 \<or> n = 129"
    proof
      assume "n = 128 \<or> n = 129"
      then have "map_of IRQS n = Some (True, False)" by (simp add: user_irqs)
      then show u using Some ue by simp
    qed (use Some ue user_irqs [of n e] in auto)
    then show ?thesis unfolding nth using Some ue by (simp add: irq_gate_def GATE32_def)
  qed
qed

end
