(* ===== verification/X86Pc.thy ===== *)
theory X86Pc
  imports NemuPrelude
begin

text \<open>
  The machine under the x86-qemu build of the abstract machine: the port instructions of
  \<open>abstract-machine/am/src/x86.h\<close> and, behind the ports, the devices as their manuals define them: an ATA drive
  in programmed I/O, the serial line, the keyboard controller and the clock in CMOS memory. Code reaches the
  devices through these instructions only. What comes from outside is a field: how long the drive is busy
  with each command, the bytes received, the keys, the clock at each moment.
\<close>

section \<open>The drive\<close>

text \<open>A transfer under way: the position in bytes and the number of words left.\<close>

datatype transfer = No_transfer | Reading nat nat | Writing nat nat

record ata =
  sectors :: bytes
  a_count :: u8
  a_lba0 :: u8
  a_lba1 :: u8
  a_lba2 :: u8
  a_dev :: u8
  a_xfer :: transfer
  a_busy :: nat                    \<comment> \<open>how many more times the status is busy\<close>
  a_delays :: "nat \<Rightarrow> nat"    \<comment> \<open>the same for the commands to come\<close>

definition ata_lba :: "ata \<Rightarrow> nat" where
  "ata_lba d = unat (a_lba0 d) + 2 ^ 8 * unat (a_lba1 d) + 2 ^ 16 * unat (a_lba2 d) + 2 ^ 24 * unat (a_dev d AND 0xf)"

text \<open>The one drive is the first; only addresses in LBA mode and the two commands below are there.\<close>

definition ata_command :: "u8 \<Rightarrow> ata \<Rightarrow> ata" where
  "ata_command cmd d =
     (let n = 128 * (if a_count d = 0 then 256 else unat (a_count d)); pos = 512 * ata_lba d
      in d\<lparr>a_busy := a_delays d 0, a_delays := (\<lambda>i. a_delays d (Suc i)),
           a_xfer := (if a_dev d AND 0x50 \<noteq> 0x40 then No_transfer
                      else if cmd = 0x20 then Reading pos n
                      else if cmd = 0x30 then Writing pos n else No_transfer)\<rparr>)"

definition ata_outb :: "u16 \<Rightarrow> u8 \<Rightarrow> ata \<Rightarrow> ata" where
  "ata_outb port v d =
     (if a_busy d \<noteq> 0 then d
      else if port = 0x1f2 then d\<lparr>a_count := v\<rparr>
      else if port = 0x1f3 then d\<lparr>a_lba0 := v\<rparr>
      else if port = 0x1f4 then d\<lparr>a_lba1 := v\<rparr>
      else if port = 0x1f5 then d\<lparr>a_lba2 := v\<rparr>
      else if port = 0x1f6 then d\<lparr>a_dev := v\<rparr>
      else if port = 0x1f7 then ata_command v d else d)"

definition ata_status :: "ata \<Rightarrow> u8 \<times> ata" where
  "ata_status d = (if a_busy d \<noteq> 0 then (0x80, d\<lparr>a_busy := a_busy d - 1\<rparr>)
     else (if a_xfer d = No_transfer then 0x50 else 0x58, d))"

definition ata_inl :: "ata \<Rightarrow> u32 \<times> ata" where
  "ata_inl d = (case a_xfer d of
     Reading pos (Suc n) \<Rightarrow>
       if a_busy d \<noteq> 0 then (0, d)
       else (get32 (sectors d) pos, d\<lparr>a_xfer := (if n = 0 then No_transfer else Reading (pos + 4) n)\<rparr>)
   | _ \<Rightarrow> (0, d))"

definition ata_outl :: "u32 \<Rightarrow> ata \<Rightarrow> ata" where
  "ata_outl v d = (case a_xfer d of
     Writing pos (Suc n) \<Rightarrow>
       if a_busy d \<noteq> 0 then d
       else d\<lparr>sectors := put32 (sectors d) pos v, a_xfer := (if n = 0 then No_transfer else Writing (pos + 4) n)\<rparr>
   | _ \<Rightarrow> d)"

section \<open>The machine\<close>

record pc_machine =
  mem8 :: bytes
  drive :: ata
  com_lcr :: u8
  com_divisor :: u16
  com_out :: "u8 list"
  com_in :: "u8 list"
  kbd_codes :: "u8 list"
  cmos_index :: u8
  shutdown_code :: u8
  power_off :: bool
  now :: nat                                    \<comment> \<open>port accesses and counter reads so far\<close>
  cmos :: "nat \<Rightarrow> u8 \<Rightarrow> u8"    \<comment> \<open>the clock's registers at each moment\<close>
  tsc :: "nat \<Rightarrow> u64"

definition next_moment :: "pc_machine \<Rightarrow> pc_machine" where
  "next_moment p = p\<lparr>now := Suc (now p)\<rparr>"

definition pc_inb :: "u16 \<Rightarrow> pc_machine \<Rightarrow> u8 \<times> pc_machine" where
  "pc_inb port p =
     (let p' = next_moment p
      in if port = 0x1f7 then (case ata_status (drive p) of (v, d) \<Rightarrow> (v, p'\<lparr>drive := d\<rparr>))
      else if port = 0x71 then (cmos p (now p) (cmos_index p), p')
      else if port = 0x64 then (if kbd_codes p = [] then 0 else 1, p')
      else if port = 0x60 then (case kbd_codes p of [] \<Rightarrow> (0, p') | c # cs \<Rightarrow> (c, p'\<lparr>kbd_codes := cs\<rparr>))
      else if port = 0x3fd then (if com_in p = [] then 0 else 1, p')
      else if port = 0x3f8 \<and> com_lcr p AND 0x80 = 0 then
        (case com_in p of [] \<Rightarrow> (0, p') | c # cs \<Rightarrow> (c, p'\<lparr>com_in := cs\<rparr>))
      else (0, p'))"

definition pc_outb :: "u16 \<Rightarrow> u8 \<Rightarrow> pc_machine \<Rightarrow> pc_machine" where
  "pc_outb port v p =
     (let p' = next_moment p
      in if port \<in> {0x1f2, 0x1f3, 0x1f4, 0x1f5, 0x1f6, 0x1f7} then p'\<lparr>drive := ata_outb port v (drive p)\<rparr>
      else if port = 0x70 then p'\<lparr>cmos_index := v\<rparr>
      else if port = 0x71 then (if cmos_index p = 0xf then p'\<lparr>shutdown_code := v\<rparr> else p')
      else if port = 0x3f8 then
        (if com_lcr p AND 0x80 = 0 then p'\<lparr>com_out := com_out p @ [v]\<rparr>
         else p'\<lparr>com_divisor := (com_divisor p AND 0xff00) OR ucast v\<rparr>)
      else if port = 0x3f9 \<and> com_lcr p AND 0x80 \<noteq> 0 then
        p'\<lparr>com_divisor := (com_divisor p AND 0xff) OR push_bit 8 (ucast v)\<rparr>
      else if port = 0x3fb then p'\<lparr>com_lcr := v\<rparr>
      else p')"

definition pc_inl :: "u16 \<Rightarrow> pc_machine \<Rightarrow> u32 \<times> pc_machine" where
  "pc_inl port p =
     (let p' = next_moment p
      in if port = 0x1f0 then (case ata_inl (drive p) of (v, d) \<Rightarrow> (v, p'\<lparr>drive := d\<rparr>)) else (0, p'))"

definition pc_outl :: "u16 \<Rightarrow> u32 \<Rightarrow> pc_machine \<Rightarrow> pc_machine" where
  "pc_outl port v p =
     (let p' = next_moment p in if port = 0x1f0 then p'\<lparr>drive := ata_outl v (drive p)\<rparr> else p')"

text \<open>The port that turns QEMU's machine off.\<close>

definition pc_outw :: "u16 \<Rightarrow> u16 \<Rightarrow> pc_machine \<Rightarrow> pc_machine" where
  "pc_outw port v p =
     (let p' = next_moment p in if port = 0x604 \<and> v = 0x2000 then p'\<lparr>power_off := True\<rparr> else p')"

definition rdtsc :: "pc_machine \<Rightarrow> u64 \<times> pc_machine" where
  "rdtsc p = (tsc p (now p), next_moment p)"

definition load32 :: "u32 \<Rightarrow> pc_machine \<Rightarrow> u32" where
  "load32 a p = get32 (mem8 p) (unat a)"

definition load16 :: "u32 \<Rightarrow> pc_machine \<Rightarrow> u32" where
  "load16 a p = get16 (mem8 p) (unat a)"

definition store32 :: "u32 \<Rightarrow> u32 \<Rightarrow> pc_machine \<Rightarrow> pc_machine" where
  "store32 a v p = p\<lparr>mem8 := put32 (mem8 p) (unat a) v\<rparr>"

definition store8 :: "u32 \<Rightarrow> u8 \<Rightarrow> pc_machine \<Rightarrow> pc_machine" where
  "store8 a v p = p\<lparr>mem8 := (mem8 p)(unat a := v)\<rparr>"

section \<open>Waiting for the drive, and the choice of a sector\<close>

text \<open>Both the boot loader and the driver of the abstract machine have these.\<close>

partial_function (option) wait_disk :: "pc_machine \<Rightarrow> pc_machine option" where
  "wait_disk p = (case pc_inb 0x1f7 p of (v, p') \<Rightarrow> if v AND 0xc0 = 0x40 then Some p' else wait_disk p')"

definition disk_request :: "u32 \<Rightarrow> u8 \<Rightarrow> pc_machine \<Rightarrow> pc_machine" where
  "disk_request sect cmd p =
     pc_outb 0x1f7 cmd (pc_outb 0x1f6 (ucast (drop_bit 24 sect) OR 0xe0) (pc_outb 0x1f5 (ucast (drop_bit 16 sect))
       (pc_outb 0x1f4 (ucast (drop_bit 8 sect)) (pc_outb 0x1f3 (ucast sect) (pc_outb 0x1f2 1 p)))))"

text \<open>The words of a sector, from and to the data port.\<close>

primrec read_words :: "nat \<Rightarrow> u32 \<Rightarrow> pc_machine \<Rightarrow> pc_machine" where
  "read_words 0 a p = p"
| "read_words (Suc n) a p = (case pc_inl 0x1f0 p of (w, p') \<Rightarrow> read_words n (a + 4) (store32 a w p'))"

primrec write_words :: "nat \<Rightarrow> u32 \<Rightarrow> pc_machine \<Rightarrow> pc_machine" where
  "write_words 0 a p = p"
| "write_words (Suc n) a p = write_words n (a + 4) (pc_outl 0x1f0 (load32 a p) p)"

end
