(* ===== verification/X86Ioe.thy ===== *)
theory X86Ioe
  imports X86Pc
begin

text \<open>
  The device registers of the abstract machine on x86-qemu, \<open>abstract-machine/am/src/x86/qemu/ioe.c\<close>: serial
  line, clock, keyboard and disk behind ports, and the interrupt controllers behind addresses; the graphics
  are in \<open>X86Gpu\<close>. Loops that wait for a device are \<open>None\<close> when it never answers.
\<close>

section \<open>Serial line\<close>

definition COM1 :: u16 where "COM1 = 0x3f8"

definition uart_init :: "pc_machine \<Rightarrow> pc_machine" where
  "uart_init p =
     snd (pc_inb (COM1 + 0) (snd (pc_inb (COM1 + 2)
       (pc_outb (COM1 + 1) 0x01 (pc_outb (COM1 + 4) 0 (pc_outb (COM1 + 3) 0x03 (pc_outb (COM1 + 1) 0
         (pc_outb (COM1 + 0) (word_of_int (115200 div 9600)) (pc_outb (COM1 + 3) 0x80 (pc_outb (COM1 + 2) 0 p))))))))))"

definition uart_tx :: "u8 \<Rightarrow> pc_machine \<Rightarrow> pc_machine" where
  "uart_tx send = pc_outb COM1 send"

definition uart_rx :: "pc_machine \<Rightarrow> u8 \<times> pc_machine" where
  "uart_rx p = (case pc_inb (COM1 + 5) p of (v, p') \<Rightarrow> if v AND 1 \<noteq> 0 then pc_inb COM1 p' else (-1, p'))"

section \<open>Clock\<close>

record timer_date =
  t_year :: int
  t_month :: int
  t_day :: int
  t_hour :: int
  t_minute :: int
  t_second :: int

definition read_rtc :: "u8 \<Rightarrow> pc_machine \<Rightarrow> int \<times> pc_machine" where
  "read_rtc reg p =
     (case pc_inb 0x71 (pc_outb 0x70 reg p) of (v, p') \<Rightarrow>
        (uint (v AND 0xf) + uint (drop_bit 4 v) * 10, p'))"

text \<open>The order in which an initialiser list is evaluated is left to the compiler; here it is the written one.\<close>

definition read_rtc_async :: "pc_machine \<Rightarrow> timer_date \<times> pc_machine" where
  "read_rtc_async p =
     (case read_rtc 0 p of (s, p) \<Rightarrow> case read_rtc 2 p of (mi, p) \<Rightarrow> case read_rtc 4 p of (h, p) \<Rightarrow>
      case read_rtc 7 p of (d, p) \<Rightarrow> case read_rtc 8 p of (mo, p) \<Rightarrow> case read_rtc 9 p of (y, p) \<Rightarrow>
        (\<lparr>t_year = y + 2000, t_month = mo, t_day = d, t_hour = h, t_minute = mi, t_second = s\<rparr>, p))"

partial_function (option) timer_rtc :: "pc_machine \<Rightarrow> (timer_date \<times> pc_machine) option" where
  "timer_rtc p =
     (case read_rtc_async p of (rtc, p) \<Rightarrow> case read_rtc 0 p of (tmp, p) \<Rightarrow>
        if tmp = t_second rtc then Some (rtc, p) else timer_rtc p)"

text \<open>The pause between the two readings takes time only.\<close>

partial_function (option) wait_sec :: "pc_machine \<Rightarrow> (timer_date \<times> pc_machine) option" where
  "wait_sec p =
     (case read_rtc_async p of (t0, p) \<Rightarrow> case read_rtc_async p of (t1, p) \<Rightarrow>
        if t_second t0 \<noteq> t_second t1 then Some (t1, p) else wait_sec p)"

definition minute_second :: "timer_date \<Rightarrow> u64" where
  "minute_second d = word_of_int (t_minute d * 60 + t_second d)"

partial_function (option) estimate_freq :: "pc_machine \<Rightarrow> (u32 \<times> pc_machine) option" where
  "estimate_freq p =
     Option.bind (wait_sec p) (\<lambda>(rtc1, p).
     case rdtsc p of (tsc1, p) \<Rightarrow>
     Option.bind (wait_sec p) (\<lambda>(rtc2, p).
     case rdtsc p of (tsc2, p) \<Rightarrow>
       if minute_second rtc1 \<ge> minute_second rtc2 then estimate_freq p
       else Some (ucast (drop_bit 20 (tsc2 - tsc1) div (minute_second rtc2 - minute_second rtc1)), p)))"

record timer_state =
  boot_date :: timer_date
  freq_mhz :: u32
  uptsc :: u64

definition timer_init :: "pc_machine \<Rightarrow> (timer_state \<times> pc_machine) option" where
  "timer_init p =
     Option.bind (estimate_freq p) (\<lambda>(freq, p).
     Option.bind (timer_rtc p) (\<lambda>(date, p).
     case rdtsc p of (c, p) \<Rightarrow> Some (\<lparr>boot_date = date, freq_mhz = freq, uptsc = c\<rparr>, p)))"

definition timer_uptime :: "timer_state \<Rightarrow> pc_machine \<Rightarrow> fault + u64 \<times> pc_machine" where
  "timer_uptime t p =
     (case rdtsc p of (c, p) \<Rightarrow>
        if freq_mhz t = 0 then Inl Div_Trap else Inr ((c - uptsc t) div ucast (freq_mhz t), p))"

section \<open>Keyboard\<close>

text \<open>The keys in the order of their numbers, from 1; the table by scan code, where a later entry replaces an earlier one.\<close>

definition AM_KEYS :: "string list" where
  "AM_KEYS =
    [''ESCAPE'', ''F1'', ''F2'', ''F3'', ''F4'', ''F5'', ''F6'', ''F7'', ''F8'', ''F9'', ''F10'', ''F11'',
     ''F12'', ''GRAVE'', ''1'', ''2'', ''3'', ''4'', ''5'', ''6'', ''7'', ''8'', ''9'', ''0'',
     ''MINUS'', ''EQUALS'', ''BACKSPACE'', ''TAB'', ''Q'', ''W'', ''E'', ''R'', ''T'', ''Y'', ''U'', ''I'',
     ''O'', ''P'', ''LEFTBRACKET'', ''RIGHTBRACKET'', ''BACKSLASH'', ''CAPSLOCK'', ''A'', ''S'', ''D'', ''F'', ''G'', ''H'',
     ''J'', ''K'', ''L'', ''SEMICOLON'', ''APOSTROPHE'', ''RETURN'', ''LSHIFT'', ''Z'', ''X'', ''C'', ''V'', ''B'',
     ''N'', ''M'', ''COMMA'', ''PERIOD'', ''SLASH'', ''RSHIFT'', ''LCTRL'', ''APPLICATION'', ''LALT'', ''SPACE'', ''RALT'', ''RCTRL'',
     ''UP'', ''DOWN'', ''LEFT'', ''RIGHT'', ''INSERT'', ''DELETE'', ''HOME'', ''END'', ''PAGEUP'', ''PAGEDOWN'']"

definition AM_KEY :: "string \<Rightarrow> nat" where
  "AM_KEY k = Suc (length (takeWhile (\<lambda>x. x \<noteq> k) AM_KEYS))"

definition AM_KEY_NONE :: nat where "AM_KEY_NONE = 0"

definition keylut :: "(nat \<times> string) list" where
  "keylut =
    [(0x01, ''ESCAPE''), (0x02, ''1''), (0x03, ''2''), (0x04, ''3''), (0x05, ''4''), (0x06, ''5''), (0x07, ''6''),
     (0x08, ''7''), (0x09, ''8''), (0x0a, ''9''), (0x0b, ''0''), (0x0c, ''MINUS''), (0x0d, ''EQUALS''), (0x0e, ''BACKSPACE''),
     (0x0f, ''TAB''), (0x10, ''Q''), (0x11, ''W''), (0x12, ''E''), (0x13, ''R''), (0x14, ''T''), (0x15, ''Y''),
     (0x16, ''U''), (0x17, ''I''), (0x18, ''O''), (0x19, ''P''), (0x1a, ''LEFTBRACKET''), (0x1b, ''RIGHTBRACKET''), (0x1c, ''RETURN''),
     (0x1d, ''LCTRL''), (0x1e, ''A''), (0x1f, ''S''), (0x20, ''D''), (0x21, ''F''), (0x22, ''G''), (0x23, ''H''),
     (0x24, ''J''), (0x25, ''K''), (0x26, ''L''), (0x27, ''SEMICOLON''), (0x28, ''APOSTROPHE''), (0x29, ''GRAVE''), (0x2a, ''LSHIFT''),
     (0x2b, ''BACKSLASH''), (0x2c, ''Z''), (0x2d, ''X''), (0x2e, ''C''), (0x2f, ''V''), (0x30, ''B''), (0x31, ''N''),
     (0x32, ''M''), (0x33, ''COMMA''), (0x34, ''PERIOD''), (0x35, ''SLASH''), (0x36, ''RSHIFT''), (0x38, ''LALT''), (0x38, ''RALT''),
     (0x39, ''SPACE''), (0x3a, ''CAPSLOCK''), (0x3b, ''F1''), (0x3c, ''F2''), (0x3d, ''F3''), (0x3e, ''F4''), (0x3f, ''F5''),
     (0x40, ''F6''), (0x41, ''F7''), (0x42, ''F8''), (0x43, ''F9''), (0x44, ''F10''), (0x48, ''INSERT''), (0x4b, ''HOME''),
     (0x4d, ''END''), (0x50, ''DELETE''), (0x57, ''F11''), (0x58, ''F12''), (0x5b, ''APPLICATION'')]"

definition key_of_code :: "nat \<Rightarrow> nat" where
  "key_of_code code = (case map_of (rev keylut) code of None \<Rightarrow> 0 | Some k \<Rightarrow> AM_KEY k)"

definition input_keybrd :: "pc_machine \<Rightarrow> (bool \<times> nat) \<times> pc_machine" where
  "input_keybrd p =
     (case pc_inb 0x64 p of (st, p) \<Rightarrow>
        if st AND 1 \<noteq> 0 then (case pc_inb 0x60 p of (code, p) \<Rightarrow> ((code < 128, key_of_code (unat (code AND 0x7f))), p))
        else ((False, AM_KEY_NONE), p))"

section \<open>Disk\<close>

definition BLKSZ :: int where "BLKSZ = 512"
definition DISKSZ :: int where "DISKSZ = 64 * 2 ^ 20"

record disk_config =
  dk_present :: bool
  dk_blksz :: int
  dk_blkcnt :: int

definition am_disk_config :: disk_config where
  "am_disk_config = \<lparr>dk_present = True, dk_blksz = BLKSZ, dk_blkcnt = DISKSZ div BLKSZ\<rparr>"

definition disk_block :: "bool \<Rightarrow> u32 \<Rightarrow> u32 \<Rightarrow> pc_machine \<Rightarrow> pc_machine option" where
  "disk_block wr ptr blkno p =
     Option.bind (wait_disk p) (\<lambda>p.
     Option.bind (wait_disk (disk_request blkno (if wr then 0x30 else 0x20) p)) (\<lambda>p.
     Some (if wr then write_words (nat (BLKSZ div 4)) ptr p else read_words (nat (BLKSZ div 4)) ptr p)))"

primrec disk_blocks :: "bool \<Rightarrow> nat \<Rightarrow> u32 \<Rightarrow> u32 \<Rightarrow> pc_machine \<Rightarrow> pc_machine option" where
  "disk_blocks wr 0 ptr blkno p = Some p"
| "disk_blocks wr (Suc remain) ptr blkno p =
     Option.bind (disk_block wr ptr blkno p) (disk_blocks wr remain (ptr + 512) (blkno + 1))"

definition disk_blkio :: "bool \<Rightarrow> u32 \<Rightarrow> u32 \<Rightarrow> u32 \<Rightarrow> pc_machine \<Rightarrow> pc_machine option" where
  "disk_blkio wr buf blkno blkcnt p = disk_blocks wr (unat blkcnt) buf blkno p"

end
