(* ===== verification/X86Boot.thy ===== *)
theory X86Boot
  imports X86Pc "HOL-Library.Signed_Division"
begin

text \<open>
  The boot loader of the x86-qemu build, \<open>abstract-machine/am/src/x86/qemu/boot/main.c\<close>: it reads the
  program's arguments and the kernel, an ELF file, from the disk and jumps to its entry. Addresses are 32-bit
  words, as in the machine that runs it; the layout of ELF files is that of \<open>elf.h\<close>. A loop that may wrap
  around and go on is \<open>None\<close>.
\<close>

definition SECTSIZE :: int where "SECTSIZE = 512"
definition ARGSIZE :: int where "ARGSIZE = 1024"
definition BOOTREC_ADDR :: u32 where "BOOTREC_ADDR = 0x07000"
definition MAINARG_ADDR :: u32 where "MAINARG_ADDR = 0x10000"

definition read_disk :: "u32 \<Rightarrow> u32 \<Rightarrow> pc_machine \<Rightarrow> pc_machine option" where
  "read_disk buf sect p =
     Option.bind (wait_disk p) (\<lambda>p.
     Option.bind (wait_disk (disk_request sect 0x20 p)) (\<lambda>p.
     Some (read_words (nat (SECTSIZE div 4)) buf p)))"

partial_function (option) copy_sectors :: "u32 \<Rightarrow> u32 \<Rightarrow> u32 \<Rightarrow> pc_machine \<Rightarrow> pc_machine option" where
  "copy_sectors cur ed sect p =
     (if cur < ed
      then Option.bind (read_disk cur sect p) (copy_sectors (cur + word_of_int SECTSIZE) ed (sect + 1))
      else Some p)"

definition copy_from_disk :: "u32 \<Rightarrow> int \<Rightarrow> int \<Rightarrow> pc_machine \<Rightarrow> pc_machine option" where
  "copy_from_disk buf nbytes disk_offset p =
     copy_sectors (buf AND NOT (word_of_int (SECTSIZE - 1))) (buf + word_of_int nbytes)
       (word_of_int ((disk_offset sdiv SECTSIZE) + (ARGSIZE sdiv SECTSIZE) + 1)) p"

function zero_bss :: "u32 \<Rightarrow> u32 \<Rightarrow> u32 \<Rightarrow> pc_machine \<Rightarrow> pc_machine" where
  "zero_bss i memsz bss p = (if i = memsz then p else zero_bss (i + 1) memsz (bss + 1) (store8 bss 0 p))"
  by auto
termination
proof (relation "measure (\<lambda>(i, memsz, _). unat (memsz - i))")
  fix i memsz :: u32 and bss p assume "i \<noteq> memsz"
  then have "memsz - i \<noteq> 0" by simp
  then have "unat (memsz - i - 1) < unat (memsz - i)" by (metis unat_minus_one diff_less unat_gt_0 word_gt_0 zero_less_one)
  then show "((i + 1, memsz, bss + 1, store8 bss 0 p), i, memsz, bss, p) \<in> measure (\<lambda>(i, memsz, _). unat (memsz - i))"
    by (simp add: algebra_simps)
qed simp

declare zero_bss.simps [simp del]

definition load_program :: "u32 \<Rightarrow> u32 \<Rightarrow> u32 \<Rightarrow> u32 \<Rightarrow> pc_machine \<Rightarrow> pc_machine option" where
  "load_program filesz memsz paddr offset p =
     Option.bind (copy_from_disk paddr (sint filesz) (sint offset) p) (\<lambda>p.
     Some (zero_bss filesz memsz (paddr + filesz) p))"

section \<open>ELF files\<close>

text \<open>The fields the loader reads of the two formats: where they are, and the size of a program header.\<close>

record elf_layout =
  o_phoff :: u32
  o_phnum :: u32
  phdr_size :: u32
  o_offset :: u32
  o_paddr :: u32
  o_filesz :: u32
  o_memsz :: u32

definition elf32_layout :: elf_layout where
  "elf32_layout = \<lparr>o_phoff = 28, o_phnum = 44, phdr_size = 32, o_offset = 4, o_paddr = 12, o_filesz = 16, o_memsz = 20\<rparr>"

definition elf64_layout :: elf_layout where
  "elf64_layout = \<lparr>o_phoff = 32, o_phnum = 56, phdr_size = 56, o_offset = 8, o_paddr = 24, o_filesz = 32, o_memsz = 40\<rparr>"

text \<open>The number of headers and the header are read from memory in every turn. Of 64-bit fields the low half counts.\<close>

partial_function (option) load_phdrs :: "elf_layout \<Rightarrow> u32 \<Rightarrow> nat \<Rightarrow> u32 \<Rightarrow> pc_machine \<Rightarrow> pc_machine option" where
  "load_phdrs l elf i ph p =
     (if i < unat (load16 (elf + o_phnum l) p)
      then Option.bind
        (load_program (load32 (ph + o_filesz l) p) (load32 (ph + o_memsz l) p) (load32 (ph + o_paddr l) p)
          (load32 (ph + o_offset l) p) p)
        (load_phdrs l elf (Suc i) (ph + phdr_size l))
      else Some p)"

definition load_elf :: "elf_layout \<Rightarrow> u32 \<Rightarrow> pc_machine \<Rightarrow> pc_machine option" where
  "load_elf l elf p = load_phdrs l elf 0 (elf + load32 (elf + o_phoff l) p) p"

definition EM_X86_64 :: u32 where "EM_X86_64 = 62"
definition ELF_ADDR :: u32 where "ELF_ADDR = 0x8000"

text \<open>The address jumped to, and the machine then. The entry is at the same place in both formats.\<close>

definition load_kernel :: "pc_machine \<Rightarrow> (u32 \<times> pc_machine) option" where
  "load_kernel p =
     Option.bind
       (if load32 (BOOTREC_ADDR + 4) p = 0
        then Option.bind (copy_from_disk MAINARG_ADDR 1024 (-1024) p) (\<lambda>p.
             Option.bind (copy_from_disk ELF_ADDR 4096 0 p) (\<lambda>p.
             load_elf (if load16 (ELF_ADDR + 18) p = EM_X86_64 then elf64_layout else elf32_layout) ELF_ADDR p))
        else Some p)
       (\<lambda>p. Some (load32 (ELF_ADDR + 24) p, p))"

end
