(* ===== verification/X86BootProps.thy ===== *)
theory X86BootProps
  imports X86Boot
begin

text \<open>
  What the boot loader does to memory: a sector copied is a range of bytes copied, a segment is placed, and the
  kernel is the segments of its file.
\<close>

section \<open>Copies of bytes\<close>

definition copied :: "bytes \<Rightarrow> nat \<Rightarrow> nat \<Rightarrow> nat \<Rightarrow> bytes \<Rightarrow> bytes" where
  "copied src pos a n m = (\<lambda>b. if a \<le> b \<and> b < a + n then src (pos + (b - a)) else m b)"

lemma copied_0 [simp]: "copied src pos a 0 m = m"
  by (rule ext) (auto simp: copied_def)

lemma copied_append: "copied src (pos + k) (a + k) n (copied src pos a k m) = copied src pos a (k + n) m"
  by (auto simp: copied_def fun_eq_iff intro!: arg_cong [where f = src])

lemma byte_get32:
  "byte_at 0 (get32 m a) = m a" "byte_at 1 (get32 m a) = m (a + 1)"
  "byte_at 2 (get32 m a) = m (a + 2)" "byte_at 3 (get32 m a) = m (a + 3)"
  by (auto simp: bit_eq_iff bit_byte_at get32_def bit_simps dest: bit_imp_le_length)

lemma put32_get32: "put32 m a (get32 src pos) = copied src pos a 4 m"
proof
  fix b
  consider "b = a" | "b = a + 1" | "b = a + 2" | "b = a + 3" | "b \<notin> {a ..< a + 4}" by fastforce
  then show "put32 m a (get32 src pos) b = copied src pos a 4 m b"
    by cases (auto simp: put32_def byte_get32 byte_get32(2) [simplified] copied_def)
qed

section \<open>The drive\<close>

text \<open>\<open>p'\<close> differs from \<open>p\<close> in memory, in the drive's registers and in time.\<close>

definition disk_moves :: "pc_machine \<Rightarrow> bytes \<Rightarrow> pc_machine \<Rightarrow> bool" where
  "disk_moves p m p' \<longleftrightarrow> (\<exists>d k. p' = p\<lparr>mem8 := m, drive := d, now := k\<rparr> \<and> sectors d = sectors (drive p))"

lemma disk_movesD: "disk_moves p m p' \<Longrightarrow> mem8 p' = m \<and> sectors (drive p') = sectors (drive p)"
  by (auto simp: disk_moves_def)

lemma disk_moves_trans: "disk_moves p m p' \<Longrightarrow> disk_moves p' m' p'' \<Longrightarrow> disk_moves p m' p''"
  unfolding disk_moves_def by fastforce

lemma wait_disk_returns: "\<exists>k. wait_disk p = Some (p\<lparr>drive := (drive p)\<lparr>a_busy := 0\<rparr>, now := k\<rparr>)"
proof (induction "a_busy (drive p)" arbitrary: p)
  case 0
  let ?p = "p\<lparr>drive := (drive p)\<lparr>a_busy := 0\<rparr>, now := Suc (now p)\<rparr>"
  have "(drive p)\<lparr>a_busy := 0\<rparr> = drive p" using 0 by (cases "drive p") simp
  then have "pc_inb 0x1f7 p = (if a_xfer (drive p) = No_transfer then 0x50 else 0x58, ?p)"
    using 0 by (simp add: pc_inb_def ata_status_def next_moment_def Let_def)
  then have "wait_disk p = Some ?p" by (subst wait_disk.simps) simp
  then show ?case by blast
next
  case (Suc n)
  let ?p = "p\<lparr>drive := (drive p)\<lparr>a_busy := n\<rparr>, now := Suc (now p)\<rparr>"
  have "pc_inb 0x1f7 p = (0x80, ?p)"
    using Suc.hyps(2) [symmetric] by (simp add: pc_inb_def ata_status_def next_moment_def Let_def)
  then have "wait_disk p = wait_disk ?p" by (subst wait_disk.simps) simp
  then show ?case using Suc.hyps(1) [of ?p] by simp
qed

lemma unat_drop_word: "unat (drop_bit k (s :: u32)) = unat s div 2 ^ k"
  unfolding unat_drop_bit_eq by (rule drop_bit_eq_div)

lemma bytes_sum:
  "n mod 256 + 256 * (n div 256 mod 256) + 65536 * (n div 65536 mod 256) + 16777216 * (n div 16777216) = (n :: nat)"
proof -
  define a b c where "a = n div 256" and "b = a div 256" and "c = b div 256"
  have q: "n div 65536 = b" "n div 16777216 = c" by (simp_all add: a_def b_def c_def div_mult2_eq [symmetric])
  have "n = 256 * a + n mod 256" "a = 256 * b + a mod 256" "b = 256 * c + b mod 256" by (simp_all add: a_def b_def c_def)
  then show ?thesis unfolding q a_def [symmetric] by linarith
qed

lemma sector_bytes:
  fixes s :: u32 assumes "unat s < 2 ^ 28"
  shows "unat (ucast s :: u8) + 2 ^ 8 * unat (ucast (drop_bit 8 s) :: u8) + 2 ^ 16 * unat (ucast (drop_bit 16 s) :: u8) +
     2 ^ 24 * unat ((ucast (drop_bit 24 s) OR 0xe0 :: u8) AND 0xf) = unat s" (is ?sum)
    and "(ucast (drop_bit 24 s) OR 0xe0 :: u8) AND 0x50 = 0x40"
proof -
  define h :: u8 where "h = ucast (drop_bit 24 s)"
  have n: "unat s < 2 ^ 28" by (rule assms)
  have u: "unat (ucast (drop_bit k s) :: u8) = unat s div 2 ^ k mod 256" for k
    by (simp add: unsigned_ucast_eq unat_drop_word take_bit_eq_mod)
  have uh: "unat h = unat s div 2 ^ 24" using n u [of 24] by (simp add: h_def)
  have hb: "\<not> bit h k" if "4 \<le> k" for k
  proof -
    have "unat h < 2 ^ 4" using uh n by simp
    then have "unat h div 2 ^ k = 0"
      using that power_increasing [of 4 k "2 :: nat"] by (intro div_less) linarith
    then have "\<not> bit (unat h) k" by (simp add: bit_iff_odd)
    then show ?thesis by (simp add: bit_unsigned_iff)
  qed
  have hm: "h AND 0xf = h"
  proof -
    have m: "(0xf :: u8) = mask 4" by (simp add: mask_eq_exp_minus_1)
    show ?thesis unfolding m by (rule bit_word_eqI) (use hb in \<open>auto simp: bit_simps\<close>, meson linorder_not_less)
  qed
  have "h AND 0x50 = h AND (0xf AND 0x50)" by (metis hm and.assoc)
  then show "(ucast (drop_bit 24 s) OR 0xe0 :: u8) AND 0x50 = 0x40"
    by (simp add: h_def [symmetric] bit.conj_disj_distrib2)
  have "(h OR 0xe0) AND 0xf = h" by (simp add: hm bit.conj_disj_distrib2)
  then have d: "unat ((ucast (drop_bit 24 s) OR 0xe0 :: u8) AND 0xf) = unat s div 2 ^ 24" using uh by (simp add: h_def)
  have z: "unat (ucast s :: u8) = unat s mod 256" using u [of 0] by simp
  show ?sum unfolding d z u using bytes_sum [of "unat s"] by simp
qed

text \<open>The state after a request: the drive has the command, and is busy with it for a while.\<close>

lemma disk_request_state:
  assumes "unat sect < 2 ^ 28" "a_busy (drive p) = 0" "cmd = 0x20 \<or> cmd = 0x30"
  shows "\<exists>d k. disk_request sect cmd p = p\<lparr>drive := d, now := k\<rparr> \<and> sectors d = sectors (drive p) \<and>
     a_xfer d = (if cmd = 0x20 then Reading else Writing) (512 * unat sect) 128"
proof -
  define d0 where "d0 = (drive p)\<lparr>a_count := 1, a_lba0 := ucast sect, a_lba1 := ucast (drop_bit 8 sect),
     a_lba2 := ucast (drop_bit 16 sect), a_dev := ucast (drop_bit 24 sect) OR 0xe0\<rparr>"
  have l: "ata_lba d0 = unat sect" using sector_bytes(1) [OF assms(1)] by (simp add: ata_lba_def d0_def)
  have "disk_request sect cmd p = p\<lparr>drive := ata_command cmd d0, now := now p + 6\<rparr>"
    using assms(2) by (simp add: disk_request_def pc_outb_def ata_outb_def next_moment_def Let_def d0_def)
  moreover have "sectors (ata_command cmd d0) = sectors (drive p)" by (simp add: ata_command_def Let_def d0_def)
  moreover have "a_dev d0 AND 0x50 = 0x40" "a_count d0 = 1" using sector_bytes(2) [OF assms(1)] by (simp_all add: d0_def)
  then have "a_xfer (ata_command cmd d0) = (if cmd = 0x20 then Reading else Writing) (512 * unat sect) 128"
    using assms(3) by (auto simp: ata_command_def Let_def l)
  ultimately show ?thesis by blast
qed

lemma read_words_copies:
  "a_xfer (drive p) = Reading pos n \<Longrightarrow> a_busy (drive p) = 0 \<Longrightarrow> unat a + 4 * n \<le> 2 ^ 32 \<Longrightarrow>
   disk_moves p (copied (sectors (drive p)) pos (unat a) (4 * n) (mem8 p)) (read_words n a p)"
proof (induction n arbitrary: p a pos)
  case 0
  show ?case by (auto simp: disk_moves_def intro!: exI [of _ "drive p"] exI [of _ "now p"])
next
  case (Suc n)
  let ?d = "(drive p)\<lparr>a_xfer := (if n = 0 then No_transfer else Reading (pos + 4) n)\<rparr>"
  let ?q = "p\<lparr>mem8 := copied (sectors (drive p)) pos (unat a) 4 (mem8 p), drive := ?d, now := Suc (now p)\<rparr>"
  have i: "pc_inl 0x1f0 p = (get32 (sectors (drive p)) pos, p\<lparr>drive := ?d, now := Suc (now p)\<rparr>)"
    using Suc.prems(1,2) by (simp add: pc_inl_def ata_inl_def next_moment_def Let_def)
  have "store32 a (get32 (sectors (drive p)) pos) (p\<lparr>drive := ?d, now := Suc (now p)\<rparr>) = ?q"
    by (rule pc_machine.equality) (simp_all add: store32_def put32_get32)
  then have s: "read_words (Suc n) a p = read_words n (a + 4) ?q" by (simp add: i)
  have q: "disk_moves p (mem8 ?q) ?q" by (auto simp: disk_moves_def intro!: exI [of _ ?d])
  show ?case
  proof (cases "n = 0")
    case True
    then show ?thesis unfolding s using q by simp
  next
    case False
    then have a: "unat (a + 4) = unat a + 4"
      using Suc.prems(3) by (subst unat_add_lem [THEN iffD1]) simp_all
    have "disk_moves ?q (copied (sectors (drive p)) (pos + 4) (unat a + 4) (4 * n) (mem8 ?q)) (read_words n (a + 4) ?q)"
      using Suc.IH [of ?q "pos + 4" "a + 4"] Suc.prems(2,3) False by (simp add: a)
    then show ?thesis unfolding s using disk_moves_trans [OF q] by (simp add: copied_append)
  qed
qed

lemma read_disk_copies:
  assumes "unat sect < 2 ^ 28" "unat buf + 512 \<le> 2 ^ 32"
  shows "\<exists>p'. read_disk buf sect p = Some p' \<and>
     disk_moves p (copied (sectors (drive p)) (512 * unat sect) (unat buf) 512 (mem8 p)) p'"
proof -
  obtain k where w1: "wait_disk p = Some (p\<lparr>drive := (drive p)\<lparr>a_busy := 0\<rparr>, now := k\<rparr>)" using wait_disk_returns by blast
  let ?p1 = "p\<lparr>drive := (drive p)\<lparr>a_busy := 0\<rparr>, now := k\<rparr>"
  obtain d k2 where r: "disk_request sect 0x20 ?p1 = ?p1\<lparr>drive := d, now := k2\<rparr>" "sectors d = sectors (drive p)"
      "a_xfer d = Reading (512 * unat sect) 128"
    using disk_request_state [OF assms(1), of ?p1 "0x20"] by auto
  obtain k3 where w2: "wait_disk (p\<lparr>drive := d, now := k2\<rparr>) = Some (p\<lparr>drive := d\<lparr>a_busy := 0\<rparr>, now := k3\<rparr>)"
    using wait_disk_returns [of "p\<lparr>drive := d, now := k2\<rparr>"] by auto
  let ?p3 = "p\<lparr>drive := d\<lparr>a_busy := 0\<rparr>, now := k3\<rparr>"
  have "read_disk buf sect p = Some (read_words 128 buf ?p3)"
    by (simp add: read_disk_def w1 r w2 SECTSIZE_def)
  moreover have "disk_moves ?p3 (copied (sectors (drive p)) (512 * unat sect) (unat buf) 512 (mem8 p)) (read_words 128 buf ?p3)"
    using read_words_copies [of ?p3 "512 * unat sect" 128 buf] assms(2) r by simp
  then have "disk_moves p (copied (sectors (drive p)) (512 * unat sect) (unat buf) 512 (mem8 p)) (read_words 128 buf ?p3)"
    using r(2) by (auto simp: disk_moves_def)
  ultimately show ?thesis by blast
qed

section \<open>Ranges of sectors\<close>

lemma copy_sectors_copies:
  "unat cur + 512 * k < 2 ^ 32 \<Longrightarrow> k = (unat ed - unat cur + 511) div 512 \<Longrightarrow> unat sect + k \<le> 2 ^ 28 \<Longrightarrow>
   \<exists>p'. copy_sectors cur ed sect p = Some p' \<and>
     disk_moves p (copied (sectors (drive p)) (512 * unat sect) (unat cur) (512 * k) (mem8 p)) p'"
proof (induction k arbitrary: cur sect p)
  case 0
  then have "\<not> cur < ed" by (simp add: word_less_nat_alt)
  then have "copy_sectors cur ed sect p = Some p" by (subst copy_sectors.simps) simp
  then show ?case by (auto simp: disk_moves_def intro!: exI [of _ "drive p"] exI [of _ "now p"])
next
  case (Suc k)
  have lt: "cur < ed" using Suc.prems(2) by (cases "cur < ed") (simp_all add: word_less_nat_alt not_less)
  have cur: "unat (cur + 512) = unat cur + 512"
    using Suc.prems(1) by (subst unat_add_lem [THEN iffD1]) simp_all
  have sect: "unat (sect + 1) = unat sect + 1"
    using Suc.prems(3) by (subst unat_add_lem [THEN iffD1]) simp_all
  obtain p1 where p1: "read_disk cur sect p = Some p1"
    "disk_moves p (copied (sectors (drive p)) (512 * unat sect) (unat cur) 512 (mem8 p)) p1"
    using read_disk_copies [of sect cur p] Suc.prems(1,3) by auto
  have k: "k = (unat ed - unat (cur + 512) + 511) div 512"
  proof (cases "unat cur + 512 \<le> unat ed")
    case True
    then obtain x where "unat ed = unat cur + 512 + x" using le_Suc_ex by blast
    then show ?thesis using Suc.prems(2) by (simp add: cur)
  next
    case False
    then have "(unat ed - unat cur + 511) div 512 < 2" by (intro less_mult_imp_div_less) linarith
    then show ?thesis using Suc.prems(2) False by (simp add: cur)
  qed
  obtain p2 where p2: "copy_sectors (cur + 512) ed (sect + 1) p1 = Some p2"
    "disk_moves p1 (copied (sectors (drive p1)) (512 * unat (sect + 1)) (unat (cur + 512)) (512 * k) (mem8 p1)) p2"
    using Suc.IH [OF _ k, of "sect + 1" p1] Suc.prems(1,3) by (auto simp: cur sect)
  have "copy_sectors cur ed sect p = Some p2"
    using lt p1(1) p2(1) by (subst copy_sectors.simps) (simp add: SECTSIZE_def)
  moreover have "disk_moves p (copied (sectors (drive p)) (512 * unat sect) (unat cur) (512 * Suc k) (mem8 p)) p2"
    using disk_moves_trans [OF p1(2) p2(2)] disk_movesD [OF p1(2)]
    by (simp add: cur sect copied_append add.commute [of 512 "unat cur"]
        copied_append [of _ "512 * unat sect" 512 "unat cur" "512 * k", simplified add.commute [of "512 * unat sect"]])
  ultimately show ?case by blast
qed

lemma align_down: "unat (w AND NOT 511 :: u32) = 512 * (unat w div 512)"
proof -
  have m: "(511 :: u32) = mask 9" by (simp add: mask_eq_exp_minus_1)
  have t: "unat (w AND mask 9) = unat w mod 512" by (simp add: take_bit_eq_mask [symmetric] take_bit_eq_mod unat_mod)
  have "w AND NOT (mask 9) = push_bit 9 (drop_bit 9 w)" by (rule bit_word_eqI) (auto simp: bit_simps)
  then have "(w AND NOT (mask 9)) + (w AND mask 9) = w" by (simp add: take_bit_eq_mask [symmetric] bits_ident)
  then have e: "w AND NOT (mask 9) = w - (w AND mask 9)" by (simp add: algebra_simps)
  have "w AND mask 9 \<le> w" using t by (simp add: word_le_nat_alt)
  then have "unat (w AND NOT (mask 9)) = unat w - unat w mod 512" unfolding e using unat_sub t by metis
  then show ?thesis unfolding m by (simp add: minus_mod_eq_mult_div)
qed

definition sector_count :: "nat \<Rightarrow> nat \<Rightarrow> nat" where
  "sector_count a n = (a mod 512 + n + 511) div 512"

lemma copy_from_disk_copies:
  assumes "disk_offset sdiv 512 + 3 = int q" "word_of_int nbytes = (of_nat n :: u32)"
    and "unat buf + n + 512 \<le> 2 ^ 32" "q + sector_count (unat buf) n \<le> 2 ^ 28"
  shows "\<exists>p'. copy_from_disk buf nbytes disk_offset p = Some p' \<and>
     disk_moves p (copied (sectors (drive p)) (512 * q) (512 * (unat buf div 512)) (512 * sector_count (unat buf) n) (mem8 p)) p'"
proof -
  let ?k = "sector_count (unat buf) n"
  have m: "unat buf = 512 * (unat buf div 512) + unat buf mod 512" by simp
  have cur: "unat (buf AND NOT 511) = 512 * (unat buf div 512)" by (rule align_down)
  have n: "unat (of_nat n :: u32) = n" using assms(3) by (simp add: unat_of_nat)
  have ed: "unat (buf + of_nat n) = unat buf + n" using assms(3) n by (subst unat_add_lem [THEN iffD1]) simp_all
  have q: "unat (of_nat q :: u32) = q" using assms(4) by (simp add: unat_of_nat)
  have k: "512 * ?k \<le> unat buf mod 512 + n + 511" by (simp add: sector_count_def)
  have "\<exists>p'. copy_sectors (buf AND NOT 511) (buf + of_nat n) (of_nat q) p = Some p' \<and>
     disk_moves p (copied (sectors (drive p)) (512 * unat (of_nat q :: u32)) (unat (buf AND NOT 511)) (512 * ?k) (mem8 p)) p'"
  proof (rule copy_sectors_copies)
    show "unat (buf AND NOT 511) + 512 * ?k < 2 ^ 32" unfolding cur using k m assms(3) by linarith
    have "unat buf + n - 512 * (unat buf div 512) = unat buf mod 512 + n" using m by linarith
    then show "?k = (unat (buf + of_nat n) - unat (buf AND NOT 511) + 511) div 512"
      unfolding cur ed by (simp add: sector_count_def)
    show "unat (of_nat q :: u32) + ?k \<le> 2 ^ 28" unfolding q by (rule assms(4))
  qed
  moreover have "(word_of_int (disk_offset sdiv SECTSIZE + ARGSIZE sdiv SECTSIZE + 1) :: u32) = of_nat q"
  proof -
    have "disk_offset sdiv SECTSIZE + ARGSIZE sdiv SECTSIZE + 1 = int q"
      using assms(1) by (simp add: SECTSIZE_def ARGSIZE_def signed_divide_int_def)
    then show ?thesis by simp
  qed
  ultimately show ?thesis using assms(2) by (simp add: copy_from_disk_def SECTSIZE_def q cur [simplified])
qed

section \<open>Segments\<close>

record segment =
  sg_offset :: nat
  sg_paddr :: nat
  sg_filesz :: nat
  sg_memsz :: nat

definition seg_ok :: "segment \<Rightarrow> bool" where
  "seg_ok s \<longleftrightarrow> sg_filesz s \<le> sg_memsz s \<and> sg_paddr s + sg_memsz s + 512 \<le> 2 ^ 32 \<and> sg_offset s + sg_filesz s < 2 ^ 31"

text \<open>The sectors its file part is read into, and all it writes.\<close>

definition sg_lo :: "segment \<Rightarrow> nat" where "sg_lo s = 512 * (sg_paddr s div 512)"

definition sg_span :: "segment \<Rightarrow> nat" where "sg_span s = 512 * sector_count (sg_paddr s) (sg_filesz s)"

definition footprint :: "segment \<Rightarrow> nat set" where
  "footprint s = {sg_lo s ..< sg_lo s + sg_span s} \<union> {sg_paddr s ..< sg_paddr s + sg_memsz s}"

text \<open>Memory after a segment of the file \<open>f\<close> is loaded.\<close>

definition place :: "bytes \<Rightarrow> segment \<Rightarrow> bytes \<Rightarrow> bytes" where
  "place f s m = (\<lambda>a. if sg_paddr s + sg_filesz s \<le> a \<and> a < sg_paddr s + sg_memsz s then 0
     else copied f (512 * (sg_offset s div 512)) (sg_lo s) (sg_span s) m a)"

lemma place_outside: "a \<notin> footprint s \<Longrightarrow> place f s m a = m a"
  by (auto simp: place_def footprint_def copied_def)

lemma fold_place_outside: "(\<And>s. s \<in> set ss \<Longrightarrow> a \<notin> footprint s) \<Longrightarrow> fold (place f) ss m a = m a"
  by (induction ss arbitrary: m) (auto simp: place_outside)

text \<open>A segment whose address and offset agree within a sector, as ELF demands, is where it should be.\<close>

lemma place_inside:
  assumes "sg_paddr s mod 512 = sg_offset s mod 512"
  shows "k < sg_filesz s \<Longrightarrow> place f s m (sg_paddr s + k) = f (sg_offset s + k)"
    and "sg_filesz s \<le> k \<Longrightarrow> k < sg_memsz s \<Longrightarrow> place f s m (sg_paddr s + k) = 0"
proof -
  assume k: "k < sg_filesz s"
  have p: "sg_paddr s = sg_lo s + sg_paddr s mod 512" by (simp add: sg_lo_def)
  have o: "sg_offset s = 512 * (sg_offset s div 512) + sg_offset s mod 512" by simp
  have "sg_paddr s mod 512 + sg_filesz s \<le> sg_span s" unfolding sg_span_def sector_count_def by linarith
  then have "sg_paddr s + k < sg_lo s + sg_span s" using k p by linarith
  moreover have "512 * (sg_offset s div 512) + (sg_paddr s + k - sg_lo s) = sg_offset s + k" using p o assms by linarith
  ultimately show "place f s m (sg_paddr s + k) = f (sg_offset s + k)" using k p by (simp add: place_def copied_def)
qed (simp add: place_def)

lemma zero_bss_clears:
  "unat (memsz - i) = n \<Longrightarrow> unat bss + n \<le> 2 ^ 32 \<Longrightarrow>
   disk_moves p (\<lambda>a. if unat bss \<le> a \<and> a < unat bss + n then 0 else mem8 p a) (zero_bss i memsz bss p)"
proof (induction n arbitrary: i bss p)
  case 0
  then have "i = memsz" by (simp add: unat_eq_0)
  moreover have "(\<lambda>a. if unat bss \<le> a \<and> a < unat bss + 0 then 0 else mem8 p a) = mem8 p" by (intro ext) auto
  ultimately show ?case by (subst zero_bss.simps) (auto simp: disk_moves_def intro!: exI [of _ "drive p"] exI [of _ "now p"])
next
  case (Suc n)
  have ne: "i \<noteq> memsz" using Suc.prems(1) by auto
  have "unat (memsz - i - 1) = n" using Suc.prems(1) by (metis unat_minus_one diff_Suc_1 unat_0 nat.distinct(1))
  then have n: "unat (memsz - (i + 1)) = n" by (simp add: algebra_simps)
  let ?q = "store8 bss 0 p"
  have q: "disk_moves p (mem8 ?q) ?q" by (auto simp: store8_def disk_moves_def intro!: exI [of _ "drive p"] exI [of _ "now p"])
  show ?case
  proof (cases "n = 0")
    case True
    then have "i + 1 = memsz" using n by (simp add: unat_eq_0)
    then have "zero_bss i memsz bss p = ?q" using ne by (subst zero_bss.simps) (simp, subst zero_bss.simps, simp)
    moreover have "mem8 ?q = (\<lambda>a. if unat bss \<le> a \<and> a < unat bss + Suc n then 0 else mem8 p a)"
      using True by (auto simp: store8_def fun_eq_iff)
    ultimately show ?thesis using q by simp
  next
    case False
    then have b: "unat (bss + 1) = unat bss + 1" using Suc.prems(2) by (subst unat_add_lem [THEN iffD1]) simp_all
    have z: "zero_bss i memsz bss p = zero_bss (i + 1) memsz (bss + 1) ?q" using ne by (subst zero_bss.simps) simp
    have "(\<lambda>a. if unat (bss + 1) \<le> a \<and> a < unat (bss + 1) + n then 0 else mem8 ?q a) =
        (\<lambda>a. if unat bss \<le> a \<and> a < unat bss + Suc n then 0 else mem8 p a)"
      unfolding b by (auto simp: store8_def fun_eq_iff)
    then show ?thesis unfolding z using disk_moves_trans [OF q Suc.IH [OF n, of "bss + 1" ?q]] Suc.prems(2) by (simp add: b)
  qed
qed

text \<open>The file begins behind the boot sector and the arguments.\<close>

definition elf_file :: "pc_machine \<Rightarrow> bytes" where
  "elf_file p = (\<lambda>i. sectors (drive p) (1536 + i))"

lemma load_program_places:
  assumes "seg_ok s" "filesz = of_nat (sg_filesz s)" "memsz = of_nat (sg_memsz s)" "paddr = of_nat (sg_paddr s)"
    "offset = of_nat (sg_offset s)"
  shows "\<exists>p'. load_program filesz memsz paddr offset p = Some p' \<and> disk_moves p (place (elf_file p) s (mem8 p)) p'"
proof -
  have ok: "sg_filesz s \<le> sg_memsz s" "sg_paddr s + sg_memsz s + 512 \<le> 2 ^ 32" "sg_offset s + sg_filesz s < 2 ^ 31"
    using assms(1) by (simp_all add: seg_ok_def)
  have u: "unat filesz = sg_filesz s" "unat memsz = sg_memsz s" "unat paddr = sg_paddr s" "unat offset = sg_offset s"
    using ok assms(2-5) by (simp_all add: unat_of_nat)
  have so: "sint offset = int (sg_offset s)"
    using u(4) ok(3) by (simp add: sint_uint uint_nat signed_take_bit_int_eq_self)
  have q: "sint offset sdiv 512 + 3 = int (sg_offset s div 512 + 3)" by (cases "sg_offset s = 0") (simp_all add: so signed_divide_int_def zdiv_int)
  have c: "sg_offset s div 512 + 3 + sector_count (unat paddr) (sg_filesz s) \<le> 2 ^ 28"
  proof -
    have "512 * (sg_offset s div 512) \<le> sg_offset s" by simp
    moreover have "512 * sector_count (unat paddr) (sg_filesz s) \<le> 1023 + sg_filesz s"
    proof -
      have "512 * sector_count (unat paddr) (sg_filesz s) \<le> unat paddr mod 512 + sg_filesz s + 511" by (simp add: sector_count_def)
      moreover have "unat paddr mod 512 < 512" by simp
      ultimately show ?thesis by linarith
    qed
    moreover have "(2 :: nat) ^ 31 = 2147483648" "(2 :: nat) ^ 28 = 268435456" by simp_all
    ultimately show ?thesis using ok(3) by linarith
  qed
  have n: "word_of_int (sint filesz) = (of_nat (sg_filesz s) :: u32)" using assms(2) by simp
  obtain p1 where p1: "copy_from_disk paddr (sint filesz) (sint offset) p = Some p1"
    "disk_moves p (copied (sectors (drive p)) (512 * (sg_offset s div 512 + 3)) (sg_lo s) (sg_span s) (mem8 p)) p1"
    using copy_from_disk_copies [OF q n _ c, of p] ok by (auto simp: u sg_lo_def sg_span_def)
  have m: "unat (memsz - filesz) = sg_memsz s - sg_filesz s" using ok(1) u by (simp add: unat_sub word_le_nat_alt)
  have b: "unat (paddr + filesz) = sg_paddr s + sg_filesz s" using ok u by (subst unat_add_lem [THEN iffD1]) simp_all
  have "disk_moves p1 (\<lambda>a. if unat (paddr + filesz) \<le> a \<and> a < unat (paddr + filesz) + (sg_memsz s - sg_filesz s) then 0 else mem8 p1 a)
      (zero_bss filesz memsz (paddr + filesz) p1)"
    using zero_bss_clears [OF m, of "paddr + filesz" p1] ok b by simp
  moreover have "(\<lambda>a. if unat (paddr + filesz) \<le> a \<and> a < unat (paddr + filesz) + (sg_memsz s - sg_filesz s) then 0 else mem8 p1 a)
      = place (elf_file p) s (mem8 p)"
    unfolding b using ok(1) disk_movesD [OF p1(2)]
    by (auto simp: place_def elf_file_def copied_def fun_eq_iff add.assoc intro!: arg_cong [where f = "sectors (drive p)"])
  ultimately have "disk_moves p (place (elf_file p) s (mem8 p)) (zero_bss filesz memsz (paddr + filesz) p1)"
    using disk_moves_trans [OF p1(2)] by metis
  then show ?thesis by (simp add: load_program_def p1(1))
qed

section \<open>The program headers\<close>

definition seg_of :: "elf_layout \<Rightarrow> bytes \<Rightarrow> nat \<Rightarrow> segment" where
  "seg_of l f q = \<lparr>sg_offset = unat (get32 f (q + unat (o_offset l))), sg_paddr = unat (get32 f (q + unat (o_paddr l))),
     sg_filesz = unat (get32 f (q + unat (o_filesz l))), sg_memsz = unat (get32 f (q + unat (o_memsz l)))\<rparr>"

primrec segs_from :: "elf_layout \<Rightarrow> bytes \<Rightarrow> nat \<Rightarrow> nat \<Rightarrow> segment list" where
  "segs_from l f q 0 = []"
| "segs_from l f q (Suc k) = seg_of l f q # segs_from l f (q + unat (phdr_size l)) k"

text \<open>The first page of the file lies at \<open>ELF_ADDR\<close>, where no segment goes.\<close>

definition header_in :: "bytes \<Rightarrow> bytes \<Rightarrow> bool" where
  "header_in f m \<longleftrightarrow> (\<forall>i < 4096. m (0x8000 + i) = f i)"

definition loadable :: "segment \<Rightarrow> bool" where
  "loadable s \<longleftrightarrow> seg_ok s \<and> footprint s \<inter> {0x8000 ..< 0x9000} = {}"

lemma header_place: "header_in f m \<Longrightarrow> loadable s \<Longrightarrow> header_in f (place f s m)"
proof -
  assume h: "header_in f m" "loadable s"
  have "0x8000 + i \<notin> footprint s" if "i < 4096" for i using h(2) that by (auto simp: loadable_def)
  then show ?thesis using h(1) by (simp add: header_in_def place_outside)
qed

lemma header_words:
  assumes "header_in f (mem8 p)" "unat a = 0x8000 + q"
  shows "q + 4 \<le> 4096 \<Longrightarrow> load32 a p = get32 f q" "q + 2 \<le> 4096 \<Longrightarrow> load16 a p = get16 f q"
proof -
  have m: "mem8 p (0x8000 + q + d) = f (q + d)" if "q + d < 4096" for d using assms(1) that by (simp add: header_in_def add.assoc)
  show "q + 4 \<le> 4096 \<Longrightarrow> load32 a p = get32 f q"
    using m [of 0] m [of 1] m [of 2] m [of 3] by (simp add: load32_def assms(2) get32_def)
  show "q + 2 \<le> 4096 \<Longrightarrow> load16 a p = get16 f q"
    using m [of 0] m [of 1] by (simp add: load16_def assms(2) get16_def)
qed

lemmas layouts = elf32_layout_def elf64_layout_def

lemma load_phdrs_places:
  "l \<in> {elf32_layout, elf64_layout} \<Longrightarrow> header_in f (mem8 p) \<Longrightarrow> elf_file p = f \<Longrightarrow>
   unat (get16 f (unat (o_phnum l))) = i + k \<Longrightarrow> unat ph = 0x8000 + q \<Longrightarrow> q + k * unat (phdr_size l) \<le> 4096 \<Longrightarrow>
   \<forall>s \<in> set (segs_from l f q k). loadable s \<Longrightarrow>
   \<exists>p'. load_phdrs l ELF_ADDR i ph p = Some p' \<and> disk_moves p (fold (place f) (segs_from l f q k) (mem8 p)) p'"
proof (induction k arbitrary: i ph q p)
  case 0
  have "load16 (ELF_ADDR + o_phnum l) p = get16 f (unat (o_phnum l))"
    by (rule header_words(2) [OF 0(2)]) (use 0(1) in \<open>auto simp: ELF_ADDR_def layouts\<close>)
  then have "load_phdrs l ELF_ADDR i ph p = Some p" using 0(4) by (subst load_phdrs.simps) simp
  then show ?case by (auto simp: disk_moves_def intro!: exI [of _ "drive p"] exI [of _ "now p"])
next
  case (Suc k)
  let ?s = "seg_of l f q" and ?z = "unat (phdr_size l)"
  have n: "load16 (ELF_ADDR + o_phnum l) p = get16 f (unat (o_phnum l))"
    by (rule header_words(2) [OF Suc.prems(2)]) (use Suc.prems(1) in \<open>auto simp: ELF_ADDR_def layouts\<close>)
  have qz: "q + ?z \<le> 4096" using Suc.prems(6) by simp
  have fld: "load32 (ph + o1) p = get32 f (q + unat o1)" if "unat o1 + 4 \<le> ?z" for o1
  proof (rule header_words(1) [OF Suc.prems(2)])
    have "unat ph + unat o1 < 2 ^ 32" using Suc.prems(5) qz that by simp
    then show "unat (ph + o1) = 0x8000 + (q + unat o1)" using Suc.prems(5) by (simp add: unat_word_ariths)
    show "q + unat o1 + 4 \<le> 4096" using qz that by simp
  qed
  have o: "unat (o_offset l) + 4 \<le> ?z" "unat (o_paddr l) + 4 \<le> ?z" "unat (o_filesz l) + 4 \<le> ?z" "unat (o_memsz l) + 4 \<le> ?z"
    using Suc.prems(1) by (auto simp: layouts)
  have s: "loadable ?s" using Suc.prems(7) by simp
  obtain p1 where p1: "load_program (load32 (ph + o_filesz l) p) (load32 (ph + o_memsz l) p) (load32 (ph + o_paddr l) p)
      (load32 (ph + o_offset l) p) p = Some p1" "disk_moves p (place f ?s (mem8 p)) p1"
    using load_program_places [of ?s "load32 (ph + o_filesz l) p" "load32 (ph + o_memsz l) p" "load32 (ph + o_paddr l) p"
      "load32 (ph + o_offset l) p" p] s Suc.prems(3) by (auto simp: loadable_def fld [OF o(1)] fld [OF o(2)] fld [OF o(3)]
      fld [OF o(4)] seg_of_def)
  have m1: "mem8 p1 = place f ?s (mem8 p)" "elf_file p1 = f"
    using disk_movesD [OF p1(2)] Suc.prems(3) by (simp_all add: elf_file_def)
  have ph: "unat (ph + phdr_size l) = 0x8000 + (q + ?z)"
    using Suc.prems(5) qz by (simp add: unat_word_ariths)
  have "\<exists>p'. load_phdrs l ELF_ADDR (Suc i) (ph + phdr_size l) p1 = Some p' \<and>
      disk_moves p1 (fold (place f) (segs_from l f (q + ?z) k) (mem8 p1)) p'"
    by (rule Suc.IH [OF Suc.prems(1) _ m1(2) _ ph])
      (use Suc.prems header_place [OF Suc.prems(2) s] in \<open>simp_all add: m1\<close>)
  then obtain p2 where p2: "load_phdrs l ELF_ADDR (Suc i) (ph + phdr_size l) p1 = Some p2"
      "disk_moves p1 (fold (place f) (segs_from l f (q + ?z) k) (mem8 p1)) p2" by blast
  have "load_phdrs l ELF_ADDR i ph p = Some p2"
    using n Suc.prems(4) p1(1) p2(1) by (subst load_phdrs.simps) simp
  moreover have "disk_moves p (fold (place f) (segs_from l f q (Suc k)) (mem8 p)) p2"
    using disk_moves_trans [OF p1(2) p2(2)] by (simp add: m1)
  ultimately show ?case by blast
qed

section \<open>The kernel\<close>

text \<open>What the file says: its format, its segments.\<close>

definition layout_of :: "bytes \<Rightarrow> elf_layout" where
  "layout_of f = (if get16 f 18 = EM_X86_64 then elf64_layout else elf32_layout)"

definition segments_of :: "bytes \<Rightarrow> segment list" where
  "segments_of f = segs_from (layout_of f) f (unat (get32 f (unat (o_phoff (layout_of f))))) (unat (get16 f (unat (o_phnum (layout_of f)))))"

lemma header_fold: "header_in f m \<Longrightarrow> \<forall>s \<in> set ss. loadable s \<Longrightarrow> header_in f (fold (place f) ss m)"
  by (induction ss arbitrary: m) (simp_all add: header_place)

lemma fold_place_segment:
  assumes "i < length ss" "sg_paddr (ss ! i) mod 512 = sg_offset (ss ! i) mod 512"
    and "\<And>j. i < j \<Longrightarrow> j < length ss \<Longrightarrow> sg_paddr (ss ! i) + k \<notin> footprint (ss ! j)"
    and "k < sg_memsz (ss ! i)"
  shows "fold (place f) ss m (sg_paddr (ss ! i) + k) = (if k < sg_filesz (ss ! i) then f (sg_offset (ss ! i) + k) else 0)"
proof -
  have "fold (place f) ss m = fold (place f) (drop (Suc i) ss) (place f (ss ! i) (fold (place f) (take i ss) m))"
    by (subst id_take_nth_drop [OF assms(1)]) (simp only: fold_append fold_simps o_apply)
  moreover have "sg_paddr (ss ! i) + k \<notin> footprint s" if s: "s \<in> set (drop (Suc i) ss)" for s
  proof -
    obtain j where "j < length ss - Suc i" "s = drop (Suc i) ss ! j" using s by (auto simp: in_set_conv_nth)
    then show ?thesis using assms(3) [of "Suc i + j"] assms(1) by simp
  qed
  ultimately show ?thesis using place_inside [OF assms(2)] assms(4) by (simp add: fold_place_outside not_less)
qed

text \<open>What the loader has read before it looks at the program headers.\<close>

lemma load_headers:
  "\<exists>p'. Option.bind (copy_from_disk MAINARG_ADDR 1024 (-1024) p) (copy_from_disk ELF_ADDR 4096 0) = Some p' \<and>
     disk_moves p (copied (elf_file p) 0 0x8000 4096 (copied (sectors (drive p)) 512 0x10000 1024 (mem8 p))) p'"
proof -
  obtain p1 where p1: "copy_from_disk MAINARG_ADDR 1024 (-1024) p = Some p1"
    "disk_moves p (copied (sectors (drive p)) 512 0x10000 1024 (mem8 p)) p1"
    using copy_from_disk_copies [of "-1024" 1 1024 1024 MAINARG_ADDR p]
    by (auto simp: signed_divide_int_def sector_count_def MAINARG_ADDR_def)
  obtain p2 where p2: "copy_from_disk ELF_ADDR 4096 0 p1 = Some p2"
    "disk_moves p1 (copied (sectors (drive p1)) 1536 0x8000 4096 (mem8 p1)) p2"
    using copy_from_disk_copies [of 0 3 4096 4096 ELF_ADDR p1]
    by (auto simp: signed_divide_int_def sector_count_def ELF_ADDR_def)
  have "copied (sectors (drive p1)) 1536 0x8000 4096 = copied (elf_file p) 0 0x8000 4096"
    using disk_movesD [OF p1(2)] by (auto simp: copied_def elf_file_def fun_eq_iff)
  then show ?thesis using p1(1) p2(1) disk_moves_trans [OF p1(2) p2(2)] disk_movesD [OF p1(2)] by auto
qed

text \<open>
  C5. The boot loader of the x86 image loads the kernel: for an ELF file of either format whose headers are in
  its first page, whose segments have addresses that agree with their offsets within a sector, keep away from
  the loader's copy of the headers and from the segments before them, every segment ends up in memory as in
  the file, followed by zeros up to its size, the loader jumps to the entry, and the arguments are at 64K
  unless a segment is. It returns however long the drive is busy with each sector.
\<close>

theorem boot_loads_kernel:
  assumes "load32 (BOOTREC_ADDR + 4) p = 0" "f = elf_file p"
    and "unat (get32 f (unat (o_phoff (layout_of f)))) + unat (get16 f (unat (o_phnum (layout_of f)))) * unat (phdr_size (layout_of f)) \<le> 4096"
    and "\<forall>s \<in> set (segments_of f). loadable s \<and> sg_paddr s mod 512 = sg_offset s mod 512"
    and "\<forall>i j. i < j \<longrightarrow> j < length (segments_of f) \<longrightarrow>
      footprint (segments_of f ! j) \<inter> {sg_paddr (segments_of f ! i) ..< sg_paddr (segments_of f ! i) + sg_memsz (segments_of f ! i)} = {}"
  shows "\<exists>p'. load_kernel p = Some (get32 f 24, p') \<and>
    (\<forall>s \<in> set (segments_of f). \<forall>k < sg_memsz s. mem8 p' (sg_paddr s + k) = (if k < sg_filesz s then f (sg_offset s + k) else 0)) \<and>
    ((\<forall>s \<in> set (segments_of f). footprint s \<inter> {0x10000 ..< 0x10400} = {}) \<longrightarrow>
      (\<forall>k < 1024. mem8 p' (0x10000 + k) = sectors (drive p) (512 + k)))"
proof -
  let ?l = "layout_of f" and ?ss = "segments_of f"
  let ?m = "copied f 0 0x8000 4096 (copied (sectors (drive p)) 512 0x10000 1024 (mem8 p))"
  let ?m' = "fold (place f) ?ss ?m"
  obtain p1 where p1: "Option.bind (copy_from_disk MAINARG_ADDR 1024 (-1024) p) (copy_from_disk ELF_ADDR 4096 0) = Some p1"
    "disk_moves p ?m p1" using load_headers [of p] assms(2) by auto
  have h: "header_in f (mem8 p1)" "elf_file p1 = f" using disk_movesD [OF p1(2)] assms(2)
    by (simp_all add: header_in_def copied_def elf_file_def)
  have l: "(if load16 (ELF_ADDR + 18) p1 = EM_X86_64 then elf64_layout else elf32_layout) = ?l"
    using header_words(2) [OF h(1), of "ELF_ADDR + 18" 18] by (simp add: layout_of_def ELF_ADDR_def)
  have lin: "?l \<in> {elf32_layout, elf64_layout}" by (simp add: layout_of_def)
  have po: "load32 (ELF_ADDR + o_phoff ?l) p1 = get32 f (unat (o_phoff ?l))"
    by (rule header_words(1) [OF h(1)]) (use lin in \<open>auto simp: ELF_ADDR_def layouts\<close>)
  have "\<exists>p'. load_phdrs ?l ELF_ADDR 0 (ELF_ADDR + get32 f (unat (o_phoff ?l))) p1 = Some p' \<and> disk_moves p1 (fold (place f) ?ss (mem8 p1)) p'"
    unfolding segments_of_def
  proof (rule load_phdrs_places [OF lin h])
    show "unat (ELF_ADDR + get32 f (unat (o_phoff ?l))) = 0x8000 + unat (get32 f (unat (o_phoff ?l)))"
      using assms(3) by (simp add: ELF_ADDR_def unat_word_ariths)
  qed (use assms(3,4) in \<open>simp_all add: segments_of_def\<close>)
  then obtain p2 where p2: "load_elf ?l ELF_ADDR p1 = Some p2" "disk_moves p1 (fold (place f) ?ss (mem8 p1)) p2"
    by (auto simp: load_elf_def po)
  have m2: "mem8 p2 = ?m'" using disk_movesD [OF p1(2)] disk_movesD [OF p2(2)] by simp
  have "header_in f (mem8 p2)" unfolding m2 by (rule header_fold) (use h assms(4) disk_movesD [OF p1(2)] in auto)
  then have e: "load32 (ELF_ADDR + 24) p2 = get32 f 24" by (rule header_words) (simp_all add: ELF_ADDR_def)
  have "load_kernel p = Option.bind (Option.bind (copy_from_disk MAINARG_ADDR 1024 (-1024) p) (copy_from_disk ELF_ADDR 4096 0))
      (\<lambda>p. Option.bind (load_elf (if load16 (ELF_ADDR + 18) p = EM_X86_64 then elf64_layout else elf32_layout) ELF_ADDR p)
        (\<lambda>p. Some (load32 (ELF_ADDR + 24) p, p)))"
    using assms(1) by (simp add: load_kernel_def Option.bind_assoc)
  then have k: "load_kernel p = Some (get32 f 24, p2)" by (simp only: p1(1) bind.bind_lunit l p2(1) e)
  have seg: "mem8 p2 (sg_paddr s + k) = (if k < sg_filesz s then f (sg_offset s + k) else 0)" if s: "s \<in> set ?ss" "k < sg_memsz s" for s k
  proof -
    obtain i where i: "i < length ?ss" "s = ?ss ! i" using s(1) by (auto simp: in_set_conv_nth)
    have "sg_paddr (?ss ! i) + k \<notin> footprint (?ss ! j)" if "i < j" "j < length ?ss" for j
    proof -
      have "footprint (?ss ! j) \<inter> {sg_paddr (?ss ! i) ..< sg_paddr (?ss ! i) + sg_memsz (?ss ! i)} = {}" using assms(5) that by blast
      then show ?thesis using s(2) i(2) by auto
    qed
    then show ?thesis unfolding m2 i(2) by (intro fold_place_segment) (use i s assms(4) in auto)
  qed
  have args: "mem8 p2 (0x10000 + k) = sectors (drive p) (512 + k)"
    if "\<forall>s \<in> set ?ss. footprint s \<inter> {0x10000 ..< 0x10400} = {}" "k < 1024" for k
  proof -
    have "0x10000 + k \<in> {0x10000 ..< 0x10400 :: nat}" using that(2) by simp
    then have "0x10000 + k \<notin> footprint s" if "s \<in> set ?ss" for s
      using \<open>\<forall>s \<in> set ?ss. footprint s \<inter> {0x10000 ..< 0x10400} = {}\<close> that by blast
    then have "mem8 p2 (0x10000 + k) = ?m (0x10000 + k)" unfolding m2 by (rule fold_place_outside)
    then show ?thesis using that(2) by (simp add: copied_def)
  qed
  show ?thesis using k seg args by blast
qed

text \<open>A disk with a small kernel of two segments, the second in the sector after the first; the bytes of its headers that are not 0.\<close>

definition tiny_elf :: "(nat \<times> u8) list" where
  "tiny_elf =
    [(0, 0x7f), (1, 0x45), (2, 0x4c), (3, 0x46), (4, 1), (18, 3), (24, 2), (26, 0x10), (28, 0x34), (44, 2),
     (52, 1), (57, 0x10), (62, 0x10), (66, 0x10), (68, 3), (72, 5), (76, 5), (81, 0x10), (84, 1), (88, 4),
     (89, 0x12), (92, 4), (93, 2), (94, 0x10), (96, 4), (97, 2), (98, 0x10), (100, 2), (104, 3), (108, 6),
     (113, 0x10)]"

definition tiny_file :: bytes where
  "tiny_file i = (if i < 116 then (case map_of tiny_elf i of None \<Rightarrow> 0 | Some b \<Rightarrow> b) else of_nat i)"

definition tiny_pc :: pc_machine where
  "tiny_pc = \<lparr>mem8 = (\<lambda>_. 0),
     drive = \<lparr>sectors = (\<lambda>n. tiny_file (n - 1536)), a_count = 0, a_lba0 = 0,
       a_lba1 = 0, a_lba2 = 0, a_dev = 0, a_xfer = No_transfer, a_busy = 3, a_delays = (\<lambda>i. i mod 7)\<rparr>,
     com_lcr = 0, com_divisor = 0, com_out = [], com_in = [], kbd_codes = [], cmos_index = 0, shutdown_code = 0,
     power_off = False, now = 0, cmos = (\<lambda>_ _. 0), tsc = of_nat\<rparr>"

lemma tiny_elf_file: "elf_file tiny_pc = tiny_file"
  by (simp add: elf_file_def tiny_pc_def)

lemma tiny_words:
  "get16 tiny_file 18 = 3" "get16 tiny_file 44 = 2" "get32 tiny_file 24 = 0x100002" "get32 tiny_file 28 = 52"
  "get32 tiny_file 56 = 4096" "get32 tiny_file 64 = 0x100000" "get32 tiny_file 68 = 3" "get32 tiny_file 72 = 5"
  "get32 tiny_file 88 = 4612" "get32 tiny_file 96 = 0x100204" "get32 tiny_file 100 = 2" "get32 tiny_file 104 = 3"
  by (simp_all add: get16_def get32_def tiny_file_def tiny_elf_def)

lemma tiny_segments:
  "layout_of tiny_file = elf32_layout"
  "segments_of tiny_file =
     [\<lparr>sg_offset = 4096, sg_paddr = 0x100000, sg_filesz = 3, sg_memsz = 5\<rparr>,
      \<lparr>sg_offset = 4612, sg_paddr = 0x100204, sg_filesz = 2, sg_memsz = 3\<rparr>]"
proof -
  have two: "segs_from l f q 2 = [seg_of l f q, seg_of l f (q + unat (phdr_size l))]" for l f q by (simp add: numeral_2_eq_2)
  show l: "layout_of tiny_file = elf32_layout" by (simp add: layout_of_def tiny_words EM_X86_64_def)
  show "segments_of tiny_file =
     [\<lparr>sg_offset = 4096, sg_paddr = 0x100000, sg_filesz = 3, sg_memsz = 5\<rparr>,
      \<lparr>sg_offset = 4612, sg_paddr = 0x100204, sg_filesz = 2, sg_memsz = 3\<rparr>]"
    unfolding segments_of_def l by (simp add: elf32_layout_def tiny_words two seg_of_def)
qed

theorem boot_loads_kernel_witness:
  "\<exists>p'. load_kernel tiny_pc = Some (0x100002, p') \<and>
    mem8 p' 0x100002 = 2 \<and> mem8 p' 0x100003 = 0 \<and> mem8 p' 0x100204 = 4 \<and> mem8 p' 0x10001 = 0x7f"
proof -
  let ?s0 = "\<lparr>sg_offset = 4096, sg_paddr = 0x100000, sg_filesz = 3, sg_memsz = 5\<rparr>"
  let ?s1 = "\<lparr>sg_offset = 4612, sg_paddr = 0x100204, sg_filesz = 2, sg_memsz = 3\<rparr>"
  have a: "load32 (BOOTREC_ADDR + 4) tiny_pc = 0" by (simp add: load32_def get32_def tiny_pc_def)
  have b: "unat (get32 tiny_file (unat (o_phoff elf32_layout))) +
      unat (get16 tiny_file (unat (o_phnum elf32_layout))) * unat (phdr_size elf32_layout) \<le> 4096"
    by (simp add: elf32_layout_def tiny_words)
  have fp: "footprint ?s0 = {0x100000 ..< 0x100200}" "footprint ?s1 = {0x100200 ..< 0x100400}"
    by (auto simp: footprint_def sg_lo_def sg_span_def sector_count_def)
  have c: "\<forall>s \<in> set [?s0, ?s1]. loadable s \<and> sg_paddr s mod 512 = sg_offset s mod 512"
    by (simp add: loadable_def fp seg_ok_def)
  have d: "footprint ([?s0, ?s1] ! j) \<inter> {sg_paddr ([?s0, ?s1] ! i) ..< sg_paddr ([?s0, ?s1] ! i) + sg_memsz ([?s0, ?s1] ! i)} = {}"
    if "i < j" "j < length [?s0, ?s1]" for i j
  proof -
    have "i = 0" "j = Suc 0" using that by simp_all
    then show ?thesis by (simp add: fp)
  qed
  obtain p' where p': "load_kernel tiny_pc = Some (get32 tiny_file 24, p')"
    "\<forall>s \<in> set [?s0, ?s1]. \<forall>k < sg_memsz s. mem8 p' (sg_paddr s + k) = (if k < sg_filesz s then tiny_file (sg_offset s + k) else 0)"
    "(\<forall>s \<in> set [?s0, ?s1]. footprint s \<inter> {0x10000 ..< 0x10400} = {}) \<longrightarrow>
      (\<forall>k < 1024. mem8 p' (0x10000 + k) = sectors (drive tiny_pc) (512 + k))"
    using boot_loads_kernel [OF a tiny_elf_file [symmetric], unfolded tiny_segments, OF b c] d by blast
  have "mem8 p' 0x100002 = 2" "mem8 p' 0x100003 = 0" "mem8 p' 0x100204 = 4"
    using bspec [OF p'(2), of ?s0, THEN spec, of 2] bspec [OF p'(2), of ?s0, THEN spec, of 3]
      bspec [OF p'(2), of ?s1, THEN spec, of 0] by (simp_all add: tiny_file_def)
  moreover have "\<forall>k < 1024. mem8 p' (0x10000 + k) = sectors (drive tiny_pc) (512 + k)" using p'(3) fp by auto
  then have "mem8 p' (0x10000 + 1) = sectors (drive tiny_pc) (512 + 1)" by (rule allE [of _ 1]) simp
  then have "mem8 p' 0x10001 = 0x7f" by (simp add: tiny_pc_def tiny_file_def tiny_elf_def)
  ultimately show ?thesis using p'(1) by (simp add: tiny_words)
qed

end
