(* ===== verification/X86IoeProps.thy ===== *)
theory X86IoeProps
  imports X86Ioe X86BootProps
begin

text \<open>
  What the device registers of x86-qemu do: blocks written to the disk are read back, a date is one the clock
  has shown, and what the serial line and the keyboard deliver.
\<close>

section \<open>Disk\<close>

definition disk_stores :: "pc_machine \<Rightarrow> bytes \<Rightarrow> pc_machine \<Rightarrow> bool" where
  "disk_stores p s p' \<longleftrightarrow> (\<exists>d k. p' = p\<lparr>drive := d, now := k\<rparr> \<and> sectors d = s)"

lemma disk_storesD: "disk_stores p s p' \<Longrightarrow> mem8 p' = mem8 p \<and> sectors (drive p') = s"
  by (auto simp: disk_stores_def)

lemma disk_stores_trans: "disk_stores p s p' \<Longrightarrow> disk_stores p' s' p'' \<Longrightarrow> disk_stores p s' p''"
  unfolding disk_stores_def by fastforce

lemma write_words_copies:
  "a_xfer (drive p) = Writing pos n \<Longrightarrow> a_busy (drive p) = 0 \<Longrightarrow> unat a + 4 * n \<le> 2 ^ 32 \<Longrightarrow>
   disk_stores p (copied (mem8 p) (unat a) pos (4 * n) (sectors (drive p))) (write_words n a p)"
proof (induction n arbitrary: p a pos)
  case 0
  show ?case by (auto simp: disk_stores_def intro!: exI [of _ "drive p"] exI [of _ "now p"])
next
  case (Suc n)
  let ?d = "(drive p)\<lparr>sectors := copied (mem8 p) (unat a) pos 4 (sectors (drive p)),
      a_xfer := (if n = 0 then No_transfer else Writing (pos + 4) n)\<rparr>"
  let ?q = "p\<lparr>drive := ?d, now := Suc (now p)\<rparr>"
  have o: "pc_outl 0x1f0 (load32 a p) p = ?q"
    using Suc.prems(1,2) by (simp add: pc_outl_def ata_outl_def next_moment_def Let_def load32_def put32_get32)
  have q: "disk_stores p (sectors ?d) ?q" by (auto simp: disk_stores_def intro!: exI [of _ ?d])
  show ?case
  proof (cases "n = 0")
    case True
    then show ?thesis using q by (simp add: o)
  next
    case False
    then have a: "unat (a + 4) = unat a + 4"
      using Suc.prems(3) by (subst unat_add_lem [THEN iffD1]) simp_all
    have "disk_stores ?q (copied (mem8 p) (unat a + 4) (pos + 4) (4 * n) (sectors ?d)) (write_words n (a + 4) ?q)"
      using Suc.IH [of ?q "pos + 4" "a + 4"] Suc.prems(2,3) False by (simp add: a)
    then show ?thesis using disk_stores_trans [OF q] by (simp add: o copied_append)
  qed
qed

text \<open>The state in which a block's words are moved.\<close>

lemma disk_block_ready:
  assumes "unat blkno < 2 ^ 28"
  shows "\<exists>d k. disk_block wr ptr blkno p =
      Some (if wr then write_words 128 ptr (p\<lparr>drive := d, now := k\<rparr>) else read_words 128 ptr (p\<lparr>drive := d, now := k\<rparr>)) \<and>
    sectors d = sectors (drive p) \<and> a_busy d = 0 \<and> a_xfer d = (if wr then Writing else Reading) (512 * unat blkno) 128"
proof -
  let ?cmd = "if wr then 0x30 else 0x20 :: u8"
  obtain k where w1: "wait_disk p = Some (p\<lparr>drive := (drive p)\<lparr>a_busy := 0\<rparr>, now := k\<rparr>)" using wait_disk_returns by blast
  let ?p1 = "p\<lparr>drive := (drive p)\<lparr>a_busy := 0\<rparr>, now := k\<rparr>"
  obtain d k2 where r: "disk_request blkno ?cmd ?p1 = ?p1\<lparr>drive := d, now := k2\<rparr>" "sectors d = sectors (drive p)"
      "a_xfer d = (if wr then Writing else Reading) (512 * unat blkno) 128"
    using disk_request_state [OF assms, of ?p1 ?cmd] by (cases wr) auto
  obtain k3 where w2: "wait_disk (p\<lparr>drive := d, now := k2\<rparr>) = Some (p\<lparr>drive := d\<lparr>a_busy := 0\<rparr>, now := k3\<rparr>)"
    using wait_disk_returns [of "p\<lparr>drive := d, now := k2\<rparr>"] by auto
  show ?thesis
    by (rule exI [of _ "d\<lparr>a_busy := 0\<rparr>"], rule exI [of _ k3]) (simp add: disk_block_def w1 w2 r BLKSZ_def)
qed

lemma disk_block_writes:
  assumes "unat blkno < 2 ^ 28" "unat ptr + 512 \<le> 2 ^ 32"
  shows "\<exists>p'. disk_block True ptr blkno p = Some p' \<and>
     disk_stores p (copied (mem8 p) (unat ptr) (512 * unat blkno) 512 (sectors (drive p))) p'"
proof -
  obtain d k where d: "disk_block True ptr blkno p = Some (write_words 128 ptr (p\<lparr>drive := d, now := k\<rparr>))"
    "sectors d = sectors (drive p)" "a_busy d = 0" "a_xfer d = Writing (512 * unat blkno) 128"
    using disk_block_ready [OF assms(1), of True ptr p] by auto
  then show ?thesis
    using write_words_copies [of "p\<lparr>drive := d, now := k\<rparr>" "512 * unat blkno" 128 ptr] assms(2)
    by (fastforce simp: disk_stores_def)
qed

lemma disk_block_reads:
  assumes "unat blkno < 2 ^ 28" "unat ptr + 512 \<le> 2 ^ 32"
  shows "\<exists>p'. disk_block False ptr blkno p = Some p' \<and>
     disk_moves p (copied (sectors (drive p)) (512 * unat blkno) (unat ptr) 512 (mem8 p)) p'"
proof -
  obtain d k where d: "disk_block False ptr blkno p = Some (read_words 128 ptr (p\<lparr>drive := d, now := k\<rparr>))"
    "sectors d = sectors (drive p)" "a_busy d = 0" "a_xfer d = Reading (512 * unat blkno) 128"
    using disk_block_ready [OF assms(1), of False ptr p] by auto
  then show ?thesis
    using read_words_copies [of "p\<lparr>drive := d, now := k\<rparr>" "512 * unat blkno" 128 ptr] assms(2)
    by (fastforce simp: disk_moves_def)
qed

lemma next_block:
  fixes ptr blkno :: u32
  shows "unat ptr + 512 * Suc n \<le> 2 ^ 32 \<Longrightarrow> n \<noteq> 0 \<Longrightarrow> unat (ptr + 512) = unat ptr + 512"
    and "unat blkno + Suc n \<le> 2 ^ 28 \<Longrightarrow> unat (blkno + 1) = unat blkno + 1"
  by (subst unat_add_lem [THEN iffD1]; simp)+

lemma disk_blocks_write:
  "unat blkno + n \<le> 2 ^ 28 \<Longrightarrow> unat ptr + 512 * n \<le> 2 ^ 32 \<Longrightarrow>
   \<exists>p'. disk_blocks True n ptr blkno p = Some p' \<and>
     disk_stores p (copied (mem8 p) (unat ptr) (512 * unat blkno) (512 * n) (sectors (drive p))) p'"
proof (induction n arbitrary: p ptr blkno)
  case 0
  show ?case by (auto simp: disk_stores_def intro!: exI [of _ "drive p"] exI [of _ "now p"])
next
  case (Suc n)
  obtain p1 where p1: "disk_block True ptr blkno p = Some p1"
    "disk_stores p (copied (mem8 p) (unat ptr) (512 * unat blkno) 512 (sectors (drive p))) p1"
    using disk_block_writes [of blkno ptr p] Suc.prems by auto
  show ?case
  proof (cases "n = 0")
    case True
    then show ?thesis using p1 by simp
  next
    case False
    note nx = next_block(1) [OF Suc.prems(2) False] next_block(2) [OF Suc.prems(1)]
    have e: "512 * (unat blkno + 1) = 512 * unat blkno + 512" by simp
    obtain p2 where p2: "disk_blocks True n (ptr + 512) (blkno + 1) p1 = Some p2"
      "disk_stores p1 (copied (mem8 p1) (unat ptr + 512) (512 * unat blkno + 512) (512 * n) (sectors (drive p1))) p2"
      using Suc.IH [of "blkno + 1" "ptr + 512" p1] Suc.prems unfolding nx e by auto
    have "disk_stores p (copied (mem8 p) (unat ptr) (512 * unat blkno) (512 + 512 * n) (sectors (drive p))) p2"
      using disk_stores_trans [OF p1(2) p2(2)] disk_storesD [OF p1(2)] by (simp only: copied_append)
    then show ?thesis using p1(1) p2(1) by simp
  qed
qed

lemma disk_blocks_read:
  "unat blkno + n \<le> 2 ^ 28 \<Longrightarrow> unat ptr + 512 * n \<le> 2 ^ 32 \<Longrightarrow>
   \<exists>p'. disk_blocks False n ptr blkno p = Some p' \<and>
     disk_moves p (copied (sectors (drive p)) (512 * unat blkno) (unat ptr) (512 * n) (mem8 p)) p'"
proof (induction n arbitrary: p ptr blkno)
  case 0
  show ?case by (auto simp: disk_moves_def intro!: exI [of _ "drive p"] exI [of _ "now p"])
next
  case (Suc n)
  obtain p1 where p1: "disk_block False ptr blkno p = Some p1"
    "disk_moves p (copied (sectors (drive p)) (512 * unat blkno) (unat ptr) 512 (mem8 p)) p1"
    using disk_block_reads [of blkno ptr p] Suc.prems by auto
  show ?case
  proof (cases "n = 0")
    case True
    then show ?thesis using p1 by simp
  next
    case False
    note nx = next_block(1) [OF Suc.prems(2) False] next_block(2) [OF Suc.prems(1)]
    have e: "512 * (unat blkno + 1) = 512 * unat blkno + 512" by simp
    obtain p2 where p2: "disk_blocks False n (ptr + 512) (blkno + 1) p1 = Some p2"
      "disk_moves p1 (copied (sectors (drive p1)) (512 * unat blkno + 512) (unat ptr + 512) (512 * n) (mem8 p1)) p2"
      using Suc.IH [of "blkno + 1" "ptr + 512" p1] Suc.prems unfolding nx e by auto
    have "disk_moves p (copied (sectors (drive p)) (512 * unat blkno) (unat ptr) (512 + 512 * n) (mem8 p)) p2"
      using disk_moves_trans [OF p1(2) p2(2)] disk_movesD [OF p1(2)] by (simp only: copied_append)
    then show ?thesis using p1(1) p2(1) by simp
  qed
qed

text \<open>
  C6. Blocks written to the disk are read back: whatever the drive's delays, the write stores exactly the
  buffer's bytes at the blocks' place and nothing else, and a read of these blocks into another part of
  memory delivers the bytes that were in the buffer and changes no other byte of memory and nothing on disk.
\<close>

theorem disk_blkio_roundtrip:
  assumes "unat blkno + unat blkcnt \<le> 2 ^ 28" "unat src + 512 * unat blkcnt \<le> 2 ^ 32" "unat dst + 512 * unat blkcnt \<le> 2 ^ 32"
  shows "\<exists>p1 p2. disk_blkio True src blkno blkcnt p = Some p1 \<and> disk_blkio False dst blkno blkcnt p1 = Some p2 \<and>
    (\<forall>i < 512 * unat blkcnt. mem8 p2 (unat dst + i) = mem8 p (unat src + i)) \<and>
    (\<forall>a. a \<notin> {unat dst ..< unat dst + 512 * unat blkcnt} \<longrightarrow> mem8 p2 a = mem8 p a) \<and>
    (\<forall>i < 512 * unat blkcnt. sectors (drive p2) (512 * unat blkno + i) = mem8 p (unat src + i)) \<and>
    (\<forall>b. b \<notin> {512 * unat blkno ..< 512 * (unat blkno + unat blkcnt)} \<longrightarrow> sectors (drive p2) b = sectors (drive p) b)"
proof -
  let ?n = "512 * unat blkcnt"
  obtain p1 where p1: "disk_blkio True src blkno blkcnt p = Some p1"
    "disk_stores p (copied (mem8 p) (unat src) (512 * unat blkno) ?n (sectors (drive p))) p1"
    using disk_blocks_write [OF assms(1,2), of p] by (auto simp: disk_blkio_def)
  obtain p2 where p2: "disk_blkio False dst blkno blkcnt p1 = Some p2"
    "disk_moves p1 (copied (sectors (drive p1)) (512 * unat blkno) (unat dst) ?n (mem8 p1)) p2"
    using disk_blocks_read [OF assms(1,3), of p1] by (auto simp: disk_blkio_def)
  show ?thesis
    using p1(1) p2(1) disk_storesD [OF p1(2)] disk_movesD [OF p2(2)]
    by (intro exI [of _ p1] exI [of _ p2]) (auto simp: copied_def)
qed

theorem disk_blkio_roundtrip_witness:
  "\<exists>p1 p2. disk_blkio True 0x100000 7 2 (tiny_pc\<lparr>mem8 := of_nat\<rparr>) = Some p1 \<and>
    disk_blkio False 0x200000 7 2 p1 = Some p2 \<and> mem8 p2 0x200081 = 0x81"
proof -
  obtain p1 p2 where p: "disk_blkio True 0x100000 7 2 (tiny_pc\<lparr>mem8 := of_nat\<rparr>) = Some p1"
    "disk_blkio False 0x200000 7 2 p1 = Some p2"
    "\<forall>i < 512 * unat (2 :: u32). mem8 p2 (unat (0x200000 :: u32) + i) = mem8 (tiny_pc\<lparr>mem8 := of_nat\<rparr>) (unat (0x100000 :: u32) + i)"
    using disk_blkio_roundtrip [of 7 2 "0x100000" "0x200000" "tiny_pc\<lparr>mem8 := of_nat\<rparr>"] by auto
  have "mem8 p2 0x200081 = 0x81" using p(3) [THEN spec, of "0x81"] by simp
  then show ?thesis using p(1,2) by blast
qed

section \<open>Clock\<close>

text \<open>A clock: the number of seconds it shows at each moment, and the registers of a date.\<close>

definition bcd :: "nat \<Rightarrow> u8" where
  "bcd n = of_nat (16 * (n div 10) + n mod 10)"

definition date_register :: "timer_date \<Rightarrow> u8 \<Rightarrow> u8" where
  "date_register d r = bcd (nat (if r = 0 then t_second d else if r = 2 then t_minute d else if r = 4 then t_hour d
     else if r = 7 then t_day d else if r = 8 then t_month d else t_year d - 2000))"

definition two_digits :: "timer_date \<Rightarrow> bool" where
  "two_digits d \<longleftrightarrow> {t_second d, t_minute d, t_hour d, t_day d, t_month d, t_year d - 2000} \<subseteq> {0 ..< 100}"

definition shows_clock :: "(nat \<Rightarrow> nat) \<Rightarrow> (nat \<Rightarrow> timer_date) \<Rightarrow> pc_machine \<Rightarrow> bool" where
  "shows_clock secs cal p \<longleftrightarrow> (\<forall>t. \<forall>r \<in> {0, 2, 4, 7, 8, 9}. cmos p t r = date_register (cal (secs t)) r)"

lemma bcd_read: "n < 100 \<Longrightarrow> uint (bcd n AND 0xf) + uint (drop_bit 4 (bcd n)) * 10 = int n"
proof -
  assume n: "n < 100"
  have m: "(0xf :: u8) = mask 4" by (simp add: mask_eq_exp_minus_1)
  have "n div 10 < 10" using n by (simp add: less_mult_imp_div_less)
  then have "16 * (n div 10) + n mod 10 < 2 ^ LENGTH(8)" by simp
  then have u: "unat (bcd n) = 16 * (n div 10) + n mod 10" unfolding bcd_def unat_of_nat by (rule mod_less)
  have "unat (bcd n AND 0xf) = n mod 10"
    unfolding m take_bit_eq_mask [symmetric] unsigned_take_bit_eq u by (simp add: take_bit_eq_mod)
  moreover have "unat (drop_bit 4 (bcd n)) = n div 10"
    unfolding unat_drop_bit_eq u by (simp add: drop_bit_eq_div)
  ultimately show ?thesis by (simp add: uint_nat zmod_int zdiv_int)
qed

lemma read_rtc_shows:
  assumes "shows_clock secs cal p" "r \<in> {0, 2, 4, 7, 8, 9}" "\<And>s. two_digits (cal s)"
  shows "read_rtc r p = (if r = 0 then t_second (cal (secs (now p + 1))) else if r = 2 then t_minute (cal (secs (now p + 1)))
      else if r = 4 then t_hour (cal (secs (now p + 1))) else if r = 7 then t_day (cal (secs (now p + 1)))
      else if r = 8 then t_month (cal (secs (now p + 1))) else t_year (cal (secs (now p + 1))) - 2000,
    p\<lparr>cmos_index := r, now := now p + 2\<rparr>)"
proof -
  let ?d = "cal (secs (now p + 1))"
  have c: "cmos p (now p + 1) r = date_register ?d r" using assms(1,2) unfolding shows_clock_def by blast
  have i: "pc_inb 0x71 (pc_outb 0x70 r p) = (date_register ?d r, p\<lparr>cmos_index := r, now := now p + 2\<rparr>)"
    using c by (simp add: pc_inb_def pc_outb_def next_moment_def Let_def)
  have b: "0 \<le> v \<Longrightarrow> v < 100 \<Longrightarrow> uint (bcd (nat v) AND 0xf) + uint (drop_bit 4 (bcd (nat v))) * 10 = v" for v
    using bcd_read [of "nat v"] by simp
  show ?thesis using assms(3) [of "secs (now p + 1)"]
    by (simp add: read_rtc_def i date_register_def b two_digits_def)
qed

text \<open>One reading: the six registers at six moments.\<close>

lemma read_rtc_async_shows:
  assumes "shows_clock secs cal p" "\<And>s. two_digits (cal s)"
  defines "d \<equiv> \<lambda>i. cal (secs (now p + i))"
  shows "\<exists>c. read_rtc_async p =
    (\<lparr>t_year = t_year (d 11), t_month = t_month (d 9), t_day = t_day (d 7), t_hour = t_hour (d 5), t_minute = t_minute (d 3),
      t_second = t_second (d 1)\<rparr>, p\<lparr>cmos_index := c, now := now p + 12\<rparr>)"
proof -
  have sc: "shows_clock secs cal (p\<lparr>cmos_index := c, now := k\<rparr>)" for c k using assms(1) by (simp add: shows_clock_def)
  have r: "r \<in> {0, 2, 4, 7, 8, 9} \<Longrightarrow> read_rtc r (p\<lparr>cmos_index := c, now := k\<rparr>) =
      (if r = 0 then t_second (cal (secs (k + 1))) else if r = 2 then t_minute (cal (secs (k + 1)))
      else if r = 4 then t_hour (cal (secs (k + 1))) else if r = 7 then t_day (cal (secs (k + 1)))
      else if r = 8 then t_month (cal (secs (k + 1))) else t_year (cal (secs (k + 1))) - 2000,
      p\<lparr>cmos_index := r, now := k + 2\<rparr>)" for r c k
    using read_rtc_shows [OF sc _ assms(2), where r = r] by simp
  have "read_rtc 0 p = (t_second (d 1), p\<lparr>cmos_index := 0, now := now p + 2\<rparr>)"
    using read_rtc_shows [OF assms(1) _ assms(2), of 0] by (simp add: d_def)
  moreover have "read_rtc 2 (p\<lparr>cmos_index := c, now := k\<rparr>) = (t_minute (cal (secs (k + 1))), p\<lparr>cmos_index := 2, now := k + 2\<rparr>)"
      "read_rtc 4 (p\<lparr>cmos_index := c, now := k\<rparr>) = (t_hour (cal (secs (k + 1))), p\<lparr>cmos_index := 4, now := k + 2\<rparr>)"
      "read_rtc 7 (p\<lparr>cmos_index := c, now := k\<rparr>) = (t_day (cal (secs (k + 1))), p\<lparr>cmos_index := 7, now := k + 2\<rparr>)"
      "read_rtc 8 (p\<lparr>cmos_index := c, now := k\<rparr>) = (t_month (cal (secs (k + 1))), p\<lparr>cmos_index := 8, now := k + 2\<rparr>)"
      "read_rtc 9 (p\<lparr>cmos_index := c, now := k\<rparr>) = (t_year (cal (secs (k + 1))) - 2000, p\<lparr>cmos_index := 9, now := k + 2\<rparr>)" for c k
    by (simp_all add: r)
  ultimately show ?thesis by (intro exI [of _ 9]) (simp add: read_rtc_async_def d_def eval_nat_numeral)
qed

text \<open>The date of one reading is a moment's when the second has not changed: the clock does not go round a minute meanwhile.\<close>

definition steady_clock :: "(nat \<Rightarrow> nat) \<Rightarrow> (nat \<Rightarrow> timer_date) \<Rightarrow> bool" where
  "steady_clock secs cal \<longleftrightarrow> mono secs \<and> (\<forall>t. secs (t + 12) < secs t + 60) \<and>
     (\<forall>s. two_digits (cal s) \<and> t_second (cal s) = int (s mod 60))"

lemma same_second:
  assumes "steady_clock secs cal" "t_second (cal (secs t)) = t_second (cal (secs (t + 12)))" "t \<le> u" "u \<le> t + 12"
  shows "secs u = secs t"
proof -
  have m: "secs t \<le> secs u" "secs u \<le> secs (t + 12)" "secs (t + 12) < secs t + 60"
    using assms(1,3,4) by (auto simp: steady_clock_def mono_def)
  have "secs t mod 60 = secs (t + 12) mod 60" using assms(1,2) by (simp add: steady_clock_def)
  moreover obtain x where x: "secs (t + 12) = secs t + x" using m by (metis le_Suc_ex le_trans)
  ultimately have "60 dvd x" by (metis mod_eq_dvd_iff_nat le_add1 diff_add_inverse)
  then have "x = 0" using m(3) x by (auto dest: dvd_imp_le)
  then show ?thesis using m x by simp
qed

lemma timer_rtc_turn:
  assumes "shows_clock secs cal p" "steady_clock secs cal"
  shows "\<exists>c. timer_rtc p = (let q = p\<lparr>cmos_index := c, now := now p + 14\<rparr>
    in if t_second (cal (secs (now p + 1))) = t_second (cal (secs (now p + 13))) then Some (cal (secs (now p + 1)), q) else timer_rtc q)"
proof -
  have d2: "\<And>s. two_digits (cal s)" using assms(2) by (simp add: steady_clock_def)
  let ?d = "\<lambda>i. cal (secs (now p + i))"
  obtain c where c: "read_rtc_async p = (\<lparr>t_year = t_year (?d 11), t_month = t_month (?d 9), t_day = t_day (?d 7),
      t_hour = t_hour (?d 5), t_minute = t_minute (?d 3), t_second = t_second (?d 1)\<rparr>, p\<lparr>cmos_index := c, now := now p + 12\<rparr>)"
    using read_rtc_async_shows [OF assms(1) d2] by blast
  have "shows_clock secs cal (p\<lparr>cmos_index := c, now := now p + 12\<rparr>)" using assms(1) by (simp add: shows_clock_def)
  then have s: "read_rtc 0 (p\<lparr>cmos_index := c, now := now p + 12\<rparr>) =
      (t_second (?d 13), p\<lparr>cmos_index := 0, now := now p + 14\<rparr>)"
    using read_rtc_shows [OF _ _ d2, where r = 0] by (simp add: add.commute)
  have "\<lparr>t_year = t_year (?d 11), t_month = t_month (?d 9), t_day = t_day (?d 7), t_hour = t_hour (?d 5),
      t_minute = t_minute (?d 3), t_second = t_second (?d 1)\<rparr> = ?d 1" if "t_second (?d 1) = t_second (?d 13)"
  proof -
    have "secs (now p + i) = secs (now p + 1)" if "1 \<le> i" "i \<le> 13" for i
      by (rule same_second [OF assms(2)]) (use \<open>t_second (?d 1) = t_second (?d 13)\<close> that in \<open>simp_all add: add.commute\<close>)
    then show ?thesis by simp
  qed
  then show ?thesis by (intro exI [of _ 0], subst timer_rtc.simps) (simp add: c s Let_def)
qed

text \<open>
  C7. A date read from the clock of x86-qemu is one the clock has shown at a single moment of the call, never
  a mixture of two, although the registers are read one by one while the clock runs; and the call returns if
  the clock stands still, once in a while, for the time of two readings.
\<close>

theorem timer_rtc_snapshot:
  assumes "shows_clock secs cal p" "steady_clock secs cal" "\<And>t. \<exists>t' \<ge> t. secs (t' + 28) = secs t'"
  shows "\<exists>t c n. timer_rtc p = Some (cal (secs t), p\<lparr>cmos_index := c, now := n\<rparr>) \<and> now p < t \<and> t < n"
proof -
  have "\<exists>t c n. timer_rtc p = Some (cal (secs t), p\<lparr>cmos_index := c, now := n\<rparr>) \<and> now p < t \<and> t < n"
    if "shows_clock secs cal p" "secs (now p + 14 * j + 13) = secs (now p + 14 * j + 1)" for j and p
    using that
  proof (induction j arbitrary: p)
    case 0
    obtain c where "timer_rtc p = Some (cal (secs (now p + 1)), p\<lparr>cmos_index := c, now := now p + 14\<rparr>)"
      using timer_rtc_turn [OF 0(1) assms(2)] 0(2) by auto
    then show ?case by (intro exI [of _ "now p + 1"] exI [of _ c] exI [of _ "now p + 14"]) simp
  next
    case (Suc j)
    obtain c where c: "timer_rtc p = (let q = p\<lparr>cmos_index := c, now := now p + 14\<rparr>
        in if t_second (cal (secs (now p + 1))) = t_second (cal (secs (now p + 13))) then Some (cal (secs (now p + 1)), q) else timer_rtc q)"
      using timer_rtc_turn [OF Suc.prems(1) assms(2)] by blast
    let ?q = "p\<lparr>cmos_index := c, now := now p + 14\<rparr>"
    have "\<exists>t c n. timer_rtc ?q = Some (cal (secs t), ?q\<lparr>cmos_index := c, now := n\<rparr>) \<and> now ?q < t \<and> t < n"
      by (rule Suc.IH) (use Suc.prems in \<open>simp_all add: shows_clock_def algebra_simps\<close>)
    then obtain t c2 n where t: "timer_rtc ?q = Some (cal (secs t), p\<lparr>cmos_index := c2, now := n\<rparr>)" "now p + 14 < t" "t < n"
      by auto
    show ?case
    proof (cases "t_second (cal (secs (now p + 1))) = t_second (cal (secs (now p + 13)))")
      case True
      then show ?thesis using c by (intro exI [of _ "now p + 1"] exI [of _ c] exI [of _ "now p + 14"]) simp
    next
      case False
      then show ?thesis using c t by (intro exI [of _ t] exI [of _ c2] exI [of _ n]) simp
    qed
  qed
  note turns = this
  obtain t' where t': "now p \<le> t'" "secs (t' + 28) = secs t'" using assms(3) by blast
  define j where "j = (t' - now p + 13) div 14"
  have k: "t' \<le> now p + 14 * j" "now p + 14 * j \<le> t' + 13" using t'(1) unfolding j_def by linarith+
  have m: "mono secs" using assms(2) by (simp add: steady_clock_def)
  have "secs t' \<le> secs (now p + 14 * j + 1)" "secs (now p + 14 * j + 1) \<le> secs (now p + 14 * j + 13)"
    "secs (now p + 14 * j + 13) \<le> secs (t' + 28)"
    using k by (auto intro!: monoD [OF m])
  then show ?thesis using turns [OF assms(1), of j] t'(2) by simp
qed

text \<open>A clock that goes on by a second every 100 moments, and starts just before a minute.\<close>

definition demo_secs :: "nat \<Rightarrow> nat" where "demo_secs t = 59 + t div 100"

definition demo_date :: "nat \<Rightarrow> timer_date" where
  "demo_date s = \<lparr>t_year = 2021, t_month = 12, t_day = 31, t_hour = 23, t_minute = int (s div 60 mod 60), t_second = int (s mod 60)\<rparr>"

definition demo_clock :: pc_machine where
  "demo_clock = tiny_pc\<lparr>now := 97, cmos := (\<lambda>t r. date_register (demo_date (demo_secs t)) r)\<rparr>"

theorem timer_rtc_snapshot_witness:
  "\<exists>t c n. timer_rtc demo_clock = Some (demo_date (demo_secs t), demo_clock\<lparr>cmos_index := c, now := n\<rparr>) \<and>
    now demo_clock < t \<and> t < n"
proof (rule timer_rtc_snapshot)
  show "shows_clock demo_secs demo_date demo_clock" by (simp add: shows_clock_def demo_clock_def)
  have "two_digits (demo_date s)" for s
    using mod_less_divisor [of 60 "s div 60"] mod_less_divisor [of 60 s] by (simp add: two_digits_def demo_date_def del: mod_less_divisor)
  moreover have "(t + 12) div 100 < 60 + t div 100" for t :: nat by linarith
  ultimately show "steady_clock demo_secs demo_date"
    by (simp add: steady_clock_def demo_secs_def demo_date_def mono_def div_le_mono)
  show "\<exists>t' \<ge> t. demo_secs (t' + 28) = demo_secs t'" for t by (rule exI [of _ "100 * t"]) (simp add: demo_secs_def)
qed

text \<open>
  The frequency is measured in units of \<open>2\<^sup>2\<^sup>0\<close> ticks a second and used as millions of them: with a counter of
  k such units, s seconds are reported as 1048576 s microseconds.
\<close>

lemma uptime_unit:
  assumes "0 < k" "k < 2 ^ 32" "k * s * 2 ^ 20 < 2 ^ 64" "freq_mhz t = of_nat k" "tsc p (now p) = uptsc t + of_nat (k * s * 2 ^ 20)"
  shows "timer_uptime t p = Inr (of_nat (1048576 * s), next_moment p)"
proof -
  have f: "freq_mhz t \<noteq> 0" "unat (ucast (freq_mhz t) :: u64) = k"
  proof -
    have u: "unat (freq_mhz t) = k" using assms(2,4) by (simp add: unat_of_nat)
    then show "freq_mhz t \<noteq> 0" using assms(1) by auto
    show "unat (ucast (freq_mhz t) :: u64) = k" using u assms(2) by (simp add: unsigned_ucast_eq take_bit_eq_mod)
  qed
  have n: "unat (of_nat (k * s * 2 ^ 20) :: u64) = k * s * 2 ^ 20" unfolding unat_of_nat by (rule mod_less) (use assms(3) in simp)
  have "s \<le> k * s" using assms(1) by simp
  then have "s * 2 ^ 20 < 2 ^ 64" using assms(3) by (meson le_less_trans mult_le_mono1)
  then have m: "unat (of_nat (1048576 * s) :: u64) = 1048576 * s" unfolding unat_of_nat by (intro mod_less) simp
  have "(of_nat (k * s * 2 ^ 20) :: u64) div ucast (freq_mhz t) = of_nat (1048576 * s)"
    by (rule word_unat_eq_iff [THEN iffD2]) (simp only: unat_div n f(2) m, use assms(1) in \<open>simp add: mult.assoc\<close>)
  then show ?thesis using f(1) assms(5) by (simp add: timer_uptime_def rdtsc_def)
qed

section \<open>Serial line and keyboard\<close>

text \<open>After initialisation the data port transmits and receives: the divisor latch is closed again.\<close>

lemma divisor_latch: "(x AND 0xff00 OR y) AND 0xff = y AND (0xff :: u16)"
  by (simp add: bit.conj_disj_distrib2 and.assoc)

lemma uart_works:
  "com_lcr p AND 0x80 = 0 \<Longrightarrow> com_out (uart_tx ch (uart_init p)) = com_out p @ [ch]"
  "com_divisor (uart_init p) = 12"
  "com_lcr p AND 0x80 = 0 \<Longrightarrow> com_in p = c # d # cs \<Longrightarrow> fst (uart_rx (uart_init p)) = d"
  "com_in p = [] \<Longrightarrow> fst (uart_rx p) = -1"
  by (simp_all add: uart_init_def uart_tx_def uart_rx_def COM1_def pc_outb_def pc_inb_def next_moment_def Let_def divisor_latch split: list.splits)

text \<open>The two Alt keys share a scan code: the left one is never reported.\<close>

lemma nth_first: "i \<in> set xs \<Longrightarrow> xs ! length (takeWhile (\<lambda>x. x \<noteq> i) xs) = i"
  by (induction xs) auto

lemma AM_KEY_inj: "k \<in> set AM_KEYS \<Longrightarrow> AM_KEY k = AM_KEY j \<Longrightarrow> j \<in> set AM_KEYS \<Longrightarrow> k = j"
  by (metis AM_KEY_def Suc_inject nth_first)

lemma left_alt_lost: "key_of_code c \<noteq> AM_KEY ''LALT''"
proof (cases "map_of (rev keylut) c")
  case None
  then show ?thesis by (simp add: key_of_code_def AM_KEY_def)
next
  case (Some k)
  then have "(c, k) \<in> set keylut" by (auto dest: map_of_SomeD)
  moreover have "snd ` set keylut \<subseteq> set AM_KEYS" by (simp add: keylut_def AM_KEYS_def)
  ultimately have k: "k \<in> set AM_KEYS" by force
  have "k \<noteq> ''LALT''"
  proof
    assume "k = ''LALT''"
    then have "c = 0x38" using \<open>(c, k) \<in> set keylut\<close> by (auto simp: keylut_def)
    then show False using Some \<open>k = ''LALT''\<close> by (simp add: keylut_def)
  qed
  moreover have "''LALT'' \<in> set AM_KEYS" by (simp add: AM_KEYS_def)
  ultimately show ?thesis using AM_KEY_inj [OF k] Some by (auto simp: key_of_code_def)
qed

end
