(* ===== verification/Spec2Isabelle.thy ===== *)
theory Spec2Isabelle
  imports Difftest Int64Props KlibStdioProps RiscvProps Mips32 X86 CpuExec DeviceProps DebugBuild AmAudio X86VmeBuild MonitorProps GenExprProps X86CteProps X86IoeProps
begin

text \<open>
  A verification library for the ICS programming assignments: the NEMU emulator (\<open>src/nemu\<close>) with
  its debugger, devices and three instruction sets, its tools for differential testing and for test
  expressions, the small C library (\<open>src/abstract-machine/klib\<close>) and the abstract machine
  (\<open>src/abstract-machine/am\<close>) on NEMU and on x86.

  \<^bold>\<open>The program.\<close> \<open>main\<close> parses the options, loads an image, initialises the monitor and hands the terminal
  to \<open>ui_mainloop\<close>. The debugger's commands inspect guest registers, memory and expressions, keep
  watchpoints, and run the guest through \<open>cpu_exec\<close>, which calls the instruction set's \<open>isa_exec_once\<close> once
  per instruction and then \<open>device_update\<close>. An instruction reaches memory through \<open>vaddr_read\<close> and
  \<open>vaddr_write\<close>, which go to the array \<open>pmem\<close> or to the map of a device; the device's callback runs around
  the access. The run state (\<open>nemu_state\<close>) is what engine, instructions, devices and debugger communicate
  through. A guest program reaches the devices through the abstract machine's \<open>ioe_read\<close> and \<open>ioe_write\<close>.

  \<^bold>\<open>Theories and sources.\<close>
    \<^item> \<open>NemuPrelude\<close>: the names of the C integer types, the datatype \<open>fault\<close> of what ends a C run
      early (assertion, panic, access outside an object, uninitialised read, overflow), the result
      type \<open>fault + 'a\<close> with its bind \<open>bnd\<close> and, for loops that may not end, \<open>obnd\<close> on options of
      results; generic lemmas.
    \<^item> \<open>Machine\<close>: the record \<open>machine\<close> of all file-scope state (registers, \<open>pmem\<close>, maps, \<open>io_space\<close>,
      devices, \<open>nemu_state\<close>) and the record \<open>host\<close> of what comes from outside (clock, queued SDL
      events, terminal).
    \<^item> \<open>Devices\<close>, \<open>IoMap\<close>, \<open>Paddr\<close>: \<open>nemu/src/device\<close>, \<open>device/io\<close>, \<open>memory/paddr.c\<close>: one definition per
      handler, init function and bus operation. \<open>Bus\<close> and \<open>DeviceProps\<close> hold their lemmas.
    \<^item> \<open>Rtl\<close>: the register transfer operations of \<open>engine/interpreter\<close> and \<open>include/rtl\<close>.
    \<^item> \<open>Riscv32\<close>, \<open>Mips32\<close>, \<open>X86\<close>: \<open>nemu/src/isa\<close>. \<open>RiscvSpec\<close> is a specification of RV32IM written
      from the instruction set; \<open>RiscvRefine\<close> and \<open>RiscvProps\<close> prove that the interpreter implements it.
    \<^item> \<open>CpuExec\<close>: \<open>monitor/cpu-exec.c\<close>, over a locale \<open>isa_step\<close> of one instruction, interpreted for
      riscv32, mips32 and x86. \<open>DebugBuild\<close> is the same loop in a build with \<open>DEBUG\<close>, which checks the
      watchpoints after every instruction.
    \<^item> \<open>Watchpoint\<close>, \<open>Expr\<close> (with \<open>ExprTotal\<close>, \<open>ExprGrammar\<close>, \<open>ExprProps\<close>), \<open>Ui\<close>, \<open>UiProps\<close>:
      \<open>monitor/debug\<close>. \<open>CString\<close> models the C library functions the debugger parses lines with.
    \<^item> \<open>Monitor\<close>, \<open>MonitorProps\<close>: \<open>monitor/monitor.c\<close>, \<open>debug/log.c\<close> and \<open>main.c\<close>, the whole of a run.
    \<^item> \<open>Gdb\<close>, \<open>GdbProps\<close>: \<open>tools/qemu-diff\<close>, the client that speaks GDB's remote protocol to QEMU.
      \<open>Difftest\<close>: \<open>monitor/difftest/dut.c\<close> over a locale \<open>ref_machine\<close>, interpreted for NEMU itself and for
      the GDB client.
    \<^item> \<open>GenExpr\<close>, \<open>GenExprProps\<close>: \<open>tools/gen-expr\<close>, whose expressions are fed to \<open>Expr\<close>.
    \<^item> \<open>KlibString\<close>, \<open>KlibProps\<close>, \<open>KlibStdio\<close>, \<open>KlibStdioProps\<close>: \<open>klib/src/string.c\<close>, \<open>stdlib.c\<close>,
      \<open>stdio.c\<close> on a byte memory. \<open>Int64\<close>, \<open>Int64Props\<close>: the division routines of \<open>int64.c\<close>.
    \<^item> \<open>AmIoe\<close>, \<open>AmIoeProps\<close>, \<open>AmAudio\<close>: \<open>am/src/nemu\<close>, the guest's side of the devices, executed on the
      bus of the emulator.
    \<^item> \<open>X86Vme\<close>, \<open>X86VmeBuild\<close>, \<open>X86VmeProps\<close>: \<open>am/src/x86/qemu/vme.c\<close>, page tables in a physical memory.
      \<open>X86Cte\<close>, \<open>X86CteProps\<close>: \<open>cte.c\<close> and \<open>trap32.S\<close>, interrupts and contexts, instruction by instruction.
    \<^item> \<open>X86Pc\<close>: the port instructions and the devices behind the ports of a PC. \<open>X86Boot\<close>, \<open>X86BootProps\<close>:
      the boot loader \<open>boot/main.c\<close>. \<open>X86Ioe\<close>, \<open>X86IoeProps\<close>: serial line, clock, keyboard and disk of \<open>ioe.c\<close>.
    \<^item> \<open>Interfaces\<close>: the contracts of a bounded queue and of an addressed store as locales, interpreted on
      the key queue, the register files, the device registers and guest memory. Other locales stand with
      their components: \<open>isa_step\<close>, \<open>ref_machine\<close>, \<open>chunk_codec\<close>, \<open>watch_list\<close>.

  \<^bold>\<open>What is shown.\<close> Refinement of the instruction set specifications; the run-state protocol of the
  engine; a whole run from the command line to the exit status; what each device does for the guest, from
  the store to the effect on the host and back; the layout of the maps; the watchpoint pool as a list;
  the expression evaluator as a parser with precedences, with its totality; every debugger command; the
  verdict of differential testing over a faulty line; the C library functions against their documented
  meaning; page tables as maps and their isolation; the transparency of interrupts; what the boot loader
  puts into memory. Where the code departs
  from what it means to do, the theorem states what it does and the manifest lists the finding.

  \<^bold>\<open>Bounds and fuel.\<close> Loops whose end depends on data are \<open>partial_function (option)\<close> with a theorem that
  they return (the prefix loop of x86, the scan loops of klib, \<open>ui_loop\<close>, the audio loop under a schedule,
  the generator under random numbers that let it end), or are structural on the count the C code counts
  down. \<open>cpu_loop\<close> recurses on the number of instructions asked for, so no fuel is chosen.

  \<^bold>\<open>The outside.\<close> SDL, readline, the host clock and files are fields of the model's records or arguments: the
  events polled, the lines typed, the contents of files. SDL calls the audio callback on a schedule the
  theorems quantify over. A socket is the list of bytes the peer sends; its errors are not modelled.
  \<open>getopt_long\<close>, \<open>sscanf\<close>, \<open>strtok\<close> and the regular expressions are modelled as far as the code uses them.

  \<^bold>\<open>Not modelled.\<close> Start-up code in assembly and linker scripts; of x86-qemu the graphics, the interrupt
  controllers and the start of further processors; the 64-bit variants of the x86 code, which
  preprocessor conditions select; the native platform of the abstract machine, which is calls of the host's
  signals, mappings and SDL; \<open>kvm-diff\<close>, which drives the kernel's virtual machine through \<open>ioctl\<close>; the
  ports' stubs whose bodies are TODO or empty; terminal output other than the characters themselves.\<close>

end
